(* ===== verification/Relay_Prelude.thy ===== *)
theory Relay_Prelude
  imports Main "HOL-Library.Sublist"
begin

text \<open>
  Shared vocabulary of the development.

  \<^item> Go's byte strings are \<^typ>\<open>string\<close> (a \<^typ>\<open>char list\<close>, one char per byte); the few functions
    of Go's package \<open>strings\<close> the modelled code calls are defined here on bytes.
  \<^item> A stateful converter of the gateway is a function from a state and an input event to the
    next state and the emitted events; \<open>run_stream\<close> feeds it a whole stream.
  \<^item> A wire protocol is an executable acceptor, a partial step function; \<open>accepts\<close> runs it.
  \<^item> The locales \<open>stream_invariant\<close>, \<open>stream_observer\<close>, \<open>stream_protocol\<close>, \<open>stream_milestone\<close>,
    \<open>stream_trigger\<close> and \<open>stream_numbering\<close> state once how a fact about one step becomes a fact
    about a whole run; the converters interpret them.
\<close>

named_theorems zero_defs "zero values of the Go structs"
named_theorems go_string "the functions of Go's package strings"

subsection \<open>Go's package strings, on bytes\<close>

definition byte :: "nat \<Rightarrow> char" where
  "byte n = char_of n"

text \<open>
  The UTF-8 encodings of the code points for which \<open>unicode.IsSpace\<close> holds: the ASCII ones, U+0085,
  U+00A0, U+1680, U+2000 to U+200A, U+2028, U+2029, U+202F, U+205F and U+3000.
\<close>

definition space_encodings :: "string list" where
  "space_encodings =
     map (\<lambda>n. [byte n]) [9, 10, 11, 12, 13, 32]
     @ map (map byte) [[0xC2, 0x85], [0xC2, 0xA0], [0xE1, 0x9A, 0x80]]
     @ map (\<lambda>n. [byte 0xE2, byte 0x80, byte (0x80 + n)]) [0, 1, 2, 3, 4, 5, 6, 7, 8, 9, 10]
     @ map (map byte)
         [[0xE2, 0x80, 0xA8], [0xE2, 0x80, 0xA9], [0xE2, 0x80, 0xAF], [0xE2, 0x81, 0x9F],
          [0xE3, 0x80, 0x80]]"

text \<open>
  \<open>strip_lead es fuel s\<close> removes encodings of \<open>es\<close> from the front. Every removed encoding is not
  empty, so \<open>length s\<close> rounds suffice (\<open>strip_lead_stops\<close>).
\<close>

fun strip_lead :: "string list \<Rightarrow> nat \<Rightarrow> string \<Rightarrow> string" where
  "strip_lead es 0 s = s"
| "strip_lead es (Suc n) s =
     (case find (\<lambda>e. prefix e s) es of
        None \<Rightarrow> s
      | Some e \<Rightarrow> strip_lead es n (drop (length e) s))"

definition trim_left :: "string list \<Rightarrow> string \<Rightarrow> string" where
  "trim_left es s = strip_lead es (length s) s"

text \<open>\<open>strings.TrimSpace\<close>: the encodings are stripped at the front, then at the back.\<close>

definition TrimSpace :: "string \<Rightarrow> string" where
  "TrimSpace s =
     rev (trim_left (map rev space_encodings) (rev (trim_left space_encodings s)))"

definition HasPrefix :: "string \<Rightarrow> string \<Rightarrow> bool" where
  [go_string]: "HasPrefix s p = prefix p s"

text \<open>\<open>strings.CutPrefix\<close>: the rest and true, or the whole string and false.\<close>

definition CutPrefix :: "string \<Rightarrow> string \<Rightarrow> string \<times> bool" where
  [go_string]: "CutPrefix s p = (if prefix p s then (drop (length p) s, True) else (s, False))"

definition TrimPrefix :: "string \<Rightarrow> string \<Rightarrow> string" where
  "TrimPrefix s p = fst (CutPrefix s p)"

text \<open>\<open>strings.ToLower\<close>: ASCII text is mapped byte by byte, other text by the case tables of Unicode, the argument \<open>uni\<close>.\<close>

definition lower_byte :: "char \<Rightarrow> char" where
  "lower_byte c = (if 65 \<le> (of_char c :: nat) \<and> (of_char c :: nat) \<le> 90 then char_of ((of_char c :: nat) + 32) else c)"

definition ToLower :: "(string \<Rightarrow> string) \<Rightarrow> string \<Rightarrow> string" where
  "ToLower uni s = (if list_all (\<lambda>c. (of_char c :: nat) < 128) s then map lower_byte s else uni s)"

text \<open>\<open>strconv.Atoi\<close>, and \<open>json.Number.Int64\<close>, which reads the same numbers.\<close>

definition digit_value :: "char \<Rightarrow> int" where
  "digit_value c = of_char c - 48"

definition Atoi :: "string \<Rightarrow> int option" where
  "Atoi s =
     (let neg = (s \<noteq> [] \<and> hd s = CHR ''-'');
          ds = (if s \<noteq> [] \<and> (hd s = CHR ''-'' \<or> hd s = CHR ''+'') then tl s else s);
          v = foldl (\<lambda>a c. 10 * a + digit_value c) 0 ds;
          n = (if neg then - v else v)
      in if ds = [] \<or> \<not> list_all (\<lambda>c. 0 \<le> digit_value c \<and> digit_value c \<le> 9) ds then None
         else if - (2 ^ 63) \<le> n \<and> n < 2 ^ 63 then Some n else None)"

lemma TrimSpace_Nil [simp]: "TrimSpace [] = []"
  by (simp add: TrimSpace_def trim_left_def)

lemma length_strip_lead: "length (strip_lead es n s) \<le> length s"
proof (induction n arbitrary: s)
  case (Suc n)
  have "length (strip_lead es n (drop k s)) \<le> length s" for k
    using Suc.IH [of "drop k s"] by simp
  then show ?case by (simp split: option.split)
qed simp

lemma strip_lead_stops:
  assumes "[] \<notin> set es" and "length s \<le> n" and "e \<in> set es"
  shows "\<not> prefix e (strip_lead es n s)"
  using assms(2)
proof (induction n arbitrary: s)
  case 0
  then show ?case using assms(1,3) by (auto simp: prefix_Nil)
next
  case (Suc n)
  show ?case
  proof (cases "find (\<lambda>e. prefix e s) es")
    case None
    then have "\<not> prefix e s" using assms(3) by (auto simp: find_None_iff)
    with None show ?thesis by simp
  next
    case (Some e')
    then have e': "e' \<in> set es" "prefix e' s" by (auto simp: find_Some_iff)
    then have "0 < length e'" using assms(1) by (cases e') auto
    then have "length (drop (length e') s) \<le> n" using Suc.prems by (simp del: length_greater_0_conv)
    then show ?thesis using Some by (simp add: Suc.IH)
  qed
qed

lemma space_encodings_nonempty: "[] \<notin> set space_encodings"
  by (simp add: space_encodings_def)

text \<open>No white space is left at either end.\<close>

lemma TrimSpace_no_trailing:
  assumes "e \<in> set space_encodings"
  shows "\<not> suffix e (TrimSpace s)"
proof -
  define t where "t = rev (trim_left space_encodings s)"
  have "\<not> prefix (rev e) (strip_lead (map rev space_encodings) (length t) t)"
    using assms space_encodings_nonempty by (intro strip_lead_stops) auto
  then show ?thesis by (simp add: TrimSpace_def trim_left_def suffix_to_prefix t_def)
qed

lemma suffix_strip_lead: "suffix (strip_lead es n s) s"
proof (induction n arbitrary: s)
  case (Suc n)
  have "suffix (strip_lead es n (drop k s)) s" for k
    using Suc.IH [of "drop k s"] suffix_drop suffix_order.trans by blast
  then show ?case by (simp split: option.split)
qed simp

lemma TrimSpace_no_leading:
  assumes "e \<in> set space_encodings"
  shows "\<not> prefix e (TrimSpace s)"
proof
  assume "prefix e (TrimSpace s)"
  moreover have "prefix (TrimSpace s) (trim_left space_encodings s)"
    unfolding TrimSpace_def trim_left_def [of "map rev _"]
    by (metis rev_rev_ident suffix_strip_lead suffix_to_prefix)
  ultimately have "prefix e (trim_left space_encodings s)" by (rule prefix_order.trans)
  then show False using assms space_encodings_nonempty strip_lead_stops [of space_encodings s "length s" e] by (simp add: trim_left_def)
qed

lemma strip_lead_none:
  assumes "\<And>e. e \<in> set es \<Longrightarrow> \<not> prefix e s"
  shows "strip_lead es n s = s"
proof -
  have "find (\<lambda>e. prefix e s) es = None" using assms by (simp add: find_None_iff)
  then show ?thesis by (cases n) simp_all
qed

lemma TrimSpace_idem [simp]: "TrimSpace (TrimSpace s) = TrimSpace s"
proof -
  have "strip_lead space_encodings n (TrimSpace s) = TrimSpace s" for n
    by (rule strip_lead_none) (rule TrimSpace_no_leading)
  moreover have "strip_lead (map rev space_encodings) n (rev (TrimSpace s)) = rev (TrimSpace s)" for n
    by (rule strip_lead_none) (use TrimSpace_no_trailing suffix_to_prefix in fastforce)
  ultimately show ?thesis by (simp add: TrimSpace_def [of "TrimSpace s"] trim_left_def)
qed

lemma TrimSpace_shorter: "length (TrimSpace s) \<le> length s"
  using length_strip_lead [of space_encodings "length s" s]
  by (auto simp: TrimSpace_def trim_left_def intro: order_trans [OF length_strip_lead])

lemma find_SomeD: "find P xs = Some x \<Longrightarrow> x \<in> set xs \<and> P x"
  by (induction xs) (auto split: if_splits)

lemma find_by_key: "distinct (map k xs) \<Longrightarrow> x \<in> set xs \<Longrightarrow> find (\<lambda>y. k y = k x) xs = Some x"
  by (induction xs) (auto simp: image_iff)

text \<open>A byte that occurs in no white space ends the trimming.\<close>

lemma strip_lead_snoc:
  "(\<And>e. e \<in> set es \<Longrightarrow> c \<notin> set e) \<Longrightarrow> \<exists>t. strip_lead es n (s @ [c]) = t @ [c]"
proof (induction n arbitrary: s)
  case (Suc n)
  show ?case
  proof (cases "find (\<lambda>e. prefix e (s @ [c])) es")
    case None
    then show ?thesis by simp
  next
    case (Some e)
    then have e: "e \<in> set es" "prefix e (s @ [c])" using find_SomeD by fastforce+
    moreover have "e \<noteq> s @ [c]" using Suc.prems [OF e(1)] by auto
    ultimately have "prefix e s" by simp
    then have "drop (length e) (s @ [c]) = drop (length e) s @ [c]" by (simp add: prefix_length_le)
    then show ?thesis using Some Suc by simp
  qed
qed simp

lemma TrimSpace_snoc:
  assumes "\<And>e. e \<in> set space_encodings \<Longrightarrow> c \<notin> set e"
  shows "TrimSpace (s @ [c]) \<noteq> []"
proof -
  obtain t where t: "trim_left space_encodings (s @ [c]) = t @ [c]"
    unfolding trim_left_def using strip_lead_snoc [of space_encodings c] assms by blast
  have "find (\<lambda>e. prefix e (c # rev t)) (map rev space_encodings) = None"
    using assms space_encodings_nonempty by (force simp: find_None_iff prefix_Cons)
  then have eq: "strip_lead (map rev space_encodings) n (c # rev t) = c # rev t" for n by (cases n) simp_all
  have "trim_left (map rev space_encodings) (rev (t @ [c])) = c # rev t"
    by (simp add: trim_left_def eq del: strip_lead.simps)
  then show ?thesis unfolding TrimSpace_def t by simp
qed

text \<open>Text that begins and ends with a visible ASCII character is not trimmed.\<close>

definition printable :: "char \<Rightarrow> bool" where
  "printable c = (33 \<le> (of_char c :: nat) \<and> (of_char c :: nat) < 128)"

lemma space_ends: "list_all (\<lambda>e. e \<noteq> [] \<and> \<not> printable (hd e) \<and> \<not> printable (last e)) space_encodings"
  by code_simp

lemma trim_left_printable:
  assumes "\<forall>e \<in> set es. e \<noteq> [] \<and> \<not> printable (hd e)" and "s \<noteq> []" and "printable (hd s)"
  shows "trim_left es s = s"
proof -
  have "\<not> prefix e s" if "e \<in> set es" for e
    using assms that by (cases e; cases s) auto
  then have "find (\<lambda>e. prefix e s) es = None" by (simp add: find_None_iff)
  then show ?thesis by (cases s) (simp_all add: trim_left_def)
qed

lemma TrimSpace_printable:
  assumes "s \<noteq> []" and "printable (hd s)" and "printable (last s)"
  shows "TrimSpace s = s"
proof -
  have "trim_left space_encodings s = s"
    using space_ends assms by (intro trim_left_printable) (auto simp: list_all_iff)
  moreover have "trim_left (map rev space_encodings) (rev s) = rev s"
    using space_ends assms by (intro trim_left_printable) (auto simp: list_all_iff hd_rev)
  ultimately show ?thesis by (simp add: TrimSpace_def)
qed

subsection \<open>Runs of a stream converter\<close>

fun run_stream :: "('s \<Rightarrow> 'i \<Rightarrow> 's \<times> 'o list) \<Rightarrow> 's \<Rightarrow> 'i list \<Rightarrow> 's \<times> 'o list" where
  "run_stream step s [] = (s, [])"
| "run_stream step s (i # is) =
     (let (s1, o1) = step s i; (s2, o2) = run_stream step s1 is in (s2, o1 @ o2))"

lemma run_stream_Cons:
  "run_stream step s (i # is) =
     (fst (run_stream step (fst (step s i)) is),
      snd (step s i) @ snd (run_stream step (fst (step s i)) is))"
  by (simp add: split_beta Let_def)

lemma run_stream_append:
  "run_stream step s (is @ js) =
     (fst (run_stream step (fst (run_stream step s is)) js),
      snd (run_stream step s is) @ snd (run_stream step (fst (run_stream step s is)) js))"
  by (induction "is" arbitrary: s) (simp_all add: split_beta Let_def)

lemmas run_stream_simps = run_stream.simps(1) run_stream_Cons
declare run_stream.simps(2) [simp del]

subsection \<open>Protocol acceptors\<close>

fun accepts :: "('p \<Rightarrow> 'o \<Rightarrow> 'p option) \<Rightarrow> 'p \<Rightarrow> 'o list \<Rightarrow> 'p option" where
  "accepts acc p [] = Some p"
| "accepts acc p (x # xs) = (case acc p x of None \<Rightarrow> None | Some p' \<Rightarrow> accepts acc p' xs)"

lemma accepts_append:
  "accepts acc p (xs @ ys) =
     (case accepts acc p xs of None \<Rightarrow> None | Some p' \<Rightarrow> accepts acc p' ys)"
  by (induction xs arbitrary: p) (auto split: option.splits)

lemma accepts_appendI:
  "accepts acc p xs = Some q \<Longrightarrow> accepts acc q ys = r \<Longrightarrow> accepts acc p (xs @ ys) = r"
  by (simp add: accepts_append)

subsection \<open>Lists and options\<close>

text \<open>What an observer \<open>f\<close> reads off a list of events, in order.\<close>

definition gather :: "('a \<Rightarrow> 'v list) \<Rightarrow> 'a list \<Rightarrow> 'v list" where
  "gather f xs = concat (map f xs)"

lemma gather_simps [simp]:
  "gather f [] = []"
  "gather f (x # xs) = f x @ gather f xs"
  "gather f (xs @ ys) = gather f xs @ gather f ys"
  by (simp_all add: gather_def)

text \<open>A counted event: how many elements of a list satisfy a predicate.\<close>

definition count_if :: "('a \<Rightarrow> bool) \<Rightarrow> 'a list \<Rightarrow> nat" where
  "count_if P xs = length (filter P xs)"

lemma count_if_simps [simp]:
  "count_if P [] = 0"
  "count_if P (x # xs) = (if P x then Suc (count_if P xs) else count_if P xs)"
  "count_if P (xs @ ys) = count_if P xs + count_if P ys"
  by (simp_all add: count_if_def)

subsection \<open>From one step to whole runs\<close>

locale stream_invariant =
  fixes step :: "'s \<Rightarrow> 'i \<Rightarrow> 's \<times> 'o list"
    and inv :: "'s \<Rightarrow> bool"
  assumes step_inv: "inv s \<Longrightarrow> inv (fst (step s i))"
begin

lemma run_inv: "inv s \<Longrightarrow> inv (fst (run_stream step s is))"
  by (induction "is" arbitrary: s) (simp_all add: run_stream_simps step_inv)

end

text \<open>
  An observer reads a list of values off every input and every output event. If each step shows
  the same values on both sides, so does every run: nothing is lost, repeated or reordered.
\<close>

locale stream_observer = stream_invariant step inv
  for step :: "'s \<Rightarrow> 'i \<Rightarrow> 's \<times> 'o list" and inv :: "'s \<Rightarrow> bool" +
  fixes obs_in :: "'i \<Rightarrow> 'v list"
    and obs_out :: "'o \<Rightarrow> 'v list"
  assumes step_obs: "inv s \<Longrightarrow> gather obs_out (snd (step s i)) = obs_in i"
begin

lemma run_obs:
  "inv s \<Longrightarrow> gather obs_out (snd (run_stream step s is)) = gather obs_in is"
  by (induction "is" arbitrary: s) (simp_all add: run_stream_simps step_obs step_inv)

end

text \<open>
  A converter speaks a protocol when its state and the acceptor's state stay related. The inputs
  are restricted by an acceptor of their own, whose state the relation may mention.
\<close>

locale stream_protocol =
  fixes step :: "'s \<Rightarrow> 'i \<Rightarrow> 's \<times> 'o list"
    and inp :: "'q \<Rightarrow> 'i \<Rightarrow> 'q option"
    and out :: "'p \<Rightarrow> 'o \<Rightarrow> 'p option"
    and rel :: "'q \<Rightarrow> 's \<Rightarrow> 'p \<Rightarrow> bool"
  assumes step_sim: "rel q s p \<Longrightarrow> inp q i = Some q' \<Longrightarrow>
    \<exists>p'. accepts out p (snd (step s i)) = Some p' \<and> rel q' (fst (step s i)) p'"
begin

lemma run_sim:
  "rel q s p \<Longrightarrow> accepts inp q is = Some q' \<Longrightarrow>
    \<exists>p'. accepts out p (snd (run_stream step s is)) = Some p' \<and>
         rel q' (fst (run_stream step s is)) p'"
proof (induction "is" arbitrary: q s p)
  case Nil
  then show ?case by simp
next
  case (Cons i "is")
  from Cons.prems(2) obtain q1 where q1: "inp q i = Some q1" "accepts inp q1 is = Some q'"
    by (auto split: option.splits)
  from step_sim [OF Cons.prems(1) q1(1)] obtain p1
    where p1: "accepts out p (snd (step s i)) = Some p1" "rel q1 (fst (step s i)) p1"
    by blast
  from Cons.IH [OF p1(2) q1(2)] p1(1) show ?case
    by (auto simp: run_stream_simps intro: accepts_appendI)
qed

end

text \<open>
  A milestone is an event that goes out when a flag of the state is set, and the flag is never
  cleared: over a whole run it is emitted once if the flag was set during the run, else never.
\<close>

locale stream_milestone =
  fixes step :: "'s \<Rightarrow> 'i \<Rightarrow> 's \<times> 'o list"
    and flag :: "'s \<Rightarrow> bool"
    and mark :: "'o \<Rightarrow> bool"
  assumes step_flag: "flag s \<Longrightarrow> flag (fst (step s i))"
    and step_mark: "count_if mark (snd (step s i)) = (if flag (fst (step s i)) \<and> \<not> flag s then 1 else 0)"
begin

lemma run_flag: "flag s \<Longrightarrow> flag (fst (run_stream step s is))"
  by (induction "is" arbitrary: s) (simp_all add: run_stream_simps step_flag)

lemma run_mark:
  "count_if mark (snd (run_stream step s is)) =
     (if flag (fst (run_stream step s is)) \<and> \<not> flag s then 1 else 0)"
proof (induction "is" arbitrary: s)
  case (Cons i "is")
  let ?s = "fst (step s i)"
  have "count_if mark (snd (run_stream step s (i # is))) =
      count_if mark (snd (step s i)) + count_if mark (snd (run_stream step ?s is))"
    by (simp add: run_stream_Cons)
  also have "\<dots> = (if flag ?s \<and> \<not> flag s then 1 else 0)
      + (if flag (fst (run_stream step ?s is)) \<and> \<not> flag ?s then 1 else 0)"
    by (simp only: step_mark Cons.IH)
  also have "\<dots> = (if flag (fst (run_stream step ?s is)) \<and> \<not> flag s then 1 else 0)"
    using step_flag [of s i] run_flag [of ?s "is"] by (cases "flag s"; cases "flag ?s") simp_all
  finally show ?case by (simp add: run_stream_Cons)
qed simp

end

text \<open>
  A trigger is the only kind of input that sets the flag of a milestone: the event goes out in a
  run exactly when the run contains a trigger.
\<close>

locale stream_trigger = stream_milestone step flag mark
  for step :: "'s \<Rightarrow> 'i \<Rightarrow> 's \<times> 'o list" and flag :: "'s \<Rightarrow> bool" and mark :: "'o \<Rightarrow> bool" +
  fixes trigger :: "'i \<Rightarrow> bool"
  assumes step_trigger: "flag (fst (step s i)) \<longleftrightarrow> flag s \<or> trigger i"
begin

lemma run_trigger: "flag (fst (run_stream step s is)) \<longleftrightarrow> flag s \<or> list_ex trigger is"
  by (induction "is" arbitrary: s) (auto simp: run_stream_simps step_trigger)

end

text \<open>
  Consecutive numbers, and converters that number the events they emit from a counter of the state.
\<close>

fun count_from :: "int \<Rightarrow> nat \<Rightarrow> int list" where
  "count_from c 0 = []"
| "count_from c (Suc n) = c # count_from (c + 1) n"

lemma count_from_add: "count_from c (m + n) = count_from c m @ count_from (c + int m) n"
  by (induction m arbitrary: c) (simp_all add: ac_simps)

lemma count_from_upt: "count_from c n = map (\<lambda>k. c + int k) [0..<n]"
  by (induction n) (use count_from_add [of c _ 1] in simp_all)

locale stream_numbering =
  fixes step :: "'s \<Rightarrow> 'i \<Rightarrow> 's \<times> 'o list"
    and ctr :: "'s \<Rightarrow> int"
    and num :: "'o \<Rightarrow> int"
  assumes step_num: "map num (snd (step s i)) = count_from (ctr s) (length (snd (step s i)))"
    and step_ctr: "ctr (fst (step s i)) = ctr s + int (length (snd (step s i)))"
begin

lemma run_ctr: "ctr (fst (run_stream step s is)) = ctr s + int (length (snd (run_stream step s is)))"
  by (induction "is" arbitrary: s) (simp_all add: run_stream_simps step_ctr)

lemma run_num:
  "map num (snd (run_stream step s is)) = count_from (ctr s) (length (snd (run_stream step s is)))"
  by (induction "is" arbitrary: s) (simp_all add: run_stream_simps step_num step_ctr count_from_add)

end

text \<open>
  A machine that logs what it did. In the first locale every entry of the log has a key that was not
  seen before and is seen from then on; so a run does nothing twice. In the second a total of the state
  moves with every entry; so it is the old total and the sum of the log.
\<close>

locale stream_claims =
  fixes step :: "'s \<Rightarrow> 'i \<Rightarrow> 's \<times> 'o list"
    and key :: "'o \<Rightarrow> 'k"
    and seen :: "'s \<Rightarrow> 'k set"
  assumes step_seen: "seen (fst (step s i)) = seen s \<union> key ` set (snd (step s i))"
    and step_fresh: "e \<in> set (snd (step s i)) \<Longrightarrow> key e \<notin> seen s"
    and step_distinct: "distinct (map key (snd (step s i)))"
begin

lemma run_seen: "seen (fst (run_stream step s is)) = seen s \<union> key ` set (snd (run_stream step s is))"
  by (induction "is" arbitrary: s) (auto simp: run_stream_simps step_seen)

lemma run_fresh: "e \<in> set (snd (run_stream step s is)) \<Longrightarrow> key e \<notin> seen s"
proof (induction "is" arbitrary: s)
  case (Cons i "is")
  then consider "e \<in> set (snd (step s i))" | "e \<in> set (snd (run_stream step (fst (step s i)) is))"
    by (auto simp: run_stream_simps)
  then show ?case using Cons.IH [of "fst (step s i)"] step_fresh [of e s i] by cases (simp_all add: step_seen)
qed simp

lemma run_distinct: "distinct (map key (snd (run_stream step s is)))"
proof (induction "is" arbitrary: s)
  case (Cons i "is")
  have "key ` set (snd (run_stream step (fst (step s i)) is)) \<subseteq> - (key ` set (snd (step s i)))"
  proof (rule image_subsetI)
    fix e
    assume "e \<in> set (snd (run_stream step (fst (step s i)) is))"
    from run_fresh [OF this] show "key e \<in> - (key ` set (snd (step s i)))" by (simp add: step_seen)
  qed
  then have "key ` set (snd (step s i)) \<inter> key ` set (snd (run_stream step (fst (step s i)) is)) = {}"
    by (metis disjoint_eq_subset_Compl inf_commute)
  then show ?case using Cons by (simp add: run_stream_simps step_distinct)
qed simp

end

locale stream_account =
  fixes step :: "'s \<Rightarrow> 'i \<Rightarrow> 's \<times> 'o list"
    and ok :: "'i \<Rightarrow> bool"
    and inv :: "'s \<Rightarrow> bool"
    and total :: "'s \<Rightarrow> 'n :: ab_group_add"
    and moved :: "'o \<Rightarrow> 'n"
  assumes step_inv: "ok i \<Longrightarrow> inv s \<Longrightarrow> inv (fst (step s i))"
    and step_total: "ok i \<Longrightarrow> inv s \<Longrightarrow> total (fst (step s i)) = total s + sum_list (map moved (snd (step s i)))"
begin

lemma run_inv: "list_all ok is \<Longrightarrow> inv s \<Longrightarrow> inv (fst (run_stream step s is))"
  by (induction "is" arbitrary: s) (simp_all add: run_stream_simps step_inv)

lemma run_total:
  "list_all ok is \<Longrightarrow> inv s \<Longrightarrow> total (fst (run_stream step s is)) = total s + sum_list (map moved (snd (run_stream step s is)))"
  by (induction "is" arbitrary: s) (simp_all add: run_stream_simps step_inv step_total add.assoc)

end

end
