(* ===== verification/Api_Types.thy ===== *)
theory Api_Types
  imports Relay_Prelude
begin

text \<open>
  The wire types of the protocol translation layer, \<open>pkg/apicompat/types.go\<close>: every struct the modelled
  converters read or write, field by field in the order of the source. A pointer is an \<open>option\<close>,
  a slice a list, \<open>json.RawMessage\<close> the bytes it holds (its nil and its empty value are both the
  empty string, which is all the code distinguishes), and \<open>int\<close> an unbounded integer: the fields are
  token counts and event positions. \<open>zero_T\<close> is Go's zero value of the struct \<open>T\<close>, so that a
  composite literal \<open>T{F: v}\<close> is the record update of \<open>zero_T\<close>.

  The records are followed by the helpers of \<open>types.go\<close> and of \<open>anthropic_to_responses.go\<close> that several
  converters share.
\<close>

subsection \<open>Anthropic Messages API\<close>

record AnthropicCacheControl =
  acc_Type :: string
  acc_TTL :: string

definition zero_AnthropicCacheControl :: AnthropicCacheControl where
  [zero_defs]: "zero_AnthropicCacheControl =
     \<lparr>acc_Type = [], acc_TTL = []\<rparr>"

record AnthropicImageSource =
  ais_Type :: string
  ais_MediaType :: string
  ais_Data :: string

definition zero_AnthropicImageSource :: AnthropicImageSource where
  [zero_defs]: "zero_AnthropicImageSource =
     \<lparr>ais_Type = [], ais_MediaType = [], ais_Data = []\<rparr>"

record AnthropicContentBlock =
  acb_Type :: string
  acb_CacheControl :: "AnthropicCacheControl option"
  acb_Text :: string
  acb_Thinking :: string
  acb_Signature :: string
  acb_Source :: "AnthropicImageSource option"
  acb_ID :: string
  acb_Name :: string
  acb_Input :: string
  acb_ToolUseID :: string
  acb_Content :: string
  acb_IsError :: bool

definition zero_AnthropicContentBlock :: AnthropicContentBlock where
  [zero_defs]: "zero_AnthropicContentBlock =
     \<lparr>acb_Type = [], acb_CacheControl = None, acb_Text = [], acb_Thinking = [], acb_Signature
      = [], acb_Source = None, acb_ID = [], acb_Name = [], acb_Input = [], acb_ToolUseID = [],
      acb_Content = [], acb_IsError = False\<rparr>"

record AnthropicPromptTokensDetails =
  apd_CachedTokens :: int

definition zero_AnthropicPromptTokensDetails :: AnthropicPromptTokensDetails where
  [zero_defs]: "zero_AnthropicPromptTokensDetails =
     \<lparr>apd_CachedTokens = 0\<rparr>"

record AnthropicUsage =
  au_InputTokens :: int
  au_OutputTokens :: int
  au_CacheCreationInputTokens :: int
  au_CacheReadInputTokens :: int
  au_PromptTokens :: int
  au_CachedTokens :: int
  au_PromptTokensDetails :: "AnthropicPromptTokensDetails option"
  au_PromptCacheHitTokens :: "int option"
  au_PromptCacheMissTokens :: "int option"

definition zero_AnthropicUsage :: AnthropicUsage where
  [zero_defs]: "zero_AnthropicUsage =
     \<lparr>au_InputTokens = 0, au_OutputTokens = 0, au_CacheCreationInputTokens = 0,
      au_CacheReadInputTokens = 0, au_PromptTokens = 0, au_CachedTokens = 0,
      au_PromptTokensDetails = None, au_PromptCacheHitTokens = None, au_PromptCacheMissTokens
      = None\<rparr>"

record AnthropicResponse =
  ar_ID :: string
  ar_Type :: string
  ar_Role :: string
  ar_Content :: "AnthropicContentBlock list"
  ar_Model :: string
  ar_StopReason :: "string option"
  ar_StopSequence :: "string option"
  ar_Usage :: AnthropicUsage

definition zero_AnthropicResponse :: AnthropicResponse where
  [zero_defs]: "zero_AnthropicResponse =
     \<lparr>ar_ID = [], ar_Type = [], ar_Role = [], ar_Content = [], ar_Model = [], ar_StopReason =
      None, ar_StopSequence = None, ar_Usage = zero_AnthropicUsage\<rparr>"

record AnthropicDelta =
  ad_Type :: string
  ad_Text :: string
  ad_PartialJSON :: string
  ad_Thinking :: string
  ad_Signature :: string
  ad_StopReason :: string
  ad_StopSequence :: "string option"

definition zero_AnthropicDelta :: AnthropicDelta where
  [zero_defs]: "zero_AnthropicDelta =
     \<lparr>ad_Type = [], ad_Text = [], ad_PartialJSON = [], ad_Thinking = [], ad_Signature = [],
      ad_StopReason = [], ad_StopSequence = None\<rparr>"

record AnthropicStreamEvent =
  ae_Type :: string
  ae_Message :: "AnthropicResponse option"
  ae_Index :: "int option"
  ae_ContentBlock :: "AnthropicContentBlock option"
  ae_Delta :: "AnthropicDelta option"
  ae_Usage :: "AnthropicUsage option"

definition zero_AnthropicStreamEvent :: AnthropicStreamEvent where
  [zero_defs]: "zero_AnthropicStreamEvent =
     \<lparr>ae_Type = [], ae_Message = None, ae_Index = None, ae_ContentBlock = None, ae_Delta =
      None, ae_Usage = None\<rparr>"

subsection \<open>OpenAI Responses API\<close>

record ResponsesContentPart =
  rcp_Type :: string
  rcp_Text :: string
  rcp_ImageURL :: string
  rcp_Filename :: string
  rcp_FileData :: string
  rcp_FileID :: string

definition zero_ResponsesContentPart :: ResponsesContentPart where
  [zero_defs]: "zero_ResponsesContentPart =
     \<lparr>rcp_Type = [], rcp_Text = [], rcp_ImageURL = [], rcp_Filename = [], rcp_FileData = [],
      rcp_FileID = []\<rparr>"

record ResponsesError =
  rerr_Code :: string
  rerr_Message :: string

definition zero_ResponsesError :: ResponsesError where
  [zero_defs]: "zero_ResponsesError =
     \<lparr>rerr_Code = [], rerr_Message = []\<rparr>"

record ResponsesIncompleteDetails =
  rid_Reason :: string

definition zero_ResponsesIncompleteDetails :: ResponsesIncompleteDetails where
  [zero_defs]: "zero_ResponsesIncompleteDetails =
     \<lparr>rid_Reason = []\<rparr>"

record WebSearchAction =
  wsa_Type :: string
  wsa_Query :: string

definition zero_WebSearchAction :: WebSearchAction where
  [zero_defs]: "zero_WebSearchAction =
     \<lparr>wsa_Type = [], wsa_Query = []\<rparr>"

record ResponsesSummary =
  rs_Type :: string
  rs_Text :: string

definition zero_ResponsesSummary :: ResponsesSummary where
  [zero_defs]: "zero_ResponsesSummary =
     \<lparr>rs_Type = [], rs_Text = []\<rparr>"

record ResponsesOutput =
  ro_Type :: string
  ro_ID :: string
  ro_Role :: string
  ro_Content :: "ResponsesContentPart list"
  ro_Status :: string
  ro_EncryptedContent :: string
  ro_Summary :: "ResponsesSummary list"
  ro_CallID :: string
  ro_Name :: string
  ro_Arguments :: string
  ro_Namespace :: string
  ro_Input :: string
  ro_Action :: "WebSearchAction option"

definition zero_ResponsesOutput :: ResponsesOutput where
  [zero_defs]: "zero_ResponsesOutput =
     \<lparr>ro_Type = [], ro_ID = [], ro_Role = [], ro_Content = [], ro_Status = [],
      ro_EncryptedContent = [], ro_Summary = [], ro_CallID = [], ro_Name = [], ro_Arguments =
      [], ro_Namespace = [], ro_Input = [], ro_Action = None\<rparr>"

record ResponsesInputTokensDetails =
  ritd_CachedTokens :: int
  ritd_AudioTokens :: int
  ritd_CacheCreationTokens :: int
  ritd_CacheWriteTokens :: int

definition zero_ResponsesInputTokensDetails :: ResponsesInputTokensDetails where
  [zero_defs]: "zero_ResponsesInputTokensDetails =
     \<lparr>ritd_CachedTokens = 0, ritd_AudioTokens = 0, ritd_CacheCreationTokens = 0,
      ritd_CacheWriteTokens = 0\<rparr>"

record ResponsesOutputTokensDetails =
  rotd_ReasoningTokens :: int
  rotd_AudioTokens :: int
  rotd_AcceptedPredictionTokens :: int
  rotd_RejectedPredictionTokens :: int

definition zero_ResponsesOutputTokensDetails :: ResponsesOutputTokensDetails where
  [zero_defs]: "zero_ResponsesOutputTokensDetails =
     \<lparr>rotd_ReasoningTokens = 0, rotd_AudioTokens = 0, rotd_AcceptedPredictionTokens = 0,
      rotd_RejectedPredictionTokens = 0\<rparr>"

record ResponsesUsage =
  ru_InputTokens :: int
  ru_OutputTokens :: int
  ru_TotalTokens :: int
  ru_CacheCreationInputTokens :: int
  ru_InputTokensDetails :: "ResponsesInputTokensDetails option"
  ru_OutputTokensDetails :: "ResponsesOutputTokensDetails option"

definition zero_ResponsesUsage :: ResponsesUsage where
  [zero_defs]: "zero_ResponsesUsage =
     \<lparr>ru_InputTokens = 0, ru_OutputTokens = 0, ru_TotalTokens = 0, ru_CacheCreationInputTokens
      = 0, ru_InputTokensDetails = None, ru_OutputTokensDetails = None\<rparr>"

record ResponsesResponse =
  rr_ID :: string
  rr_Object :: string
  rr_CreatedAt :: int
  rr_Model :: string
  rr_Status :: string
  rr_Output :: "ResponsesOutput list"
  rr_Usage :: "ResponsesUsage option"
  rr_ServiceTier :: string
  rr_IncompleteDetails :: "ResponsesIncompleteDetails option"
  rr_Error :: "ResponsesError option"

definition zero_ResponsesResponse :: ResponsesResponse where
  [zero_defs]: "zero_ResponsesResponse =
     \<lparr>rr_ID = [], rr_Object = [], rr_CreatedAt = 0, rr_Model = [], rr_Status = [], rr_Output =
      [], rr_Usage = None, rr_ServiceTier = [], rr_IncompleteDetails = None, rr_Error = None\<rparr>"

record ResponsesStreamEvent =
  re_Type :: string
  re_Response :: "ResponsesResponse option"
  re_Usage :: "ResponsesUsage option"
  re_Item :: "ResponsesOutput option"
  re_OutputIndex :: int
  re_ContentIndex :: int
  re_Delta :: string
  re_Text :: string
  re_ItemID :: string
  re_CallID :: string
  re_Name :: string
  re_Arguments :: string
  re_Input :: string
  re_SummaryIndex :: int
  re_Part :: "ResponsesContentPart option"
  re_Code :: string
  re_Param :: string
  re_SequenceNumber :: int

definition zero_ResponsesStreamEvent :: ResponsesStreamEvent where
  [zero_defs]: "zero_ResponsesStreamEvent =
     \<lparr>re_Type = [], re_Response = None, re_Usage = None, re_Item = None, re_OutputIndex = 0,
      re_ContentIndex = 0, re_Delta = [], re_Text = [], re_ItemID = [], re_CallID = [],
      re_Name = [], re_Arguments = [], re_Input = [], re_SummaryIndex = 0, re_Part = None,
      re_Code = [], re_Param = [], re_SequenceNumber = 0\<rparr>"

subsection \<open>OpenAI Chat Completions API\<close>

record ChatFunctionCall =
  cfc_Name :: string
  cfc_Arguments :: string

definition zero_ChatFunctionCall :: ChatFunctionCall where
  [zero_defs]: "zero_ChatFunctionCall =
     \<lparr>cfc_Name = [], cfc_Arguments = []\<rparr>"

record ChatToolCall =
  ctc_Index :: "int option"
  ctc_ID :: string
  ctc_Type :: string
  ctc_Function :: ChatFunctionCall

definition zero_ChatToolCall :: ChatToolCall where
  [zero_defs]: "zero_ChatToolCall =
     \<lparr>ctc_Index = None, ctc_ID = [], ctc_Type = [], ctc_Function = zero_ChatFunctionCall\<rparr>"

record ChatMessage =
  cm_Role :: string
  cm_Content :: string
  cm_ReasoningContent :: string
  cm_Reasoning :: string
  cm_Name :: string
  cm_ToolCalls :: "ChatToolCall list"
  cm_ToolCallID :: string
  cm_FunctionCall :: "ChatFunctionCall option"

definition zero_ChatMessage :: ChatMessage where
  [zero_defs]: "zero_ChatMessage =
     \<lparr>cm_Role = [], cm_Content = [], cm_ReasoningContent = [], cm_Reasoning = [], cm_Name =
      [], cm_ToolCalls = [], cm_ToolCallID = [], cm_FunctionCall = None\<rparr>"

record ChatChoice =
  cc_Index :: int
  cc_Message :: ChatMessage
  cc_FinishReason :: string

definition zero_ChatChoice :: ChatChoice where
  [zero_defs]: "zero_ChatChoice =
     \<lparr>cc_Index = 0, cc_Message = zero_ChatMessage, cc_FinishReason = []\<rparr>"

record ChatTokenDetails =
  ctd_CachedTokens :: int
  ctd_AudioTokens :: int
  ctd_CacheCreationTokens :: int
  ctd_CacheWriteTokens :: int
  ctd_ReasoningTokens :: int
  ctd_AcceptedPredictionTokens :: int
  ctd_RejectedPredictionTokens :: int

definition zero_ChatTokenDetails :: ChatTokenDetails where
  [zero_defs]: "zero_ChatTokenDetails =
     \<lparr>ctd_CachedTokens = 0, ctd_AudioTokens = 0, ctd_CacheCreationTokens = 0,
      ctd_CacheWriteTokens = 0, ctd_ReasoningTokens = 0, ctd_AcceptedPredictionTokens = 0,
      ctd_RejectedPredictionTokens = 0\<rparr>"

record ChatUsage =
  cu_PromptTokens :: int
  cu_CompletionTokens :: int
  cu_TotalTokens :: int
  cu_PromptTokensDetails :: "ChatTokenDetails option"
  cu_CompletionTokensDetails :: "ChatTokenDetails option"

definition zero_ChatUsage :: ChatUsage where
  [zero_defs]: "zero_ChatUsage =
     \<lparr>cu_PromptTokens = 0, cu_CompletionTokens = 0, cu_TotalTokens = 0, cu_PromptTokensDetails
      = None, cu_CompletionTokensDetails = None\<rparr>"

record ChatCompletionsResponse =
  ccr_ID :: string
  ccr_Object :: string
  ccr_Created :: int
  ccr_Model :: string
  ccr_Choices :: "ChatChoice list"
  ccr_Usage :: "ChatUsage option"
  ccr_SystemFingerprint :: string
  ccr_ServiceTier :: string

definition zero_ChatCompletionsResponse :: ChatCompletionsResponse where
  [zero_defs]: "zero_ChatCompletionsResponse =
     \<lparr>ccr_ID = [], ccr_Object = [], ccr_Created = 0, ccr_Model = [], ccr_Choices = [],
      ccr_Usage = None, ccr_SystemFingerprint = [], ccr_ServiceTier = []\<rparr>"

record ChatDelta =
  cd_Role :: string
  cd_Content :: "string option"
  cd_ReasoningContent :: "string option"
  cd_Reasoning :: "string option"
  cd_ToolCalls :: "ChatToolCall list"

definition zero_ChatDelta :: ChatDelta where
  [zero_defs]: "zero_ChatDelta =
     \<lparr>cd_Role = [], cd_Content = None, cd_ReasoningContent = None, cd_Reasoning = None,
      cd_ToolCalls = []\<rparr>"

record ChatChunkChoice =
  ccc_Index :: int
  ccc_Delta :: ChatDelta
  ccc_FinishReason :: "string option"

definition zero_ChatChunkChoice :: ChatChunkChoice where
  [zero_defs]: "zero_ChatChunkChoice =
     \<lparr>ccc_Index = 0, ccc_Delta = zero_ChatDelta, ccc_FinishReason = None\<rparr>"

record ChatCompletionsChunk =
  cch_ID :: string
  cch_Object :: string
  cch_Created :: int
  cch_Model :: string
  cch_Choices :: "ChatChunkChoice list"
  cch_Usage :: "ChatUsage option"
  cch_SystemFingerprint :: string
  cch_ServiceTier :: string

definition zero_ChatCompletionsChunk :: ChatCompletionsChunk where
  [zero_defs]: "zero_ChatCompletionsChunk =
     \<lparr>cch_ID = [], cch_Object = [], cch_Created = 0, cch_Model = [], cch_Choices = [],
      cch_Usage = None, cch_SystemFingerprint = [], cch_ServiceTier = []\<rparr>"

subsection \<open>The package encoding/json\<close>

text \<open>
  What the converters ask of \<open>encoding/json\<close>: whether a document is valid, decoding an object into a
  map from its keys to the raw bytes of its values, and encoding such a map, a map of strings, or a
  string. The converters take these functions as an argument, and no theorem assumes anything of
  them: the properties hold whatever the decoder accepts and whatever bytes the encoder produces.
\<close>

record json_lib =
  jl_Valid :: "string \<Rightarrow> bool"
  jl_UnmarshalObject :: "string \<Rightarrow> (string \<rightharpoonup> string) option"
  jl_MarshalObject :: "(string \<rightharpoonup> string) \<Rightarrow> string option"
  jl_MarshalStrings :: "(string \<times> string) list \<Rightarrow> string"
  jl_MarshalString :: "string \<Rightarrow> string"

text \<open>A codec that decodes nothing, for concrete runs.\<close>

definition json_none :: json_lib where
  "json_none = \<lparr>jl_Valid = (\<lambda>_. False), jl_UnmarshalObject = (\<lambda>_. None),
     jl_MarshalObject = (\<lambda>_. None), jl_MarshalStrings = (\<lambda>_. []), jl_MarshalString = (\<lambda>s. s)\<rparr>"

subsection \<open>Shared helpers\<close>

definition AnthropicStopReasonPtr :: "string \<Rightarrow> string option" where
  "AnthropicStopReasonPtr s = Some s"

definition AnthropicStopReasonString :: "string option \<Rightarrow> string" where
  "AnthropicStopReasonString p = (case p of None \<Rightarrow> [] | Some s \<Rightarrow> s)"

definition toResponsesCallID :: "string \<Rightarrow> string" where
  "toResponsesCallID cid = cid"

definition fromResponsesCallID :: "string \<Rightarrow> string" where
  "fromResponsesCallID cid =
     (case CutPrefix cid ''fc_'' of (after, ok) \<Rightarrow>
        if ok \<and> (HasPrefix after ''toolu_'' \<or> HasPrefix after ''call_'') then after else cid)"

end
