(* ===== verification/Responses_To_Anthropic.thy ===== *)
theory Responses_To_Anthropic
  imports Api_Types
begin

text \<open>
  \<open>pkg/apicompat/responses_to_anthropic.go\<close>: the translation of OpenAI Responses answers into
  Anthropic Messages answers. The first group of definitions is the translation of a whole answer
  (\<open>ResponsesToAnthropic\<close>), the second the stateful translation of an event stream, one definition
  per handler of the source; a handler takes the event and the state and returns the new state and
  the emitted events. \<open>time.Now\<close> is an argument.

  The theory defines what an Anthropic event stream is (\<open>anth_step\<close>, an executable acceptor) and
  shows that the translated stream is one.
\<close>

subsection \<open>Whole answers\<close>

definition anthropicUsageFromResponsesUsage :: "ResponsesUsage option \<Rightarrow> AnthropicUsage" where
  "anthropicUsageFromResponsesUsage usage =
     (case usage of
        None \<Rightarrow> zero_AnthropicUsage
      | Some u \<Rightarrow>
          let cachedTokens = (case ru_InputTokensDetails u of None \<Rightarrow> 0 | Some d \<Rightarrow> ritd_CachedTokens d);
              inputTokens = ru_InputTokens u - cachedTokens - ru_CacheCreationInputTokens u;
              inputTokens = (if inputTokens < 0 then 0 else inputTokens)
          in zero_AnthropicUsage
               \<lparr>au_InputTokens := inputTokens,
                au_OutputTokens := ru_OutputTokens u,
                au_CacheReadInputTokens := cachedTokens,
                au_CacheCreationInputTokens := ru_CacheCreationInputTokens u\<rparr>)"

fun containsAnthropicToolUseBlock :: "AnthropicContentBlock list \<Rightarrow> bool" where
  "containsAnthropicToolUseBlock [] = False"
| "containsAnthropicToolUseBlock (b # bs) =
     (if acb_Type b = ''tool_use'' then True else containsAnthropicToolUseBlock bs)"

definition responsesStatusToAnthropicStopReason ::
  "string \<Rightarrow> ResponsesIncompleteDetails option \<Rightarrow> AnthropicContentBlock list \<Rightarrow> string" where
  "responsesStatusToAnthropicStopReason status details blocks =
     (if status = ''incomplete'' then
        (case details of
           Some d \<Rightarrow> if rid_Reason d = ''max_output_tokens'' then ''max_tokens'' else ''end_turn''
         | None \<Rightarrow> ''end_turn'')
      else if status = ''completed'' then
        (if containsAnthropicToolUseBlock blocks then ''tool_use'' else ''end_turn'')
      else ''end_turn'')"

text \<open>The bytes of the JSON empty string, two double quotes.\<close>

definition json_empty_string :: string where
  "json_empty_string = [byte 34, byte 34]"

definition sanitizeAnthropicToolUseInput :: "json_lib \<Rightarrow> string \<Rightarrow> string \<Rightarrow> string" where
  "sanitizeAnthropicToolUseInput j name raw =
     (if name \<noteq> ''Read'' \<or> raw = [] then raw
      else case jl_UnmarshalObject j raw of
        None \<Rightarrow> raw
      | Some input \<Rightarrow>
          if input ''pages'' \<noteq> Some json_empty_string then raw
          else case jl_MarshalObject j (input(''pages'' := None)) of
            None \<Rightarrow> raw
          | Some sanitized \<Rightarrow> sanitized)"

definition web_search_blocks ::
  "json_lib \<Rightarrow> ResponsesOutput \<Rightarrow> AnthropicContentBlock \<times> AnthropicContentBlock" where
  "web_search_blocks j item =
     (let toolUseID = ''srvtoolu_'' @ ro_ID item;
          query = (case ro_Action item of None \<Rightarrow> [] | Some a \<Rightarrow> wsa_Query a)
      in (zero_AnthropicContentBlock
            \<lparr>acb_Type := ''server_tool_use'', acb_ID := toolUseID, acb_Name := ''web_search'',
             acb_Input := jl_MarshalStrings j [(''query'', query)]\<rparr>,
          zero_AnthropicContentBlock
            \<lparr>acb_Type := ''web_search_tool_result'', acb_ToolUseID := toolUseID,
             acb_Content := ''[]''\<rparr>))"

text \<open>The body of the loop over \<open>resp.Output\<close>: the blocks one output item becomes.\<close>

definition responses_item_blocks :: "json_lib \<Rightarrow> ResponsesOutput \<Rightarrow> AnthropicContentBlock list" where
  "responses_item_blocks j item =
     (if ro_Type item = ''reasoning'' then
        let summaryText =
              concat (map rs_Text
                (filter (\<lambda>s. rs_Type s = ''summary_text'' \<and> rs_Text s \<noteq> []) (ro_Summary item)))
        in if summaryText \<noteq> [] \<or> TrimSpace (ro_EncryptedContent item) \<noteq> []
           then [zero_AnthropicContentBlock
                   \<lparr>acb_Type := ''thinking'', acb_Thinking := summaryText,
                    acb_Signature := ro_EncryptedContent item\<rparr>]
           else []
      else if ro_Type item = ''message'' then
        map (\<lambda>part. zero_AnthropicContentBlock\<lparr>acb_Type := ''text'', acb_Text := rcp_Text part\<rparr>)
          (filter (\<lambda>part. rcp_Type part = ''output_text'' \<and> rcp_Text part \<noteq> []) (ro_Content item))
      else if ro_Type item = ''function_call'' then
        [zero_AnthropicContentBlock
           \<lparr>acb_Type := ''tool_use'', acb_ID := fromResponsesCallID (ro_CallID item),
            acb_Name := ro_Name item,
            acb_Input := sanitizeAnthropicToolUseInput j (ro_Name item) (ro_Arguments item)\<rparr>]
      else if ro_Type item = ''web_search_call'' then
        (case web_search_blocks j item of (b1, b2) \<Rightarrow> [b1, b2])
      else [])"

definition ResponsesToAnthropic :: "json_lib \<Rightarrow> ResponsesResponse \<Rightarrow> string \<Rightarrow> AnthropicResponse" where
  "ResponsesToAnthropic j resp model =
     (let blocks = concat (map (responses_item_blocks j) (rr_Output resp));
          blocks = (if blocks = []
                    then [zero_AnthropicContentBlock\<lparr>acb_Type := ''text'', acb_Text := []\<rparr>]
                    else blocks);
          stop = responsesStatusToAnthropicStopReason (rr_Status resp) (rr_IncompleteDetails resp) blocks
      in zero_AnthropicResponse
           \<lparr>ar_ID := rr_ID resp, ar_Type := ''message'', ar_Role := ''assistant'', ar_Model := model,
            ar_Content := blocks,
            ar_StopReason := AnthropicStopReasonPtr stop,
            ar_Usage := (case rr_Usage resp of
                           None \<Rightarrow> zero_AnthropicUsage
                         | Some u \<Rightarrow> anthropicUsageFromResponsesUsage (Some u))\<rparr>)"

subsection \<open>Event streams: the state and its handlers\<close>

record ResponsesEventToAnthropicState =
  rea_MessageStartSent :: bool
  rea_MessageStopSent :: bool
  rea_ContentBlockIndex :: int
  rea_ContentBlockOpen :: bool
  rea_CurrentBlockType :: string
  rea_CurrentToolName :: string
  rea_CurrentToolArgs :: string
  rea_CurrentToolHadDelta :: bool
  rea_PendingThinkingSignature :: string
  rea_HasToolCall :: bool
  rea_OutputIndexToBlockIdx :: "int \<rightharpoonup> int"
  rea_InputTokens :: int
  rea_OutputTokens :: int
  rea_CacheReadInputTokens :: int
  rea_CacheCreationInputTokens :: int
  rea_ResponseID :: string
  rea_Model :: string
  rea_Created :: int

type_synonym rea_state = ResponsesEventToAnthropicState
type_synonym rea_result = "ResponsesEventToAnthropicState \<times> AnthropicStreamEvent list"

definition NewResponsesEventToAnthropicState :: "int \<Rightarrow> rea_state" where
  "NewResponsesEventToAnthropicState now =
     \<lparr>rea_MessageStartSent = False, rea_MessageStopSent = False, rea_ContentBlockIndex = 0,
      rea_ContentBlockOpen = False, rea_CurrentBlockType = [], rea_CurrentToolName = [],
      rea_CurrentToolArgs = [], rea_CurrentToolHadDelta = False, rea_PendingThinkingSignature = [],
      rea_HasToolCall = False, rea_OutputIndexToBlockIdx = Map.empty, rea_InputTokens = 0,
      rea_OutputTokens = 0, rea_CacheReadInputTokens = 0, rea_CacheCreationInputTokens = 0,
      rea_ResponseID = [], rea_Model = [], rea_Created = now\<rparr>"

text \<open>The composite literals of the handlers.\<close>

definition ev_block_start :: "int \<Rightarrow> AnthropicContentBlock \<Rightarrow> AnthropicStreamEvent" where
  "ev_block_start idx b =
     zero_AnthropicStreamEvent
       \<lparr>ae_Type := ''content_block_start'', ae_Index := Some idx, ae_ContentBlock := Some b\<rparr>"

definition ev_block_delta :: "int \<Rightarrow> AnthropicDelta \<Rightarrow> AnthropicStreamEvent" where
  "ev_block_delta idx d =
     zero_AnthropicStreamEvent
       \<lparr>ae_Type := ''content_block_delta'', ae_Index := Some idx, ae_Delta := Some d\<rparr>"

definition ev_block_stop :: "int \<Rightarrow> AnthropicStreamEvent" where
  "ev_block_stop idx =
     zero_AnthropicStreamEvent\<lparr>ae_Type := ''content_block_stop'', ae_Index := Some idx\<rparr>"

definition ev_message_start :: "string \<Rightarrow> string \<Rightarrow> AnthropicStreamEvent" where
  "ev_message_start rid model =
     zero_AnthropicStreamEvent
       \<lparr>ae_Type := ''message_start'',
        ae_Message := Some (zero_AnthropicResponse
          \<lparr>ar_ID := rid, ar_Type := ''message'', ar_Role := ''assistant'', ar_Content := [],
           ar_Model := model, ar_StopReason := None,
           ar_Usage := zero_AnthropicUsage\<lparr>au_InputTokens := 0, au_OutputTokens := 0\<rparr>\<rparr>)\<rparr>"

definition ev_message_delta :: "string \<Rightarrow> rea_state \<Rightarrow> AnthropicStreamEvent" where
  "ev_message_delta stopReason st =
     zero_AnthropicStreamEvent
       \<lparr>ae_Type := ''message_delta'',
        ae_Delta := Some (zero_AnthropicDelta\<lparr>ad_StopReason := stopReason\<rparr>),
        ae_Usage := Some (zero_AnthropicUsage
          \<lparr>au_InputTokens := rea_InputTokens st,
           au_OutputTokens := rea_OutputTokens st,
           au_CacheReadInputTokens := rea_CacheReadInputTokens st,
           au_CacheCreationInputTokens := rea_CacheCreationInputTokens st\<rparr>)\<rparr>"

definition ev_message_stop :: AnthropicStreamEvent where
  "ev_message_stop = zero_AnthropicStreamEvent\<lparr>ae_Type := ''message_stop''\<rparr>"

definition closeCurrentBlock :: "rea_state \<Rightarrow> rea_result" where
  "closeCurrentBlock st =
     (if \<not> rea_ContentBlockOpen st then (st, [])
      else
        let idx = rea_ContentBlockIndex st;
            thinking = (rea_CurrentBlockType st = ''thinking'');
            sig = TrimSpace (rea_PendingThinkingSignature st);
            sigs = (if thinking \<and> sig \<noteq> []
                    then [ev_block_delta idx (zero_AnthropicDelta
                            \<lparr>ad_Type := ''signature_delta'', ad_Signature := sig\<rparr>)]
                    else []);
            st = (if thinking then st\<lparr>rea_PendingThinkingSignature := []\<rparr> else st)
        in (st\<lparr>rea_ContentBlockOpen := False,
               rea_ContentBlockIndex := rea_ContentBlockIndex st + 1,
               rea_CurrentToolName := [],
               rea_CurrentToolArgs := [],
               rea_CurrentToolHadDelta := False\<rparr>,
            sigs @ [ev_block_stop idx]))"

definition resToAnthHandleCreated :: "ResponsesStreamEvent \<Rightarrow> rea_state \<Rightarrow> rea_result" where
  "resToAnthHandleCreated evt st =
     (let st = (case re_Response evt of
                  None \<Rightarrow> st
                | Some r \<Rightarrow>
                    let st = st\<lparr>rea_ResponseID := rr_ID r\<rparr>
                    in if rea_Model st = [] then st\<lparr>rea_Model := rr_Model r\<rparr> else st)
      in if rea_MessageStartSent st then (st, [])
         else let st = st\<lparr>rea_MessageStartSent := True\<rparr>
              in (st, [ev_message_start (rea_ResponseID st) (rea_Model st)]))"

definition resToAnthHandleOutputItemAdded :: "ResponsesStreamEvent \<Rightarrow> rea_state \<Rightarrow> rea_result" where
  "resToAnthHandleOutputItemAdded evt st =
     (case re_Item evt of
        None \<Rightarrow> (st, [])
      | Some item \<Rightarrow>
          if ro_Type item = ''function_call'' \<or> ro_Type item = ''custom_tool_call'' then
            (case closeCurrentBlock st of (st, events) \<Rightarrow>
               let idx = rea_ContentBlockIndex st
               in (st\<lparr>rea_OutputIndexToBlockIdx :=
                        (rea_OutputIndexToBlockIdx st)(re_OutputIndex evt \<mapsto> idx),
                      rea_ContentBlockOpen := True,
                      rea_CurrentBlockType := ''tool_use'',
                      rea_CurrentToolName := ro_Name item,
                      rea_CurrentToolArgs := [],
                      rea_CurrentToolHadDelta := False,
                      rea_HasToolCall := True\<rparr>,
                   events @ [ev_block_start idx (zero_AnthropicContentBlock
                     \<lparr>acb_Type := ''tool_use'',
                      acb_ID := fromResponsesCallID (ro_CallID item),
                      acb_Name := ro_Name item,
                      acb_Input := ''{}''\<rparr>)]))
          else if ro_Type item = ''reasoning'' then
            (case closeCurrentBlock st of (st, events) \<Rightarrow>
               let idx = rea_ContentBlockIndex st
               in (st\<lparr>rea_OutputIndexToBlockIdx :=
                        (rea_OutputIndexToBlockIdx st)(re_OutputIndex evt \<mapsto> idx),
                      rea_ContentBlockOpen := True,
                      rea_CurrentBlockType := ''thinking'',
                      rea_PendingThinkingSignature := TrimSpace (ro_EncryptedContent item)\<rparr>,
                   events @ [ev_block_start idx (zero_AnthropicContentBlock
                     \<lparr>acb_Type := ''thinking'', acb_Thinking := []\<rparr>)]))
          else (st, []))"

definition resToAnthHandleTextDelta :: "ResponsesStreamEvent \<Rightarrow> rea_state \<Rightarrow> rea_result" where
  "resToAnthHandleTextDelta evt st =
     (if re_Delta evt = [] then (st, [])
      else
        case (if \<not> rea_ContentBlockOpen st \<or> rea_CurrentBlockType st \<noteq> ''text''
              then (case closeCurrentBlock st of (st, events) \<Rightarrow>
                      (st\<lparr>rea_ContentBlockOpen := True, rea_CurrentBlockType := ''text''\<rparr>,
                       events @ [ev_block_start (rea_ContentBlockIndex st)
                         (zero_AnthropicContentBlock\<lparr>acb_Type := ''text'', acb_Text := []\<rparr>)]))
              else (st, []))
        of (st, events) \<Rightarrow>
          (st, events @ [ev_block_delta (rea_ContentBlockIndex st)
                 (zero_AnthropicDelta\<lparr>ad_Type := ''text_delta'', ad_Text := re_Delta evt\<rparr>)]))"

definition input_json_delta :: "string \<Rightarrow> AnthropicDelta" where
  "input_json_delta s = zero_AnthropicDelta\<lparr>ad_Type := ''input_json_delta'', ad_PartialJSON := s\<rparr>"

definition resToAnthHandleFuncArgsDelta ::
  "json_lib \<Rightarrow> ResponsesStreamEvent \<Rightarrow> rea_state \<Rightarrow> rea_result" where
  "resToAnthHandleFuncArgsDelta j evt st =
     (if re_Delta evt = [] then (st, [])
      else if rea_CurrentBlockType st = ''tool_use'' \<and> rea_CurrentToolName st = ''Read'' then
        (let st = st\<lparr>rea_CurrentToolArgs := rea_CurrentToolArgs st @ re_Delta evt\<rparr>
         in if rea_CurrentToolHadDelta st \<or> \<not> jl_Valid j (rea_CurrentToolArgs st) then (st, [])
            else case rea_OutputIndexToBlockIdx st (re_OutputIndex evt) of
              None \<Rightarrow> (st, [])
            | Some blockIdx \<Rightarrow>
                let st = st\<lparr>rea_CurrentToolHadDelta := True\<rparr>
                in (st, [ev_block_delta blockIdx (input_json_delta
                      (sanitizeAnthropicToolUseInput j (rea_CurrentToolName st)
                        (rea_CurrentToolArgs st)))]))
      else
        (let st = (if rea_CurrentBlockType st = ''tool_use''
                   then st\<lparr>rea_CurrentToolHadDelta := True\<rparr> else st)
         in case rea_OutputIndexToBlockIdx st (re_OutputIndex evt) of
              None \<Rightarrow> (st, [])
            | Some blockIdx \<Rightarrow> (st, [ev_block_delta blockIdx (input_json_delta (re_Delta evt))])))"

definition resToAnthHandleBlockDone :: "rea_state \<Rightarrow> rea_result" where
  "resToAnthHandleBlockDone st =
     (if \<not> rea_ContentBlockOpen st then (st, []) else closeCurrentBlock st)"

text \<open>
  The second half of \<open>resToAnthHandleFuncArgsDone\<close>, from the resolution of the block index on: the
  arguments are sent in one piece, unless the event belongs to a block already left behind.
\<close>

definition resToAnthFlushArgs :: "ResponsesStreamEvent \<Rightarrow> string \<Rightarrow> rea_state \<Rightarrow> rea_result" where
  "resToAnthFlushArgs evt raw st =
     (let blockIdx = (case rea_OutputIndexToBlockIdx st (re_OutputIndex evt) of
                        None \<Rightarrow> rea_ContentBlockIndex st | Some b \<Rightarrow> b)
      in if \<not> rea_ContentBlockOpen st \<or> blockIdx \<noteq> rea_ContentBlockIndex st then (st, [])
         else case closeCurrentBlock st of (st, events) \<Rightarrow>
           (st, [ev_block_delta blockIdx (input_json_delta raw)] @ events))"

definition resToAnthHandleFuncArgsDone ::
  "json_lib \<Rightarrow> ResponsesStreamEvent \<Rightarrow> rea_state \<Rightarrow> rea_result" where
  "resToAnthHandleFuncArgsDone j evt st =
     (if \<not> rea_ContentBlockOpen st then (st, [])
      else if rea_CurrentBlockType st \<noteq> ''tool_use'' then resToAnthHandleBlockDone st
      else
        let raw = (if re_Arguments evt = [] then rea_CurrentToolArgs st else re_Arguments evt)
        in if raw = [] \<or> rea_CurrentToolHadDelta st then closeCurrentBlock st
           else if rea_CurrentToolName st = ''Read'' then
             (let sanitized = sanitizeAnthropicToolUseInput j (rea_CurrentToolName st) raw
              in if sanitized = [] then closeCurrentBlock st
                 else resToAnthFlushArgs evt sanitized st)
           else resToAnthFlushArgs evt raw st)"

definition resToAnthHandleReasoningDelta :: "ResponsesStreamEvent \<Rightarrow> rea_state \<Rightarrow> rea_result" where
  "resToAnthHandleReasoningDelta evt st =
     (if re_Delta evt = [] then (st, [])
      else case rea_OutputIndexToBlockIdx st (re_OutputIndex evt) of
        None \<Rightarrow> (st, [])
      | Some blockIdx \<Rightarrow>
          (st, [ev_block_delta blockIdx (zero_AnthropicDelta
                  \<lparr>ad_Type := ''thinking_delta'', ad_Thinking := re_Delta evt\<rparr>)]))"

definition resToAnthHandleWebSearchDone ::
  "json_lib \<Rightarrow> ResponsesOutput \<Rightarrow> rea_state \<Rightarrow> rea_result" where
  "resToAnthHandleWebSearchDone j item st =
     (case closeCurrentBlock st of (st, events) \<Rightarrow>
        case web_search_blocks j item of (b1, b2) \<Rightarrow>
          let idx1 = rea_ContentBlockIndex st;
              st = st\<lparr>rea_ContentBlockIndex := rea_ContentBlockIndex st + 1\<rparr>;
              idx2 = rea_ContentBlockIndex st;
              st = st\<lparr>rea_ContentBlockIndex := rea_ContentBlockIndex st + 1\<rparr>
          in (st, events @ [ev_block_start idx1 b1, ev_block_stop idx1,
                            ev_block_start idx2 b2, ev_block_stop idx2]))"

definition resToAnthHandleOutputItemDone ::
  "json_lib \<Rightarrow> ResponsesStreamEvent \<Rightarrow> rea_state \<Rightarrow> rea_result" where
  "resToAnthHandleOutputItemDone j evt st =
     (case re_Item evt of
        None \<Rightarrow> (st, [])
      | Some item \<Rightarrow>
          if ro_Type item = ''web_search_call'' \<and> ro_Status item = ''completed''
          then resToAnthHandleWebSearchDone j item st
          else
            let sig = TrimSpace (ro_EncryptedContent item);
                st = (if ro_Type item = ''reasoning'' \<and> sig \<noteq> []
                      then st\<lparr>rea_PendingThinkingSignature := sig\<rparr> else st)
            in if rea_ContentBlockOpen st then closeCurrentBlock st else (st, []))"

definition rea_set_usage :: "ResponsesUsage option \<Rightarrow> rea_state \<Rightarrow> rea_state" where
  "rea_set_usage u st =
     (case u of
        None \<Rightarrow> st
      | Some _ \<Rightarrow>
          let usage = anthropicUsageFromResponsesUsage u
          in st\<lparr>rea_InputTokens := au_InputTokens usage,
                rea_OutputTokens := au_OutputTokens usage,
                rea_CacheReadInputTokens := au_CacheReadInputTokens usage,
                rea_CacheCreationInputTokens := au_CacheCreationInputTokens usage\<rparr>)"

definition rea_completed_stop_reason :: "ResponsesStreamEvent \<Rightarrow> rea_state \<Rightarrow> string" where
  "rea_completed_stop_reason evt st =
     (case re_Response evt of
        None \<Rightarrow> ''end_turn''
      | Some r \<Rightarrow>
          if rr_Status r = ''incomplete'' then
            (case rr_IncompleteDetails r of
               Some d \<Rightarrow> if rid_Reason d = ''max_output_tokens'' then ''max_tokens'' else ''end_turn''
             | None \<Rightarrow> ''end_turn'')
          else if rr_Status r = ''completed'' then
            (if rea_HasToolCall st then ''tool_use'' else ''end_turn'')
          else ''end_turn'')"

definition resToAnthHandleCompleted :: "ResponsesStreamEvent \<Rightarrow> rea_state \<Rightarrow> rea_result" where
  "resToAnthHandleCompleted evt st =
     (if rea_MessageStopSent st then (st, [])
      else case closeCurrentBlock st of (st, events) \<Rightarrow>
        let st = rea_set_usage (re_Usage evt) st;
            st = (case re_Response evt of None \<Rightarrow> st | Some r \<Rightarrow> rea_set_usage (rr_Usage r) st);
            stopReason = rea_completed_stop_reason evt st
        in (st\<lparr>rea_MessageStopSent := True\<rparr>,
            events @ [ev_message_delta stopReason st, ev_message_stop]))"

definition FinalizeResponsesAnthropicStream :: "rea_state \<Rightarrow> rea_result" where
  "FinalizeResponsesAnthropicStream st =
     (if \<not> rea_MessageStartSent st \<or> rea_MessageStopSent st then (st, [])
      else case closeCurrentBlock st of (st, events) \<Rightarrow>
        let stopReason = (if rea_HasToolCall st then ''tool_use'' else ''end_turn'')
        in (st\<lparr>rea_MessageStopSent := True\<rparr>,
            events @ [ev_message_delta stopReason st, ev_message_stop]))"

definition ResponsesEventToAnthropicEvents ::
  "json_lib \<Rightarrow> rea_state \<Rightarrow> ResponsesStreamEvent \<Rightarrow> rea_result" where
  "ResponsesEventToAnthropicEvents j st evt =
     (let t = re_Type evt in
      if t = ''response.created'' then resToAnthHandleCreated evt st
      else if t = ''response.output_item.added'' then resToAnthHandleOutputItemAdded evt st
      else if t = ''response.output_text.delta'' then resToAnthHandleTextDelta evt st
      else if t = ''response.output_text.done'' then resToAnthHandleBlockDone st
      else if t = ''response.function_call_arguments.delta''
              \<or> t = ''response.custom_tool_call_input.delta'' then resToAnthHandleFuncArgsDelta j evt st
      else if t = ''response.function_call_arguments.done'' then resToAnthHandleFuncArgsDone j evt st
      else if t = ''response.output_item.done'' then resToAnthHandleOutputItemDone j evt st
      else if t = ''response.reasoning_summary_text.delta'' \<or> t = ''response.reasoning_text.delta''
      then resToAnthHandleReasoningDelta evt st
      else if t = ''response.reasoning_summary_text.done'' then (st, [])
      else if t = ''response.completed'' \<or> t = ''response.done'' \<or> t = ''response.incomplete''
              \<or> t = ''response.failed'' then resToAnthHandleCompleted evt st
      else (st, []))"

text \<open>A whole stream: every upstream event, then the end of the upstream.\<close>

definition responses_anthropic_stream ::
  "json_lib \<Rightarrow> rea_state \<Rightarrow> ResponsesStreamEvent list \<Rightarrow> rea_result" where
  "responses_anthropic_stream j st evts =
     (case run_stream (ResponsesEventToAnthropicEvents j) st evts of (st, out) \<Rightarrow>
        case FinalizeResponsesAnthropicStream st of (st, fin) \<Rightarrow> (st, out @ fin))"

text \<open>The upstream events of one tool call: added, argument deltas, arguments done.\<close>

definition args_delta_event :: "int \<Rightarrow> string \<Rightarrow> ResponsesStreamEvent" where
  "args_delta_event i d = zero_ResponsesStreamEvent
     \<lparr>re_Type := ''response.function_call_arguments.delta'', re_OutputIndex := i, re_Delta := d\<rparr>"

definition tool_call_events :: "int \<Rightarrow> ResponsesOutput \<Rightarrow> string list \<Rightarrow> string \<Rightarrow> ResponsesStreamEvent list" where
  "tool_call_events i item ds full =
     [zero_ResponsesStreamEvent\<lparr>re_Type := ''response.output_item.added'', re_OutputIndex := i,
        re_Item := Some item\<rparr>]
     @ map (args_delta_event i) ds
     @ [zero_ResponsesStreamEvent\<lparr>re_Type := ''response.function_call_arguments.done'',
          re_OutputIndex := i, re_Arguments := full\<rparr>]"

subsection \<open>What an Anthropic event stream is\<close>

record anth_proto =
  ap_started :: bool
  ap_next :: int
  ap_open :: "string option"
  ap_ending :: bool
  ap_stopped :: bool

definition anth_init :: anth_proto where
  "anth_init = \<lparr>ap_started = False, ap_next = 0, ap_open = None, ap_ending = False, ap_stopped = False\<rparr>"

definition delta_fits :: "string \<Rightarrow> string \<Rightarrow> bool" where
  "delta_fits block delta \<longleftrightarrow>
     (block = ''text'' \<and> delta = ''text_delta'')
     \<or> (block = ''tool_use'' \<and> delta = ''input_json_delta'')
     \<or> (block = ''thinking'' \<and> (delta = ''thinking_delta'' \<or> delta = ''signature_delta''))"

text \<open>
  \<open>message_start\<close> comes first and once; blocks are numbered from 0 without gaps, never nested; a
  delta goes to the open block and has the kind of that block; \<open>message_delta\<close> and \<open>message_stop\<close>
  come once, in this order, with no block open, and nothing follows.
\<close>

definition anth_step :: "anth_proto \<Rightarrow> AnthropicStreamEvent \<Rightarrow> anth_proto option" where
  "anth_step p e =
     (if ae_Type e = ''message_start''
      then (if ap_started p then None else Some (p\<lparr>ap_started := True\<rparr>))
      else if \<not> ap_started p \<or> ap_stopped p then None
      else if ae_Type e = ''content_block_start'' then
        (case ae_ContentBlock e of
           Some b \<Rightarrow> if ap_open p = None \<and> \<not> ap_ending p \<and> ae_Index e = Some (ap_next p)
                     then Some (p\<lparr>ap_open := Some (acb_Type b)\<rparr>) else None
         | None \<Rightarrow> None)
      else if ae_Type e = ''content_block_delta'' then
        (case (ap_open p, ae_Delta e) of
           (Some b, Some d) \<Rightarrow> if ae_Index e = Some (ap_next p) \<and> delta_fits b (ad_Type d)
                               then Some p else None
         | _ \<Rightarrow> None)
      else if ae_Type e = ''content_block_stop'' then
        (if ap_open p \<noteq> None \<and> ae_Index e = Some (ap_next p)
         then Some (p\<lparr>ap_open := None, ap_next := ap_next p + 1\<rparr>) else None)
      else if ae_Type e = ''message_delta'' then
        (if ap_open p = None \<and> \<not> ap_ending p then Some (p\<lparr>ap_ending := True\<rparr>) else None)
      else if ae_Type e = ''message_stop'' then
        (if ap_ending p then Some (p\<lparr>ap_stopped := True\<rparr>) else None)
      else None)"

lemma anth_step_ev:
  "anth_step p (ev_message_start i m) = (if ap_started p then None else Some (p\<lparr>ap_started := True\<rparr>))"
  "anth_step p (ev_block_start idx b) =
     (if ap_started p \<and> \<not> ap_stopped p \<and> ap_open p = None \<and> \<not> ap_ending p \<and> idx = ap_next p
      then Some (p\<lparr>ap_open := Some (acb_Type b)\<rparr>) else None)"
  "anth_step p (ev_block_delta idx d) =
     (case ap_open p of
        None \<Rightarrow> None
      | Some b \<Rightarrow> if ap_started p \<and> \<not> ap_stopped p \<and> idx = ap_next p \<and> delta_fits b (ad_Type d)
                  then Some p else None)"
  "anth_step p (ev_block_stop idx) =
     (if ap_started p \<and> \<not> ap_stopped p \<and> ap_open p \<noteq> None \<and> idx = ap_next p
      then Some (p\<lparr>ap_open := None, ap_next := ap_next p + 1\<rparr>) else None)"
  "anth_step p (ev_message_delta r st) =
     (if ap_started p \<and> \<not> ap_stopped p \<and> ap_open p = None \<and> \<not> ap_ending p
      then Some (p\<lparr>ap_ending := True\<rparr>) else None)"
  "anth_step p ev_message_stop =
     (if ap_started p \<and> \<not> ap_stopped p \<and> ap_ending p then Some (p\<lparr>ap_stopped := True\<rparr>) else None)"
  by (auto simp: anth_step_def ev_message_start_def ev_block_start_def ev_block_delta_def
      ev_block_stop_def ev_message_delta_def ev_message_stop_def zero_defs split: option.split)

subsection \<open>What the upstream has to send\<close>

record resp_up =
  rup_started :: bool
  rup_item :: "(int \<times> string) option"
  rup_done :: bool

definition resp_up_init :: resp_up where
  "resp_up_init = \<lparr>rup_started = False, rup_item = None, rup_done = False\<rparr>"

definition resp_terminal :: "string \<Rightarrow> bool" where
  "resp_terminal t \<longleftrightarrow> t = ''response.completed'' \<or> t = ''response.done''
     \<or> t = ''response.incomplete'' \<or> t = ''response.failed''"

definition resp_up_step :: "resp_up \<Rightarrow> ResponsesStreamEvent \<Rightarrow> resp_up option" where
  "resp_up_step q e =
     (let t = re_Type e in
      if t = ''response.created'' then (if rup_started q then None else Some (q\<lparr>rup_started := True\<rparr>))
      else if \<not> rup_started q \<or> rup_done q then None
      else if t = ''response.output_item.added'' then
        (case re_Item e of
           None \<Rightarrow> Some q
         | Some it \<Rightarrow>
             if ro_Type it = ''function_call'' \<or> ro_Type it = ''custom_tool_call''
             then Some (q\<lparr>rup_item := Some (re_OutputIndex e, ''tool_use'')\<rparr>)
             else if ro_Type it = ''reasoning''
             then Some (q\<lparr>rup_item := Some (re_OutputIndex e, ''thinking'')\<rparr>)
             else Some q)
      else if t = ''response.function_call_arguments.delta''
              \<or> t = ''response.custom_tool_call_input.delta'' then
        (if re_Delta e = [] \<or> rup_item q = Some (re_OutputIndex e, ''tool_use'') then Some q else None)
      else if t = ''response.reasoning_summary_text.delta'' \<or> t = ''response.reasoning_text.delta'' then
        (if re_Delta e = [] \<or> rup_item q = Some (re_OutputIndex e, ''thinking'') then Some q else None)
      else if t = ''response.output_text.delta'' \<or> t = ''response.output_text.done''
              \<or> t = ''response.function_call_arguments.done'' \<or> t = ''response.output_item.done'' then
        Some (q\<lparr>rup_item := None\<rparr>)
      else if resp_terminal t then Some (q\<lparr>rup_item := None, rup_done := True\<rparr>)
      else Some q)"

definition rea_rel :: "resp_up \<Rightarrow> rea_state \<Rightarrow> anth_proto \<Rightarrow> bool" where
  "rea_rel q s p \<longleftrightarrow>
     rup_started q = rea_MessageStartSent s \<and> ap_started p = rea_MessageStartSent s
     \<and> rup_done q = rea_MessageStopSent s \<and> ap_stopped p = rea_MessageStopSent s
     \<and> ap_ending p = rea_MessageStopSent s
     \<and> ap_next p = rea_ContentBlockIndex s
     \<and> ap_open p = (if rea_ContentBlockOpen s then Some (rea_CurrentBlockType s) else None)
     \<and> (\<forall>i k. rup_item q = Some (i, k) \<longrightarrow>
           rea_ContentBlockOpen s \<and> rea_CurrentBlockType s = k
           \<and> rea_OutputIndexToBlockIdx s i = Some (rea_ContentBlockIndex s))"

text \<open>Closing the open block is accepted and leaves the related state with no block open.\<close>

lemma closeCurrentBlock_sim:
  assumes "rea_rel q s p" and "rea_MessageStartSent s" and "\<not> rea_MessageStopSent s"
  shows "\<exists>p'. accepts anth_step p (snd (closeCurrentBlock s)) = Some p'
           \<and> rea_rel (q\<lparr>rup_item := None\<rparr>) (fst (closeCurrentBlock s)) p'"
  using assms
  by (auto simp: closeCurrentBlock_def rea_rel_def anth_step_ev delta_fits_def Let_def zero_defs)

lemma closeCurrentBlock_frame [simp]:
  "rea_ContentBlockOpen (fst (closeCurrentBlock s)) = False"
  "rea_MessageStartSent (fst (closeCurrentBlock s)) = rea_MessageStartSent s"
  "rea_MessageStopSent (fst (closeCurrentBlock s)) = rea_MessageStopSent s"
  "rea_OutputIndexToBlockIdx (fst (closeCurrentBlock s)) = rea_OutputIndexToBlockIdx s"
  "rea_HasToolCall (fst (closeCurrentBlock s)) = rea_HasToolCall s"
  by (auto simp: closeCurrentBlock_def Let_def)

lemma rea_rel_item_None: "rea_rel q s p \<Longrightarrow> rea_rel (q\<lparr>rup_item := None\<rparr>) s p"
  by (simp add: rea_rel_def)

definition sim_to :: "resp_up \<Rightarrow> anth_proto \<Rightarrow> rea_result \<Rightarrow> bool" where
  "sim_to q p r \<longleftrightarrow> (\<exists>p'. accepts anth_step p (snd r) = Some p' \<and> rea_rel q (fst r) p')"

lemma sim_to_refl: "rea_rel q s p \<Longrightarrow> sim_to q p (s, [])"
  by (simp add: sim_to_def)

lemma sim_to_close:
  "rea_rel q s p \<Longrightarrow> rea_MessageStartSent s \<Longrightarrow> \<not> rea_MessageStopSent s \<Longrightarrow>
    sim_to (q\<lparr>rup_item := None\<rparr>) p (closeCurrentBlock s)"
  unfolding sim_to_def by (rule closeCurrentBlock_sim)

lemma sim_to_seq:
  assumes "sim_to q p (s1, xs)"
    and "\<And>p1. rea_rel q s1 p1 \<Longrightarrow> sim_to q' p1 (s2, ys)"
  shows "sim_to q' p (s2, xs @ ys)"
  using assms by (fastforce simp: sim_to_def accepts_append)

lemma sim_to_close_then:
  assumes "rea_rel q s p" and "rea_MessageStartSent s" and "\<not> rea_MessageStopSent s"
    and "closeCurrentBlock s = (s1, xs)"
    and "\<And>p1. rea_rel (q\<lparr>rup_item := None\<rparr>) s1 p1 \<Longrightarrow> sim_to q' p1 (s2, ys)"
  shows "sim_to q' p (s2, xs @ ys)"
  using sim_to_close [OF assms(1-3)] assms(4,5) by (auto intro: sim_to_seq)

lemma closed_after:
  assumes "closeCurrentBlock s = (s1, xs)"
  shows "\<not> rea_ContentBlockOpen s1" "rea_MessageStartSent s1 = rea_MessageStartSent s"
    "rea_MessageStopSent s1 = rea_MessageStopSent s"
  using closeCurrentBlock_frame [of s] assms by simp_all

lemma created_sim:
  assumes "rea_rel q s p" and "\<not> rup_started q"
  shows "sim_to (q\<lparr>rup_started := True\<rparr>) p (resToAnthHandleCreated evt s)"
  using assms
  by (auto simp: sim_to_def resToAnthHandleCreated_def rea_rel_def anth_step_ev Let_def
      split: option.split)

lemma item_added_sim:
  assumes rel: "rea_rel q s p" and go: "rea_MessageStartSent s" "\<not> rea_MessageStopSent s"
    and up: "re_Type evt = ''response.output_item.added''" "resp_up_step q evt = Some q'"
  shows "sim_to q' p (resToAnthHandleOutputItemAdded evt s)"
proof (cases "re_Item evt")
  case None
  then show ?thesis using rel go up
    by (auto simp: resToAnthHandleOutputItemAdded_def resp_up_step_def rea_rel_def sim_to_refl
        split: if_splits)
next
  case (Some it)
  obtain s1 xs where cl: "closeCurrentBlock s = (s1, xs)" by (cases "closeCurrentBlock s")
  note open1 = closed_after [OF cl]
  have go': "rup_started q" "\<not> rup_done q" using rel go by (simp_all add: rea_rel_def)
  consider (tool) "ro_Type it = ''function_call'' \<or> ro_Type it = ''custom_tool_call''"
    | (reasoning) "ro_Type it = ''reasoning''"
    | (other) "ro_Type it \<notin> {''function_call'', ''custom_tool_call'', ''reasoning''}"
    by blast
  then show ?thesis
  proof cases
    case tool
    then show ?thesis using Some up go go' open1
      by (auto simp: resToAnthHandleOutputItemAdded_def resp_up_step_def cl Let_def
          intro!: sim_to_close_then [OF rel go cl])
        (auto simp: sim_to_def anth_step_ev rea_rel_def zero_defs)
  next
    case reasoning
    then show ?thesis using Some up go go' open1
      by (auto simp: resToAnthHandleOutputItemAdded_def resp_up_step_def cl Let_def
          intro!: sim_to_close_then [OF rel go cl])
        (auto simp: sim_to_def anth_step_ev rea_rel_def zero_defs)
  next
    case other
    then show ?thesis using Some up go go' rel
      by (auto simp: resToAnthHandleOutputItemAdded_def resp_up_step_def sim_to_refl)
  qed
qed

lemma text_delta_sim:
  assumes rel: "rea_rel q s p" and go: "rea_MessageStartSent s" "\<not> rea_MessageStopSent s"
  shows "sim_to (q\<lparr>rup_item := None\<rparr>) p (resToAnthHandleTextDelta evt s)"
proof (cases "re_Delta evt = []")
  case True
  then show ?thesis using rel
    by (simp add: resToAnthHandleTextDelta_def sim_to_refl rea_rel_item_None)
next
  case False
  obtain s1 xs where cl: "closeCurrentBlock s = (s1, xs)" by (cases "closeCurrentBlock s")
  note open1 = closed_after [OF cl]
  show ?thesis
  proof (cases "rea_ContentBlockOpen s \<and> rea_CurrentBlockType s = ''text''")
    case True
    then show ?thesis using False rel go
      by (auto simp: resToAnthHandleTextDelta_def sim_to_def anth_step_ev rea_rel_def delta_fits_def
          zero_defs)
  next
    case other: False
    then have eq: "resToAnthHandleTextDelta evt s =
      (s1\<lparr>rea_ContentBlockOpen := True, rea_CurrentBlockType := ''text''\<rparr>,
       xs @ [ev_block_start (rea_ContentBlockIndex s1)
               (zero_AnthropicContentBlock\<lparr>acb_Type := ''text'', acb_Text := []\<rparr>),
             ev_block_delta (rea_ContentBlockIndex s1)
               (zero_AnthropicDelta\<lparr>ad_Type := ''text_delta'', ad_Text := re_Delta evt\<rparr>)])"
      using False by (auto simp: resToAnthHandleTextDelta_def cl)
    show ?thesis unfolding eq
      by (rule sim_to_close_then [OF rel go cl])
        (use open1 go in \<open>auto simp: sim_to_def anth_step_ev rea_rel_def delta_fits_def zero_defs\<close>)
  qed
qed

lemma args_delta_sim:
  assumes rel: "rea_rel q s p" and go: "rea_MessageStartSent s" "\<not> rea_MessageStopSent s"
    and up: "re_Delta evt = [] \<or> rup_item q = Some (re_OutputIndex evt, ''tool_use'')"
  shows "sim_to q p (resToAnthHandleFuncArgsDelta j evt s)"
proof (cases "re_Delta evt = []")
  case True
  then show ?thesis using rel by (simp add: resToAnthHandleFuncArgsDelta_def sim_to_refl)
next
  case False
  then have tool: "rea_ContentBlockOpen s" "rea_CurrentBlockType s = ''tool_use''"
      "rea_OutputIndexToBlockIdx s (re_OutputIndex evt) = Some (rea_ContentBlockIndex s)"
    using up rel by (simp_all add: rea_rel_def)
  have keep: "rea_rel q (s\<lparr>rea_CurrentToolArgs := a\<rparr>) p"
      "rea_rel q (s\<lparr>rea_CurrentToolHadDelta := h\<rparr>) p"
      "rea_rel q (s\<lparr>rea_CurrentToolArgs := a, rea_CurrentToolHadDelta := h\<rparr>) p" for a h
    using rel by (simp_all add: rea_rel_def)
  have delta: "anth_step p (ev_block_delta (rea_ContentBlockIndex s) (input_json_delta x)) = Some p"
    for x using rel go tool
    by (simp add: anth_step_ev rea_rel_def delta_fits_def input_json_delta_def zero_defs)
  show ?thesis
    using False tool(2,3) keep delta by (simp add: sim_to_def resToAnthHandleFuncArgsDelta_def Let_def)
qed

lemma reasoning_delta_sim:
  assumes "rea_rel q s p" and "rea_MessageStartSent s" "\<not> rea_MessageStopSent s"
    and "re_Delta evt = [] \<or> rup_item q = Some (re_OutputIndex evt, ''thinking'')"
  shows "sim_to q p (resToAnthHandleReasoningDelta evt s)"
  using assms
  by (auto simp: sim_to_def resToAnthHandleReasoningDelta_def rea_rel_def anth_step_ev delta_fits_def
      zero_defs)

lemma block_done_sim:
  assumes "rea_rel q s p" and "rea_MessageStartSent s" "\<not> rea_MessageStopSent s"
  shows "sim_to (q\<lparr>rup_item := None\<rparr>) p (resToAnthHandleBlockDone s)"
  using sim_to_close [OF assms] assms
  by (simp add: resToAnthHandleBlockDone_def sim_to_refl rea_rel_item_None)

lemma flush_args_sim:
  assumes rel: "rea_rel q s p" and go: "rea_MessageStartSent s" "\<not> rea_MessageStopSent s"
    and tool: "rea_CurrentBlockType s = ''tool_use''"
  shows "sim_to (q\<lparr>rup_item := None\<rparr>) p (resToAnthFlushArgs evt raw s)"
proof -
  obtain s1 xs where cl: "closeCurrentBlock s = (s1, xs)" by (cases "closeCurrentBlock s")
  have close: "sim_to (q\<lparr>rup_item := None\<rparr>) p (s1, xs)" using sim_to_close [OF rel go] cl by simp
  have delta: "anth_step p (ev_block_delta (rea_ContentBlockIndex s) (input_json_delta raw)) = Some p"
    if "rea_ContentBlockOpen s"
    using that rel go tool
    by (auto simp: anth_step_ev rea_rel_def delta_fits_def input_json_delta_def zero_defs)
  show ?thesis
    using close delta rel
    by (auto simp: resToAnthFlushArgs_def cl Let_def sim_to_def rea_rel_item_None)
qed

lemma args_done_sim:
  assumes "rea_rel q s p" and "rea_MessageStartSent s" "\<not> rea_MessageStopSent s"
  shows "sim_to (q\<lparr>rup_item := None\<rparr>) p (resToAnthHandleFuncArgsDone j evt s)"
  using sim_to_close [OF assms] block_done_sim [OF assms] flush_args_sim [OF assms] assms(1)
  by (auto simp: resToAnthHandleFuncArgsDone_def Let_def sim_to_refl rea_rel_item_None)

lemma rea_rel_signature [simp]:
  "rea_rel q (s\<lparr>rea_PendingThinkingSignature := x\<rparr>) p = rea_rel q s p"
  by (simp add: rea_rel_def)

lemma web_search_sim:
  assumes rel: "rea_rel q s p" and go: "rea_MessageStartSent s" "\<not> rea_MessageStopSent s"
  shows "sim_to (q\<lparr>rup_item := None\<rparr>) p (resToAnthHandleWebSearchDone j item s)"
proof -
  obtain s1 xs where cl: "closeCurrentBlock s = (s1, xs)" by (cases "closeCurrentBlock s")
  obtain b1 b2 where ws: "web_search_blocks j item = (b1, b2)" by (cases "web_search_blocks j item")
  show ?thesis
    unfolding resToAnthHandleWebSearchDone_def cl ws prod.case Let_def
    by (rule sim_to_close_then [OF rel go cl])
      (use closed_after [OF cl] go in \<open>auto simp: sim_to_def anth_step_ev rea_rel_def\<close>)
qed

lemma item_done_sim:
  assumes "rea_rel q s p" and "rea_MessageStartSent s" "\<not> rea_MessageStopSent s"
  shows "sim_to (q\<lparr>rup_item := None\<rparr>) p (resToAnthHandleOutputItemDone j evt s)"
proof (cases "re_Item evt")
  case None
  then show ?thesis using assms
    by (simp add: resToAnthHandleOutputItemDone_def sim_to_refl rea_rel_item_None)
next
  case (Some item)
  let ?s = "s\<lparr>rea_PendingThinkingSignature := TrimSpace (ro_EncryptedContent item)\<rparr>"
  have "sim_to (q\<lparr>rup_item := None\<rparr>) p (closeCurrentBlock ?s)"
    by (rule sim_to_close) (use assms in simp_all)
  then show ?thesis
    using Some web_search_sim [OF assms] sim_to_close [OF assms] assms(1)
    by (auto simp: resToAnthHandleOutputItemDone_def Let_def sim_to_refl rea_rel_item_None)
qed

lemma rea_rel_set_usage [simp]: "rea_rel q (rea_set_usage u s) p = rea_rel q s p"
  by (simp add: rea_set_usage_def rea_rel_def Let_def split: option.split)

lemma finish_sim:
  assumes "rea_rel q s p" and "rea_MessageStartSent s" "\<not> rea_MessageStopSent s"
    and "\<not> rea_ContentBlockOpen s"
  shows "sim_to (q\<lparr>rup_item := None, rup_done := True\<rparr>) p
           (s\<lparr>rea_MessageStopSent := True\<rparr>, [ev_message_delta r s, ev_message_stop])"
  using assms by (auto simp: sim_to_def anth_step_ev rea_rel_def)

lemma rea_set_usage_frame [simp]:
  "rea_MessageStartSent (rea_set_usage u s) = rea_MessageStartSent s"
  "rea_MessageStopSent (rea_set_usage u s) = rea_MessageStopSent s"
  "rea_ContentBlockOpen (rea_set_usage u s) = rea_ContentBlockOpen s"
  by (simp_all add: rea_set_usage_def Let_def split: option.split)

lemma completed_sim:
  assumes rel: "rea_rel q s p" and go: "rea_MessageStartSent s" "\<not> rea_MessageStopSent s"
  shows "sim_to (q\<lparr>rup_item := None, rup_done := True\<rparr>) p (resToAnthHandleCompleted evt s)"
proof -
  obtain s1 xs where cl: "closeCurrentBlock s = (s1, xs)" by (cases "closeCurrentBlock s")
  define s2 where "s2 = (case re_Response evt of None \<Rightarrow> rea_set_usage (re_Usage evt) s1
      | Some r \<Rightarrow> rea_set_usage (rr_Usage r) (rea_set_usage (re_Usage evt) s1))"
  have eq: "resToAnthHandleCompleted evt s =
      (s2\<lparr>rea_MessageStopSent := True\<rparr>,
       xs @ [ev_message_delta (rea_completed_stop_reason evt s2) s2, ev_message_stop])"
    using go by (simp add: resToAnthHandleCompleted_def cl s2_def Let_def)
  have s2: "rea_rel q' s2 p' = rea_rel q' s1 p'" "rea_MessageStartSent s2 = rea_MessageStartSent s"
    "rea_MessageStopSent s2 = rea_MessageStopSent s" "\<not> rea_ContentBlockOpen s2" for q' p'
    using closed_after [OF cl] by (simp_all add: s2_def split: option.split)
  show ?thesis unfolding eq
  proof (rule sim_to_close_then [OF rel go cl])
    fix p1 assume "rea_rel (q\<lparr>rup_item := None\<rparr>) s1 p1"
    then show "sim_to (q\<lparr>rup_item := None, rup_done := True\<rparr>) p1
      (s2\<lparr>rea_MessageStopSent := True\<rparr>,
       [ev_message_delta (rea_completed_stop_reason evt s2) s2, ev_message_stop])"
      using finish_sim [of "q\<lparr>rup_item := None\<rparr>" s2 p1] s2 go by simp
  qed
qed

lemma finalize_sim:
  assumes rel: "rea_rel q s p" and go: "rea_MessageStartSent s" "\<not> rea_MessageStopSent s"
  shows "sim_to (q\<lparr>rup_item := None, rup_done := True\<rparr>) p (FinalizeResponsesAnthropicStream s)"
proof -
  obtain s1 xs where cl: "closeCurrentBlock s = (s1, xs)" by (cases "closeCurrentBlock s")
  define r where "r = (if rea_HasToolCall s1 then ''tool_use'' else ''end_turn'')"
  have eq: "FinalizeResponsesAnthropicStream s =
      (s1\<lparr>rea_MessageStopSent := True\<rparr>, xs @ [ev_message_delta r s1, ev_message_stop])"
    using go by (simp add: FinalizeResponsesAnthropicStream_def cl Let_def r_def)
  show ?thesis unfolding eq
  proof (rule sim_to_close_then [OF rel go cl])
    fix p1 assume "rea_rel (q\<lparr>rup_item := None\<rparr>) s1 p1"
    then show "sim_to (q\<lparr>rup_item := None, rup_done := True\<rparr>) p1
      (s1\<lparr>rea_MessageStopSent := True\<rparr>, [ev_message_delta r s1, ev_message_stop])"
      using finish_sim [of "q\<lparr>rup_item := None\<rparr>" s1 p1] closed_after [OF cl] go by simp
  qed
qed

lemma rea_step_sim:
  assumes rel: "rea_rel q s p" and up: "resp_up_step q evt = Some q'"
  shows "sim_to q' p (ResponsesEventToAnthropicEvents j s evt)"
proof (cases "re_Type evt = ''response.created''")
  case True
  then show ?thesis using created_sim [OF rel] up
    by (auto simp: ResponsesEventToAnthropicEvents_def resp_up_step_def split: if_splits)
next
  case False
  then have go: "rea_MessageStartSent s" "\<not> rea_MessageStopSent s"
    using rel up by (auto simp: resp_up_step_def rea_rel_def Let_def split: if_splits)
  have go': "rup_started q" "\<not> rup_done q" using rel go by (simp_all add: rea_rel_def)
  note step_def = ResponsesEventToAnthropicEvents_def [of j s evt] resp_up_step_def [of q evt] Let_def
  consider
      (added) "re_Type evt = ''response.output_item.added''"
    | (text_delta) "re_Type evt = ''response.output_text.delta''"
    | (text_done) "re_Type evt = ''response.output_text.done''"
    | (args_delta) "re_Type evt = ''response.function_call_arguments.delta''
        \<or> re_Type evt = ''response.custom_tool_call_input.delta''"
    | (args_done) "re_Type evt = ''response.function_call_arguments.done''"
    | (item_done) "re_Type evt = ''response.output_item.done''"
    | (reasoning) "re_Type evt = ''response.reasoning_summary_text.delta''
        \<or> re_Type evt = ''response.reasoning_text.delta''"
    | (terminal) "resp_terminal (re_Type evt)"
    | (ignored) "re_Type evt \<notin> {''response.created'', ''response.output_item.added'',
        ''response.output_text.delta'', ''response.output_text.done'',
        ''response.function_call_arguments.delta'', ''response.custom_tool_call_input.delta'',
        ''response.function_call_arguments.done'', ''response.output_item.done'',
        ''response.reasoning_summary_text.delta'', ''response.reasoning_text.delta''}"
        "\<not> resp_terminal (re_Type evt)"
    using False by blast
  then show ?thesis
  proof cases
    case added
    then show ?thesis using item_added_sim [OF rel go added up]
      by (simp add: ResponsesEventToAnthropicEvents_def)
  next
    case text_delta
    then show ?thesis using up go' text_delta_sim [OF rel go, of evt] by (simp add: step_def)
  next
    case text_done
    then show ?thesis using up go' block_done_sim [OF rel go] by (simp add: step_def)
  next
    case args_delta
    then show ?thesis using up go' args_delta_sim [OF rel go, of evt j]
      by (auto simp: step_def split: if_splits)
  next
    case args_done
    then show ?thesis using up go' args_done_sim [OF rel go, of j evt] by (simp add: step_def)
  next
    case item_done
    then show ?thesis using up go' item_done_sim [OF rel go, of j evt] by (simp add: step_def)
  next
    case reasoning
    then show ?thesis using up go' reasoning_delta_sim [OF rel go, of evt]
      by (auto simp: step_def split: if_splits)
  next
    case terminal
    then show ?thesis using up go' completed_sim [OF rel go, of evt]
      by (auto simp: step_def resp_terminal_def)
  next
    case ignored
    then show ?thesis using up go' sim_to_refl [OF rel]
      by (simp add: step_def resp_terminal_def)
  qed
qed

interpretation rea_proto: stream_protocol "ResponsesEventToAnthropicEvents j" resp_up_step anth_step rea_rel
  for j
  using rea_step_sim [unfolded sim_to_def] by unfold_locales blast

lemma rea_rel_init: "rea_rel resp_up_init (NewResponsesEventToAnthropicState now) anth_init"
  by (simp add: rea_rel_def resp_up_init_def NewResponsesEventToAnthropicState_def anth_init_def)

lemma rea_rel_model [simp]: "rea_rel q (s\<lparr>rea_Model := m\<rparr>) p = rea_rel q s p"
  by (simp add: rea_rel_def)

text \<open>The whole run: the simulation carries every event, and the finalisation ends what is still open.\<close>

lemma rea_complete:
  assumes "accepts resp_up_step resp_up_init evts = Some q" and "rup_started q"
  shows "\<exists>p. accepts anth_step anth_init
           (snd (responses_anthropic_stream j
              ((NewResponsesEventToAnthropicState now)\<lparr>rea_Model := model\<rparr>) evts)) = Some p
         \<and> ap_stopped p"
proof -
  let ?s0 = "(NewResponsesEventToAnthropicState now)\<lparr>rea_Model := model\<rparr>"
  let ?run = "run_stream (ResponsesEventToAnthropicEvents j) ?s0 evts"
  obtain p where p: "accepts anth_step anth_init (snd ?run) = Some p" "rea_rel q (fst ?run) p"
    using rea_proto.run_sim [of resp_up_init ?s0 anth_init evts q j] rea_rel_init assms(1) by auto
  have fin: "\<exists>p'. accepts anth_step p (snd (FinalizeResponsesAnthropicStream (fst ?run))) = Some p'
      \<and> ap_stopped p'"
  proof (cases "rea_MessageStopSent (fst ?run)")
    case True
    then show ?thesis using p(2)
      by (auto simp: FinalizeResponsesAnthropicStream_def rea_rel_def)
  next
    case False
    then show ?thesis using finalize_sim [OF p(2)] assms(2) p(2)
      by (auto simp: sim_to_def rea_rel_def)
  qed
  then show ?thesis using p(1)
    by (auto simp: responses_anthropic_stream_def split_beta accepts_append)
qed

text \<open>
  (C3) For every Responses event stream that opens with \<open>response.created\<close> once, sends tool and
  reasoning deltas for the item that is open and sends nothing after its terminal event, the
  translated stream followed by the finalisation is a complete Anthropic stream: one
  \<open>message_start\<close>, content blocks numbered from 0 without gaps and never nested, every delta
  addressed to the open block and of the kind of that block, then one \<open>message_delta\<close> and one
  \<open>message_stop\<close> with no block open. The upstream may end at any point, also in the middle of a block.
\<close>

theorem anthropic_stream_well_formed:
  assumes "accepts resp_up_step resp_up_init evts = Some q" and "rup_started q"
  shows "\<exists>p. accepts anth_step anth_init
           (snd (responses_anthropic_stream j
              ((NewResponsesEventToAnthropicState now)\<lparr>rea_Model := model\<rparr>) evts)) = Some p
         \<and> ap_stopped p"
  using assms by (rule rea_complete)

theorem anthropic_stream_well_formed_witness:
  "\<exists>p. accepts anth_step anth_init (snd (responses_anthropic_stream json_none
          ((NewResponsesEventToAnthropicState 7)\<lparr>rea_Model := ''m''\<rparr>)
          [zero_ResponsesStreamEvent\<lparr>re_Type := ''response.created''\<rparr>,
           zero_ResponsesStreamEvent\<lparr>re_Type := ''response.output_item.added'', re_OutputIndex := 2,
             re_Item := Some (zero_ResponsesOutput\<lparr>ro_Type := ''function_call''\<rparr>)\<rparr>,
           args_delta_event 2 ''x''])) = Some p \<and> ap_stopped p"
  by (rule anthropic_stream_well_formed
        [where q = "\<lparr>rup_started = True, rup_item = Some (2, ''tool_use''), rup_done = False\<rparr>"])
    (simp_all add: resp_up_step_def resp_up_init_def args_delta_event_def zero_defs)

subsection \<open>Any upstream\<close>

record block_proto =
  bp_next :: int
  bp_open :: bool

definition anth_block_step :: "block_proto \<Rightarrow> AnthropicStreamEvent \<Rightarrow> block_proto option" where
  "anth_block_step p e =
     (case ae_Index e of
        None \<Rightarrow> (if ae_Type e \<in> {''message_start'', ''message_delta'', ''message_stop''} then Some p else None)
      | Some idx \<Rightarrow>
          if ae_Type e = ''content_block_start''
          then (if \<not> bp_open p \<and> idx = bp_next p then Some (p\<lparr>bp_open := True\<rparr>) else None)
          else if ae_Type e = ''content_block_delta''
          then (if 0 \<le> idx \<and> (idx < bp_next p \<or> idx = bp_next p \<and> bp_open p) then Some p else None)
          else if ae_Type e = ''content_block_stop''
          then (if bp_open p \<and> idx = bp_next p
                then Some (p\<lparr>bp_open := False, bp_next := bp_next p + 1\<rparr>) else None)
          else None)"

lemma anth_block_step_ev:
  "anth_block_step p (ev_message_start i m) = Some p"
  "anth_block_step p (ev_block_start idx b) =
     (if \<not> bp_open p \<and> idx = bp_next p then Some (p\<lparr>bp_open := True\<rparr>) else None)"
  "anth_block_step p (ev_block_delta idx d) =
     (if 0 \<le> idx \<and> (idx < bp_next p \<or> idx = bp_next p \<and> bp_open p) then Some p else None)"
  "anth_block_step p (ev_block_stop idx) =
     (if bp_open p \<and> idx = bp_next p then Some (p\<lparr>bp_open := False, bp_next := bp_next p + 1\<rparr>) else None)"
  "anth_block_step p (ev_message_delta r st) = Some p"
  "anth_block_step p ev_message_stop = Some p"
  by (simp_all add: anth_block_step_def ev_message_start_def ev_block_start_def ev_block_delta_def
      ev_block_stop_def ev_message_delta_def ev_message_stop_def zero_defs)

definition rea_block_rel :: "unit \<Rightarrow> rea_state \<Rightarrow> block_proto \<Rightarrow> bool" where
  "rea_block_rel u s p \<longleftrightarrow>
     bp_next p = rea_ContentBlockIndex s \<and> bp_open p = rea_ContentBlockOpen s
     \<and> 0 \<le> rea_ContentBlockIndex s
     \<and> (\<forall>b \<in> ran (rea_OutputIndexToBlockIdx s).
           0 \<le> b \<and> (b < rea_ContentBlockIndex s \<or> b = rea_ContentBlockIndex s \<and> rea_ContentBlockOpen s))"

definition blk_to :: "block_proto \<Rightarrow> rea_result \<Rightarrow> bool" where
  "blk_to p r \<longleftrightarrow> (\<exists>p'. accepts anth_block_step p (snd r) = Some p' \<and> rea_block_rel () (fst r) p')"

lemma blk_to_refl: "rea_block_rel () s p \<Longrightarrow> blk_to p (s, [])"
  by (simp add: blk_to_def)

lemma rea_block_rel_lookup:
  "rea_block_rel () s p \<Longrightarrow> rea_OutputIndexToBlockIdx s i = Some b \<Longrightarrow>
     anth_block_step p (ev_block_delta b d) = Some p"
  by (auto simp: rea_block_rel_def anth_block_step_ev ran_def)

lemma blk_to_close:
  assumes "rea_block_rel () s p"
  shows "blk_to p (closeCurrentBlock s)"
  using assms
  by (force simp: blk_to_def closeCurrentBlock_def rea_block_rel_def anth_block_step_ev Let_def)

lemma blk_to_close_then:
  assumes "rea_block_rel () s p" and "closeCurrentBlock s = (s1, xs)"
    and "\<And>p1. rea_block_rel () s1 p1 \<Longrightarrow> blk_to p1 (s2, ys)"
  shows "blk_to p (s2, xs @ ys)"
  using blk_to_close [OF assms(1)] assms(2,3) by (fastforce simp: blk_to_def accepts_append)

lemma ran_map_upd_subset: "b \<in> ran (m(k \<mapsto> v)) \<Longrightarrow> b = v \<or> b \<in> ran m"
  by (auto simp: ran_def split: if_splits)

lemma blk_created: "rea_block_rel () s p \<Longrightarrow> blk_to p (resToAnthHandleCreated evt s)"
  by (simp add: blk_to_def resToAnthHandleCreated_def rea_block_rel_def anth_block_step_ev Let_def
      split: option.split)

lemma blk_item_added:
  assumes rel: "rea_block_rel () s p"
  shows "blk_to p (resToAnthHandleOutputItemAdded evt s)"
proof -
  obtain s1 xs where cl: "closeCurrentBlock s = (s1, xs)" by (cases "closeCurrentBlock s")
  note open1 = closed_after [OF cl]
  show ?thesis
    unfolding resToAnthHandleOutputItemAdded_def cl prod.case Let_def
    by (auto split: option.split intro!: blk_to_close_then [OF rel cl] blk_to_refl [OF rel])
      (use open1 in \<open>force simp: blk_to_def anth_block_step_ev rea_block_rel_def
        dest!: ran_map_upd_subset\<close>)+
qed

lemma blk_text_delta:
  assumes rel: "rea_block_rel () s p"
  shows "blk_to p (resToAnthHandleTextDelta evt s)"
proof -
  obtain s1 xs where cl: "closeCurrentBlock s = (s1, xs)" by (cases "closeCurrentBlock s")
  note open1 = closed_after [OF cl]
  have reopened: "blk_to p (s1\<lparr>rea_ContentBlockOpen := True, rea_CurrentBlockType := ''text''\<rparr>,
      xs @ [ev_block_start (rea_ContentBlockIndex s1) b, ev_block_delta (rea_ContentBlockIndex s1) d])"
    for b d
    by (rule blk_to_close_then [OF rel cl])
      (use open1 in \<open>auto simp: blk_to_def anth_block_step_ev rea_block_rel_def\<close>)
  have kept: "blk_to p (s, [ev_block_delta (rea_ContentBlockIndex s) d])"
    if "rea_ContentBlockOpen s" for d
    using rel that by (auto simp: blk_to_def anth_block_step_ev rea_block_rel_def)
  show ?thesis
    using reopened kept blk_to_refl [OF rel] by (simp add: resToAnthHandleTextDelta_def cl)
qed

lemma rea_block_rel_frame [simp]:
  "rea_block_rel u (s\<lparr>rea_CurrentToolArgs := a\<rparr>) p = rea_block_rel u s p"
  "rea_block_rel u (s\<lparr>rea_CurrentToolHadDelta := h\<rparr>) p = rea_block_rel u s p"
  "rea_block_rel u (s\<lparr>rea_PendingThinkingSignature := x\<rparr>) p = rea_block_rel u s p"
  "rea_block_rel u (s\<lparr>rea_MessageStopSent := f\<rparr>) p = rea_block_rel u s p"
  "rea_block_rel u (s\<lparr>rea_Model := m\<rparr>) p = rea_block_rel u s p"
  "rea_block_rel u (rea_set_usage v s) p = rea_block_rel u s p"
  by (simp_all add: rea_block_rel_def rea_set_usage_def Let_def split: option.split)

lemma blk_args_delta:
  assumes rel: "rea_block_rel () s p"
  shows "blk_to p (resToAnthHandleFuncArgsDelta j evt s)"
  using rel rea_block_rel_lookup [OF rel]
  by (simp add: resToAnthHandleFuncArgsDelta_def blk_to_def Let_def split: option.split)

lemma blk_reasoning_delta:
  assumes rel: "rea_block_rel () s p"
  shows "blk_to p (resToAnthHandleReasoningDelta evt s)"
  using rel rea_block_rel_lookup [OF rel]
  by (simp add: resToAnthHandleReasoningDelta_def blk_to_def split: option.split)

lemma blk_block_done: "rea_block_rel () s p \<Longrightarrow> blk_to p (resToAnthHandleBlockDone s)"
  by (simp add: resToAnthHandleBlockDone_def blk_to_refl blk_to_close)

lemma blk_flush_args:
  assumes rel: "rea_block_rel () s p"
  shows "blk_to p (resToAnthFlushArgs evt raw s)"
proof -
  obtain s1 xs where cl: "closeCurrentBlock s = (s1, xs)" by (cases "closeCurrentBlock s")
  have close: "blk_to p (s1, xs)" using blk_to_close [OF rel] cl by simp
  have delta: "anth_block_step p (ev_block_delta (rea_ContentBlockIndex s) d) = Some p"
    if "rea_ContentBlockOpen s" for d
    using that rel by (simp add: anth_block_step_ev rea_block_rel_def)
  show ?thesis
    using close delta rel by (auto simp: resToAnthFlushArgs_def cl Let_def blk_to_def)
qed

lemma blk_args_done: "rea_block_rel () s p \<Longrightarrow> blk_to p (resToAnthHandleFuncArgsDone j evt s)"
  by (simp add: resToAnthHandleFuncArgsDone_def blk_to_refl blk_to_close blk_block_done blk_flush_args
      Let_def)

lemma blk_item_done:
  assumes rel: "rea_block_rel () s p"
  shows "blk_to p (resToAnthHandleOutputItemDone j evt s)"
proof -
  have web: "blk_to p (resToAnthHandleWebSearchDone j item s)" for item
  proof -
    obtain s1 xs where cl: "closeCurrentBlock s = (s1, xs)" by (cases "closeCurrentBlock s")
    obtain b1 b2 where ws: "web_search_blocks j item = (b1, b2)"
      by (cases "web_search_blocks j item")
    show ?thesis
      unfolding resToAnthHandleWebSearchDone_def cl ws prod.case Let_def
      by (rule blk_to_close_then [OF rel cl])
        (use closed_after [OF cl] in \<open>force simp: blk_to_def anth_block_step_ev rea_block_rel_def\<close>)
  qed
  show ?thesis
    using rel web by (simp add: resToAnthHandleOutputItemDone_def blk_to_refl blk_to_close Let_def
        split: option.split)
qed

lemma blk_completed:
  assumes rel: "rea_block_rel () s p"
  shows "blk_to p (resToAnthHandleCompleted evt s)"
proof -
  obtain s1 xs where cl: "closeCurrentBlock s = (s1, xs)" by (cases "closeCurrentBlock s")
  show ?thesis
    unfolding resToAnthHandleCompleted_def cl prod.case Let_def
    using rel by (auto intro!: blk_to_close_then [OF rel cl] simp: blk_to_refl split: option.split)
      (auto simp: blk_to_def anth_block_step_ev)
qed

lemma blk_finalize:
  assumes rel: "rea_block_rel () s p"
  shows "blk_to p (FinalizeResponsesAnthropicStream s)"
proof -
  obtain s1 xs where cl: "closeCurrentBlock s = (s1, xs)" by (cases "closeCurrentBlock s")
  show ?thesis
    unfolding FinalizeResponsesAnthropicStream_def cl prod.case Let_def
    using rel by (auto intro!: blk_to_close_then [OF rel cl] simp: blk_to_refl)
      (auto simp: blk_to_def anth_block_step_ev)
qed

lemma blk_step:
  assumes "rea_block_rel () s p"
  shows "blk_to p (ResponsesEventToAnthropicEvents j s evt)"
  by (simp add: ResponsesEventToAnthropicEvents_def Let_def blk_created blk_item_added blk_text_delta
      blk_block_done blk_args_delta blk_args_done blk_item_done blk_reasoning_delta blk_completed
      blk_to_refl assms)

interpretation rea_blocks: stream_protocol "ResponsesEventToAnthropicEvents j" "\<lambda>u e. Some ()"
  anth_block_step rea_block_rel for j
  using blk_step unfolding blk_to_def by unfold_locales auto

lemma accepts_unit: "accepts (\<lambda>u e. Some ()) () es = Some ()"
  by (induction es) simp_all

text \<open>
  Whatever events the upstream sends, in whatever order, the translated stream keeps the block
  discipline: blocks open one after the other with the indices 0, 1, 2, ..., a block is closed before
  the next one opens, only the open block is closed, and a delta never names a block that has not
  been opened.
\<close>

theorem anthropic_blocks_any_upstream:
  "\<exists>p. accepts anth_block_step \<lparr>bp_next = 0, bp_open = False\<rparr>
         (snd (responses_anthropic_stream j
            ((NewResponsesEventToAnthropicState now)\<lparr>rea_Model := model\<rparr>) evts)) = Some p"
proof -
  let ?s0 = "(NewResponsesEventToAnthropicState now)\<lparr>rea_Model := model\<rparr>"
  let ?run = "run_stream (ResponsesEventToAnthropicEvents j) ?s0 evts"
  have "rea_block_rel () ?s0 \<lparr>bp_next = 0, bp_open = False\<rparr>"
    by (simp add: rea_block_rel_def NewResponsesEventToAnthropicState_def)
  from rea_blocks.run_sim [OF this accepts_unit] obtain p
    where p: "accepts anth_block_step \<lparr>bp_next = 0, bp_open = False\<rparr> (snd ?run) = Some p"
      "rea_block_rel () (fst ?run) p"
    by blast
  from blk_finalize [OF p(2)] p(1) show ?thesis
    by (auto simp: responses_anthropic_stream_def split_beta accepts_append blk_to_def)
qed

subsection \<open>What is carried over\<close>

definition resp_text :: "ResponsesStreamEvent \<Rightarrow> string" where
  "resp_text e = (if re_Type e = ''response.output_text.delta'' then re_Delta e else [])"

definition anth_text :: "AnthropicStreamEvent \<Rightarrow> string" where
  "anth_text e =
     (case ae_Delta e of
        Some d \<Rightarrow> if ae_Type e = ''content_block_delta'' \<and> ad_Type d = ''text_delta'' then ad_Text d else []
      | None \<Rightarrow> [])"

definition anth_is :: "string \<Rightarrow> AnthropicStreamEvent \<Rightarrow> bool" where
  "anth_is t e \<longleftrightarrow> ae_Type e = t"

lemma ev_Type [simp]:
  "ae_Type (ev_block_start i b) = ''content_block_start''"
  "ae_Type (ev_block_delta i d) = ''content_block_delta''"
  "ae_Type (ev_block_stop i) = ''content_block_stop''"
  "ae_Type (ev_message_start x m) = ''message_start''"
  "ae_Type (ev_message_delta r st) = ''message_delta''"
  "ae_Type ev_message_stop = ''message_stop''"
  by (simp_all add: ev_block_start_def ev_block_delta_def ev_block_stop_def ev_message_start_def
      ev_message_delta_def ev_message_stop_def)

lemma ev_Delta [simp]:
  "ae_Delta (ev_block_start i b) = None"
  "ae_Delta (ev_block_delta i d) = Some d"
  "ae_Delta (ev_block_stop i) = None"
  "ae_Delta (ev_message_start x m) = None"
  "ae_Delta ev_message_stop = None"
  by (simp_all add: ev_block_start_def ev_block_delta_def ev_block_stop_def ev_message_start_def
      ev_message_stop_def zero_defs)

lemma anth_text_ev [simp]:
  "anth_text (ev_block_start i b) = []"
  "anth_text (ev_block_delta i d) = (if ad_Type d = ''text_delta'' then ad_Text d else [])"
  "anth_text (ev_block_stop i) = []"
  "anth_text (ev_message_start x m) = []"
  "anth_text (ev_message_delta r st) = []"
  "anth_text ev_message_stop = []"
  by (simp_all add: anth_text_def split: option.split)

lemma anth_text_close [simp]: "gather anth_text (snd (closeCurrentBlock s)) = []"
  by (simp add: closeCurrentBlock_def Let_def zero_defs)

lemma anth_text_close_eq [simp]: "closeCurrentBlock s = (s1, xs) \<Longrightarrow> gather anth_text xs = []"
  using anth_text_close [of s] by simp

lemma anth_text_handlers:
  "gather anth_text (snd (resToAnthHandleCreated evt s)) = []"
  "gather anth_text (snd (resToAnthHandleOutputItemAdded evt s)) = []"
  "gather anth_text (snd (resToAnthHandleTextDelta evt s)) = re_Delta evt"
  "gather anth_text (snd (resToAnthHandleBlockDone s)) = []"
  "gather anth_text (snd (resToAnthHandleFuncArgsDelta j evt s)) = []"
  "gather anth_text (snd (resToAnthFlushArgs evt raw s)) = []"
  "gather anth_text (snd (resToAnthHandleReasoningDelta evt s)) = []"
  "gather anth_text (snd (resToAnthHandleWebSearchDone j item s)) = []"
  "gather anth_text (snd (resToAnthHandleCompleted evt s)) = []"
  "gather anth_text (snd (FinalizeResponsesAnthropicStream s)) = []"
  by (simp_all add: resToAnthHandleCreated_def resToAnthHandleOutputItemAdded_def
      resToAnthHandleTextDelta_def resToAnthHandleBlockDone_def resToAnthHandleFuncArgsDelta_def
      resToAnthFlushArgs_def resToAnthHandleReasoningDelta_def resToAnthHandleWebSearchDone_def
      resToAnthHandleCompleted_def FinalizeResponsesAnthropicStream_def input_json_delta_def
      zero_defs Let_def split: option.split prod.split)

lemma anth_text_done_handlers:
  "gather anth_text (snd (resToAnthHandleFuncArgsDone j evt s)) = []"
  "gather anth_text (snd (resToAnthHandleOutputItemDone j evt s)) = []"
  by (simp_all add: resToAnthHandleFuncArgsDone_def resToAnthHandleOutputItemDone_def
      anth_text_handlers Let_def split: option.split)

interpretation rea_text: stream_observer "ResponsesEventToAnthropicEvents j" "\<lambda>s. True" resp_text anth_text
  for j
  by unfold_locales
    (auto simp: ResponsesEventToAnthropicEvents_def resp_text_def anth_text_handlers
      anth_text_done_handlers Let_def)

lemma rea_stream_text:
  "gather anth_text (snd (responses_anthropic_stream j s evts)) = gather resp_text evts"
  by (simp add: responses_anthropic_stream_def split_beta rea_text.run_obs anth_text_handlers)

text \<open>
  No visible text is lost, repeated or reordered: for every upstream the text deltas of the
  translated stream concatenate to the text deltas received.
\<close>

theorem anthropic_stream_text:
  "gather anth_text (snd (responses_anthropic_stream j s evts)) = gather resp_text evts"
  by (rule rea_stream_text)

text \<open>The milestones.\<close>

lemma close_marks:
  "closeCurrentBlock s = (s1, xs) \<Longrightarrow> count_if (anth_is ''message_start'') xs = 0"
  "closeCurrentBlock s = (s1, xs) \<Longrightarrow> count_if (anth_is ''message_stop'') xs = 0"
  by (auto simp: closeCurrentBlock_def anth_is_def Let_def split: if_splits)

lemma rea_handler_start:
  "rea_MessageStartSent (fst (resToAnthHandleOutputItemAdded evt s)) = rea_MessageStartSent s"
  "rea_MessageStartSent (fst (resToAnthHandleTextDelta evt s)) = rea_MessageStartSent s"
  "rea_MessageStartSent (fst (resToAnthHandleBlockDone s)) = rea_MessageStartSent s"
  "rea_MessageStartSent (fst (resToAnthHandleFuncArgsDelta j evt s)) = rea_MessageStartSent s"
  "rea_MessageStartSent (fst (resToAnthFlushArgs evt raw s)) = rea_MessageStartSent s"
  "rea_MessageStartSent (fst (resToAnthHandleReasoningDelta evt s)) = rea_MessageStartSent s"
  "rea_MessageStartSent (fst (resToAnthHandleWebSearchDone j item s)) = rea_MessageStartSent s"
  "rea_MessageStartSent (fst (resToAnthHandleCompleted evt s)) = rea_MessageStartSent s"
  by (auto simp: resToAnthHandleOutputItemAdded_def
      resToAnthHandleTextDelta_def resToAnthHandleBlockDone_def resToAnthHandleFuncArgsDelta_def
      resToAnthFlushArgs_def resToAnthHandleReasoningDelta_def resToAnthHandleWebSearchDone_def
      resToAnthHandleCompleted_def Let_def dest: closed_after split: option.split prod.split)

lemma rea_handler_stop:
  "rea_MessageStopSent (fst (resToAnthHandleCreated evt s)) = rea_MessageStopSent s"
  "rea_MessageStopSent (fst (resToAnthHandleOutputItemAdded evt s)) = rea_MessageStopSent s"
  "rea_MessageStopSent (fst (resToAnthHandleTextDelta evt s)) = rea_MessageStopSent s"
  "rea_MessageStopSent (fst (resToAnthHandleBlockDone s)) = rea_MessageStopSent s"
  "rea_MessageStopSent (fst (resToAnthHandleFuncArgsDelta j evt s)) = rea_MessageStopSent s"
  "rea_MessageStopSent (fst (resToAnthFlushArgs evt raw s)) = rea_MessageStopSent s"
  "rea_MessageStopSent (fst (resToAnthHandleReasoningDelta evt s)) = rea_MessageStopSent s"
  "rea_MessageStopSent (fst (resToAnthHandleWebSearchDone j item s)) = rea_MessageStopSent s"
  by (auto simp: resToAnthHandleCreated_def resToAnthHandleOutputItemAdded_def
      resToAnthHandleTextDelta_def resToAnthHandleBlockDone_def resToAnthHandleFuncArgsDelta_def
      resToAnthFlushArgs_def resToAnthHandleReasoningDelta_def resToAnthHandleWebSearchDone_def
      Let_def dest: closed_after split: option.split prod.split)

lemma rea_done_handlers_flags:
  "rea_MessageStartSent (fst (resToAnthHandleFuncArgsDone j evt s)) = rea_MessageStartSent s"
  "rea_MessageStopSent (fst (resToAnthHandleFuncArgsDone j evt s)) = rea_MessageStopSent s"
  "rea_MessageStartSent (fst (resToAnthHandleOutputItemDone j evt s)) = rea_MessageStartSent s"
  "rea_MessageStopSent (fst (resToAnthHandleOutputItemDone j evt s)) = rea_MessageStopSent s"
  by (simp_all add: resToAnthHandleFuncArgsDone_def resToAnthHandleOutputItemDone_def
      rea_handler_start rea_handler_stop Let_def split: option.split)

lemma anth_is_ev [simp]: "anth_is t e \<longleftrightarrow> ae_Type e = t"
  by (simp add: anth_is_def)

text \<open>The handlers of content emit no event of the message itself.\<close>

definition content_event :: "AnthropicStreamEvent \<Rightarrow> bool" where
  "content_event e \<longleftrightarrow>
     ae_Type e \<in> {''content_block_start'', ''content_block_delta'', ''content_block_stop''}"

lemma content_event_ev [simp]:
  "content_event (ev_block_start i b)" "content_event (ev_block_delta i d)"
  "content_event (ev_block_stop i)"
  by (simp_all add: content_event_def)

lemma content_count:
  "list_all content_event xs \<Longrightarrow> count_if (anth_is ''message_start'') xs = 0"
  "list_all content_event xs \<Longrightarrow> count_if (anth_is ''message_stop'') xs = 0"
  by (induction xs) (auto simp: content_event_def)

lemma content_close [simp]: "list_all content_event (snd (closeCurrentBlock s))"
  by (simp add: closeCurrentBlock_def Let_def)

lemma content_close_eq [simp]: "closeCurrentBlock s = (s1, xs) \<Longrightarrow> list_all content_event xs"
  using content_close [of s] by simp

lemma content_handlers:
  "list_all content_event (snd (resToAnthHandleOutputItemAdded evt s))"
  "list_all content_event (snd (resToAnthHandleTextDelta evt s))"
  "list_all content_event (snd (resToAnthHandleBlockDone s))"
  "list_all content_event (snd (resToAnthHandleFuncArgsDelta j evt s))"
  "list_all content_event (snd (resToAnthFlushArgs evt raw s))"
  "list_all content_event (snd (resToAnthHandleReasoningDelta evt s))"
  "list_all content_event (snd (resToAnthHandleWebSearchDone j item s))"
  by (simp_all add: resToAnthHandleOutputItemAdded_def
      resToAnthHandleTextDelta_def resToAnthHandleBlockDone_def resToAnthHandleFuncArgsDelta_def
      resToAnthFlushArgs_def resToAnthHandleReasoningDelta_def resToAnthHandleWebSearchDone_def
      Let_def split: option.split prod.split)

lemma content_done_handlers:
  "list_all content_event (snd (resToAnthHandleFuncArgsDone j evt s))"
  "list_all content_event (snd (resToAnthHandleOutputItemDone j evt s))"
  by (simp_all add: resToAnthHandleFuncArgsDone_def resToAnthHandleOutputItemDone_def
      content_handlers Let_def split: option.split)

lemma created_marks:
  "rea_MessageStartSent (fst (resToAnthHandleCreated evt s))"
  "count_if (anth_is ''message_start'') (snd (resToAnthHandleCreated evt s)) =
     (if rea_MessageStartSent s then 0 else 1)"
  "count_if (anth_is ''message_stop'') (snd (resToAnthHandleCreated evt s)) = 0"
  by (simp_all add: resToAnthHandleCreated_def Let_def split: option.split)

lemma completed_marks:
  "rea_MessageStopSent (fst (resToAnthHandleCompleted evt s))"
  "count_if (anth_is ''message_start'') (snd (resToAnthHandleCompleted evt s)) = 0"
  "count_if (anth_is ''message_stop'') (snd (resToAnthHandleCompleted evt s)) =
     (if rea_MessageStopSent s then 0 else 1)"
  by (simp_all add: resToAnthHandleCompleted_def Let_def content_count split: prod.split)

lemma finalize_marks:
  "count_if (anth_is ''message_start'') (snd (FinalizeResponsesAnthropicStream s)) = 0"
  "count_if (anth_is ''message_stop'') (snd (FinalizeResponsesAnthropicStream s)) =
     (if rea_MessageStartSent s \<and> \<not> rea_MessageStopSent s then 1 else 0)"
  by (simp_all add: FinalizeResponsesAnthropicStream_def Let_def content_count split: prod.split)

lemmas rea_mark_simps = rea_handler_start rea_handler_stop rea_done_handlers_flags
  content_count [OF content_handlers(1)] content_count [OF content_handlers(2)]
  content_count [OF content_handlers(3)] content_count [OF content_handlers(4)]
  content_count [OF content_handlers(6)] content_count [OF content_done_handlers(1)]
  content_count [OF content_done_handlers(2)] created_marks completed_marks

interpretation rea_start: stream_milestone "ResponsesEventToAnthropicEvents j" rea_MessageStartSent
  "anth_is ''message_start''" for j
  by unfold_locales (simp_all add: ResponsesEventToAnthropicEvents_def Let_def rea_mark_simps del: anth_is_ev)

interpretation rea_stop: stream_milestone "ResponsesEventToAnthropicEvents j" rea_MessageStopSent
  "anth_is ''message_stop''" for j
  by unfold_locales (simp_all add: ResponsesEventToAnthropicEvents_def Let_def rea_mark_simps del: anth_is_ev)

text \<open>
  Whatever the upstream sends, the client sees at most one \<open>message_start\<close> and at most one
  \<open>message_stop\<close>, and a stream that was started is always stopped.
\<close>

theorem anthropic_stream_ends_once:
  "let out = snd (responses_anthropic_stream j
               ((NewResponsesEventToAnthropicState now)\<lparr>rea_Model := model\<rparr>) evts);
       starts = count_if (anth_is ''message_start'') out;
       stops = count_if (anth_is ''message_stop'') out
   in starts \<le> stops \<and> stops \<le> 1"
  by (simp add: Let_def responses_anthropic_stream_def split_beta rea_start.run_mark
      rea_stop.run_mark finalize_marks NewResponsesEventToAnthropicState_def del: anth_is_ev)

subsection \<open>Tool arguments\<close>

definition anth_args :: "AnthropicStreamEvent \<Rightarrow> string" where
  "anth_args e =
     (case ae_Delta e of
        Some d \<Rightarrow> if ae_Type e = ''content_block_delta'' \<and> ad_Type d = ''input_json_delta''
                  then ad_PartialJSON d else []
      | None \<Rightarrow> [])"

lemma anth_args_ev [simp]:
  "anth_args (ev_block_start i b) = []"
  "anth_args (ev_block_delta i d) = (if ad_Type d = ''input_json_delta'' then ad_PartialJSON d else [])"
  "anth_args (ev_block_stop i) = []"
  by (simp_all add: anth_args_def)

lemma anth_args_close_eq [simp]: "closeCurrentBlock s = (s1, xs) \<Longrightarrow> gather anth_args xs = []"
  by (auto simp: closeCurrentBlock_def Let_def zero_defs split: if_splits)

lemma anth_args_close [simp]: "gather anth_args (snd (closeCurrentBlock s)) = []"
  using anth_args_close_eq [of s] by (cases "closeCurrentBlock s") simp

definition tool_open :: "int \<Rightarrow> rea_state \<Rightarrow> bool" where
  "tool_open i s \<longleftrightarrow> rea_ContentBlockOpen s \<and> rea_CurrentBlockType s = ''tool_use''
     \<and> rea_CurrentToolName s \<noteq> ''Read'' \<and> rea_CurrentToolArgs s = []
     \<and> rea_OutputIndexToBlockIdx s i = Some (rea_ContentBlockIndex s)"

lemma args_deltas_run:
  "tool_open i s \<Longrightarrow>
    (let r = run_stream (ResponsesEventToAnthropicEvents j) s (map (args_delta_event i) ds) in
       tool_open i (fst r) \<and> gather anth_args (snd r) = concat ds
       \<and> rea_CurrentToolHadDelta (fst r) = (rea_CurrentToolHadDelta s \<or> concat ds \<noteq> []))"
proof (induction ds arbitrary: s)
  case (Cons d ds)
  let ?r = "ResponsesEventToAnthropicEvents j s (args_delta_event i d)"
  have "tool_open i (fst ?r) \<and> gather anth_args (snd ?r) = d
      \<and> rea_CurrentToolHadDelta (fst ?r) = (rea_CurrentToolHadDelta s \<or> d \<noteq> [])"
    using Cons.prems
    by (simp add: ResponsesEventToAnthropicEvents_def args_delta_event_def tool_open_def
        resToAnthHandleFuncArgsDelta_def input_json_delta_def zero_defs Let_def)
  then show ?case using Cons.IH [of "fst ?r"] by (auto simp: Let_def run_stream_Cons)
qed (simp add: Let_def)

lemma tool_added:
  fixes i s j
  assumes "ro_Type item \<in> {''function_call'', ''custom_tool_call''}" and "ro_Name item \<noteq> ''Read''"
  defines "r \<equiv> ResponsesEventToAnthropicEvents j s (zero_ResponsesStreamEvent
     \<lparr>re_Type := ''response.output_item.added'', re_OutputIndex := i, re_Item := Some item\<rparr>)"
  shows "tool_open i (fst r)" "\<not> rea_CurrentToolHadDelta (fst r)" "gather anth_args (snd r) = []"
  using assms
  by (auto simp: ResponsesEventToAnthropicEvents_def resToAnthHandleOutputItemAdded_def tool_open_def
      Let_def split: prod.split)

lemma tool_done:
  assumes "tool_open i s"
  shows "gather anth_args (snd (ResponsesEventToAnthropicEvents j s (zero_ResponsesStreamEvent
      \<lparr>re_Type := ''response.function_call_arguments.done'', re_OutputIndex := i,
       re_Arguments := full\<rparr>))) = (if rea_CurrentToolHadDelta s then [] else full)"
  using assms
  by (auto simp: ResponsesEventToAnthropicEvents_def resToAnthHandleFuncArgsDone_def
      resToAnthFlushArgs_def tool_open_def input_json_delta_def zero_defs Let_def
      split: prod.split)

text \<open>
  The arguments of a tool call reach the client exactly once, in every state of the converter: as
  the deltas received, or, when no delta carried anything, as the text of the done event. (The tool
  \<open>Read\<close>, whose arguments are buffered and sanitised, is excluded.)
\<close>

theorem tool_arguments_sent_once:
  assumes "ro_Type item \<in> {''function_call'', ''custom_tool_call''}" and "ro_Name item \<noteq> ''Read''"
  shows "gather anth_args
           (snd (run_stream (ResponsesEventToAnthropicEvents j) s (tool_call_events i item ds full)))
         = (if concat ds = [] then full else concat ds)"
proof -
  let ?step = "ResponsesEventToAnthropicEvents j"
  let ?add = "zero_ResponsesStreamEvent
     \<lparr>re_Type := ''response.output_item.added'', re_OutputIndex := i, re_Item := Some item\<rparr>"
  let ?s1 = "fst (?step s ?add)"
  let ?r2 = "run_stream ?step ?s1 (map (args_delta_event i) ds)"
  note added = tool_added [OF assms, where j = j and s = s and i = i]
  have r2: "tool_open i (fst ?r2)" "gather anth_args (snd ?r2) = concat ds"
      "rea_CurrentToolHadDelta (fst ?r2) = (concat ds \<noteq> [])"
    using args_deltas_run [OF added(1), of j ds] added(2) by (simp_all add: Let_def)
  show ?thesis
    using added(3) r2(2,3) tool_done [OF r2(1), of j full]
    by (simp add: tool_call_events_def run_stream_Cons run_stream_append)
qed

theorem tool_arguments_sent_once_witness:
  "gather anth_args
     (snd (run_stream (ResponsesEventToAnthropicEvents json_none)
        (NewResponsesEventToAnthropicState 7)
        (tool_call_events 3 (zero_ResponsesOutput\<lparr>ro_Type := ''function_call'', ro_Name := ''ls''\<rparr>)
          [''{'', ''}''] ''{}''))) = ''{}''"
  by (subst tool_arguments_sent_once) simp_all

subsection \<open>Token counts\<close>

text \<open>
  Token accounting: when the cached and the cache-creation tokens do not exceed the total input
  tokens the upstream reports, the three input buckets of the Anthropic usage add up to that total.
\<close>

theorem anthropic_usage_conserved:
  assumes "cached = (case ru_InputTokensDetails u of None \<Rightarrow> 0 | Some d \<Rightarrow> ritd_CachedTokens d)"
    and "cached + ru_CacheCreationInputTokens u \<le> ru_InputTokens u"
  shows "au_InputTokens (anthropicUsageFromResponsesUsage (Some u))
       + au_CacheReadInputTokens (anthropicUsageFromResponsesUsage (Some u))
       + au_CacheCreationInputTokens (anthropicUsageFromResponsesUsage (Some u)) = ru_InputTokens u"
  using assms by (simp add: anthropicUsageFromResponsesUsage_def Let_def)

theorem anthropic_usage_conserved_witness:
  "au_InputTokens (anthropicUsageFromResponsesUsage (Some (zero_ResponsesUsage\<lparr>ru_InputTokens := 9\<rparr>)))
   + au_CacheReadInputTokens (anthropicUsageFromResponsesUsage (Some (zero_ResponsesUsage\<lparr>ru_InputTokens := 9\<rparr>)))
   + au_CacheCreationInputTokens
       (anthropicUsageFromResponsesUsage (Some (zero_ResponsesUsage\<lparr>ru_InputTokens := 9\<rparr>)))
   = ru_InputTokens (zero_ResponsesUsage\<lparr>ru_InputTokens := 9\<rparr>)"
  by (rule anthropic_usage_conserved [OF refl]) (simp add: zero_defs)

end
