(* ===== verification/Anthropic_To_Responses.thy ===== *)
theory Anthropic_To_Responses
  imports Responses_To_Anthropic
begin

text \<open>
  \<open>pkg/apicompat/anthropic_to_responses_response.go\<close>: the translation of Anthropic Messages answers
  into OpenAI Responses answers, for whole answers and for event streams. \<open>crypto/rand\<close> is an
  argument: a handler that may create an item receives the identifier \<open>generateItemID\<close> would return.

  The theory defines what a Responses event stream is (\<open>resp_step\<close>, an executable acceptor that
  accumulates the items as a client library does) and shows that the translated stream is one whose
  terminal event carries exactly the items the deltas built up.
\<close>

subsection \<open>Whole answers\<close>

definition anthropicStopReasonToResponsesStatus :: "string \<Rightarrow> AnthropicContentBlock list \<Rightarrow> string" where
  "anthropicStopReasonToResponsesStatus stopReason blocks =
     (if stopReason = ''max_tokens'' then ''incomplete''
      else if stopReason \<in> {''end_turn'', ''tool_use'', ''stop_sequence''} then ''completed''
      else ''completed'')"

text \<open>
  The loop over \<open>resp.Content\<close>. \<open>ids k\<close> is the result of the \<open>k\<close>-th call of \<open>generateItemID\<close>; the
  accumulator holds the output items, the text parts and the number of calls made.
\<close>

fun anth_content_loop ::
  "(nat \<Rightarrow> string) \<Rightarrow> AnthropicContentBlock list \<Rightarrow>
   ResponsesOutput list \<times> ResponsesContentPart list \<times> nat \<Rightarrow>
   ResponsesOutput list \<times> ResponsesContentPart list \<times> nat" where
  "anth_content_loop ids [] acc = acc"
| "anth_content_loop ids (block # blocks) (outputs, msgParts, k) =
     (if acb_Type block = ''thinking'' then
        (if acb_Thinking block \<noteq> [] then
           anth_content_loop ids blocks
             (outputs @ [zero_ResponsesOutput
                \<lparr>ro_Type := ''reasoning'', ro_ID := ids k,
                 ro_Summary := [zero_ResponsesSummary
                   \<lparr>rs_Type := ''summary_text'', rs_Text := acb_Thinking block\<rparr>]\<rparr>], msgParts, Suc k)
         else anth_content_loop ids blocks (outputs, msgParts, k))
      else if acb_Type block = ''text'' then
        (if acb_Text block \<noteq> [] then
           anth_content_loop ids blocks
             (outputs, msgParts @ [zero_ResponsesContentPart
                \<lparr>rcp_Type := ''output_text'', rcp_Text := acb_Text block\<rparr>], k)
         else anth_content_loop ids blocks (outputs, msgParts, k))
      else if acb_Type block = ''tool_use'' then
        anth_content_loop ids blocks
          (outputs @ [zero_ResponsesOutput
             \<lparr>ro_Type := ''function_call'', ro_ID := ids k,
              ro_CallID := toResponsesCallID (acb_ID block), ro_Name := acb_Name block,
              ro_Arguments := (if acb_Input block \<noteq> [] then acb_Input block else ''{}''),
              ro_Status := ''completed''\<rparr>], msgParts, Suc k)
      else anth_content_loop ids blocks (outputs, msgParts, k))"

definition message_item :: "string \<Rightarrow> ResponsesContentPart list \<Rightarrow> ResponsesOutput" where
  "message_item itemID parts =
     zero_ResponsesOutput
       \<lparr>ro_Type := ''message'', ro_ID := itemID, ro_Role := ''assistant'', ro_Content := parts,
        ro_Status := ''completed''\<rparr>"

definition responses_usage_of_anthropic :: "int \<Rightarrow> int \<Rightarrow> int \<Rightarrow> int \<Rightarrow> ResponsesUsage" where
  "responses_usage_of_anthropic input output cacheRead cacheCreation =
     (let totalInputTokens = input + cacheRead + cacheCreation
      in zero_ResponsesUsage
           \<lparr>ru_InputTokens := totalInputTokens,
            ru_OutputTokens := output,
            ru_TotalTokens := totalInputTokens + output,
            ru_CacheCreationInputTokens := cacheCreation,
            ru_InputTokensDetails :=
              (if cacheRead > 0
               then Some (zero_ResponsesInputTokensDetails\<lparr>ritd_CachedTokens := cacheRead\<rparr>)
               else None)\<rparr>)"

text \<open>\<open>respID\<close> is what \<open>generateResponsesID\<close> would return, \<open>now\<close> the current Unix time.\<close>

definition AnthropicToResponsesResponse ::
  "string \<Rightarrow> (nat \<Rightarrow> string) \<Rightarrow> int \<Rightarrow> AnthropicResponse \<Rightarrow> ResponsesResponse" where
  "AnthropicToResponsesResponse respID ids now resp =
     (case anth_content_loop ids (ar_Content resp) ([], [], 0) of (outputs, msgParts, k) \<Rightarrow>
        let outputs = (if msgParts \<noteq> [] then outputs @ [message_item (ids k) msgParts] else outputs);
            outputs = (if outputs = []
                       then [message_item (ids k)
                               [zero_ResponsesContentPart\<lparr>rcp_Type := ''output_text'', rcp_Text := []\<rparr>]]
                       else outputs);
            status = anthropicStopReasonToResponsesStatus
                       (AnthropicStopReasonString (ar_StopReason resp)) (ar_Content resp);
            usage = ar_Usage resp
        in zero_ResponsesResponse
             \<lparr>rr_ID := (if ar_ID resp = [] then respID else ar_ID resp),
              rr_Object := ''response'', rr_CreatedAt := now, rr_Model := ar_Model resp,
              rr_Output := outputs, rr_Status := status,
              rr_IncompleteDetails :=
                (if status = ''incomplete''
                 then Some (zero_ResponsesIncompleteDetails\<lparr>rid_Reason := ''max_output_tokens''\<rparr>)
                 else None),
              rr_Usage := Some (responses_usage_of_anthropic (au_InputTokens usage)
                (au_OutputTokens usage) (au_CacheReadInputTokens usage)
                (au_CacheCreationInputTokens usage))\<rparr>)"

subsection \<open>Event streams: the state and its handlers\<close>

record AnthropicEventToResponsesState =
  aer_ResponseID :: string
  aer_Model :: string
  aer_Created :: int
  aer_SequenceNumber :: int
  aer_CreatedSent :: bool
  aer_CompletedSent :: bool
  aer_OutputIndex :: int
  aer_CurrentItemID :: string
  aer_CurrentItemType :: string
  aer_ContentIndex :: int
  aer_TextAccum :: string
  aer_CurrentCallID :: string
  aer_CurrentName :: string
  aer_CurrentContent :: "ResponsesContentPart list"
  aer_CurrentArgs :: string
  aer_CurrentSummary :: string
  aer_Outputs :: "ResponsesOutput list"
  aer_InputTokens :: int
  aer_OutputTokens :: int
  aer_CacheReadInputTokens :: int
  aer_CacheCreationInputTokens :: int
  aer_StopReason :: string

type_synonym aer_state = AnthropicEventToResponsesState
type_synonym aer_result = "AnthropicEventToResponsesState \<times> ResponsesStreamEvent list"

definition NewAnthropicEventToResponsesState :: "int \<Rightarrow> aer_state" where
  "NewAnthropicEventToResponsesState now =
     \<lparr>aer_ResponseID = [], aer_Model = [], aer_Created = now, aer_SequenceNumber = 0,
      aer_CreatedSent = False, aer_CompletedSent = False, aer_OutputIndex = 0,
      aer_CurrentItemID = [], aer_CurrentItemType = [], aer_ContentIndex = 0, aer_TextAccum = [],
      aer_CurrentCallID = [], aer_CurrentName = [], aer_CurrentContent = [], aer_CurrentArgs = [],
      aer_CurrentSummary = [], aer_Outputs = [], aer_InputTokens = 0, aer_OutputTokens = 0,
      aer_CacheReadInputTokens = 0, aer_CacheCreationInputTokens = 0, aer_StopReason = []\<rparr>"

definition makeResponsesEvent ::
  "aer_state \<Rightarrow> string \<Rightarrow> ResponsesStreamEvent \<Rightarrow> aer_state \<times> ResponsesStreamEvent" where
  "makeResponsesEvent st eventType tmpl =
     (st\<lparr>aer_SequenceNumber := aer_SequenceNumber st + 1\<rparr>,
      tmpl\<lparr>re_Type := eventType, re_SequenceNumber := aer_SequenceNumber st\<rparr>)"

definition makeResponsesCreatedEvent :: "aer_state \<Rightarrow> aer_state \<times> ResponsesStreamEvent" where
  "makeResponsesCreatedEvent st =
     (st\<lparr>aer_SequenceNumber := aer_SequenceNumber st + 1\<rparr>,
      zero_ResponsesStreamEvent
        \<lparr>re_Type := ''response.created'', re_SequenceNumber := aer_SequenceNumber st,
         re_Response := Some (zero_ResponsesResponse
           \<lparr>rr_ID := aer_ResponseID st, rr_Object := ''response'', rr_CreatedAt := aer_Created st,
            rr_Model := aer_Model st, rr_Status := ''in_progress'', rr_Output := []\<rparr>)\<rparr>)"

definition makeResponsesCompletedEvent ::
  "aer_state \<Rightarrow> string \<Rightarrow> ResponsesIncompleteDetails option \<Rightarrow> aer_state \<times> ResponsesStreamEvent" where
  "makeResponsesCompletedEvent st status incompleteDetails =
     (st\<lparr>aer_SequenceNumber := aer_SequenceNumber st + 1\<rparr>,
      zero_ResponsesStreamEvent
        \<lparr>re_Type := (if status = ''incomplete'' then ''response.incomplete'' else ''response.completed''),
         re_SequenceNumber := aer_SequenceNumber st,
         re_Response := Some (zero_ResponsesResponse
           \<lparr>rr_ID := aer_ResponseID st, rr_Object := ''response'', rr_CreatedAt := aer_Created st,
            rr_Model := aer_Model st, rr_Status := status, rr_Output := aer_Outputs st,
            rr_Usage := Some (responses_usage_of_anthropic (aer_InputTokens st) (aer_OutputTokens st)
              (aer_CacheReadInputTokens st) (aer_CacheCreationInputTokens st)),
            rr_IncompleteDetails := incompleteDetails\<rparr>)\<rparr>)"

definition anthropicResponsesStreamTerminalState ::
  "string \<Rightarrow> string \<times> ResponsesIncompleteDetails option" where
  "anthropicResponsesStreamTerminalState stopReason =
     (if stopReason = ''max_tokens''
      then (''incomplete'',
            Some (zero_ResponsesIncompleteDetails\<lparr>rid_Reason := ''max_output_tokens''\<rparr>))
      else (''completed'', None))"

text \<open>The item \<open>closeCurrentResponsesItem\<close> assembles.\<close>

definition current_item :: "aer_state \<Rightarrow> ResponsesOutput" where
  "current_item st =
     (let item = zero_ResponsesOutput
            \<lparr>ro_Type := aer_CurrentItemType st, ro_ID := aer_CurrentItemID st, ro_Status := ''completed''\<rparr>
      in if aer_CurrentItemType st = ''message'' then
           item\<lparr>ro_Role := ''assistant'', ro_Content := aer_CurrentContent st\<rparr>
         else if aer_CurrentItemType st = ''function_call'' then
           item\<lparr>ro_CallID := aer_CurrentCallID st, ro_Name := aer_CurrentName st,
                ro_Arguments := (if aer_CurrentArgs st = [] then ''{}'' else aer_CurrentArgs st)\<rparr>
         else if aer_CurrentItemType st = ''reasoning'' then
           (if aer_CurrentSummary st \<noteq> []
            then item\<lparr>ro_Summary := [zero_ResponsesSummary
                   \<lparr>rs_Type := ''summary_text'', rs_Text := aer_CurrentSummary st\<rparr>]\<rparr>
            else item)
         else item)"

definition closeCurrentResponsesItem :: "aer_state \<Rightarrow> aer_result" where
  "closeCurrentResponsesItem st =
     (if aer_CurrentItemType st = [] then (st, [])
      else
        let item = current_item st;
            st = st\<lparr>aer_Outputs := aer_Outputs st @ [item],
                    aer_CurrentItemType := [],
                    aer_CurrentItemID := [],
                    aer_CurrentCallID := [],
                    aer_CurrentName := [],
                    aer_CurrentContent := [],
                    aer_CurrentArgs := [],
                    aer_CurrentSummary := [],
                    aer_TextAccum := [],
                    aer_OutputIndex := aer_OutputIndex st + 1,
                    aer_ContentIndex := 0\<rparr>
        in case makeResponsesEvent st ''response.output_item.done''
                  (zero_ResponsesStreamEvent
                     \<lparr>re_OutputIndex := aer_OutputIndex st - 1, re_Item := Some item\<rparr>)
           of (st, ev) \<Rightarrow> (st, [ev]))"

text \<open>\<open>if v > 0 then field = v\<close>, as the usage fields are taken over.\<close>

definition take_positive :: "int \<Rightarrow> int \<Rightarrow> int" where
  "take_positive v old = (if v > 0 then v else old)"

definition anthToResHandleMessageStart :: "AnthropicStreamEvent \<Rightarrow> aer_state \<Rightarrow> aer_result" where
  "anthToResHandleMessageStart evt st =
     (let st = (case ae_Message evt of
                  None \<Rightarrow> st
                | Some m \<Rightarrow>
                    st\<lparr>aer_ResponseID := ar_ID m,
                       aer_Model := (if aer_Model st = [] then ar_Model m else aer_Model st),
                       aer_InputTokens :=
                         take_positive (au_InputTokens (ar_Usage m)) (aer_InputTokens st),
                       aer_CacheReadInputTokens :=
                         take_positive (au_CacheReadInputTokens (ar_Usage m)) (aer_CacheReadInputTokens st),
                       aer_CacheCreationInputTokens :=
                         take_positive (au_CacheCreationInputTokens (ar_Usage m))
                           (aer_CacheCreationInputTokens st)\<rparr>)
      in if aer_CreatedSent st then (st, [])
         else case makeResponsesCreatedEvent (st\<lparr>aer_CreatedSent := True\<rparr>) of (st, ev) \<Rightarrow> (st, [ev]))"

text \<open>Opening an item: the fields common to the three kinds, and the event that announces it.\<close>

definition open_item ::
  "aer_state \<Rightarrow> string \<Rightarrow> string \<Rightarrow> ResponsesOutput \<Rightarrow> aer_result" where
  "open_item st itemType newID item =
     (let st = st\<lparr>aer_CurrentItemID := newID, aer_CurrentItemType := itemType\<rparr>
      in case makeResponsesEvent st ''response.output_item.added''
                (zero_ResponsesStreamEvent
                   \<lparr>re_OutputIndex := aer_OutputIndex st, re_Item := Some item\<rparr>)
         of (st, ev) \<Rightarrow> (st, [ev]))"

definition anthToResHandleContentBlockStart ::
  "string \<Rightarrow> AnthropicStreamEvent \<Rightarrow> aer_state \<Rightarrow> aer_result" where
  "anthToResHandleContentBlockStart newID evt st =
     (case ae_ContentBlock evt of
        None \<Rightarrow> (st, [])
      | Some block \<Rightarrow>
          if acb_Type block = ''thinking'' then
            (case closeCurrentResponsesItem st of (st, ev1) \<Rightarrow>
             case open_item (st\<lparr>aer_ContentIndex := 0\<rparr>) ''reasoning'' newID
                    (zero_ResponsesOutput\<lparr>ro_Type := ''reasoning'', ro_ID := newID\<rparr>)
             of (st, ev2) \<Rightarrow> (st, ev1 @ ev2))
          else if acb_Type block = ''text'' then
            (case (if aer_CurrentItemType st \<noteq> ''message'' then
                     (case closeCurrentResponsesItem st of (st, ev1) \<Rightarrow>
                      case open_item (st\<lparr>aer_ContentIndex := 0\<rparr>) ''message'' newID
                             (zero_ResponsesOutput\<lparr>ro_Type := ''message'', ro_ID := newID,
                                ro_Role := ''assistant'', ro_Status := ''in_progress''\<rparr>)
                      of (st, ev2) \<Rightarrow> (st, ev1 @ ev2))
                   else (st, []))
             of (st, ev1) \<Rightarrow>
             case makeResponsesEvent st ''response.content_part.added''
                    (zero_ResponsesStreamEvent
                       \<lparr>re_OutputIndex := aer_OutputIndex st, re_ContentIndex := aer_ContentIndex st,
                        re_ItemID := aer_CurrentItemID st,
                        re_Part := Some (zero_ResponsesContentPart
                          \<lparr>rcp_Type := ''output_text'', rcp_Text := []\<rparr>)\<rparr>)
             of (st, ev2) \<Rightarrow> (st\<lparr>aer_TextAccum := []\<rparr>, ev1 @ [ev2]))
          else if acb_Type block = ''tool_use'' then
            (case closeCurrentResponsesItem st of (st, ev1) \<Rightarrow>
             let st = st\<lparr>aer_CurrentCallID := toResponsesCallID (acb_ID block),
                         aer_CurrentName := acb_Name block\<rparr>
             in case open_item st ''function_call'' newID
                       (zero_ResponsesOutput\<lparr>ro_Type := ''function_call'', ro_ID := newID,
                          ro_CallID := aer_CurrentCallID st, ro_Name := aer_CurrentName st,
                          ro_Status := ''in_progress''\<rparr>)
                of (st, ev2) \<Rightarrow> (st, ev1 @ ev2))
          else (st, []))"

definition anthToResHandleContentBlockDelta :: "AnthropicStreamEvent \<Rightarrow> aer_state \<Rightarrow> aer_result" where
  "anthToResHandleContentBlockDelta evt st =
     (case ae_Delta evt of
        None \<Rightarrow> (st, [])
      | Some d \<Rightarrow>
          if ad_Type d = ''text_delta'' then
            (if ad_Text d = [] then (st, [])
             else case makeResponsesEvent (st\<lparr>aer_TextAccum := aer_TextAccum st @ ad_Text d\<rparr>)
                    ''response.output_text.delta''
                    (zero_ResponsesStreamEvent
                       \<lparr>re_OutputIndex := aer_OutputIndex st, re_ContentIndex := aer_ContentIndex st,
                        re_Delta := ad_Text d, re_ItemID := aer_CurrentItemID st\<rparr>)
                  of (st, ev) \<Rightarrow> (st, [ev]))
          else if ad_Type d = ''thinking_delta'' then
            (if ad_Thinking d = [] then (st, [])
             else case makeResponsesEvent
                    (st\<lparr>aer_CurrentSummary := aer_CurrentSummary st @ ad_Thinking d\<rparr>)
                    ''response.reasoning_summary_text.delta''
                    (zero_ResponsesStreamEvent
                       \<lparr>re_OutputIndex := aer_OutputIndex st, re_SummaryIndex := 0,
                        re_Delta := ad_Thinking d, re_ItemID := aer_CurrentItemID st\<rparr>)
                  of (st, ev) \<Rightarrow> (st, [ev]))
          else if ad_Type d = ''input_json_delta'' then
            (if ad_PartialJSON d = [] then (st, [])
             else case makeResponsesEvent (st\<lparr>aer_CurrentArgs := aer_CurrentArgs st @ ad_PartialJSON d\<rparr>)
                    ''response.function_call_arguments.delta''
                    (zero_ResponsesStreamEvent
                       \<lparr>re_OutputIndex := aer_OutputIndex st, re_Delta := ad_PartialJSON d,
                        re_ItemID := aer_CurrentItemID st, re_CallID := aer_CurrentCallID st,
                        re_Name := aer_CurrentName st\<rparr>)
                  of (st, ev) \<Rightarrow> (st, [ev]))
          else (st, []))"

definition anthToResHandleContentBlockStop :: "aer_state \<Rightarrow> aer_result" where
  "anthToResHandleContentBlockStop st =
     (if aer_CurrentItemType st = ''reasoning'' then
        (case makeResponsesEvent st ''response.reasoning_summary_text.done''
                (zero_ResponsesStreamEvent
                   \<lparr>re_OutputIndex := aer_OutputIndex st, re_SummaryIndex := 0,
                    re_ItemID := aer_CurrentItemID st\<rparr>)
         of (st, ev1) \<Rightarrow>
         case closeCurrentResponsesItem st of (st, ev2) \<Rightarrow> (st, [ev1] @ ev2))
      else if aer_CurrentItemType st = ''function_call'' then
        (case makeResponsesEvent st ''response.function_call_arguments.done''
                (zero_ResponsesStreamEvent
                   \<lparr>re_OutputIndex := aer_OutputIndex st, re_ItemID := aer_CurrentItemID st,
                    re_CallID := aer_CurrentCallID st, re_Name := aer_CurrentName st\<rparr>)
         of (st, ev1) \<Rightarrow>
         case closeCurrentResponsesItem st of (st, ev2) \<Rightarrow> (st, [ev1] @ ev2))
      else if aer_CurrentItemType st = ''message'' then
        (let txt = aer_TextAccum st;
             contentIndex = aer_ContentIndex st;
             part = zero_ResponsesContentPart\<lparr>rcp_Type := ''output_text'', rcp_Text := txt\<rparr>;
             st = st\<lparr>aer_TextAccum := [],
                     aer_CurrentContent := aer_CurrentContent st @ [part],
                     aer_ContentIndex := aer_ContentIndex st + 1\<rparr>
         in case makeResponsesEvent st ''response.output_text.done''
                   (zero_ResponsesStreamEvent
                      \<lparr>re_OutputIndex := aer_OutputIndex st, re_ContentIndex := contentIndex,
                       re_ItemID := aer_CurrentItemID st, re_Text := txt\<rparr>)
            of (st, ev1) \<Rightarrow>
            case makeResponsesEvent st ''response.content_part.done''
                   (zero_ResponsesStreamEvent
                      \<lparr>re_OutputIndex := aer_OutputIndex st, re_ContentIndex := contentIndex,
                       re_ItemID := aer_CurrentItemID st, re_Part := Some part\<rparr>)
            of (st, ev2) \<Rightarrow> (st, [ev1, ev2]))
      else (st, []))"

definition anthToResHandleMessageDelta :: "AnthropicStreamEvent \<Rightarrow> aer_state \<Rightarrow> aer_result" where
  "anthToResHandleMessageDelta evt st =
     (let st = (case ae_Usage evt of
                  None \<Rightarrow> st
                | Some u \<Rightarrow>
                    st\<lparr>aer_OutputTokens := au_OutputTokens u,
                       aer_InputTokens := take_positive (au_InputTokens u) (aer_InputTokens st),
                       aer_CacheReadInputTokens :=
                         take_positive (au_CacheReadInputTokens u) (aer_CacheReadInputTokens st),
                       aer_CacheCreationInputTokens :=
                         take_positive (au_CacheCreationInputTokens u) (aer_CacheCreationInputTokens st)\<rparr>);
          st = (case ae_Delta evt of
                  None \<Rightarrow> st
                | Some d \<Rightarrow> if ad_StopReason d \<noteq> [] then st\<lparr>aer_StopReason := ad_StopReason d\<rparr> else st)
      in (st, []))"

text \<open>The common tail of \<open>anthToResHandleMessageStop\<close> and \<open>FinalizeAnthropicResponsesStream\<close>.\<close>

definition aer_complete :: "aer_state \<Rightarrow> aer_result" where
  "aer_complete st =
     (case closeCurrentResponsesItem st of (st, events) \<Rightarrow>
      case anthropicResponsesStreamTerminalState (aer_StopReason st) of (status, details) \<Rightarrow>
      case makeResponsesCompletedEvent st status details of (st, ev) \<Rightarrow>
        (st\<lparr>aer_CompletedSent := True\<rparr>, events @ [ev]))"

definition anthToResHandleMessageStop :: "aer_state \<Rightarrow> aer_result" where
  "anthToResHandleMessageStop st = (if aer_CompletedSent st then (st, []) else aer_complete st)"

definition FinalizeAnthropicResponsesStream :: "aer_state \<Rightarrow> aer_result" where
  "FinalizeAnthropicResponsesStream st =
     (if \<not> aer_CreatedSent st \<or> aer_CompletedSent st then (st, []) else aer_complete st)"

text \<open>The dispatcher; \<open>newID\<close> is what \<open>generateItemID\<close> returns should the event open an item.\<close>

definition AnthropicEventToResponsesEvents ::
  "aer_state \<Rightarrow> string \<times> AnthropicStreamEvent \<Rightarrow> aer_result" where
  "AnthropicEventToResponsesEvents st inp =
     (case inp of (newID, evt) \<Rightarrow>
        let t = ae_Type evt in
        if t = ''message_start'' then anthToResHandleMessageStart evt st
        else if t = ''content_block_start'' then anthToResHandleContentBlockStart newID evt st
        else if t = ''content_block_delta'' then anthToResHandleContentBlockDelta evt st
        else if t = ''content_block_stop'' then anthToResHandleContentBlockStop st
        else if t = ''message_delta'' then anthToResHandleMessageDelta evt st
        else if t = ''message_stop'' then anthToResHandleMessageStop st
        else (st, []))"

definition anthropic_responses_stream ::
  "aer_state \<Rightarrow> (string \<times> AnthropicStreamEvent) list \<Rightarrow> aer_result" where
  "anthropic_responses_stream st evts =
     (case run_stream AnthropicEventToResponsesEvents st evts of (st, out) \<Rightarrow>
        case FinalizeAnthropicResponsesStream st of (st, fin) \<Rightarrow> (st, out @ fin))"

subsection \<open>What a Responses event stream is\<close>

datatype open_item_state =
    NoItem
  | MessageItem string "string list" "string option"   \<comment> \<open>identifier, closed parts, open part\<close>
  | CallItem string string bool                        \<comment> \<open>identifier, arguments, arguments done\<close>
  | ReasoningItem string string bool                   \<comment> \<open>identifier, summary, summary done\<close>

record resp_proto =
  rp_created :: bool
  rp_next :: int
  rp_item :: open_item_state
  rp_items :: "ResponsesOutput list"
  rp_ended :: bool

definition resp_init :: resp_proto where
  "resp_init = \<lparr>rp_created = False, rp_next = 0, rp_item = NoItem, rp_items = [], rp_ended = False\<rparr>"

definition open_item_of :: "ResponsesOutput \<Rightarrow> open_item_state option" where
  "open_item_of it =
     (if ro_Type it = ''message'' then Some (MessageItem (ro_ID it) [] None)
      else if ro_Type it = ''function_call'' then Some (CallItem (ro_ID it) [] False)
      else if ro_Type it = ''reasoning'' then Some (ReasoningItem (ro_ID it) [] False)
      else None)"

text \<open>A finished item carries what its deltas accumulated.\<close>

fun item_matches :: "open_item_state \<Rightarrow> ResponsesOutput \<Rightarrow> bool" where
  "item_matches NoItem it = False"
| "item_matches (MessageItem i parts cur) it \<longleftrightarrow>
     ro_Type it = ''message'' \<and> ro_ID it = i \<and> cur = None \<and> map rcp_Text (ro_Content it) = parts"
| "item_matches (CallItem i args d) it \<longleftrightarrow>
     ro_Type it = ''function_call'' \<and> ro_ID it = i
     \<and> ro_Arguments it = (if args = [] then ''{}'' else args)"
| "item_matches (ReasoningItem i summ d) it \<longleftrightarrow>
     ro_Type it = ''reasoning'' \<and> ro_ID it = i
     \<and> map rs_Text (ro_Summary it) = (if summ = [] then [] else [summ])"

fun item_event :: "open_item_state \<Rightarrow> ResponsesStreamEvent \<Rightarrow> open_item_state option" where
  "item_event (MessageItem i parts None) e =
     (if re_Type e = ''response.content_part.added'' \<and> re_ItemID e = i
         \<and> re_ContentIndex e = int (length parts)
      then Some (MessageItem i parts (Some [])) else None)"
| "item_event (MessageItem i parts (Some txt)) e =
     (if re_ItemID e \<noteq> i \<or> re_ContentIndex e \<noteq> int (length parts) then None
      else if re_Type e = ''response.output_text.delta'' then Some (MessageItem i parts (Some (txt @ re_Delta e)))
      else if re_Type e = ''response.output_text.done'' \<and> re_Text e = txt
      then Some (MessageItem i parts (Some txt))
      else if re_Type e = ''response.content_part.done'' \<and> map_option rcp_Text (re_Part e) = Some txt
      then Some (MessageItem i (parts @ [txt]) None)
      else None)"
| "item_event (CallItem i args d) e =
     (if d \<or> re_ItemID e \<noteq> i then None
      else if re_Type e = ''response.function_call_arguments.delta'' then Some (CallItem i (args @ re_Delta e) d)
      else if re_Type e = ''response.function_call_arguments.done'' then Some (CallItem i args True)
      else None)"
| "item_event (ReasoningItem i summ d) e =
     (if d \<or> re_ItemID e \<noteq> i then None
      else if re_Type e = ''response.reasoning_summary_text.delta'' then Some (ReasoningItem i (summ @ re_Delta e) d)
      else if re_Type e = ''response.reasoning_summary_text.done'' then Some (ReasoningItem i summ True)
      else None)"
| "item_event NoItem e = None"

definition resp_step :: "resp_proto \<Rightarrow> ResponsesStreamEvent \<Rightarrow> resp_proto option" where
  "resp_step p e =
     (if re_Type e = ''response.created''
      then (if rp_created p then None else Some (p\<lparr>rp_created := True\<rparr>))
      else if \<not> rp_created p \<or> rp_ended p then None
      else if re_Type e = ''response.completed'' \<or> re_Type e = ''response.incomplete'' then
        (if rp_item p = NoItem \<and> map_option rr_Output (re_Response e) = Some (rp_items p)
         then Some (p\<lparr>rp_ended := True\<rparr>) else None)
      else if re_Type e = ''response.output_item.added'' then
        (if rp_item p = NoItem \<and> re_OutputIndex e = rp_next p
         then map_option (\<lambda>i. p\<lparr>rp_item := i\<rparr>) (Option.bind (re_Item e) open_item_of) else None)
      else if re_OutputIndex e \<noteq> rp_next p then None
      else if re_Type e = ''response.output_item.done'' then
        (case re_Item e of
           None \<Rightarrow> None
         | Some it \<Rightarrow> if item_matches (rp_item p) it
             then Some (p\<lparr>rp_item := NoItem, rp_items := rp_items p @ [it], rp_next := rp_next p + 1\<rparr>)
             else None)
      else map_option (\<lambda>i. p\<lparr>rp_item := i\<rparr>) (item_event (rp_item p) e))"

text \<open>The upstream: an Anthropic stream whose blocks are of the three kinds the converter knows.\<close>

definition anth_basic_step :: "anth_proto \<Rightarrow> string \<times> AnthropicStreamEvent \<Rightarrow> anth_proto option" where
  "anth_basic_step p x =
     (case ae_ContentBlock (snd x) of
        Some b \<Rightarrow> if ae_Type (snd x) = ''content_block_start''
                     \<and> acb_Type b \<notin> {''text'', ''thinking'', ''tool_use''}
                  then None else anth_step p (snd x)
      | None \<Rightarrow> anth_step p (snd x))"

subsection \<open>The simulation\<close>

text \<open>The open item as the converter's state describes it; \<open>blk\<close> is the block the upstream has open.\<close>

definition aer_item :: "string option \<Rightarrow> aer_state \<Rightarrow> open_item_state" where
  "aer_item blk s =
     (if aer_CurrentItemType s = ''message'' then
        MessageItem (aer_CurrentItemID s) (map rcp_Text (aer_CurrentContent s))
          (if blk = Some ''text'' then Some (aer_TextAccum s) else None)
      else if aer_CurrentItemType s = ''function_call'' then CallItem (aer_CurrentItemID s) (aer_CurrentArgs s) False
      else if aer_CurrentItemType s = ''reasoning'' then ReasoningItem (aer_CurrentItemID s) (aer_CurrentSummary s) False
      else NoItem)"

definition block_item :: "string option \<Rightarrow> string \<Rightarrow> bool" where
  "block_item blk ty \<longleftrightarrow>
     (blk = None \<and> (ty = [] \<or> ty = ''message''))
     \<or> (blk = Some ''text'' \<and> ty = ''message'')
     \<or> (blk = Some ''tool_use'' \<and> ty = ''function_call'')
     \<or> (blk = Some ''thinking'' \<and> ty = ''reasoning'')"

definition aer_rel :: "anth_proto \<Rightarrow> aer_state \<Rightarrow> resp_proto \<Rightarrow> bool" where
  "aer_rel q s p \<longleftrightarrow>
     ap_started q = aer_CreatedSent s \<and> rp_created p = aer_CreatedSent s
     \<and> ap_stopped q = aer_CompletedSent s \<and> rp_ended p = aer_CompletedSent s
     \<and> (ap_ending q \<longrightarrow> ap_open q = None)
     \<and> (ap_stopped q \<longrightarrow> ap_ending q)
     \<and> (aer_CompletedSent s \<longrightarrow> aer_CurrentItemType s = [])
     \<and> rp_next p = aer_OutputIndex s
     \<and> rp_items p = aer_Outputs s
     \<and> block_item (ap_open q) (aer_CurrentItemType s)
     \<and> rp_item p = aer_item (ap_open q) s
     \<and> aer_ContentIndex s = int (length (aer_CurrentContent s))
     \<and> (aer_CurrentItemType s \<noteq> ''message'' \<longrightarrow> aer_CurrentContent s = [])
     \<and> (aer_CurrentItemType s \<noteq> ''function_call'' \<longrightarrow> aer_CurrentArgs s = [])
     \<and> (aer_CurrentItemType s \<noteq> ''reasoning'' \<longrightarrow> aer_CurrentSummary s = [])"

definition asim_to :: "anth_proto \<Rightarrow> resp_proto \<Rightarrow> aer_result \<Rightarrow> bool" where
  "asim_to q p r \<longleftrightarrow> (\<exists>p'. accepts resp_step p (snd r) = Some p' \<and> aer_rel q (fst r) p')"

lemma asim_to_refl: "aer_rel q s p \<Longrightarrow> asim_to q p (s, [])"
  by (simp add: asim_to_def)

lemma asim_to_seq:
  assumes "asim_to q p (s1, xs)"
    and "\<And>p1. aer_rel q s1 p1 \<Longrightarrow> asim_to q' p1 (s2, ys)"
  shows "asim_to q' p (s2, xs @ ys)"
  using assms by (fastforce simp: asim_to_def accepts_append)

text \<open>Closing the open item between two blocks.\<close>

lemma closeItem_sim:
  assumes rel: "aer_rel q s p" and go: "aer_CreatedSent s" "\<not> aer_CompletedSent s"
    and notext: "ap_open q \<noteq> Some ''text''"
  shows "asim_to (q\<lparr>ap_open := None\<rparr>) p (closeCurrentResponsesItem s)"
proof (cases "aer_CurrentItemType s = []")
  case True
  then show ?thesis using rel
    by (auto simp: closeCurrentResponsesItem_def asim_to_def aer_rel_def block_item_def aer_item_def)
next
  case False
  then consider "aer_CurrentItemType s = ''message''" | "aer_CurrentItemType s = ''function_call''"
    | "aer_CurrentItemType s = ''reasoning''"
    using rel by (auto simp: aer_rel_def block_item_def)
  then show ?thesis
    by cases (use rel go notext in \<open>simp add: closeCurrentResponsesItem_def makeResponsesEvent_def
      asim_to_def aer_rel_def aer_item_def block_item_def current_item_def resp_step_def zero_defs Let_def\<close>)+
qed

lemma closeItem_after:
  assumes "closeCurrentResponsesItem s = (s1, xs)"
  shows "aer_CurrentItemType s1 = []" "aer_CreatedSent s1 = aer_CreatedSent s"
    "aer_CompletedSent s1 = aer_CompletedSent s" "aer_StopReason s1 = aer_StopReason s"
  using assms
  by (auto simp: closeCurrentResponsesItem_def makeResponsesEvent_def Let_def split: if_splits)

lemma aer_rel_tokens:
  "aer_rel q (s\<lparr>aer_ResponseID := i\<rparr>) p = aer_rel q s p"
  "aer_rel q (s\<lparr>aer_Model := m\<rparr>) p = aer_rel q s p"
  "aer_rel q (s\<lparr>aer_InputTokens := k\<rparr>) p = aer_rel q s p"
  "aer_rel q (s\<lparr>aer_OutputTokens := k\<rparr>) p = aer_rel q s p"
  "aer_rel q (s\<lparr>aer_CacheReadInputTokens := k\<rparr>) p = aer_rel q s p"
  "aer_rel q (s\<lparr>aer_CacheCreationInputTokens := k\<rparr>) p = aer_rel q s p"
  "aer_rel q (s\<lparr>aer_StopReason := i\<rparr>) p = aer_rel q s p"
  "aer_rel q (s\<lparr>aer_SequenceNumber := k\<rparr>) p = aer_rel q s p"
  by (simp_all add: aer_rel_def aer_item_def)

lemma created_asim:
  assumes "aer_rel q s p" and "\<not> ap_started q"
  shows "asim_to (q\<lparr>ap_started := True\<rparr>) p
    (case makeResponsesCreatedEvent (s\<lparr>aer_CreatedSent := True\<rparr>) of (st, ev) \<Rightarrow> (st, [ev]))"
  using assms
  by (simp add: asim_to_def makeResponsesCreatedEvent_def aer_rel_def aer_item_def resp_step_def)

lemma message_start_asim:
  assumes rel: "aer_rel q s p" and new: "\<not> ap_started q"
  shows "asim_to (q\<lparr>ap_started := True\<rparr>) p (anthToResHandleMessageStart evt s)"
proof -
  have nc: "\<not> aer_CreatedSent s" using rel new by (simp add: aer_rel_def)
  show ?thesis
  proof (cases "ae_Message evt")
    case None
    then show ?thesis using created_asim [OF rel new] nc
      by (simp add: anthToResHandleMessageStart_def)
  next
    case (Some m)
    show ?thesis
      unfolding anthToResHandleMessageStart_def Some option.case Let_def
      using nc by (auto intro!: created_asim simp: aer_rel_tokens rel new)
  qed
qed

text \<open>Opening an item from a state with no open item.\<close>

lemma open_item_asim:
  assumes "aer_rel (q\<lparr>ap_open := None\<rparr>) s p" and "aer_CreatedSent s" "\<not> aer_CompletedSent s"
    and "aer_CurrentItemType s = []"
    and "ty = ''function_call'' \<and> blk = ''tool_use'' \<or> ty = ''reasoning'' \<and> blk = ''thinking''"
    and "ro_Type it = ty" "ro_ID it = newID" and "\<not> ap_ending q"
  shows "asim_to (q\<lparr>ap_open := Some blk\<rparr>) p (open_item s ty newID it)"
  using assms
  by (auto simp: asim_to_def open_item_def makeResponsesEvent_def aer_rel_def aer_item_def
      block_item_def open_item_of_def resp_step_def Let_def)

lemma open_message_asim:
  assumes "aer_rel q s p" and "aer_CreatedSent s" "\<not> aer_CompletedSent s"
    and "ap_open q = None" and "aer_CurrentItemType s = []"
    and "ro_Type it = ''message''" "ro_ID it = newID"
  shows "asim_to q p (open_item s ''message'' newID it)"
  using assms
  by (auto simp: asim_to_def open_item_def makeResponsesEvent_def aer_rel_def aer_item_def
      block_item_def open_item_of_def resp_step_def Let_def)

lemma aer_rel_ContentIndex:
  "aer_rel q s p \<Longrightarrow> aer_CurrentItemType s = [] \<Longrightarrow> s\<lparr>aer_ContentIndex := 0\<rparr> = s"
  by (simp add: aer_rel_def)

lemma aer_rel_call [simp]:
  "aer_rel q (s\<lparr>aer_CurrentCallID := c, aer_CurrentName := n\<rparr>) p = aer_rel q s p"
  by (simp add: aer_rel_def aer_item_def)

lemma open_frame:
  assumes "open_item s ty newID it = (s2, ys)"
  shows "aer_CurrentItemType s2 = ty" "aer_CreatedSent s2 = aer_CreatedSent s"
    "aer_CompletedSent s2 = aer_CompletedSent s"
  using assms by (auto simp: open_item_def makeResponsesEvent_def Let_def)

lemma part_added_asim:
  assumes "aer_rel q s p" and "aer_CreatedSent s" "\<not> aer_CompletedSent s"
    and "ap_open q = None" and "\<not> ap_ending q" and "aer_CurrentItemType s = ''message''"
    and "makeResponsesEvent s ''response.content_part.added''
           (zero_ResponsesStreamEvent
              \<lparr>re_OutputIndex := aer_OutputIndex s, re_ContentIndex := aer_ContentIndex s,
               re_ItemID := aer_CurrentItemID s, re_Part := part\<rparr>) = (s2, ev)"
  shows "asim_to (q\<lparr>ap_open := Some ''text''\<rparr>) p (s2\<lparr>aer_TextAccum := []\<rparr>, [ev])"
  using assms
  by (auto simp: asim_to_def makeResponsesEvent_def aer_rel_def aer_item_def block_item_def
      resp_step_def)

lemma block_start_asim:
  assumes rel: "aer_rel q s p" and go: "aer_CreatedSent s" "\<not> aer_CompletedSent s"
    and closed: "ap_open q = None" and notend: "\<not> ap_ending q"
    and b: "ae_ContentBlock evt = Some b" "acb_Type b \<in> {''text'', ''thinking'', ''tool_use''}"
  shows "asim_to (q\<lparr>ap_open := Some (acb_Type b)\<rparr>) p (anthToResHandleContentBlockStart newID evt s)"
proof -
  have q0: "q\<lparr>ap_open := None\<rparr> = q" using closed by simp
  obtain s1 xs where cl: "closeCurrentResponsesItem s = (s1, xs)"
    by (cases "closeCurrentResponsesItem s")
  note s1 = closeItem_after [OF cl]
  have closed_sim: "asim_to q p (s1, xs)"
    using closeItem_sim [OF rel go] closed cl q0 by simp
  have go1: "aer_CreatedSent s1" "\<not> aer_CompletedSent s1" using s1 go by simp_all
  have rel0: "aer_rel (q\<lparr>ap_open := None\<rparr>) (s1\<lparr>aer_ContentIndex := 0\<rparr>) p1"
      "aer_rel (q\<lparr>ap_open := None\<rparr>) (s1\<lparr>aer_CurrentCallID := c, aer_CurrentName := n\<rparr>) p1"
    if "aer_rel q s1 p1" for p1 c n
    using that q0 aer_rel_ContentIndex [OF that s1(1)] by simp_all
  from b(2) consider (thinking) "acb_Type b = ''thinking''" | (words) "acb_Type b = ''text''"
    | (tool) "acb_Type b = ''tool_use''" by blast
  then show ?thesis
  proof cases
    case thinking
    obtain s2 ys where op: "open_item (s1\<lparr>aer_ContentIndex := 0\<rparr>) ''reasoning'' newID
        (zero_ResponsesOutput\<lparr>ro_Type := ''reasoning'', ro_ID := newID\<rparr>) = (s2, ys)"
      by (rule prod.exhaust)
    have "asim_to (q\<lparr>ap_open := Some ''thinking''\<rparr>) p (s2, xs @ ys)"
      by (rule asim_to_seq [OF closed_sim], unfold op [symmetric], rule open_item_asim)
        (use rel0 s1 go1 notend in simp_all)
    then show ?thesis using b(1) thinking
      by (simp add: anthToResHandleContentBlockStart_def cl op)
  next
    case tool
    let ?s = "s1\<lparr>aer_CurrentCallID := toResponsesCallID (acb_ID b), aer_CurrentName := acb_Name b\<rparr>"
    obtain s2 ys where op: "open_item ?s ''function_call'' newID
        (zero_ResponsesOutput\<lparr>ro_Type := ''function_call'', ro_ID := newID,
           ro_CallID := aer_CurrentCallID ?s, ro_Name := aer_CurrentName ?s,
           ro_Status := ''in_progress''\<rparr>) = (s2, ys)"
      by (rule prod.exhaust)
    have "asim_to (q\<lparr>ap_open := Some ''tool_use''\<rparr>) p (s2, xs @ ys)"
      by (rule asim_to_seq [OF closed_sim], unfold op [symmetric], rule open_item_asim)
        (use rel0 s1 go1 notend in simp_all)
    then show ?thesis using b(1) tool op
      by (simp add: anthToResHandleContentBlockStart_def cl Let_def)
  next
    case words
    obtain s2 ys where op: "(if aer_CurrentItemType s \<noteq> ''message'' then
           (case closeCurrentResponsesItem s of (st, ev1) \<Rightarrow>
            case open_item (st\<lparr>aer_ContentIndex := 0\<rparr>) ''message'' newID
                   (zero_ResponsesOutput\<lparr>ro_Type := ''message'', ro_ID := newID,
                      ro_Role := ''assistant'', ro_Status := ''in_progress''\<rparr>)
            of (st, ev2) \<Rightarrow> (st, ev1 @ ev2))
         else (s, [])) = (s2, ys)"
      by (rule prod.exhaust)
    have msg: "asim_to q p (s2, ys) \<and> aer_CurrentItemType s2 = ''message''
        \<and> aer_CreatedSent s2 \<and> \<not> aer_CompletedSent s2"
    proof (cases "aer_CurrentItemType s = ''message''")
      case True
      then show ?thesis using op rel go asim_to_refl by auto
    next
      case False
      obtain s3 zs where op3: "open_item (s1\<lparr>aer_ContentIndex := 0\<rparr>) ''message'' newID
          (zero_ResponsesOutput\<lparr>ro_Type := ''message'', ro_ID := newID,
             ro_Role := ''assistant'', ro_Status := ''in_progress''\<rparr>) = (s3, zs)"
        by (rule prod.exhaust)
      have "asim_to q p (s3, xs @ zs)"
        by (rule asim_to_seq [OF closed_sim], unfold op3 [symmetric], rule open_message_asim)
          (use rel0 q0 s1 go1 closed in simp_all)
      then show ?thesis using False op open_frame [OF op3] go1 by (simp add: cl op3)
    qed
    obtain s4 ev where mk: "makeResponsesEvent s2 ''response.content_part.added''
           (zero_ResponsesStreamEvent
              \<lparr>re_OutputIndex := aer_OutputIndex s2, re_ContentIndex := aer_ContentIndex s2,
               re_ItemID := aer_CurrentItemID s2,
               re_Part := Some (zero_ResponsesContentPart
                          \<lparr>rcp_Type := ''output_text'', rcp_Text := []\<rparr>)\<rparr>) = (s4, ev)"
      by (rule prod.exhaust)
    have "asim_to (q\<lparr>ap_open := Some ''text''\<rparr>) p (s4\<lparr>aer_TextAccum := []\<rparr>, ys @ [ev])"
      by (rule asim_to_seq [OF conjunct1 [OF msg]])
        (use msg closed notend in \<open>auto intro!: part_added_asim [OF _ _ _ _ _ _ mk]\<close>)
    then show ?thesis using b(1) words op mk
      by (simp add: anthToResHandleContentBlockStart_def)
  qed
qed

lemma delta_asim:
  assumes rel: "aer_rel q s p" and go: "aer_CreatedSent s" "\<not> aer_CompletedSent s"
    and b: "ap_open q = Some b" "ae_Delta evt = Some d" "delta_fits b (ad_Type d)"
  shows "asim_to q p (anthToResHandleContentBlockDelta evt s)"
proof -
  from b(3) consider (words) "b = ''text''" "ad_Type d = ''text_delta''"
    | (tool) "b = ''tool_use''" "ad_Type d = ''input_json_delta''"
    | (thinking) "b = ''thinking''" "ad_Type d = ''thinking_delta''"
    | (signature) "b = ''thinking''" "ad_Type d = ''signature_delta''"
    by (auto simp: delta_fits_def)
  then show ?thesis
  proof cases
    case words
    then show ?thesis using rel go b
      by (simp add: asim_to_def anthToResHandleContentBlockDelta_def makeResponsesEvent_def
          aer_rel_def aer_item_def block_item_def resp_step_def)
  next
    case tool
    then show ?thesis using rel go b
      by (simp add: asim_to_def anthToResHandleContentBlockDelta_def makeResponsesEvent_def
          aer_rel_def aer_item_def block_item_def resp_step_def)
  next
    case thinking
    then show ?thesis using rel go b
      by (simp add: asim_to_def anthToResHandleContentBlockDelta_def makeResponsesEvent_def
          aer_rel_def aer_item_def block_item_def resp_step_def)
  next
    case signature
    then show ?thesis using rel b by (simp add: anthToResHandleContentBlockDelta_def asim_to_refl)
  qed
qed

text \<open>After the \<open>done\<close> event of a call or of a summary only the end of the item may follow.\<close>

definition item_closing :: "open_item_state \<Rightarrow> open_item_state" where
  "item_closing i = (case i of CallItem x a d \<Rightarrow> CallItem x a True | ReasoningItem x a d \<Rightarrow> ReasoningItem x a True | _ \<Rightarrow> i)"

lemma item_matches_closing [simp]: "item_matches (item_closing i) it = item_matches i it"
  by (simp add: item_closing_def split: open_item_state.split)

lemma closing_event:
  assumes rel: "aer_rel q s p" and go: "aer_CreatedSent s" "\<not> aer_CompletedSent s"
    and ty: "aer_CurrentItemType s = ''reasoning'' \<and> re_Type e = ''response.reasoning_summary_text.done''
      \<or> aer_CurrentItemType s = ''function_call'' \<and> re_Type e = ''response.function_call_arguments.done''"
    and e: "re_OutputIndex e = aer_OutputIndex s" "re_ItemID e = aer_CurrentItemID s"
  shows "resp_step p e = Some (p\<lparr>rp_item := item_closing (rp_item p)\<rparr>)"
  using ty
proof
  assume "aer_CurrentItemType s = ''reasoning'' \<and> re_Type e = ''response.reasoning_summary_text.done''"
  then show ?thesis using rel go e by (simp add: aer_rel_def aer_item_def resp_step_def item_closing_def)
next
  assume "aer_CurrentItemType s = ''function_call'' \<and> re_Type e = ''response.function_call_arguments.done''"
  then show ?thesis using rel go e by (simp add: aer_rel_def aer_item_def resp_step_def item_closing_def)
qed

lemma close_closing:
  assumes rel: "aer_rel q s p" and go: "aer_CreatedSent s" "\<not> aer_CompletedSent s"
    and ty: "aer_CurrentItemType s = ''reasoning'' \<or> aer_CurrentItemType s = ''function_call''"
  shows "asim_to (q\<lparr>ap_open := None\<rparr>) (p\<lparr>rp_item := item_closing (rp_item p)\<rparr>) 
    (closeCurrentResponsesItem (s\<lparr>aer_SequenceNumber := n\<rparr>))"
  using ty
proof
  assume "aer_CurrentItemType s = ''reasoning''"
  then show ?thesis using rel go
    by (simp add: closeCurrentResponsesItem_def makeResponsesEvent_def asim_to_def aer_rel_def
        aer_item_def block_item_def current_item_def resp_step_def zero_defs Let_def)
next
  assume "aer_CurrentItemType s = ''function_call''"
  then show ?thesis using rel go
    by (simp add: closeCurrentResponsesItem_def makeResponsesEvent_def asim_to_def aer_rel_def
        aer_item_def block_item_def current_item_def resp_step_def zero_defs Let_def)
qed

lemma asim_to_next [simp]: "asim_to (q\<lparr>ap_next := n\<rparr>) p r = asim_to q p r"
  by (simp add: asim_to_def aer_rel_def)

lemma stop_asim:
  assumes rel: "aer_rel q s p" and go: "aer_CreatedSent s" "\<not> aer_CompletedSent s"
    and b: "ap_open q \<noteq> None"
  shows "asim_to (q\<lparr>ap_open := None\<rparr>) p (anthToResHandleContentBlockStop s)"
proof -
  from rel b consider (words) "ap_open q = Some ''text''" "aer_CurrentItemType s = ''message''"
    | (tool) "aer_CurrentItemType s = ''function_call''"
    | (thinking) "aer_CurrentItemType s = ''reasoning''"
    by (auto simp: aer_rel_def block_item_def)
  then show ?thesis
  proof cases
    case words
    then show ?thesis using rel go
      by (simp add: asim_to_def anthToResHandleContentBlockStop_def makeResponsesEvent_def aer_rel_def
          aer_item_def block_item_def resp_step_def Let_def)
  next
    case tool
    then show ?thesis
      using close_closing [OF rel go, of "aer_SequenceNumber s + 1"]
      by (simp add: anthToResHandleContentBlockStop_def makeResponsesEvent_def asim_to_def
          closing_event [OF rel go] split_beta)
  next
    case thinking
    then show ?thesis
      using close_closing [OF rel go, of "aer_SequenceNumber s + 1"]
      by (simp add: anthToResHandleContentBlockStop_def makeResponsesEvent_def asim_to_def
          closing_event [OF rel go] split_beta)
  qed
qed

lemma message_delta_asim:
  assumes "aer_rel q s p" and "ap_open q = None"
  shows "asim_to (q\<lparr>ap_ending := True\<rparr>) p (anthToResHandleMessageDelta evt s)"
proof -
  have "aer_rel (q\<lparr>ap_ending := True\<rparr>) s p" using assms by (simp add: aer_rel_def)
  then show ?thesis
    by (simp add: anthToResHandleMessageDelta_def asim_to_def aer_rel_tokens Let_def split: option.split)
qed

lemma terminal_asim:
  assumes rel: "aer_rel q s p" and go: "aer_CreatedSent s" "\<not> aer_CompletedSent s"
    and "ap_open q = None" "aer_CurrentItemType s = []"
    and mk: "makeResponsesCompletedEvent s status details = (s2, ev)"
  shows "asim_to (q\<lparr>ap_ending := True, ap_stopped := True\<rparr>) p (s2\<lparr>aer_CompletedSent := True\<rparr>, [ev])"
proof -
  have "re_Type ev = ''response.incomplete'' \<or> re_Type ev = ''response.completed''"
      "map_option rr_Output (re_Response ev) = Some (aer_Outputs s)"
      "s2 = s\<lparr>aer_SequenceNumber := aer_SequenceNumber s + 1\<rparr>"
    using mk by (auto simp: makeResponsesCompletedEvent_def split: if_splits)
  moreover have "rp_item p = NoItem" "rp_created p" "\<not> rp_ended p" "rp_items p = aer_Outputs s"
    using assms by (simp_all add: aer_rel_def aer_item_def)
  ultimately have "resp_step p ev = Some (p\<lparr>rp_ended := True\<rparr>)"
    by (elim disjE) (simp_all add: resp_step_def)
  moreover have "aer_rel (q\<lparr>ap_ending := True, ap_stopped := True\<rparr>) (s2\<lparr>aer_CompletedSent := True\<rparr>)
      (p\<lparr>rp_ended := True\<rparr>)"
    using assms \<open>s2 = _\<close> by (simp add: aer_rel_def aer_item_def)
  ultimately show ?thesis by (simp add: asim_to_def)
qed

lemma complete_asim:
  assumes rel: "aer_rel q s p" and go: "aer_CreatedSent s" "\<not> aer_CompletedSent s"
    and notext: "ap_open q \<noteq> Some ''text''"
  shows "asim_to (q\<lparr>ap_open := None, ap_ending := True, ap_stopped := True\<rparr>) p (aer_complete s)"
proof -
  obtain s1 xs where cl: "closeCurrentResponsesItem s = (s1, xs)"
    by (cases "closeCurrentResponsesItem s")
  obtain status details
    where st: "anthropicResponsesStreamTerminalState (aer_StopReason s1) = (status, details)"
    by (rule prod.exhaust)
  obtain s2 ev where mk: "makeResponsesCompletedEvent s1 status details = (s2, ev)"
    by (rule prod.exhaust)
  note s1 = closeItem_after [OF cl]
  have eq: "aer_complete s = (s2\<lparr>aer_CompletedSent := True\<rparr>, xs @ [ev])"
    by (simp add: aer_complete_def cl st mk)
  show ?thesis unfolding eq
    by (rule asim_to_seq [OF closeItem_sim [OF rel go notext, unfolded cl]])
      (use terminal_asim [of "q\<lparr>ap_open := None\<rparr>" s1, OF _ _ _ _ _ mk] s1 go in simp)
qed

lemma aer_step_sim:
  assumes rel: "aer_rel q s p" and up: "anth_basic_step q x = Some q'"
  shows "asim_to q' p (AnthropicEventToResponsesEvents s x)"
proof -
  obtain newID evt where x: "x = (newID, evt)" by (cases x)
  have st: "anth_step q evt = Some q'"
    using up by (auto simp: anth_basic_step_def x split: option.splits if_splits)
  show ?thesis
  proof (cases "ae_Type evt = ''message_start''")
    case True
    then show ?thesis using message_start_asim [OF rel, of evt] st
      by (auto simp: AnthropicEventToResponsesEvents_def x anth_step_def split: if_splits)
  next
    case False
    have go: "aer_CreatedSent s" "\<not> aer_CompletedSent s"
      using False st rel by (auto simp: anth_step_def aer_rel_def split: if_splits)
    have go': "ap_started q" "\<not> ap_stopped q" using rel go by (simp_all add: aer_rel_def)
    consider (start) "ae_Type evt = ''content_block_start''" | (delta) "ae_Type evt = ''content_block_delta''"
      | (stop) "ae_Type evt = ''content_block_stop''" | (mdelta) "ae_Type evt = ''message_delta''"
      | (mstop) "ae_Type evt = ''message_stop''"
      using False st by (auto simp: anth_step_def split: if_splits)
    then show ?thesis
    proof cases
      case start
      then obtain b where b: "ae_ContentBlock evt = Some b" "ap_open q = None" "\<not> ap_ending q"
          "q' = q\<lparr>ap_open := Some (acb_Type b)\<rparr>"
        using st go' by (auto simp: anth_step_def split: option.splits if_splits)
      moreover have "acb_Type b \<in> {''text'', ''thinking'', ''tool_use''}"
        using up start b(1) by (auto simp: anth_basic_step_def x split: if_splits)
      ultimately show ?thesis using block_start_asim [OF rel go, of evt b newID] start
        by (simp add: AnthropicEventToResponsesEvents_def x)
    next
      case delta
      then obtain b d where "ap_open q = Some b" "ae_Delta evt = Some d" "delta_fits b (ad_Type d)" "q' = q"
        using st go' by (auto simp: anth_step_def split: option.splits if_splits)
      then show ?thesis using delta_asim [OF rel go] delta
        by (simp add: AnthropicEventToResponsesEvents_def x)
    next
      case stop
      then have "ap_open q \<noteq> None" "q' = q\<lparr>ap_open := None, ap_next := ap_next q + 1\<rparr>"
        using st go' by (auto simp: anth_step_def split: if_splits)
      then show ?thesis using stop_asim [OF rel go] stop
        by (simp add: AnthropicEventToResponsesEvents_def x)
    next
      case mdelta
      then have "ap_open q = None" "q' = q\<lparr>ap_ending := True\<rparr>"
        using st go' by (auto simp: anth_step_def split: if_splits)
      then show ?thesis using message_delta_asim [OF rel] mdelta
        by (simp add: AnthropicEventToResponsesEvents_def x)
    next
      case mstop
      then have e: "ap_ending q" "q' = q\<lparr>ap_stopped := True\<rparr>"
        using st go' by (auto simp: anth_step_def split: if_splits)
      then have "ap_open q = None" using rel by (simp add: aer_rel_def)
      then have "q' = q\<lparr>ap_open := None, ap_ending := True, ap_stopped := True\<rparr>" using e by simp
      then show ?thesis using complete_asim [OF rel go] \<open>ap_open q = None\<close> mstop go
        by (simp add: AnthropicEventToResponsesEvents_def x anthToResHandleMessageStop_def)
    qed
  qed
qed

interpretation aer_proto: stream_protocol AnthropicEventToResponsesEvents anth_basic_step resp_step aer_rel
  using aer_step_sim [unfolded asim_to_def] by unfold_locales blast

lemma aer_rel_init:
  "aer_rel anth_init ((NewAnthropicEventToResponsesState now)\<lparr>aer_Model := model\<rparr>) resp_init"
  by (simp add: aer_rel_def anth_init_def NewAnthropicEventToResponsesState_def resp_init_def
      aer_item_def block_item_def)

subsection \<open>Complete streams\<close>

text \<open>
  The whole run: the simulation carries every event, and the finalisation ends the stream unless a
  \<open>message_stop\<close> already did.
\<close>

lemma complete_stream:
  assumes "accepts anth_basic_step anth_init evts = Some q" and "ap_started q" and "ap_open q \<noteq> Some ''text''"
  shows "\<exists>p. accepts resp_step resp_init
           (snd (anthropic_responses_stream
              ((NewAnthropicEventToResponsesState now)\<lparr>aer_Model := model\<rparr>) evts)) = Some p
         \<and> rp_ended p"
proof -
  let ?s0 = "(NewAnthropicEventToResponsesState now)\<lparr>aer_Model := model\<rparr>"
  let ?run = "run_stream AnthropicEventToResponsesEvents ?s0 evts"
  obtain p where p: "accepts resp_step resp_init (snd ?run) = Some p" "aer_rel q (fst ?run) p"
    using aer_proto.run_sim [OF aer_rel_init assms(1)] by blast
  have fin: "\<exists>p'. accepts resp_step p (snd (FinalizeAnthropicResponsesStream (fst ?run))) = Some p'
      \<and> rp_ended p'"
  proof (cases "aer_CreatedSent (fst ?run) \<and> \<not> aer_CompletedSent (fst ?run)")
    case True
    then show ?thesis using complete_asim [OF p(2) _ _ assms(3)] p(2)
      by (auto simp: FinalizeAnthropicResponsesStream_def asim_to_def aer_rel_def)
  next
    case False
    then show ?thesis using p(2) assms(2)
      by (auto simp: FinalizeAnthropicResponsesStream_def aer_rel_def)
  qed
  then show ?thesis using p(1)
    by (auto simp: anthropic_responses_stream_def split_beta accepts_append)
qed


text \<open>A stream that breaks off inside a tool call.\<close>

definition anth_tool_stream :: "(string \<times> AnthropicStreamEvent) list" where
  "anth_tool_stream =
     [(''i0'', ev_message_start ''msg_1'' ''m''),
      (''i1'', ev_block_start 0 (zero_AnthropicContentBlock\<lparr>acb_Type := ''text''\<rparr>)),
      (''i2'', ev_block_delta 0 (zero_AnthropicDelta\<lparr>ad_Type := ''text_delta'', ad_Text := ''hi''\<rparr>)),
      (''i3'', ev_block_stop 0),
      (''i4'', ev_block_start 1 (zero_AnthropicContentBlock\<lparr>acb_Type := ''tool_use''\<rparr>)),
      (''i5'', ev_block_delta 1 (input_json_delta ''x''))]"

lemma anth_tool_stream_accepted:
  "accepts anth_basic_step anth_init anth_tool_stream =
     Some \<lparr>ap_started = True, ap_next = 1, ap_open = Some ''tool_use'', ap_ending = False,
           ap_stopped = False\<rparr>"
  by (simp add: anth_tool_stream_def anth_basic_step_def anth_step_def anth_init_def
      ev_message_start_def ev_block_start_def ev_block_delta_def ev_block_stop_def input_json_delta_def
      delta_fits_def zero_defs)


subsection \<open>What is carried over\<close>

text \<open>The visible text an output item holds.\<close>

definition output_text :: "ResponsesOutput \<Rightarrow> string" where
  "output_text it = (if ro_Type it = ''message'' then concat (map rcp_Text (ro_Content it)) else [])"

fun open_text :: "open_item_state \<Rightarrow> string" where
  "open_text (MessageItem i parts cur) = concat parts @ (case cur of None \<Rightarrow> [] | Some t \<Rightarrow> t)"
| "open_text i = []"

definition proto_text :: "resp_proto \<Rightarrow> string" where
  "proto_text p = gather output_text (rp_items p) @ open_text (rp_item p)"

lemma item_event_text: "item_event i e = Some i' \<Longrightarrow> open_text i' = open_text i @ resp_text e"
  by (induction i e rule: item_event.induct) (auto simp: resp_text_def split: if_splits)

lemma open_item_of_text: "open_item_of it = Some i \<Longrightarrow> open_text i = []"
  by (auto simp: open_item_of_def split: if_splits)

lemma item_matches_text: "item_matches i it \<Longrightarrow> output_text it = open_text i"
  by (cases i) (auto simp: output_text_def)

lemma resp_step_text:
  assumes "resp_step p e = Some p'"
  shows "proto_text p' = proto_text p @ resp_text e"
  using assms
  by (auto simp: resp_step_def proto_text_def open_item_of_text item_matches_text item_event_text
      resp_text_def bind_eq_Some_conv split: if_splits option.splits)

lemma accepts_text: "accepts resp_step p evts = Some p' \<Longrightarrow> proto_text p' = proto_text p @ gather resp_text evts"
  by (induction evts arbitrary: p) (auto simp: resp_step_text split: option.splits)

lemma resp_step_ends:
  assumes "resp_step p e = Some p'" and "rp_ended p'" and "\<not> rp_ended p"
  shows "rp_created p' \<and> map_option (gather output_text \<circ> rr_Output) (re_Response e) = Some (proto_text p')"
  using assms
  by (auto simp: resp_step_def proto_text_def split: if_splits option.splits)

lemma accepts_created:
  assumes "accepts resp_step p evts = Some p'" and "rp_ended p \<longrightarrow> rp_created p"
  shows "rp_ended p' \<longrightarrow> rp_created p'"
  using assms
proof (induction evts arbitrary: p)
  case (Cons e evts)
  then obtain p1 where p1: "resp_step p e = Some p1" "accepts resp_step p1 evts = Some p'"
    by (auto split: option.splits)
  have "rp_ended p1 \<longrightarrow> rp_created p1"
    using p1(1) Cons.prems(2) by (auto simp: resp_step_def split: if_splits option.splits)
  then show ?case using Cons.IH [OF p1(2)] by simp
qed simp

lemma accepts_after_end: "rp_created p \<Longrightarrow> rp_ended p \<Longrightarrow> accepts resp_step p evts = Some p' \<Longrightarrow> evts = []"
  by (cases evts) (auto simp: resp_step_def split: if_splits)

lemma accepts_ended:
  assumes "accepts resp_step p evts = Some p'" and "rp_ended p'" and "\<not> rp_ended p"
  shows "evts \<noteq> []
    \<and> map_option (gather output_text \<circ> rr_Output) (re_Response (last evts)) = Some (proto_text p')"
  using assms
proof (induction evts arbitrary: p)
  case (Cons e evts)
  then obtain p1 where p1: "resp_step p e = Some p1" "accepts resp_step p1 evts = Some p'"
    by (auto split: option.splits)
  show ?case
  proof (cases "rp_ended p1")
    case True
    note e = resp_step_ends [OF p1(1) True Cons.prems(3)]
    then have "evts = []" using accepts_after_end True p1(2) by blast
    then show ?thesis using e p1(2) by simp
  next
    case False
    then show ?thesis using Cons.IH [OF p1(2) Cons.prems(2)] by simp
  qed
qed simp

lemmas aer_handler_defs = closeCurrentResponsesItem_def anthToResHandleMessageStart_def
  makeResponsesCreatedEvent_def anthToResHandleContentBlockStart_def
  anthToResHandleContentBlockStop_def anthToResHandleMessageDelta_def
  anthToResHandleContentBlockDelta_def open_item_def makeResponsesEvent_def
  makeResponsesCompletedEvent_def aer_complete_def anthropicResponsesStreamTerminalState_def Let_def

lemma aer_text_handlers:
  "gather resp_text (snd (closeCurrentResponsesItem s)) = []"
  "gather resp_text (snd (anthToResHandleMessageStart evt s)) = []"
  "gather resp_text (snd (anthToResHandleContentBlockStart newID evt s)) = []"
  "gather resp_text (snd (anthToResHandleContentBlockStop s)) = []"
  "gather resp_text (snd (anthToResHandleMessageDelta evt s)) = []"
  "gather resp_text (snd (aer_complete s)) = []"
  by (simp_all add: aer_handler_defs resp_text_def split: option.split prod.split)

lemma aer_text_delta:
  "gather resp_text (snd (anthToResHandleContentBlockDelta evt s)) =
     (if ae_Type evt = ''content_block_delta'' then anth_text evt else gather resp_text (snd (anthToResHandleContentBlockDelta evt s)))"
  by (simp add: anthToResHandleContentBlockDelta_def anth_text_def resp_text_def makeResponsesEvent_def split: option.split)

interpretation aer_text: stream_observer AnthropicEventToResponsesEvents "\<lambda>s. True" "anth_text \<circ> snd" resp_text
  by unfold_locales
    (auto simp: AnthropicEventToResponsesEvents_def aer_text_handlers aer_text_delta anthToResHandleMessageStop_def
      anth_text_def Let_def split: option.split)

lemma stream_text:
  "gather resp_text (snd (anthropic_responses_stream s evts)) = gather (anth_text \<circ> snd) evts"
  by (simp add: anthropic_responses_stream_def FinalizeAnthropicResponsesStream_def split_beta aer_text.run_obs aer_text_handlers)

text \<open>
  For every upstream the text deltas of the translated stream concatenate to the text deltas
  received: no visible text is lost, repeated or reordered.
\<close>

theorem responses_stream_text:
  "gather resp_text (snd (anthropic_responses_stream s evts)) = gather (anth_text \<circ> snd) evts"
  by (rule stream_text)

subsection \<open>Sequence numbers\<close>

definition numbered :: "aer_state \<Rightarrow> aer_result \<Rightarrow> bool" where
  "numbered s r \<longleftrightarrow> aer_SequenceNumber (fst r) = aer_SequenceNumber s + int (length (snd r))
     \<and> map re_SequenceNumber (snd r) = count_from (aer_SequenceNumber s) (length (snd r))"

lemma numbered_handlers:
  "numbered s (closeCurrentResponsesItem s)"
  "numbered s (anthToResHandleMessageStart evt s)"
  "numbered s (anthToResHandleContentBlockStart newID evt s)"
  "numbered s (anthToResHandleContentBlockDelta evt s)"
  "numbered s (anthToResHandleContentBlockStop s)"
  "numbered s (anthToResHandleMessageDelta evt s)"
  "numbered s (aer_complete s)"
  by (simp_all add: numbered_def aer_handler_defs split: option.split prod.split)

lemma numbered_step: "numbered s (AnthropicEventToResponsesEvents s i)"
  by (cases i) (simp add: AnthropicEventToResponsesEvents_def numbered_handlers anthToResHandleMessageStop_def Let_def,
    simp add: numbered_def)

interpretation aer_numbers: stream_numbering AnthropicEventToResponsesEvents aer_SequenceNumber re_SequenceNumber
  using numbered_step by unfold_locales (simp_all add: numbered_def)

text \<open>
  Whatever the upstream sends, the \<open>sequence_number\<close> of the emitted events counts 0, 1, 2, and
  so on, without gap or repetition, the events of the finalisation included.
\<close>

theorem responses_stream_sequence_numbers:
  "let out = snd (anthropic_responses_stream
         ((NewAnthropicEventToResponsesState now)\<lparr>aer_Model := model\<rparr>) evts)
   in map re_SequenceNumber out = map int [0..<length out]"
proof -
  let ?s0 = "(NewAnthropicEventToResponsesState now)\<lparr>aer_Model := model\<rparr>"
  let ?run = "run_stream AnthropicEventToResponsesEvents ?s0 evts"
  have "numbered (fst ?run) (FinalizeAnthropicResponsesStream (fst ?run))"
    by (simp add: FinalizeAnthropicResponsesStream_def numbered_handlers numbered_def [of _ "(_, [])"])
  then show ?thesis
    using aer_numbers.run_num [of ?s0 evts] aer_numbers.run_ctr [of ?s0 evts]
    by (simp add: anthropic_responses_stream_def split_beta numbered_def Let_def count_from_add
        count_from_upt [of 0, simplified, symmetric] NewAnthropicEventToResponsesState_def)
qed

subsection \<open>Milestones\<close>

definition is_created :: "ResponsesStreamEvent \<Rightarrow> bool" where
  "is_created e \<longleftrightarrow> re_Type e = ''response.created''"

definition is_terminal :: "ResponsesStreamEvent \<Rightarrow> bool" where
  "is_terminal e \<longleftrightarrow> re_Type e = ''response.completed'' \<or> re_Type e = ''response.incomplete''"

definition plain_result :: "aer_state \<Rightarrow> aer_result \<Rightarrow> bool" where
  "plain_result s r \<longleftrightarrow> aer_CreatedSent (fst r) = aer_CreatedSent s \<and> aer_CompletedSent (fst r) = aer_CompletedSent s
     \<and> list_all (\<lambda>e. \<not> is_created e \<and> \<not> is_terminal e) (snd r)"

lemma plain_handlers:
  "plain_result s (closeCurrentResponsesItem s)"
  "plain_result s (anthToResHandleContentBlockStart newID evt s)"
  "plain_result s (anthToResHandleContentBlockDelta evt s)"
  "plain_result s (anthToResHandleContentBlockStop s)"
  "plain_result s (anthToResHandleMessageDelta evt s)"
  by (simp_all add: plain_result_def is_created_def is_terminal_def aer_handler_defs split: option.split prod.split)

lemma plain_marks:
  assumes "plain_result s r"
  shows "aer_CreatedSent (fst r) = aer_CreatedSent s" "aer_CompletedSent (fst r) = aer_CompletedSent s"
    "count_if is_created (snd r) = 0" "count_if is_terminal (snd r) = 0"
  using assms by (auto simp: plain_result_def count_if_def list_all_iff filter_empty_conv)

lemma message_start_marks:
  "aer_CreatedSent (fst (anthToResHandleMessageStart evt s))"
  "aer_CompletedSent (fst (anthToResHandleMessageStart evt s)) = aer_CompletedSent s"
  "count_if is_created (snd (anthToResHandleMessageStart evt s)) = (if aer_CreatedSent s then 0 else 1)"
  "count_if is_terminal (snd (anthToResHandleMessageStart evt s)) = 0"
  by (simp_all add: aer_handler_defs is_created_def is_terminal_def split: option.split)

lemma complete_marks:
  "aer_CreatedSent (fst (aer_complete s)) = aer_CreatedSent s"
  "aer_CompletedSent (fst (aer_complete s))"
  "count_if is_created (snd (aer_complete s)) = 0"
  "count_if is_terminal (snd (aer_complete s)) = 1"
  by (simp_all add: aer_handler_defs is_created_def is_terminal_def)

lemmas aer_marks = message_start_marks complete_marks plain_marks [OF plain_handlers(2)]
  plain_marks [OF plain_handlers(3)] plain_marks [OF plain_handlers(4)] plain_marks [OF plain_handlers(5)]

interpretation aer_created: stream_trigger AnthropicEventToResponsesEvents aer_CreatedSent is_created
    "\<lambda>i. ae_Type (snd i) = ''message_start''"
  by unfold_locales
    (simp_all add: AnthropicEventToResponsesEvents_def anthToResHandleMessageStop_def aer_marks Let_def split_beta)

interpretation aer_ended: stream_trigger AnthropicEventToResponsesEvents aer_CompletedSent is_terminal
    "\<lambda>i. ae_Type (snd i) = ''message_stop''"
  by unfold_locales
    (simp_all add: AnthropicEventToResponsesEvents_def anthToResHandleMessageStop_def aer_marks Let_def split_beta)

text \<open>
  Whatever the upstream sends: \<open>response.created\<close> is emitted once if the upstream ever sends a
  \<open>message_start\<close> and otherwise never; a terminal event is emitted once if the upstream was started
  or stopped and otherwise never.
\<close>

theorem responses_stream_milestones:
  "let out = snd (anthropic_responses_stream
               ((NewAnthropicEventToResponsesState now)\<lparr>aer_Model := model\<rparr>) evts);
       started = list_ex (\<lambda>i. ae_Type (snd i) = ''message_start'') evts;
       stopped = list_ex (\<lambda>i. ae_Type (snd i) = ''message_stop'') evts
   in count_if is_created out = (if started then 1 else 0)
      \<and> count_if is_terminal out = (if started \<or> stopped then 1 else 0)"
proof -
  let ?s0 = "(NewAnthropicEventToResponsesState now)\<lparr>aer_Model := model\<rparr>"
  have s0: "\<not> aer_CreatedSent ?s0" "\<not> aer_CompletedSent ?s0"
    by (simp_all add: NewAnthropicEventToResponsesState_def)
  show ?thesis
    using aer_created.run_mark [of ?s0 evts] aer_ended.run_mark [of ?s0 evts]
      aer_created.run_trigger [of ?s0 evts] aer_ended.run_trigger [of ?s0 evts] s0
    by (simp add: anthropic_responses_stream_def split_beta FinalizeAnthropicResponsesStream_def
        complete_marks Let_def)
qed

text \<open>
  The last event of a complete translated stream carries the whole answer: the text of its
  output items is the concatenation of the text deltas the upstream sent.
\<close>

theorem responses_terminal_event_text:
  assumes "accepts anth_basic_step anth_init evts = Some q" and "ap_started q" and "ap_open q \<noteq> Some ''text''"
  shows "\<exists>r. re_Response (last (snd (anthropic_responses_stream
              ((NewAnthropicEventToResponsesState now)\<lparr>aer_Model := model\<rparr>) evts))) = Some r
         \<and> gather output_text (rr_Output r) = gather (anth_text \<circ> snd) evts"
proof -
  obtain p where p: "accepts resp_step resp_init (snd (anthropic_responses_stream
              ((NewAnthropicEventToResponsesState now)\<lparr>aer_Model := model\<rparr>) evts)) = Some p" "rp_ended p"
    using complete_stream [OF assms] by blast
  have "\<not> rp_ended resp_init" "proto_text resp_init = []" by (simp_all add: resp_init_def proto_text_def)
  then show ?thesis using accepts_ended [OF p] accepts_text [OF p(1)] stream_text by auto
qed

theorem responses_terminal_event_text_witness:
  "\<exists>r. re_Response (last (snd (anthropic_responses_stream
          ((NewAnthropicEventToResponsesState 7)\<lparr>aer_Model := ''m''\<rparr>) anth_tool_stream))) = Some r
       \<and> gather output_text (rr_Output r) = ''hi''"
  using responses_terminal_event_text [OF anth_tool_stream_accepted, where now = 7 and model = "''m''"]
  by (simp add: anth_tool_stream_def anth_text_def ev_message_start_def ev_block_start_def
      ev_block_delta_def ev_block_stop_def input_json_delta_def zero_defs)

text \<open>
  The restriction on text blocks is needed: the finalisation does not look at the text that a
  still open text block has accumulated, so the terminal event of a stream that breaks off inside
  a text block does not carry that text.
\<close>

lemma finalize_ignores_open_text:
  "snd (FinalizeAnthropicResponsesStream (s\<lparr>aer_TextAccum := t\<rparr>)) = snd (FinalizeAnthropicResponsesStream s)"
  by (simp add: FinalizeAnthropicResponsesStream_def aer_handler_defs current_item_def)

end
