(* ===== verification/Responses_To_Chat.thy ===== *)
theory Responses_To_Chat
  imports Responses_To_Anthropic
begin

text \<open>
  \<open>pkg/apicompat/responses_to_chatcompletions.go\<close>: the translation of OpenAI Responses answers into
  Chat Completions answers, for whole answers, for event streams, and the accumulator that rebuilds
  an answer from the deltas of a stream for clients that did not ask for one. \<open>crypto/rand\<close> and
  \<open>time.Now\<close> are arguments.

  The theory defines what a Chat Completions stream is (\<open>chat_step\<close>) and how a client assembles one
  (\<open>assemble\<close>), and shows that the translated stream is one and that streaming and buffering deliver
  the same answer.
\<close>

subsection \<open>Token counts\<close>

definition promptDetailsFromResponses :: "ResponsesInputTokensDetails option \<Rightarrow> ChatTokenDetails option" where
  "promptDetailsFromResponses src =
     (case src of
        None \<Rightarrow> None
      | Some d \<Rightarrow>
          if ritd_CachedTokens d = 0 \<and> ritd_AudioTokens d = 0 \<and> ritd_CacheCreationTokens d = 0
             \<and> ritd_CacheWriteTokens d = 0
          then None
          else Some (zero_ChatTokenDetails
                 \<lparr>ctd_CachedTokens := ritd_CachedTokens d,
                  ctd_AudioTokens := ritd_AudioTokens d,
                  ctd_CacheCreationTokens := ritd_CacheCreationTokens d,
                  ctd_CacheWriteTokens := ritd_CacheWriteTokens d\<rparr>))"

definition completionDetailsFromResponses ::
  "ResponsesOutputTokensDetails option \<Rightarrow> ChatTokenDetails option" where
  "completionDetailsFromResponses src =
     (case src of
        None \<Rightarrow> None
      | Some d \<Rightarrow>
          if rotd_ReasoningTokens d = 0 \<and> rotd_AudioTokens d = 0
             \<and> rotd_AcceptedPredictionTokens d = 0 \<and> rotd_RejectedPredictionTokens d = 0
          then None
          else Some (zero_ChatTokenDetails
                 \<lparr>ctd_ReasoningTokens := rotd_ReasoningTokens d,
                  ctd_AudioTokens := rotd_AudioTokens d,
                  ctd_AcceptedPredictionTokens := rotd_AcceptedPredictionTokens d,
                  ctd_RejectedPredictionTokens := rotd_RejectedPredictionTokens d\<rparr>))"

definition chatUsageFromResponsesUsage :: "ResponsesUsage option \<Rightarrow> ChatUsage option" where
  "chatUsageFromResponsesUsage u =
     (case u of
        None \<Rightarrow> None
      | Some u \<Rightarrow>
          let details = promptDetailsFromResponses (ru_InputTokensDetails u);
              details =
                (if ru_CacheCreationInputTokens u > 0 then
                   let d = (case details of None \<Rightarrow> zero_ChatTokenDetails | Some d \<Rightarrow> d)
                   in Some (if ctd_CacheWriteTokens d = 0 \<and> ctd_CacheCreationTokens d = 0
                            then d\<lparr>ctd_CacheCreationTokens := ru_CacheCreationInputTokens u\<rparr> else d)
                 else details)
          in Some (zero_ChatUsage
               \<lparr>cu_PromptTokens := ru_InputTokens u,
                cu_CompletionTokens := ru_OutputTokens u,
                cu_TotalTokens := ru_InputTokens u + ru_OutputTokens u,
                cu_PromptTokensDetails := details,
                cu_CompletionTokensDetails :=
                  completionDetailsFromResponses (ru_OutputTokensDetails u)\<rparr>))"

subsection \<open>Whole answers\<close>

definition responsesStatusToChatFinishReason ::
  "string \<Rightarrow> ResponsesIncompleteDetails option \<Rightarrow> ChatToolCall list \<Rightarrow> string" where
  "responsesStatusToChatFinishReason status details toolCalls =
     (if status = ''incomplete'' then
        (case details of
           Some d \<Rightarrow>
             if rid_Reason d = ''max_output_tokens'' then ''length''
             else if rid_Reason d = ''content_filter'' then ''content_filter''
             else ''stop''
         | None \<Rightarrow> ''stop'')
      else if status = ''completed'' then
        (if toolCalls \<noteq> [] then ''tool_calls'' else ''stop'')
      else ''stop'')"

text \<open>The loop over \<open>resp.Output\<close>; the accumulator holds content text, reasoning text and tool calls.\<close>

fun chat_output_loop ::
  "ResponsesOutput list \<Rightarrow> string \<times> string \<times> ChatToolCall list \<Rightarrow> string \<times> string \<times> ChatToolCall list" where
  "chat_output_loop [] acc = acc"
| "chat_output_loop (item # items) (contentText, reasoningText, toolCalls) =
     (if ro_Type item = ''message'' then
        chat_output_loop items
          (contentText @ concat (map rcp_Text
             (filter (\<lambda>part. rcp_Type part = ''output_text'' \<and> rcp_Text part \<noteq> []) (ro_Content item))),
           reasoningText, toolCalls)
      else if ro_Type item = ''function_call'' then
        chat_output_loop items
          (contentText, reasoningText,
           toolCalls @ [zero_ChatToolCall
             \<lparr>ctc_ID := ro_CallID item, ctc_Type := ''function'',
              ctc_Function := zero_ChatFunctionCall
                \<lparr>cfc_Name := ro_Name item, cfc_Arguments := ro_Arguments item\<rparr>\<rparr>])
      else if ro_Type item = ''reasoning'' then
        chat_output_loop items
          (contentText,
           reasoningText @ concat (map rs_Text
             (filter (\<lambda>s. rs_Type s = ''summary_text'' \<and> rs_Text s \<noteq> []) (ro_Summary item))),
           toolCalls)
      else chat_output_loop items (contentText, reasoningText, toolCalls))"

text \<open>\<open>newID\<close> is what \<open>generateChatCmplID\<close> would return, \<open>now\<close> the current Unix time.\<close>

definition ResponsesToChatCompletions ::
  "json_lib \<Rightarrow> string \<Rightarrow> int \<Rightarrow> ResponsesResponse \<Rightarrow> string \<Rightarrow> ChatCompletionsResponse" where
  "ResponsesToChatCompletions j newID now resp model =
     (case chat_output_loop (rr_Output resp) ([], [], []) of (contentText, reasoningText, toolCalls) \<Rightarrow>
        let msg = zero_ChatMessage\<lparr>cm_Role := ''assistant''\<rparr>;
            msg = (if toolCalls \<noteq> [] then msg\<lparr>cm_ToolCalls := toolCalls\<rparr> else msg);
            msg = (if contentText \<noteq> [] then msg\<lparr>cm_Content := jl_MarshalString j contentText\<rparr> else msg);
            msg = (if reasoningText \<noteq> [] then msg\<lparr>cm_ReasoningContent := reasoningText\<rparr> else msg);
            finishReason = responsesStatusToChatFinishReason (rr_Status resp)
                             (rr_IncompleteDetails resp) toolCalls
        in zero_ChatCompletionsResponse
             \<lparr>ccr_ID := (if rr_ID resp = [] then newID else rr_ID resp),
              ccr_Object := ''chat.completion'', ccr_Created := now, ccr_Model := model,
              ccr_ServiceTier := rr_ServiceTier resp,
              ccr_Choices := [\<lparr>cc_Index = 0, cc_Message = msg, cc_FinishReason = finishReason\<rparr>],
              ccr_Usage := chatUsageFromResponsesUsage (rr_Usage resp)\<rparr>)"

subsection \<open>Event streams: the state and its handlers\<close>

record ResponsesEventToChatState =
  rec_ID :: string
  rec_Model :: string
  rec_Created :: int
  rec_ServiceTier :: string
  rec_SentRole :: bool
  rec_SawToolCall :: bool
  rec_SawText :: bool
  rec_Finalized :: bool
  rec_NextToolCallIndex :: int
  rec_OutputIndexToToolIndex :: "int \<rightharpoonup> int"
  rec_IncludeUsage :: bool
  rec_Usage :: "ChatUsage option"

type_synonym chat_state = ResponsesEventToChatState
type_synonym chat_result = "ResponsesEventToChatState \<times> ChatCompletionsChunk list"

definition NewResponsesEventToChatState :: "string \<Rightarrow> int \<Rightarrow> chat_state" where
  "NewResponsesEventToChatState newID now =
     \<lparr>rec_ID = newID, rec_Model = [], rec_Created = now, rec_ServiceTier = [], rec_SentRole = False,
      rec_SawToolCall = False, rec_SawText = False, rec_Finalized = False, rec_NextToolCallIndex = 0,
      rec_OutputIndexToToolIndex = Map.empty, rec_IncludeUsage = False, rec_Usage = None\<rparr>"

definition makeChatDeltaChunk :: "chat_state \<Rightarrow> ChatDelta \<Rightarrow> ChatCompletionsChunk" where
  "makeChatDeltaChunk st delta =
     zero_ChatCompletionsChunk
       \<lparr>cch_ID := rec_ID st, cch_Object := ''chat.completion.chunk'', cch_Created := rec_Created st,
        cch_Model := rec_Model st, cch_ServiceTier := rec_ServiceTier st,
        cch_Choices := [\<lparr>ccc_Index = 0, ccc_Delta = delta, ccc_FinishReason = None\<rparr>]\<rparr>"

definition makeChatFinishChunk :: "chat_state \<Rightarrow> string \<Rightarrow> ChatCompletionsChunk" where
  "makeChatFinishChunk st finishReason =
     zero_ChatCompletionsChunk
       \<lparr>cch_ID := rec_ID st, cch_Object := ''chat.completion.chunk'', cch_Created := rec_Created st,
        cch_Model := rec_Model st, cch_ServiceTier := rec_ServiceTier st,
        cch_Choices := [\<lparr>ccc_Index = 0, ccc_Delta = zero_ChatDelta\<lparr>cd_Content := Some []\<rparr>,
                         ccc_FinishReason = Some finishReason\<rparr>]\<rparr>"

text \<open>The literal both ends of a stream share: the usage chunk, sent when asked for and known.\<close>

definition usage_chunks :: "chat_state \<Rightarrow> ChatCompletionsChunk list" where
  "usage_chunks st =
     (if rec_IncludeUsage st \<and> rec_Usage st \<noteq> None
      then [zero_ChatCompletionsChunk
              \<lparr>cch_ID := rec_ID st, cch_Object := ''chat.completion.chunk'', cch_Created := rec_Created st,
               cch_Model := rec_Model st, cch_ServiceTier := rec_ServiceTier st,
               cch_Choices := [], cch_Usage := rec_Usage st\<rparr>]
      else [])"

definition resToChatHandleCreated :: "ResponsesStreamEvent \<Rightarrow> chat_state \<Rightarrow> chat_result" where
  "resToChatHandleCreated evt st =
     (let st = (case re_Response evt of
                  None \<Rightarrow> st
                | Some r \<Rightarrow>
                    let st = (if rr_ID r \<noteq> [] then st\<lparr>rec_ID := rr_ID r\<rparr> else st);
                        st = (if rec_Model st = [] \<and> rr_Model r \<noteq> []
                              then st\<lparr>rec_Model := rr_Model r\<rparr> else st)
                    in if rr_ServiceTier r \<noteq> [] then st\<lparr>rec_ServiceTier := rr_ServiceTier r\<rparr> else st)
      in if rec_SentRole st then (st, [])
         else let st = st\<lparr>rec_SentRole := True\<rparr>
              in (st, [makeChatDeltaChunk st (zero_ChatDelta\<lparr>cd_Role := ''assistant''\<rparr>)]))"

definition resToChatHandleTextDelta :: "ResponsesStreamEvent \<Rightarrow> chat_state \<Rightarrow> chat_result" where
  "resToChatHandleTextDelta evt st =
     (if re_Delta evt = [] then (st, [])
      else let st = st\<lparr>rec_SawText := True\<rparr>
           in (st, [makeChatDeltaChunk st (zero_ChatDelta\<lparr>cd_Content := Some (re_Delta evt)\<rparr>)]))"

definition is_tool_item :: "ResponsesOutput \<Rightarrow> bool" where
  "is_tool_item item \<longleftrightarrow> ro_Type item = ''function_call'' \<or> ro_Type item = ''custom_tool_call''"

definition resToChatHandleOutputItemAdded :: "ResponsesStreamEvent \<Rightarrow> chat_state \<Rightarrow> chat_result" where
  "resToChatHandleOutputItemAdded evt st =
     (case re_Item evt of
        None \<Rightarrow> (st, [])
      | Some item \<Rightarrow>
          if \<not> is_tool_item item then (st, [])
          else
            let idx = rec_NextToolCallIndex st;
                st = st\<lparr>rec_SawToolCall := True,
                        rec_OutputIndexToToolIndex :=
                          (rec_OutputIndexToToolIndex st)(re_OutputIndex evt \<mapsto> idx),
                        rec_NextToolCallIndex := idx + 1\<rparr>
            in (st, [makeChatDeltaChunk st (zero_ChatDelta
                  \<lparr>cd_ToolCalls := [zero_ChatToolCall
                     \<lparr>ctc_Index := Some idx, ctc_ID := ro_CallID item, ctc_Type := ''function'',
                      ctc_Function := zero_ChatFunctionCall\<lparr>cfc_Name := ro_Name item\<rparr>\<rparr>]\<rparr>)]))"

definition resToChatHandleFuncArgsDelta :: "ResponsesStreamEvent \<Rightarrow> chat_state \<Rightarrow> chat_result" where
  "resToChatHandleFuncArgsDelta evt st =
     (if re_Delta evt = [] then (st, [])
      else case rec_OutputIndexToToolIndex st (re_OutputIndex evt) of
        None \<Rightarrow> (st, [])
      | Some idx \<Rightarrow>
          (st, [makeChatDeltaChunk st (zero_ChatDelta
             \<lparr>cd_ToolCalls := [zero_ChatToolCall
                \<lparr>ctc_Index := Some idx,
                 ctc_Function := zero_ChatFunctionCall\<lparr>cfc_Arguments := re_Delta evt\<rparr>\<rparr>]\<rparr>)]))"

definition resToChatHandleReasoningDelta :: "ResponsesStreamEvent \<Rightarrow> chat_state \<Rightarrow> chat_result" where
  "resToChatHandleReasoningDelta evt st =
     (if re_Delta evt = [] then (st, [])
      else (st, [makeChatDeltaChunk st (zero_ChatDelta\<lparr>cd_ReasoningContent := Some (re_Delta evt)\<rparr>)]))"

definition resToChatHandleCompleted :: "ResponsesStreamEvent \<Rightarrow> chat_state \<Rightarrow> chat_result" where
  "resToChatHandleCompleted evt st =
     (let st = st\<lparr>rec_Finalized := True\<rparr>;
          st = (if re_Usage evt \<noteq> None
                then st\<lparr>rec_Usage := chatUsageFromResponsesUsage (re_Usage evt)\<rparr> else st)
      in case (case re_Response evt of
                 Some r \<Rightarrow>
                   let st = (if rr_Usage r \<noteq> None
                             then st\<lparr>rec_Usage := chatUsageFromResponsesUsage (rr_Usage r)\<rparr> else st);
                       st = (if rr_ServiceTier r \<noteq> []
                             then st\<lparr>rec_ServiceTier := rr_ServiceTier r\<rparr> else st)
                   in (st,
                       if rr_Status r = ''incomplete'' then
                         (case rr_IncompleteDetails r of
                            Some d \<Rightarrow>
                              if rid_Reason d = ''max_output_tokens'' then ''length''
                              else if rid_Reason d = ''content_filter'' then ''content_filter''
                              else ''stop''
                          | None \<Rightarrow> ''stop'')
                       else if rr_Status r = ''completed'' then
                         (if rec_SawToolCall st then ''tool_calls'' else ''stop'')
                       else ''stop'')
               | None \<Rightarrow> (st, if rec_SawToolCall st then ''tool_calls'' else ''stop''))
         of (st, finishReason) \<Rightarrow> (st, [makeChatFinishChunk st finishReason] @ usage_chunks st))"

definition ResponsesEventToChatChunks :: "chat_state \<Rightarrow> ResponsesStreamEvent \<Rightarrow> chat_result" where
  "ResponsesEventToChatChunks st evt =
     (let t = re_Type evt in
      if t = ''response.created'' then resToChatHandleCreated evt st
      else if t = ''response.output_text.delta'' then resToChatHandleTextDelta evt st
      else if t = ''response.output_item.added'' then resToChatHandleOutputItemAdded evt st
      else if t = ''response.function_call_arguments.delta''
              \<or> t = ''response.custom_tool_call_input.delta'' then resToChatHandleFuncArgsDelta evt st
      else if t = ''response.reasoning_summary_text.delta''
              \<or> t = ''response.reasoning_text.delta'' then resToChatHandleReasoningDelta evt st
      else if t = ''response.reasoning_summary_text.done'' then (st, [])
      else if resp_terminal t then resToChatHandleCompleted evt st
      else (st, []))"

definition FinalizeResponsesChatStream :: "chat_state \<Rightarrow> chat_result" where
  "FinalizeResponsesChatStream st =
     (if rec_Finalized st then (st, [])
      else
        let st = st\<lparr>rec_Finalized := True\<rparr>;
            finishReason = (if rec_SawToolCall st then ''tool_calls'' else ''stop'')
        in (st, [makeChatFinishChunk st finishReason] @ usage_chunks st))"

text \<open>A whole stream: every upstream event, then the end of the upstream.\<close>

definition responses_chat_stream ::
  "chat_state \<Rightarrow> ResponsesStreamEvent list \<Rightarrow> chat_result" where
  "responses_chat_stream st evts =
     (case run_stream ResponsesEventToChatChunks st evts of (st, out) \<Rightarrow>
        case FinalizeResponsesChatStream st of (st, fin) \<Rightarrow> (st, out @ fin))"

subsection \<open>The accumulator\<close>

text \<open>
  A \<open>strings.Builder\<close> remembers the address at which it was first written and panics when it is
  written at another one. The builders of the calls live in the backing array of \<open>funcCalls\<close>, which
  \<open>append\<close> replaces when it is full; \<open>bra_array\<close> counts these replacements, \<open>bra_cap\<close> is the
  capacity, and \<open>bfc_addr\<close> the array in which the builder was first written. How far \<open>append\<close> grows
  the array is the run-time system's business: \<open>grow\<close> maps the old capacity to the new one.
\<close>

record bufferedFuncCall =
  bfc_CallID :: string
  bfc_Name :: string
  bfc_Args :: string
  bfc_addr :: "nat option"

record BufferedResponseAccumulator =
  bra_text :: string
  bra_reasoning :: string
  bra_funcCalls :: "bufferedFuncCall list"
  bra_outputIndexToFuncIdx :: "int \<rightharpoonup> nat"
  bra_array :: nat
  bra_cap :: nat

type_synonym accumulator = BufferedResponseAccumulator

definition NewBufferedResponseAccumulator :: accumulator where
  "NewBufferedResponseAccumulator =
     \<lparr>bra_text = [], bra_reasoning = [], bra_funcCalls = [], bra_outputIndexToFuncIdx = Map.empty,
      bra_array = 0, bra_cap = 0\<rparr>"

text \<open>\<open>funcCalls = append(funcCalls, c)\<close>.\<close>

definition append_call :: "(nat \<Rightarrow> nat) \<Rightarrow> bufferedFuncCall \<Rightarrow> accumulator \<Rightarrow> accumulator" where
  "append_call grow c a =
     (let n = length (bra_funcCalls a);
          a = (if n < bra_cap a then a
               else a\<lparr>bra_array := bra_array a + 1, bra_cap := max (Suc n) (grow (bra_cap a))\<rparr>)
      in a\<lparr>bra_funcCalls := bra_funcCalls a @ [c]\<rparr>)"

text \<open>\<open>funcCalls[idx].Args.WriteString(d)\<close>; \<open>None\<close> is a panic, of the index or of the builder.\<close>

definition write_args :: "nat \<Rightarrow> string \<Rightarrow> accumulator \<Rightarrow> accumulator option" where
  "write_args idx d a =
     (if idx < length (bra_funcCalls a) then
        let c = bra_funcCalls a ! idx
        in if bfc_addr c = None \<or> bfc_addr c = Some (bra_array a)
           then Some (a\<lparr>bra_funcCalls := (bra_funcCalls a)
                  [idx := c\<lparr>bfc_Args := bfc_Args c @ d, bfc_addr := Some (bra_array a)\<rparr>]\<rparr>)
           else None
      else None)"

definition ProcessEvent ::
  "(nat \<Rightarrow> nat) \<Rightarrow> accumulator \<Rightarrow> ResponsesStreamEvent \<Rightarrow> accumulator option" where
  "ProcessEvent grow a event =
     (let t = re_Type event in
      if t = ''response.output_text.delta'' then
        Some (if re_Delta event \<noteq> [] then a\<lparr>bra_text := bra_text a @ re_Delta event\<rparr> else a)
      else if t = ''response.output_item.added'' then
        (case re_Item event of
           None \<Rightarrow> Some a
         | Some item \<Rightarrow>
             if is_tool_item item then
               let idx = length (bra_funcCalls a);
                   a = a\<lparr>bra_outputIndexToFuncIdx :=
                           (bra_outputIndexToFuncIdx a)(re_OutputIndex event \<mapsto> idx)\<rparr>
               in Some (append_call grow
                    \<lparr>bfc_CallID = ro_CallID item, bfc_Name = ro_Name item, bfc_Args = [], bfc_addr = None\<rparr> a)
             else Some a)
      else if t = ''response.function_call_arguments.delta''
              \<or> t = ''response.custom_tool_call_input.delta'' then
        (if re_Delta event \<noteq> [] then
           (case bra_outputIndexToFuncIdx a (re_OutputIndex event) of
              None \<Rightarrow> Some a
            | Some idx \<Rightarrow> write_args idx (re_Delta event) a)
         else Some a)
      else if t = ''response.reasoning_summary_text.delta'' \<or> t = ''response.reasoning_text.delta'' then
        Some (if re_Delta event \<noteq> [] then a\<lparr>bra_reasoning := bra_reasoning a @ re_Delta event\<rparr> else a)
      else Some a)"

definition HasContent :: "accumulator \<Rightarrow> bool" where
  "HasContent a \<longleftrightarrow>
     length (bra_text a) > 0 \<or> length (bra_funcCalls a) > 0 \<or> length (bra_reasoning a) > 0"

definition BuildOutput :: "accumulator \<Rightarrow> ResponsesOutput list" where
  "BuildOutput a =
     (if length (bra_reasoning a) > 0
      then [zero_ResponsesOutput
              \<lparr>ro_Type := ''reasoning'',
               ro_Summary := [zero_ResponsesSummary
                 \<lparr>rs_Type := ''summary_text'', rs_Text := bra_reasoning a\<rparr>]\<rparr>]
      else [])
     @ (if length (bra_text a) > 0
        then [zero_ResponsesOutput
                \<lparr>ro_Type := ''message'', ro_Role := ''assistant'',
                 ro_Content := [zero_ResponsesContentPart
                   \<lparr>rcp_Type := ''output_text'', rcp_Text := bra_text a\<rparr>]\<rparr>]
        else [])
     @ map (\<lambda>c. zero_ResponsesOutput
              \<lparr>ro_Type := ''function_call'', ro_CallID := bfc_CallID c, ro_Name := bfc_Name c,
               ro_Arguments := bfc_Args c\<rparr>) (bra_funcCalls a)"

definition SupplementResponseOutput :: "accumulator \<Rightarrow> ResponsesResponse \<Rightarrow> ResponsesResponse" where
  "SupplementResponseOutput a resp =
     (if length (rr_Output resp) > 0 then resp
      else if \<not> HasContent a then resp
      else resp\<lparr>rr_Output := BuildOutput a\<rparr>)"

text \<open>All events of a stream, as the buffering callers feed them; \<open>None\<close> if one of them panics.\<close>

definition buffer_stream ::
  "(nat \<Rightarrow> nat) \<Rightarrow> accumulator \<Rightarrow> ResponsesStreamEvent list \<Rightarrow> accumulator option" where
  "buffer_stream grow = accepts (ProcessEvent grow)"

subsection \<open>What a client assembles\<close>

record chat_answer =
  ca_content :: string
  ca_reasoning :: string
  ca_calls :: "(string \<times> string \<times> string) list"

definition empty_answer :: chat_answer where
  "empty_answer = \<lparr>ca_content = [], ca_reasoning = [], ca_calls = []\<rparr>"

text \<open>A tool call delta either opens the next call or extends the arguments of a known one.\<close>

definition assemble_call :: "ChatToolCall \<Rightarrow> (string \<times> string \<times> string) list \<Rightarrow> (string \<times> string \<times> string) list" where
  "assemble_call tc calls =
     (case ctc_Index tc of
        None \<Rightarrow> calls
      | Some i \<Rightarrow>
          if i = int (length calls)
          then calls @ [(ctc_ID tc, cfc_Name (ctc_Function tc), cfc_Arguments (ctc_Function tc))]
          else if 0 \<le> i \<and> i < int (length calls)
          then calls[nat i := (case calls ! nat i of (cid, name, args) \<Rightarrow>
                 (cid, name, args @ cfc_Arguments (ctc_Function tc)))]
          else calls)"

definition assemble_delta :: "ChatDelta \<Rightarrow> chat_answer \<Rightarrow> chat_answer" where
  "assemble_delta d a =
     a\<lparr>ca_content := ca_content a @ (case cd_Content d of None \<Rightarrow> [] | Some s \<Rightarrow> s),
       ca_reasoning := ca_reasoning a @ (case cd_ReasoningContent d of None \<Rightarrow> [] | Some s \<Rightarrow> s),
       ca_calls := fold assemble_call (cd_ToolCalls d) (ca_calls a)\<rparr>"

definition assemble :: "ChatCompletionsChunk list \<Rightarrow> chat_answer \<Rightarrow> chat_answer" where
  "assemble chunks a = fold assemble_delta (map ccc_Delta (concat (map cch_Choices chunks))) a"

text \<open>The same view of a whole answer.\<close>

definition calls_of :: "ChatToolCall list \<Rightarrow> (string \<times> string \<times> string) list" where
  "calls_of = map (\<lambda>tc. (ctc_ID tc, cfc_Name (ctc_Function tc), cfc_Arguments (ctc_Function tc)))"

lemma assemble_simps [simp]:
  "assemble [] a = a"
  "assemble (xs @ ys) a = assemble ys (assemble xs a)"
  by (simp_all add: assemble_def)

lemma assemble_chunks [simp]:
  "assemble [makeChatDeltaChunk st d] a = assemble_delta d a"
  "assemble [makeChatFinishChunk st r] a = a"
  "assemble (usage_chunks st) a = a"
  "assemble (makeChatFinishChunk st r # usage_chunks st) a = a"
  by (simp_all add: assemble_def assemble_delta_def makeChatDeltaChunk_def makeChatFinishChunk_def usage_chunks_def zero_defs)

definition buffered_answer :: "accumulator \<Rightarrow> chat_answer" where
  "buffered_answer a =
     \<lparr>ca_content = bra_text a, ca_reasoning = bra_reasoning a,
      ca_calls = map (\<lambda>c. (bfc_CallID c, bfc_Name c, bfc_Args c)) (bra_funcCalls a)\<rparr>"

text \<open>The translator and the accumulator, fed the same events, agree.\<close>

definition chat_rel :: "accumulator \<Rightarrow> chat_state \<Rightarrow> chat_answer \<Rightarrow> bool" where
  "chat_rel a st c \<longleftrightarrow>
     c = buffered_answer a
     \<and> rec_NextToolCallIndex st = int (length (bra_funcCalls a))
     \<and> rec_OutputIndexToToolIndex st = map_option int \<circ> bra_outputIndexToFuncIdx a
     \<and> rec_SawToolCall st = (bra_funcCalls a \<noteq> [])
     \<and> (\<forall>i k. bra_outputIndexToFuncIdx a i = Some k \<longrightarrow> k < length (bra_funcCalls a))"

lemma append_call_simps [simp]:
  "bra_text (append_call grow c a) = bra_text a"
  "bra_reasoning (append_call grow c a) = bra_reasoning a"
  "bra_funcCalls (append_call grow c a) = bra_funcCalls a @ [c]"
  "bra_outputIndexToFuncIdx (append_call grow c a) = bra_outputIndexToFuncIdx a"
  by (simp_all add: append_call_def Let_def)

lemma write_args_Some:
  assumes "write_args idx d a = Some a'"
  shows "bra_text a' = bra_text a" "bra_reasoning a' = bra_reasoning a"
    "bra_outputIndexToFuncIdx a' = bra_outputIndexToFuncIdx a"
    "length (bra_funcCalls a') = length (bra_funcCalls a)" "idx < length (bra_funcCalls a)"
    "ca_calls (buffered_answer a') =
       (ca_calls (buffered_answer a))[idx := (case ca_calls (buffered_answer a) ! idx of (cid, name, args) \<Rightarrow> (cid, name, args @ d))]"
  using assms
  by (auto simp: write_args_def buffered_answer_def Let_def map_update split: if_splits)

lemma chat_rel_meta [simp]:
  "chat_rel a (st\<lparr>rec_ID := x\<rparr>) c = chat_rel a st c"
  "chat_rel a (st\<lparr>rec_Model := x\<rparr>) c = chat_rel a st c"
  "chat_rel a (st\<lparr>rec_ServiceTier := x\<rparr>) c = chat_rel a st c"
  "chat_rel a (st\<lparr>rec_SentRole := b\<rparr>) c = chat_rel a st c"
  "chat_rel a (st\<lparr>rec_SawText := b\<rparr>) c = chat_rel a st c"
  "chat_rel a (st\<lparr>rec_Finalized := b\<rparr>) c = chat_rel a st c"
  "chat_rel a (st\<lparr>rec_Usage := u\<rparr>) c = chat_rel a st c"
  by (simp_all add: chat_rel_def)

definition agrees :: "accumulator \<Rightarrow> chat_answer \<Rightarrow> chat_result \<Rightarrow> bool" where
  "agrees a c r \<longleftrightarrow> chat_rel a (fst r) (assemble (snd r) c)"

lemma agrees_created: "chat_rel a st c \<Longrightarrow> agrees a c (resToChatHandleCreated evt st)"
  by (auto simp: agrees_def resToChatHandleCreated_def assemble_delta_def zero_defs Let_def split: option.split)

lemma agrees_completed: "chat_rel a st c \<Longrightarrow> agrees a c (resToChatHandleCompleted evt st)"
  by (auto simp: agrees_def resToChatHandleCompleted_def Let_def split: option.split)

lemma agrees_added:
  assumes "chat_rel a st c" and "re_Type evt = ''response.output_item.added''" "ProcessEvent grow a evt = Some a'"
  shows "agrees a' c (resToChatHandleOutputItemAdded evt st)"
  using assms
  by (auto simp: agrees_def resToChatHandleOutputItemAdded_def ProcessEvent_def Let_def chat_rel_def
    assemble_delta_def assemble_call_def buffered_answer_def zero_defs
    split: option.splits if_splits) (blast intro: less_SucI)

lemma agrees_args:
  assumes rel: "chat_rel a st c" and ty: "re_Type evt = ''response.function_call_arguments.delta'' \<or> re_Type evt = ''response.custom_tool_call_input.delta''"
    and pr: "ProcessEvent grow a evt = Some a'"
  shows "agrees a' c (resToChatHandleFuncArgsDelta evt st)"
proof (cases "bra_outputIndexToFuncIdx a (re_OutputIndex evt)")
  case None
  then show ?thesis using assms
    by (auto simp: agrees_def resToChatHandleFuncArgsDelta_def ProcessEvent_def chat_rel_def split: if_splits)
next
  case (Some idx)
  show ?thesis
  proof (cases "re_Delta evt = []")
    case True
    then show ?thesis using assms
      by (auto simp: agrees_def resToChatHandleFuncArgsDelta_def ProcessEvent_def)
  next
    case False
    then have w: "write_args idx (re_Delta evt) a = Some a'" using pr ty Some by (auto simp: ProcessEvent_def)
    have "rec_OutputIndexToToolIndex st (re_OutputIndex evt) = Some (int idx)"
      using rel Some by (simp add: chat_rel_def)
    then show ?thesis using rel False write_args_Some [OF w]
      by (auto simp: agrees_def resToChatHandleFuncArgsDelta_def chat_rel_def assemble_delta_def assemble_call_def zero_defs
        buffered_answer_def)
  qed
qed

lemma agrees_deltas:
  assumes "chat_rel a st c"
  shows "re_Type evt = ''response.output_text.delta'' \<Longrightarrow> ProcessEvent grow a evt = Some a' \<Longrightarrow>
      agrees a' c (resToChatHandleTextDelta evt st)"
    "re_Type evt = ''response.reasoning_summary_text.delta'' \<or> re_Type evt = ''response.reasoning_text.delta'' \<Longrightarrow>
      ProcessEvent grow a evt = Some a' \<Longrightarrow> agrees a' c (resToChatHandleReasoningDelta evt st)"
  using assms
  by (auto simp: agrees_def resToChatHandleTextDelta_def resToChatHandleReasoningDelta_def ProcessEvent_def
      chat_rel_def assemble_delta_def buffered_answer_def zero_defs Let_def)

lemma agrees_step:
  assumes rel: "chat_rel a st c" and pr: "ProcessEvent grow a evt = Some a'"
  shows "agrees a' c (ResponsesEventToChatChunks st evt)"
proof -
  consider (created) "re_Type evt = ''response.created''" | (words) "re_Type evt = ''response.output_text.delta''"
    | (added) "re_Type evt = ''response.output_item.added''"
    | (args) "re_Type evt = ''response.function_call_arguments.delta'' \<or> re_Type evt = ''response.custom_tool_call_input.delta''"
    | (reasoning) "re_Type evt = ''response.reasoning_summary_text.delta'' \<or> re_Type evt = ''response.reasoning_text.delta''"
    | (other) "re_Type evt \<notin> {''response.created'', ''response.output_text.delta'', ''response.output_item.added'',
        ''response.function_call_arguments.delta'', ''response.custom_tool_call_input.delta'',
        ''response.reasoning_summary_text.delta'', ''response.reasoning_text.delta''}"
    by blast
  then show ?thesis
  proof cases
    case created
    then have "a' = a" using pr by (simp add: ProcessEvent_def)
    then show ?thesis using created agrees_created [OF rel] by (simp add: ResponsesEventToChatChunks_def)
  next
    case words
    then show ?thesis using agrees_deltas(1) [OF rel words pr] by (simp add: ResponsesEventToChatChunks_def)
  next
    case added
    then show ?thesis using agrees_added [OF rel added pr] by (simp add: ResponsesEventToChatChunks_def)
  next
    case args
    then show ?thesis using agrees_args [OF rel args pr] by (auto simp: ResponsesEventToChatChunks_def)
  next
    case reasoning
    then show ?thesis using agrees_deltas(2) [OF rel reasoning pr] by (auto simp: ResponsesEventToChatChunks_def)
  next
    case other
    then have "a' = a" using pr by (simp add: ProcessEvent_def)
    then show ?thesis using other rel agrees_completed [OF rel, of evt]
      by (simp add: ResponsesEventToChatChunks_def agrees_def Let_def)
  qed
qed

lemma accepts_assemble: "accepts (\<lambda>c ch. Some (assemble [ch] c)) c chunks = Some (assemble chunks c)"
  by (induction chunks arbitrary: c) (simp_all add: assemble_def)

interpretation chat_buffer: stream_protocol ResponsesEventToChatChunks "ProcessEvent grow"
  "\<lambda>c ch. Some (assemble [ch] c)" chat_rel for grow
  using agrees_step by unfold_locales (simp add: accepts_assemble agrees_def)

lemma chat_rel_init:
  "chat_rel NewBufferedResponseAccumulator
     ((NewResponsesEventToChatState newID now)\<lparr>rec_Model := model, rec_IncludeUsage := iu\<rparr>) empty_answer"
  by (simp add: chat_rel_def NewBufferedResponseAccumulator_def NewResponsesEventToChatState_def
      buffered_answer_def empty_answer_def fun_eq_iff)

text \<open>The finish reasons of a chunk.\<close>

definition finish_reasons :: "ChatCompletionsChunk \<Rightarrow> string list" where
  "finish_reasons ch = concat (map (\<lambda>c. case ccc_FinishReason c of None \<Rightarrow> [] | Some r \<Rightarrow> [r]) (cch_Choices ch))"

lemma finish_reasons_chunks [simp]:
  "finish_reasons (makeChatDeltaChunk st d) = []"
  "finish_reasons (makeChatFinishChunk st r) = [r]"
  "gather finish_reasons (usage_chunks st) = []"
  by (simp_all add: finish_reasons_def makeChatDeltaChunk_def makeChatFinishChunk_def usage_chunks_def)

lemma finish_reasons_handlers [simp]:
  "gather finish_reasons (snd (resToChatHandleCreated evt st)) = []"
  "gather finish_reasons (snd (resToChatHandleTextDelta evt st)) = []"
  "gather finish_reasons (snd (resToChatHandleOutputItemAdded evt st)) = []"
  "gather finish_reasons (snd (resToChatHandleFuncArgsDelta evt st)) = []"
  "gather finish_reasons (snd (resToChatHandleReasoningDelta evt st)) = []"
  by (simp_all add: resToChatHandleCreated_def resToChatHandleTextDelta_def resToChatHandleOutputItemAdded_def
    resToChatHandleFuncArgsDelta_def resToChatHandleReasoningDelta_def Let_def split: option.split)

lemma no_finish_before_terminal:
  "list_all (\<lambda>e. \<not> resp_terminal (re_Type e)) evts \<Longrightarrow>
   gather finish_reasons (snd (run_stream ResponsesEventToChatChunks st evts)) = []"
  by (induction evts arbitrary: st)
    (simp_all add: run_stream_simps ResponsesEventToChatChunks_def Let_def)

lemma completed_finish:
  assumes "re_Response evt = Some r"
  shows "gather finish_reasons (snd (resToChatHandleCompleted evt st)) =
      [responsesStatusToChatFinishReason (rr_Status r) (rr_IncompleteDetails r)
         (if rec_SawToolCall st then [zero_ChatToolCall] else [])]"
    "rec_Finalized (fst (resToChatHandleCompleted evt st))"
  using assms
  by (simp_all add: resToChatHandleCompleted_def responsesStatusToChatFinishReason_def Let_def split: option.split)

lemma finish_reason_cong:
  "(cs = []) = (ds = []) \<Longrightarrow>
   responsesStatusToChatFinishReason status details cs = responsesStatusToChatFinishReason status details ds"
  by (simp add: responsesStatusToChatFinishReason_def)

lemma chat_loop_calls:
  "chat_output_loop (map (\<lambda>c. zero_ResponsesOutput
              \<lparr>ro_Type := ''function_call'', ro_CallID := bfc_CallID c, ro_Name := bfc_Name c,
               ro_Arguments := bfc_Args c\<rparr>) calls) (t, r, tcs) =
   (t, r, tcs @ map (\<lambda>c. zero_ChatToolCall
             \<lparr>ctc_ID := bfc_CallID c, ctc_Type := ''function'',
              ctc_Function := zero_ChatFunctionCall
                \<lparr>cfc_Name := bfc_Name c, cfc_Arguments := bfc_Args c\<rparr>\<rparr>) calls)"
  by (induction calls arbitrary: tcs) simp_all

lemma chat_loop_append: "chat_output_loop (xs @ ys) acc = chat_output_loop ys (chat_output_loop xs acc)"
  by (induction xs acc rule: chat_output_loop.induct) simp_all

lemma chat_loop_supplement:
  assumes "rr_Output r = []"
  shows "chat_output_loop (rr_Output (SupplementResponseOutput a r)) ([], [], []) =
    (bra_text a, bra_reasoning a, map (\<lambda>c. zero_ChatToolCall
             \<lparr>ctc_ID := bfc_CallID c, ctc_Type := ''function'',
              ctc_Function := zero_ChatFunctionCall
                \<lparr>cfc_Name := bfc_Name c, cfc_Arguments := bfc_Args c\<rparr>\<rparr>) (bra_funcCalls a))"
  using assms
  by (auto simp: SupplementResponseOutput_def HasContent_def BuildOutput_def chat_loop_append chat_loop_calls)

subsection \<open>Streaming and buffering agree\<close>

lemma stream_then_terminal:
  assumes "list_all (\<lambda>e. \<not> resp_terminal (re_Type e)) evts" and "resp_terminal (re_Type e)"
    and "re_Response e = Some r"
  shows "let s1 = fst (run_stream ResponsesEventToChatChunks st evts)
     in snd (responses_chat_stream st (evts @ [e])) =
          snd (run_stream ResponsesEventToChatChunks st evts) @ snd (resToChatHandleCompleted e s1)"
proof -
  have "ResponsesEventToChatChunks s e = resToChatHandleCompleted e s" for s
    using assms(2) by (auto simp: ResponsesEventToChatChunks_def resp_terminal_def)
  then show ?thesis using completed_finish(2) [OF assms(3)]
    by (simp add: responses_chat_stream_def split_beta run_stream_append run_stream_simps
        FinalizeResponsesChatStream_def Let_def)
qed

definition answer_of :: "json_lib \<Rightarrow> ChatMessage \<Rightarrow> chat_answer \<Rightarrow> bool" where
  "answer_of j msg c \<longleftrightarrow>
     cm_Content msg = (if ca_content c = [] then [] else jl_MarshalString j (ca_content c))
     \<and> cm_ReasoningContent msg = ca_reasoning c \<and> calls_of (cm_ToolCalls msg) = ca_calls c"

lemma Supplement_frame [simp]:
  "rr_Status (SupplementResponseOutput a r) = rr_Status r"
  "rr_IncompleteDetails (SupplementResponseOutput a r) = rr_IncompleteDetails r"
  by (simp_all add: SupplementResponseOutput_def)

lemma buffered_choices:
  assumes "rr_Output r = []"
  shows "\<exists>msg. ccr_Choices (ResponsesToChatCompletions j newID now (SupplementResponseOutput a r) model) =
       [\<lparr>cc_Index = 0, cc_Message = msg,
         cc_FinishReason = responsesStatusToChatFinishReason (rr_Status r) (rr_IncompleteDetails r)
           (if bra_funcCalls a \<noteq> [] then [zero_ChatToolCall] else [])\<rparr>]
     \<and> answer_of j msg (buffered_answer a)"
  unfolding ResponsesToChatCompletions_def chat_loop_supplement [OF assms] prod.case Let_def
  by (simp add: answer_of_def buffered_answer_def calls_of_def zero_defs comp_def)
    (simp add: responsesStatusToChatFinishReason_def)

text \<open>
  (C5) A client that streams and a client that does not get the same answer. If the events before
  the terminal one can be buffered, and the terminal event carries a response without output, then
  the message built from the accumulator has the content, the reasoning and the tool calls (with
  their identifiers, names and arguments, in order) that a client assembles from the translated
  chunks, and the one finish reason of the stream is the finish reason of the message.
\<close>

theorem chat_streaming_equals_buffering:
  assumes "buffer_stream grow NewBufferedResponseAccumulator evts = Some a"
    and "list_all (\<lambda>e. \<not> resp_terminal (re_Type e)) evts"
    and "resp_terminal (re_Type e)" and "re_Response e = Some r" and "rr_Output r = []"
  shows "let out = snd (responses_chat_stream ((NewResponsesEventToChatState newID now)
               \<lparr>rec_Model := model, rec_IncludeUsage := iu\<rparr>) (evts @ [e]));
             choices = ccr_Choices (ResponsesToChatCompletions j newID now
               (SupplementResponseOutput a r) model)
         in \<exists>msg reason. choices = [\<lparr>cc_Index = 0, cc_Message = msg, cc_FinishReason = reason\<rparr>]
              \<and> answer_of j msg (assemble out empty_answer) \<and> gather finish_reasons out = [reason]"
proof -
  let ?s0 = "(NewResponsesEventToChatState newID now)\<lparr>rec_Model := model, rec_IncludeUsage := iu\<rparr>"
  let ?run = "run_stream ResponsesEventToChatChunks ?s0 evts"
  have rel: "chat_rel a (fst ?run) (assemble (snd ?run) empty_answer)"
    using chat_buffer.run_sim [OF chat_rel_init, of grow evts a] assms(1)
    by (auto simp: buffer_stream_def accepts_assemble)
  have ans: "assemble (snd ?run @ snd (resToChatHandleCompleted e (fst ?run))) empty_answer = buffered_answer a"
    using agrees_completed [OF rel, of e] by (simp add: agrees_def chat_rel_def)
  have saw: "rec_SawToolCall (fst ?run) = (bra_funcCalls a \<noteq> [])" using rel by (simp add: chat_rel_def)
  show ?thesis
    using stream_then_terminal [OF assms(2-4), of ?s0] ans saw no_finish_before_terminal [OF assms(2), of ?s0]
      buffered_choices [OF assms(5), of j newID now a model]
    by (auto simp: Let_def completed_finish(1) [OF assms(4)])
qed

subsection \<open>When buffering panics\<close>

definition args_ready :: "resp_up \<Rightarrow> accumulator \<Rightarrow> bool" where
  "args_ready q a \<longleftrightarrow>
     (\<forall>i. rup_item q = Some (i, ''tool_use'') \<longrightarrow>
        (\<exists>k. bra_outputIndexToFuncIdx a i = Some k \<and> k < length (bra_funcCalls a)
           \<and> (bfc_addr (bra_funcCalls a ! k) = None \<or> bfc_addr (bra_funcCalls a ! k) = Some (bra_array a))))"

lemma args_ready_write:
  assumes "args_ready q a" and "rup_item q = Some (i, ''tool_use'')"
  shows "\<exists>k a'. bra_outputIndexToFuncIdx a i = Some k \<and> write_args k d a = Some a' \<and> args_ready q a'"
proof -
  obtain k where k: "bra_outputIndexToFuncIdx a i = Some k" "k < length (bra_funcCalls a)"
      "bfc_addr (bra_funcCalls a ! k) = None \<or> bfc_addr (bra_funcCalls a ! k) = Some (bra_array a)"
    using assms by (auto simp: args_ready_def)
  then obtain a' where "write_args k d a = Some a'" by (simp add: write_args_def Let_def)
  moreover from this k have "args_ready q a'" using assms(2)
    by (auto simp: write_args_def Let_def args_ready_def)
  ultimately show ?thesis using k(1) by blast
qed

lemma args_ready_added:
  "is_tool_item item \<Longrightarrow> rup_item q = Some (i, ''tool_use'') \<Longrightarrow>
   args_ready q (append_call grow \<lparr>bfc_CallID = c, bfc_Name = n, bfc_Args = [], bfc_addr = None\<rparr>
     (a\<lparr>bra_outputIndexToFuncIdx := (bra_outputIndexToFuncIdx a)(i \<mapsto> length (bra_funcCalls a))\<rparr>))"
  by (simp add: args_ready_def)

lemma args_ready_frame [simp]:
  "args_ready q (a\<lparr>bra_text := t\<rparr>) = args_ready q a"
  "args_ready q (a\<lparr>bra_reasoning := t\<rparr>) = args_ready q a"
  "args_ready (q\<lparr>rup_started := b\<rparr>) a = args_ready q a"
  "args_ready (q\<lparr>rup_item := None\<rparr>) a"
  "args_ready (q\<lparr>rup_item := None, rup_done := b\<rparr>) a"
  "args_ready (q\<lparr>rup_item := Some (i, ''thinking'')\<rparr>) a"
  by (simp_all add: args_ready_def)

lemma args_ready_step:
  assumes ready: "args_ready q a" and up: "resp_up_step q e = Some q'"
  shows "\<exists>a'. ProcessEvent grow a e = Some a' \<and> args_ready q' a'"
proof -
  consider (added) "re_Type e = ''response.output_item.added''"
    | (args) "re_Type e = ''response.function_call_arguments.delta'' \<or> re_Type e = ''response.custom_tool_call_input.delta''"
    | (other) "re_Type e \<notin> {''response.output_item.added'',
        ''response.function_call_arguments.delta'', ''response.custom_tool_call_input.delta''}"
    by blast
  then show ?thesis
  proof cases
    case added
    show ?thesis
    proof (cases "re_Item e")
      case None
      then show ?thesis using added ready up
        by (simp add: ProcessEvent_def resp_up_step_def Let_def split: if_splits)
    next
      case (Some item)
      show ?thesis
      proof (cases "is_tool_item item")
        case True
        then have "rup_item q' = Some (re_OutputIndex e, ''tool_use'')" using Some added up
          by (auto simp: resp_up_step_def is_tool_item_def Let_def split: if_splits)
        then show ?thesis using True Some added by (simp add: ProcessEvent_def args_ready_added [OF True] Let_def)
      next
        case False
        then have "args_ready q' a" using Some added up ready
          by (auto simp: resp_up_step_def is_tool_item_def Let_def split: if_splits)
        then show ?thesis using False Some added by (simp add: ProcessEvent_def)
      qed
    qed
  next
    case args
    then have q': "q' = q" "re_Delta e = [] \<or> rup_item q = Some (re_OutputIndex e, ''tool_use'')"
      using up by (auto simp: resp_up_step_def Let_def split: if_splits)
    show ?thesis
    proof (cases "re_Delta e = []")
      case True
      then show ?thesis using args ready q' by (auto simp: ProcessEvent_def)
    next
      case False
      then show ?thesis using args q' args_ready_write [OF ready, of "re_OutputIndex e" "re_Delta e"]
        by (auto simp: ProcessEvent_def)
    qed
  next
    case other
    then have "q' \<in> {q, q\<lparr>rup_started := True\<rparr>, q\<lparr>rup_item := None\<rparr>, q\<lparr>rup_item := None, rup_done := True\<rparr>}"
      using up by (auto simp: resp_up_step_def Let_def split: if_splits)
    then have "args_ready q' a" using ready by auto
    then show ?thesis using other by (simp add: ProcessEvent_def Let_def)
  qed
qed

lemma buffer_ready:
  "args_ready q a \<Longrightarrow> accepts resp_up_step q evts = Some q' \<Longrightarrow>
   \<exists>a'. accepts (ProcessEvent grow) a evts = Some a'"
proof (induction evts arbitrary: q a)
  case (Cons e evts)
  then obtain q1 where q1: "resp_up_step q e = Some q1" "accepts resp_up_step q1 evts = Some q'"
    by (auto split: option.splits)
  obtain a1 where "ProcessEvent grow a e = Some a1" "args_ready q1 a1"
    using args_ready_step [OF Cons.prems(1) q1(1)] by blast
  then show ?case using Cons.IH q1(2) by simp
qed simp

text \<open>
  Buffering an upstream that sends argument deltas only for the item that is open never
  panics, however the run-time system grows slices.
\<close>

theorem buffering_in_order_returns:
  assumes "accepts resp_up_step resp_up_init evts = Some q"
  shows "\<exists>a. buffer_stream grow NewBufferedResponseAccumulator evts = Some a"
  using buffer_ready [OF _ assms] by (simp add: buffer_stream_def args_ready_def resp_up_init_def)

text \<open>
  The order matters: a delta for an earlier call, after a later call has made \<open>append\<close> move the
  calls, writes a builder that has been copied, and \<open>strings.Builder\<close> panics. The run-time system
  allocates one element for the first \<open>append\<close> of so large a struct.
\<close>

definition interleaved_calls :: "ResponsesStreamEvent list" where
  "interleaved_calls =
     [zero_ResponsesStreamEvent\<lparr>re_Type := ''response.output_item.added'', re_OutputIndex := 0,
        re_Item := Some (zero_ResponsesOutput\<lparr>ro_Type := ''function_call''\<rparr>)\<rparr>,
      args_delta_event 0 ''a'',
      zero_ResponsesStreamEvent\<lparr>re_Type := ''response.output_item.added'', re_OutputIndex := 1,
        re_Item := Some (zero_ResponsesOutput\<lparr>ro_Type := ''function_call''\<rparr>)\<rparr>,
      args_delta_event 0 ''b'']"

lemma interleaved_calls_panic:
  assumes "grow 0 \<le> 1"
  shows "buffer_stream grow NewBufferedResponseAccumulator interleaved_calls = None"
  using assms
  by (simp add: buffer_stream_def interleaved_calls_def args_delta_event_def ProcessEvent_def append_call_def
      write_args_def is_tool_item_def NewBufferedResponseAccumulator_def zero_defs Let_def)

subsection \<open>What a Chat Completions stream is\<close>

record chat_proto =
  cp_role :: bool
  cp_calls :: int
  cp_finished :: bool
  cp_closed :: bool

definition chat_init :: chat_proto where
  "chat_init = \<lparr>cp_role = False, cp_calls = 0, cp_finished = False, cp_closed = False\<rparr>"

definition chat_call_step :: "chat_proto \<Rightarrow> ChatToolCall \<Rightarrow> chat_proto option" where
  "chat_call_step p tc =
     (case ctc_Index tc of
        None \<Rightarrow> None
      | Some i \<Rightarrow>
          if i = cp_calls p then (if ctc_Type tc = ''function'' then Some (p\<lparr>cp_calls := cp_calls p + 1\<rparr>) else None)
          else if 0 \<le> i \<and> i < cp_calls p \<and> ctc_ID tc = [] \<and> ctc_Type tc = [] \<and> cfc_Name (ctc_Function tc) = []
          then Some p else None)"

definition chat_step :: "chat_proto \<Rightarrow> ChatCompletionsChunk \<Rightarrow> chat_proto option" where
  "chat_step p ch =
     (case cch_Choices ch of
        [] \<Rightarrow> if cp_finished p \<and> \<not> cp_closed p \<and> cch_Usage ch \<noteq> None then Some (p\<lparr>cp_closed := True\<rparr>) else None
      | [c] \<Rightarrow>
          let d = ccc_Delta c in
          if cp_finished p then None
          else if \<not> cp_role p then
            (if cd_Role d = ''assistant'' \<and> cd_Content d = None \<and> cd_ToolCalls d = [] \<and> ccc_FinishReason c = None
             then Some (p\<lparr>cp_role := True\<rparr>) else None)
          else if cd_Role d \<noteq> [] then None
          else
            (case ccc_FinishReason c of
               Some r \<Rightarrow>
                 if cd_ToolCalls d = [] \<and> r \<in> {''stop'', ''length'', ''tool_calls'', ''content_filter''}
                    \<and> (r = ''tool_calls'' \<longrightarrow> cp_calls p > 0)
                 then Some (p\<lparr>cp_finished := True\<rparr>) else None
             | None \<Rightarrow>
                 (case cd_ToolCalls d of [] \<Rightarrow> Some p | [tc] \<Rightarrow> chat_call_step p tc | _ \<Rightarrow> None))
      | _ \<Rightarrow> None)"

text \<open>The upstream: created first, nothing after the terminal event.\<close>

definition chat_up_step :: "bool \<times> bool \<Rightarrow> ResponsesStreamEvent \<Rightarrow> (bool \<times> bool) option" where
  "chat_up_step q e =
     (case q of (started, ended) \<Rightarrow>
        if ended then None
        else if re_Type e = ''response.created'' then Some (True, False)
        else if \<not> started then None
        else Some (True, resp_terminal (re_Type e)))"

definition chat_out_rel :: "bool \<times> bool \<Rightarrow> chat_state \<Rightarrow> chat_proto \<Rightarrow> bool" where
  "chat_out_rel q st p \<longleftrightarrow>
     fst q = rec_SentRole st \<and> cp_role p = rec_SentRole st
     \<and> snd q = rec_Finalized st \<and> cp_finished p = rec_Finalized st \<and> (cp_closed p \<longrightarrow> cp_finished p)
     \<and> cp_calls p = rec_NextToolCallIndex st \<and> 0 \<le> rec_NextToolCallIndex st
     \<and> rec_SawToolCall st = (0 < rec_NextToolCallIndex st)
     \<and> (\<forall>i k. rec_OutputIndexToToolIndex st i = Some k \<longrightarrow> 0 \<le> k \<and> k < rec_NextToolCallIndex st)"

definition csim_to :: "bool \<times> bool \<Rightarrow> chat_proto \<Rightarrow> chat_result \<Rightarrow> bool" where
  "csim_to q p r \<longleftrightarrow> (\<exists>p'. accepts chat_step p (snd r) = Some p' \<and> chat_out_rel q (fst r) p')"

lemma csim_created:
  assumes "chat_out_rel q st p" and "\<not> rec_Finalized st"
  shows "csim_to (True, False) p (resToChatHandleCreated evt st)"
  using assms
  by (auto simp: csim_to_def chat_out_rel_def resToChatHandleCreated_def chat_step_def makeChatDeltaChunk_def
    zero_defs Let_def split: option.split)

lemma csim_deltas:
  assumes "chat_out_rel q st p" and "\<not> rec_Finalized st" and "rec_SentRole st"
  shows "csim_to (True, False) p (resToChatHandleTextDelta evt st)"
    "csim_to (True, False) p (resToChatHandleReasoningDelta evt st)"
    "csim_to (True, False) p (resToChatHandleOutputItemAdded evt st)"
    "csim_to (True, False) p (resToChatHandleFuncArgsDelta evt st)"
proof -
  note defs = csim_to_def chat_out_rel_def chat_step_def chat_call_step_def makeChatDeltaChunk_def zero_defs Let_def
  show "csim_to (True, False) p (resToChatHandleTextDelta evt st)"
    using assms by (auto simp: defs resToChatHandleTextDelta_def)
  show "csim_to (True, False) p (resToChatHandleReasoningDelta evt st)"
    using assms by (auto simp: defs resToChatHandleReasoningDelta_def)
  show "csim_to (True, False) p (resToChatHandleOutputItemAdded evt st)"
    using assms by (fastforce simp: defs resToChatHandleOutputItemAdded_def split: option.split)
  show "csim_to (True, False) p (resToChatHandleFuncArgsDelta evt st)"
    using assms by (fastforce simp: defs resToChatHandleFuncArgsDelta_def split: option.split)
qed

lemma csim_finish:
  assumes "chat_out_rel q st p" and "\<not> rec_Finalized st" and "rec_SentRole st"
    and "r \<in> {''stop'', ''length'', ''tool_calls'', ''content_filter''}"
    and "r = ''tool_calls'' \<longrightarrow> rec_SawToolCall st"
    and "rec_Finalized st'" and "chat_out_rel q (st'\<lparr>rec_Finalized := False\<rparr>) p"
  shows "csim_to (True, True) p (st', makeChatFinishChunk st' r # usage_chunks st')"
proof -
  have "chat_step p (makeChatFinishChunk st' r) = Some (p\<lparr>cp_finished := True\<rparr>)"
    using assms by (auto simp: chat_step_def makeChatFinishChunk_def chat_out_rel_def zero_defs)
  moreover have "accepts chat_step (p\<lparr>cp_finished := True\<rparr>) (usage_chunks st') =
      Some (p\<lparr>cp_finished := True, cp_closed := (usage_chunks st' \<noteq> [])\<rparr>)"
    using assms by (auto simp: usage_chunks_def chat_step_def chat_out_rel_def)
  ultimately show ?thesis using assms by (auto simp: csim_to_def chat_out_rel_def)
qed

lemma csim_completed:
  assumes rel: "chat_out_rel q st p" and go: "\<not> rec_Finalized st" "rec_SentRole st"
  shows "csim_to (True, True) p (resToChatHandleCompleted evt st)"
proof (cases "re_Response evt")
  case None
  show ?thesis unfolding resToChatHandleCompleted_def None option.case Let_def prod.case append.simps
    by (rule csim_finish [OF rel go]) (use rel go in \<open>auto simp: chat_out_rel_def\<close>)
next
  case (Some r)
  show ?thesis unfolding resToChatHandleCompleted_def Some option.case Let_def prod.case append.simps
    by (rule csim_finish [OF rel go]) (use rel go in \<open>auto simp: chat_out_rel_def split: option.split\<close>)
qed

lemma csim_finalize:
  assumes rel: "chat_out_rel q st p" and go: "\<not> rec_Finalized st" "rec_SentRole st"
  shows "csim_to (True, True) p (FinalizeResponsesChatStream st)"
  using rel go
  by (auto simp: FinalizeResponsesChatStream_def Let_def chat_out_rel_def intro!: csim_finish [OF rel go])

lemma csim_step:
  assumes rel: "chat_out_rel q st p" and up: "chat_up_step q evt = Some q'"
  shows "csim_to q' p (ResponsesEventToChatChunks st evt)"
proof -
  have nf: "\<not> rec_Finalized st" using rel up by (auto simp: chat_up_step_def chat_out_rel_def split: prod.splits if_splits)
  show ?thesis
  proof (cases "re_Type evt = ''response.created''")
    case True
    then show ?thesis using csim_created [OF rel nf] up nf rel
      by (auto simp: ResponsesEventToChatChunks_def chat_up_step_def split: prod.splits if_splits)
  next
    case False
    then have role: "rec_SentRole st" and q': "q' = (True, resp_terminal (re_Type evt))"
      using up rel by (auto simp: chat_up_step_def chat_out_rel_def split: prod.splits if_splits)
    have refl: "csim_to (True, False) p (st, [])" using rel nf role by (auto simp: csim_to_def chat_out_rel_def)
    show ?thesis
    proof (cases "resp_terminal (re_Type evt)")
      case True
      then have "ResponsesEventToChatChunks st evt = resToChatHandleCompleted evt st"
        by (auto simp: ResponsesEventToChatChunks_def resp_terminal_def)
      then show ?thesis using csim_completed [OF rel nf role] q' True by simp
    next
      case nt: False
      then show ?thesis using False csim_deltas [OF rel nf role] refl q'
        by (simp add: ResponsesEventToChatChunks_def Let_def)
    qed
  qed
qed

interpretation chat_out: stream_protocol ResponsesEventToChatChunks chat_up_step chat_step chat_out_rel
  using csim_step [unfolded csim_to_def] by unfold_locales blast

text \<open>The whole run.\<close>

lemma chat_complete:
  assumes "accepts chat_up_step (False, False) evts = Some q" and "fst q"
  shows "\<exists>p. accepts chat_step chat_init
           (snd (responses_chat_stream ((NewResponsesEventToChatState newID now)
              \<lparr>rec_Model := model, rec_IncludeUsage := iu\<rparr>) evts)) = Some p
         \<and> cp_finished p"
proof -
  let ?s0 = "(NewResponsesEventToChatState newID now)\<lparr>rec_Model := model, rec_IncludeUsage := iu\<rparr>"
  let ?run = "run_stream ResponsesEventToChatChunks ?s0 evts"
  have "chat_out_rel (False, False) ?s0 chat_init"
    by (simp add: chat_out_rel_def NewResponsesEventToChatState_def chat_init_def)
  from chat_out.run_sim [OF this assms(1)] obtain p
    where p: "accepts chat_step chat_init (snd ?run) = Some p" "chat_out_rel q (fst ?run) p" by blast
  have "\<exists>p'. accepts chat_step p (snd (FinalizeResponsesChatStream (fst ?run))) = Some p' \<and> cp_finished p'"
  proof (cases "rec_Finalized (fst ?run)")
    case True
    then show ?thesis using p(2) by (auto simp: FinalizeResponsesChatStream_def chat_out_rel_def)
  next
    case False
    have "rec_SentRole (fst ?run)" using p(2) assms(2) by (simp add: chat_out_rel_def)
    from csim_finalize [OF p(2) False this] show ?thesis by (auto simp: csim_to_def chat_out_rel_def)
  qed
  then show ?thesis using p(1) by (auto simp: responses_chat_stream_def split_beta accepts_append)
qed

text \<open>
  For every upstream that opens with \<open>response.created\<close> and sends nothing after its terminal
  event, the translated stream followed by the finalisation is a complete Chat Completions stream:
  the role chunk first and once, tool calls numbered from 0 in order of appearance with identifier
  and name on the first delta only, argument deltas for known calls only, one chunk with one of the
  four finish reasons, \<open>tool_calls\<close> only after a tool call, then at most one usage chunk and
  nothing else.
\<close>

theorem chat_stream_well_formed:
  assumes "accepts chat_up_step (False, False) evts = Some q" and "fst q"
  shows "\<exists>p. accepts chat_step chat_init
           (snd (responses_chat_stream ((NewResponsesEventToChatState newID now)
              \<lparr>rec_Model := model, rec_IncludeUsage := iu\<rparr>) evts)) = Some p
         \<and> cp_finished p"
  using assms by (rule chat_complete)

subsection \<open>What is carried over\<close>

definition chat_text :: "ChatCompletionsChunk \<Rightarrow> string" where
  "chat_text ch = concat (map (\<lambda>c. case cd_Content (ccc_Delta c) of None \<Rightarrow> [] | Some s \<Rightarrow> s) (cch_Choices ch))"

lemma chat_text_chunks [simp]:
  "chat_text (makeChatDeltaChunk st d) = (case cd_Content d of None \<Rightarrow> [] | Some s \<Rightarrow> s)"
  "chat_text (makeChatFinishChunk st r) = []"
  "gather chat_text (usage_chunks st) = []"
  by (simp_all add: chat_text_def makeChatDeltaChunk_def makeChatFinishChunk_def usage_chunks_def)

lemma chat_text_handlers [simp]:
  "gather chat_text (snd (resToChatHandleCreated evt st)) = []"
  "gather chat_text (snd (resToChatHandleTextDelta evt st)) = re_Delta evt"
  "gather chat_text (snd (resToChatHandleOutputItemAdded evt st)) = []"
  "gather chat_text (snd (resToChatHandleFuncArgsDelta evt st)) = []"
  "gather chat_text (snd (resToChatHandleReasoningDelta evt st)) = []"
  "gather chat_text (snd (resToChatHandleCompleted evt st)) = []"
  "gather chat_text (snd (FinalizeResponsesChatStream st)) = []"
  by (simp_all add: resToChatHandleCreated_def resToChatHandleTextDelta_def resToChatHandleOutputItemAdded_def
    resToChatHandleFuncArgsDelta_def resToChatHandleReasoningDelta_def resToChatHandleCompleted_def
    FinalizeResponsesChatStream_def zero_defs Let_def split: option.split)

interpretation chat_words: stream_observer ResponsesEventToChatChunks "\<lambda>s. True" resp_text chat_text
  by unfold_locales (auto simp: ResponsesEventToChatChunks_def resp_text_def Let_def)

lemma chat_text_stream:
  "gather chat_text (snd (responses_chat_stream st evts)) = gather resp_text evts"
  by (simp add: responses_chat_stream_def split_beta chat_words.run_obs)

text \<open>
  Whatever the upstream sends, and in whatever order, the content deltas of the translated
  stream concatenate to the text deltas received.
\<close>

theorem chat_stream_text:
  "gather chat_text (snd (responses_chat_stream st evts)) = gather resp_text evts"
  by (rule chat_text_stream)

subsection \<open>Concrete runs\<close>

definition one_call_stream :: "ResponsesStreamEvent list" where
  "one_call_stream =
     [zero_ResponsesStreamEvent\<lparr>re_Type := ''response.created''\<rparr>,
      zero_ResponsesStreamEvent\<lparr>re_Type := ''response.output_text.delta'', re_Delta := ''hi''\<rparr>,
      zero_ResponsesStreamEvent\<lparr>re_Type := ''response.output_item.added'', re_OutputIndex := 4,
        re_Item := Some (zero_ResponsesOutput
          \<lparr>ro_Type := ''function_call'', ro_CallID := ''c'', ro_Name := ''f''\<rparr>)\<rparr>,
      args_delta_event 4 ''x'', args_delta_event 4 ''y'']"

lemma one_call_buffered:
  "\<exists>a. buffer_stream (\<lambda>n. 2 * n) NewBufferedResponseAccumulator one_call_stream = Some a"
  by (simp add: buffer_stream_def one_call_stream_def args_delta_event_def ProcessEvent_def append_call_def
      write_args_def is_tool_item_def NewBufferedResponseAccumulator_def zero_defs Let_def)

theorem chat_streaming_equals_buffering_witness:
  "\<exists>a. buffer_stream (\<lambda>n. 2 * n) NewBufferedResponseAccumulator one_call_stream = Some a \<and>
    (let r = zero_ResponsesResponse\<lparr>rr_Status := ''completed''\<rparr>;
         out = snd (responses_chat_stream ((NewResponsesEventToChatState ''i'' 7)
               \<lparr>rec_Model := ''m'', rec_IncludeUsage := True\<rparr>) (one_call_stream @
                 [zero_ResponsesStreamEvent\<lparr>re_Type := ''response.completed'', re_Response := Some r\<rparr>]));
         choices = ccr_Choices (ResponsesToChatCompletions json_none ''i'' 7 (SupplementResponseOutput a r) ''m'')
     in \<exists>msg reason. choices = [\<lparr>cc_Index = 0, cc_Message = msg, cc_FinishReason = reason\<rparr>]
          \<and> answer_of json_none msg (assemble out empty_answer) \<and> gather finish_reasons out = [reason])"
proof -
  obtain a where a: "buffer_stream (\<lambda>n. 2 * n) NewBufferedResponseAccumulator one_call_stream = Some a"
    using one_call_buffered by blast
  show ?thesis
    using chat_streaming_equals_buffering [OF a,
        where e = "zero_ResponsesStreamEvent\<lparr>re_Type := ''response.completed'',
                     re_Response := Some (zero_ResponsesResponse\<lparr>rr_Status := ''completed''\<rparr>)\<rparr>"
          and r = "zero_ResponsesResponse\<lparr>rr_Status := ''completed''\<rparr>"
          and newID = "''i''" and now = 7 and model = "''m''" and iu = True and j = json_none] a
    by (simp add: one_call_stream_def args_delta_event_def resp_terminal_def zero_defs Let_def)
qed

theorem buffering_in_order_returns_witness:
  "\<exists>a. buffer_stream (\<lambda>n. 2 * n) NewBufferedResponseAccumulator one_call_stream = Some a"
  by (rule buffering_in_order_returns
        [where q = "\<lparr>rup_started = True, rup_item = Some (4, ''tool_use''), rup_done = False\<rparr>"])
    (simp add: one_call_stream_def args_delta_event_def resp_up_step_def resp_up_init_def zero_defs Let_def)

theorem chat_stream_well_formed_witness:
  "\<exists>p. accepts chat_step chat_init
           (snd (responses_chat_stream ((NewResponsesEventToChatState ''i'' 7)
              \<lparr>rec_Model := ''m'', rec_IncludeUsage := True\<rparr>) one_call_stream)) = Some p
         \<and> cp_finished p"
  by (rule chat_stream_well_formed [where q = "(True, False)"])
    (simp_all add: one_call_stream_def args_delta_event_def chat_up_step_def resp_terminal_def zero_defs)

end
