(* ===== verification/Idempotency_Store.thy ===== *)
theory Idempotency_Store
  imports Relay_Prelude
begin

text \<open>
  The store behind idempotent requests: \<open>IdempotencyRecord\<close> and the interface
  \<open>IdempotencyRepository\<close> of \<open>service/idempotency.go\<close>, and its implementation on a PostgreSQL table in
  \<open>repository/idempotency_repo.go\<close>. A time is an integer (nanoseconds), and the database's \<open>NOW()\<close> an
  argument.

  The interface is a record of functions over a type of database states, as in Go. The locale
  \<open>idempotency_repository\<close> states what every implementation promises: its operations are the
  operations \<open>update_where\<close> and insertion on a map from (scope, key hash) to records. The table
  model, a list of rows with a unique index and a sequence, is shown to keep the promise.
\<close>

subsection \<open>Records and the interface\<close>

record IdempotencyRecord =
  ir_ID :: int
  ir_Scope :: string
  ir_IdempotencyKeyHash :: string
  ir_RequestFingerprint :: string
  ir_Status :: string
  ir_ResponseStatus :: "int option"
  ir_ResponseBody :: "string option"
  ir_ErrorReason :: "string option"
  ir_LockedUntil :: "int option"
  ir_ExpiresAt :: int
  ir_CreatedAt :: int
  ir_UpdatedAt :: int

definition zero_IdempotencyRecord :: IdempotencyRecord where
  [zero_defs]: "zero_IdempotencyRecord =
     \<lparr>ir_ID = 0, ir_Scope = [], ir_IdempotencyKeyHash = [], ir_RequestFingerprint = [], ir_Status = [],
      ir_ResponseStatus = None, ir_ResponseBody = None, ir_ErrorReason = None, ir_LockedUntil = None,
      ir_ExpiresAt = 0, ir_CreatedAt = 0, ir_UpdatedAt = 0\<rparr>"

definition IdempotencyStatusProcessing :: string where
  "IdempotencyStatusProcessing = ''processing''"

definition IdempotencyStatusSucceeded :: string where
  "IdempotencyStatusSucceeded = ''succeeded''"

definition IdempotencyStatusFailedRetryable :: string where
  "IdempotencyStatusFailedRetryable = ''failed_retryable''"

lemma idempotency_status_distinct [simp]:
  "IdempotencyStatusProcessing \<noteq> IdempotencyStatusSucceeded"
  "IdempotencyStatusSucceeded \<noteq> IdempotencyStatusProcessing"
  "IdempotencyStatusProcessing \<noteq> IdempotencyStatusFailedRetryable"
  "IdempotencyStatusFailedRetryable \<noteq> IdempotencyStatusProcessing"
  "IdempotencyStatusSucceeded \<noteq> IdempotencyStatusFailedRetryable"
  "IdempotencyStatusFailedRetryable \<noteq> IdempotencyStatusSucceeded"
  by (simp_all add: IdempotencyStatusProcessing_def IdempotencyStatusSucceeded_def
      IdempotencyStatusFailedRetryable_def)

record 'db IdempotencyRepository =
  repo_CreateProcessing :: "int \<Rightarrow> IdempotencyRecord \<Rightarrow> 'db \<Rightarrow> 'db \<times> bool \<times> IdempotencyRecord"
  repo_GetByScopeAndKeyHash :: "string \<Rightarrow> string \<Rightarrow> 'db \<Rightarrow> IdempotencyRecord option"
  repo_TryReclaim :: "int \<Rightarrow> int \<Rightarrow> string \<Rightarrow> int \<Rightarrow> int \<Rightarrow> int \<Rightarrow> 'db \<Rightarrow> 'db \<times> bool"
  repo_ExtendProcessingLock :: "int \<Rightarrow> int \<Rightarrow> string \<Rightarrow> int \<Rightarrow> int \<Rightarrow> 'db \<Rightarrow> 'db \<times> bool"
  repo_MarkSucceeded :: "int \<Rightarrow> int \<Rightarrow> int \<Rightarrow> string \<Rightarrow> int \<Rightarrow> 'db \<Rightarrow> 'db"
  repo_MarkFailedRetryable :: "int \<Rightarrow> int \<Rightarrow> string \<Rightarrow> int \<Rightarrow> int \<Rightarrow> 'db \<Rightarrow> 'db"
  repo_DeleteExpired :: "int \<Rightarrow> int \<Rightarrow> 'db \<Rightarrow> 'db \<times> int"

subsection \<open>What the statements of the implementation say of one row\<close>

definition record_key :: "IdempotencyRecord \<Rightarrow> string \<times> string" where
  "record_key r = (ir_Scope r, ir_IdempotencyKeyHash r)"

text \<open>The row \<open>INSERT\<close> creates: the six given columns, and the defaults of the table.\<close>

definition inserted_row :: "int \<Rightarrow> int \<Rightarrow> IdempotencyRecord \<Rightarrow> IdempotencyRecord" where
  "inserted_row rid now r =
     zero_IdempotencyRecord
       \<lparr>ir_ID := rid, ir_Scope := ir_Scope r, ir_IdempotencyKeyHash := ir_IdempotencyKeyHash r,
        ir_RequestFingerprint := ir_RequestFingerprint r, ir_Status := ir_Status r,
        ir_LockedUntil := ir_LockedUntil r, ir_ExpiresAt := ir_ExpiresAt r,
        ir_CreatedAt := now, ir_UpdatedAt := now\<rparr>"

definition reclaimable :: "int \<Rightarrow> string \<Rightarrow> int \<Rightarrow> IdempotencyRecord \<Rightarrow> bool" where
  "reclaimable rid fromStatus now r \<longleftrightarrow>
     ir_ID r = rid \<and> ir_Status r = fromStatus
     \<and> (case ir_LockedUntil r of None \<Rightarrow> True | Some l \<Rightarrow> l \<le> now)"

definition reclaimed_row :: "int \<Rightarrow> int \<Rightarrow> int \<Rightarrow> IdempotencyRecord \<Rightarrow> IdempotencyRecord" where
  "reclaimed_row dbnow newLockedUntil newExpiresAt r =
     r\<lparr>ir_Status := IdempotencyStatusProcessing, ir_LockedUntil := Some newLockedUntil,
       ir_ErrorReason := None, ir_UpdatedAt := dbnow, ir_ExpiresAt := newExpiresAt\<rparr>"

definition extendable :: "int \<Rightarrow> string \<Rightarrow> IdempotencyRecord \<Rightarrow> bool" where
  "extendable rid requestFingerprint r \<longleftrightarrow>
     ir_ID r = rid \<and> ir_Status r = IdempotencyStatusProcessing
     \<and> ir_RequestFingerprint r = requestFingerprint"

definition extended_row :: "int \<Rightarrow> int \<Rightarrow> int \<Rightarrow> IdempotencyRecord \<Rightarrow> IdempotencyRecord" where
  "extended_row dbnow newLockedUntil newExpiresAt r =
     r\<lparr>ir_LockedUntil := Some newLockedUntil, ir_ExpiresAt := newExpiresAt, ir_UpdatedAt := dbnow\<rparr>"

definition succeeded_row :: "int \<Rightarrow> int \<Rightarrow> string \<Rightarrow> int \<Rightarrow> IdempotencyRecord \<Rightarrow> IdempotencyRecord" where
  "succeeded_row dbnow responseStatus responseBody expiresAt r =
     r\<lparr>ir_Status := IdempotencyStatusSucceeded, ir_ResponseStatus := Some responseStatus,
       ir_ResponseBody := Some responseBody, ir_ErrorReason := None, ir_LockedUntil := None,
       ir_ExpiresAt := expiresAt, ir_UpdatedAt := dbnow\<rparr>"

definition failed_row :: "int \<Rightarrow> string \<Rightarrow> int \<Rightarrow> int \<Rightarrow> IdempotencyRecord \<Rightarrow> IdempotencyRecord" where
  "failed_row dbnow errorReason lockedUntil expiresAt r =
     r\<lparr>ir_Status := IdempotencyStatusFailedRetryable, ir_ErrorReason := Some errorReason,
       ir_LockedUntil := Some lockedUntil, ir_ExpiresAt := expiresAt, ir_UpdatedAt := dbnow\<rparr>"

subsection \<open>The table\<close>

text \<open>
  The rows and the next value of the sequence behind \<open>id BIGSERIAL\<close>. An \<open>INSERT\<close> that runs into the
  unique index uses up a value of the sequence too.
\<close>

record idem_table =
  it_rows :: "IdempotencyRecord list"
  it_next :: int

definition empty_table :: idem_table where
  "empty_table = \<lparr>it_rows = [], it_next = 1\<rparr>"

definition table_update :: "(IdempotencyRecord \<Rightarrow> bool) \<Rightarrow> (IdempotencyRecord \<Rightarrow> IdempotencyRecord) \<Rightarrow>
    idem_table \<Rightarrow> idem_table \<times> bool" where
  "table_update P f t =
     (t\<lparr>it_rows := map (\<lambda>r. if P r then f r else r) (it_rows t)\<rparr>, list_ex P (it_rows t))"

definition CreateProcessing ::
  "int \<Rightarrow> IdempotencyRecord \<Rightarrow> idem_table \<Rightarrow> idem_table \<times> bool \<times> IdempotencyRecord" where
  "CreateProcessing dbnow record t =
     (let rid = it_next t; t' = t\<lparr>it_next := rid + 1\<rparr> in
      if record_key record \<in> set (map record_key (it_rows t)) then (t', False, record)
      else (t'\<lparr>it_rows := it_rows t' @ [inserted_row rid dbnow record]\<rparr>, True,
            record\<lparr>ir_ID := rid, ir_CreatedAt := dbnow, ir_UpdatedAt := dbnow\<rparr>))"

definition GetByScopeAndKeyHash :: "string \<Rightarrow> string \<Rightarrow> idem_table \<Rightarrow> IdempotencyRecord option" where
  "GetByScopeAndKeyHash scope keyHash t =
     find (\<lambda>r. ir_Scope r = scope \<and> ir_IdempotencyKeyHash r = keyHash) (it_rows t)"

definition TryReclaim ::
  "int \<Rightarrow> int \<Rightarrow> string \<Rightarrow> int \<Rightarrow> int \<Rightarrow> int \<Rightarrow> idem_table \<Rightarrow> idem_table \<times> bool" where
  "TryReclaim dbnow rid fromStatus now newLockedUntil newExpiresAt t =
     table_update (reclaimable rid fromStatus now) (reclaimed_row dbnow newLockedUntil newExpiresAt) t"

definition ExtendProcessingLock ::
  "int \<Rightarrow> int \<Rightarrow> string \<Rightarrow> int \<Rightarrow> int \<Rightarrow> idem_table \<Rightarrow> idem_table \<times> bool" where
  "ExtendProcessingLock dbnow rid requestFingerprint newLockedUntil newExpiresAt t =
     table_update (extendable rid requestFingerprint) (extended_row dbnow newLockedUntil newExpiresAt) t"

definition MarkSucceeded :: "int \<Rightarrow> int \<Rightarrow> int \<Rightarrow> string \<Rightarrow> int \<Rightarrow> idem_table \<Rightarrow> idem_table" where
  "MarkSucceeded dbnow rid responseStatus responseBody expiresAt t =
     fst (table_update (\<lambda>r. ir_ID r = rid) (succeeded_row dbnow responseStatus responseBody expiresAt) t)"

definition MarkFailedRetryable :: "int \<Rightarrow> int \<Rightarrow> string \<Rightarrow> int \<Rightarrow> int \<Rightarrow> idem_table \<Rightarrow> idem_table" where
  "MarkFailedRetryable dbnow rid errorReason lockedUntil expiresAt t =
     fst (table_update (\<lambda>r. ir_ID r = rid) (failed_row dbnow errorReason lockedUntil expiresAt) t)"

text \<open>The victims are the first \<open>limit\<close> expired rows in the order of their expiry.\<close>

definition DeleteExpired :: "int \<Rightarrow> int \<Rightarrow> idem_table \<Rightarrow> idem_table \<times> int" where
  "DeleteExpired now limit t =
     (let limit = (if limit \<le> 0 then 500 else limit);
          victims = take (nat limit)
            (sort_key ir_ExpiresAt (filter (\<lambda>r. ir_ExpiresAt r \<le> now) (it_rows t)));
          dead = set (map ir_ID victims)
      in (t\<lparr>it_rows := filter (\<lambda>r. ir_ID r \<notin> dead) (it_rows t)\<rparr>,
          int (length (filter (\<lambda>r. ir_ID r \<in> dead) (it_rows t)))))"

definition idempotencyRepository :: "idem_table IdempotencyRepository" where
  "idempotencyRepository =
     \<lparr>repo_CreateProcessing = CreateProcessing,
      repo_GetByScopeAndKeyHash = GetByScopeAndKeyHash,
      repo_TryReclaim = TryReclaim,
      repo_ExtendProcessingLock = ExtendProcessingLock,
      repo_MarkSucceeded = MarkSucceeded,
      repo_MarkFailedRetryable = MarkFailedRetryable,
      repo_DeleteExpired = DeleteExpired\<rparr>"

subsection \<open>The contract\<close>

type_synonym idem_map = "string \<times> string \<rightharpoonup> IdempotencyRecord"

definition update_where :: "(IdempotencyRecord \<Rightarrow> bool) \<Rightarrow> (IdempotencyRecord \<Rightarrow> IdempotencyRecord) \<Rightarrow> idem_map \<Rightarrow> idem_map" where
  "update_where P f m = (\<lambda>k. map_option (\<lambda>r. if P r then f r else r) (m k))"

definition some_row :: "(IdempotencyRecord \<Rightarrow> bool) \<Rightarrow> idem_map \<Rightarrow> bool" where
  "some_row P m \<longleftrightarrow> (\<exists>k r. m k = Some r \<and> P r)"

locale idempotency_repository =
  fixes R :: "'db IdempotencyRepository"
    and inv :: "'db \<Rightarrow> bool"
    and rows :: "'db \<Rightarrow> idem_map"
  assumes row_key: "inv db \<Longrightarrow> rows db k = Some r \<Longrightarrow> record_key r = k \<and> 0 < ir_ID r"
    and row_id: "inv db \<Longrightarrow> rows db k = Some r \<Longrightarrow> rows db k' = Some r' \<Longrightarrow> ir_ID r = ir_ID r' \<Longrightarrow> k = k'"
    and get: "inv db \<Longrightarrow> repo_GetByScopeAndKeyHash R s h db = rows db (s, h)"
    and create_inv: "inv db \<Longrightarrow> inv (fst (repo_CreateProcessing R n r db))"
    and create_old: "inv db \<Longrightarrow> rows db (record_key r) = Some r0 \<Longrightarrow>
      rows (fst (repo_CreateProcessing R n r db)) = rows db \<and> snd (repo_CreateProcessing R n r db) = (False, r)"
    and create_new: "inv db \<Longrightarrow> rows db (record_key r) = None \<Longrightarrow>
      \<exists>rid. 0 < rid \<and> (\<forall>k r'. rows db k = Some r' \<longrightarrow> ir_ID r' \<noteq> rid)
        \<and> rows (fst (repo_CreateProcessing R n r db)) = (rows db)(record_key r \<mapsto> inserted_row rid n r)
        \<and> snd (repo_CreateProcessing R n r db) = (True, r\<lparr>ir_ID := rid, ir_CreatedAt := n, ir_UpdatedAt := n\<rparr>)"
    and reclaim: "inv db \<Longrightarrow> inv (fst (repo_TryReclaim R n rid st now l e db))
        \<and> rows (fst (repo_TryReclaim R n rid st now l e db)) =
            update_where (reclaimable rid st now) (reclaimed_row n l e) (rows db)
        \<and> snd (repo_TryReclaim R n rid st now l e db) = some_row (reclaimable rid st now) (rows db)"
    and extend: "inv db \<Longrightarrow> inv (fst (repo_ExtendProcessingLock R n rid fp l e db))
        \<and> rows (fst (repo_ExtendProcessingLock R n rid fp l e db)) =
            update_where (extendable rid fp) (extended_row n l e) (rows db)
        \<and> snd (repo_ExtendProcessingLock R n rid fp l e db) = some_row (extendable rid fp) (rows db)"
    and succeed: "inv db \<Longrightarrow> inv (repo_MarkSucceeded R n rid status body e db)
        \<and> rows (repo_MarkSucceeded R n rid status body e db) =
            update_where (\<lambda>r. ir_ID r = rid) (succeeded_row n status body e) (rows db)"
    and fail: "inv db \<Longrightarrow> inv (repo_MarkFailedRetryable R n rid reason l e db)
        \<and> rows (repo_MarkFailedRetryable R n rid reason l e db) =
            update_where (\<lambda>r. ir_ID r = rid) (failed_row n reason l e) (rows db)"
    and delete_inv: "inv db \<Longrightarrow> inv (fst (repo_DeleteExpired R now limit db))"
    and delete_rows: "inv db \<Longrightarrow> rows (fst (repo_DeleteExpired R now limit db)) k = rows db k
        \<or> rows (fst (repo_DeleteExpired R now limit db)) k = None
          \<and> (\<exists>r. rows db k = Some r \<and> ir_ExpiresAt r \<le> now)"

subsection \<open>The table keeps the contract\<close>

definition table_wf :: "idem_table \<Rightarrow> bool" where
  "table_wf t \<longleftrightarrow>
     distinct (map ir_ID (it_rows t)) \<and> distinct (map record_key (it_rows t)) \<and> 0 < it_next t
     \<and> list_all (\<lambda>r. 0 < ir_ID r \<and> ir_ID r < it_next t) (it_rows t)"

definition table_map :: "idem_table \<Rightarrow> idem_map" where
  "table_map t k = find (\<lambda>r. record_key r = k) (it_rows t)"

lemma find_unique:
  assumes "distinct (map f xs)" and "x \<in> set xs"
  shows "find (\<lambda>y. f y = f x) xs = Some x"
  using assms by (induction xs) (auto simp: image_iff)

lemma find_map_key:
  assumes "\<And>x. f (g x) = f x"
  shows "find (\<lambda>y. f y = k) (map g xs) = map_option g (find (\<lambda>y. f y = k) xs)"
  by (induction xs) (simp_all add: assms)

lemma find_filter_keep:
  assumes "distinct (map f xs)"
  shows "find (\<lambda>y. f y = k) (filter Q xs) =
    (case find (\<lambda>y. f y = k) xs of None \<Rightarrow> None | Some x \<Rightarrow> if Q x then Some x else None)"
  using assms by (induction xs) (auto simp: find_None_iff image_iff split: option.split,
    use find_SomeD in \<open>fastforce+\<close>)

lemma table_map_iff:
  "table_wf t \<Longrightarrow> table_map t k = Some r \<longleftrightarrow> r \<in> set (it_rows t) \<and> record_key r = k"
  unfolding table_wf_def table_map_def using find_SomeD find_unique [of record_key] by fastforce

text \<open>An update by rows keeps identifiers and keys.\<close>

lemma row_functions_keep [simp]:
  "ir_ID (reclaimed_row n l e r) = ir_ID r" "record_key (reclaimed_row n l e r) = record_key r"
  "ir_ID (extended_row n l e r) = ir_ID r" "record_key (extended_row n l e r) = record_key r"
  "ir_ID (succeeded_row n s b e r) = ir_ID r" "record_key (succeeded_row n s b e r) = record_key r"
  "ir_ID (failed_row n x l e r) = ir_ID r" "record_key (failed_row n x l e r) = record_key r"
  "ir_ID (inserted_row i n r) = i" "record_key (inserted_row i n r) = record_key r"
  by (simp_all add: reclaimed_row_def extended_row_def succeeded_row_def failed_row_def
      inserted_row_def record_key_def)

lemma table_update_refines:
  assumes "\<And>r. ir_ID (f r) = ir_ID r" and "\<And>r. record_key (f r) = record_key r" and wf: "table_wf t"
  shows "table_wf (fst (table_update P f t))"
    "table_map (fst (table_update P f t)) = update_where P f (table_map t)"
    "snd (table_update P f t) = some_row P (table_map t)"
proof -
  let ?g = "\<lambda>r. if P r then f r else r"
  have g: "ir_ID \<circ> ?g = ir_ID" "record_key \<circ> ?g = record_key" using assms(1,2) by (auto simp: fun_eq_iff)
  show "table_wf (fst (table_update P f t))"
    using wf g assms(1) by (auto simp: table_wf_def table_update_def list_all_iff)
  show "table_map (fst (table_update P f t)) = update_where P f (table_map t)"
    using assms(2) by (simp add: fun_eq_iff table_map_def table_update_def update_where_def find_map_key)
  show "snd (table_update P f t) = some_row P (table_map t)"
    using wf by (auto simp: table_update_def some_row_def list_ex_iff table_map_iff) (metis surj_pair)
qed

lemma table_create_old:
  assumes "table_wf t" and "table_map t (record_key r) = Some r0"
  shows "table_map (fst (CreateProcessing n r t)) = table_map t" "snd (CreateProcessing n r t) = (False, r)"
proof -
  have "r0 \<in> set (it_rows t)" "record_key r0 = record_key r" using assms by (simp_all add: table_map_iff)
  then have "record_key r \<in> record_key ` set (it_rows t)" by (metis imageI)
  then show "table_map (fst (CreateProcessing n r t)) = table_map t" "snd (CreateProcessing n r t) = (False, r)"
    by (simp_all add: CreateProcessing_def table_map_def fun_eq_iff Let_def)
qed

lemma table_create_new:
  assumes wf: "table_wf t" and none: "table_map t (record_key r) = None"
  shows "\<exists>rid. 0 < rid \<and> (\<forall>k r'. table_map t k = Some r' \<longrightarrow> ir_ID r' \<noteq> rid)
    \<and> table_map (fst (CreateProcessing n r t)) = (table_map t)(record_key r \<mapsto> inserted_row rid n r)
    \<and> snd (CreateProcessing n r t) = (True, r\<lparr>ir_ID := rid, ir_CreatedAt := n, ir_UpdatedAt := n\<rparr>)"
proof (intro exI conjI)
  have nin: "record_key r \<notin> record_key ` set (it_rows t)"
    using none by (auto simp: table_map_def find_None_iff)
  then have eq: "CreateProcessing n r t =
      (t\<lparr>it_next := it_next t + 1, it_rows := it_rows t @ [inserted_row (it_next t) n r]\<rparr>, True,
       r\<lparr>ir_ID := it_next t, ir_CreatedAt := n, ir_UpdatedAt := n\<rparr>)"
    by (simp add: CreateProcessing_def Let_def)
  show "0 < it_next t" using wf by (simp add: table_wf_def)
  show "\<forall>k r'. table_map t k = Some r' \<longrightarrow> ir_ID r' \<noteq> it_next t"
    using wf by (auto simp: table_map_iff) (auto simp: table_wf_def list_all_iff)
  have "find P (xs @ [y]) = (case find P xs of None \<Rightarrow> if P y then Some y else None | Some x \<Rightarrow> Some x)"
    for P :: "IdempotencyRecord \<Rightarrow> bool" and xs y by (induction xs) auto
  then show "table_map (fst (CreateProcessing n r t)) = (table_map t)(record_key r \<mapsto> inserted_row (it_next t) n r)"
    using none by (auto simp: eq fun_eq_iff table_map_def split: option.split)
  show "snd (CreateProcessing n r t) = (True, r\<lparr>ir_ID := it_next t, ir_CreatedAt := n, ir_UpdatedAt := n\<rparr>)"
    by (simp add: eq)
qed

lemma table_create_wf: "table_wf t \<Longrightarrow> table_wf (fst (CreateProcessing n r t))"
  by (auto simp: table_wf_def CreateProcessing_def Let_def list_all_iff image_iff)

lemma table_delete_wf: "table_wf t \<Longrightarrow> table_wf (fst (DeleteExpired now limit t))"
  by (auto simp: table_wf_def DeleteExpired_def Let_def list_all_iff distinct_map inj_on_def)

lemma table_delete_rows:
  assumes wf: "table_wf t"
  shows "table_map (fst (DeleteExpired now limit t)) k = table_map t k
     \<or> table_map (fst (DeleteExpired now limit t)) k = None
       \<and> (\<exists>r. table_map t k = Some r \<and> ir_ExpiresAt r \<le> now)"
proof -
  define dead where "dead = set (map ir_ID (take (nat (if limit \<le> 0 then 500 else limit))
      (sort_key ir_ExpiresAt (filter (\<lambda>r. ir_ExpiresAt r \<le> now) (it_rows t)))))"
  have sub: "\<exists>r \<in> set (it_rows t). ir_ID r = i \<and> ir_ExpiresAt r \<le> now" if "i \<in> dead" for i
    using that unfolding dead_def by (auto dest!: in_set_takeD)
  have "table_map (fst (DeleteExpired now limit t)) k =
      (case table_map t k of None \<Rightarrow> None | Some x \<Rightarrow> if ir_ID x \<notin> dead then Some x else None)"
    using wf unfolding dead_def
    by (simp add: DeleteExpired_def Let_def table_map_def table_wf_def find_filter_keep split: option.split)
  moreover have "ir_ExpiresAt r \<le> now" if "table_map t k = Some r" "ir_ID r \<in> dead" for r
  proof -
    from sub [OF that(2)] obtain r' where r': "r' \<in> set (it_rows t)" "ir_ID r' = ir_ID r" "ir_ExpiresAt r' \<le> now" by blast
    moreover have "r \<in> set (it_rows t)" using that(1) wf by (simp add: table_map_iff)
    ultimately have "r' = r" using wf by (auto simp: table_wf_def distinct_map dest: inj_onD)
    then show ?thesis using r' by simp
  qed
  ultimately show ?thesis by (auto split: option.split)
qed

interpretation pg: idempotency_repository idempotencyRepository table_wf table_map
proof (unfold_locales, goal_cases)
  case (1 db k r)
  then show ?case by (auto simp: table_map_iff) (auto simp: table_wf_def list_all_iff)
next
  case (2 db k r k' r')
  then show ?case by (auto simp: table_map_iff table_wf_def distinct_map dest: inj_onD)
next
  case (3 db s h)
  then show ?case
    by (simp add: idempotencyRepository_def GetByScopeAndKeyHash_def table_map_def record_key_def)
next
  case (4 db n r)
  then show ?case by (simp add: idempotencyRepository_def table_create_wf)
next
  case (5 db r r0 n)
  then show ?case by (simp add: idempotencyRepository_def table_create_old)
next
  case (6 db r n)
  then show ?case
    unfolding idempotencyRepository_def IdempotencyRepository.simps by (rule table_create_new)
next
  case (7 db n rid st now l e)
  then show ?case by (simp add: idempotencyRepository_def TryReclaim_def table_update_refines)
next
  case (8 db n rid fp l e)
  then show ?case by (simp add: idempotencyRepository_def ExtendProcessingLock_def table_update_refines)
next
  case (9 db n rid status body e)
  then show ?case by (simp add: idempotencyRepository_def MarkSucceeded_def table_update_refines)
next
  case (10 db n rid reason l e)
  then show ?case by (simp add: idempotencyRepository_def MarkFailedRetryable_def table_update_refines)
next
  case (11 db now limit)
  then show ?case by (simp add: idempotencyRepository_def table_delete_wf)
next
  case (12 db now limit k)
  then show ?case by (simp add: idempotencyRepository_def table_delete_rows)
qed

lemma empty_table_wf [simp]: "table_wf empty_table"
  by (simp add: table_wf_def empty_table_def)

lemma empty_table_map [simp]: "table_map empty_table k = None"
  by (simp add: table_map_def empty_table_def)

end
