(* ===== verification/Idempotency.thy ===== *)
theory Idempotency
  imports Idempotency_Store
begin

text \<open>
  \<open>service/idempotency.go\<close>: the coordinator that runs a request at most once per idempotency key.
  \<open>Execute\<close> talks to the store several times, and other requests run in between. It is modelled as a
  machine: a program counter \<open>exec_pc\<close> names the call that comes next and carries the local
  variables that are live there, and one definition per stretch of code between two calls computes
  the next program counter from the reply. \<open>coord_step\<close> makes one call, \<open>Execute\<close> runs the machine
  without interruption, and \<open>idem_reach\<close> interleaves the calls of any number of requests.

  A call of the store may fail before or after it took effect. The library functions the source
  calls (\<open>encoding/json\<close>, \<open>crypto/sha256\<close>, \<open>strings.ToUpper\<close>), the redaction of \<open>util/logredact\<close> and
  the caller's error type are fields of a record argument. Audit log and metrics are left out.
\<close>

subsection \<open>UTF-8, as package unicode/utf8 validates it\<close>

definition cont_byte :: "nat \<Rightarrow> bool" where
  "cont_byte b \<longleftrightarrow> 0x80 \<le> b \<and> b \<le> 0xBF"

text \<open>
  The length of the encoding at the front: one byte below 0x80, or a leading byte with the range its
  second byte must fall into, as in the table of the package; 0 if the front is no encoding.
\<close>

definition second_range :: "nat \<Rightarrow> nat \<times> nat" where
  "second_range b = (if b = 0xE0 then (0xA0, 0xBF) else if b = 0xED then (0x80, 0x9F)
     else if b = 0xF0 then (0x90, 0xBF) else if b = 0xF4 then (0x80, 0x8F) else (0x80, 0xBF))"

fun rune_len :: "nat list \<Rightarrow> nat" where
  "rune_len [] = 0"
| "rune_len (b # bs) =
     (if b < 0x80 then 1
      else if b < 0xC2 \<or> 0xF4 < b then 0
      else case bs of
        [] \<Rightarrow> 0
      | c # cs \<Rightarrow>
          if c < fst (second_range b) \<or> snd (second_range b) < c then 0
          else if b < 0xE0 then 2
          else case cs of
            [] \<Rightarrow> 0
          | d # ds \<Rightarrow>
              if \<not> cont_byte d then 0
              else if b < 0xF0 then 3
              else case ds of [] \<Rightarrow> 0 | e # es \<Rightarrow> if cont_byte e then 4 else 0)"

lemma rune_len_bounds: "rune_len bs \<le> 4" "rune_len bs \<le> length bs"
  by (cases bs; simp split: list.split)+

function valid_bytes :: "nat list \<Rightarrow> bool" where
  "valid_bytes bs =
     (if bs = [] then True else if rune_len bs = 0 then False else valid_bytes (drop (rune_len bs) bs))"
  by auto
termination by (relation "measure length") auto

declare valid_bytes.simps [simp del]

definition ValidString :: "string \<Rightarrow> bool" where
  "ValidString s = valid_bytes (map of_char s)"

function truncate_loop :: "string \<Rightarrow> nat \<Rightarrow> string" where
  "truncate_loop s maxBytes =
     (if 0 < maxBytes \<and> \<not> ValidString (take maxBytes s) then truncate_loop s (maxBytes - 1)
      else take maxBytes s)"
  by auto
termination by (relation "measure snd") auto

declare truncate_loop.simps [simp del]

definition truncateUTF8 :: "string \<Rightarrow> int \<Rightarrow> string" where
  "truncateUTF8 s maxBytes =
     (if maxBytes \<le> 0 \<or> int (length s) \<le> maxBytes then s else truncate_loop s (nat maxBytes))"

subsection \<open>Keys, fingerprints and stored responses\<close>

record ('v, 'e) idem_lib =
  il_Marshal :: "'v \<Rightarrow> string option"
  il_Unmarshal :: "string \<Rightarrow> 'v option"
  il_EmptyObject :: 'v
  il_Sha256Hex :: "string \<Rightarrow> string"
  il_ToUpper :: "string \<Rightarrow> string"
  il_RedactText :: "string \<Rightarrow> string"
  il_Reason :: "'e \<Rightarrow> string"

datatype 'e idem_error =
    ExecutorNil
  | ErrIdempotencyKeyRequired
  | ErrIdempotencyKeyInvalid
  | ErrIdempotencyKeyConflict
  | ErrIdempotencyInProgress "int option"     \<comment> \<open>\<open>retry_after\<close> metadata\<close>
  | ErrIdempotencyRetryBackoff "int option"
  | ErrIdempotencyStoreUnavail
  | ErrIdempotencyInvalidPayload
  | ScopeRequired
  | ExecError 'e                              \<comment> \<open>the error of the executed function\<close>

record IdempotencyConfig =
  ic_DefaultTTL :: int
  ic_SystemOperationTTL :: int
  ic_ProcessingTimeout :: int
  ic_FailedRetryBackoff :: int
  ic_MaxStoredResponseLen :: int
  ic_ObserveOnly :: bool

definition time_Second :: int where
  "time_Second = 1000000000"

definition DefaultIdempotencyConfig :: IdempotencyConfig where
  "DefaultIdempotencyConfig =
     \<lparr>ic_DefaultTTL = 24 * 3600 * time_Second, ic_SystemOperationTTL = 3600 * time_Second,
      ic_ProcessingTimeout = 30 * time_Second, ic_FailedRetryBackoff = 5 * time_Second,
      ic_MaxStoredResponseLen = 64 * 1024, ic_ObserveOnly = True\<rparr>"

record 'v IdempotencyExecuteOptions =
  io_Scope :: string
  io_ActorScope :: string
  io_Method :: string
  io_Route :: string
  io_IdempotencyKey :: string
  io_Payload :: 'v
  io_TTL :: int
  io_RequireKey :: bool

record 'v IdempotencyExecuteResult =
  ier_Data :: 'v
  ier_Replayed :: bool

text \<open>
  The source checks the runes of the key. A byte outside ASCII belongs to a rune above 127, or to an
  invalid encoding that reads as U+FFFD: checking the bytes is the same.
\<close>

definition NormalizeIdempotencyKey :: "string \<Rightarrow> 'e idem_error + string" where
  "NormalizeIdempotencyKey raw =
     (let key = TrimSpace raw in
      if key = [] then Inr []
      else if length key > 128 then Inl ErrIdempotencyKeyInvalid
      else if list_ex (\<lambda>r. of_char r < (33::nat) \<or> of_char r > (126::nat)) key
      then Inl ErrIdempotencyKeyInvalid
      else Inr key)"

definition HashIdempotencyKey :: "('v, 'e) idem_lib \<Rightarrow> string \<Rightarrow> string" where
  "HashIdempotencyKey lib key = il_Sha256Hex lib key"

definition newline :: string where
  "newline = [byte 10]"

definition BuildIdempotencyFingerprint ::
  "('v, 'e) idem_lib \<Rightarrow> string \<Rightarrow> string \<Rightarrow> string \<Rightarrow> 'v \<Rightarrow> 'e idem_error + string" where
  "BuildIdempotencyFingerprint lib httpMethod route actorScope payload =
     (let httpMethod = (if httpMethod = [] then ''POST'' else httpMethod);
          route = (if route = [] then ''/'' else route);
          actorScope = (if actorScope = [] then ''anonymous'' else actorScope)
      in case il_Marshal lib payload of
           None \<Rightarrow> Inl ErrIdempotencyInvalidPayload
         | Some raw \<Rightarrow>
             Inr (il_Sha256Hex lib (il_ToUpper lib httpMethod @ newline @ route @ newline
                    @ actorScope @ newline @ raw)))"

text \<open>\<open>int(lockedUntil.Sub(now).Seconds())\<close>, at least 1.\<close>

definition conflictWithRetryAfter :: "(int option \<Rightarrow> 'e idem_error) \<Rightarrow> int option \<Rightarrow> int \<Rightarrow> 'e idem_error" where
  "conflictWithRetryAfter base lockedUntil now =
     (case lockedUntil of
        None \<Rightarrow> base None
      | Some l \<Rightarrow>
          let sec = (l - now) div time_Second
          in base (Some (if sec \<le> 0 then 1 else sec)))"

definition truncated_mark :: string where
  "truncated_mark = ''...(truncated)''"

definition marshalStoredResponse ::
  "('v, 'e) idem_lib \<Rightarrow> IdempotencyConfig \<Rightarrow> 'v \<Rightarrow> string option" where
  "marshalStoredResponse lib cfg data =
     (case il_Marshal lib data of
        None \<Rightarrow> None
      | Some raw \<Rightarrow>
          let redacted = il_RedactText lib raw
          in Some (if ic_MaxStoredResponseLen cfg > 0
                      \<and> int (length redacted) > ic_MaxStoredResponseLen cfg
                   then truncateUTF8 redacted (ic_MaxStoredResponseLen cfg) @ truncated_mark
                   else redacted))"

definition decodeStoredResponse :: "('v, 'e) idem_lib \<Rightarrow> string option \<Rightarrow> 'v option" where
  "decodeStoredResponse lib stored =
     (case stored of
        None \<Rightarrow> Some (il_EmptyObject lib)
      | Some body \<Rightarrow>
          if TrimSpace body = [] then Some (il_EmptyObject lib) else il_Unmarshal lib body)"

subsection \<open>The stretches of Execute\<close>

record exec_locals =
  xl_Scope :: string
  xl_KeyHash :: string
  xl_Fingerprint :: string
  xl_Now :: int
  xl_ExpiresAt :: int
  xl_LockedUntil :: int

datatype ('v, 'e) exec_pc =
    BareExecute                                    \<comment> \<open>\<open>execute(ctx)\<close> without a key\<close>
  | Claiming exec_locals                           \<comment> \<open>\<open>repo.CreateProcessing\<close>\<close>
  | Looking exec_locals                            \<comment> \<open>\<open>repo.GetByScopeAndKeyHash\<close>\<close>
  | ReclaimingExpired exec_locals IdempotencyRecord \<comment> \<open>\<open>repo.TryReclaim\<close> of an expired record\<close>
  | LookingAgain exec_locals                       \<comment> \<open>the second \<open>repo.GetByScopeAndKeyHash\<close>\<close>
  | Reclaiming exec_locals IdempotencyRecord       \<comment> \<open>\<open>repo.TryReclaim\<close> of a failed record\<close>
  | Executing exec_locals int                      \<comment> \<open>\<open>execute\<close> for the claimed record\<close>
  | MarkingFailed exec_locals int string int 'e    \<comment> \<open>\<open>repo.MarkFailedRetryable\<close>\<close>
  | MarkingSucceeded exec_locals int string 'v     \<comment> \<open>\<open>repo.MarkSucceeded\<close>\<close>
  | Finished "'e idem_error + 'v IdempotencyExecuteResult"

definition result_of :: "'v \<Rightarrow> bool \<Rightarrow> 'v IdempotencyExecuteResult" where
  "result_of d replayed = \<lparr>ier_Data = d, ier_Replayed = replayed\<rparr>"

record 'db IdempotencyCoordinator =
  co_repo :: "'db IdempotencyRepository option"
  co_cfg :: IdempotencyConfig

text \<open>Up to the first call; \<open>hasExecute\<close> says that the function to execute is not nil.\<close>

definition Execute_start ::
  "('v, 'e) idem_lib \<Rightarrow> 'db IdempotencyCoordinator \<Rightarrow> bool \<Rightarrow> 'v IdempotencyExecuteOptions \<Rightarrow> int \<Rightarrow>
   ('v, 'e) exec_pc" where
  "Execute_start lib c hasExecute opts now =
     (if \<not> hasExecute then Finished (Inl ExecutorNil)
      else case NormalizeIdempotencyKey (io_IdempotencyKey opts) of
        Inl err \<Rightarrow> Finished (Inl err)
      | Inr key \<Rightarrow>
          if key = [] then
            (if io_RequireKey opts \<and> \<not> ic_ObserveOnly (co_cfg c)
             then Finished (Inl ErrIdempotencyKeyRequired) else BareExecute)
          else if Option.is_none (co_repo c) then Finished (Inl ErrIdempotencyStoreUnavail)
          else if io_Scope opts = [] then Finished (Inl ScopeRequired)
          else case BuildIdempotencyFingerprint lib (io_Method opts) (io_Route opts)
                      (io_ActorScope opts) (io_Payload opts) of
            Inl err \<Rightarrow> Finished (Inl err)
          | Inr fingerprint \<Rightarrow>
              let ttl = (if io_TTL opts \<le> 0 then ic_DefaultTTL (co_cfg c) else io_TTL opts)
              in Claiming
                   \<lparr>xl_Scope = io_Scope opts, xl_KeyHash = HashIdempotencyKey lib key,
                    xl_Fingerprint = fingerprint, xl_Now = now, xl_ExpiresAt = now + ttl,
                    xl_LockedUntil = now + ic_ProcessingTimeout (co_cfg c)\<rparr>)"

definition claim_record :: "exec_locals \<Rightarrow> IdempotencyRecord" where
  "claim_record x =
     zero_IdempotencyRecord
       \<lparr>ir_Scope := xl_Scope x, ir_IdempotencyKeyHash := xl_KeyHash x,
        ir_RequestFingerprint := xl_Fingerprint x, ir_Status := IdempotencyStatusProcessing,
        ir_LockedUntil := Some (xl_LockedUntil x), ir_ExpiresAt := xl_ExpiresAt x\<rparr>"

text \<open>The guard \<open>record.ID == 0\<close> in front of the execution.\<close>

definition start_execute :: "exec_locals \<Rightarrow> int \<Rightarrow> ('v, 'e) exec_pc" where
  "start_execute x rid = (if rid = 0 then Finished (Inl ErrIdempotencyStoreUnavail) else Executing x rid)"

text \<open>A reply of the store: \<open>None\<close> is an error.\<close>

definition after_create ::
  "exec_locals \<Rightarrow> (bool \<times> IdempotencyRecord) option \<Rightarrow> ('v, 'e) exec_pc" where
  "after_create x reply =
     (case reply of
        None \<Rightarrow> Finished (Inl ErrIdempotencyStoreUnavail)
      | Some (owner, record) \<Rightarrow> if owner then start_execute x (ir_ID record) else Looking x)"

text \<open>The switch on the status of the existing record.\<close>

definition check_status ::
  "('v, 'e) idem_lib \<Rightarrow> exec_locals \<Rightarrow> IdempotencyRecord \<Rightarrow> ('v, 'e) exec_pc" where
  "check_status lib x existing =
     (if ir_Status existing = IdempotencyStatusSucceeded then
        (case decodeStoredResponse lib (ir_ResponseBody existing) of
           None \<Rightarrow> Finished (Inl ErrIdempotencyStoreUnavail)
         | Some d \<Rightarrow> Finished (Inr (result_of d True)))
      else if ir_Status existing = IdempotencyStatusProcessing then
        Finished (Inl (conflictWithRetryAfter ErrIdempotencyInProgress (ir_LockedUntil existing) (xl_Now x)))
      else if ir_Status existing = IdempotencyStatusFailedRetryable then
        (if (case ir_LockedUntil existing of None \<Rightarrow> False | Some l \<Rightarrow> l > xl_Now x)
         then Finished (Inl (conflictWithRetryAfter ErrIdempotencyRetryBackoff
                (ir_LockedUntil existing) (xl_Now x)))
         else Reclaiming x existing)
      else Finished (Inl ErrIdempotencyKeyConflict))"

definition after_get ::
  "('v, 'e) idem_lib \<Rightarrow> exec_locals \<Rightarrow> IdempotencyRecord option option \<Rightarrow> ('v, 'e) exec_pc" where
  "after_get lib x reply =
     (case reply of
        None \<Rightarrow> Finished (Inl ErrIdempotencyStoreUnavail)
      | Some None \<Rightarrow> Finished (Inl ErrIdempotencyStoreUnavail)
      | Some (Some existing) \<Rightarrow>
          if ir_RequestFingerprint existing \<noteq> xl_Fingerprint x
          then Finished (Inl ErrIdempotencyKeyConflict)
          else if ir_ExpiresAt existing \<le> xl_Now x then ReclaimingExpired x existing
          else check_status lib x existing)"

definition after_reclaim_expired ::
  "exec_locals \<Rightarrow> IdempotencyRecord \<Rightarrow> bool option \<Rightarrow> ('v, 'e) exec_pc" where
  "after_reclaim_expired x existing reply =
     (case reply of
        None \<Rightarrow> Finished (Inl ErrIdempotencyStoreUnavail)
      | Some taken \<Rightarrow> if taken then start_execute x (ir_ID existing) else LookingAgain x)"

definition after_get_latest ::
  "('v, 'e) idem_lib \<Rightarrow> exec_locals \<Rightarrow> IdempotencyRecord option option \<Rightarrow> ('v, 'e) exec_pc" where
  "after_get_latest lib x reply =
     (case reply of
        None \<Rightarrow> Finished (Inl ErrIdempotencyStoreUnavail)
      | Some None \<Rightarrow> Finished (Inl ErrIdempotencyStoreUnavail)
      | Some (Some latest) \<Rightarrow>
          if ir_RequestFingerprint latest \<noteq> xl_Fingerprint x
          then Finished (Inl ErrIdempotencyKeyConflict)
          else check_status lib x latest)"

definition after_reclaim ::
  "exec_locals \<Rightarrow> IdempotencyRecord \<Rightarrow> bool option \<Rightarrow> ('v, 'e) exec_pc" where
  "after_reclaim x existing reply =
     (case reply of
        None \<Rightarrow> Finished (Inl ErrIdempotencyStoreUnavail)
      | Some taken \<Rightarrow>
          if \<not> taken
          then Finished (Inl (conflictWithRetryAfter ErrIdempotencyInProgress
                 (ir_LockedUntil existing) (xl_Now x)))
          else start_execute x (ir_ID existing))"

text \<open>The outcome of the executed function: an error and the time it came back, or data.\<close>

definition after_execute ::
  "('v, 'e) idem_lib \<Rightarrow> IdempotencyConfig \<Rightarrow> exec_locals \<Rightarrow> int \<Rightarrow> 'e \<times> int + 'v \<Rightarrow> ('v, 'e) exec_pc" where
  "after_execute lib cfg x rid outcome =
     (case outcome of
        Inl (execErr, now) \<Rightarrow>
          let backoffUntil = now + ic_FailedRetryBackoff cfg;
              reason = il_Reason lib execErr;
              reason = (if reason = [] then ''EXECUTION_FAILED'' else reason)
          in MarkingFailed x rid reason backoffUntil execErr
      | Inr data \<Rightarrow>
          (case marshalStoredResponse lib cfg data of
             None \<Rightarrow> Finished (Inl ErrIdempotencyStoreUnavail)
           | Some storedBody \<Rightarrow> MarkingSucceeded x rid storedBody data))"

definition after_mark_succeeded :: "'v \<Rightarrow> bool \<Rightarrow> ('v, 'e) exec_pc" where
  "after_mark_succeeded data ok =
     (if ok then Finished (Inr (result_of data False)) else Finished (Inl ErrIdempotencyStoreUnavail))"

subsection \<open>One call\<close>

datatype fault = NoFault | FailBefore | FailAfter

text \<open>What the environment decides about one call.\<close>

record ('v, 'e) choice =
  ch_fault :: fault
  ch_dbnow :: int
  ch_outcome :: "'e \<times> int + 'v"

definition faulty :: "fault \<Rightarrow> 'db \<Rightarrow> 'db \<times> 'r \<Rightarrow> 'db \<times> 'r option" where
  "faulty f db call =
     (case f of NoFault \<Rightarrow> (fst call, Some (snd call)) | FailBefore \<Rightarrow> (db, None) | FailAfter \<Rightarrow> (fst call, None))"

definition coord_step ::
  "('v, 'e) idem_lib \<Rightarrow> IdempotencyConfig \<Rightarrow> 'db IdempotencyRepository \<Rightarrow> ('v, 'e) choice \<Rightarrow>
   ('v, 'e) exec_pc \<Rightarrow> 'db \<Rightarrow> ('v, 'e) exec_pc \<times> 'db" where
  "coord_step lib cfg R ch pc db =
     (case pc of
        BareExecute \<Rightarrow>
          (case ch_outcome ch of
             Inl (execErr, now) \<Rightarrow> Finished (Inl (ExecError execErr))
           | Inr data \<Rightarrow> Finished (Inr (result_of data False)), db)
      | Claiming x \<Rightarrow>
          (case faulty (ch_fault ch) db (repo_CreateProcessing R (ch_dbnow ch) (claim_record x) db) of
             (db', reply) \<Rightarrow> (after_create x reply, db'))
      | Looking x \<Rightarrow>
          (case faulty (ch_fault ch) db (db, repo_GetByScopeAndKeyHash R (xl_Scope x) (xl_KeyHash x) db) of
             (db', reply) \<Rightarrow> (after_get lib x reply, db'))
      | ReclaimingExpired x existing \<Rightarrow>
          (case faulty (ch_fault ch) db (repo_TryReclaim R (ch_dbnow ch) (ir_ID existing)
                  (ir_Status existing) (xl_Now x) (xl_LockedUntil x) (xl_ExpiresAt x) db) of
             (db', reply) \<Rightarrow> (after_reclaim_expired x existing reply, db'))
      | LookingAgain x \<Rightarrow>
          (case faulty (ch_fault ch) db (db, repo_GetByScopeAndKeyHash R (xl_Scope x) (xl_KeyHash x) db) of
             (db', reply) \<Rightarrow> (after_get_latest lib x reply, db'))
      | Reclaiming x existing \<Rightarrow>
          (case faulty (ch_fault ch) db (repo_TryReclaim R (ch_dbnow ch) (ir_ID existing)
                  IdempotencyStatusFailedRetryable (xl_Now x) (xl_LockedUntil x) (xl_ExpiresAt x) db) of
             (db', reply) \<Rightarrow> (after_reclaim x existing reply, db'))
      | Executing x rid \<Rightarrow> (after_execute lib cfg x rid (ch_outcome ch), db)
      | MarkingFailed x rid reason backoffUntil execErr \<Rightarrow>
          (case faulty (ch_fault ch) db (repo_MarkFailedRetryable R (ch_dbnow ch) rid reason
                  backoffUntil (xl_ExpiresAt x) db, ()) of
             (db', reply) \<Rightarrow> (Finished (Inl (ExecError execErr)), db'))
      | MarkingSucceeded x rid storedBody data \<Rightarrow>
          (case faulty (ch_fault ch) db (repo_MarkSucceeded R (ch_dbnow ch) rid 200 storedBody
                  (xl_ExpiresAt x) db, ()) of
             (db', reply) \<Rightarrow> (after_mark_succeeded data (reply \<noteq> None), db'))
      | Finished r \<Rightarrow> (Finished r, db))"

text \<open>
  A request that nothing interrupts; \<open>ch k\<close> decides about the \<open>k\<close>-th call. Seven calls are the most a
  request makes (\<open>execute_returns\<close>).
\<close>

fun coord_run ::
  "('v, 'e) idem_lib \<Rightarrow> IdempotencyConfig \<Rightarrow> 'db IdempotencyRepository \<Rightarrow> (nat \<Rightarrow> ('v, 'e) choice) \<Rightarrow>
   nat \<Rightarrow> ('v, 'e) exec_pc \<times> 'db \<Rightarrow> ('v, 'e) exec_pc \<times> 'db" where
  "coord_run lib cfg R ch 0 pd = pd"
| "coord_run lib cfg R ch (Suc n) pd =
     coord_run lib cfg R (\<lambda>k. ch (Suc k)) n (coord_step lib cfg R (ch 0) (fst pd) (snd pd))"

definition Execute ::
  "('v, 'e) idem_lib \<Rightarrow> IdempotencyConfig \<Rightarrow> 'db IdempotencyRepository \<Rightarrow> (nat \<Rightarrow> ('v, 'e) choice) \<Rightarrow>
   'v IdempotencyExecuteOptions \<Rightarrow> int \<Rightarrow> 'db \<Rightarrow> ('v, 'e) exec_pc \<times> 'db" where
  "Execute lib cfg R ch opts now db =
     coord_run lib cfg R ch 7
       (Execute_start lib \<lparr>co_repo = Some R, co_cfg = cfg\<rparr> True opts now, db)"

subsection \<open>Interleaved requests\<close>

text \<open>
  The store, the requests in flight, and the keys of the executions that returned data, in order.
\<close>

record ('v, 'e, 'db) idem_sys =
  sy_db :: 'db
  sy_threads :: "('v, 'e) exec_pc list"
  sy_done :: "(string \<times> string) list"

definition xkey :: "exec_locals \<Rightarrow> string \<times> string" where
  "xkey x = (xl_Scope x, xl_KeyHash x)"

definition completed_key :: "('v, 'e) exec_pc \<Rightarrow> 'e \<times> int + 'v \<Rightarrow> (string \<times> string) list" where
  "completed_key pc outcome =
     (case pc of Executing x rid \<Rightarrow> (case outcome of Inl _ \<Rightarrow> [] | Inr _ \<Rightarrow> [xkey x]) | _ \<Rightarrow> [])"

definition effective_ttl :: "IdempotencyConfig \<Rightarrow> 'v IdempotencyExecuteOptions \<Rightarrow> int" where
  "effective_ttl cfg opts = (if io_TTL opts \<le> 0 then ic_DefaultTTL cfg else io_TTL opts)"

text \<open>
  What can happen before the time \<open>W\<close>, when every request that arrives keeps its record until \<open>W\<close> or
  later: a request arrives, a request makes its next call, the cleanup job runs.
\<close>

inductive idem_reach ::
  "('v, 'e) idem_lib \<Rightarrow> IdempotencyConfig \<Rightarrow> 'db IdempotencyRepository \<Rightarrow> int \<Rightarrow> 'db \<Rightarrow>
   ('v, 'e, 'db) idem_sys \<Rightarrow> bool"
  for lib cfg R W db0 where
  start: "idem_reach lib cfg R W db0 \<lparr>sy_db = db0, sy_threads = [], sy_done = []\<rparr>"
| arrive: "idem_reach lib cfg R W db0 s \<Longrightarrow> now < W \<Longrightarrow> W \<le> now + effective_ttl cfg opts \<Longrightarrow>
    idem_reach lib cfg R W db0
      (s\<lparr>sy_threads := sy_threads s
           @ [Execute_start lib \<lparr>co_repo = Some R, co_cfg = cfg\<rparr> hasExecute opts now]\<rparr>)"
| call: "idem_reach lib cfg R W db0 s \<Longrightarrow> i < length (sy_threads s) \<Longrightarrow>
    coord_step lib cfg R ch (sy_threads s ! i) (sy_db s) = (pc', db') \<Longrightarrow>
    idem_reach lib cfg R W db0
      \<lparr>sy_db = db', sy_threads = (sy_threads s)[i := pc'],
       sy_done = sy_done s @ completed_key (sy_threads s ! i) (ch_outcome ch)\<rparr>"
| cleanup: "idem_reach lib cfg R W db0 s \<Longrightarrow> now < W \<Longrightarrow>
    idem_reach lib cfg R W db0 (s\<lparr>sy_db := fst (repo_DeleteExpired R now limit (sy_db s))\<rparr>)"

subsection \<open>Every request returns\<close>

fun pc_rank :: "('v, 'e) exec_pc \<Rightarrow> nat" where
  "pc_rank (Claiming x) = 7"
| "pc_rank (Looking x) = 6"
| "pc_rank (ReclaimingExpired x r) = 5"
| "pc_rank (LookingAgain x) = 4"
| "pc_rank (Reclaiming x r) = 3"
| "pc_rank (Executing x rid) = 2"
| "pc_rank (MarkingFailed x rid reason b e) = 1"
| "pc_rank (MarkingSucceeded x rid body d) = 1"
| "pc_rank BareExecute = 1"
| "pc_rank (Finished r) = 0"

lemma pc_rank_bounds:
  "pc_rank (start_execute x rid) \<le> 2" "pc_rank (after_create x reply) \<le> 6"
  "pc_rank (check_status lib x r) \<le> 3" "pc_rank (after_get lib x g) \<le> 5"
  "pc_rank (after_reclaim_expired x r b) \<le> 4" "pc_rank (after_get_latest lib x g) \<le> 3"
  "pc_rank (after_reclaim x r b) \<le> 2" "pc_rank (after_execute lib cfg x rid outcome) \<le> 1"
  "pc_rank (after_mark_succeeded d ok) = 0"
  by (auto simp: start_execute_def after_create_def check_status_def after_get_def
      after_reclaim_expired_def after_get_latest_def after_reclaim_def after_execute_def
      after_mark_succeeded_def Let_def split: option.split sum.split prod.split)

lemma coord_step_rank: "pc_rank (fst (coord_step lib cfg R ch pc db)) \<le> pc_rank pc - 1"
  using pc_rank_bounds
  by (cases pc) (auto simp: coord_step_def split_beta split: sum.split intro: order_trans)

lemma coord_run_rank: "pc_rank (fst pd) \<le> n \<Longrightarrow> pc_rank (fst (coord_run lib cfg R ch n pd)) = 0"
proof (induction n arbitrary: ch pd)
  case (Suc n)
  then show ?case using coord_step_rank [of lib cfg R "ch 0" "fst pd" "snd pd"] by simp
qed simp

lemma pc_rank_0: "pc_rank pc = 0 \<longleftrightarrow> (\<exists>r. pc = Finished r)"
  by (cases pc) simp_all

lemma Execute_start_shape:
  "(\<exists>e. Execute_start lib c hasExecute opts now = Finished (Inl e))
   \<or> Execute_start lib c hasExecute opts now = BareExecute
   \<or> (\<exists>x. Execute_start lib c hasExecute opts now = Claiming x \<and> xl_Now x = now
        \<and> xl_ExpiresAt x = now + effective_ttl (co_cfg c) opts)"
  by (simp add: Execute_start_def effective_ttl_def Let_def split: sum.split)

lemma Execute_start_cases:
  obtains (fin) e where "Execute_start lib c hasExecute opts now = Finished (Inl e)"
  | (bare) "Execute_start lib c hasExecute opts now = BareExecute"
  | (claim) x where "Execute_start lib c hasExecute opts now = Claiming x" "xl_Now x = now"
      "xl_ExpiresAt x = now + effective_ttl (co_cfg c) opts"
  using Execute_start_shape [of lib c hasExecute opts now] by blast


subsection \<open>Exclusion\<close>

fun holds :: "('v, 'e) exec_pc \<Rightarrow> (exec_locals \<times> int) option" where
  "holds (Executing x rid) = Some (x, rid)"
| "holds (MarkingFailed x rid reason b e) = Some (x, rid)"
| "holds (MarkingSucceeded x rid body d) = Some (x, rid)"
| "holds _ = None"

fun undecided :: "('v, 'e) exec_pc \<Rightarrow> bool" where
  "undecided (Executing x rid) = True"
| "undecided (MarkingFailed x rid reason b e) = True"
| "undecided _ = False"

definition held_key :: "('v, 'e) exec_pc \<Rightarrow> (string \<times> string) option" where
  "held_key pc = map_option (xkey \<circ> fst) (holds pc)"

definition row_in :: "idem_map \<Rightarrow> string \<times> string \<Rightarrow> string set \<Rightarrow> bool" where
  "row_in m k S \<longleftrightarrow> (\<exists>r. m k = Some r \<and> ir_Status r \<in> S)"

definition row_id_is :: "idem_map \<Rightarrow> string \<times> string \<Rightarrow> int \<Rightarrow> bool" where
  "row_id_is m k rid \<longleftrightarrow> (\<exists>r. m k = Some r \<and> ir_ID r = rid)"

definition in_window :: "int \<Rightarrow> exec_locals \<Rightarrow> bool" where
  "in_window W x \<longleftrightarrow> xl_Now x < W \<and> W \<le> xl_ExpiresAt x"

fun pc_ok :: "int \<Rightarrow> idem_map \<Rightarrow> ('v, 'e) exec_pc \<Rightarrow> bool" where
  "pc_ok W m (Claiming x) = in_window W x"
| "pc_ok W m (Looking x) = in_window W x"
| "pc_ok W m (Reclaiming x r) = (in_window W x \<and> row_id_is m (xkey x) (ir_ID r))"
| "pc_ok W m (Executing x rid) = (in_window W x \<and> row_id_is m (xkey x) rid)"
| "pc_ok W m (MarkingFailed x rid reason b e) = (in_window W x \<and> row_id_is m (xkey x) rid)"
| "pc_ok W m (MarkingSucceeded x rid body d) = (in_window W x \<and> row_id_is m (xkey x) rid)"
| "pc_ok W m (ReclaimingExpired x r) = False"
| "pc_ok W m (LookingAgain x) = False"
| "pc_ok W m BareExecute = True"
| "pc_ok W m (Finished r) = True"

definition idem_safe :: "int \<Rightarrow> idem_map \<Rightarrow> ('v, 'e) exec_pc list \<Rightarrow> (string \<times> string) list \<Rightarrow> bool" where
  "idem_safe W m ths dn \<longleftrightarrow>
     (\<forall>k r. m k = Some r \<longrightarrow> W \<le> ir_ExpiresAt r)
     \<and> (\<forall>j<length ths. pc_ok W m (ths ! j))
     \<and> (\<forall>j<length ths. \<forall>k. held_key (ths ! j) = Some k \<longrightarrow> row_in m k {IdempotencyStatusProcessing})
     \<and> (\<forall>i<length ths. \<forall>j<length ths. i \<noteq> j \<longrightarrow> held_key (ths ! i) \<noteq> None \<longrightarrow> held_key (ths ! i) \<noteq> held_key (ths ! j))
     \<and> distinct dn
     \<and> (\<forall>k \<in> set dn. row_in m k {IdempotencyStatusProcessing, IdempotencyStatusSucceeded}
          \<and> (\<forall>j<length ths. undecided (ths ! j) \<longrightarrow> held_key (ths ! j) \<noteq> Some k))"

text \<open>Rows never change their identifier and never go away.\<close>

definition rows_grow :: "idem_map \<Rightarrow> idem_map \<Rightarrow> bool" where
  "rows_grow m m' \<longleftrightarrow> (\<forall>k rid. row_id_is m k rid \<longrightarrow> row_id_is m' k rid)"

lemma pc_ok_grow: "rows_grow m m' \<Longrightarrow> pc_ok W m pc \<Longrightarrow> pc_ok W m' pc"
  by (cases pc) (auto simp: rows_grow_def simp del: split_paired_All)

lemma idem_safeD:
  assumes "idem_safe W m ths dn"
  shows "m k = Some r \<Longrightarrow> W \<le> ir_ExpiresAt r"
    and "j < length ths \<Longrightarrow> pc_ok W m (ths ! j)"
    and "j < length ths \<Longrightarrow> held_key (ths ! j) = Some k \<Longrightarrow> row_in m k {IdempotencyStatusProcessing}"
    and "i < length ths \<Longrightarrow> j < length ths \<Longrightarrow> i \<noteq> j \<Longrightarrow> held_key (ths ! i) = Some k \<Longrightarrow>
      held_key (ths ! j) \<noteq> Some k"
    and "distinct dn"
    and "k \<in> set dn \<Longrightarrow> row_in m k {IdempotencyStatusProcessing, IdempotencyStatusSucceeded}"
    and "k \<in> set dn \<Longrightarrow> j < length ths \<Longrightarrow> undecided (ths ! j) \<Longrightarrow> held_key (ths ! j) \<noteq> Some k"
  using assms unfolding idem_safe_def by (blast, blast, blast, metis option.distinct(1), blast, blast, blast)

text \<open>One request moves on: what has to be checked.\<close>

lemma idem_safe_move:
  assumes safe: "idem_safe W m ths dn" and i: "i < length ths" and grow: "rows_grow m m'"
    and expiry: "\<forall>k r. m' k = Some r \<longrightarrow> W \<le> ir_ExpiresAt r"
    and ok: "pc_ok W m' pc'"
    and others: "\<And>k S. k \<noteq> key \<Longrightarrow> row_in m k S \<Longrightarrow> row_in m' k S"
    and alone: "\<And>j. j < length ths \<Longrightarrow> j \<noteq> i \<Longrightarrow> held_key (ths ! j) \<noteq> Some key"
    and mine: "held_key pc' = None \<or> held_key pc' = Some key \<and> row_in m' key {IdempotencyStatusProcessing}"
    and dn': "dn' = dn \<and> (key \<in> set dn \<longrightarrow> row_in m' key {IdempotencyStatusProcessing, IdempotencyStatusSucceeded}
         \<and> \<not> undecided pc')
       \<or> dn' = dn @ [key] \<and> key \<notin> set dn \<and> \<not> undecided pc'
         \<and> row_in m' key {IdempotencyStatusProcessing, IdempotencyStatusSucceeded}"
  shows "idem_safe W m' (ths[i := pc']) dn'"
proof -
  have at: "ths[i := pc'] ! j = (if j = i then pc' else ths ! j)" for j using i by simp
  note s = idem_safeD [OF safe]
  have oks: "pc_ok W m' (ths[i := pc'] ! j)" if "j < length ths" for j
    using pc_ok_grow [OF grow s(2) [OF that]] ok by (simp add: at)
  have held: "row_in m' k {IdempotencyStatusProcessing}"
    if "j < length ths" "held_key (ths[i := pc'] ! j) = Some k" for j k
  proof (cases "j = i")
    case True
    then show ?thesis using mine that by (auto simp: at)
  next
    case False
    then show ?thesis using s(3) [of j k] others [of k] alone [of j] that by (auto simp: at)
  qed
  have apart: "held_key (ths[i := pc'] ! j) \<noteq> held_key (ths[i := pc'] ! l)"
    if "j < length ths" "l < length ths" "j \<noteq> l" "held_key (ths[i := pc'] ! j) \<noteq> None" for j l
  proof -
    from that(4) obtain k where k: "held_key (ths[i := pc'] ! j) = Some k" by blast
    then show ?thesis using s(4) [OF that(1-3), of k] alone [of j] alone [of l] mine that(1-3)
      by (auto simp: at split: if_splits)
  qed
  have done_rows: "row_in m' k {IdempotencyStatusProcessing, IdempotencyStatusSucceeded}" if "k \<in> set dn'" for k
    using s(6) [of k] dn' others [of k] that by (cases "k = key") auto
  have done_free: "held_key (ths[i := pc'] ! j) \<noteq> Some k"
    if "k \<in> set dn'" "j < length ths" "undecided (ths[i := pc'] ! j)" for j k
  proof (cases "k = key")
    case True
    then show ?thesis using dn' alone [of j] that by (auto simp: at split: if_splits)
  next
    case False
    then have "k \<in> set dn" using dn' that(1) by auto
    then show ?thesis using s(7) [of k j] mine that(2,3) False by (auto simp: at split: if_splits)
  qed
  have "distinct dn'" using s(5) dn' by auto
  with oks held apart done_rows done_free expiry show ?thesis
    unfolding idem_safe_def length_list_update by blast
qed

lemma undecided_held: "undecided pc \<Longrightarrow> held_key pc \<noteq> None"
  by (cases pc) (simp_all add: held_key_def)

lemma idem_safe_idle:
  assumes safe: "idem_safe W m ths dn" and i: "i < length ths" and "pc_ok W m pc'" and none: "held_key pc' = None"
  shows "idem_safe W m (ths[i := pc']) dn"
proof -
  have at: "ths[i := pc'] ! j = (if j = i then pc' else ths ! j)" for j using i by simp
  have "\<not> undecided pc'" using undecided_held none by blast
  then show ?thesis using safe assms(3,4) unfolding idem_safe_def length_list_update at by auto
qed

lemma rows_grow_refl [simp]: "rows_grow m m"
  by (simp add: rows_grow_def)

lemma rows_grow_update:
  assumes "\<And>r. ir_ID (f r) = ir_ID r"
  shows "rows_grow m (update_where P f m)"
proof -
  have "row_id_is (update_where P f m) k (ir_ID r)" if "m k = Some r" for k r
    using that assms by (simp add: row_id_is_def update_where_def)
  then show ?thesis by (auto simp: rows_grow_def row_id_is_def [of m])
qed

lemma update_expiry:
  assumes "\<forall>k r. m k = Some r \<longrightarrow> W \<le> ir_ExpiresAt r" and "\<And>r. W \<le> ir_ExpiresAt (f r)"
  shows "\<forall>k r. update_where P f m k = Some r \<longrightarrow> W \<le> ir_ExpiresAt r"
  using assms by (auto simp: update_where_def)

lemma update_row_in: "row_in m k S \<Longrightarrow> (\<And>r. m k = Some r \<Longrightarrow> \<not> P r) \<Longrightarrow> row_in (update_where P f m) k S"
  by (auto simp: row_in_def update_where_def)

lemma update_none: "\<not> some_row P m \<Longrightarrow> update_where P f m = m"
proof (rule ext)
  fix k assume "\<not> some_row P m"
  then show "update_where P f m k = m k"
    by (cases "m k") (auto simp: some_row_def update_where_def simp del: split_paired_All split_paired_Ex)
qed

lemma row_fields [simp]:
  "ir_ExpiresAt (reclaimed_row n l e r) = e" "ir_Status (reclaimed_row n l e r) = IdempotencyStatusProcessing"
  "ir_ExpiresAt (succeeded_row n s b e r) = e" "ir_Status (succeeded_row n s b e r) = IdempotencyStatusSucceeded"
  "ir_ExpiresAt (failed_row n x l e r) = e" "ir_Status (failed_row n x l e r) = IdempotencyStatusFailedRetryable"
  "ir_ExpiresAt (inserted_row i n r) = ir_ExpiresAt r" "ir_Status (inserted_row i n r) = ir_Status r"
  by (simp_all add: reclaimed_row_def succeeded_row_def failed_row_def inserted_row_def)

lemma claim_record_fields [simp]:
  "record_key (claim_record x) = xkey x" "ir_ExpiresAt (claim_record x) = xl_ExpiresAt x"
  "ir_Status (claim_record x) = IdempotencyStatusProcessing"
  by (simp_all add: claim_record_def record_key_def xkey_def)

lemma held_key_simps [simp]:
  "held_key (Executing x rid) = Some (xkey x)"
  "held_key (MarkingFailed x rid reason b e) = Some (xkey x)"
  "held_key (MarkingSucceeded x rid body d) = Some (xkey x)"
  "held_key BareExecute = None" "held_key (Claiming x) = None" "held_key (Looking x) = None"
  "held_key (ReclaimingExpired x r) = None" "held_key (LookingAgain x) = None"
  "held_key (Reclaiming x r) = None" "held_key (Finished z) = None"
  by (simp_all add: held_key_def)

context idempotency_repository
begin

lemma rows_unique:
  "inv db \<Longrightarrow> row_id_is (rows db) key rid \<Longrightarrow> rows db k = Some r \<Longrightarrow> ir_ID r = rid \<Longrightarrow> k = key"
  unfolding row_id_is_def by (metis row_id)

lemma get_ok:
  assumes db: "inv db" and safe: "idem_safe W (rows db) ths dn" and x: "in_window W x"
  shows "pc_ok W (rows db) (after_get lib x (Some (rows db (xkey x)))) \<and>
    held_key (after_get lib x (Some (rows db (xkey x)))) = None"
proof (cases "rows db (xkey x)")
  case None
  then show ?thesis by (simp add: after_get_def)
next
  case (Some r)
  have "\<not> ir_ExpiresAt r \<le> xl_Now x" using idem_safeD(1) [OF safe Some] x by (simp add: in_window_def)
  then show ?thesis using Some x
    by (auto simp: after_get_def check_status_def row_id_is_def split: option.split)
qed

lemma step_claiming:
  fixes ths :: "('v, 'e) exec_pc list"
  assumes db: "inv db" and safe: "idem_safe W (rows db) ths dn" and i: "i < length ths" "ths ! i = Claiming x"
    and st: "faulty f db (repo_CreateProcessing R n (claim_record x) db) = (db', reply)"
  shows "inv db' \<and> idem_safe W (rows db') (ths[i := after_create x reply]) dn"
proof (cases "f = FailBefore")
  case True
  then show ?thesis using st db idem_safe_idle [OF safe i(1)]
    by (auto simp: faulty_def after_create_def)
next
  case False
  let ?c = "repo_CreateProcessing R n (claim_record x) db"
  have x: "in_window W x" using idem_safeD(2) [OF safe i(1)] i(2) by simp
  from False st have db': "db' = fst ?c" "reply = None \<or> reply = Some (snd ?c)"
    by (auto simp: faulty_def split: fault.splits)
  have inv': "inv db'" using create_inv [OF db] db' by simp
  show ?thesis
  proof (cases "rows db (xkey x)")
    case (Some r0)
    then have "rows db' = rows db" "snd ?c = (False, claim_record x)"
      using create_old [OF db, of "claim_record x" r0] db' by simp_all
    then show ?thesis using idem_safe_idle [OF safe i(1)] db' inv' x by (auto simp: after_create_def)
  next
    case None
    then obtain rid where c: "0 < rid"
        "rows db' = (rows db)(xkey x \<mapsto> inserted_row rid n (claim_record x))"
        "snd ?c = (True, (claim_record x)\<lparr>ir_ID := rid, ir_CreatedAt := n, ir_UpdatedAt := n\<rparr>)"
      using create_new [OF db, of "claim_record x" n] db' by auto
    define q :: "('v, 'e) exec_pc" where "q = after_create x reply"
    have pc': "q = Finished (Inl ErrIdempotencyStoreUnavail)
        \<or> q = Executing x rid"
      using db'(2) c(1,3) by (auto simp: q_def after_create_def start_execute_def)
    have absent: "\<not> row_in (rows db) (xkey x) S" for S using None by (simp add: row_in_def)
    have "idem_safe W (rows db') (ths[i := q]) dn"
    proof (rule idem_safe_move [OF safe i(1), where key = "xkey x"])
      show "rows_grow (rows db) (rows db')" using None by (auto simp: c(2) rows_grow_def row_id_is_def)
      show "\<forall>k r. rows db' k = Some r \<longrightarrow> W \<le> ir_ExpiresAt r"
        using idem_safeD(1) [OF safe] x by (auto simp: c(2) in_window_def split: if_splits)
      show "pc_ok W (rows db') (q)" using pc' x by (auto simp: c(2) row_id_is_def)
      show "row_in (rows db) k S \<Longrightarrow> row_in (rows db') k S" if "k \<noteq> xkey x" for k S
        using that by (simp add: c(2) row_in_def)
      show "held_key (ths ! j) \<noteq> Some (xkey x)" if "j < length ths" for j
        using idem_safeD(3) [OF safe that] absent by blast
      show "held_key (q) = None \<or> held_key (q) = Some (xkey x)
          \<and> row_in (rows db') (xkey x) {IdempotencyStatusProcessing}"
        using pc' by (auto simp: c(2) row_in_def)
    qed (use idem_safeD(6) [OF safe] absent in blast)
    then show ?thesis using inv' by (simp add: q_def)
  qed
qed

lemma step_reclaiming:
  fixes ths :: "('v, 'e) exec_pc list"
  assumes db: "inv db" and safe: "idem_safe W (rows db) ths dn" and i: "i < length ths" "ths ! i = Reclaiming x r"
    and st: "faulty f db (repo_TryReclaim R n (ir_ID r) IdempotencyStatusFailedRetryable (xl_Now x)
        (xl_LockedUntil x) (xl_ExpiresAt x) db) = (db', reply)"
  shows "inv db' \<and> idem_safe W (rows db') (ths[i := after_reclaim x r reply]) dn"
proof -
  let ?P = "reclaimable (ir_ID r) IdempotencyStatusFailedRetryable (xl_Now x)"
  have x: "in_window W x" "row_id_is (rows db) (xkey x) (ir_ID r)" using idem_safeD(2) [OF safe i(1)] i(2) by simp_all
  note rc = reclaim [OF db, of n "ir_ID r" IdempotencyStatusFailedRetryable "xl_Now x" "xl_LockedUntil x" "xl_ExpiresAt x"]
  show ?thesis
  proof (cases "f = FailBefore \<or> \<not> some_row ?P (rows db)")
    case True
    then have "rows db' = rows db" "inv db'" "reply = None \<or> reply = Some False"
      using st rc db by (auto simp: faulty_def update_none split: fault.splits)
    then show ?thesis using idem_safe_idle [OF safe i(1)] by (auto simp: after_reclaim_def)
  next
    case False
    then have db': "inv db'" "rows db' = update_where ?P (reclaimed_row n (xl_LockedUntil x) (xl_ExpiresAt x)) (rows db)"
        "reply = None \<or> reply = Some True"
      using st rc by (auto simp: faulty_def split: fault.splits)
    from False obtain k r0 where "rows db k = Some r0" "?P r0" by (auto simp: some_row_def)
    then have r0: "rows db (xkey x) = Some r0" "?P r0"
      using rows_unique [OF db x(2)] by (auto simp: reclaimable_def)
    have failed: "\<not> row_in (rows db) (xkey x) {IdempotencyStatusProcessing}"
        "\<not> row_in (rows db) (xkey x) {IdempotencyStatusProcessing, IdempotencyStatusSucceeded}"
      using r0 by (auto simp: row_in_def reclaimable_def)
    define q :: "('v, 'e) exec_pc" where "q = after_reclaim x r reply"
    have pc': "q = Finished (Inl ErrIdempotencyStoreUnavail)
        \<or> q = Executing x (ir_ID r)"
      using db'(3) by (auto simp: q_def after_reclaim_def start_execute_def split: if_splits)
    have "idem_safe W (rows db') (ths[i := q]) dn"
    proof (rule idem_safe_move [OF safe i(1), where key = "xkey x"])
      show grow: "rows_grow (rows db) (rows db')" unfolding db'(2) by (rule rows_grow_update) simp
      show "\<forall>k r. rows db' k = Some r \<longrightarrow> W \<le> ir_ExpiresAt r" unfolding db'(2)
        by (rule update_expiry) (use idem_safeD(1) [OF safe] x in \<open>auto simp: in_window_def\<close>)
      show "pc_ok W (rows db') (q)"
        using pc' x grow by (auto simp: rows_grow_def simp del: split_paired_All)
      show "row_in (rows db) k S \<Longrightarrow> row_in (rows db') k S" if "k \<noteq> xkey x" for k S
        unfolding db'(2) by (rule update_row_in) (use that rows_unique [OF db x(2), of k] in \<open>auto simp: reclaimable_def\<close>)
      show "held_key (ths ! j) \<noteq> Some (xkey x)" if "j < length ths" for j
        using idem_safeD(3) [OF safe that] failed by blast
      show "held_key (q) = None \<or> held_key (q) = Some (xkey x)
          \<and> row_in (rows db') (xkey x) {IdempotencyStatusProcessing}"
        using pc' r0 by (auto simp: db'(2) row_in_def update_where_def)
    qed (use idem_safeD(6) [OF safe] failed in blast)
    then show ?thesis using db' by (simp add: q_def)
  qed
qed

text \<open>The holder of a record writes its outcome and lets go.\<close>

lemma step_marking:
  assumes db: "inv db" and safe: "idem_safe W (rows db) ths dn" and i: "i < length ths"
    and held: "held_key (ths ! i) = Some (xkey x)" and x: "in_window W x" "row_id_is (rows db) (xkey x) rid"
    and db': "inv db'" "rows db' = rows db \<or> rows db' = update_where (\<lambda>r. ir_ID r = rid) f (rows db)"
    and f: "\<And>r. ir_ID (f r) = ir_ID r" "\<And>r. W \<le> ir_ExpiresAt (f r)"
    and dn: "xkey x \<in> set dn \<Longrightarrow> (\<And>r. ir_Status (f r) \<in> {IdempotencyStatusProcessing, IdempotencyStatusSucceeded})"
    and q: "q = Finished res"
  shows "idem_safe W (rows db') (ths[i := q]) dn"
proof (cases "rows db' = rows db")
  case True
  then show ?thesis using idem_safe_idle [OF safe i, of q] q by simp
next
  case False
  then have m': "rows db' = update_where (\<lambda>r. ir_ID r = rid) f (rows db)" using db' by blast
  show ?thesis
  proof (rule idem_safe_move [OF safe i, where key = "xkey x"])
    show "rows_grow (rows db) (rows db')" unfolding m' by (rule rows_grow_update) (rule f)
    show "\<forall>k r. rows db' k = Some r \<longrightarrow> W \<le> ir_ExpiresAt r" unfolding m'
      by (rule update_expiry) (use idem_safeD(1) [OF safe] f in auto)
    show "row_in (rows db) k S \<Longrightarrow> row_in (rows db') k S" if "k \<noteq> xkey x" for k S
      unfolding m' by (rule update_row_in) (use that rows_unique [OF db x(2), of k] in auto)
    show "held_key (ths ! j) \<noteq> Some (xkey x)" if "j < length ths" "j \<noteq> i" for j
      using idem_safeD(4) [OF safe i that(1)] that(2) held by blast
    have "row_in (rows db') (xkey x) {IdempotencyStatusProcessing, IdempotencyStatusSucceeded}" if "xkey x \<in> set dn"
      using x(2) dn [OF that] by (auto simp: m' row_id_is_def row_in_def update_where_def)
    then show "dn = dn \<and> (xkey x \<in> set dn \<longrightarrow>
         row_in (rows db') (xkey x) {IdempotencyStatusProcessing, IdempotencyStatusSucceeded} \<and> \<not> undecided q)
       \<or> dn = dn @ [xkey x] \<and> xkey x \<notin> set dn \<and> \<not> undecided q
         \<and> row_in (rows db') (xkey x) {IdempotencyStatusProcessing, IdempotencyStatusSucceeded}"
      using q by simp
  qed (use q in simp_all)
qed

lemma step_executing:
  fixes ths :: "('v, 'e) exec_pc list"
  assumes db: "inv db" and safe: "idem_safe W (rows db) ths dn" and i: "i < length ths" "ths ! i = Executing x rid"
  shows "idem_safe W (rows db) (ths[i := after_execute lib cfg x rid outcome]) (dn @ completed_key (ths ! i) outcome)"
proof -
  have x: "in_window W x" "row_id_is (rows db) (xkey x) rid" using idem_safeD(2) [OF safe i(1)] i(2) by simp_all
  have held: "held_key (ths ! i) = Some (xkey x)" "undecided (ths ! i)" using i(2) by simp_all
  have fresh: "xkey x \<notin> set dn" using idem_safeD(7) [OF safe _ i(1) held(2)] held(1) by blast
  have proc: "row_in (rows db) (xkey x) {IdempotencyStatusProcessing}" using idem_safeD(3) [OF safe i(1) held(1)] .
  then have proc': "row_in (rows db) (xkey x) {IdempotencyStatusProcessing, IdempotencyStatusSucceeded}"
    by (auto simp: row_in_def)
  define q :: "('v, 'e) exec_pc" where "q = after_execute lib cfg x rid outcome"
  have q: "(case outcome of Inl _ \<Rightarrow> \<exists>reason b e. q = MarkingFailed x rid reason b e
      | Inr _ \<Rightarrow> q = Finished (Inl ErrIdempotencyStoreUnavail) \<or> (\<exists>body d. q = MarkingSucceeded x rid body d))"
    by (auto simp: q_def after_execute_def Let_def split: sum.split option.split)
  have "idem_safe W (rows db) (ths[i := q]) (dn @ completed_key (ths ! i) outcome)"
  proof (rule idem_safe_move [OF safe i(1), where key = "xkey x"])
    show "pc_ok W (rows db) q" using q x by (auto split: sum.splits)
    show "held_key (ths ! j) \<noteq> Some (xkey x)" if "j < length ths" "j \<noteq> i" for j
      using idem_safeD(4) [OF safe i(1) that(1)] that(2) held(1) by blast
    show "held_key q = None \<or> held_key q = Some (xkey x) \<and> row_in (rows db) (xkey x) {IdempotencyStatusProcessing}"
      using q proc by (auto split: sum.splits)
    show "dn @ completed_key (ths ! i) outcome = dn \<and> (xkey x \<in> set dn \<longrightarrow>
         row_in (rows db) (xkey x) {IdempotencyStatusProcessing, IdempotencyStatusSucceeded} \<and> \<not> undecided q)
       \<or> dn @ completed_key (ths ! i) outcome = dn @ [xkey x] \<and> xkey x \<notin> set dn \<and> \<not> undecided q
         \<and> row_in (rows db) (xkey x) {IdempotencyStatusProcessing, IdempotencyStatusSucceeded}"
      using q fresh proc' i(2) by (auto simp: completed_key_def split: sum.splits)
  qed (use idem_safeD(1) [OF safe] in simp_all)
  then show ?thesis by (simp add: q_def)
qed

end

context idempotency_repository
begin

lemma safe_call:
  fixes ths :: "('v, 'e) exec_pc list"
  assumes db: "inv db" and safe: "idem_safe W (rows db) ths dn" and i: "i < length ths"
    and st: "coord_step lib cfg R ch (ths ! i) db = (q, db')"
  shows "inv db' \<and> idem_safe W (rows db') (ths[i := q]) (dn @ completed_key (ths ! i) (ch_outcome ch))"
proof (cases "ths ! i")
  case BareExecute
  then have "db' = db" "\<exists>z. q = Finished z"
    using st by (auto simp: coord_step_def split: sum.splits)
  then show ?thesis using idem_safe_idle [OF safe i] db BareExecute by (auto simp: completed_key_def)
next
  case (Claiming x)
  obtain db1 reply where c: "faulty (ch_fault ch) db (repo_CreateProcessing R (ch_dbnow ch) (claim_record x) db) = (db1, reply)"
    by (rule prod.exhaust)
  then have "q = after_create x reply" "db' = db1" using st Claiming by (simp_all add: coord_step_def)
  then show ?thesis using step_claiming [OF db safe i Claiming c] Claiming by (simp add: completed_key_def)
next
  case (Looking x)
  have x: "in_window W x" using idem_safeD(2) [OF safe i] Looking by simp
  have "db' = db" "q = after_get lib x None \<or> q = after_get lib x (Some (rows db (xkey x)))"
    using st Looking get [OF db, of "xl_Scope x" "xl_KeyHash x"]
    by (auto simp: coord_step_def faulty_def xkey_def split: fault.splits)
  moreover have "after_get lib x None = Finished (Inl ErrIdempotencyStoreUnavail)" by (simp add: after_get_def)
  ultimately show ?thesis using idem_safe_idle [OF safe i, of q] get_ok [OF db safe x, of lib] db Looking
    by (auto simp: completed_key_def)
next
  case (ReclaimingExpired x r)
  then show ?thesis using idem_safeD(2) [OF safe i] by simp
next
  case (LookingAgain x)
  then show ?thesis using idem_safeD(2) [OF safe i] by simp
next
  case (Reclaiming x r)
  obtain db1 reply where c: "faulty (ch_fault ch) db (repo_TryReclaim R (ch_dbnow ch) (ir_ID r)
      IdempotencyStatusFailedRetryable (xl_Now x) (xl_LockedUntil x) (xl_ExpiresAt x) db) = (db1, reply)"
    by (rule prod.exhaust)
  then have "q = after_reclaim x r reply" "db' = db1" using st Reclaiming by (simp_all add: coord_step_def)
  then show ?thesis using step_reclaiming [OF db safe i Reclaiming c] Reclaiming by (simp add: completed_key_def)
next
  case (Executing x rid)
  then have "q = after_execute lib cfg x rid (ch_outcome ch)" "db' = db" using st by (simp_all add: coord_step_def)
  then show ?thesis using step_executing [OF db safe i Executing] db by simp
next
  case (MarkingFailed x rid reason b e)
  let ?db = "repo_MarkFailedRetryable R (ch_dbnow ch) rid reason b (xl_ExpiresAt x) db"
  have x: "in_window W x" "row_id_is (rows db) (xkey x) rid" using idem_safeD(2) [OF safe i] MarkingFailed by simp_all
  have q: "q = Finished (Inl (ExecError e))" "db' = db \<or> db' = ?db"
    using st MarkingFailed by (auto simp: coord_step_def faulty_def split: fault.splits)
  have inv': "inv db'" using q fail [OF db] db by auto
  have "xkey x \<notin> set dn" using idem_safeD(7) [OF safe _ i, of "xkey x"] MarkingFailed by auto
  then have "idem_safe W (rows db') (ths[i := q]) dn"
    by (intro step_marking [OF db safe i _ x inv', where f = "failed_row (ch_dbnow ch) reason b (xl_ExpiresAt x)"])
      (use q fail [OF db] x MarkingFailed in \<open>auto simp: in_window_def\<close>)
  then show ?thesis using inv' MarkingFailed by (simp add: completed_key_def)
next
  case (MarkingSucceeded x rid body d)
  let ?db = "repo_MarkSucceeded R (ch_dbnow ch) rid 200 body (xl_ExpiresAt x) db"
  have x: "in_window W x" "row_id_is (rows db) (xkey x) rid" using idem_safeD(2) [OF safe i] MarkingSucceeded by simp_all
  obtain z where q: "q = Finished z" "db' = db \<or> db' = ?db"
    using st MarkingSucceeded by (auto simp: coord_step_def faulty_def after_mark_succeeded_def split: fault.splits)
  have inv': "inv db'" using q succeed [OF db] db by auto
  have "idem_safe W (rows db') (ths[i := q]) dn"
    by (intro step_marking [OF db safe i _ x inv', where f = "succeeded_row (ch_dbnow ch) 200 body (xl_ExpiresAt x)"])
      (use q succeed [OF db] x MarkingSucceeded in \<open>auto simp: in_window_def\<close>)
  then show ?thesis using inv' MarkingSucceeded by (simp add: completed_key_def)
next
  case (Finished z)
  then have "q = Finished z" "db' = db" using st by (simp_all add: coord_step_def)
  then show ?thesis using idem_safe_idle [OF safe i, of q] db Finished by (simp add: completed_key_def)
qed

lemma safe_arrive:
  assumes safe: "idem_safe W m ths dn" and "pc_ok W m q" "held_key q = None"
  shows "idem_safe W m (ths @ [q]) dn"
proof -
  have "\<not> undecided q" using undecided_held assms(3) by blast
  then show ?thesis using assms unfolding idem_safe_def
    by (auto simp: nth_append less_Suc_eq_le simp del: split_paired_All split_paired_Ex)
qed

lemma safe_cleanup:
  assumes db: "inv db" and safe: "idem_safe W (rows db) ths dn" and "now < W"
  shows "rows (fst (repo_DeleteExpired R now limit db)) = rows db"
proof
  fix k show "rows (fst (repo_DeleteExpired R now limit db)) k = rows db k"
    using delete_rows [OF db, of now limit k] idem_safeD(1) [OF safe, of k] assms(3) by fastforce
qed

lemma reach_safe:
  assumes "idem_reach lib cfg R W db0 s" and "inv db0" and "\<forall>k r. rows db0 k = Some r \<longrightarrow> W \<le> ir_ExpiresAt r"
  shows "inv (sy_db s) \<and> idem_safe W (rows (sy_db s)) (sy_threads s) (sy_done s)"
  using assms(1)
proof (induction rule: idem_reach.induct)
  case start
  then show ?case using assms(2,3) by (simp add: idem_safe_def)
next
  case (arrive s now opts hasExecute)
  then show ?case
    by (cases lib "\<lparr>co_repo = Some R, co_cfg = cfg\<rparr>" hasExecute opts now rule: Execute_start_cases)
      (auto intro!: safe_arrive simp: in_window_def)
next
  case (call s i ch q db')
  then show ?case using safe_call [of "sy_db s" W "sy_threads s" "sy_done s" i lib cfg ch q db'] by simp
next
  case (cleanup s now limit)
  then show ?case using safe_cleanup [of "sy_db s" W "sy_threads s" "sy_done s" now limit]
    by (simp add: delete_inv)
qed

end

text \<open>
  (C1) Mutual exclusion under every interleaving: while no record expires, and however the store
  fails, two requests that are executing at the same time have different keys. \<open>W\<close> is any time
  before which no record expires; requests arrive before \<open>W\<close>, make their calls in any order, and the
  cleanup job may run at any point.
\<close>

theorem idempotent_execution_exclusive:
  assumes "idem_reach lib cfg idempotencyRepository W db0 s"
    and "table_wf db0" and "\<forall>k r. table_map db0 k = Some r \<longrightarrow> W \<le> ir_ExpiresAt r"
    and "i < length (sy_threads s)" "sy_threads s ! i = Executing x rid"
    and "j < length (sy_threads s)" "sy_threads s ! j = Executing y rid'" and "i \<noteq> j"
  shows "(xl_Scope x, xl_KeyHash x) \<noteq> (xl_Scope y, xl_KeyHash y)"
proof -
  have "idem_safe W (table_map (sy_db s)) (sy_threads s) (sy_done s)"
    using pg.reach_safe [OF assms(1-3)] by blast
  from idem_safeD(4) [OF this assms(4,6,8), of "xkey x"] assms(5,7) show ?thesis by (auto simp: xkey_def)
qed

text \<open>
  (C2) At most once: under every interleaving, while no record expires, the function of a key returns
  data at most once, and no request executes a key whose function has returned data. This includes
  runs in which the store loses the outcome or fails after having written it.
\<close>

theorem idempotent_success_once:
  assumes "idem_reach lib cfg idempotencyRepository W db0 s"
    and "table_wf db0" and "\<forall>k r. table_map db0 k = Some r \<longrightarrow> W \<le> ir_ExpiresAt r"
  shows "distinct (sy_done s) \<and>
    (\<forall>j < length (sy_threads s). \<forall>x rid. sy_threads s ! j = Executing x rid \<longrightarrow> (xl_Scope x, xl_KeyHash x) \<notin> set (sy_done s))"
proof -
  have safe: "idem_safe W (table_map (sy_db s)) (sy_threads s) (sy_done s)"
    using pg.reach_safe [OF assms] by blast
  have "(xl_Scope x, xl_KeyHash x) \<notin> set (sy_done s)" if "j < length (sy_threads s)" "sy_threads s ! j = Executing x rid" for j x rid
    using idem_safeD(7) [OF safe _ that(1), of "xkey x"] that(2) by (auto simp: xkey_def)
  then show ?thesis using idem_safeD(5) [OF safe] by blast
qed

subsection \<open>One request after another\<close>

lemma coord_run_numeral:
  "coord_run lib cfg R ch 7 pd =
     coord_run lib cfg R (\<lambda>k. ch (Suc k)) 6 (coord_step lib cfg R (ch 0) (fst pd) (snd pd))"
  "coord_run lib cfg R ch 6 pd =
     coord_run lib cfg R (\<lambda>k. ch (Suc k)) 5 (coord_step lib cfg R (ch 0) (fst pd) (snd pd))"
  "coord_run lib cfg R ch 5 pd =
     coord_run lib cfg R (\<lambda>k. ch (Suc k)) 4 (coord_step lib cfg R (ch 0) (fst pd) (snd pd))"
  "coord_run lib cfg R ch 4 pd =
     coord_run lib cfg R (\<lambda>k. ch (Suc k)) 3 (coord_step lib cfg R (ch 0) (fst pd) (snd pd))"
  "coord_run lib cfg R ch 3 pd =
     coord_run lib cfg R (\<lambda>k. ch (Suc k)) 2 (coord_step lib cfg R (ch 0) (fst pd) (snd pd))"
  by (simp_all add: eval_nat_numeral)

lemma coord_run_Finished [simp]: "coord_run lib cfg R ch n (Finished z, db) = (Finished z, db)"
  by (induction n arbitrary: ch) (simp_all add: coord_step_def)

text \<open>A request that gets as far as the store, with the local variables it has then.\<close>

definition request ::
  "('v, 'e) idem_lib \<Rightarrow> IdempotencyConfig \<Rightarrow> 'v IdempotencyExecuteOptions \<Rightarrow> int \<Rightarrow> exec_locals \<Rightarrow> bool" where
  "request lib cfg opts now x \<longleftrightarrow>
     Execute_start lib \<lparr>co_repo = Some idempotencyRepository, co_cfg = cfg\<rparr> True opts now = (Claiming x :: ('v, 'e) exec_pc)"

lemma faulty_NoFault [simp]: "faulty NoFault db c = (fst c, Some (snd c))"
  by (simp add: faulty_def)

context idempotency_repository
begin

text \<open>The first two calls of a request that finds a record.\<close>

lemma finds_record:
  assumes db: "inv db" and r: "rows db (xkey x) = Some r"
    and ok: "ch_fault (ch 0) = NoFault" "ch_fault (ch 1) = NoFault"
  shows "\<exists>db1. inv db1 \<and> rows db1 = rows db \<and>
     coord_run lib cfg R ch 7 (Claiming x, db) =
       coord_run lib cfg R (\<lambda>k. ch (Suc (Suc k))) 5 (after_get lib x (Some (Some r)), db1)"
proof -
  let ?db1 = "fst (repo_CreateProcessing R (ch_dbnow (ch 0)) (claim_record x) db)"
  have c: "rows ?db1 = rows db" "snd (repo_CreateProcessing R (ch_dbnow (ch 0)) (claim_record x) db) = (False, claim_record x)"
    using create_old [OF db, of "claim_record x" r] r by simp_all
  have inv1: "inv ?db1" by (rule create_inv [OF db])
  have g: "repo_GetByScopeAndKeyHash R (xl_Scope x) (xl_KeyHash x) ?db1 = Some r"
    using get [OF inv1] c(1) r by (simp add: xkey_def)
  show ?thesis using ok c inv1 g
    by (intro exI [of _ ?db1]) (simp add: coord_run_numeral coord_step_def after_create_def)
qed

lemma conflict:
  assumes "inv db" and "rows db (xkey x) = Some r" and "ch_fault (ch 0) = NoFault" "ch_fault (ch 1) = NoFault"
    and "ir_RequestFingerprint r \<noteq> xl_Fingerprint x"
  shows "fst (coord_run lib cfg R ch 7 (Claiming x, db)) = Finished (Inl ErrIdempotencyKeyConflict)
     \<and> rows (snd (coord_run lib cfg R ch 7 (Claiming x, db))) = rows db"
  using finds_record [of db x r ch lib cfg, OF assms(1-4)] assms(5) by (auto simp: after_get_def)

lemma busy:
  assumes "inv db" and "rows db (xkey x) = Some r" and "ch_fault (ch 0) = NoFault" "ch_fault (ch 1) = NoFault"
    and "ir_RequestFingerprint r = xl_Fingerprint x" and "xl_Now x < ir_ExpiresAt r"
    and "ir_Status r = IdempotencyStatusProcessing"
  shows "fst (coord_run lib cfg R ch 7 (Claiming x, db)) =
       Finished (Inl (conflictWithRetryAfter ErrIdempotencyInProgress (ir_LockedUntil r) (xl_Now x)))
     \<and> rows (snd (coord_run lib cfg R ch 7 (Claiming x, db))) = rows db"
  using finds_record [of db x r ch lib cfg, OF assms(1-4)] assms(5-7) by (auto simp: after_get_def check_status_def)

lemma replay:
  assumes "inv db" and "rows db (xkey x) = Some r" and "ch_fault (ch 0) = NoFault" "ch_fault (ch 1) = NoFault"
    and "ir_RequestFingerprint r = xl_Fingerprint x" and "xl_Now x < ir_ExpiresAt r"
    and "ir_Status r = IdempotencyStatusSucceeded" and "decodeStoredResponse lib (ir_ResponseBody r) = Some d"
  shows "fst (coord_run lib cfg R ch 7 (Claiming x, db)) = Finished (Inr (result_of d True))
     \<and> rows (snd (coord_run lib cfg R ch 7 (Claiming x, db))) = rows db"
  using finds_record [of db x r ch lib cfg, OF assms(1-4)] assms(5-8) by (auto simp: after_get_def check_status_def)

text \<open>A claimed execution that succeeds.\<close>

lemma executes:
  assumes db: "inv db" and row: "rows db (xkey x) = Some r" "ir_ID r = rid"
    and "ch_fault (ch 1) = NoFault" and "ch_outcome (ch 0) = Inr d" and "marshalStoredResponse lib cfg d = Some body"
  shows "\<exists>db1. coord_run lib cfg R ch (Suc (Suc n)) (Executing x rid, db) = (Finished (Inr (result_of d False)), db1)
     \<and> inv db1 \<and> rows db1 (xkey x) = Some (succeeded_row (ch_dbnow (ch 1)) 200 body (xl_ExpiresAt x) r)"
  using assms(4-6) succeed [OF db, of "ch_dbnow (ch 1)" rid 200 body "xl_ExpiresAt x"] row
  by (simp add: coord_step_def after_execute_def after_mark_succeeded_def update_where_def)

lemma first_run:
  assumes db: "inv db" and none: "rows db (xkey x) = None" and ok: "\<And>k. ch_fault (ch k) = NoFault"
    and out: "ch_outcome (ch 1) = Inr d" and body: "marshalStoredResponse lib cfg d = Some body"
  shows "\<exists>db1 r. coord_run lib cfg R ch 7 (Claiming x, db) = (Finished (Inr (result_of d False)), db1)
     \<and> inv db1 \<and> rows db1 (xkey x) = Some r \<and> ir_Status r = IdempotencyStatusSucceeded
     \<and> ir_ResponseBody r = Some body \<and> ir_RequestFingerprint r = xl_Fingerprint x \<and> ir_ExpiresAt r = xl_ExpiresAt x"
proof -
  let ?c = "repo_CreateProcessing R (ch_dbnow (ch 0)) (claim_record x) db"
  obtain rid where c: "0 < rid"
      "rows (fst ?c) = (rows db)(xkey x \<mapsto> inserted_row rid (ch_dbnow (ch 0)) (claim_record x))"
      "snd ?c = (True, (claim_record x)\<lparr>ir_ID := rid, ir_CreatedAt := ch_dbnow (ch 0), ir_UpdatedAt := ch_dbnow (ch 0)\<rparr>)"
    using create_new [OF db, of "claim_record x" "ch_dbnow (ch 0)"] none by auto
  have inv1: "inv (fst ?c)" by (rule create_inv [OF db])
  have step: "coord_run lib cfg R ch 7 (Claiming x, db) =
      coord_run lib cfg R (\<lambda>k. ch (Suc k)) (Suc (Suc 4)) (Executing x rid, fst ?c)"
    using c ok by (simp add: coord_run_numeral(1) coord_step_def after_create_def start_execute_def)
  show ?thesis unfolding step
    using executes [OF inv1, of x "inserted_row rid (ch_dbnow (ch 0)) (claim_record x)" rid
        "\<lambda>k. ch (Suc k)" d lib cfg body 4] c(2) ok out body
    by (auto simp: succeeded_row_def inserted_row_def claim_record_def)
qed

lemma retry:
  assumes db: "inv db" and r: "rows db (xkey x) = Some r" and ok: "\<And>k. ch_fault (ch k) = NoFault"
    and fp: "ir_RequestFingerprint r = xl_Fingerprint x" "xl_Now x < ir_ExpiresAt r"
    and st: "ir_Status r = IdempotencyStatusFailedRetryable" "ir_LockedUntil r = Some l" "l \<le> xl_Now x"
    and out: "ch_outcome (ch 3) = Inr d" and body: "marshalStoredResponse lib cfg d = Some body"
  shows "\<exists>db1 r1. coord_run lib cfg R ch 7 (Claiming x, db) = (Finished (Inr (result_of d False)), db1)
     \<and> rows db1 (xkey x) = Some r1 \<and> ir_Status r1 = IdempotencyStatusSucceeded \<and> ir_ResponseBody r1 = Some body"
proof -
  obtain db1 where db1: "inv db1" "rows db1 = rows db" "coord_run lib cfg R ch 7 (Claiming x, db) =
      coord_run lib cfg R (\<lambda>k. ch (Suc (Suc k))) 5 (after_get lib x (Some (Some r)), db1)"
    using finds_record [of db x r ch lib cfg] db r ok by blast
  let ?n = "ch_dbnow (ch (Suc (Suc 0)))"
  let ?t = "repo_TryReclaim R ?n (ir_ID r) IdempotencyStatusFailedRetryable (xl_Now x) (xl_LockedUntil x) (xl_ExpiresAt x) db1"
  have P: "reclaimable (ir_ID r) IdempotencyStatusFailedRetryable (xl_Now x) r" using st by (simp add: reclaimable_def)
  have t: "inv (fst ?t)" "rows (fst ?t) (xkey x) = Some (reclaimed_row ?n (xl_LockedUntil x) (xl_ExpiresAt x) r)" "snd ?t"
    using reclaim [OF db1(1), of ?n "ir_ID r" IdempotencyStatusFailedRetryable "xl_Now x" "xl_LockedUntil x" "xl_ExpiresAt x"]
      P r db1(2) by (auto simp: update_where_def some_row_def simp del: split_paired_Ex)
  have rid: "ir_ID r \<noteq> 0" using row_key [OF db r] by simp
  have step: "coord_run lib cfg R ch 7 (Claiming x, db) =
      coord_run lib cfg R (\<lambda>k. ch (Suc (Suc (Suc k)))) (Suc (Suc 2)) (Executing x (ir_ID r), fst ?t)"
    using fp st t rid ok
    by (simp add: db1(3) after_get_def check_status_def coord_run_numeral(3) coord_step_def after_reclaim_def start_execute_def)
  show ?thesis unfolding step
    using executes [OF t(1,2), of "ir_ID r" "\<lambda>k. ch (Suc (Suc (Suc k)))" d lib cfg body 2] ok out body
    by (auto simp: succeeded_row_def numeral_eq_Suc)
qed

end

text \<open>
  (C36) Round trip through the store: a request whose key is new executes and returns its data; a later
  request with the same key and payload, before the record expires, executes nothing, changes no
  record and returns what the stored body decodes to, marked as replayed.
\<close>

theorem idempotent_replay:
  assumes "request lib cfg opts now x" and "request lib cfg opts' now' y"
    and "xkey y = xkey x" and "xl_Fingerprint y = xl_Fingerprint x" and "now' < xl_ExpiresAt x"
    and "table_wf t" and "table_map t (xkey x) = None"
    and "\<And>k. ch_fault (ch k) = NoFault" and "\<And>k. ch_fault (ch' k) = NoFault"
    and "ch_outcome (ch 1) = Inr d" and "marshalStoredResponse lib cfg d = Some body"
    and "decodeStoredResponse lib (Some body) = Some d'"
  shows "let (r1, t1) = Execute lib cfg idempotencyRepository ch opts now t;
             (r2, t2) = Execute lib cfg idempotencyRepository ch' opts' now' t1
         in r1 = Finished (Inr (result_of d False)) \<and> r2 = Finished (Inr (result_of d' True))
            \<and> table_map t2 = table_map t1"
proof -
  note start = assms(1,2) [unfolded request_def]
  have now': "xl_Now y = now'"
    using Execute_start_cases [of lib "\<lparr>co_repo = Some idempotencyRepository, co_cfg = cfg\<rparr>" True opts' now'] start(2)
    by (metis exec_pc.distinct exec_pc.inject(1))
  obtain t1 r where t1: "coord_run lib cfg idempotencyRepository ch 7 (Claiming x, t) = (Finished (Inr (result_of d False)), t1)"
      "table_wf t1" "table_map t1 (xkey x) = Some r" "ir_Status r = IdempotencyStatusSucceeded"
      "ir_ResponseBody r = Some body" "ir_RequestFingerprint r = xl_Fingerprint x" "ir_ExpiresAt r = xl_ExpiresAt x"
    using pg.first_run [where ch = ch, OF assms(6-8,10,11)] by blast
  have "fst (coord_run lib cfg idempotencyRepository ch' 7 (Claiming y, t1)) = Finished (Inr (result_of d' True))
      \<and> table_map (snd (coord_run lib cfg idempotencyRepository ch' 7 (Claiming y, t1))) = table_map t1"
    by (rule pg.replay [where r = r]) (use t1 assms now' in simp_all)
  then show ?thesis using t1(1) start by (simp add: Execute_def split_beta)
qed

text \<open>
  A key used before with another payload is refused, whatever became of the first request: the
  answer is the conflict error, nothing is executed and no record changes.
\<close>

theorem idempotent_conflict:
  assumes "request lib cfg opts now x" and "table_wf t" and "table_map t (xkey x) = Some r"
    and "ir_RequestFingerprint r \<noteq> xl_Fingerprint x"
    and "ch_fault (ch 0) = NoFault" "ch_fault (ch 1) = NoFault"
  shows "fst (Execute lib cfg idempotencyRepository ch opts now t) = Finished (Inl ErrIdempotencyKeyConflict)
     \<and> table_map (snd (Execute lib cfg idempotencyRepository ch opts now t)) = table_map t"
  using pg.conflict [OF assms(2,3,5,6,4), of lib cfg] assms(1) by (simp add: Execute_def request_def)

text \<open>
  A request for a key that is being processed is refused and told to come back: after a number
  of seconds that is at least 1 and at most one more than the lock still lasts. No record changes.
\<close>

theorem idempotent_in_progress:
  assumes "request lib cfg opts now x" and "table_wf t" and "table_map t (xkey x) = Some r"
    and "ir_RequestFingerprint r = xl_Fingerprint x" and "xl_Now x < ir_ExpiresAt r"
    and "ir_Status r = IdempotencyStatusProcessing" and "ir_LockedUntil r = Some l"
    and "ch_fault (ch 0) = NoFault" "ch_fault (ch 1) = NoFault"
  shows "\<exists>s. fst (Execute lib cfg idempotencyRepository ch opts now t) = Finished (Inl (ErrIdempotencyInProgress (Some s)))
     \<and> 1 \<le> s \<and> (s - 1) * time_Second \<le> max 0 (l - xl_Now x)
     \<and> table_map (snd (Execute lib cfg idempotencyRepository ch opts now t)) = table_map t"
proof -
  have "\<exists>s. conflictWithRetryAfter ErrIdempotencyInProgress (Some l) (xl_Now x) = ErrIdempotencyInProgress (Some s)
      \<and> 1 \<le> s \<and> (s - 1) * time_Second \<le> max 0 (l - xl_Now x)"
    by (auto simp: conflictWithRetryAfter_def time_Second_def Let_def)
  then show ?thesis
    using pg.busy [OF assms(2,3,8,9,4-6), of lib cfg] assms(1,7) by (auto simp: Execute_def request_def)
qed

text \<open>
  A failed request can be repeated: once the back-off is over, a request with the same key and
  payload takes the record over, executes, returns its data and stores it.
\<close>

theorem idempotent_retry:
  assumes "request lib cfg opts now x" and "table_wf t" and "table_map t (xkey x) = Some r"
    and "ir_RequestFingerprint r = xl_Fingerprint x" and "xl_Now x < ir_ExpiresAt r"
    and "ir_Status r = IdempotencyStatusFailedRetryable" and "ir_LockedUntil r = Some l" and "l \<le> xl_Now x"
    and "\<And>k. ch_fault (ch k) = NoFault"
    and "ch_outcome (ch 3) = Inr d" and "marshalStoredResponse lib cfg d = Some body"
  shows "\<exists>t' r'. Execute lib cfg idempotencyRepository ch opts now t = (Finished (Inr (result_of d False)), t')
     \<and> table_map t' (xkey x) = Some r' \<and> ir_Status r' = IdempotencyStatusSucceeded \<and> ir_ResponseBody r' = Some body"
  using pg.retry [where ch = ch, OF assms(2,3,9,4-8,10,11)] assms(1) by (simp add: Execute_def request_def)

subsection \<open>Stored bodies\<close>

lemma truncate_loop_longest:
  "\<exists>n \<le> maxBytes. truncate_loop s maxBytes = take n s \<and> ValidString (take n s)
     \<and> (\<forall>k. n < k \<and> k \<le> maxBytes \<longrightarrow> \<not> ValidString (take k s))"
proof (induction s maxBytes rule: truncate_loop.induct)
  case (1 s maxBytes)
  show ?case
  proof (cases "0 < maxBytes \<and> \<not> ValidString (take maxBytes s)")
    case True
    then obtain n where n: "n \<le> maxBytes - 1" "truncate_loop s (maxBytes - 1) = take n s" "ValidString (take n s)"
        "\<forall>k. n < k \<and> k \<le> maxBytes - 1 \<longrightarrow> \<not> ValidString (take k s)" using 1 by blast
    have "\<not> ValidString (take k s)" if "n < k" "k \<le> maxBytes" for k
      using n(4) True that by (cases "k = maxBytes") auto
    then show ?thesis using n True by (intro exI [of _ n]) (simp add: truncate_loop.simps)
  next
    case False
    then have "ValidString (take maxBytes s)" by (cases "maxBytes = 0") (auto simp: ValidString_def valid_bytes.simps)
    then show ?thesis using False by (intro exI [of _ maxBytes]) (auto simp: truncate_loop.simps)
  qed
qed

text \<open>A cut inside an encoding leaves at most three bytes of it.\<close>

lemma valid_bytes_Nil [simp]: "valid_bytes []"
  by (simp add: valid_bytes.simps)

lemma rune_len_take: "0 < rune_len bs \<Longrightarrow> rune_len bs \<le> n \<Longrightarrow> rune_len (take n bs) = rune_len bs"
proof (cases bs)
  case (Cons b cs)
  moreover obtain m where "n = Suc m" if "0 < n" using gr0_conv_Suc by blast
  ultimately show "rune_len (take n bs) = rune_len bs" if "0 < rune_len bs" "rune_len bs \<le> n"
    using that by (auto simp: take_Cons' split: list.splits if_splits nat.splits)
qed simp

lemma valid_near:
  "valid_bytes bs \<Longrightarrow> n \<le> length bs \<Longrightarrow> \<exists>k \<le> n. n < k + 4 \<and> valid_bytes (take k bs)"
proof (induction bs arbitrary: n rule: valid_bytes.induct)
  case (1 bs)
  show ?case
  proof (cases "n < rune_len bs \<or> bs = []")
    case True
    then have "n < 4" using rune_len_bounds(1) [of bs] 1(3) by auto
    then show ?thesis by (intro exI [of _ 0]) simp
  next
    case False
    then have r: "rune_len bs \<noteq> 0" "valid_bytes (drop (rune_len bs) bs)" using 1(2) valid_bytes.simps [of bs] by (auto split: if_splits)
    let ?r = "rune_len bs"
    obtain k where k: "k \<le> n - ?r" "n - ?r < k + 4" "valid_bytes (take k (drop ?r bs))"
      using 1(1) [OF _ _ r(2), of "n - ?r"] False r(1) 1(3) by (auto simp: diff_le_mono)
    have "rune_len (take (?r + k) bs) = ?r" using rune_len_take [of bs "?r + k"] r by simp
    then have "valid_bytes (take (?r + k) bs)"
      using k(3) r valid_bytes.simps [of "take (?r + k) bs"] by (simp add: drop_take)
    then show ?thesis using k False by (intro exI [of _ "?r + k"]) auto
  qed
qed

text \<open>
  \<open>truncateUTF8\<close> returns the longest prefix of at most \<open>maxBytes\<close> bytes that is valid UTF-8; of a
  valid string it drops no more than three bytes beyond the limit.
\<close>

theorem truncateUTF8_longest_valid_prefix:
  assumes "0 < maxBytes" and "maxBytes < int (length s)"
  shows "\<exists>n. int n \<le> maxBytes \<and> truncateUTF8 s maxBytes = take n s \<and> ValidString (take n s)
     \<and> (\<forall>k. n < k \<and> int k \<le> maxBytes \<longrightarrow> \<not> ValidString (take k s))
     \<and> (ValidString s \<longrightarrow> maxBytes - 3 \<le> int n)"
proof -
  obtain n where n: "n \<le> nat maxBytes" "truncate_loop s (nat maxBytes) = take n s" "ValidString (take n s)"
      "\<forall>k. n < k \<and> k \<le> nat maxBytes \<longrightarrow> \<not> ValidString (take k s)"
    using truncate_loop_longest [of "nat maxBytes" s] by blast
  have "maxBytes - 3 \<le> int n" if valid: "ValidString s"
  proof -
    obtain k where k: "k \<le> nat maxBytes" "nat maxBytes < k + 4" "valid_bytes (take k (map of_char s))"
      using valid_near [OF valid [unfolded ValidString_def], of "nat maxBytes"] assms by force
    then have "ValidString (take k s)" by (simp add: ValidString_def take_map)
    then have "k \<le> n" using n(4) k(1) by (meson not_less)
    then show ?thesis using k(2) by linarith
  qed
  then show ?thesis using n assms by (intro exI [of _ n]) (auto simp: truncateUTF8_def)
qed

theorem truncateUTF8_longest_valid_prefix_witness:
  "\<exists>n. int n \<le> 2 \<and> truncateUTF8 [byte 65, byte 0xC3, byte 0xA9] 2 = take n [byte 65, byte 0xC3, byte 0xA9]
     \<and> ValidString (take n [byte 65, byte 0xC3, byte 0xA9])
     \<and> (\<forall>k. n < k \<and> int k \<le> 2 \<longrightarrow> \<not> ValidString (take k [byte 65, byte 0xC3, byte 0xA9]))
     \<and> (ValidString [byte 65, byte 0xC3, byte 0xA9] \<longrightarrow> 2 - 3 \<le> int n)"
  by (rule truncateUTF8_longest_valid_prefix) simp_all


lemma truncated_mark_visible: "TrimSpace (s @ truncated_mark) \<noteq> []"
proof -
  have "list_all (\<lambda>e. CHR '')'' \<notin> set e) space_encodings" by code_simp
  then show ?thesis using TrimSpace_snoc [of "CHR '')''" "s @ ''...(truncated''"]
    by (simp add: truncated_mark_def list_all_iff)
qed

text \<open>
  A response longer than \<open>MaxStoredResponseLen\<close> is stored cut off and marked; no JSON decoder
  accepts what ends in the mark. Replaying such a record does not give the caller the answer, it
  fails with the error of an unavailable store.
\<close>

theorem truncated_response_not_replayed:
  assumes json: "\<And>s. il_Unmarshal lib (s @ truncated_mark) = None"
    and raw: "il_Marshal lib d = Some raw" and long: "0 < ic_MaxStoredResponseLen cfg"
      "ic_MaxStoredResponseLen cfg < int (length (il_RedactText lib raw))"
    and r: "ir_Status r = IdempotencyStatusSucceeded" "ir_ResponseBody r = marshalStoredResponse lib cfg d"
  shows "check_status lib x r = Finished (Inl ErrIdempotencyStoreUnavail)"
  using assms
  by (simp add: check_status_def marshalStoredResponse_def decodeStoredResponse_def truncated_mark_visible Let_def)

subsection \<open>Concrete requests\<close>

definition demo_lib :: "(string, string) idem_lib" where
  "demo_lib = \<lparr>il_Marshal = Some, il_Unmarshal = Some, il_EmptyObject = ''{}'', il_Sha256Hex = (\<lambda>s. s),
     il_ToUpper = (\<lambda>s. s), il_RedactText = (\<lambda>s. s), il_Reason = (\<lambda>e. e)\<rparr>"

definition demo_opts :: "string IdempotencyExecuteOptions" where
  "demo_opts = \<lparr>io_Scope = ''s'', io_ActorScope = ''u'', io_Method = ''POST'', io_Route = ''/r'',
     io_IdempotencyKey = ''k'', io_Payload = ''p'', io_TTL = 100, io_RequireKey = True\<rparr>"

definition demo_locals :: "int \<Rightarrow> exec_locals" where
  "demo_locals now = \<lparr>xl_Scope = ''s'', xl_KeyHash = ''k'',
     xl_Fingerprint = ''POST'' @ newline @ ''/r'' @ newline @ ''u'' @ newline @ ''p'',
     xl_Now = now, xl_ExpiresAt = now + 100, xl_LockedUntil = now + 30 * time_Second\<rparr>"

definition demo_choice :: "string \<Rightarrow> (string, string) choice" where
  "demo_choice d = \<lparr>ch_fault = NoFault, ch_dbnow = 0, ch_outcome = Inr d\<rparr>"

lemma demo_request: "request demo_lib DefaultIdempotencyConfig demo_opts now (demo_locals now)"
proof -
  have "TrimSpace ''k'' = ''k''" by code_simp
  then show ?thesis
    by (simp add: request_def Execute_start_def NormalizeIdempotencyKey_def demo_lib_def demo_opts_def
        demo_locals_def BuildIdempotencyFingerprint_def HashIdempotencyKey_def DefaultIdempotencyConfig_def Let_def)
qed

theorem idempotent_replay_witness:
  "let (r1, t1) = Execute demo_lib DefaultIdempotencyConfig idempotencyRepository (\<lambda>k. demo_choice ''d'') demo_opts 5 empty_table;
       (r2, t2) = Execute demo_lib DefaultIdempotencyConfig idempotencyRepository (\<lambda>k. demo_choice ''other'') demo_opts 9 t1
   in r1 = Finished (Inr (result_of ''d'' False)) \<and> r2 = Finished (Inr (result_of ''d'' True))
      \<and> table_map t2 = table_map t1"
proof -
  have "TrimSpace ''d'' = ''d''" by code_simp
  then show ?thesis
    by (intro idempotent_replay [OF demo_request demo_request, where body = "''d''"])
      (simp_all add: demo_locals_def xkey_def demo_choice_def marshalStoredResponse_def decodeStoredResponse_def
        demo_lib_def DefaultIdempotencyConfig_def)
qed

definition demo_row :: "string \<Rightarrow> string \<Rightarrow> int option \<Rightarrow> IdempotencyRecord" where
  "demo_row fp st l =
     zero_IdempotencyRecord
       \<lparr>ir_ID := 1, ir_Scope := ''s'', ir_IdempotencyKeyHash := ''k'', ir_RequestFingerprint := fp,
        ir_Status := st, ir_LockedUntil := l, ir_ExpiresAt := 100\<rparr>"

definition demo_table :: "IdempotencyRecord \<Rightarrow> idem_table" where
  "demo_table r = \<lparr>it_rows = [r], it_next = 2\<rparr>"

lemma demo_table_facts:
  "table_wf (demo_table (demo_row fp st l))"
  "table_map (demo_table (demo_row fp st l)) (xkey (demo_locals now)) = Some (demo_row fp st l)"
  by (simp_all add: table_wf_def table_map_def demo_table_def demo_row_def demo_locals_def xkey_def
      record_key_def)

theorem idempotent_conflict_witness:
  "fst (Execute demo_lib DefaultIdempotencyConfig idempotencyRepository (\<lambda>k. demo_choice ''d'') demo_opts 5
      (demo_table (demo_row ''x'' IdempotencyStatusSucceeded None))) = Finished (Inl ErrIdempotencyKeyConflict)"
  by (rule conjunct1 [OF idempotent_conflict [OF demo_request demo_table_facts]])
    (simp_all add: demo_choice_def demo_row_def demo_locals_def newline_def)

definition busy_table :: idem_table where
  "busy_table = demo_table (demo_row (xl_Fingerprint (demo_locals 5)) IdempotencyStatusProcessing (Some 7))"

theorem idempotent_in_progress_witness:
  "\<exists>s. fst (Execute demo_lib DefaultIdempotencyConfig idempotencyRepository (\<lambda>k. demo_choice ''d'')
        demo_opts 5 busy_table) = Finished (Inl (ErrIdempotencyInProgress (Some s)))
     \<and> 1 \<le> s \<and> (s - 1) * time_Second \<le> max 0 (7 - xl_Now (demo_locals 5))
     \<and> table_map (snd (Execute demo_lib DefaultIdempotencyConfig idempotencyRepository
           (\<lambda>k. demo_choice ''d'') demo_opts 5 busy_table)) = table_map busy_table"
  unfolding busy_table_def
  by (rule idempotent_in_progress [OF demo_request demo_table_facts])
    (simp_all add: demo_choice_def demo_row_def demo_locals_def)

theorem idempotent_retry_witness:
  "\<exists>t' r'. Execute demo_lib DefaultIdempotencyConfig idempotencyRepository (\<lambda>k. demo_choice ''d'') demo_opts 5
      (demo_table (demo_row (xl_Fingerprint (demo_locals 5)) IdempotencyStatusFailedRetryable (Some 3))) =
      (Finished (Inr (result_of ''d'' False)), t')
    \<and> table_map t' (xkey (demo_locals 5)) = Some r' \<and> ir_Status r' = IdempotencyStatusSucceeded
    \<and> ir_ResponseBody r' = Some ''d''"
  by (rule idempotent_retry [OF demo_request demo_table_facts, where l = 3])
    (simp_all add: demo_choice_def demo_row_def demo_locals_def marshalStoredResponse_def demo_lib_def
      DefaultIdempotencyConfig_def)


definition strict_lib :: "(string, string) idem_lib" where
  "strict_lib = demo_lib\<lparr>il_Unmarshal := (\<lambda>s. if s \<noteq> [] \<and> last s = CHR ''}'' then Some s else None)\<rparr>"

theorem truncated_response_not_replayed_witness:
  "check_status strict_lib (demo_locals 5)
     ((demo_row ''x'' IdempotencyStatusSucceeded None)\<lparr>ir_ResponseBody :=
        marshalStoredResponse strict_lib (DefaultIdempotencyConfig\<lparr>ic_MaxStoredResponseLen := 2\<rparr>) ''{abc}''\<rparr>)
   = Finished (Inl ErrIdempotencyStoreUnavail)"
  by (rule truncated_response_not_replayed [where raw = "''{abc}''"
        and cfg = "DefaultIdempotencyConfig\<lparr>ic_MaxStoredResponseLen := 2\<rparr>" and d = "''{abc}''"])
    (simp_all add: strict_lib_def demo_lib_def truncated_mark_def demo_row_def)

text \<open>Two requests with different keys, both executing.\<close>

definition demo_system :: "(string, string, idem_table) idem_sys" where
  "demo_system =
     \<lparr>sy_db = \<lparr>it_rows = [inserted_row 1 0 (claim_record (demo_locals 5)),
                          inserted_row 2 0 (claim_record ((demo_locals 6)\<lparr>xl_KeyHash := ''q''\<rparr>))],
               it_next = 3\<rparr>,
      sy_threads = [Executing (demo_locals 5) 1, Executing ((demo_locals 6)\<lparr>xl_KeyHash := ''q''\<rparr>) 2],
      sy_done = []\<rparr>"

lemma demo_request_q:
  "Execute_start demo_lib \<lparr>co_repo = Some idempotencyRepository, co_cfg = DefaultIdempotencyConfig\<rparr> True
     (demo_opts\<lparr>io_IdempotencyKey := ''q''\<rparr>) now = Claiming ((demo_locals now)\<lparr>xl_KeyHash := ''q''\<rparr>)"
proof -
  have "TrimSpace ''q'' = ''q''" by code_simp
  then show ?thesis
    by (simp add: Execute_start_def NormalizeIdempotencyKey_def demo_lib_def demo_opts_def
        demo_locals_def BuildIdempotencyFingerprint_def HashIdempotencyKey_def DefaultIdempotencyConfig_def Let_def)
qed

lemma demo_system_reach:
  "idem_reach demo_lib DefaultIdempotencyConfig idempotencyRepository 50 empty_table demo_system"
proof -
  let ?R = "idem_reach demo_lib DefaultIdempotencyConfig idempotencyRepository 50 empty_table"
  note start = demo_request [of 5, unfolded request_def] demo_request_q [of 6]
  have ttl: "effective_ttl cfg demo_opts = 100" "effective_ttl cfg (demo_opts\<lparr>io_IdempotencyKey := ''q''\<rparr>) = 100" for cfg
    by (simp_all add: effective_ttl_def demo_opts_def)
  have "?R \<lparr>sy_db = empty_table, sy_threads = [], sy_done = []\<rparr>" by (rule idem_reach.start)
  from idem_reach.arrive [OF this, of 5 demo_opts True]
  have "?R \<lparr>sy_db = empty_table, sy_threads = [Claiming (demo_locals 5)], sy_done = []\<rparr>"
    by (simp add: start ttl)
  from idem_reach.arrive [OF this, of 6 "demo_opts\<lparr>io_IdempotencyKey := ''q''\<rparr>" True]
  have "?R \<lparr>sy_db = empty_table, sy_threads = [Claiming (demo_locals 5), Claiming ((demo_locals 6)\<lparr>xl_KeyHash := ''q''\<rparr>)], sy_done = []\<rparr>"
    by (simp add: start ttl)
  from idem_reach.call [OF this, of 0 "demo_choice ''d''"]
  have "?R \<lparr>sy_db = \<lparr>it_rows = [inserted_row 1 0 (claim_record (demo_locals 5))], it_next = 2\<rparr>,
      sy_threads = [Executing (demo_locals 5) 1, Claiming ((demo_locals 6)\<lparr>xl_KeyHash := ''q''\<rparr>)], sy_done = []\<rparr>"
    by (simp add: coord_step_def demo_choice_def idempotencyRepository_def CreateProcessing_def empty_table_def
        after_create_def start_execute_def completed_key_def Let_def)
  from idem_reach.call [OF this, of 1 "demo_choice ''d''"]
  show ?thesis
    by (simp add: coord_step_def demo_choice_def idempotencyRepository_def CreateProcessing_def
        after_create_def start_execute_def completed_key_def Let_def demo_system_def xkey_def demo_locals_def)
qed

theorem idempotent_execution_exclusive_witness: "(''s'', ''k'') \<noteq> (''s'', ''q'')"
  using idempotent_execution_exclusive [OF demo_system_reach empty_table_wf, of 0 "demo_locals 5" 1 1
      "(demo_locals 6)\<lparr>xl_KeyHash := ''q''\<rparr>" 2]
  by (simp add: demo_system_def demo_locals_def)

theorem idempotent_success_once_witness: "distinct (sy_done demo_system)"
  using idempotent_success_once [OF demo_system_reach empty_table_wf] by simp

end
