(* ===== verification/System_Lock.thy ===== *)
theory System_Lock
  imports Idempotency
begin

text \<open>
  \<open>service/system_operation_lock_service.go\<close>: the lock that keeps system operations apart. It lives in
  one record of the idempotency store, with the operation's identifier as its fingerprint, a lease
  that a goroutine renews, and an expiry. \<open>Acquire\<close> is a machine of the same kind as \<open>Execute\<close>: one
  program counter per call of the store.

  The theory shows that a live lease excludes every other operation, that a released lock can be
  taken again, and that an operation that took over the record of another one cannot renew its
  lease, because taking over keeps the fingerprint of the record.
\<close>

subsection \<open>The service\<close>

definition systemOperationLockScope :: string where
  "systemOperationLockScope = ''admin.system.operations.global_lock''"

definition systemOperationLockKey :: string where
  "systemOperationLockKey = ''global-system-operation-lock''"

record SystemOperationLock =
  sl_recordID :: int
  sl_operationID :: string

record SystemOperationLockService =
  ss_lease :: int
  ss_renewInterval :: int
  ss_ttl :: int

datatype lock_error =
    LockStoreUnavail
  | OperationIDRequired
  | ErrSystemOperationBusy "string option" "int option"   \<comment> \<open>metadata \<open>operation_id\<close> and \<open>retry_after\<close>\<close>

text \<open>Go's integer division truncates; the lease is positive here.\<close>

definition NewSystemOperationLockService :: "IdempotencyConfig \<Rightarrow> SystemOperationLockService" where
  "NewSystemOperationLockService cfg =
     (let lease = (if ic_ProcessingTimeout cfg \<le> 0 then 30 * time_Second else ic_ProcessingTimeout cfg);
          renewInterval = lease div 3;
          renewInterval = (if renewInterval < time_Second then time_Second else renewInterval);
          ttl = (if ic_SystemOperationTTL cfg \<le> 0 then 3600 * time_Second else ic_SystemOperationTTL cfg)
      in \<lparr>ss_lease = lease, ss_renewInterval = renewInterval, ss_ttl = ttl\<rparr>)"

definition busyError :: "string \<Rightarrow> int option \<Rightarrow> int \<Rightarrow> lock_error" where
  "busyError operationID lockedUntil now =
     ErrSystemOperationBusy
       (if operationID \<noteq> [] then Some operationID else None)
       (case lockedUntil of
          None \<Rightarrow> None
        | Some l \<Rightarrow> let sec = (l - now) div time_Second in Some (if sec \<le> 0 then 1 else sec))"

record lock_locals =
  ll_operationID :: string
  ll_keyHash :: string
  ll_now :: int
  ll_lockedUntil :: int
  ll_expiresAt :: int

datatype lock_pc =
    LockCreate lock_locals
  | LockGet lock_locals
  | LockReclaim lock_locals IdempotencyRecord
  | LockGetLatest lock_locals
  | LockFailed lock_error
  | LockHeld SystemOperationLock

definition Acquire_start ::
  "('v, 'e) idem_lib \<Rightarrow> SystemOperationLockService \<Rightarrow> bool \<Rightarrow> string \<Rightarrow> int \<Rightarrow> lock_pc" where
  "Acquire_start lib s hasRepo operationID now =
     (if \<not> hasRepo then LockFailed LockStoreUnavail
      else if operationID = [] then LockFailed OperationIDRequired
      else LockCreate
        \<lparr>ll_operationID = operationID, ll_keyHash = HashIdempotencyKey lib systemOperationLockKey,
         ll_now = now, ll_lockedUntil = now + ss_lease s, ll_expiresAt = now + ss_ttl s\<rparr>)"

definition lock_record :: "lock_locals \<Rightarrow> IdempotencyRecord" where
  "lock_record x =
     zero_IdempotencyRecord
       \<lparr>ir_Scope := systemOperationLockScope, ir_IdempotencyKeyHash := ll_keyHash x,
        ir_RequestFingerprint := ll_operationID x, ir_Status := IdempotencyStatusProcessing,
        ir_LockedUntil := Some (ll_lockedUntil x), ir_ExpiresAt := ll_expiresAt x\<rparr>"

definition lock_taken :: "lock_locals \<Rightarrow> int \<Rightarrow> lock_pc" where
  "lock_taken x rid =
     (if rid = 0 then LockFailed LockStoreUnavail
      else LockHeld \<lparr>sl_recordID = rid, sl_operationID = ll_operationID x\<rparr>)"

definition after_lock_create :: "lock_locals \<Rightarrow> (bool \<times> IdempotencyRecord) option \<Rightarrow> lock_pc" where
  "after_lock_create x reply =
     (case reply of
        None \<Rightarrow> LockFailed LockStoreUnavail
      | Some (owner, record) \<Rightarrow> if owner then lock_taken x (ir_ID record) else LockGet x)"

definition lock_live :: "IdempotencyRecord \<Rightarrow> int \<Rightarrow> bool" where
  "lock_live r now \<longleftrightarrow>
     ir_Status r = IdempotencyStatusProcessing
     \<and> (case ir_LockedUntil r of None \<Rightarrow> False | Some l \<Rightarrow> l > now)"

definition after_lock_get :: "lock_locals \<Rightarrow> IdempotencyRecord option option \<Rightarrow> lock_pc" where
  "after_lock_get x reply =
     (case reply of
        None \<Rightarrow> LockFailed LockStoreUnavail
      | Some None \<Rightarrow> LockFailed LockStoreUnavail
      | Some (Some existing) \<Rightarrow>
          if lock_live existing (ll_now x)
          then LockFailed (busyError (ir_RequestFingerprint existing) (ir_LockedUntil existing) (ll_now x))
          else LockReclaim x existing)"

definition after_lock_reclaim :: "lock_locals \<Rightarrow> IdempotencyRecord \<Rightarrow> bool option \<Rightarrow> lock_pc" where
  "after_lock_reclaim x existing reply =
     (case reply of
        None \<Rightarrow> LockFailed LockStoreUnavail
      | Some reclaimed \<Rightarrow> if \<not> reclaimed then LockGetLatest x else lock_taken x (ir_ID existing))"

text \<open>The error of the last query is ignored: it reads as no record.\<close>

definition after_lock_get_latest :: "lock_locals \<Rightarrow> IdempotencyRecord option option \<Rightarrow> lock_pc" where
  "after_lock_get_latest x reply =
     (case reply of
        Some (Some latest) \<Rightarrow>
          LockFailed (busyError (ir_RequestFingerprint latest) (ir_LockedUntil latest) (ll_now x))
      | _ \<Rightarrow> LockFailed (ErrSystemOperationBusy None None))"

definition lock_step ::
  "'db IdempotencyRepository \<Rightarrow> fault \<Rightarrow> int \<Rightarrow> lock_pc \<Rightarrow> 'db \<Rightarrow> lock_pc \<times> 'db" where
  "lock_step R f dbnow pc db =
     (case pc of
        LockCreate x \<Rightarrow>
          (case faulty f db (repo_CreateProcessing R dbnow (lock_record x) db) of
             (db', reply) \<Rightarrow> (after_lock_create x reply, db'))
      | LockGet x \<Rightarrow>
          (case faulty f db (db, repo_GetByScopeAndKeyHash R systemOperationLockScope (ll_keyHash x) db) of
             (db', reply) \<Rightarrow> (after_lock_get x reply, db'))
      | LockReclaim x existing \<Rightarrow>
          (case faulty f db (repo_TryReclaim R dbnow (ir_ID existing) (ir_Status existing) (ll_now x)
                  (ll_lockedUntil x) (ll_expiresAt x) db) of
             (db', reply) \<Rightarrow> (after_lock_reclaim x existing reply, db'))
      | LockGetLatest x \<Rightarrow>
          (case faulty f db (db, repo_GetByScopeAndKeyHash R systemOperationLockScope (ll_keyHash x) db) of
             (db', reply) \<Rightarrow> (after_lock_get_latest x reply, db'))
      | LockFailed e \<Rightarrow> (LockFailed e, db)
      | LockHeld l \<Rightarrow> (LockHeld l, db))"

fun lock_run ::
  "'db IdempotencyRepository \<Rightarrow> int \<Rightarrow> nat \<Rightarrow> lock_pc \<times> 'db \<Rightarrow> lock_pc \<times> 'db" where
  "lock_run R dbnow 0 pd = pd"
| "lock_run R dbnow (Suc n) pd = lock_run R dbnow n (lock_step R NoFault dbnow (fst pd) (snd pd))"

text \<open>Four calls are the most \<open>Acquire\<close> makes (\<open>acquire_returns\<close>).\<close>

definition Acquire ::
  "('v, 'e) idem_lib \<Rightarrow> SystemOperationLockService \<Rightarrow> 'db IdempotencyRepository \<Rightarrow> string \<Rightarrow> int \<Rightarrow> int \<Rightarrow>
   'db \<Rightarrow> lock_pc \<times> 'db" where
  "Acquire lib s R operationID now dbnow db =
     lock_run R dbnow 4 (Acquire_start lib s True operationID now, db)"

definition released_body :: "string \<Rightarrow> string" where
  "released_body operationID =
     [byte 123, byte 34] @ ''operation_id'' @ [byte 34, byte 58, byte 34] @ operationID
     @ [byte 34, byte 44, byte 34] @ ''released'' @ [byte 34, byte 58] @ ''true'' @ [byte 125]"

definition Release ::
  "SystemOperationLockService \<Rightarrow> 'db IdempotencyRepository \<Rightarrow> SystemOperationLock \<Rightarrow> bool \<Rightarrow> string \<Rightarrow>
   int \<Rightarrow> int \<Rightarrow> 'db \<Rightarrow> 'db" where
  "Release s R lock succeeded failureReason now dbnow db =
     (let expiresAt = now + ss_ttl s in
      if succeeded
      then repo_MarkSucceeded R dbnow (sl_recordID lock) 200 (released_body (sl_operationID lock)) expiresAt db
      else repo_MarkFailedRetryable R dbnow (sl_recordID lock)
             (if failureReason = [] then ''SYSTEM_OPERATION_FAILED'' else failureReason) now expiresAt db)"

text \<open>One round of the renewal loop: the state of the loop (still running or not) and the store.\<close>

definition renew_tick ::
  "SystemOperationLockService \<Rightarrow> 'db IdempotencyRepository \<Rightarrow> fault \<Rightarrow> SystemOperationLock \<Rightarrow> int \<Rightarrow> int \<Rightarrow>
   'db \<Rightarrow> bool \<times> 'db" where
  "renew_tick s R f lock now dbnow db =
     (case faulty f db (repo_ExtendProcessingLock R dbnow (sl_recordID lock) (sl_operationID lock)
             (now + ss_lease s) (now + ss_ttl s) db) of
        (db', None) \<Rightarrow> (True, db')
      | (db', Some ok) \<Rightarrow> (ok, db'))"

subsection \<open>Properties\<close>

definition lock_key :: "lock_locals \<Rightarrow> string \<times> string" where
  "lock_key x = (systemOperationLockScope, ll_keyHash x)"

fun lock_rank :: "lock_pc \<Rightarrow> nat" where
  "lock_rank (LockCreate x) = 4"
| "lock_rank (LockGet x) = 3"
| "lock_rank (LockReclaim x r) = 2"
| "lock_rank (LockGetLatest x) = 1"
| "lock_rank (LockFailed e) = 0"
| "lock_rank (LockHeld l) = 0"

lemma lock_step_rank: "lock_rank (fst (lock_step R f n pc db)) \<le> lock_rank pc - 1"
  by (cases pc) (auto simp: lock_step_def after_lock_create_def after_lock_get_def after_lock_reclaim_def
      after_lock_get_latest_def lock_taken_def split_beta split: option.split)

lemma lock_run_rank: "lock_rank (fst pd) \<le> n \<Longrightarrow> lock_rank (fst (lock_run R dbnow n pd)) = 0"
proof (induction n arbitrary: pd)
  case (Suc n)
  then show ?case using lock_step_rank [of R NoFault dbnow "fst pd" "snd pd"] by simp
qed simp

lemma acquire_returns:
  "(\<exists>e. fst (Acquire lib s R operationID now dbnow db) = LockFailed e)
   \<or> (\<exists>l. fst (Acquire lib s R operationID now dbnow db) = LockHeld l)"
proof -
  have "lock_rank (Acquire_start lib s True operationID now) \<le> 4" by (simp add: Acquire_start_def)
  then have "lock_rank (fst (Acquire lib s R operationID now dbnow db)) = 0"
    by (simp add: Acquire_def lock_run_rank)
  then show ?thesis by (cases "fst (Acquire lib s R operationID now dbnow db)") simp_all
qed

text \<open>The program counters \<open>Acquire\<close> can be at, and the clock reading they carry.\<close>

fun lock_clock :: "lock_pc \<Rightarrow> lock_locals option" where
  "lock_clock (LockCreate x) = Some x"
| "lock_clock (LockGet x) = Some x"
| "lock_clock (LockReclaim x r) = Some x"
| "lock_clock (LockGetLatest x) = Some x"
| "lock_clock _ = None"

definition live_at :: "idem_map \<Rightarrow> lock_locals \<Rightarrow> bool" where
  "live_at m x \<longleftrightarrow> (\<exists>r. m (lock_key x) = Some r \<and> lock_live r (ll_now x))"

lemma lock_record_key [simp]: "record_key (lock_record x) = lock_key x"
  by (simp add: lock_record_def record_key_def lock_key_def)

context idempotency_repository
begin

text \<open>
  The record an operation wants to take over is the lock's own: what \<open>LockReclaim\<close> carries was read
  from the store.
\<close>

lemma reclaim_live:
  assumes "inv db" and "live_at (rows db) x" and "row_id_is (rows db) (lock_key x) (ir_ID r)"
  shows "\<not> some_row (reclaimable (ir_ID r) st (ll_now x)) (rows db)"
proof
  assume "some_row (reclaimable (ir_ID r) st (ll_now x)) (rows db)"
  then obtain k r0 where r0: "rows db k = Some r0" "reclaimable (ir_ID r) st (ll_now x) r0"
    by (auto simp: some_row_def)
  then have "rows db (lock_key x) = Some r0"
    using rows_unique [OF assms(1,3)] by (auto simp: reclaimable_def)
  then show False using assms(2) r0(2)
    by (auto simp: live_at_def lock_live_def reclaimable_def split: option.splits)
qed

lemma live_lock_excludes:
  assumes db: "inv db" and live: "live_at (rows db) x" and pc: "lock_clock pc = Some x"
    and own: "\<And>r. pc = LockReclaim x r \<Longrightarrow> row_id_is (rows db) (lock_key x) (ir_ID r)"
  shows "fst (lock_step R f n pc db) \<noteq> LockHeld l \<and> rows (snd (lock_step R f n pc db)) = rows db"
proof (cases pc)
  case (LockCreate y)
  obtain r where "rows db (lock_key x) = Some r" using live by (auto simp: live_at_def)
  then have "rows (fst (repo_CreateProcessing R n (lock_record x) db)) = rows db"
      "snd (repo_CreateProcessing R n (lock_record x) db) = (False, lock_record x)"
    using create_old [OF db, of "lock_record x" r] by simp_all
  then show ?thesis using LockCreate pc
    by (auto simp: lock_step_def faulty_def after_lock_create_def split: fault.split)
next
  case (LockGet y)
  then show ?thesis
    by (auto simp: lock_step_def faulty_def after_lock_get_def split: fault.split option.split)
next
  case (LockReclaim y r)
  then have no: "\<not> some_row (reclaimable (ir_ID r) (ir_Status r) (ll_now x)) (rows db)"
    using reclaim_live [OF db live own] pc by simp
  then show ?thesis using LockReclaim pc
      reclaim [OF db, of n "ir_ID r" "ir_Status r" "ll_now x" "ll_lockedUntil x" "ll_expiresAt x"]
    by (auto simp: lock_step_def faulty_def after_lock_reclaim_def update_none split: fault.split)
next
  case (LockGetLatest y)
  then show ?thesis
    by (auto simp: lock_step_def faulty_def after_lock_get_latest_def split: fault.split option.split)
qed (use pc in simp_all)

lemma renewal:
  assumes db: "inv db" and row: "rows db k = Some r" "ir_ID r = sl_recordID lock" "ir_Status r = IdempotencyStatusProcessing"
  shows "renew_tick s R NoFault lock now n db =
    (ir_RequestFingerprint r = sl_operationID lock, snd (renew_tick s R NoFault lock now n db))
    \<and> (ir_RequestFingerprint r \<noteq> sl_operationID lock \<longrightarrow>
        rows (snd (renew_tick s R NoFault lock now n db)) = rows db)"
proof -
  let ?P = "extendable (sl_recordID lock) (sl_operationID lock)"
  have "row_id_is (rows db) k (sl_recordID lock)" using row by (simp add: row_id_is_def)
  then have only: "r' = r" if "rows db k' = Some r'" "?P r'" for k' r'
    using rows_unique [OF db, of k "sl_recordID lock" k' r'] that row by (simp add: extendable_def)
  have P: "some_row ?P (rows db) \<longleftrightarrow> ir_RequestFingerprint r = sl_operationID lock"
  proof -
    have "ir_RequestFingerprint r = sl_operationID lock" if "some_row ?P (rows db)"
      using that only unfolding some_row_def by (metis extendable_def)
    moreover have "?P r" if "ir_RequestFingerprint r = sl_operationID lock"
      using that row by (simp add: extendable_def)
    ultimately show ?thesis unfolding some_row_def using row(1) by blast
  qed
  then show ?thesis
    using extend [OF db, of n "sl_recordID lock" "sl_operationID lock" "now + ss_lease s" "now + ss_ttl s"]
    by (auto simp: renew_tick_def update_none split_beta)
qed

text \<open>Taking over a record whose lease is over.\<close>

lemma takes_over:
  assumes db: "inv db" and x: "Acquire_start lib s True operationID now = LockCreate x"
    and row: "rows db (lock_key x) = Some r" and idle: "case ir_LockedUntil r of None \<Rightarrow> True | Some l \<Rightarrow> l \<le> now"
  shows "\<exists>db'. Acquire lib s R operationID now n db =
      (LockHeld \<lparr>sl_recordID = ir_ID r, sl_operationID = operationID\<rparr>, db') \<and> inv db'
    \<and> rows db' (lock_key x) = Some (reclaimed_row n (now + ss_lease s) (now + ss_ttl s) r)"
proof -
  have xs: "ll_now x = now" "ll_lockedUntil x = now + ss_lease s" "ll_expiresAt x = now + ss_ttl s"
      "ll_operationID x = operationID"
    using x by (auto simp: Acquire_start_def split: if_splits)
  let ?d1 = "fst (repo_CreateProcessing R n (lock_record x) db)"
  have d1: "rows ?d1 = rows db" "snd (repo_CreateProcessing R n (lock_record x) db) = (False, lock_record x)"
    using create_old [OF db, of "lock_record x" r] row by simp_all
  have inv1: "inv ?d1" by (rule create_inv [OF db])
  have g: "repo_GetByScopeAndKeyHash R systemOperationLockScope (ll_keyHash x) ?d1 = Some r"
    using get [OF inv1] d1(1) row by (simp add: lock_key_def)
  have dead: "\<not> lock_live r (ll_now x)" using idle xs by (auto simp: lock_live_def split: option.splits)
  let ?t = "repo_TryReclaim R n (ir_ID r) (ir_Status r) now (now + ss_lease s) (now + ss_ttl s) ?d1"
  have P: "reclaimable (ir_ID r) (ir_Status r) now r" using idle by (simp add: reclaimable_def)
  have t: "inv (fst ?t)" "rows (fst ?t) (lock_key x) = Some (reclaimed_row n (now + ss_lease s) (now + ss_ttl s) r)" "snd ?t"
    using reclaim [OF inv1, of n "ir_ID r" "ir_Status r" now "now + ss_lease s" "now + ss_ttl s"] P row d1(1)
    by (auto simp: update_where_def some_row_def simp del: split_paired_Ex)
  have rid: "ir_ID r \<noteq> 0" using row_key [OF db row] by simp
  show ?thesis using x xs d1 g dead t rid
    by (simp add: Acquire_def eval_nat_numeral lock_step_def after_lock_create_def after_lock_get_def
        after_lock_reclaim_def lock_taken_def)
qed

end


text \<open>
  A released lock can be taken again: after \<open>Release\<close>, successful or not, an \<open>Acquire\<close> of any
  operation that starts no earlier gets the lock.
\<close>

theorem released_lock_is_free:
  assumes "table_wf t" and "table_map t (systemOperationLockScope, HashIdempotencyKey lib systemOperationLockKey) = Some r"
    and "sl_recordID lock = ir_ID r" and "operationID \<noteq> []" and "now \<le> now'"
  shows "\<exists>t'. Acquire lib s idempotencyRepository operationID now' n'
           (Release s idempotencyRepository lock succeeded reason now n t) =
         (LockHeld \<lparr>sl_recordID = ir_ID r, sl_operationID = operationID\<rparr>, t')"
proof -
  obtain x where x: "Acquire_start lib s True operationID now' = LockCreate x"
      "lock_key x = (systemOperationLockScope, HashIdempotencyKey lib systemOperationLockKey)"
    using assms(4) by (simp add: Acquire_start_def lock_key_def)
  let ?t = "Release s idempotencyRepository lock succeeded reason now n t"
  have "table_wf ?t \<and> (\<exists>r'. table_map ?t (lock_key x) = Some r' \<and> ir_ID r' = ir_ID r
      \<and> (case ir_LockedUntil r' of None \<Rightarrow> True | Some l \<Rightarrow> l \<le> now'))"
    using pg.succeed [OF assms(1)] pg.fail [OF assms(1)] assms(2,3,5) x(2)
    by (simp add: Release_def Let_def update_where_def succeeded_row_def failed_row_def)
  then obtain r' where r': "table_wf ?t" "table_map ?t (lock_key x) = Some r'" "ir_ID r' = ir_ID r"
      "case ir_LockedUntil r' of None \<Rightarrow> True | Some l \<Rightarrow> l \<le> now'" by blast
  show ?thesis using pg.takes_over [OF r'(1) x(1) r'(2,4)] r'(3) by auto
qed

text \<open>
  (C39) An operation that takes the lock over from a finished one cannot keep it. The record keeps
  the identifier of the old operation, so the first renewal changes nothing and ends the renewal
  loop as if ownership were lost; when the lease is over, a third operation gets the lock although
  the second one has not released it.
\<close>

theorem takeover_cannot_renew:
  assumes "table_wf t" and "table_map t (systemOperationLockScope, HashIdempotencyKey lib systemOperationLockKey) = Some r"
    and "case ir_LockedUntil r of None \<Rightarrow> True | Some l \<Rightarrow> l \<le> now"
    and "opB \<noteq> []" "opC \<noteq> []" and "ir_RequestFingerprint r \<noteq> opB" and "now + ss_lease s \<le> later"
  shows "\<exists>lockB t1 t2 lockC t3. Acquire lib s idempotencyRepository opB now n t = (LockHeld lockB, t1)
     \<and> renew_tick s idempotencyRepository NoFault lockB now' n' t1 = (False, t2)
     \<and> Acquire lib s idempotencyRepository opC later n'' t2 = (LockHeld lockC, t3)"
proof -
  obtain x where x: "Acquire_start lib s True opB now = LockCreate x"
      "lock_key x = (systemOperationLockScope, HashIdempotencyKey lib systemOperationLockKey)"
    using assms(4) by (simp add: Acquire_start_def lock_key_def)
  obtain y where y: "Acquire_start lib s True opC later = LockCreate y" "lock_key y = lock_key x"
    using assms(5) x(2) by (simp add: Acquire_start_def lock_key_def)
  let ?r = "reclaimed_row n (now + ss_lease s) (now + ss_ttl s) r"
  let ?lock = "\<lparr>sl_recordID = ir_ID r, sl_operationID = opB\<rparr>"
  obtain t1 where t1: "Acquire lib s idempotencyRepository opB now n t = (LockHeld ?lock, t1)"
      "table_wf t1" "table_map t1 (lock_key x) = Some ?r"
    using pg.takes_over [OF assms(1) x(1), of r n] assms(2,3) x(2) by auto
  have r: "ir_ID ?r = sl_recordID ?lock" "ir_Status ?r = IdempotencyStatusProcessing"
      "ir_RequestFingerprint ?r \<noteq> sl_operationID ?lock" "ir_LockedUntil ?r = Some (now + ss_lease s)"
    using assms(6) by (simp_all add: reclaimed_row_def)
  obtain t2 where t2: "renew_tick s idempotencyRepository NoFault ?lock now' n' t1 = (False, t2)"
      "table_map t2 = table_map t1"
    using pg.renewal [OF t1(2,3) r(1,2), of s now' n'] r(3) by (cases "renew_tick s idempotencyRepository NoFault ?lock now' n' t1") auto
  have "t2 = fst (repo_ExtendProcessingLock idempotencyRepository n' (ir_ID r) opB (now' + ss_lease s) (now' + ss_ttl s) t1)"
    using t2(1) by (auto simp: renew_tick_def)
  then have "table_wf t2" using pg.extend [OF t1(2)] by simp
  then show ?thesis
    using pg.takes_over [OF _ y(1), of t2 ?r n''] t1 t2 y(2) r(4) assms(7) by auto
qed

subsection \<open>Concrete runs\<close>

definition demo_service :: SystemOperationLockService where
  "demo_service = NewSystemOperationLockService DefaultIdempotencyConfig"

definition lock_row :: "string \<Rightarrow> int option \<Rightarrow> IdempotencyRecord" where
  "lock_row st l =
     zero_IdempotencyRecord
       \<lparr>ir_ID := 1, ir_Scope := systemOperationLockScope, ir_IdempotencyKeyHash := systemOperationLockKey,
        ir_RequestFingerprint := ''A'', ir_Status := st, ir_LockedUntil := l, ir_ExpiresAt := 100\<rparr>"

lemma lock_row_facts:
  "table_wf (demo_table (lock_row st l))"
  "table_map (demo_table (lock_row st l))
     (systemOperationLockScope, HashIdempotencyKey demo_lib systemOperationLockKey) = Some (lock_row st l)"
  by (simp_all add: table_wf_def table_map_def demo_table_def lock_row_def record_key_def
      HashIdempotencyKey_def demo_lib_def)

definition demo_lock_locals :: lock_locals where
  "demo_lock_locals =
     \<lparr>ll_operationID = ''B'', ll_keyHash = HashIdempotencyKey demo_lib systemOperationLockKey, ll_now = 5,
      ll_lockedUntil = 50, ll_expiresAt = 100\<rparr>"


theorem released_lock_is_free_witness:
  "\<exists>t'. Acquire demo_lib demo_service idempotencyRepository ''B'' 9 0
      (Release demo_service idempotencyRepository \<lparr>sl_recordID = 1, sl_operationID = ''A''\<rparr> False [] 7 0
         (demo_table (lock_row IdempotencyStatusProcessing (Some 50)))) =
    (LockHeld \<lparr>sl_recordID = 1, sl_operationID = ''B''\<rparr>, t')"
  using released_lock_is_free [OF lock_row_facts, of "\<lparr>sl_recordID = 1, sl_operationID = ''A''\<rparr>"
      IdempotencyStatusProcessing "Some 50" "''B''" 7 9 demo_service 0 False "[]" 0]
  by (simp add: lock_row_def)

theorem takeover_cannot_renew_witness:
  "\<exists>lockB t1 t2 lockC t3.
     Acquire demo_lib demo_service idempotencyRepository ''B'' 9 0
       (demo_table (lock_row IdempotencyStatusSucceeded None)) = (LockHeld lockB, t1)
     \<and> renew_tick demo_service idempotencyRepository NoFault lockB 10 0 t1 = (False, t2)
     \<and> Acquire demo_lib demo_service idempotencyRepository ''C'' (9 + ss_lease demo_service) 0 t2 =
         (LockHeld lockC, t3)"
  by (rule takeover_cannot_renew [OF lock_row_facts]) (simp_all add: lock_row_def)

end
