(* ===== verification/Go_Time.thy ===== *)
theory Go_Time
  imports Relay_Prelude "HOL-Library.Signed_Division"
begin

text \<open>
  Instants, durations and calendar days as Go's \<open>time\<close> package computes them, for the components that
  work with calendar windows.

  A \<open>time.Time\<close> is its instant, in nanoseconds since the Unix epoch; the location a value carries is an
  argument of the calendar functions. A \<open>time.Duration\<close> is an \<open>int64\<close>: \<open>Sub\<close> saturates, arithmetic on
  durations wraps. A location is the table of its zone transitions, as \<open>time.Location\<close> holds it, and
  \<open>time_Date\<close> turns a local clock reading into an instant by the two lookups of \<open>time.Date\<close>.
\<close>

subsection \<open>Durations\<close>

type_synonym instant = int
type_synonym duration = int

definition second_ns :: duration where
  "second_ns = 1000000000"

definition hour_ns :: duration where
  "hour_ns = 3600 * second_ns"

definition wrap64 :: "int \<Rightarrow> int" where
  "wrap64 x = (x + 2 ^ 63) mod 2 ^ 64 - 2 ^ 63"

definition time_Sub :: "instant \<Rightarrow> instant \<Rightarrow> duration" where
  "time_Sub t u = max (- (2 ^ 63)) (min (2 ^ 63 - 1) (t - u))"

text \<open>The zero \<open>time.Time\<close>: January 1 of the year 1, UTC.\<close>

definition zero_time :: instant where
  "zero_time = - 62135596800 * second_ns"

lemma wrap64_id [simp]: "- (2 ^ 63) \<le> x \<Longrightarrow> x < 2 ^ 63 \<Longrightarrow> wrap64 x = x"
  by (simp add: wrap64_def)

lemma time_Sub_bounds: "- (2 ^ 63) \<le> time_Sub t u" "time_Sub t u < 2 ^ 63"
  by (simp_all add: time_Sub_def)

lemma time_Sub_le: "- (2 ^ 63) \<le> t - u \<Longrightarrow> time_Sub t u \<le> t - u"
  by (simp add: time_Sub_def)

lemma time_Sub_exact: "- (2 ^ 63) \<le> t - u \<Longrightarrow> t - u < 2 ^ 63 \<Longrightarrow> time_Sub t u = t - u"
  by (simp add: time_Sub_def)

subsection \<open>Locations\<close>

text \<open>The offset before the first transition, and each transition with the offset it starts.\<close>

record Location =
  loc_first :: int
  loc_tx :: "(int \<times> int) list"

definition alpha_sec :: int where
  "alpha_sec = - (2 ^ 63)"

definition omega_sec :: int where
  "omega_sec = 2 ^ 63 - 1"

text \<open>The offset in force at a second, and the interval it is in force for.\<close>

fun zone_at :: "int \<Rightarrow> int \<Rightarrow> (int \<times> int) list \<Rightarrow> int \<Rightarrow> int \<times> int \<times> int" where
  "zone_at off start [] s = (off, start, omega_sec)"
| "zone_at off start ((w, off') # tx) s = (if s < w then (off, start, w) else zone_at off' w tx s)"

definition loc_lookup :: "Location \<Rightarrow> int \<Rightarrow> int \<times> int \<times> int" where
  "loc_lookup l s = zone_at (loc_first l) alpha_sec (loc_tx l) s"

definition loc_offset :: "Location \<Rightarrow> int \<Rightarrow> int" where
  "loc_offset l s = fst (loc_lookup l s)"

text \<open>
  \<open>time.Date\<close> for a clock reading given as seconds since the epoch on the local clock: it guesses the
  offset at that number read as UTC, and looks it up once more if the guess leads out of the interval
  the offset is in force for.
\<close>

definition date_unix :: "Location \<Rightarrow> int \<Rightarrow> int" where
  "date_unix l local =
     (case loc_lookup l local of (off, start, end') \<Rightarrow>
        if off = 0 then local
        else let utc = local - off;
                 off' = (if utc < start \<or> end' \<le> utc then loc_offset l utc else off)
             in local - off')"

definition time_Date :: "Location \<Rightarrow> int \<Rightarrow> int \<Rightarrow> instant" where
  "time_Date l local nsec = date_unix l local * second_ns + nsec"

definition local_seconds :: "Location \<Rightarrow> instant \<Rightarrow> int" where
  "local_seconds l t = (let s = t div second_ns in s + loc_offset l s)"

definition local_day :: "Location \<Rightarrow> instant \<Rightarrow> int" where
  "local_day l t = local_seconds l t div 86400"

text \<open>\<open>time.Date(t.Year(), t.Month(), t.Day(), 0, 0, 0, 0, loc)\<close>.\<close>

definition StartOfDay :: "Location \<Rightarrow> instant \<Rightarrow> instant" where
  "StartOfDay l t = time_Date l (86400 * local_day l t) 0"

text \<open>\<open>t.AddDate(0, 0, n)\<close>: the same clock reading \<open>n\<close> calendar days later.\<close>

definition AddDays :: "Location \<Rightarrow> instant \<Rightarrow> int \<Rightarrow> instant" where
  "AddDays l t n = time_Date l (local_seconds l t + 86400 * n) (t mod second_ns)"

text \<open>
  A location in which midnight exists on every day: \<open>time.Date\<close> at midnight is a moment of that day.
  It fails in locations whose clocks are put forward at midnight.
\<close>

definition midnights_exist :: "Location \<Rightarrow> bool" where
  "midnights_exist l \<longleftrightarrow> (\<forall>d. local_day l (time_Date l (86400 * d) 0) = d)"

lemma local_day_StartOfDay:
  "midnights_exist l \<Longrightarrow> local_day l (StartOfDay l t) = local_day l t"
  by (simp add: midnights_exist_def StartOfDay_def)

lemma same_day_StartOfDay: "local_day l t = local_day l u \<Longrightarrow> StartOfDay l t = StartOfDay l u"
  by (simp add: StartOfDay_def)

lemma StartOfDay_idem:
  "midnights_exist l \<Longrightarrow> StartOfDay l (StartOfDay l t) = StartOfDay l t"
  by (rule same_day_StartOfDay, rule local_day_StartOfDay)

text \<open>A zone that never changes its offset, such as the configured default \<open>Asia/Shanghai\<close> today.\<close>

definition FixedZone :: "int \<Rightarrow> Location" where
  "FixedZone off = \<lparr>loc_first = off, loc_tx = []\<rparr>"

lemma FixedZone_offset [simp]: "loc_offset (FixedZone off) s = off"
  by (simp add: loc_offset_def loc_lookup_def FixedZone_def)

lemma FixedZone_date [simp]: "date_unix (FixedZone off) s = s - off"
  by (simp add: date_unix_def loc_lookup_def Let_def FixedZone_def loc_offset_def)

lemma FixedZone_midnights [simp]: "midnights_exist (FixedZone off)"
  by (simp add: midnights_exist_def local_day_def local_seconds_def time_Date_def second_ns_def Let_def)

lemma FixedZone_StartOfDay_le: "StartOfDay (FixedZone off) t \<le> t"
proof -
  let ?s = "t div second_ns"
  have "86400 * ((?s + off) div 86400) \<le> ?s + off" by simp
  moreover have "?s * second_ns \<le> t" by (simp add: second_ns_def)
  ultimately have "(86400 * ((?s + off) div 86400) - off) * second_ns \<le> t"
    by (smt (verit) mult_right_mono second_ns_def)
  then show ?thesis
    by (simp add: StartOfDay_def time_Date_def local_day_def local_seconds_def Let_def)
qed

end
