(* ===== verification/Subscription.thy ===== *)
theory Subscription
  imports Go_Time
begin

text \<open>
  \<open>service/user_subscription.go\<close>: a user's subscription, its three usage windows and its limits. The
  daily window follows the calendar days of the configured zone; the weekly and the monthly window
  move in whole periods from an anchor and never past the end of the subscription.

  Amounts are values of a type \<open>'f\<close> with the operations on \<open>float64\<close> the code uses as an argument, so
  no rounding is assumed away. The location that \<open>timezone.Location()\<close> returns and the one the stored
  times carry are arguments too. The relations \<open>User\<close>, \<open>Group\<close> and \<open>AssignedByUser\<close> of the struct,
  which are filled for display, are left out.

  The theory shows that a window always starts a whole number of periods after its anchor, at or
  before now and before the end; that a window that was advanced is not due again before its period
  is over; that the remaining days are the ceiling of the remaining time; and that the daily window
  starts anew once a calendar day, provided that midnight exists on that day.
\<close>

subsection \<open>Data\<close>

record 'f f64_ops =
  f_zero :: 'f
  f_add :: "'f \<Rightarrow> 'f \<Rightarrow> 'f"
  f_le :: "'f \<Rightarrow> 'f \<Rightarrow> bool"
  f_lt :: "'f \<Rightarrow> 'f \<Rightarrow> bool"

record 'f UserSubscription =
  us_ID :: int
  us_UserID :: int
  us_GroupID :: int
  us_StartsAt :: instant
  us_ExpiresAt :: instant
  us_Status :: string
  us_DailyWindowStart :: "instant option"
  us_WeeklyWindowStart :: "instant option"
  us_MonthlyWindowStart :: "instant option"
  us_DailyUsageUSD :: 'f
  us_WeeklyUsageUSD :: 'f
  us_MonthlyUsageUSD :: 'f
  us_AssignedBy :: "int option"
  us_AssignedAt :: instant
  us_Notes :: string
  us_CreatedAt :: instant
  us_UpdatedAt :: instant
  us_DeletedAt :: "instant option"

text \<open>The limits of a group that a subscription is checked against.\<close>

record 'f Group =
  g_DailyLimitUSD :: "'f option"
  g_WeeklyLimitUSD :: "'f option"
  g_MonthlyLimitUSD :: "'f option"

record 'f sub_env =
  se_zone :: Location    \<comment> \<open>\<open>timezone.Location()\<close>\<close>
  se_local :: Location   \<comment> \<open>the location of the times read from the database\<close>
  se_f64 :: "'f f64_ops"

definition SubscriptionStatusActive :: string where
  "SubscriptionStatusActive = ''active''"

definition SubscriptionStatusExpired :: string where
  "SubscriptionStatusExpired = ''expired''"

definition SubscriptionStatusSuspended :: string where
  "SubscriptionStatusSuspended = ''suspended''"

definition subscriptionDayDuration :: duration where
  "subscriptionDayDuration = 24 * hour_ns"

abbreviation week_ns :: duration where
  "week_ns \<equiv> 7 * 24 * hour_ns"

abbreviation month_ns :: duration where
  "month_ns \<equiv> 30 * 24 * hour_ns"

subsection \<open>Operations\<close>

definition IsActive :: "'f UserSubscription \<Rightarrow> instant \<Rightarrow> bool" where
  "IsActive s now \<longleftrightarrow> us_Status s = SubscriptionStatusActive \<and> now < us_ExpiresAt s"

definition IsExpired :: "'f UserSubscription \<Rightarrow> instant \<Rightarrow> bool" where
  "IsExpired s now \<longleftrightarrow> us_ExpiresAt s < now"

definition daysRemainingAt :: "'f UserSubscription \<Rightarrow> instant \<Rightarrow> int" where
  "daysRemainingAt s now =
     (let remaining = time_Sub (us_ExpiresAt s) now in
      if remaining \<le> 0 then 0
      else let days = remaining sdiv subscriptionDayDuration in
           if remaining smod subscriptionDayDuration \<noteq> 0 then wrap64 (days + 1) else days)"

definition IsWindowActivated :: "'f UserSubscription \<Rightarrow> bool" where
  "IsWindowActivated s \<longleftrightarrow> us_DailyWindowStart s \<noteq> None \<or> us_WeeklyWindowStart s \<noteq> None
     \<or> us_MonthlyWindowStart s \<noteq> None"

definition HasOneTimeDailyQuota :: "'f sub_env \<Rightarrow> 'f UserSubscription \<Rightarrow> bool" where
  "HasOneTimeDailyQuota env s =
     (if us_StartsAt s = zero_time \<or> us_ExpiresAt s = zero_time then False
      else \<not> AddDays (se_local env) (us_StartsAt s) 1 < us_ExpiresAt s)"

definition automaticDailyWindowStartAt :: "'f sub_env \<Rightarrow> 'f UserSubscription \<Rightarrow> instant \<Rightarrow> instant option" where
  "automaticDailyWindowStartAt env s now =
     (case us_DailyWindowStart s of
        None \<Rightarrow> None
      | Some start \<Rightarrow>
          if HasOneTimeDailyQuota env s then None
          else let today = StartOfDay (se_zone env) now in
               if \<not> StartOfDay (se_zone env) start < today then None else Some today)"

definition NeedsDailyResetAt :: "'f sub_env \<Rightarrow> 'f UserSubscription \<Rightarrow> instant \<Rightarrow> bool" where
  "NeedsDailyResetAt env s now \<longleftrightarrow> automaticDailyWindowStartAt env s now \<noteq> None"

definition NeedsWeeklyResetAt :: "'f UserSubscription \<Rightarrow> instant \<Rightarrow> bool" where
  "NeedsWeeklyResetAt s now =
     (case us_WeeklyWindowStart s of None \<Rightarrow> False | Some start \<Rightarrow> \<not> now < start + week_ns)"

definition NeedsMonthlyResetAt :: "'f UserSubscription \<Rightarrow> instant \<Rightarrow> bool" where
  "NeedsMonthlyResetAt s now =
     (case us_MonthlyWindowStart s of None \<Rightarrow> False | Some start \<Rightarrow> \<not> now < start + month_ns)"

definition windowResetAnchor :: "'f sub_env \<Rightarrow> 'f UserSubscription \<Rightarrow> instant \<Rightarrow> instant" where
  "windowResetAnchor env s previous =
     (let legacyAnchor = StartOfDay (se_local env) (us_StartsAt s) in
      if legacyAnchor < us_StartsAt s \<and> previous = legacyAnchor then us_StartsAt s else previous)"

definition automaticWindowStartAt ::
  "'f sub_env \<Rightarrow> 'f UserSubscription \<Rightarrow> instant option \<Rightarrow> duration \<Rightarrow> instant \<Rightarrow> instant option" where
  "automaticWindowStartAt env s previous period now =
     (case previous of
        None \<Rightarrow> None
      | Some previous \<Rightarrow>
          let anchor = windowResetAnchor env s previous;
              next' = anchor + period in
          if now < next' \<or> \<not> next' < us_ExpiresAt s then None
          else let periods = time_Sub now anchor sdiv period;
                   lastPeriodBeforeExpiry = wrap64 (time_Sub (us_ExpiresAt s) anchor - 1) sdiv period;
                   periods = (if lastPeriodBeforeExpiry < periods then lastPeriodBeforeExpiry else periods)
               in Some (anchor + wrap64 (periods * period)))"

definition canAutomaticallyResetDailyAt :: "'f sub_env \<Rightarrow> 'f UserSubscription \<Rightarrow> instant \<Rightarrow> bool" where
  "canAutomaticallyResetDailyAt env s now \<longleftrightarrow> automaticDailyWindowStartAt env s now \<noteq> None"

definition canAutomaticallyResetWeeklyAt :: "'f sub_env \<Rightarrow> 'f UserSubscription \<Rightarrow> instant \<Rightarrow> bool" where
  "canAutomaticallyResetWeeklyAt env s now \<longleftrightarrow>
     automaticWindowStartAt env s (us_WeeklyWindowStart s) week_ns now \<noteq> None"

definition canAutomaticallyResetMonthlyAt :: "'f sub_env \<Rightarrow> 'f UserSubscription \<Rightarrow> instant \<Rightarrow> bool" where
  "canAutomaticallyResetMonthlyAt env s now \<longleftrightarrow>
     automaticWindowStartAt env s (us_MonthlyWindowStart s) month_ns now \<noteq> None"

definition DailyResetTime :: "'f sub_env \<Rightarrow> 'f UserSubscription \<Rightarrow> instant option" where
  "DailyResetTime env s =
     (case us_DailyWindowStart s of
        None \<Rightarrow> None
      | Some start \<Rightarrow>
          if HasOneTimeDailyQuota env s then Some (us_ExpiresAt s)
          else Some (AddDays (se_zone env) (StartOfDay (se_zone env) start) 1))"

definition WeeklyResetTime :: "'f sub_env \<Rightarrow> 'f UserSubscription \<Rightarrow> instant option" where
  "WeeklyResetTime env s =
     (case us_WeeklyWindowStart s of
        None \<Rightarrow> None | Some start \<Rightarrow> Some (windowResetAnchor env s start + week_ns))"

definition MonthlyResetTime :: "'f sub_env \<Rightarrow> 'f UserSubscription \<Rightarrow> instant option" where
  "MonthlyResetTime env s =
     (case us_MonthlyWindowStart s of
        None \<Rightarrow> None | Some start \<Rightarrow> Some (windowResetAnchor env s start + month_ns))"

text \<open>\<open>HasDailyLimit\<close>, \<open>HasWeeklyLimit\<close> and \<open>HasMonthlyLimit\<close> of a group.\<close>

definition HasDailyLimit :: "'f f64_ops \<Rightarrow> 'f Group \<Rightarrow> bool" where
  "HasDailyLimit f g = (case g_DailyLimitUSD g of None \<Rightarrow> False | Some l \<Rightarrow> f_lt f (f_zero f) l)"

definition HasWeeklyLimit :: "'f f64_ops \<Rightarrow> 'f Group \<Rightarrow> bool" where
  "HasWeeklyLimit f g = (case g_WeeklyLimitUSD g of None \<Rightarrow> False | Some l \<Rightarrow> f_lt f (f_zero f) l)"

definition HasMonthlyLimit :: "'f f64_ops \<Rightarrow> 'f Group \<Rightarrow> bool" where
  "HasMonthlyLimit f g = (case g_MonthlyLimitUSD g of None \<Rightarrow> False | Some l \<Rightarrow> f_lt f (f_zero f) l)"

definition CheckDailyLimit :: "'f f64_ops \<Rightarrow> 'f UserSubscription \<Rightarrow> 'f Group \<Rightarrow> 'f \<Rightarrow> bool" where
  "CheckDailyLimit f s g additionalCost =
     (if \<not> HasDailyLimit f g then True
      else f_le f (f_add f (us_DailyUsageUSD s) additionalCost) (the (g_DailyLimitUSD g)))"

definition CheckWeeklyLimit :: "'f f64_ops \<Rightarrow> 'f UserSubscription \<Rightarrow> 'f Group \<Rightarrow> 'f \<Rightarrow> bool" where
  "CheckWeeklyLimit f s g additionalCost =
     (if \<not> HasWeeklyLimit f g then True
      else f_le f (f_add f (us_WeeklyUsageUSD s) additionalCost) (the (g_WeeklyLimitUSD g)))"

definition CheckMonthlyLimit :: "'f f64_ops \<Rightarrow> 'f UserSubscription \<Rightarrow> 'f Group \<Rightarrow> 'f \<Rightarrow> bool" where
  "CheckMonthlyLimit f s g additionalCost =
     (if \<not> HasMonthlyLimit f g then True
      else f_le f (f_add f (us_MonthlyUsageUSD s) additionalCost) (the (g_MonthlyLimitUSD g)))"

definition CheckAllLimits :: "'f f64_ops \<Rightarrow> 'f UserSubscription \<Rightarrow> 'f Group \<Rightarrow> 'f \<Rightarrow> bool \<times> bool \<times> bool" where
  "CheckAllLimits f s g additionalCost =
     (CheckDailyLimit f s g additionalCost, CheckWeeklyLimit f s g additionalCost,
      CheckMonthlyLimit f s g additionalCost)"

text \<open>A subscription of thirty days from the epoch on, in the zone eight hours ahead of UTC.\<close>

definition int_f64 :: "int f64_ops" where
  "int_f64 = \<lparr>f_zero = 0, f_add = (+), f_le = (\<le>), f_lt = (<)\<rparr>"

definition example_env :: "int sub_env" where
  "example_env = \<lparr>se_zone = FixedZone 28800, se_local = FixedZone 0, se_f64 = int_f64\<rparr>"

definition example_sub :: "int UserSubscription" where
  "example_sub = \<lparr>us_ID = 1, us_UserID = 2, us_GroupID = 3, us_StartsAt = 0, us_ExpiresAt = 30 * 24 * hour_ns,
     us_Status = ''active'', us_DailyWindowStart = Some 0, us_WeeklyWindowStart = Some 0,
     us_MonthlyWindowStart = Some 0, us_DailyUsageUSD = 4, us_WeeklyUsageUSD = 5, us_MonthlyUsageUSD = 6,
     us_AssignedBy = None, us_AssignedAt = 0, us_Notes = [], us_CreatedAt = 0, us_UpdatedAt = 0,
     us_DeletedAt = None\<rparr>"

subsection \<open>The weekly and the monthly window\<close>

lemma sdiv_nonneg: "0 \<le> (k::int) \<Longrightarrow> 0 < l \<Longrightarrow> k sdiv l = k div l"
  by (cases "k = 0") (simp_all add: signed_divide_int_def)

lemma smod_nonneg: "0 \<le> (k::int) \<Longrightarrow> 0 < l \<Longrightarrow> k smod l = k mod l"
  by (cases "k = 0") (simp_all add: signed_modulo_int_def)

lemma period_positive [simp]: "0 < hour_ns" "0 < second_ns" "0 < subscriptionDayDuration"
  by (simp_all add: hour_ns_def second_ns_def subscriptionDayDuration_def)

lemma windowResetAnchor_ge: "previous \<le> windowResetAnchor env s previous"
  by (auto simp: windowResetAnchor_def Let_def)

lemma grid_le:
  assumes "0 < (P::int)"
  shows "k * P \<le> n \<longleftrightarrow> k \<le> n div P"
proof
  assume "k * P \<le> n"
  then have "k * P div P \<le> n div P" using assms by (rule zdiv_mono1)
  then show "k \<le> n div P" using assms by simp
next
  assume "k \<le> n div P"
  then have "k * P \<le> n div P * P" using assms by simp
  then show "k * P \<le> n" using div_mult_mod_eq [of n P] pos_mod_sign [OF assms, of n] by linarith
qed

text \<open>The number of periods the window moves, without the saturation and the wrap-around of \<open>int64\<close>.\<close>

lemma window_periods:
  assumes P: "0 < P" and due: "a + P \<le> now" "a + P < E" and E: "E - a < 2 ^ 63"
  shows "(let periods = time_Sub now a sdiv P; last = wrap64 (time_Sub E a - 1) sdiv P;
              periods = (if last < periods then last else periods)
          in a + wrap64 (periods * P)) = a + min ((now - a) div P) ((E - a - 1) div P) * P"
proof -
  have sub: "time_Sub E a = E - a" using due P E by (simp add: time_Sub_exact)
  have last: "wrap64 (time_Sub E a - 1) sdiv P = (E - a - 1) div P"
    using due P E by (simp add: sub sdiv_nonneg)
  have per: "time_Sub now a sdiv P = min (now - a) (2 ^ 63 - 1) div P"
    using due P by (simp add: sdiv_nonneg time_Sub_def min.commute)
  define m where "m = min ((now - a) div P) ((E - a - 1) div P)"
  have m_eq: "min (min (now - a) (2 ^ 63 - 1) div P) ((E - a - 1) div P) = m"
  proof (cases "now - a \<le> 2 ^ 63 - 1")
    case False
    then have "(E - a - 1) div P \<le> (2 ^ 63 - 1) div P" "(E - a - 1) div P \<le> (now - a) div P"
      using E P by (auto intro!: zdiv_mono1)
    then show ?thesis using False by (simp add: m_def)
  qed (simp add: m_def)
  have "0 \<le> m" using due P by (auto simp: m_def pos_imp_zdiv_nonneg_iff)
  moreover have "m * P \<le> E - a - 1" using grid_le [OF P, of m "E - a - 1"] by (simp add: m_def)
  ultimately have wr: "wrap64 (m * P) = m * P"
    using E P by (intro wrap64_id) (smt (verit) mult_nonneg_nonneg zero_le_power)+
  show ?thesis using m_eq wr
    by (simp add: Let_def last per m_def [symmetric]) (auto simp: min_def)
qed

lemma due_iff:
  "automaticWindowStartAt env s (Some previous) P now \<noteq> None \<longleftrightarrow>
     windowResetAnchor env s previous + P \<le> now \<and> windowResetAnchor env s previous + P < us_ExpiresAt s"
  by (auto simp: automaticWindowStartAt_def Let_def)

lemma window_start_value:
  assumes "0 < P" and "us_ExpiresAt s - previous < 2 ^ 63" and a: "a = windowResetAnchor env s previous"
    and "a + P \<le> now" "a + P < us_ExpiresAt s"
  shows "automaticWindowStartAt env s (Some previous) P now =
     Some (a + min ((now - a) div P) ((us_ExpiresAt s - a - 1) div P) * P)"
proof -
  have "us_ExpiresAt s - a < 2 ^ 63" using assms(2) windowResetAnchor_ge [of previous env s] a by simp
  from window_periods [OF assms(1,4,5) this] show ?thesis
    using assms(4,5) by (simp add: automaticWindowStartAt_def a [symmetric] Let_def)
qed

lemma window_start_characterised:
  assumes P: "0 < P" and E: "us_ExpiresAt s - previous < 2 ^ 63"
  shows "automaticWindowStartAt env s (Some previous) P now = Some w \<longleftrightarrow>
    (let a = windowResetAnchor env s previous in
     a + P \<le> now \<and> a + P < us_ExpiresAt s \<and>
     (\<exists>k. w = a + k * P \<and> w \<le> now \<and> w < us_ExpiresAt s \<and> (now < w + P \<or> us_ExpiresAt s \<le> w + P)))"
proof -
  define a where "a = windowResetAnchor env s previous"
  define E where "E = us_ExpiresAt s"
  show ?thesis
  proof (cases "a + P \<le> now \<and> a + P < E")
    case False
    then show ?thesis using due_iff [of env s previous P now] by (auto simp: a_def E_def Let_def)
  next
    case True
    let ?m = "min ((now - a) div P) ((E - a - 1) div P)"
    have val: "automaticWindowStartAt env s (Some previous) P now = Some (a + ?m * P)"
      using window_start_value [OF P assms(2) a_def] True by (simp add: E_def)
    have grid: "k = ?m \<longleftrightarrow> k * P \<le> now - a \<and> k * P \<le> E - a - 1 \<and> (now - a < (k + 1) * P \<or> E - a - 1 < (k + 1) * P)" for k
      using grid_le [OF P, of k "now - a"] grid_le [OF P, of k "E - a - 1"]
        grid_le [OF P, of "k + 1" "now - a"] grid_le [OF P, of "k + 1" "E - a - 1"] by linarith
    have "w = a + ?m * P \<longleftrightarrow> (\<exists>k. w = a + k * P \<and> k = ?m)" by auto
    also have "\<dots> \<longleftrightarrow> (\<exists>k. w = a + k * P \<and> w \<le> now \<and> w < E \<and> (now < w + P \<or> E \<le> w + P))"
      unfolding grid by (rule ex_cong1) (auto simp: algebra_simps)
    finally show ?thesis using True val by (auto simp: a_def E_def Let_def)
  qed
qed

text \<open>
  The weekly and the monthly window. A window is due exactly when its anchor plus one period has
  come and lies before the end of the subscription; the new start \<open>w\<close> is then the last point
  \<open>anchor + k * period\<close> that is neither after now nor at or after the end. This determines \<open>w\<close>, whatever
  the saturation of \<open>Sub\<close> and the wrap-around of the multiplication do on the way.
\<close>

theorem window_start_spec:
  assumes P: "0 < P" and E: "us_ExpiresAt s - previous < 2 ^ 63"
  shows "automaticWindowStartAt env s (Some previous) P now = Some w \<longleftrightarrow>
    (let a = windowResetAnchor env s previous in
     a + P \<le> now \<and> a + P < us_ExpiresAt s \<and>
     (\<exists>k. w = a + k * P \<and> w \<le> now \<and> w < us_ExpiresAt s \<and> (now < w + P \<or> us_ExpiresAt s \<le> w + P)))"
  using assms by (rule window_start_characterised)

theorem window_start_spec_witness:
  "automaticWindowStartAt example_env example_sub (Some 0) week_ns (16 * 24 * hour_ns) = Some (14 * 24 * hour_ns)"
  by (subst window_start_spec)
    (auto simp: example_sub_def example_env_def windowResetAnchor_def hour_ns_def second_ns_def Let_def intro!: exI [of _ 2])

lemma settled:
  assumes "automaticWindowStartAt env s (Some previous) P now = Some w"
    and "0 < P" and "us_ExpiresAt s - previous < 2 ^ 63" and "now' \<le> now \<or> now' < w + P"
  shows "automaticWindowStartAt env s (Some w) P now' = None"
proof -
  have "now < w + P \<or> us_ExpiresAt s \<le> w + P"
    using window_start_characterised [OF assms(2,3), of env now w] assms(1) by (auto simp: Let_def)
  then show ?thesis
    using due_iff [of env s w P now'] windowResetAnchor_ge [of w env s] assms(4) by fastforce
qed

text \<open>
  The weekly and the monthly window. A window that was advanced is not due again: neither at any time
  before its new period is over, nor at the time of the advance itself, where the next period may
  already have come but would reach past the end.
\<close>

theorem advanced_window_settles:
  assumes "automaticWindowStartAt env s (Some previous) P now = Some w"
    and "0 < P" and "us_ExpiresAt s - previous < 2 ^ 63" and "now' \<le> now \<or> now' < w + P"
  shows "automaticWindowStartAt env s (Some w) P now' = None"
  using assms by (rule settled)

theorem advanced_window_settles_witness:
  "automaticWindowStartAt example_env example_sub (Some (14 * 24 * hour_ns)) week_ns (20 * 24 * hour_ns) = None"
proof (rule advanced_window_settles)
  show "automaticWindowStartAt example_env example_sub (Some 0) week_ns (16 * 24 * hour_ns) = Some (14 * 24 * hour_ns)"
    by code_simp
qed (simp_all add: example_sub_def hour_ns_def second_ns_def)

text \<open>
  The reset times shown to the user are the times the windows really move: the weekly and the
  monthly window are due exactly when the shown time has come and lies before the end of the
  subscription.
\<close>

theorem shown_reset_times_are_real:
  "(canAutomaticallyResetWeeklyAt env s now \<longleftrightarrow>
     (\<exists>t. WeeklyResetTime env s = Some t \<and> t \<le> now \<and> t < us_ExpiresAt s)) \<and>
   (canAutomaticallyResetMonthlyAt env s now \<longleftrightarrow>
     (\<exists>t. MonthlyResetTime env s = Some t \<and> t \<le> now \<and> t < us_ExpiresAt s))"
  using due_iff [of env s _ week_ns now] due_iff [of env s _ month_ns now]
  by (auto simp: canAutomaticallyResetWeeklyAt_def canAutomaticallyResetMonthlyAt_def WeeklyResetTime_def
      MonthlyResetTime_def automaticWindowStartAt_def Let_def split: option.splits)

subsection \<open>Remaining days\<close>

text \<open>
  The remaining days are the remaining time in days, rounded up, and none once the subscription has
  ended.
\<close>

theorem days_remaining_is_ceiling:
  assumes "us_ExpiresAt s - now < 2 ^ 63"
  shows "if us_ExpiresAt s \<le> now then daysRemainingAt s now = 0
    else (daysRemainingAt s now - 1) * subscriptionDayDuration < us_ExpiresAt s - now
      \<and> us_ExpiresAt s - now \<le> daysRemainingAt s now * subscriptionDayDuration"
proof (cases "us_ExpiresAt s \<le> now")
  case True
  then show ?thesis by (simp add: daysRemainingAt_def time_Sub_def Let_def)
next
  case False
  define r where "r = us_ExpiresAt s - now"
  define D where "D = subscriptionDayDuration"
  have D: "0 < D" "1000 < D" by (simp_all add: D_def subscriptionDayDuration_def hour_ns_def second_ns_def)
  have sub: "time_Sub (us_ExpiresAt s) now = r" using False assms by (simp add: time_Sub_exact r_def)
  have r: "0 < r" "r < 2 ^ 63" using False assms by (simp_all add: r_def)
  have nonneg: "0 \<le> r div D" using r D by (simp add: pos_imp_zdiv_nonneg_iff)
  have "r div D * 1000 \<le> r div D * D" using nonneg D by (intro mult_left_mono) auto
  also have "r div D * D \<le> r" using grid_le [OF D(1), of "r div D" r] by simp
  finally have small: "r div D + 1 < 2 ^ 63" using r by simp
  have days: "daysRemainingAt s now = (if r mod D \<noteq> 0 then r div D + 1 else r div D)"
    using r D nonneg small by (simp add: daysRemainingAt_def sub D_def [symmetric] sdiv_nonneg smod_nonneg Let_def)
  define q m where "q = r div D" and "m = r mod D"
  have "r = q * D + m" "0 \<le> m" "m < D" using D by (simp_all add: q_def m_def)
  then show ?thesis using False
    by (auto simp: days r_def [symmetric] D_def [symmetric] q_def [symmetric] m_def [symmetric] algebra_simps)
qed

theorem days_remaining_is_ceiling_witness:
  "(daysRemainingAt example_sub (hour_ns) - 1) * subscriptionDayDuration < 30 * 24 * hour_ns - hour_ns
     \<and> 30 * 24 * hour_ns - hour_ns \<le> daysRemainingAt example_sub hour_ns * subscriptionDayDuration"
  using days_remaining_is_ceiling [of example_sub hour_ns]
  by (simp add: example_sub_def hour_ns_def second_ns_def)

subsection \<open>The daily window\<close>

text \<open>
  The daily window starts anew once a calendar day of the configured zone: its new start is a moment
  of the current day, and once it is stored the window is not due again at any time of that day. This
  needs a zone in which midnight exists every day.
\<close>

theorem daily_window_once_a_day:
  assumes "midnights_exist (se_zone env)" and "automaticDailyWindowStartAt env s now = Some today"
  shows "local_day (se_zone env) today = local_day (se_zone env) now \<and>
    (\<forall>now'. local_day (se_zone env) now' = local_day (se_zone env) now \<longrightarrow>
      automaticDailyWindowStartAt env (s\<lparr>us_DailyWindowStart := Some today\<rparr>) now' = None)"
proof (intro conjI allI impI)
  have today: "today = StartOfDay (se_zone env) now"
    using assms(2) by (auto simp: automaticDailyWindowStartAt_def Let_def split: option.splits if_splits)
  show "local_day (se_zone env) today = local_day (se_zone env) now"
    by (simp add: today local_day_StartOfDay [OF assms(1)])
  fix now'
  assume "local_day (se_zone env) now' = local_day (se_zone env) now"
  then have "StartOfDay (se_zone env) now' = StartOfDay (se_zone env) now" by (rule same_day_StartOfDay)
  then show "automaticDailyWindowStartAt env (s\<lparr>us_DailyWindowStart := Some today\<rparr>) now' = None"
    by (simp add: automaticDailyWindowStartAt_def today StartOfDay_idem [OF assms(1)] Let_def)
qed

theorem daily_window_once_a_day_witness:
  "local_day (FixedZone 28800) (40 * hour_ns) = local_day (FixedZone 28800) (50 * hour_ns) \<and>
   automaticDailyWindowStartAt example_env (example_sub\<lparr>us_DailyWindowStart := Some (40 * hour_ns)\<rparr>) (60 * hour_ns) = None"
proof -
  have zone: "midnights_exist (se_zone example_env)" by (simp add: example_env_def)
  have due: "automaticDailyWindowStartAt example_env example_sub (50 * hour_ns) = Some (40 * hour_ns)"
    by code_simp
  have "local_day (se_zone example_env) (60 * hour_ns) = local_day (se_zone example_env) (50 * hour_ns)"
    by code_simp
  then show ?thesis
    using daily_window_once_a_day [OF zone due] by (simp add: example_env_def)
qed

text \<open>
  Where the clocks are put forward at midnight, as in the zone below at second 999918000 (from three
  to two hours behind UTC, at midnight of local day 11573), the start of that day computed by
  \<open>time.Date\<close> is a moment of the day before. The window is then due again right after it was
  advanced, at every check of that day, and each time the daily usage is cleared.
\<close>

definition gap_zone :: Location where
  "gap_zone = \<lparr>loc_first = - 10800, loc_tx = [(999918000, - 7200)]\<rparr>"

lemma daily_window_repeats_without_midnight:
  "let env = example_env\<lparr>se_zone := gap_zone\<rparr>; now = 999950000 * second_ns;
       s = example_sub\<lparr>us_DailyWindowStart := Some 0, us_ExpiresAt := 2 * now\<rparr>;
       today = StartOfDay gap_zone now
   in local_day gap_zone today = local_day gap_zone now - 1
      \<and> automaticDailyWindowStartAt env s now = Some today
      \<and> automaticDailyWindowStartAt env (s\<lparr>us_DailyWindowStart := Some today\<rparr>) now = Some today"
  by code_simp

end
