(* ===== verification/Subscription_Service.thy ===== *)
theory Subscription_Service
  imports Subscription
begin

text \<open>
  The maintenance of usage windows: the operations of \<open>repository/user_subscription_repo.go\<close> on the
  table of subscriptions, and the functions of \<open>service/subscription_service.go\<close> that advance windows,
  check limits and admit requests.

  A repository call is one atomic statement and may fail, before or after it took effect; the fault is
  an argument. The functions of the service make several calls, between which other requests run, so
  \<open>EnsureWindowMaintenance\<close> is a machine with one program counter per call, and a system of any number of
  requests interleaves them with the recording of usage. Times are stored with the precision of the
  database, an argument \<open>pg\<close>; amounts are added by the database with \<open>sql_add\<close>. The caches that the
  functions invalidate are not modelled: requests may start from any snapshot of the table.

  The theory shows that, in every interleaving, a window that has moved on is never reset by a request
  that acts on an older snapshot, that the usage of a window is what was recorded since it last moved,
  that a weekly window is renewed no more often than periods fit between its start and the end of the
  subscription, and when exactly a request is admitted.
\<close>

subsection \<open>The table\<close>

datatype 'e sub_error =
    ErrSubscriptionNotFound
  | ErrSubscriptionExpired
  | ErrSubscriptionSuspended
  | ErrInvalidInput
  | ErrDailyLimitExceeded
  | ErrWeeklyLimitExceeded
  | ErrMonthlyLimitExceeded
  | ErrSubscriptionNilInput
  | PersistenceError 'e

text \<open>
  What may go wrong with a statement: the connection fails before it runs, or after it took effect;
  or the statement runs and the query for the row's existence that follows it fails.
\<close>

datatype 'e db_fault = DbOk | FailsBefore 'e | FailsAfter 'e | ExistFails 'e

record 'f sub_db =
  sd_subs :: "(int \<times> 'f UserSubscription) list"   \<comment> \<open>\<open>user_subscriptions\<close>, by identifier\<close>
  sd_groups :: "int list"                           \<comment> \<open>identifiers of the groups that are not deleted\<close>

record 'f pg_ops =
  pg_time :: "instant \<Rightarrow> instant"
  pg_add :: "'f \<Rightarrow> 'f \<Rightarrow> 'f"

definition update_row :: "int \<Rightarrow> ('f UserSubscription \<Rightarrow> 'f UserSubscription) \<Rightarrow> 'f sub_db \<Rightarrow> 'f sub_db" where
  "update_row i f db = db\<lparr>sd_subs := map (\<lambda>(j, r). (j, if j = i then f r else r)) (sd_subs db)\<rparr>"

abbreviation row :: "'f sub_db \<Rightarrow> int \<Rightarrow> 'f UserSubscription option" where
  "row db i \<equiv> map_of (sd_subs db) i"

text \<open>
  An update of the row with the given identifier that satisfies a condition. Deleted rows are not
  excluded: the soft-delete filter of the schema covers queries only. Ent sets \<open>updated_at\<close>.
\<close>

definition update_sub_where ::
  "'f pg_ops \<Rightarrow> instant \<Rightarrow> int \<Rightarrow> ('f UserSubscription \<Rightarrow> bool) \<Rightarrow> ('f UserSubscription \<Rightarrow> 'f UserSubscription)
     \<Rightarrow> 'f sub_db \<Rightarrow> nat \<times> 'f sub_db" where
  "update_sub_where pg wall i cond f db =
     (case row db i of
        None \<Rightarrow> (0, db)
      | Some r \<Rightarrow> if cond r then (1, update_row i (\<lambda>r. (f r)\<lparr>us_UpdatedAt := pg_time pg wall\<rparr>) db) else (0, db))"

definition exists_row :: "'f sub_db \<Rightarrow> int \<Rightarrow> bool" where
  "exists_row db i = (case row db i of None \<Rightarrow> False | Some r \<Rightarrow> us_DeletedAt r = None)"

definition translateConditionalWindowReset ::
  "'e db_fault \<Rightarrow> int \<Rightarrow> nat \<Rightarrow> 'f sub_db \<Rightarrow> 'e sub_error option" where
  "translateConditionalWindowReset flt i affected db =
     (case flt of
        FailsBefore e \<Rightarrow> Some (PersistenceError e)
      | FailsAfter e \<Rightarrow> Some (PersistenceError e)
      | _ \<Rightarrow> if 0 < affected then None
             else (case flt of
                 ExistFails e \<Rightarrow> Some (PersistenceError e)
               | _ \<Rightarrow> if \<not> exists_row db i then Some ErrSubscriptionNotFound else None))"

text \<open>A conditional update followed by the translation of its result.\<close>

definition conditional_reset ::
  "'f pg_ops \<Rightarrow> instant \<Rightarrow> 'e db_fault \<Rightarrow> int \<Rightarrow> ('f UserSubscription \<Rightarrow> bool)
     \<Rightarrow> ('f UserSubscription \<Rightarrow> 'f UserSubscription) \<Rightarrow> 'f sub_db \<Rightarrow> 'e sub_error option \<times> 'f sub_db" where
  "conditional_reset pg wall flt i cond f db =
     (case flt of
        FailsBefore e \<Rightarrow> (translateConditionalWindowReset flt i 0 db, db)
      | _ \<Rightarrow> let (n, db') = update_sub_where pg wall i cond f db
             in (translateConditionalWindowReset flt i n db', db'))"

definition ActivateWindows ::
  "'f pg_ops \<Rightarrow> instant \<Rightarrow> 'e db_fault \<Rightarrow> int \<Rightarrow> instant \<Rightarrow> instant \<Rightarrow> 'f sub_db \<Rightarrow> 'e sub_error option \<times> 'f sub_db" where
  "ActivateWindows pg wall flt i dailyStart periodicStart =
     conditional_reset pg wall flt i
       (\<lambda>r. us_DailyWindowStart r = None \<and> us_WeeklyWindowStart r = None \<and> us_MonthlyWindowStart r = None)
       (\<lambda>r. r\<lparr>us_DailyWindowStart := Some (pg_time pg dailyStart),
              us_WeeklyWindowStart := Some (pg_time pg periodicStart),
              us_MonthlyWindowStart := Some (pg_time pg periodicStart)\<rparr>)"

text \<open>A column equals the expected value, or is \<open>NULL\<close> where none is expected.\<close>

definition expected :: "'f pg_ops \<Rightarrow> instant option \<Rightarrow> instant option \<Rightarrow> bool" where
  "expected pg e c \<longleftrightarrow> c = map_option (pg_time pg) e"

definition ResetDailyUsage ::
  "'f f64_ops \<Rightarrow> 'f pg_ops \<Rightarrow> instant \<Rightarrow> 'e db_fault \<Rightarrow> int \<Rightarrow> instant option \<Rightarrow> instant \<Rightarrow> 'f sub_db
     \<Rightarrow> 'e sub_error option \<times> 'f sub_db" where
  "ResetDailyUsage f64 pg wall flt i expectedWindowStart newWindowStart =
     conditional_reset pg wall flt i
       (\<lambda>r. expected pg expectedWindowStart (us_DailyWindowStart r))
       (\<lambda>r. r\<lparr>us_DailyUsageUSD := f_zero f64, us_DailyWindowStart := Some (pg_time pg newWindowStart)\<rparr>)"

definition ResetWeeklyUsage ::
  "'f f64_ops \<Rightarrow> 'f pg_ops \<Rightarrow> instant \<Rightarrow> 'e db_fault \<Rightarrow> int \<Rightarrow> instant option \<Rightarrow> instant \<Rightarrow> 'f sub_db
     \<Rightarrow> 'e sub_error option \<times> 'f sub_db" where
  "ResetWeeklyUsage f64 pg wall flt i expectedWindowStart newWindowStart =
     conditional_reset pg wall flt i
       (\<lambda>r. expected pg expectedWindowStart (us_WeeklyWindowStart r))
       (\<lambda>r. r\<lparr>us_WeeklyUsageUSD := f_zero f64, us_WeeklyWindowStart := Some (pg_time pg newWindowStart)\<rparr>)"

definition ResetMonthlyUsage ::
  "'f f64_ops \<Rightarrow> 'f pg_ops \<Rightarrow> instant \<Rightarrow> 'e db_fault \<Rightarrow> int \<Rightarrow> instant option \<Rightarrow> instant \<Rightarrow> 'f sub_db
     \<Rightarrow> 'e sub_error option \<times> 'f sub_db" where
  "ResetMonthlyUsage f64 pg wall flt i expectedWindowStart newWindowStart =
     conditional_reset pg wall flt i
       (\<lambda>r. expected pg expectedWindowStart (us_MonthlyWindowStart r))
       (\<lambda>r. r\<lparr>us_MonthlyUsageUSD := f_zero f64, us_MonthlyWindowStart := Some (pg_time pg newWindowStart)\<rparr>)"

text \<open>The unconditional reset by an administrator: an update by identifier, which fails on a missing row.\<close>

definition ResetUsageWindows ::
  "'f f64_ops \<Rightarrow> 'f pg_ops \<Rightarrow> instant \<Rightarrow> 'e db_fault \<Rightarrow> int \<Rightarrow> bool \<Rightarrow> bool \<Rightarrow> bool \<Rightarrow> instant \<Rightarrow> instant \<Rightarrow> 'f sub_db
     \<Rightarrow> 'e sub_error option \<times> 'f sub_db" where
  "ResetUsageWindows f64 pg wall flt i resetDaily resetWeekly resetMonthly dailyStart periodicStart db =
     (let upd = (\<lambda>r.
        let r1 = (if resetDaily then r\<lparr>us_DailyUsageUSD := f_zero f64, us_DailyWindowStart := Some (pg_time pg dailyStart)\<rparr> else r);
            r2 = (if resetWeekly then r1\<lparr>us_WeeklyUsageUSD := f_zero f64, us_WeeklyWindowStart := Some (pg_time pg periodicStart)\<rparr> else r1)
        in if resetMonthly then r2\<lparr>us_MonthlyUsageUSD := f_zero f64, us_MonthlyWindowStart := Some (pg_time pg periodicStart)\<rparr> else r2)
      in case flt of
           FailsBefore e \<Rightarrow> (Some (PersistenceError e), db)
         | FailsAfter e \<Rightarrow> (Some (PersistenceError e), snd (update_sub_where pg wall i (\<lambda>_. True) upd db))
         | _ \<Rightarrow> let (n, db') = update_sub_where pg wall i (\<lambda>_. True) upd db
                in (if n = 0 then Some ErrSubscriptionNotFound else None, db'))"

definition GetByID :: "'e db_fault \<Rightarrow> int \<Rightarrow> 'f sub_db \<Rightarrow> 'e sub_error + 'f UserSubscription" where
  "GetByID flt i db =
     (case flt of
        DbOk \<Rightarrow> (case row db i of
            Some r \<Rightarrow> if us_DeletedAt r = None then Inr r else Inl ErrSubscriptionNotFound
          | None \<Rightarrow> Inl ErrSubscriptionNotFound)
      | FailsBefore e \<Rightarrow> Inl (PersistenceError e)
      | FailsAfter e \<Rightarrow> Inl (PersistenceError e)
      | ExistFails e \<Rightarrow> Inl (PersistenceError e))"

text \<open>The statement joins the group of the subscription, which must not be deleted.\<close>

definition IncrementUsage ::
  "'f pg_ops \<Rightarrow> instant \<Rightarrow> 'e db_fault \<Rightarrow> int \<Rightarrow> 'f \<Rightarrow> 'f sub_db \<Rightarrow> 'e sub_error option \<times> 'f sub_db" where
  "IncrementUsage pg wall flt i costUSD db =
     (let (n, db') = update_sub_where pg wall i (\<lambda>r. us_DeletedAt r = None \<and> us_GroupID r \<in> set (sd_groups db))
        (\<lambda>r. r\<lparr>us_DailyUsageUSD := pg_add pg (us_DailyUsageUSD r) costUSD,
               us_WeeklyUsageUSD := pg_add pg (us_WeeklyUsageUSD r) costUSD,
               us_MonthlyUsageUSD := pg_add pg (us_MonthlyUsageUSD r) costUSD\<rparr>) db
      in case flt of
           FailsBefore e \<Rightarrow> (Some (PersistenceError e), db)
         | FailsAfter e \<Rightarrow> (Some (PersistenceError e), db')
         | _ \<Rightarrow> (if 0 < n then None else Some ErrSubscriptionNotFound, db'))"

subsection \<open>Checks in memory\<close>

definition normalizeExpiredWindowsAt ::
  "'f sub_env \<Rightarrow> 'f UserSubscription list \<Rightarrow> instant \<Rightarrow> 'f UserSubscription list" where
  "normalizeExpiredWindowsAt env subs now =
     map (\<lambda>sub.
       let s1 = (if canAutomaticallyResetDailyAt env sub now
                 then sub\<lparr>us_DailyWindowStart := None, us_DailyUsageUSD := f_zero (se_f64 env)\<rparr> else sub);
           s2 = (if canAutomaticallyResetWeeklyAt env s1 now
                 then s1\<lparr>us_WeeklyWindowStart := None, us_WeeklyUsageUSD := f_zero (se_f64 env)\<rparr> else s1)
       in if canAutomaticallyResetMonthlyAt env s2 now
          then s2\<lparr>us_MonthlyWindowStart := None, us_MonthlyUsageUSD := f_zero (se_f64 env)\<rparr> else s2) subs"

definition normalizeSubscriptionStatus :: "'f UserSubscription list \<Rightarrow> instant \<Rightarrow> 'f UserSubscription list" where
  "normalizeSubscriptionStatus subs now =
     map (\<lambda>sub. if us_Status sub = SubscriptionStatusActive \<and> \<not> now < us_ExpiresAt sub
                then sub\<lparr>us_Status := SubscriptionStatusExpired\<rparr> else sub) subs"

definition CheckUsageLimits ::
  "'f f64_ops \<Rightarrow> 'f UserSubscription \<Rightarrow> 'f Group \<Rightarrow> 'f \<Rightarrow> 'e sub_error option" where
  "CheckUsageLimits f64 sub g additionalCost =
     (if \<not> CheckDailyLimit f64 sub g additionalCost then Some ErrDailyLimitExceeded
      else if \<not> CheckWeeklyLimit f64 sub g additionalCost then Some ErrWeeklyLimitExceeded
      else if \<not> CheckMonthlyLimit f64 sub g additionalCost then Some ErrMonthlyLimitExceeded
      else None)"

text \<open>The result is the flag \<open>needsMaintenance\<close>, the error, and the subscription as left in memory.\<close>

definition ValidateAndCheckLimits ::
  "'f sub_env \<Rightarrow> instant \<Rightarrow> 'f UserSubscription \<Rightarrow> 'f Group \<Rightarrow> bool \<times> 'e sub_error option \<times> 'f UserSubscription" where
  "ValidateAndCheckLimits env now sub g =
     (if us_Status sub = SubscriptionStatusExpired then (False, Some ErrSubscriptionExpired, sub)
      else if us_Status sub = SubscriptionStatusSuspended then (False, Some ErrSubscriptionSuspended, sub)
      else if \<not> now < us_ExpiresAt sub then (False, Some ErrSubscriptionExpired, sub)
      else
        let f64 = se_f64 env; z = f_zero f64;
            d = canAutomaticallyResetDailyAt env sub now;
            s1 = (if d then sub\<lparr>us_DailyUsageUSD := z\<rparr> else sub);
            w = canAutomaticallyResetWeeklyAt env s1 now;
            s2 = (if w then s1\<lparr>us_WeeklyUsageUSD := z\<rparr> else s1);
            m = canAutomaticallyResetMonthlyAt env s2 now;
            s3 = (if m then s2\<lparr>us_MonthlyUsageUSD := z\<rparr> else s2);
            needsMaintenance = (d \<or> w \<or> m \<or> \<not> IsWindowActivated s3)
        in if \<not> CheckDailyLimit f64 s3 g z then (needsMaintenance, Some ErrDailyLimitExceeded, s3)
           else if \<not> CheckWeeklyLimit f64 s3 g z then (needsMaintenance, Some ErrWeeklyLimitExceeded, s3)
           else if \<not> CheckMonthlyLimit f64 s3 g z then (needsMaintenance, Some ErrMonthlyLimitExceeded, s3)
           else (needsMaintenance, None, s3))"

subsection \<open>Window maintenance\<close>

text \<open>
  \<open>EnsureWindowMaintenance\<close>: activate the windows if none is, advance the daily, the weekly and the
  monthly window if they are due, and read the row again. The subscription is the caller's copy in
  memory, which \<open>CheckAndResetWindows\<close> changes as it goes. The clock is read once for the activation
  and once for all three resets.
\<close>

datatype ('f, 'e) maint_pc =
    M_Activate "'f UserSubscription"
  | M_Daily "'f UserSubscription"
  | M_Weekly instant "'f UserSubscription"
  | M_Monthly instant "'f UserSubscription"
  | M_Refresh "'f UserSubscription"
  | M_Done "'e sub_error + 'f UserSubscription"

definition EnsureWindowMaintenance_start :: "'f UserSubscription option \<Rightarrow> ('f, 'e) maint_pc" where
  "EnsureWindowMaintenance_start sub =
     (case sub of
        None \<Rightarrow> M_Done (Inl ErrSubscriptionNilInput)
      | Some sub \<Rightarrow> if \<not> IsWindowActivated sub then M_Activate sub else M_Daily sub)"

definition CheckAndActivateWindow ::
  "'f sub_env \<Rightarrow> 'f pg_ops \<Rightarrow> instant \<Rightarrow> instant \<Rightarrow> 'e db_fault \<Rightarrow> 'f UserSubscription \<Rightarrow> 'f sub_db
     \<Rightarrow> 'e sub_error option \<times> 'f sub_db" where
  "CheckAndActivateWindow env pg now wall flt sub db =
     (if IsWindowActivated sub then (None, db)
      else ActivateWindows pg wall flt (us_ID sub) (StartOfDay (se_zone env) now) now db)"

definition reset_daily ::
  "'f sub_env \<Rightarrow> 'f pg_ops \<Rightarrow> instant \<Rightarrow> instant \<Rightarrow> 'e db_fault \<Rightarrow> 'f UserSubscription \<Rightarrow> 'f sub_db
     \<Rightarrow> ('f, 'e) maint_pc \<times> 'f sub_db" where
  "reset_daily env pg now wall flt sub db =
     (case automaticDailyWindowStartAt env sub now of
        None \<Rightarrow> (M_Weekly now sub, db)
      | Some windowStart \<Rightarrow>
          (case ResetDailyUsage (se_f64 env) pg wall flt (us_ID sub) (us_DailyWindowStart sub) windowStart db of
             (Some err, db') \<Rightarrow> (M_Done (Inl err), db')
           | (None, db') \<Rightarrow>
               (M_Weekly now (sub\<lparr>us_DailyWindowStart := Some windowStart, us_DailyUsageUSD := f_zero (se_f64 env)\<rparr>), db')))"

definition reset_weekly ::
  "'f sub_env \<Rightarrow> 'f pg_ops \<Rightarrow> instant \<Rightarrow> instant \<Rightarrow> 'e db_fault \<Rightarrow> 'f UserSubscription \<Rightarrow> 'f sub_db
     \<Rightarrow> ('f, 'e) maint_pc \<times> 'f sub_db" where
  "reset_weekly env pg now wall flt sub db =
     (case automaticWindowStartAt env sub (us_WeeklyWindowStart sub) week_ns now of
        None \<Rightarrow> (M_Monthly now sub, db)
      | Some windowStart \<Rightarrow>
          (case ResetWeeklyUsage (se_f64 env) pg wall flt (us_ID sub) (us_WeeklyWindowStart sub) windowStart db of
             (Some err, db') \<Rightarrow> (M_Done (Inl err), db')
           | (None, db') \<Rightarrow>
               (M_Monthly now (sub\<lparr>us_WeeklyWindowStart := Some windowStart, us_WeeklyUsageUSD := f_zero (se_f64 env)\<rparr>), db')))"

definition reset_monthly ::
  "'f sub_env \<Rightarrow> 'f pg_ops \<Rightarrow> instant \<Rightarrow> instant \<Rightarrow> 'e db_fault \<Rightarrow> 'f UserSubscription \<Rightarrow> 'f sub_db
     \<Rightarrow> ('f, 'e) maint_pc \<times> 'f sub_db" where
  "reset_monthly env pg now wall flt sub db =
     (case automaticWindowStartAt env sub (us_MonthlyWindowStart sub) month_ns now of
        None \<Rightarrow> (M_Refresh sub, db)
      | Some windowStart \<Rightarrow>
          (case ResetMonthlyUsage (se_f64 env) pg wall flt (us_ID sub) (us_MonthlyWindowStart sub) windowStart db of
             (Some err, db') \<Rightarrow> (M_Done (Inl err), db')
           | (None, db') \<Rightarrow>
               (M_Refresh (sub\<lparr>us_MonthlyWindowStart := Some windowStart, us_MonthlyUsageUSD := f_zero (se_f64 env)\<rparr>), db')))"

fun maint_step ::
  "'f sub_env \<Rightarrow> 'f pg_ops \<Rightarrow> instant \<Rightarrow> instant \<Rightarrow> 'e db_fault \<Rightarrow> ('f, 'e) maint_pc \<Rightarrow> 'f sub_db
     \<Rightarrow> ('f, 'e) maint_pc \<times> 'f sub_db" where
  "maint_step env pg now wall flt (M_Activate sub) db =
     (case CheckAndActivateWindow env pg now wall flt sub db of
        (Some err, db') \<Rightarrow> (M_Done (Inl err), db')
      | (None, db') \<Rightarrow> (M_Daily sub, db'))"
| "maint_step env pg now wall flt (M_Daily sub) db = reset_daily env pg now wall flt sub db"
| "maint_step env pg now wall flt (M_Weekly now' sub) db = reset_weekly env pg now' wall flt sub db"
| "maint_step env pg now wall flt (M_Monthly now' sub) db = reset_monthly env pg now' wall flt sub db"
| "maint_step env pg now wall flt (M_Refresh sub) db = (M_Done (GetByID flt (us_ID sub) db), db)"
| "maint_step env pg now wall flt (M_Done res) db = (M_Done res, db)"

text \<open>The calls of one request without interference: at most five calls, each with its fault.\<close>

fun run_maint ::
  "'f sub_env \<Rightarrow> 'f pg_ops \<Rightarrow> instant \<Rightarrow> instant \<Rightarrow> 'e db_fault list \<Rightarrow> ('f, 'e) maint_pc \<Rightarrow> 'f sub_db
     \<Rightarrow> ('f, 'e) maint_pc \<times> 'f sub_db" where
  "run_maint env pg now wall [] pc db = (pc, db)"
| "run_maint env pg now wall (flt # flts) pc db =
     (case maint_step env pg now wall flt pc db of (pc', db') \<Rightarrow> run_maint env pg now wall flts pc' db')"

definition EnsureWindowMaintenance ::
  "'f sub_env \<Rightarrow> 'f pg_ops \<Rightarrow> instant \<Rightarrow> instant \<Rightarrow> (nat \<Rightarrow> 'e db_fault) \<Rightarrow> 'f UserSubscription option \<Rightarrow> 'f sub_db
     \<Rightarrow> ('f, 'e) maint_pc \<times> 'f sub_db" where
  "EnsureWindowMaintenance env pg now wall flt sub db =
     run_maint env pg now wall (map flt [0..<5]) (EnsureWindowMaintenance_start sub) db"

definition AdminResetQuota ::
  "'f sub_env \<Rightarrow> 'f pg_ops \<Rightarrow> instant \<Rightarrow> instant \<Rightarrow> (nat \<Rightarrow> 'e db_fault) \<Rightarrow> int \<Rightarrow> bool \<Rightarrow> bool \<Rightarrow> bool \<Rightarrow> 'f sub_db
     \<Rightarrow> ('e sub_error + 'f UserSubscription) \<times> 'f sub_db" where
  "AdminResetQuota env pg now wall flt subscriptionID resetDaily resetWeekly resetMonthly db =
     (if \<not> resetDaily \<and> \<not> resetWeekly \<and> \<not> resetMonthly then (Inl ErrInvalidInput, db)
      else case GetByID (flt 0) subscriptionID db of
        Inl err \<Rightarrow> (Inl err, db)
      | Inr sub \<Rightarrow>
          (case ResetUsageWindows (se_f64 env) pg wall (flt 1) (us_ID sub) resetDaily resetWeekly resetMonthly
                  (StartOfDay (se_zone env) now) now db of
             (Some err, db') \<Rightarrow> (Inl err, db')
           | (None, db') \<Rightarrow> (GetByID (flt 2) subscriptionID db', db')))"

subsection \<open>Many requests\<close>

text \<open>
  The table, the snapshots that were ever read (a request may start from any of them, with the usage
  in memory changed by earlier checks), and the requests under way.
\<close>

record ('f, 'e) sub_sys =
  sy_db :: "'f sub_db"
  sy_hist :: "'f UserSubscription list"
  sy_reqs :: "('f, 'e) maint_pc list"

datatype ('f, 'e) sub_act =
    Read int "'e db_fault"
  | Begin nat 'f 'f 'f
  | Continue nat instant instant "'e db_fault"
  | Usage int 'f instant "'e db_fault"

fun sys_step ::
  "'f sub_env \<Rightarrow> 'f pg_ops \<Rightarrow> ('f, 'e) sub_sys \<Rightarrow> ('f, 'e) sub_act
     \<Rightarrow> ('f, 'e) sub_sys \<times> ('f sub_db \<times> ('f, 'e) sub_act \<times> 'f sub_db) list" where
  "sys_step env pg s (Read i flt) =
     (case GetByID flt i (sy_db s) of
        Inl _ \<Rightarrow> (s, [])
      | Inr r \<Rightarrow> (s\<lparr>sy_hist := r # sy_hist s\<rparr>, []))"
| "sys_step env pg s (Begin n d w m) =
     (if n < length (sy_hist s)
      then (s\<lparr>sy_reqs := sy_reqs s @ [EnsureWindowMaintenance_start (Some ((sy_hist s ! n)
              \<lparr>us_DailyUsageUSD := d, us_WeeklyUsageUSD := w, us_MonthlyUsageUSD := m\<rparr>))]\<rparr>, [])
      else (s, []))"
| "sys_step env pg s (Continue n now wall flt) =
     (if n < length (sy_reqs s)
      then (case maint_step env pg now wall flt (sy_reqs s ! n) (sy_db s) of (pc, db') \<Rightarrow>
              (s\<lparr>sy_db := db', sy_reqs := (sy_reqs s)[n := pc]\<rparr>, [(sy_db s, Continue n now wall flt, db')]))
      else (s, []))"
| "sys_step env pg s (Usage i c wall flt) =
     (let db' = snd (IncrementUsage pg wall flt i c (sy_db s))
      in (s\<lparr>sy_db := db'\<rparr>, [(sy_db s, Usage i c wall flt, db')]))"

text \<open>The two windows that move in periods.\<close>

datatype periodic = Weekly | Monthly

fun win_start :: "periodic \<Rightarrow> 'f UserSubscription \<Rightarrow> instant option" where
  "win_start Weekly r = us_WeeklyWindowStart r"
| "win_start Monthly r = us_MonthlyWindowStart r"

fun win_usage :: "periodic \<Rightarrow> 'f UserSubscription \<Rightarrow> 'f" where
  "win_usage Weekly r = us_WeeklyUsageUSD r"
| "win_usage Monthly r = us_MonthlyUsageUSD r"

fun win_period :: "periodic \<Rightarrow> duration" where
  "win_period Weekly = week_ns"
| "win_period Monthly = month_ns"

text \<open>
  What a step shows of one window of one subscription: that its stored start changed, or that an amount
  was recorded.
\<close>

datatype 'f win_event = is_Moved: Moved "instant option" "instant option" | Spent 'f

definition records_usage :: "int \<Rightarrow> 'f sub_db \<Rightarrow> ('f, 'e) sub_act \<Rightarrow> 'f list" where
  "records_usage i db act =
     (case act of
        Usage j c _ flt \<Rightarrow>
          if j = i \<and> (case flt of FailsBefore _ \<Rightarrow> False | _ \<Rightarrow> True) \<and>
             (case row db i of None \<Rightarrow> False
              | Some r \<Rightarrow> us_DeletedAt r = None \<and> us_GroupID r \<in> set (sd_groups db))
          then [c] else []
      | _ \<Rightarrow> [])"

definition win_event ::
  "periodic \<Rightarrow> int \<Rightarrow> 'f sub_db \<times> ('f, 'e) sub_act \<times> 'f sub_db \<Rightarrow> 'f win_event list" where
  "win_event k i = (\<lambda>(db, act, db').
     (case (row db i, row db' i) of
        (Some r, Some r') \<Rightarrow>
          (if win_start k r' \<noteq> win_start k r then [Moved (win_start k r) (win_start k r')] else [])
      | _ \<Rightarrow> []) @ map Spent (records_usage i db act))"

text \<open>
  The ledger a window should be: it starts at some time, moves on by at least a period and never to
  the end of the subscription or past it, and its usage is what was recorded since it last moved.
\<close>

record 'f ledger =
  lg_start :: instant
  lg_renewals :: nat
  lg_usage :: 'f

fun ledger_step ::
  "duration \<Rightarrow> instant \<Rightarrow> 'f \<Rightarrow> ('f \<Rightarrow> 'f \<Rightarrow> 'f) \<Rightarrow> 'f ledger \<Rightarrow> 'f win_event \<Rightarrow> 'f ledger option" where
  "ledger_step P E z add l (Spent c) = Some (l\<lparr>lg_usage := add (lg_usage l) c\<rparr>)"
| "ledger_step P E z add l (Moved (Some old) (Some new)) =
     (if old = lg_start l \<and> old + P \<le> new \<and> new < E
      then Some \<lparr>lg_start = new, lg_renewals = Suc (lg_renewals l), lg_usage = z\<rparr> else None)"
| "ledger_step P E z add l (Moved _ _) = None"

subsection \<open>What a statement does to a row\<close>

lemma row_update_row:
  "row (update_row i f db) j = (if j = i then map_option f (row db i) else row db j)"
proof -
  have "map_of (map (\<lambda>(j, r). (j, if j = i then f r else r)) xs) j = (if j = i then map_option f (map_of xs i) else map_of xs j)"
    for xs by (induction xs) auto
  then show ?thesis by (simp add: update_row_def)
qed

lemma row_update_sub_where:
  "row (snd (update_sub_where pg wall i cond f db)) j =
     (case row db i of
        Some r \<Rightarrow> if j = i \<and> cond r then Some ((f r)\<lparr>us_UpdatedAt := pg_time pg wall\<rparr>) else row db j
      | None \<Rightarrow> row db j)"
  by (auto simp: update_sub_where_def row_update_row split: option.splits)

definition fault_before :: "'e db_fault \<Rightarrow> bool" where
  "fault_before flt = (case flt of FailsBefore _ \<Rightarrow> True | _ \<Rightarrow> False)"

lemma row_conditional_reset:
  "row (snd (conditional_reset pg wall flt i cond f db)) j =
     (case row db i of
        Some r \<Rightarrow> if j = i \<and> cond r \<and> \<not> fault_before flt
                  then Some ((f r)\<lparr>us_UpdatedAt := pg_time pg wall\<rparr>) else row db j
      | None \<Rightarrow> row db j)"
  by (cases flt) (simp_all add: conditional_reset_def fault_before_def row_update_sub_where split_beta Let_def split: option.splits)

lemma row_IncrementUsage:
  "row (snd (IncrementUsage pg wall flt i c db)) j =
     (case row db i of
        Some r \<Rightarrow> if j = i \<and> us_DeletedAt r = None \<and> us_GroupID r \<in> set (sd_groups db) \<and> \<not> fault_before flt
                  then Some (r\<lparr>us_DailyUsageUSD := pg_add pg (us_DailyUsageUSD r) c,
                               us_WeeklyUsageUSD := pg_add pg (us_WeeklyUsageUSD r) c,
                               us_MonthlyUsageUSD := pg_add pg (us_MonthlyUsageUSD r) c,
                               us_UpdatedAt := pg_time pg wall\<rparr>) else row db j
      | None \<Rightarrow> row db j)"
  by (cases flt) (simp_all add: IncrementUsage_def fault_before_def row_update_sub_where split_beta Let_def split: option.splits)

lemmas reset_defs = ResetDailyUsage_def ResetWeeklyUsage_def ResetMonthlyUsage_def ActivateWindows_def

text \<open>Nothing but the windows, the usage and the time of the update ever changes.\<close>

definition same_term :: "'f UserSubscription \<Rightarrow> 'f UserSubscription \<Rightarrow> bool" where
  "same_term r r' \<longleftrightarrow> us_ID r' = us_ID r \<and> us_StartsAt r' = us_StartsAt r \<and> us_ExpiresAt r' = us_ExpiresAt r"

text \<open>What a step of maintenance does to the window \<open>k\<close> of a row: nothing, or a reset by a request whose copy agrees with it.\<close>

definition win_change ::
  "'f sub_env \<Rightarrow> 'f pg_ops \<Rightarrow> periodic \<Rightarrow> 'f UserSubscription \<Rightarrow> 'f UserSubscription \<Rightarrow> 'f UserSubscription \<Rightarrow> bool" where
  "win_change env pg k sub r r' \<longleftrightarrow> same_term r r' \<and>
     (win_start k r' = win_start k r \<and> win_usage k r' = win_usage k r
      \<or> (\<exists>now w. automaticWindowStartAt env sub (win_start k sub) (win_period k) now = Some w
           \<and> win_start k r = map_option (pg_time pg) (win_start k sub)
           \<and> win_start k r' = Some (pg_time pg w) \<and> win_usage k r' = f_zero (se_f64 env)))"

fun pc_sub :: "('f, 'e) maint_pc \<Rightarrow> 'f UserSubscription option" where
  "pc_sub (M_Activate sub) = Some sub"
| "pc_sub (M_Daily sub) = Some sub"
| "pc_sub (M_Weekly _ sub) = Some sub"
| "pc_sub (M_Monthly _ sub) = Some sub"
| "pc_sub (M_Refresh sub) = Some sub"
| "pc_sub (M_Done _) = None"

lemma win_change_refl: "win_change env pg k sub r r"
  by (simp add: win_change_def same_term_def)

text \<open>The table after a step.\<close>

lemma maint_step_db:
  "snd (maint_step env pg now wall flt (M_Activate sub) db) = snd (CheckAndActivateWindow env pg now wall flt sub db)"
  "snd (maint_step env pg now wall flt (M_Daily sub) db) =
     (case automaticDailyWindowStartAt env sub now of None \<Rightarrow> db
      | Some w \<Rightarrow> snd (ResetDailyUsage (se_f64 env) pg wall flt (us_ID sub) (us_DailyWindowStart sub) w db))"
  "snd (maint_step env pg now wall flt (M_Weekly now' sub) db) =
     (case automaticWindowStartAt env sub (us_WeeklyWindowStart sub) week_ns now' of None \<Rightarrow> db
      | Some w \<Rightarrow> snd (ResetWeeklyUsage (se_f64 env) pg wall flt (us_ID sub) (us_WeeklyWindowStart sub) w db))"
  "snd (maint_step env pg now wall flt (M_Monthly now' sub) db) =
     (case automaticWindowStartAt env sub (us_MonthlyWindowStart sub) month_ns now' of None \<Rightarrow> db
      | Some w \<Rightarrow> snd (ResetMonthlyUsage (se_f64 env) pg wall flt (us_ID sub) (us_MonthlyWindowStart sub) w db))"
  "snd (maint_step env pg now wall flt (M_Refresh sub) db) = db"
  "snd (maint_step env pg now wall flt (M_Done res) db) = db"
  by (simp_all add: reset_daily_def reset_weekly_def reset_monthly_def split: prod.splits option.splits)

lemmas row_simps = maint_step_db CheckAndActivateWindow_def reset_defs row_conditional_reset expected_def

declare maint_step.simps [simp del]

lemma maint_step_rows:
  assumes "row db i = Some r" and "win_start k r \<noteq> None"
  shows "\<exists>r'. row (snd (maint_step env pg now wall flt pc db)) i = Some r' \<and>
    (r' = r \<or> (\<exists>sub. pc_sub pc = Some sub \<and> us_ID sub = i \<and> win_change env pg k sub r r'))"
  using assms
  by (cases pc; cases k)
    (auto simp: row_simps win_change_def same_term_def split: option.split, blast+)

lemma maint_step_ids:
  assumes "\<And>j r. row db j = Some r \<Longrightarrow> us_ID r = j"
    and "row (snd (maint_step env pg now wall flt pc db)) j = Some r"
  shows "us_ID r = j"
  using assms by (cases pc) (auto simp: row_simps split: option.splits if_splits)

text \<open>The copy a request carries on.\<close>

lemma maint_step_sub:
  assumes "pc_sub (fst (maint_step env pg now wall flt pc db)) = Some sub'"
  shows "\<exists>sub. pc_sub pc = Some sub \<and> same_term sub sub' \<and>
    (win_start k sub' = win_start k sub \<or>
     (\<exists>now w. automaticWindowStartAt env sub (win_start k sub) (win_period k) now = Some w \<and> win_start k sub' = Some w))"
  using assms
  by (cases pc; cases k)
    (auto simp: maint_step.simps reset_daily_def reset_weekly_def reset_monthly_def same_term_def
      split: option.splits prod.splits if_splits)

lemma win_period_facts [simp]: "0 < win_period k" "1000 dvd win_period k"
  by (cases k; simp add: hour_ns_def second_ns_def)+

lemma window_start_grid:
  assumes "automaticWindowStartAt env s (Some previous) P now = Some w" and P: "0 < P"
  shows "\<exists>m. w = windowResetAnchor env s previous + m * P"
proof -
  define a where "a = windowResetAnchor env s previous"
  have due: "a + P \<le> now" "a + P < us_ExpiresAt s" using due_iff [of env s previous P now] assms by (simp_all add: a_def)
  define m where "m = min (time_Sub now a sdiv P) (wrap64 (time_Sub (us_ExpiresAt s) a - 1) sdiv P)"
  have pos: "0 < time_Sub now a" "0 < time_Sub (us_ExpiresAt s) a" using due P by (simp_all add: time_Sub_def)
  have "wrap64 (time_Sub (us_ExpiresAt s) a - 1) = time_Sub (us_ExpiresAt s) a - 1"
    using pos time_Sub_bounds [of "us_ExpiresAt s" a] by (intro wrap64_id) simp_all
  then have "0 \<le> m" using pos P by (simp add: m_def sdiv_nonneg pos_imp_zdiv_nonneg_iff)
  moreover have "m * P \<le> time_Sub now a"
    using pos P grid_le [OF P, of m "time_Sub now a"] by (simp add: m_def sdiv_nonneg)
  ultimately have "wrap64 (m * P) = m * P"
    using time_Sub_bounds [of now a] P by (intro wrap64_id) (smt (verit) mult_nonneg_nonneg zero_le_power)+
  moreover have "w = a + wrap64 (m * P)"
    using assms due by (auto simp: automaticWindowStartAt_def a_def [symmetric] m_def min_def Let_def split: if_splits)
  ultimately show ?thesis unfolding a_def by auto
qed

lemma window_start_later:
  assumes "automaticWindowStartAt env s (Some previous) P now = Some w" and P: "0 < P"
    and "us_ExpiresAt s - previous < 2 ^ 63"
  shows "previous + P \<le> w" "w < us_ExpiresAt s"
proof -
  define a where "a = windowResetAnchor env s previous"
  obtain m where m: "w = a + m * P" "a + P \<le> now" "a + P < us_ExpiresAt s" "w < us_ExpiresAt s"
      "now < w + P \<or> us_ExpiresAt s \<le> w + P"
    using assms(1) window_start_characterised [OF P assms(3), of env now w] by (auto simp: a_def Let_def)
  then have "0 < m * P" by linarith
  then have "1 \<le> m" using P by (simp add: zero_less_mult_iff)
  then have "1 * P \<le> m * P" using P by (intro mult_right_mono) auto
  then show "previous + P \<le> w" using m(1) windowResetAnchor_ge [of previous env s] by (simp add: a_def)
  show "w < us_ExpiresAt s" by (rule m(4))
qed

subsection \<open>Windows refine the ledger\<close>

definition snap_ok :: "periodic \<Rightarrow> int \<Rightarrow> instant \<Rightarrow> instant \<Rightarrow> 'f UserSubscription \<Rightarrow> bool" where
  "snap_ok k i S E sub \<longleftrightarrow> (us_ID sub = i \<longrightarrow> us_StartsAt sub = S \<and> us_ExpiresAt sub = E
     \<and> (\<forall>t. win_start k sub = Some t \<longrightarrow> 1000 dvd t))"

definition row_ledger :: "periodic \<Rightarrow> int \<Rightarrow> instant \<Rightarrow> instant \<Rightarrow> 'f sub_db \<Rightarrow> 'f ledger \<Rightarrow> bool" where
  "row_ledger k i S E db l \<longleftrightarrow>
     (\<forall>j r. row db j = Some r \<longrightarrow> us_ID r = j) \<and>
     (\<exists>r. row db i = Some r \<and> us_StartsAt r = S \<and> us_ExpiresAt r = E \<and> win_start k r = Some (lg_start l)
        \<and> win_usage k r = lg_usage l) \<and> 1000 dvd lg_start l \<and> E - lg_start l < 2 ^ 63"

definition sys_ledger ::
  "'f pg_ops \<Rightarrow> periodic \<Rightarrow> int \<Rightarrow> instant \<Rightarrow> instant \<Rightarrow> ('f, 'e) sub_sys \<Rightarrow> 'f ledger \<Rightarrow> bool" where
  "sys_ledger pg k i S E s l \<longleftrightarrow>
     (\<forall>t. 1000 dvd t \<longrightarrow> pg_time pg t = t) \<and> 1000 dvd S \<and> row_ledger k i S E (sy_db s) l \<and>
     (\<forall>h \<in> set (sy_hist s). snap_ok k i S E h) \<and>
     (\<forall>pc \<in> set (sy_reqs s). \<forall>sub. pc_sub pc = Some sub \<longrightarrow> snap_ok k i S E sub)"

lemma snap_aligned:
  assumes "snap_ok k i S E sub" "us_ID sub = i" "1000 dvd S"
    and "automaticWindowStartAt env sub (win_start k sub) (win_period k) now = Some w"
  shows "1000 dvd w"
proof -
  obtain t where t: "win_start k sub = Some t" using assms(4) by (cases "win_start k sub") (auto simp: automaticWindowStartAt_def)
  obtain m where "w = windowResetAnchor env sub t + m * win_period k"
    using window_start_grid [of env sub t "win_period k" now w] assms(4) t by auto
  moreover have "1000 dvd windowResetAnchor env sub t" using assms t by (simp add: windowResetAnchor_def snap_ok_def Let_def)
  ultimately show ?thesis by simp
qed

lemma maint_step_snap:
  assumes "\<And>sub. pc_sub pc = Some sub \<Longrightarrow> snap_ok k i S E sub" and "1000 dvd S"
    and "pc_sub (fst (maint_step env pg now wall flt pc db)) = Some sub'"
  shows "snap_ok k i S E sub'"
proof -
  obtain sub where sub: "pc_sub pc = Some sub" "same_term sub sub'"
      "win_start k sub' = win_start k sub \<or>
       (\<exists>now w. automaticWindowStartAt env sub (win_start k sub) (win_period k) now = Some w \<and> win_start k sub' = Some w)"
    using maint_step_sub [OF assms(3), of k] by blast
  have ok: "snap_ok k i S E sub" using assms(1) sub(1) by blast
  show ?thesis using sub(2,3) ok snap_aligned [OF ok _ assms(2)] by (auto simp: snap_ok_def same_term_def)
qed

text \<open>A reset that takes effect is a renewal of the ledger.\<close>

lemma win_change_ledger:
  assumes ch: "win_change env pg k sub r r'" and sub: "snap_ok k i S E sub" "us_ID sub = i"
    and pg: "\<And>t. 1000 dvd t \<Longrightarrow> pg_time pg t = t" and S: "1000 dvd S"
    and r: "us_StartsAt r = S" "us_ExpiresAt r = E" "win_start k r = Some (lg_start l)" "win_usage k r = lg_usage l"
    and l: "1000 dvd lg_start l" "E - lg_start l < 2 ^ 63"
  shows "win_start k r' = win_start k r \<and> win_usage k r' = win_usage k r
    \<or> (\<exists>w. win_start k r' = Some w \<and> win_usage k r' = f_zero (se_f64 env) \<and> 1000 dvd w
         \<and> lg_start l + win_period k \<le> w \<and> w < E)"
  using ch unfolding win_change_def
proof (elim conjE disjE exE)
  fix now w
  assume a: "automaticWindowStartAt env sub (win_start k sub) (win_period k) now = Some w"
    and cas: "win_start k r = map_option (pg_time pg) (win_start k sub)"
    and r': "win_start k r' = Some (pg_time pg w)" "win_usage k r' = f_zero (se_f64 env)"
  obtain t where t: "win_start k sub = Some t" using a by (cases "win_start k sub") (auto simp: automaticWindowStartAt_def)
  have "1000 dvd t" using sub t by (simp add: snap_ok_def)
  then have "t = lg_start l" using cas t r(3) pg by simp
  moreover have "us_ExpiresAt sub = E" using sub by (simp add: snap_ok_def)
  ultimately have "lg_start l + win_period k \<le> w" "w < E"
    using window_start_later [of env sub t "win_period k" now w] a t l by simp_all
  moreover have "1000 dvd w" using snap_aligned [OF sub S a] .
  ultimately show ?thesis using r' pg by auto
qed simp

lemma records_usage_iff:
  assumes "row db i = Some r"
  shows "records_usage i db (Usage j c wall flt) =
    (if j = i \<and> \<not> fault_before flt \<and> us_DeletedAt r = None \<and> us_GroupID r \<in> set (sd_groups db) then [c] else [])"
  using assms by (cases flt) (simp_all add: records_usage_def fault_before_def)

lemma usage_ledger:
  assumes "row_ledger k i S E db l"
  shows "\<exists>l'. accepts (ledger_step P E z (pg_add pg)) l
      (win_event k i (db, Usage j c wall flt, snd (IncrementUsage pg wall flt j c db))) = Some l'
    \<and> row_ledger k i S E (snd (IncrementUsage pg wall flt j c db)) l'"
proof -
  obtain r where r: "row db i = Some r" "us_StartsAt r = S" "us_ExpiresAt r = E"
      "win_start k r = Some (lg_start l)" "win_usage k r = lg_usage l"
    and ids: "\<And>j r. row db j = Some r \<Longrightarrow> us_ID r = j" and l: "1000 dvd lg_start l" "E - lg_start l < 2 ^ 63"
    using assms by (auto simp: row_ledger_def)
  let ?db' = "snd (IncrementUsage pg wall flt j c db)"
  have ids': "\<And>j r. row ?db' j = Some r \<Longrightarrow> us_ID r = j"
    using ids by (auto simp: row_IncrementUsage split: option.splits if_splits)
  show ?thesis
  proof (cases "j = i \<and> \<not> fault_before flt \<and> us_DeletedAt r = None \<and> us_GroupID r \<in> set (sd_groups db)")
    case True
    then obtain r' where r': "row ?db' i = Some r'" "us_StartsAt r' = S" "us_ExpiresAt r' = E"
        "win_start k r' = win_start k r" "win_usage k r' = pg_add pg (win_usage k r) c"
      using r by (cases k) (simp_all add: row_IncrementUsage)
    then show ?thesis using True r l ids'
      by (intro exI [of _ "l\<lparr>lg_usage := pg_add pg (lg_usage l) c\<rparr>"])
        (auto simp: win_event_def records_usage_iff row_ledger_def)
  next
    case False
    then have r': "row ?db' i = Some r" using r by (auto simp: row_IncrementUsage split: option.splits)
    show ?thesis using False r r' l ids'
      by (intro exI [of _ l]) (auto simp: win_event_def records_usage_iff row_ledger_def)
  qed
qed

lemma sys_step_ledger:
  assumes rel: "sys_ledger pg k i S E s l"
  shows "\<exists>l'. accepts (\<lambda>l ev. accepts (ledger_step (win_period k) E (f_zero (se_f64 env)) (pg_add pg)) l (win_event k i ev)) l
           (snd (sys_step env pg s act)) = Some l' \<and> sys_ledger pg k i S E (fst (sys_step env pg s act)) l'"
proof (cases act)
  case (Read j flt)
  show ?thesis
  proof (cases "GetByID flt j (sy_db s)")
    case (Inr r)
    have "row (sy_db s) j = Some r" using Inr by (auto simp: GetByID_def split: db_fault.splits option.splits if_splits)
    then have "snap_ok k i S E r" using rel by (auto simp: sys_ledger_def row_ledger_def snap_ok_def)
    then show ?thesis using rel Read Inr by (auto simp: sys_ledger_def)
  qed (use rel Read in simp)
next
  case (Begin n d w m)
  have start: "pc_sub (EnsureWindowMaintenance_start (Some sub)) = Some sub" for sub :: "'a UserSubscription"
    by (simp add: EnsureWindowMaintenance_start_def)
  have "n < length (sy_hist s) \<Longrightarrow> snap_ok k i S E (sy_hist s ! n)" using rel by (simp add: sys_ledger_def)
  then show ?thesis using rel Begin
    by (cases k) (auto simp: sys_ledger_def snap_ok_def start)
next
  case (Continue n now wall flt)
  show ?thesis
  proof (cases "n < length (sy_reqs s)")
    case True
    let ?pc = "sy_reqs s ! n"
    obtain pc db' where st: "maint_step env pg now wall flt ?pc (sy_db s) = (pc, db')" by (rule prod.exhaust)
    obtain r where r: "row (sy_db s) i = Some r" "us_StartsAt r = S" "us_ExpiresAt r = E"
        "win_start k r = Some (lg_start l)" "win_usage k r = lg_usage l"
      using rel by (auto simp: sys_ledger_def row_ledger_def)
    have pg: "\<And>t. 1000 dvd t \<Longrightarrow> pg_time pg t = t" and S: "1000 dvd S" and l: "1000 dvd lg_start l" "E - lg_start l < 2 ^ 63"
      and ids: "\<And>j r. row (sy_db s) j = Some r \<Longrightarrow> us_ID r = j"
      using rel by (auto simp: sys_ledger_def row_ledger_def)
    have snap: "\<And>sub. pc_sub ?pc = Some sub \<Longrightarrow> snap_ok k i S E sub" using rel True by (auto simp: sys_ledger_def)
    have ids': "\<And>j r. row db' j = Some r \<Longrightarrow> us_ID r = j" 
      using maint_step_ids [of "sy_db s", OF ids, where env = env and pg = pg and now = now and wall = wall and flt = flt and pc = ?pc] st
      by auto
    have snap': "\<And>sub. pc_sub pc = Some sub \<Longrightarrow> snap_ok k i S E sub"
      using maint_step_snap [of ?pc k i S E, OF snap S, where env = env and pg = pg and now = now and wall = wall
          and flt = flt and db = "sy_db s"] st by auto
    have reqs: "\<forall>pc' \<in> set ((sy_reqs s)[n := pc]). \<forall>sub. pc_sub pc' = Some sub \<longrightarrow> snap_ok k i S E sub"
      using rel snap' set_update_subset_insert [of "sy_reqs s" n pc] by (fastforce simp: sys_ledger_def)
    obtain r' where r': "row db' i = Some r'"
        "r' = r \<or> (\<exists>sub. pc_sub ?pc = Some sub \<and> us_ID sub = i \<and> win_change env pg k sub r r')"
      using maint_step_rows [OF r(1), of k env pg now wall flt ?pc] r(4) st by auto
    have term': "us_StartsAt r' = S" "us_ExpiresAt r' = E" using r'(2) r by (auto simp: win_change_def same_term_def)
    have ch: "win_start k r' = win_start k r \<and> win_usage k r' = win_usage k r
      \<or> (\<exists>w. win_start k r' = Some w \<and> win_usage k r' = f_zero (se_f64 env) \<and> 1000 dvd w
           \<and> lg_start l + win_period k \<le> w \<and> w < E)"
      using r'(2) win_change_ledger [OF _ snap _ pg S r(2-5) l] by blast
    show ?thesis using ch
    proof (elim disjE exE conjE)
      assume same: "win_start k r' = win_start k r" "win_usage k r' = win_usage k r"
      then have "sys_ledger pg k i S E (s\<lparr>sy_db := db', sy_reqs := (sy_reqs s)[n := pc]\<rparr>) l"
        using rel reqs r' term' r ids' by (simp add: sys_ledger_def row_ledger_def)
      then show ?thesis using Continue True st same r r' by (simp add: win_event_def records_usage_def)
    next
      fix w
      assume w: "win_start k r' = Some w" "win_usage k r' = f_zero (se_f64 env)" "1000 dvd w"
        "lg_start l + win_period k \<le> w" "w < E"
      let ?l = "\<lparr>lg_start = w, lg_renewals = Suc (lg_renewals l), lg_usage = f_zero (se_f64 env)\<rparr>"
      have "E - w < 2 ^ 63" using w(4) l(2) win_period_facts(1) [of k] by linarith
      then have "sys_ledger pg k i S E (s\<lparr>sy_db := db', sy_reqs := (sy_reqs s)[n := pc]\<rparr>) ?l"
        using rel reqs r' term' w ids' by (simp add: sys_ledger_def row_ledger_def)
      moreover have "w \<noteq> lg_start l" using w(4) win_period_facts(1) [of k] by linarith
      ultimately show ?thesis using Continue True st w r r' by (simp add: win_event_def records_usage_def)
    qed
  qed (use rel Continue in simp)
next
  case (Usage j c wall flt)
  define db' where "db' = snd (IncrementUsage pg wall flt j c (sy_db s))"
  have st: "sys_step env pg s act = (s\<lparr>sy_db := db'\<rparr>, [(sy_db s, act, db')])"
    by (simp add: Usage db'_def Let_def)
  have rl: "row_ledger k i S E (sy_db s) l" using rel by (simp add: sys_ledger_def)
  obtain l' where "accepts (ledger_step (win_period k) E (f_zero (se_f64 env)) (pg_add pg)) l
      (win_event k i (sy_db s, act, db')) = Some l'" "row_ledger k i S E db' l'"
    unfolding Usage db'_def
    using usage_ledger [OF rl, where P = "win_period k" and z = "f_zero (se_f64 env)" and pg = pg and j = j
        and c = c and wall = wall and flt = flt] by blast
  then show ?thesis using rel by (auto simp: st sys_ledger_def)
qed

interpretation window: stream_protocol "sys_step env pg" "\<lambda>_ _. Some ()"
  "\<lambda>l ev. accepts (ledger_step (win_period k) E (f_zero (se_f64 env)) (pg_add pg)) l (win_event k i ev)"
  "\<lambda>_ s l. sys_ledger pg k i S E s l"
  for env pg k i S E
  by unfold_locales (rule sys_step_ledger)

lemma ledger_run:
  assumes "accepts (ledger_step P E z add) l evs = Some l'"
  shows "lg_start l + int (count_if is_Moved evs) * P \<le> lg_start l'
    \<and> (count_if is_Moved evs = 0 \<and> lg_start l' = lg_start l \<or> lg_start l' < E)"
  using assms
proof (induction evs arbitrary: l)
  case (Cons e evs)
  then obtain l1 where l1: "ledger_step P E z add l e = Some l1" "accepts (ledger_step P E z add) l1 evs = Some l'"
    by (auto split: option.splits)
  note IH = Cons.IH [OF l1(2)]
  show ?case
  proof (cases e)
    case (Spent c)
    then show ?thesis using l1(1) IH by auto
  next
    case (Moved a b)
    then obtain old new where "a = Some old" "b = Some new" "old = lg_start l" "old + P \<le> new" "new < E" "lg_start l1 = new"
      using l1(1) by (cases a; cases b) (auto split: if_splits)
    then show ?thesis using IH Moved by (auto simp: algebra_simps)
  qed
qed simp

lemma accepts_gather:
  "accepts (\<lambda>l ev. accepts acc l (f ev)) l xs = accepts acc l (gather f xs)"
  by (induction xs arbitrary: l) (auto simp: accepts_append split: option.splits)

text \<open>A table in which every row is stored under its identifier, before any request.\<close>

definition sys_init :: "'f sub_db \<Rightarrow> ('f, 'e) sub_sys" where
  "sys_init db = \<lparr>sy_db = db, sy_hist = [], sy_reqs = []\<rparr>"

definition ids_stored :: "'f sub_db \<Rightarrow> bool" where
  "ids_stored db \<longleftrightarrow> list_all (\<lambda>(j, r). us_ID r = j) (sd_subs db)"

lemma ids_storedD: "ids_stored db \<Longrightarrow> row db j = Some r \<Longrightarrow> us_ID r = j"
  by (auto simp: ids_stored_def list_all_iff dest!: map_of_SomeD)

lemma window_run:
  assumes pg: "\<And>t. 1000 dvd t \<Longrightarrow> pg_time pg t = t" and ids: "ids_stored db"
    and r: "row db i = Some r" "win_start k r = Some w"
    and al: "1000 dvd us_StartsAt r" "1000 dvd w" and E: "us_ExpiresAt r - w < 2 ^ 63"
  shows "\<exists>l r'. accepts (ledger_step (win_period k) (us_ExpiresAt r) (f_zero (se_f64 env)) (pg_add pg))
        \<lparr>lg_start = w, lg_renewals = 0, lg_usage = win_usage k r\<rparr>
        (gather (win_event k i) (snd (run_stream (sys_step env pg) (sys_init db) acts))) = Some l
     \<and> row (sy_db (fst (run_stream (sys_step env pg) (sys_init db) acts))) i = Some r'
     \<and> win_start k r' = Some (lg_start l) \<and> win_usage k r' = lg_usage l"
proof -
  let ?l = "\<lparr>lg_start = w, lg_renewals = 0, lg_usage = win_usage k r\<rparr>"
  have rel: "sys_ledger pg k i (us_StartsAt r) (us_ExpiresAt r) (sys_init db) ?l"
    using assms ids_storedD [OF ids] by (auto simp: sys_ledger_def row_ledger_def sys_init_def)
  have free: "accepts (\<lambda>_ _. Some ()) () xs = Some ()" for xs :: "'x list" by (induction xs) simp_all
  from window.run_sim [OF rel free, of env acts] show ?thesis
    by (auto simp: accepts_gather sys_ledger_def row_ledger_def)
qed

text \<open>Two requests from the same snapshot advance the weekly window while usage is recorded.\<close>

definition micro_pg :: "int pg_ops" where
  "micro_pg = \<lparr>pg_time = (\<lambda>t. t div 1000 * 1000), pg_add = (+)\<rparr>"

definition example_db :: "int sub_db" where
  "example_db = \<lparr>sd_subs = [(1, example_sub)], sd_groups = [3]\<rparr>"

definition example_acts :: "(int, unit) sub_act list" where
  "example_acts = [Read 1 DbOk, Begin 0 0 0 0, Begin 0 0 0 0,
     Continue 0 (8 * 24 * hour_ns) 0 DbOk, Continue 1 (8 * 24 * hour_ns) 0 DbOk,
     Continue 0 0 0 DbOk, Usage 1 9 0 DbOk, Continue 1 0 0 DbOk]"

lemma micro_pg_aligned: "1000 dvd t \<Longrightarrow> pg_time micro_pg t = t"
  by (simp add: micro_pg_def)

lemma example_rows:
  "ids_stored example_db" "row example_db 1 = Some example_sub" "win_start Weekly example_sub = Some 0"
  "us_StartsAt example_sub = 0" "us_ExpiresAt example_sub = 30 * 24 * hour_ns" "us_WeeklyUsageUSD example_sub = 5"
  by (simp_all add: ids_stored_def example_db_def example_sub_def)

subsection \<open>Properties\<close>

text \<open>
  (C29) Usage windows under concurrency. Whatever requests do at the same time, from snapshots however
  old, with statements that fail before or after they took effect: what is seen of the weekly or the
  monthly window of a subscription is a run of the ledger. The stored start only moves on from where it
  was, by at least a period and to a time before the end, and the stored usage is exactly what was
  recorded since the last move; no late request clears the usage of a window that has moved on.
\<close>

theorem usage_window_refines_ledger:
  assumes "\<And>t. 1000 dvd t \<Longrightarrow> pg_time pg t = t" and "ids_stored db"
    and "row db i = Some r" "win_start k r = Some w"
    and "1000 dvd us_StartsAt r" "1000 dvd w" and "us_ExpiresAt r - w < 2 ^ 63"
  shows "\<exists>l r'. accepts (ledger_step (win_period k) (us_ExpiresAt r) (f_zero (se_f64 env)) (pg_add pg))
        \<lparr>lg_start = w, lg_renewals = 0, lg_usage = win_usage k r\<rparr>
        (gather (win_event k i) (snd (run_stream (sys_step env pg) (sys_init db) acts))) = Some l
     \<and> row (sy_db (fst (run_stream (sys_step env pg) (sys_init db) acts))) i = Some r'
     \<and> win_start k r' = Some (lg_start l) \<and> win_usage k r' = lg_usage l"
  by (rule window_run) (use assms in auto)

theorem usage_window_refines_ledger_witness:
  "\<exists>l r'. accepts (ledger_step week_ns (30 * 24 * hour_ns) 0 (+)) \<lparr>lg_start = 0, lg_renewals = 0, lg_usage = 5\<rparr>
        (gather (win_event Weekly 1) (snd (run_stream (sys_step example_env micro_pg) (sys_init example_db) example_acts))) = Some l
     \<and> row (sy_db (fst (run_stream (sys_step example_env micro_pg) (sys_init example_db) example_acts))) 1 = Some r'
     \<and> us_WeeklyWindowStart r' = Some (lg_start l) \<and> us_WeeklyUsageUSD r' = lg_usage l"
  using usage_window_refines_ledger [where pg = micro_pg and db = example_db and i = 1 and k = Weekly and w = 0
      and env = example_env and acts = example_acts, OF micro_pg_aligned example_rows(1-3)]
  by (simp add: example_rows(4-6) example_env_def int_f64_def hour_ns_def second_ns_def) (simp add: micro_pg_def)

text \<open>
  (C30) The quota of a period is granted no more often than periods fit into the subscription: in every
  interleaving, the stored start of the weekly or the monthly window of a subscription moves \<open>n\<close> times
  only if \<open>n\<close> whole periods fit between its start at the beginning and the end of the subscription.
\<close>

theorem renewals_fit_the_term:
  assumes "\<And>t. 1000 dvd t \<Longrightarrow> pg_time pg t = t" and "ids_stored db"
    and "row db i = Some r" "win_start k r = Some w"
    and "1000 dvd us_StartsAt r" "1000 dvd w" and "us_ExpiresAt r - w < 2 ^ 63"
    and "n = count_if is_Moved
      (gather (win_event k i) (snd (run_stream (sys_step env pg) (sys_init db) acts)))" and "n \<noteq> 0"
  shows "int n * win_period k < us_ExpiresAt r - w"
proof -
  obtain l where l: "accepts (ledger_step (win_period k) (us_ExpiresAt r) (f_zero (se_f64 env)) (pg_add pg))
        \<lparr>lg_start = w, lg_renewals = 0, lg_usage = win_usage k r\<rparr>
        (gather (win_event k i) (snd (run_stream (sys_step env pg) (sys_init db) acts))) = Some l"
    using window_run [where acts = acts and env = env, OF assms(1-7)] by blast
  show ?thesis using ledger_run [OF l] assms(8,9) by auto
qed

theorem renewals_fit_the_term_witness:
  "int (count_if is_Moved (gather (win_event Weekly 1)
      (snd (run_stream (sys_step example_env micro_pg) (sys_init example_db) example_acts)))) * week_ns < 30 * 24 * hour_ns"
proof -
  have "count_if is_Moved (gather (win_event Weekly 1)
      (snd (run_stream (sys_step example_env micro_pg) (sys_init example_db) example_acts))) \<noteq> 0"
    by code_simp
  from renewals_fit_the_term [OF micro_pg_aligned example_rows(1-3) _ _ _ refl this]
  show ?thesis by (simp add: example_rows(4,5) hour_ns_def second_ns_def)
qed

subsection \<open>Admission\<close>

text \<open>An amount is within a limit if there is none, if it is not positive, or if the amount does not exceed it.\<close>

definition within_limit :: "'f f64_ops \<Rightarrow> 'f option \<Rightarrow> 'f \<Rightarrow> bool" where
  "within_limit f limit used =
     (case limit of None \<Rightarrow> True
      | Some l \<Rightarrow> if f_lt f (f_zero f) l then f_le f (f_add f used (f_zero f)) l else True)"

text \<open>
  (C40) Admission. The check passes exactly when the subscription is neither marked expired nor suspended,
  its end lies in the future, and for each window the usage is within the limit of the group, where a
  window that is due counts as unused.
\<close>

theorem request_passes_iff:
  "fst (snd (ValidateAndCheckLimits env now sub g)) = None \<longleftrightarrow>
     us_Status sub \<notin> {SubscriptionStatusExpired, SubscriptionStatusSuspended} \<and> now < us_ExpiresAt sub
     \<and> within_limit (se_f64 env) (g_DailyLimitUSD g)
         (if canAutomaticallyResetDailyAt env sub now then f_zero (se_f64 env) else us_DailyUsageUSD sub)
     \<and> within_limit (se_f64 env) (g_WeeklyLimitUSD g)
         (if canAutomaticallyResetWeeklyAt env sub now then f_zero (se_f64 env) else us_WeeklyUsageUSD sub)
     \<and> within_limit (se_f64 env) (g_MonthlyLimitUSD g)
         (if canAutomaticallyResetMonthlyAt env sub now then f_zero (se_f64 env) else us_MonthlyUsageUSD sub)"
proof -
  have due [simp]: "canAutomaticallyResetWeeklyAt env (sub\<lparr>us_DailyUsageUSD := d\<rparr>) now = canAutomaticallyResetWeeklyAt env sub now"
    "canAutomaticallyResetMonthlyAt env (sub\<lparr>us_DailyUsageUSD := d\<rparr>) now = canAutomaticallyResetMonthlyAt env sub now"
    "canAutomaticallyResetMonthlyAt env (sub\<lparr>us_WeeklyUsageUSD := w\<rparr>) now = canAutomaticallyResetMonthlyAt env sub now"
    "canAutomaticallyResetMonthlyAt env (sub\<lparr>us_DailyUsageUSD := d, us_WeeklyUsageUSD := w\<rparr>) now = canAutomaticallyResetMonthlyAt env sub now"
    for d w
    by (simp_all add: canAutomaticallyResetWeeklyAt_def canAutomaticallyResetMonthlyAt_def automaticWindowStartAt_def
        windowResetAnchor_def Let_def split: option.split)
  have lim: "CheckDailyLimit (se_f64 env) s g (f_zero (se_f64 env)) = within_limit (se_f64 env) (g_DailyLimitUSD g) (us_DailyUsageUSD s)"
    "CheckWeeklyLimit (se_f64 env) s g (f_zero (se_f64 env)) = within_limit (se_f64 env) (g_WeeklyLimitUSD g) (us_WeeklyUsageUSD s)"
    "CheckMonthlyLimit (se_f64 env) s g (f_zero (se_f64 env)) = within_limit (se_f64 env) (g_MonthlyLimitUSD g) (us_MonthlyUsageUSD s)" for s
    by (auto simp: CheckDailyLimit_def CheckWeeklyLimit_def CheckMonthlyLimit_def HasDailyLimit_def HasWeeklyLimit_def
        HasMonthlyLimit_def within_limit_def split: option.split)
  show ?thesis
  proof (cases "us_Status sub = SubscriptionStatusExpired \<or> us_Status sub = SubscriptionStatusSuspended \<or> \<not> now < us_ExpiresAt sub")
    case True
    then show ?thesis by (auto simp: ValidateAndCheckLimits_def)
  next
    case False
    then show ?thesis by (simp add: ValidateAndCheckLimits_def lim Let_def)
  qed
qed

subsection \<open>Maintenance of one request\<close>

text \<open>A copy that agrees with the stored row in all that maintenance looks at.\<close>

definition fresh :: "'f sub_db \<Rightarrow> 'f UserSubscription \<Rightarrow> bool" where
  "fresh db sub \<longleftrightarrow> (\<exists>r. row db (us_ID sub) = Some r \<and> us_DeletedAt r = None \<and> us_StartsAt r = us_StartsAt sub
     \<and> us_ExpiresAt r = us_ExpiresAt sub \<and> us_DailyWindowStart r = us_DailyWindowStart sub
     \<and> us_WeeklyWindowStart r = us_WeeklyWindowStart sub \<and> us_MonthlyWindowStart r = us_MonthlyWindowStart sub)"

definition aligned :: "'f UserSubscription \<Rightarrow> bool" where
  "aligned sub \<longleftrightarrow> list_all (\<lambda>t. 1000 dvd t) (us_StartsAt sub # [t. Some t \<leftarrow> [us_DailyWindowStart sub,
     us_WeeklyWindowStart sub, us_MonthlyWindowStart sub]])"

definition short_windows :: "'f UserSubscription \<Rightarrow> bool" where
  "short_windows sub \<longleftrightarrow> list_all (\<lambda>t. us_ExpiresAt sub - t < 2 ^ 63)
     [t. Some t \<leftarrow> [us_WeeklyWindowStart sub, us_MonthlyWindowStart sub]]"

lemma aligned_iff:
  "aligned sub \<longleftrightarrow> 1000 dvd us_StartsAt sub \<and> (\<forall>t. us_DailyWindowStart sub = Some t \<longrightarrow> 1000 dvd t)
     \<and> (\<forall>t. us_WeeklyWindowStart sub = Some t \<longrightarrow> 1000 dvd t) \<and> (\<forall>t. us_MonthlyWindowStart sub = Some t \<longrightarrow> 1000 dvd t)"
  by (auto simp: aligned_def split: option.splits)

lemma short_windows_iff:
  "short_windows sub \<longleftrightarrow> (\<forall>t. us_WeeklyWindowStart sub = Some t \<longrightarrow> us_ExpiresAt sub - t < 2 ^ 63)
     \<and> (\<forall>t. us_MonthlyWindowStart sub = Some t \<longrightarrow> us_ExpiresAt sub - t < 2 ^ 63)"
  by (auto simp: short_windows_def split: option.splits)

lemma StartOfDay_aligned: "1000 dvd StartOfDay l t"
  by (simp add: StartOfDay_def time_Date_def second_ns_def)

lemma reset_applies:
  assumes "row db i = Some r" and "cond r"
  shows "\<exists>db'. conditional_reset pg wall DbOk i cond f db = (None, db')
     \<and> row db' i = Some ((f r)\<lparr>us_UpdatedAt := pg_time pg wall\<rparr>)"
  using assms row_conditional_reset [of pg wall DbOk i cond f db i]
  by (auto simp: conditional_reset_def translateConditionalWindowReset_def update_sub_where_def fault_before_def Let_def)

lemma ResetDaily_applies:
  assumes "row db i = Some r" "us_DailyWindowStart r = Some d" "pg_time pg d = d" "pg_time pg w = w"
  shows "\<exists>db'. ResetDailyUsage f64 pg wall DbOk i (Some d) w db = (None, db') \<and> row db' i =
     Some (r\<lparr>us_DailyUsageUSD := f_zero f64, us_DailyWindowStart := Some w, us_UpdatedAt := pg_time pg wall\<rparr>)"
  using reset_applies [of db i r "\<lambda>r. expected pg (Some d) (us_DailyWindowStart r)" pg wall
      "\<lambda>r. r\<lparr>us_DailyUsageUSD := f_zero f64, us_DailyWindowStart := Some (pg_time pg w)\<rparr>"] assms
  by (simp add: ResetDailyUsage_def expected_def)

lemma ResetWeekly_applies:
  assumes "row db i = Some r" "us_WeeklyWindowStart r = Some d" "pg_time pg d = d" "pg_time pg w = w"
  shows "\<exists>db'. ResetWeeklyUsage f64 pg wall DbOk i (Some d) w db = (None, db') \<and> row db' i =
     Some (r\<lparr>us_WeeklyUsageUSD := f_zero f64, us_WeeklyWindowStart := Some w, us_UpdatedAt := pg_time pg wall\<rparr>)"
  using reset_applies [of db i r "\<lambda>r. expected pg (Some d) (us_WeeklyWindowStart r)" pg wall
      "\<lambda>r. r\<lparr>us_WeeklyUsageUSD := f_zero f64, us_WeeklyWindowStart := Some (pg_time pg w)\<rparr>"] assms
  by (simp add: ResetWeeklyUsage_def expected_def)

lemma ResetMonthly_applies:
  assumes "row db i = Some r" "us_MonthlyWindowStart r = Some d" "pg_time pg d = d" "pg_time pg w = w"
  shows "\<exists>db'. ResetMonthlyUsage f64 pg wall DbOk i (Some d) w db = (None, db') \<and> row db' i =
     Some (r\<lparr>us_MonthlyUsageUSD := f_zero f64, us_MonthlyWindowStart := Some w, us_UpdatedAt := pg_time pg wall\<rparr>)"
  using reset_applies [of db i r "\<lambda>r. expected pg (Some d) (us_MonthlyWindowStart r)" pg wall
      "\<lambda>r. r\<lparr>us_MonthlyUsageUSD := f_zero f64, us_MonthlyWindowStart := Some (pg_time pg w)\<rparr>"] assms
  by (simp add: ResetMonthlyUsage_def expected_def)

text \<open>What one of the three resets leaves behind: the windows of the other kinds are as before.\<close>

lemma daily_step:
  assumes pg: "\<And>t. 1000 dvd t \<Longrightarrow> pg_time pg t = t" and zone: "midnights_exist (se_zone env)"
    and f: "fresh db sub" "aligned sub" "short_windows sub"
  shows "\<exists>sub' db'. maint_step env pg now0 wall (DbOk :: 'e db_fault) (M_Daily sub) db = (M_Weekly now0 sub', db')
    \<and> fresh db' sub' \<and> aligned sub' \<and> short_windows sub' \<and> us_ID sub' = us_ID sub
    \<and> (IsWindowActivated sub' = IsWindowActivated sub) \<and> \<not> canAutomaticallyResetDailyAt env sub' now0"
proof (cases "automaticDailyWindowStartAt env sub now0")
  case None
  then show ?thesis using f by (simp add: maint_step.simps reset_daily_def canAutomaticallyResetDailyAt_def)
next
  case (Some w)
  obtain d where d: "us_DailyWindowStart sub = Some d" and w: "w = StartOfDay (se_zone env) now0"
    using Some by (auto simp: automaticDailyWindowStartAt_def Let_def split: option.splits if_splits)
  obtain r where r: "row db (us_ID sub) = Some r" "us_DailyWindowStart r = Some d"
    using f(1) d by (auto simp: fresh_def)
  have "1000 dvd d" using f(2) d by (simp add: aligned_iff)
  then obtain db' where db': "ResetDailyUsage (se_f64 env) pg wall (DbOk :: 'e db_fault) (us_ID sub) (us_DailyWindowStart sub) w db = (None, db')"
      "row db' (us_ID sub) = Some (r\<lparr>us_DailyUsageUSD := f_zero (se_f64 env), us_DailyWindowStart := Some w, us_UpdatedAt := pg_time pg wall\<rparr>)"
    using ResetDaily_applies [OF r, of pg w "se_f64 env" wall] d pg StartOfDay_aligned w by auto
  let ?sub = "sub\<lparr>us_DailyWindowStart := Some w, us_DailyUsageUSD := f_zero (se_f64 env)\<rparr>"
  have "\<not> canAutomaticallyResetDailyAt env ?sub now0"
    by (simp add: canAutomaticallyResetDailyAt_def automaticDailyWindowStartAt_def w StartOfDay_idem [OF zone] Let_def)
  moreover have "fresh db' ?sub" using f(1) db'(2) r by (auto simp: fresh_def)
  moreover have "aligned ?sub" "short_windows ?sub" "IsWindowActivated ?sub = IsWindowActivated sub"
    using f(2,3) d StartOfDay_aligned w by (simp_all add: aligned_iff short_windows_iff IsWindowActivated_def)
  moreover have "maint_step env pg now0 wall (DbOk :: 'e db_fault) (M_Daily sub) db = (M_Weekly now0 ?sub, db')"
    using Some db'(1) by (simp add: maint_step.simps reset_daily_def)
  ultimately show ?thesis by (intro exI [of _ ?sub] exI [of _ db']) simp
qed

lemma automaticWindowStartAt_cong:
  "us_StartsAt s = us_StartsAt s' \<Longrightarrow> us_ExpiresAt s = us_ExpiresAt s' \<Longrightarrow>
     automaticWindowStartAt env s = automaticWindowStartAt env s'"
  by (rule ext)+ (simp add: automaticWindowStartAt_def windowResetAnchor_def Let_def split: option.split)

lemma automaticDailyWindowStartAt_cong:
  "us_StartsAt s = us_StartsAt s' \<Longrightarrow> us_ExpiresAt s = us_ExpiresAt s' \<Longrightarrow> us_DailyWindowStart s = us_DailyWindowStart s' \<Longrightarrow>
     automaticDailyWindowStartAt env s = automaticDailyWindowStartAt env s'"
  by (rule ext) (simp add: automaticDailyWindowStartAt_def HasOneTimeDailyQuota_def split: option.split)

lemma update_window_simps:
  "automaticWindowStartAt env (sub\<lparr>us_WeeklyWindowStart := a, us_WeeklyUsageUSD := b\<rparr>) = automaticWindowStartAt env sub"
  "automaticWindowStartAt env (sub\<lparr>us_MonthlyWindowStart := a, us_MonthlyUsageUSD := b\<rparr>) = automaticWindowStartAt env sub"
  "automaticDailyWindowStartAt env (sub\<lparr>us_WeeklyWindowStart := a, us_WeeklyUsageUSD := b\<rparr>) = automaticDailyWindowStartAt env sub"
  "automaticDailyWindowStartAt env (sub\<lparr>us_MonthlyWindowStart := a, us_MonthlyUsageUSD := b\<rparr>) = automaticDailyWindowStartAt env sub"
  by (rule automaticWindowStartAt_cong automaticDailyWindowStartAt_cong; simp)+

lemmas due_simps = canAutomaticallyResetDailyAt_def canAutomaticallyResetWeeklyAt_def canAutomaticallyResetMonthlyAt_def
  update_window_simps

lemma window_advances:
  assumes d: "win_start k sub = Some d" and "aligned sub" and E: "us_ExpiresAt sub - d < 2 ^ 63"
    and due: "automaticWindowStartAt env sub (win_start k sub) (win_period k) now = Some w"
  shows "1000 dvd d" "1000 dvd w" "us_ExpiresAt sub - w < 2 ^ 63"
    "automaticWindowStartAt env sub (Some w) (win_period k) now = None"
proof -
  have snap: "snap_ok k (us_ID sub) (us_StartsAt sub) (us_ExpiresAt sub) sub"
    using assms(2) by (cases k) (simp_all add: aligned_iff snap_ok_def)
  then show "1000 dvd d" using d by (simp add: snap_ok_def)
  show "1000 dvd w" using snap_aligned [OF snap refl _ due] assms(2) by (simp add: aligned_iff)
  have due': "automaticWindowStartAt env sub (Some d) (win_period k) now = Some w" using due d by simp
  show "us_ExpiresAt sub - w < 2 ^ 63"
    using window_start_later(1) [OF due' _ E] win_period_facts(1) [of k] E by linarith
  show "automaticWindowStartAt env sub (Some w) (win_period k) now = None"
    using settled [OF due' _ E, of now] by simp
qed

lemma weekly_step:
  assumes pg: "\<And>t. 1000 dvd t \<Longrightarrow> pg_time pg t = t"
    and f: "fresh db sub" "aligned sub" "short_windows sub"
  shows "\<exists>sub' db'. maint_step env pg now0 wall (DbOk :: 'e db_fault) (M_Weekly now sub) db = (M_Monthly now sub', db')
    \<and> fresh db' sub' \<and> aligned sub' \<and> short_windows sub' \<and> us_ID sub' = us_ID sub
    \<and> IsWindowActivated sub' = IsWindowActivated sub \<and> \<not> canAutomaticallyResetWeeklyAt env sub' now
    \<and> canAutomaticallyResetDailyAt env sub' now = canAutomaticallyResetDailyAt env sub now"
proof (cases "automaticWindowStartAt env sub (us_WeeklyWindowStart sub) week_ns now")
  case None
  then show ?thesis using f by (simp add: maint_step.simps reset_weekly_def canAutomaticallyResetWeeklyAt_def)
next
  case (Some w)
  then obtain d where d: "us_WeeklyWindowStart sub = Some d"
    by (cases "us_WeeklyWindowStart sub") (auto simp: automaticWindowStartAt_def)
  have E: "us_ExpiresAt sub - d < 2 ^ 63" using f(3) d by (simp add: short_windows_iff)
  have adv: "1000 dvd d" "1000 dvd w" "us_ExpiresAt sub - w < 2 ^ 63"
      "automaticWindowStartAt env sub (Some w) week_ns now = None"
    using window_advances [of Weekly sub d env now w] d f(2) E Some by simp_all
  obtain r where r: "row db (us_ID sub) = Some r" "us_WeeklyWindowStart r = Some d"
    using f(1) d by (auto simp: fresh_def)
  obtain db' where db': "ResetWeeklyUsage (se_f64 env) pg wall (DbOk :: 'e db_fault) (us_ID sub) (us_WeeklyWindowStart sub) w db = (None, db')"
      "row db' (us_ID sub) = Some (r\<lparr>us_WeeklyUsageUSD := f_zero (se_f64 env), us_WeeklyWindowStart := Some w, us_UpdatedAt := pg_time pg wall\<rparr>)"
    using ResetWeekly_applies [OF r, of pg w "se_f64 env" wall] d pg adv(1,2) by auto
  let ?sub = "sub\<lparr>us_WeeklyWindowStart := Some w, us_WeeklyUsageUSD := f_zero (se_f64 env)\<rparr>"
  have "\<not> canAutomaticallyResetWeeklyAt env ?sub now"
    using adv(4) by (simp add: due_simps)
  moreover have "fresh db' ?sub" using f(1) db'(2) r by (auto simp: fresh_def)
  moreover have "canAutomaticallyResetDailyAt env ?sub now = canAutomaticallyResetDailyAt env sub now"
    by (simp add: due_simps)
  moreover have "aligned ?sub" "short_windows ?sub" "IsWindowActivated ?sub = IsWindowActivated sub"
    using f(2,3) d adv(2,3) by (simp_all add: aligned_iff short_windows_iff IsWindowActivated_def)
  moreover have "maint_step env pg now0 wall (DbOk :: 'e db_fault) (M_Weekly now sub) db = (M_Monthly now ?sub, db')"
    using Some db'(1) by (simp add: maint_step.simps reset_weekly_def)
  ultimately show ?thesis by (intro exI [of _ ?sub] exI [of _ db']) simp
qed

lemma monthly_step:
  assumes pg: "\<And>t. 1000 dvd t \<Longrightarrow> pg_time pg t = t"
    and f: "fresh db sub" "aligned sub" "short_windows sub"
  shows "\<exists>sub' db'. maint_step env pg now0 wall (DbOk :: 'e db_fault) (M_Monthly now sub) db = (M_Refresh sub', db')
    \<and> fresh db' sub' \<and> aligned sub' \<and> short_windows sub' \<and> us_ID sub' = us_ID sub
    \<and> IsWindowActivated sub' = IsWindowActivated sub \<and> \<not> canAutomaticallyResetMonthlyAt env sub' now
    \<and> canAutomaticallyResetDailyAt env sub' now = canAutomaticallyResetDailyAt env sub now
    \<and> canAutomaticallyResetWeeklyAt env sub' now = canAutomaticallyResetWeeklyAt env sub now"
proof (cases "automaticWindowStartAt env sub (us_MonthlyWindowStart sub) month_ns now")
  case None
  then show ?thesis using f by (simp add: maint_step.simps reset_monthly_def canAutomaticallyResetMonthlyAt_def)
next
  case (Some w)
  then obtain d where d: "us_MonthlyWindowStart sub = Some d"
    by (cases "us_MonthlyWindowStart sub") (auto simp: automaticWindowStartAt_def)
  have E: "us_ExpiresAt sub - d < 2 ^ 63" using f(3) d by (simp add: short_windows_iff)
  have adv: "1000 dvd d" "1000 dvd w" "us_ExpiresAt sub - w < 2 ^ 63"
      "automaticWindowStartAt env sub (Some w) month_ns now = None"
    using window_advances [of Monthly sub d env now w] d f(2) E Some by simp_all
  obtain r where r: "row db (us_ID sub) = Some r" "us_MonthlyWindowStart r = Some d"
    using f(1) d by (auto simp: fresh_def)
  obtain db' where db': "ResetMonthlyUsage (se_f64 env) pg wall (DbOk :: 'e db_fault) (us_ID sub) (us_MonthlyWindowStart sub) w db = (None, db')"
      "row db' (us_ID sub) = Some (r\<lparr>us_MonthlyUsageUSD := f_zero (se_f64 env), us_MonthlyWindowStart := Some w, us_UpdatedAt := pg_time pg wall\<rparr>)"
    using ResetMonthly_applies [OF r, of pg w "se_f64 env" wall] d pg adv(1,2) by auto
  let ?sub = "sub\<lparr>us_MonthlyWindowStart := Some w, us_MonthlyUsageUSD := f_zero (se_f64 env)\<rparr>"
  have "\<not> canAutomaticallyResetMonthlyAt env ?sub now"
    using adv(4) by (simp add: due_simps)
  moreover have "fresh db' ?sub" using f(1) db'(2) r by (auto simp: fresh_def)
  moreover have "canAutomaticallyResetDailyAt env ?sub now = canAutomaticallyResetDailyAt env sub now
    \<and> canAutomaticallyResetWeeklyAt env ?sub now = canAutomaticallyResetWeeklyAt env sub now"
    by (simp add: due_simps)
  moreover have "aligned ?sub" "short_windows ?sub" "IsWindowActivated ?sub = IsWindowActivated sub"
    using f(2,3) d adv(2,3) by (simp_all add: aligned_iff short_windows_iff IsWindowActivated_def)
  moreover have "maint_step env pg now0 wall (DbOk :: 'e db_fault) (M_Monthly now sub) db = (M_Refresh ?sub, db')"
    using Some db'(1) by (simp add: maint_step.simps reset_monthly_def)
  ultimately show ?thesis by (intro exI [of _ ?sub] exI [of _ db']) simp
qed

text \<open>Reading the row again gives what the copy says.\<close>

lemma refresh_fresh:
  assumes "fresh db sub"
  shows "\<exists>r. maint_step env pg now0 wall (DbOk :: 'e db_fault) (M_Refresh sub) db = (M_Done (Inr r), db)
    \<and> IsWindowActivated r = IsWindowActivated sub
    \<and> canAutomaticallyResetDailyAt env r now = canAutomaticallyResetDailyAt env sub now
    \<and> canAutomaticallyResetWeeklyAt env r now = canAutomaticallyResetWeeklyAt env sub now
    \<and> canAutomaticallyResetMonthlyAt env r now = canAutomaticallyResetMonthlyAt env sub now"
proof -
  obtain r where r: "row db (us_ID sub) = Some r" "us_DeletedAt r = None" "us_StartsAt r = us_StartsAt sub"
     "us_ExpiresAt r = us_ExpiresAt sub" "us_DailyWindowStart r = us_DailyWindowStart sub"
     "us_WeeklyWindowStart r = us_WeeklyWindowStart sub" "us_MonthlyWindowStart r = us_MonthlyWindowStart sub"
    using assms by (auto simp: fresh_def)
  have "automaticWindowStartAt env r = automaticWindowStartAt env sub"
    "automaticDailyWindowStartAt env r = automaticDailyWindowStartAt env sub"
    using r by (auto intro!: automaticWindowStartAt_cong automaticDailyWindowStartAt_cong)
  then show ?thesis using r
    by (simp add: maint_step.simps GetByID_def IsWindowActivated_def due_simps)
qed

lemma activate_step:
  assumes pg: "\<And>t. 1000 dvd t \<Longrightarrow> pg_time pg t = t" "\<And>t. t - 1000 < pg_time pg t" and zone: "midnights_exist (se_zone env)"
    and f: "fresh db sub" and inactive: "\<not> IsWindowActivated sub"
  shows "\<exists>db' sub'. maint_step env pg now wall (DbOk :: 'e db_fault) (M_Activate sub) db = (M_Daily sub, db')
    \<and> fresh db' sub' \<and> us_ID sub' = us_ID sub \<and> IsWindowActivated sub'
    \<and> \<not> canAutomaticallyResetDailyAt env sub' now \<and> \<not> canAutomaticallyResetWeeklyAt env sub' now
    \<and> \<not> canAutomaticallyResetMonthlyAt env sub' now"
proof -
  obtain r where r: "row db (us_ID sub) = Some r" "us_DeletedAt r = None" "us_DailyWindowStart r = None"
      "us_WeeklyWindowStart r = None" "us_MonthlyWindowStart r = None" "us_StartsAt r = us_StartsAt sub"
      "us_ExpiresAt r = us_ExpiresAt sub"
    using f inactive by (auto simp: fresh_def IsWindowActivated_def)
  let ?upd = "\<lambda>r. r\<lparr>us_DailyWindowStart := Some (pg_time pg (StartOfDay (se_zone env) now)),
              us_WeeklyWindowStart := Some (pg_time pg now), us_MonthlyWindowStart := Some (pg_time pg now)\<rparr>"
  obtain db' where db': "ActivateWindows pg wall (DbOk :: 'e db_fault) (us_ID sub) (StartOfDay (se_zone env) now) now db = (None, db')"
      "row db' (us_ID sub) = Some ((?upd r)\<lparr>us_UpdatedAt := pg_time pg wall\<rparr>)"
    using reset_applies [OF r(1), of "\<lambda>r. us_DailyWindowStart r = None \<and> us_WeeklyWindowStart r = None \<and> us_MonthlyWindowStart r = None"
        pg wall ?upd] r
    by (auto simp: ActivateWindows_def)
  let ?sub = "?upd sub"
  have "now < windowResetAnchor env ?sub (pg_time pg now) + week_ns" "now < windowResetAnchor env ?sub (pg_time pg now) + month_ns"
    using windowResetAnchor_ge [of "pg_time pg now" env ?sub] pg(2) [of now]
    by (simp_all add: hour_ns_def second_ns_def)
  then have "\<not> canAutomaticallyResetWeeklyAt env ?sub now" "\<not> canAutomaticallyResetMonthlyAt env ?sub now"
    using due_iff [of env ?sub "pg_time pg now" week_ns now] due_iff [of env ?sub "pg_time pg now" month_ns now]
    by (auto simp: canAutomaticallyResetWeeklyAt_def canAutomaticallyResetMonthlyAt_def)
  moreover have "\<not> canAutomaticallyResetDailyAt env ?sub now"
    using pg(1) [OF StartOfDay_aligned]
    by (simp add: canAutomaticallyResetDailyAt_def automaticDailyWindowStartAt_def StartOfDay_idem [OF zone] Let_def)
  moreover have "fresh db' ?sub" using db'(2) r by (simp add: fresh_def)
  moreover have "maint_step env pg now wall (DbOk :: 'e db_fault) (M_Activate sub) db = (M_Daily sub, db')"
    using db'(1) inactive by (simp add: maint_step.simps CheckAndActivateWindow_def)
  ultimately show ?thesis by (intro exI [of _ db'] exI [of _ ?sub]) (simp add: IsWindowActivated_def)
qed

lemma inactive_steps:
  assumes "\<not> IsWindowActivated sub"
  shows "maint_step env pg now wall flt (M_Daily sub) db = (M_Weekly now sub, db)"
    "maint_step env pg now wall flt (M_Weekly now' sub) db = (M_Monthly now' sub, db)"
    "maint_step env pg now wall flt (M_Monthly now' sub) db = (M_Refresh sub, db)"
  using assms
  by (simp_all add: maint_step.simps reset_daily_def reset_weekly_def reset_monthly_def IsWindowActivated_def
      automaticDailyWindowStartAt_def automaticWindowStartAt_def)

text \<open>
  Maintenance does its work: for a request whose copy agrees with the table and without
  interference, \<open>EnsureWindowMaintenance\<close> returns the stored row with its windows activated and none of
  them due any more at that time, so that the check that follows judges the usage of the current
  windows.
\<close>

theorem maintenance_settles:
  assumes "\<And>t. 1000 dvd t \<Longrightarrow> pg_time pg t = t" "\<And>t. t - 1000 < pg_time pg t" and "midnights_exist (se_zone env)"
    and "fresh db sub" "aligned sub" "short_windows sub"
  shows "\<exists>r db'. EnsureWindowMaintenance env pg now wall (\<lambda>_. DbOk :: 'e db_fault) (Some sub) db = (M_Done (Inr r), db')
    \<and> IsWindowActivated r \<and> \<not> canAutomaticallyResetDailyAt env r now
    \<and> \<not> canAutomaticallyResetWeeklyAt env r now \<and> \<not> canAutomaticallyResetMonthlyAt env r now"
proof (cases "IsWindowActivated sub")
  case False
  obtain db' sub' where a: "maint_step env pg now wall (DbOk :: 'e db_fault) (M_Activate sub) db = (M_Daily sub, db')"
    "fresh db' sub'" "us_ID sub' = us_ID sub" "IsWindowActivated sub'" "\<not> canAutomaticallyResetDailyAt env sub' now"
    "\<not> canAutomaticallyResetWeeklyAt env sub' now" "\<not> canAutomaticallyResetMonthlyAt env sub' now"
    using activate_step [OF assms(1-4) False] by blast
  have same: "maint_step env pg now wall (DbOk :: 'e db_fault) (M_Refresh sub) db' = maint_step env pg now wall DbOk (M_Refresh sub') db'"
    using a(3) by (simp add: maint_step.simps)
  obtain r where "maint_step env pg now wall (DbOk :: 'e db_fault) (M_Refresh sub') db' = (M_Done (Inr r), db')"
    "IsWindowActivated r" "\<not> canAutomaticallyResetDailyAt env r now" "\<not> canAutomaticallyResetWeeklyAt env r now"
    "\<not> canAutomaticallyResetMonthlyAt env r now"
    using refresh_fresh [OF a(2)] a(4-7) by metis
  then show ?thesis using False a(1)
    by (auto simp: EnsureWindowMaintenance_def EnsureWindowMaintenance_start_def upt_rec inactive_steps same)
next
  case True
  obtain s1 db1 where d: "maint_step env pg now wall (DbOk :: 'e db_fault) (M_Daily sub) db = (M_Weekly now s1, db1)"
    "fresh db1 s1" "aligned s1" "short_windows s1" "IsWindowActivated s1" "\<not> canAutomaticallyResetDailyAt env s1 now"
    using daily_step [OF assms(1,3-6)] True by blast
  obtain s2 db2 where w: "maint_step env pg now wall (DbOk :: 'e db_fault) (M_Weekly now s1) db1 = (M_Monthly now s2, db2)"
    "fresh db2 s2" "aligned s2" "short_windows s2" "IsWindowActivated s2" "\<not> canAutomaticallyResetDailyAt env s2 now"
    "\<not> canAutomaticallyResetWeeklyAt env s2 now"
    using weekly_step [OF assms(1) d(2-4)] d(5,6) by blast
  obtain s3 db3 where m: "maint_step env pg now wall (DbOk :: 'e db_fault) (M_Monthly now s2) db2 = (M_Refresh s3, db3)"
    "fresh db3 s3" "IsWindowActivated s3" "\<not> canAutomaticallyResetDailyAt env s3 now"
    "\<not> canAutomaticallyResetWeeklyAt env s3 now" "\<not> canAutomaticallyResetMonthlyAt env s3 now"
    using monthly_step [OF assms(1) w(2-4)] w(5-7) by blast
  obtain r where "maint_step env pg now wall (DbOk :: 'e db_fault) (M_Refresh s3) db3 = (M_Done (Inr r), db3)"
    "IsWindowActivated r" "\<not> canAutomaticallyResetDailyAt env r now" "\<not> canAutomaticallyResetWeeklyAt env r now"
    "\<not> canAutomaticallyResetMonthlyAt env r now"
    using refresh_fresh [OF m(2)] m(3-6) by metis
  then show ?thesis using True d(1) w(1) m(1)
    by (auto simp: EnsureWindowMaintenance_def EnsureWindowMaintenance_start_def upt_rec maint_step.simps(6))
qed

theorem maintenance_settles_witness:
  "\<exists>r db'. EnsureWindowMaintenance example_env micro_pg (16 * 24 * hour_ns) 0 (\<lambda>_. DbOk :: unit db_fault) (Some example_sub) example_db
       = (M_Done (Inr r), db')
    \<and> IsWindowActivated r \<and> \<not> canAutomaticallyResetDailyAt example_env r (16 * 24 * hour_ns)
    \<and> \<not> canAutomaticallyResetWeeklyAt example_env r (16 * 24 * hour_ns)
    \<and> \<not> canAutomaticallyResetMonthlyAt example_env r (16 * 24 * hour_ns)"
proof (rule maintenance_settles)
  show "t - 1000 < pg_time micro_pg t" for t
    using div_mult_mod_eq [of t 1000] pos_mod_bound [of 1000 t] by (simp add: micro_pg_def)
  show "fresh example_db example_sub" "aligned example_sub" "short_windows example_sub"
    by (simp_all add: fresh_def aligned_def short_windows_def example_db_def example_sub_def hour_ns_def second_ns_def)
qed (simp_all add: micro_pg_aligned example_env_def)

end
