(* ===== verification/Keyword_Matcher.thy ===== *)
theory Keyword_Matcher
  imports Relay_Prelude
begin

text \<open>
  \<open>service/content_moderation_keyword_matcher.go\<close>: the matcher that looks for blocked keywords in the text
  of a request. It is an Aho-Corasick automaton kept in flat arrays: a trie whose edges are linked lists
  while it is built, failure links computed breadth first, and edges that are sorted and laid out in one
  array at the end, searched by bisection.

  A label is a byte, a state the index of its node. The source marks \<^emph>\<open>none\<close> by a negative number; here it
  is \<open>None\<close>, except where the source uses 0 for the lack of a transition. Indices do not wrap around: that
  would take more than two billion nodes. \<open>strings.ToLower\<close> is an argument. A loop over the linked list of
  the edges of a node is a loop over the list \<open>siblings\<close> of their indices; the lists, the queue and the
  chains of failure links are followed with fuel, and the correctness proof shows that the fuel is enough.

  The theory shows that the matcher returns the first keyword of the list that occurs in the text, both in
  lower case, and nothing if there is none.
\<close>

subsection \<open>Data\<close>

record kw_node =
  kn_failure :: nat
  kn_bestKeyword :: "nat option"
  kn_edgeStart :: nat
  kn_edgeCount :: nat

record kw_edge =
  ke_target :: nat
  ke_label :: nat

record kw_build_edge =
  be_target :: nat
  be_nextSibling :: "nat option"
  be_label :: nat

record kw_matcher =
  km_nodes :: "kw_node list"
  km_edges :: "kw_edge list"
  km_rootTransitions :: "nat list"
  km_keywords :: "string list"

definition newContentModerationKeywordNode :: kw_node where
  "newContentModerationKeywordNode = \<lparr>kn_failure = 0, kn_bestKeyword = None, kn_edgeStart = 0, kn_edgeCount = 0\<rparr>"

subsection \<open>The trie\<close>

definition contentModerationKeywordBuildFirstEdge :: "kw_node \<Rightarrow> nat option" where
  "contentModerationKeywordBuildFirstEdge node =
     (if kn_edgeStart node = 0 then None else Some (kn_edgeStart node - 1))"

text \<open>The edges a loop over the linked list visits, by index.\<close>

fun siblings_from :: "nat \<Rightarrow> kw_build_edge list \<Rightarrow> nat option \<Rightarrow> nat list" where
  "siblings_from fuel edges None = []"
| "siblings_from 0 edges (Some i) = []"
| "siblings_from (Suc fuel) edges (Some i) = i # siblings_from fuel edges (be_nextSibling (edges ! i))"

definition siblings :: "kw_build_edge list \<Rightarrow> kw_node \<Rightarrow> nat list" where
  "siblings edges node = siblings_from (length edges) edges (contentModerationKeywordBuildFirstEdge node)"

definition contentModerationKeywordBuildTransition ::
  "kw_node list \<Rightarrow> kw_build_edge list \<Rightarrow> nat \<Rightarrow> nat \<Rightarrow> nat option" where
  "contentModerationKeywordBuildTransition nodes edges state label =
     (if length nodes \<le> state then None
      else map_option (\<lambda>i. be_target (edges ! i)) (find (\<lambda>i. be_label (edges ! i) = label) (siblings edges (nodes ! state))))"

definition insert_byte ::
  "kw_node list \<times> kw_build_edge list \<times> nat \<Rightarrow> nat \<Rightarrow> kw_node list \<times> kw_build_edge list \<times> nat" where
  "insert_byte = (\<lambda>(nodes, edges, state) label.
     case contentModerationKeywordBuildTransition nodes edges state label of
       Some next' \<Rightarrow> (nodes, edges, next')
     | None \<Rightarrow>
         let next' = length nodes;
             nodes = nodes @ [newContentModerationKeywordNode];
             edges = edges @ [\<lparr>be_target = next', be_nextSibling = contentModerationKeywordBuildFirstEdge (nodes ! state),
                               be_label = label\<rparr>];
             nodes = nodes[state := (nodes ! state)\<lparr>kn_edgeStart := length edges\<rparr>]
         in (nodes, edges, next'))"

definition insert_keyword ::
  "nat \<Rightarrow> nat list \<Rightarrow> kw_node list \<times> kw_build_edge list \<Rightarrow> kw_node list \<times> kw_build_edge list" where
  "insert_keyword keywordIndex word = (\<lambda>(nodes, edges).
     case foldl insert_byte (nodes, edges, 0) word of (nodes, edges, state) \<Rightarrow>
       (if (case kn_bestKeyword (nodes ! state) of None \<Rightarrow> True | Some current \<Rightarrow> keywordIndex < current)
        then nodes[state := (nodes ! state)\<lparr>kn_bestKeyword := Some keywordIndex\<rparr>] else nodes,
        edges))"

definition bytes :: "string \<Rightarrow> nat list" where
  "bytes s = map of_char s"

fun insert_keywords ::
  "(string \<Rightarrow> string) \<Rightarrow> nat \<Rightarrow> string list \<Rightarrow> kw_node list \<times> kw_build_edge list \<Rightarrow> kw_node list \<times> kw_build_edge list" where
  "insert_keywords lower k [] t = t"
| "insert_keywords lower k (keyword # keywords) t =
     insert_keywords lower (Suc k) keywords
       (if keyword = [] then t else insert_keyword k (bytes (lower keyword)) t)"

subsection \<open>Failure links\<close>

fun find_fallback ::
  "nat \<Rightarrow> kw_node list \<Rightarrow> kw_build_edge list \<Rightarrow> nat \<Rightarrow> nat \<Rightarrow> nat option" where
  "find_fallback fuel nodes edges failure label =
     (case contentModerationKeywordBuildTransition nodes edges failure label of
        Some fallback \<Rightarrow> Some fallback
      | None \<Rightarrow>
          if failure = 0 then None
          else (case fuel of
                  0 \<Rightarrow> None
                | Suc fuel \<Rightarrow> find_fallback fuel nodes edges (kn_failure (nodes ! failure)) label))"

fun minKeywordIndex :: "nat option \<Rightarrow> nat option \<Rightarrow> nat option" where
  "minKeywordIndex None right = right"
| "minKeywordIndex (Some left) None = Some left"
| "minKeywordIndex (Some left) (Some right) = (if left < right then Some left else Some right)"

definition link_edge ::
  "kw_build_edge list \<Rightarrow> nat \<Rightarrow> kw_node list \<Rightarrow> kw_build_edge \<Rightarrow> kw_node list" where
  "link_edge edges state nodes edge =
     (let nodes = (case find_fallback (length nodes) nodes edges (kn_failure (nodes ! state)) (be_label edge) of
                     Some fallback \<Rightarrow> nodes[be_target edge := (nodes ! be_target edge)\<lparr>kn_failure := fallback\<rparr>]
                   | None \<Rightarrow> nodes);
          target = nodes ! be_target edge
      in nodes[be_target edge := target\<lparr>kn_bestKeyword :=
           minKeywordIndex (kn_bestKeyword target) (kn_bestKeyword (nodes ! kn_failure target))\<rparr>])"

text \<open>The queue from \<open>queueIndex\<close> on; every node enters it once, so its length bounds the fuel.\<close>

fun link_queue :: "nat \<Rightarrow> kw_build_edge list \<Rightarrow> nat list \<Rightarrow> kw_node list \<Rightarrow> kw_node list" where
  "link_queue fuel edges [] nodes = nodes"
| "link_queue 0 edges (state # queue) nodes = nodes"
| "link_queue (Suc fuel) edges (state # queue) nodes =
     (let out = map (\<lambda>i. edges ! i) (siblings edges (nodes ! state))
      in link_queue fuel edges (queue @ map be_target out) (foldl (link_edge edges state) nodes out))"

subsection \<open>The matcher\<close>

text \<open>One round of the insertion sort, on the sorted part in reverse: larger labels move right.\<close>

fun sort_in :: "kw_edge \<Rightarrow> kw_edge list \<Rightarrow> kw_edge list" where
  "sort_in current [] = [current]"
| "sort_in current (e # es) = (if ke_label current < ke_label e then e # sort_in current es else current # e # es)"

definition sort_outgoing :: "kw_edge list \<Rightarrow> kw_edge list" where
  "sort_outgoing outgoing = rev (foldl (\<lambda>done current. sort_in current done) [] outgoing)"

fun layout ::
  "kw_build_edge list \<Rightarrow> kw_edge list \<Rightarrow> kw_node list \<Rightarrow> kw_node list \<times> kw_edge list" where
  "layout build edges [] = ([], edges)"
| "layout build edges (node # nodes) =
     (let outgoing = sort_outgoing (map (\<lambda>i. \<lparr>ke_target = be_target (build ! i), ke_label = be_label (build ! i)\<rparr>)
                       (siblings build node));
          node' = node\<lparr>kn_edgeStart := length edges, kn_edgeCount := length outgoing\<rparr>
      in case layout build (edges @ outgoing) nodes of (nodes', edges') \<Rightarrow> (node' # nodes', edges'))"

definition newContentModerationKeywordMatcher :: "(string \<Rightarrow> string) \<Rightarrow> string list \<Rightarrow> kw_matcher option" where
  "newContentModerationKeywordMatcher lower keywords =
     (if keywords = [] then None
      else case insert_keywords lower 0 keywords ([newContentModerationKeywordNode], []) of (nodes, build) \<Rightarrow>
        if length nodes = 1 then None
        else let out = map (\<lambda>i. build ! i) (siblings build (nodes ! 0));
                 root = foldl (\<lambda>ts e. ts[be_label e := be_target e]) (replicate 256 0) out;
                 nodes = link_queue (length nodes) build (map be_target out) nodes
             in case layout build [] nodes of (nodes, edges) \<Rightarrow>
                  Some \<lparr>km_nodes = nodes, km_edges = edges, km_rootTransitions = root, km_keywords = keywords\<rparr>)"

function bisect :: "kw_edge list \<Rightarrow> nat \<Rightarrow> nat \<Rightarrow> nat \<Rightarrow> nat" where
  "bisect edges label left right =
     (if left < right then
        let middle = left + (right - left) div 2 in
        if ke_label (edges ! middle) < label then bisect edges label (middle + 1) right
        else bisect edges label left middle
      else left)"
  by auto
termination by (relation "measure (\<lambda>(_, _, left, right). right - left)") auto

declare bisect.simps [simp del]

definition matcher_next :: "kw_matcher \<Rightarrow> nat \<Rightarrow> nat \<Rightarrow> nat" where
  "matcher_next m state label =
     (if state = 0 then km_rootTransitions m ! label
      else if length (km_nodes m) \<le> state then 0
      else let node = km_nodes m ! state;
               end' = kn_edgeStart node + kn_edgeCount node;
               left = bisect (km_edges m) label (kn_edgeStart node) end'
           in if left < end' \<and> ke_label (km_edges m ! left) = label then ke_target (km_edges m ! left) else 0)"

fun advance :: "nat \<Rightarrow> kw_matcher \<Rightarrow> nat \<Rightarrow> nat \<Rightarrow> nat" where
  "advance fuel m state label =
     (let next' = matcher_next m state label in
      if next' \<noteq> 0 then next'
      else if state = 0 then state
      else (case fuel of 0 \<Rightarrow> state | Suc fuel \<Rightarrow> advance fuel m (kn_failure (km_nodes m ! state)) label))"

text \<open>The loop over the text; \<open>Some 0\<close> leaves it early.\<close>

fun scan :: "kw_matcher \<Rightarrow> nat \<Rightarrow> nat option \<Rightarrow> nat list \<Rightarrow> nat option" where
  "scan m state bestKeyword [] = bestKeyword"
| "scan m state bestKeyword (label # labels) =
     (let state = advance (length (km_nodes m)) m state label;
          bestKeyword = minKeywordIndex bestKeyword (kn_bestKeyword (km_nodes m ! state))
      in if bestKeyword = Some 0 then Some 0 else scan m state bestKeyword labels)"

definition Match :: "(string \<Rightarrow> string) \<Rightarrow> kw_matcher option \<Rightarrow> string \<Rightarrow> string option" where
  "Match lower m text =
     (case m of
        None \<Rightarrow> None
      | Some m \<Rightarrow>
          if text = [] \<or> km_nodes m = [] \<or> km_keywords m = [] then None
          else (case scan m 0 None (bytes (lower text)) of
                  None \<Rightarrow> None
                | Some k \<Rightarrow> if length (km_keywords m) \<le> k then None else Some (km_keywords m ! k)))"

subsection \<open>Longest suffixes\<close>

text \<open>The longest suffix of a text that is a word of \<open>W\<close>, provided that the empty word is one.\<close>

fun lsuf :: "'a list set \<Rightarrow> 'a list \<Rightarrow> 'a list" where
  "lsuf W [] = []"
| "lsuf W (x # xs) = (if x # xs \<in> W then x # xs else lsuf W xs)"

lemma lsuf_word: "u \<in> W \<Longrightarrow> lsuf W u = u"
  by (cases u) simp_all

lemma lsuf_in: "[] \<in> W \<Longrightarrow> lsuf W u \<in> W"
  by (induction u) simp_all

lemma lsuf_suffix: "suffix (lsuf W u) u"
  by (induction u) (simp_all add: suffix_ConsI)

lemma lsuf_longest: "w \<in> W \<Longrightarrow> suffix w u \<Longrightarrow> suffix w (lsuf W u)"
  by (induction u) (auto simp: suffix_Cons)

lemma lsuf_length: "length (lsuf W u) \<le> length u"
  using lsuf_suffix by (rule suffix_length_le)

lemma suffix_lsuf_iff: "w \<in> W \<Longrightarrow> suffix w (lsuf W u) \<longleftrightarrow> suffix w u"
  using lsuf_longest lsuf_suffix suffix_order.trans by blast

definition prefix_closed :: "'a list set \<Rightarrow> bool" where
  "prefix_closed W \<longleftrightarrow> (\<forall>w c. w @ [c] \<in> W \<longrightarrow> w \<in> W)"

lemma prefix_closed_take:
  assumes "prefix_closed W" and "w \<in> W"
  shows "take k w \<in> W"
  using assms(2)
proof (induction w rule: rev_induct)
  case (snoc c w)
  then have "w \<in> W" using assms(1) by (simp add: prefix_closed_def) blast
  then show ?case using snoc by (cases "k \<le> length w") simp_all
qed simp

lemma prefix_closed_length:
  assumes "prefix_closed W" "w \<in> W" "finite W"
  shows "length w < card W"
proof -
  have "(\<lambda>k. take k w) ` {..length w} \<subseteq> W" using prefix_closed_take [OF assms(1,2)] by auto
  moreover have "inj_on (\<lambda>k. take k w) {..length w}"
    by (rule inj_onI) (metis atMost_iff length_take min.absorb2)
  ultimately have "Suc (length w) \<le> card W"
    using card_mono [OF assms(3), of "(\<lambda>k. take k w) ` {..length w}"] by (simp add: card_image)
  then show ?thesis by simp
qed

text \<open>Reading one more letter, the longest suffix so far is all that counts.\<close>

lemma lsuf_snoc:
  assumes "prefix_closed W"
  shows "lsuf W (u @ [c]) = lsuf W (lsuf W u @ [c])"
proof (induction u)
  case (Cons x xs)
  show ?case
  proof (cases "x # xs \<in> W")
    case False
    then have "x # xs @ [c] \<notin> W" using assms by (metis append_Cons prefix_closed_def)
    then show ?thesis using False Cons.IH by simp
  qed simp
qed simp

text \<open>Falling back: where a word and a letter are no word, the longest proper suffix takes over.\<close>

lemma fall_back:
  assumes "prefix_closed W" and "u \<noteq> []" and "u @ [c] \<notin> W"
  shows "lsuf W (u @ [c]) = lsuf W (lsuf W (tl u) @ [c])" "length (lsuf W (tl u)) < length u"
proof -
  have "lsuf W (u @ [c]) = lsuf W (tl u @ [c])" using assms(2,3) by (cases u) simp_all
  then show "lsuf W (u @ [c]) = lsuf W (lsuf W (tl u) @ [c])" using lsuf_snoc [OF assms(1), of "tl u" c] by simp
  show "length (lsuf W (tl u)) < length u" using lsuf_length [of W "tl u"] assms(2) by (cases u) simp_all
qed

subsection \<open>Least indices\<close>

definition least_opt :: "nat set \<Rightarrow> nat option" where
  "least_opt A = (if A = {} then None else Some (LEAST i. i \<in> A))"

lemma least_opt_empty [simp]: "least_opt {} = None"
  by (simp add: least_opt_def)

lemma least_opt_SomeI: "i \<in> A \<Longrightarrow> (\<And>j. j \<in> A \<Longrightarrow> i \<le> j) \<Longrightarrow> least_opt A = Some i"
  by (auto simp: least_opt_def intro!: Least_equality)

lemma least_opt_SomeD: "least_opt A = Some i \<Longrightarrow> i \<in> A \<and> (\<forall>j \<in> A. i \<le> j)"
  by (auto simp: least_opt_def split: if_splits intro: LeastI Least_le)

lemma least_opt_NoneD: "least_opt A = None \<Longrightarrow> A = {}"
  by (simp add: least_opt_def split: if_splits)

lemma min_least_opt: "minKeywordIndex (least_opt A) (least_opt B) = least_opt (A \<union> B)"
proof (cases "least_opt A"; cases "least_opt B")
  fix a b
  assume ab: "least_opt A = Some a" "least_opt B = Some b"
  note d = least_opt_SomeD [OF ab(1)] least_opt_SomeD [OF ab(2)]
  have "least_opt (A \<union> B) = Some (if a < b then a else b)" using d by (intro least_opt_SomeI) force+
  then show ?thesis using ab by simp
qed (auto dest: least_opt_NoneD)

lemma least_opt_insert:
  "least_opt (insert k A) = (if case least_opt A of None \<Rightarrow> True | Some current \<Rightarrow> k < current then Some k else least_opt A)"
proof -
  have "least_opt (insert k A) = minKeywordIndex (least_opt {k}) (least_opt A)" by (simp add: min_least_opt)
  moreover have "least_opt {k} = Some k" by (rule least_opt_SomeI) simp_all
  ultimately show ?thesis by (cases "least_opt A") simp_all
qed

subsection \<open>The trie and its words\<close>

fun linked :: "kw_build_edge list \<Rightarrow> nat option \<Rightarrow> nat list \<Rightarrow> bool" where
  "linked edges f [] \<longleftrightarrow> f = None"
| "linked edges f (x # xs) \<longleftrightarrow> f = Some x \<and> x < length edges \<and> linked edges (be_nextSibling (edges ! x)) xs"

lemma linked_bounds: "linked edges f xs \<Longrightarrow> set xs \<subseteq> {..<length edges}"
  by (induction xs arbitrary: f) auto

lemma linked_siblings_from: "linked edges f xs \<Longrightarrow> length xs \<le> fuel \<Longrightarrow> siblings_from fuel edges f = xs"
proof (induction xs arbitrary: f fuel)
  case (Cons x xs)
  then show ?case by (cases fuel) auto
qed simp

lemma linked_siblings:
  assumes "linked edges (contentModerationKeywordBuildFirstEdge node) xs" and "distinct xs"
  shows "siblings edges node = xs"
proof -
  have "length xs \<le> length edges"
    using card_mono [OF _ linked_bounds [OF assms(1)]] assms(2) by (simp add: distinct_card)
  then show ?thesis using linked_siblings_from [OF assms(1)] by (simp add: siblings_def)
qed

lemma linked_append: "linked edges f xs \<Longrightarrow> linked (edges @ es) f xs"
  by (induction xs arbitrary: f) (auto simp: nth_append)

text \<open>
  \<open>ws\<close> lists the word of every node, from the root to it; \<open>xs s\<close> are the indices of the edges of node \<open>s\<close>.
\<close>

definition out_edges :: "nat list list \<Rightarrow> kw_build_edge list \<Rightarrow> nat \<Rightarrow> nat list \<Rightarrow> bool" where
  "out_edges ws edges s xs \<longleftrightarrow> distinct xs \<and> distinct (map (\<lambda>i. be_label (edges ! i)) xs) \<and>
     (\<forall>c t. (\<exists>i \<in> set xs. be_label (edges ! i) = c \<and> be_target (edges ! i) = t) \<longleftrightarrow>
        t < length ws \<and> ws ! t = ws ! s @ [c])"

definition trie :: "nat list list \<Rightarrow> kw_node list \<Rightarrow> kw_build_edge list \<Rightarrow> bool" where
  "trie ws nodes edges \<longleftrightarrow> length ws = length nodes \<and> ws \<noteq> [] \<and> ws ! 0 = [] \<and> distinct ws \<and>
     prefix_closed (set ws) \<and>
     (\<forall>s < length nodes. \<exists>xs. linked edges (contentModerationKeywordBuildFirstEdge (nodes ! s)) xs \<and> out_edges ws edges s xs)"

lemma trie_out:
  assumes "trie ws nodes edges" and "s < length nodes"
  shows "out_edges ws edges s (siblings edges (nodes ! s))"
    and "linked edges (contentModerationKeywordBuildFirstEdge (nodes ! s)) (siblings edges (nodes ! s))"
proof -
  obtain xs where xs: "linked edges (contentModerationKeywordBuildFirstEdge (nodes ! s)) xs" "out_edges ws edges s xs"
    using assms by (auto simp: trie_def)
  then have "siblings edges (nodes ! s) = xs" by (intro linked_siblings) (auto simp: out_edges_def)
  then show "out_edges ws edges s (siblings edges (nodes ! s))"
    "linked edges (contentModerationKeywordBuildFirstEdge (nodes ! s)) (siblings edges (nodes ! s))" using xs by auto
qed

lemma trie_words:
  assumes "trie ws nodes edges"
  shows "[] \<in> set ws" "0 < length nodes" "\<And>w c. w @ [c] \<in> set ws \<Longrightarrow> w \<in> set ws"
    "\<And>s t. s < length nodes \<Longrightarrow> t < length nodes \<Longrightarrow> ws ! s = ws ! t \<Longrightarrow> s = t"
proof -
  show "[] \<in> set ws" using assms nth_mem [of 0 ws] by (cases ws) (simp_all add: trie_def)
  show "0 < length nodes" using assms by (auto simp: trie_def)
qed (use assms in \<open>auto simp: trie_def prefix_closed_def nth_eq_iff_index_eq\<close>)

lemma transition_iff:
  assumes t: "trie ws nodes edges" and s: "s < length nodes"
  shows "contentModerationKeywordBuildTransition nodes edges s c = Some t \<longleftrightarrow> t < length nodes \<and> ws ! t = ws ! s @ [c]"
proof -
  let ?xs = "siblings edges (nodes ! s)"
  note out = trie_out(1) [OF t s, unfolded out_edges_def]
  have len: "length ws = length nodes" using t by (simp add: trie_def)
  show ?thesis
  proof
    assume "contentModerationKeywordBuildTransition nodes edges s c = Some t"
    then obtain i where "find (\<lambda>i. be_label (edges ! i) = c) ?xs = Some i" "t = be_target (edges ! i)"
      using s by (auto simp: contentModerationKeywordBuildTransition_def)
    then show "t < length nodes \<and> ws ! t = ws ! s @ [c]" using out len find_SomeD by fastforce
  next
    assume "t < length nodes \<and> ws ! t = ws ! s @ [c]"
    then obtain i where i: "i \<in> set ?xs" "be_label (edges ! i) = c" "be_target (edges ! i) = t" using out len by auto
    then obtain j where j: "find (\<lambda>i. be_label (edges ! i) = c) ?xs = Some j"
      by (cases "find (\<lambda>i. be_label (edges ! i) = c) ?xs") (auto simp: find_None_iff)
    then have "be_label (edges ! j) = be_label (edges ! i)" "j \<in> set ?xs" using i find_SomeD [OF j] by auto
    then have "j = i" using out i(1) by (auto simp: distinct_map inj_on_def)
    then show "contentModerationKeywordBuildTransition nodes edges s c = Some t"
      using j i s by (simp add: contentModerationKeywordBuildTransition_def)
  qed
qed

lemma root_word:
  assumes "trie ws nodes edges" and "s < length nodes"
  shows "ws ! s = [] \<longleftrightarrow> s = 0"
  using trie_words(4) [OF assms(1,2) trie_words(2) [OF assms(1)]] assms(1) by (auto simp: trie_def)

lemma trie_shape:
  "trie ws nodes edges \<Longrightarrow> map kn_edgeStart nodes' = map kn_edgeStart nodes \<Longrightarrow> trie ws nodes' edges"
  unfolding trie_def contentModerationKeywordBuildFirstEdge_def
  by (metis length_map nth_map)

text \<open>A new node below node \<open>s\<close>.\<close>

lemma trie_extend:
  assumes t: "trie ws nodes edges" and s: "s < length nodes" and new: "ws ! s @ [c] \<notin> set ws"
    and edges': "edges' = edges @ [\<lparr>be_target = length nodes,
        be_nextSibling = contentModerationKeywordBuildFirstEdge (nodes ! s), be_label = c\<rparr>]"
    and nodes': "nodes' = (nodes @ [newContentModerationKeywordNode])[s := (nodes ! s)\<lparr>kn_edgeStart := length edges'\<rparr>]"
  shows "trie (ws @ [ws ! s @ [c]]) nodes' edges'"
proof -
  let ?ws = "ws @ [ws ! s @ [c]]" and ?n = "length nodes"
  have len: "length ws = ?n" and ws0: "ws ! 0 = []" "ws \<noteq> []" "distinct ws" using t by (auto simp: trie_def)
  have at: "?ws ! r = ws ! r" if "r < ?n" for r using that len by (simp add: nth_append)
  have atn: "?ws ! ?n = ws ! s @ [c]" using len by (simp add: nth_append)
  have pre: "w \<in> set ?ws" if "w @ [d] \<in> set ?ws" for w d
    using that trie_words(3) [OF t, of w d] s len by auto
  have child: "r < length ?ws \<and> ?ws ! r = ?ws ! q @ [d] \<longleftrightarrow>
      r < ?n \<and> ws ! r = ws ! q @ [d] \<or> r = ?n \<and> q = s \<and> d = c" if "q < ?n" for r q d
  proof -
    have "ws ! s = ws ! q \<longleftrightarrow> q = s" using trie_words(4) [OF t, of q s] that s by auto
    then show ?thesis using at [OF that] at atn len by (auto simp: less_Suc_eq)
  qed
  have leaf: "\<not> (r < length ?ws \<and> ?ws ! r = ?ws ! ?n @ [d])" for r d
  proof
    assume r: "r < length ?ws \<and> ?ws ! r = ?ws ! ?n @ [d]"
    then have "r \<noteq> ?n" by auto
    then have "ws ! s @ [c] @ [d] \<in> set ws" using r len at atn by (auto simp: less_Suc_eq) (metis nth_mem)
    then show False using trie_words(3) [OF t, of "ws ! s @ [c]" d] new by simp
  qed
  have "\<exists>xs. linked edges' (contentModerationKeywordBuildFirstEdge (nodes' ! q)) xs \<and> out_edges ?ws edges' q xs"
    if q: "q < length nodes'" for q
  proof (cases "q = ?n")
    case True
    then have "nodes' ! q = newContentModerationKeywordNode" using s nodes' by simp
    then have "linked edges' (contentModerationKeywordBuildFirstEdge (nodes' ! q)) []"
      by (simp add: newContentModerationKeywordNode_def contentModerationKeywordBuildFirstEdge_def)
    moreover have "out_edges ?ws edges' q []" using leaf True by (simp add: out_edges_def)
    ultimately show ?thesis by blast
  next
    case False
    then have q: "q < ?n" using q nodes' by simp
    let ?xs = "siblings edges (nodes ! q)"
    have lk: "linked edges (contentModerationKeywordBuildFirstEdge (nodes ! q)) ?xs" and out: "out_edges ws edges q ?xs"
      using trie_out [OF t q] by auto
    have old: "i \<in> set ?xs \<Longrightarrow> edges' ! i = edges ! i" for i using linked_bounds [OF lk] edges' by (auto simp: nth_append)
    show ?thesis
    proof (cases "q = s")
      case False
      then have "nodes' ! q = nodes ! q" using q nodes' by (simp add: nth_append)
      moreover have "out_edges ?ws edges' q ?xs"
        using out old child [OF q] False len unfolding out_edges_def by (simp add: map_cong [OF refl old] cong: map_cong)
      ultimately show ?thesis using linked_append [OF lk] edges' by auto
    next
      case True
      have first: "contentModerationKeywordBuildFirstEdge (nodes' ! q) = Some (length edges)"
        using s True nodes' edges' by (simp add: contentModerationKeywordBuildFirstEdge_def)
      have e: "edges' ! length edges = \<lparr>be_target = ?n, be_nextSibling = contentModerationKeywordBuildFirstEdge (nodes ! s), be_label = c\<rparr>"
        using edges' by simp
      have "linked edges' (contentModerationKeywordBuildFirstEdge (nodes' ! q)) (length edges # ?xs)"
        using first e linked_append [OF lk] True edges' by simp
      moreover have "out_edges ?ws edges' q (length edges # ?xs)"
      proof -
        have lab: "be_label (edges ! i) \<noteq> c" if "i \<in> set ?xs" for i
        proof
          assume "be_label (edges ! i) = c"
          then have "be_target (edges ! i) < length ws \<and> ws ! be_target (edges ! i) = ws ! s @ [c]"
            using that out True unfolding out_edges_def by blast
          then show False using new nth_mem by metis
        qed
        have maps: "map (\<lambda>i. be_label (edges' ! i)) (length edges # ?xs) = c # map (\<lambda>i. be_label (edges ! i)) ?xs"
          using e old by simp
        have iff: "(\<exists>i \<in> set (length edges # ?xs). be_label (edges' ! i) = d \<and> be_target (edges' ! i) = r) \<longleftrightarrow>
            r < length ?ws \<and> ?ws ! r = ?ws ! q @ [d]" for d r
        proof -
          have "(\<exists>i \<in> set (length edges # ?xs). be_label (edges' ! i) = d \<and> be_target (edges' ! i) = r) \<longleftrightarrow>
              d = c \<and> r = ?n \<or> (\<exists>i \<in> set ?xs. be_label (edges ! i) = d \<and> be_target (edges ! i) = r)"
            using e old by auto
          also have "\<dots> \<longleftrightarrow> d = c \<and> r = ?n \<or> r < ?n \<and> ws ! r = ws ! q @ [d]"
            using out len by (simp add: out_edges_def)
          finally show ?thesis unfolding child [OF q] using True by auto
        qed
        show ?thesis unfolding out_edges_def
        proof (intro conjI allI)
          show "distinct (length edges # ?xs)" using out linked_bounds [OF lk] by (auto simp: out_edges_def)
          show "distinct (map (\<lambda>i. be_label (edges' ! i)) (length edges # ?xs))"
            unfolding maps using out lab by (auto simp: out_edges_def)
        qed (rule iff)
      qed
      ultimately show ?thesis by blast
    qed
  qed
  moreover have "length ?ws = length nodes'" "?ws ! 0 = []" "distinct ?ws" using len nodes' ws0 new by (auto simp: nth_append)
  ultimately show ?thesis using pre unfolding trie_def prefix_closed_def by blast
qed

text \<open>
  The keywords \<open>K\<close>, as pairs of index and word, that were inserted so far: every node knows the least
  index of a keyword that ends there.
\<close>

definition stored :: "(nat \<times> nat list) set \<Rightarrow> nat list list \<Rightarrow> kw_node list \<Rightarrow> bool" where
  "stored K ws nodes \<longleftrightarrow> snd ` K \<subseteq> set ws \<and> (\<forall>w \<in> set ws. set w \<subseteq> {..<256}) \<and>
     (\<forall>s < length nodes. kn_failure (nodes ! s) = 0 \<and> kn_bestKeyword (nodes ! s) = least_opt {i. (i, ws ! s) \<in> K})"

lemma insert_byte_ok:
  assumes t: "trie ws nodes edges" "stored K ws nodes" and s: "s < length nodes" and c: "c < 256"
  shows "case insert_byte (nodes, edges, s) c of (nodes', edges', s') \<Rightarrow>
    \<exists>ws'. trie ws' nodes' edges' \<and> stored K ws' nodes' \<and> s' < length nodes' \<and> ws' ! s' = ws ! s @ [c]"
proof (cases "contentModerationKeywordBuildTransition nodes edges s c")
  case (Some r)
  then show ?thesis using transition_iff [OF t(1) s, of c r] t by (auto simp: insert_byte_def)
next
  case None
  have len: "length ws = length nodes" using t(1) by (simp add: trie_def)
  have new: "ws ! s @ [c] \<notin> set ws"
    using None transition_iff [OF t(1) s, of c] len by (auto simp: in_set_conv_nth)
  let ?edges = "edges @ [\<lparr>be_target = length nodes, be_nextSibling = contentModerationKeywordBuildFirstEdge (nodes ! s), be_label = c\<rparr>]"
  let ?nodes = "(nodes @ [newContentModerationKeywordNode])[s := (nodes ! s)\<lparr>kn_edgeStart := length ?edges\<rparr>]"
  let ?ws = "ws @ [ws ! s @ [c]]"
  have ins: "insert_byte (nodes, edges, s) c = (?nodes, ?edges, length nodes)"
    using None s by (simp add: insert_byte_def Let_def nth_append)
  have "trie ?ws ?nodes ?edges" using trie_extend [OF t(1) s new refl refl] .
  moreover have "stored K ?ws ?nodes"
  proof -
    have "{i. (i, ws ! s @ [c]) \<in> K} = {}" using new t(2) by (force simp: stored_def)
    moreover have "set (ws ! s) \<subseteq> {..<256}" using t(2) s len by (auto simp: stored_def)
    ultimately show ?thesis using t(2) s len c
      by (auto simp: stored_def nth_append nth_list_update less_Suc_eq newContentModerationKeywordNode_def)
  qed
  moreover have "?ws ! length nodes = ws ! s @ [c]" using len by (simp add: nth_append)
  ultimately show ?thesis using ins by auto
qed

lemma insert_bytes_ok:
  assumes "trie ws nodes edges" "stored K ws nodes" "s < length nodes" "set word \<subseteq> {..<256}"
  shows "case foldl insert_byte (nodes, edges, s) word of (nodes', edges', s') \<Rightarrow>
    \<exists>ws'. trie ws' nodes' edges' \<and> stored K ws' nodes' \<and> s' < length nodes' \<and> ws' ! s' = ws ! s @ word"
  using assms
proof (induction word arbitrary: ws nodes edges s)
  case (Cons c word)
  obtain nodes1 edges1 s1 where i: "insert_byte (nodes, edges, s) c = (nodes1, edges1, s1)" by (rule prod_cases3)
  then obtain ws1 where 1: "trie ws1 nodes1 edges1" "stored K ws1 nodes1" "s1 < length nodes1" "ws1 ! s1 = ws ! s @ [c]"
    using insert_byte_ok [OF Cons.prems(1-3), of c] Cons.prems(4) by auto
  show ?case using Cons.IH [OF 1(1-3)] Cons.prems(4) i 1(4) by simp
qed auto

lemma insert_keyword_ok:
  assumes t: "trie ws nodes edges" "stored K ws nodes" "set word \<subseteq> {..<256}"
  shows "case insert_keyword k word (nodes, edges) of (nodes', edges') \<Rightarrow>
    \<exists>ws'. trie ws' nodes' edges' \<and> stored (insert (k, word) K) ws' nodes'"
proof -
  have ws0: "ws ! 0 = []" "0 < length nodes" using t(1) trie_words(2) by (auto simp: trie_def)
  obtain nodes1 edges1 s1 where i: "foldl insert_byte (nodes, edges, 0) word = (nodes1, edges1, s1)" by (rule prod_cases3)
  then obtain ws1 where 1: "trie ws1 nodes1 edges1" "stored K ws1 nodes1" "s1 < length nodes1" "ws1 ! s1 = word"
    using insert_bytes_ok [OF t(1,2) ws0(2) t(3)] ws0(1) by auto
  define nodes2 where "nodes2 = (if (case kn_bestKeyword (nodes1 ! s1) of None \<Rightarrow> True | Some current \<Rightarrow> k < current)
      then nodes1[s1 := (nodes1 ! s1)\<lparr>kn_bestKeyword := Some k\<rparr>] else nodes1)"
  have ins: "insert_keyword k word (nodes, edges) = (nodes2, edges1)"
    by (simp add: insert_keyword_def i nodes2_def)
  have len: "length ws1 = length nodes1" using 1(1) by (simp add: trie_def)
  have "map kn_edgeStart nodes2 = map kn_edgeStart nodes1"
    using 1(3) by (auto simp: nodes2_def map_update list_update_same_conv)
  then have "trie ws1 nodes2 edges1" by (rule trie_shape [OF 1(1)])
  moreover have "stored (insert (k, word) K) ws1 nodes2"
  proof -
    have best1: "kn_bestKeyword (nodes1 ! s1) = least_opt {i. (i, word) \<in> K}" using 1 by (auto simp: stored_def)
    have own: "{i. (i, word) \<in> insert (k, word) K} = insert k {i. (i, word) \<in> K}" by auto
    have best: "kn_bestKeyword (nodes2 ! s1) = least_opt {i. (i, word) \<in> insert (k, word) K}"
      unfolding own using 1(3) best1 by (simp add: nodes2_def least_opt_insert)
    have other: "{i. (i, ws1 ! r) \<in> insert (k, word) K} = {i. (i, ws1 ! r) \<in> K}" if "r < length nodes1" "r \<noteq> s1" for r
      using trie_words(4) [OF 1(1), of r s1] that 1(3,4) by auto
    have keep: "nodes2 ! r = nodes1 ! r" if "r \<noteq> s1" for r using that by (simp add: nodes2_def)
    have fail: "kn_failure (nodes2 ! s1) = 0" using 1(2,3) by (simp add: nodes2_def stored_def)
    have len2: "length nodes2 = length nodes1" by (simp add: nodes2_def)
    have word: "word \<in> set ws1" using 1(3,4) len nth_mem by metis
    show ?thesis unfolding stored_def
    proof (intro conjI allI impI)
      show "snd ` insert (k, word) K \<subseteq> set ws1" "\<forall>w \<in> set ws1. set w \<subseteq> {..<256}"
        using 1(2) word by (auto simp: stored_def)
      fix r assume r: "r < length nodes2"
      show "kn_failure (nodes2 ! r) = 0" using 1(2) r len2 keep fail by (cases "r = s1") (auto simp: stored_def)
      show "kn_bestKeyword (nodes2 ! r) = least_opt {i. (i, ws1 ! r) \<in> insert (k, word) K}"
      proof (cases "r = s1")
        case False
        then have "kn_bestKeyword (nodes2 ! r) = least_opt {i. (i, ws1 ! r) \<in> K}"
          using 1(2) r len2 keep by (simp add: stored_def)
        then show ?thesis using other [of r] False r len2 by simp
      qed (use best 1(4) in simp)
    qed
  qed
  ultimately show ?thesis using ins by auto
qed

definition kw_set :: "(string \<Rightarrow> string) \<Rightarrow> nat \<Rightarrow> string list \<Rightarrow> (nat \<times> nat list) set" where
  "kw_set lower k keywords = {(k + i, bytes (lower (keywords ! i))) | i. i < length keywords \<and> keywords ! i \<noteq> []}"

lemma kw_set_Cons:
  "kw_set lower k (x # xs) = (if x = [] then {} else {(k, bytes (lower x))}) \<union> kw_set lower (Suc k) xs"
proof -
  have ex: "(\<exists>i. P i) \<longleftrightarrow> P 0 \<or> (\<exists>i. P (Suc i))" for P by (metis nat.exhaust)
  show ?thesis unfolding kw_set_def by (subst ex) auto
qed

lemma bytes_range: "set (bytes s) \<subseteq> {..<256}"
  by (auto simp: bytes_def)

lemma insert_keywords_ok:
  assumes "trie ws nodes edges" "stored K ws nodes"
  shows "case insert_keywords lower k kws (nodes, edges) of (nodes', edges') \<Rightarrow>
    \<exists>ws'. trie ws' nodes' edges' \<and> stored (K \<union> kw_set lower k kws) ws' nodes'"
  using assms
proof (induction kws arbitrary: k ws nodes edges K)
  case Nil
  then show ?case by (auto simp: kw_set_def)
next
  case (Cons x xs)
  show ?case
  proof (cases "x = []")
    case True
    then show ?thesis using Cons by (simp add: kw_set_Cons)
  next
    case False
    obtain nodes1 edges1 where i: "insert_keyword k (bytes (lower x)) (nodes, edges) = (nodes1, edges1)" by (rule prod.exhaust)
    then obtain ws1 where "trie ws1 nodes1 edges1" "stored (insert (k, bytes (lower x)) K) ws1 nodes1"
      using insert_keyword_ok [OF Cons.prems bytes_range, of k "lower x"] by auto
    from Cons.IH [OF this, of "Suc k"] show ?thesis using False i by (simp add: kw_set_Cons)
  qed
qed

subsection \<open>Failure links and best keywords\<close>

text \<open>
  A node is final when its failure link leads to the longest proper suffix of its word that is a word of
  the trie, and its best keyword is the least index of a keyword that ends its word.
\<close>

definition final_node :: "(nat \<times> nat list) set \<Rightarrow> nat list list \<Rightarrow> kw_node list \<Rightarrow> nat \<Rightarrow> bool" where
  "final_node K ws nodes s \<longleftrightarrow> kn_failure (nodes ! s) < length nodes \<and>
     ws ! kn_failure (nodes ! s) = lsuf (set ws) (tl (ws ! s)) \<and>
     kn_bestKeyword (nodes ! s) = least_opt {i. \<exists>w. (i, w) \<in> K \<and> suffix w (ws ! s)}"

definition fresh_node :: "(nat \<times> nat list) set \<Rightarrow> nat list list \<Rightarrow> kw_node list \<Rightarrow> nat \<Rightarrow> bool" where
  "fresh_node K ws nodes s \<longleftrightarrow> kn_failure (nodes ! s) = 0 \<and> kn_bestKeyword (nodes ! s) = least_opt {i. (i, ws ! s) \<in> K}"

text \<open>The nodes of \<open>F\<close> are final, the others untouched.\<close>

definition partial ::
  "(nat \<times> nat list) set \<Rightarrow> nat list list \<Rightarrow> kw_build_edge list \<Rightarrow> nat set \<Rightarrow> kw_node list \<Rightarrow> bool" where
  "partial K ws edges F nodes \<longleftrightarrow> trie ws nodes edges \<and> snd ` K \<subseteq> set ws \<and>
     (\<forall>s < length nodes. if s \<in> F then final_node K ws nodes s else fresh_node K ws nodes s)"

lemma failure_shorter:
  assumes "trie ws nodes edges" "final_node K ws nodes s" "s < length nodes" "s \<noteq> 0"
  shows "length (ws ! kn_failure (nodes ! s)) < length (ws ! s)"
proof -
  have "ws ! s \<noteq> []" using root_word [OF assms(1,3)] assms(4) by simp
  then show ?thesis using assms(2) lsuf_length [of "set ws" "tl (ws ! s)"] by (cases "ws ! s") (auto simp: final_node_def)
qed

text \<open>Following failure links from a node finds the longest suffix of its word and one more letter.\<close>

lemma find_fallback_ok:
  assumes t: "trie ws nodes edges" and f: "f < length nodes" and fuel: "length (ws ! f) \<le> fuel"
    and fin: "\<And>u. u < length nodes \<Longrightarrow> length (ws ! u) \<le> length (ws ! f) \<Longrightarrow> final_node K ws nodes u"
  shows "case find_fallback fuel nodes edges f c of
      Some r \<Rightarrow> r < length nodes \<and> ws ! r = lsuf (set ws) (ws ! f @ [c])
    | None \<Rightarrow> lsuf (set ws) (ws ! f @ [c]) = []"
  using f fuel fin
proof (induction fuel arbitrary: f)
  case (0 f)
  have "f = 0" using 0 root_word [OF t, of f] by simp
  show ?case
  proof (cases "contentModerationKeywordBuildTransition nodes edges f c")
    case None
    then have "ws ! f @ [c] \<notin> set ws" using transition_iff [OF t 0(1), of c] t by (auto simp: in_set_conv_nth trie_def)
    then show ?thesis using None \<open>f = 0\<close> t by (simp add: trie_def)
  next
    case (Some r)
    then have "r < length nodes" "ws ! r = ws ! f @ [c]" using transition_iff [OF t 0(1), of c r] by auto
    then show ?thesis using Some lsuf_word [of "ws ! f @ [c]" "set ws"] t nth_mem [of r ws] by (simp add: trie_def)
  qed
next
  case (Suc fuel f)
  show ?case
  proof (cases "contentModerationKeywordBuildTransition nodes edges f c")
    case (Some r)
    then have "r < length nodes" "ws ! r = ws ! f @ [c]" using transition_iff [OF t Suc.prems(1), of c r] by auto
    then show ?thesis using Some lsuf_word [of "ws ! f @ [c]" "set ws"] t nth_mem [of r ws] by (simp add: trie_def)
  next
    case None
    then have new: "ws ! f @ [c] \<notin> set ws" using transition_iff [OF t Suc.prems(1), of c] t by (auto simp: in_set_conv_nth trie_def)
    show ?thesis
    proof (cases "f = 0")
      case True
      then show ?thesis using None new t by (simp add: trie_def)
    next
      case False
      let ?g = "kn_failure (nodes ! f)"
      have finf: "final_node K ws nodes f" using Suc.prems by simp
      have g: "?g < length nodes" "ws ! ?g = lsuf (set ws) (tl (ws ! f))" using finf by (auto simp: final_node_def)
      have "ws ! f \<noteq> []" using root_word [OF t Suc.prems(1)] False by simp
      from fall_back [OF _ this new]
      have eq: "lsuf (set ws) (ws ! f @ [c]) = lsuf (set ws) (ws ! ?g @ [c])" and short: "length (ws ! ?g) < length (ws ! f)"
        using t unfolding g(2) by (auto simp: trie_def)
      have "case find_fallback fuel nodes edges ?g c of
          Some r \<Rightarrow> r < length nodes \<and> ws ! r = lsuf (set ws) (ws ! ?g @ [c]) | None \<Rightarrow> lsuf (set ws) (ws ! ?g @ [c]) = []"
        using Suc.prems short by (intro Suc.IH g(1)) auto
      then show ?thesis unfolding eq using None False by simp
    qed
  qed
qed

declare find_fallback.simps [simp del]

text \<open>The keywords that end a word: the word itself, and those that end the word of its failure link.\<close>

lemma keywords_by_failure:
  assumes "snd ` K \<subseteq> set ws" and "u \<noteq> []" and "[] \<in> set ws"
  shows "{i. \<exists>w. (i, w) \<in> K \<and> suffix w u} =
    {i. (i, u) \<in> K} \<union> {i. \<exists>w. (i, w) \<in> K \<and> suffix w (lsuf (set ws) (tl u))}"
proof -
  have "suffix w u \<longleftrightarrow> w = u \<or> suffix w (tl u)" for w using assms(2) by (cases u) (auto simp: suffix_Cons)
  moreover have "(i, w) \<in> K \<Longrightarrow> suffix w (lsuf (set ws) (tl u)) \<longleftrightarrow> suffix w (tl u)" for i w
    using assms(1) by (intro suffix_lsuf_iff) auto
  ultimately show ?thesis by auto
qed

lemma depth_bound:
  assumes t: "trie ws nodes edges" and s: "s < length nodes"
  shows "length (ws ! s) < length nodes"
  using prefix_closed_length [of "set ws" "ws ! s"] t s card_length [of ws] by (simp add: trie_def)

lemma partial_update:
  assumes part: "partial K ws edges F nodes" and r: "r < length nodes"
    and node: "kn_edgeStart node = kn_edgeStart (nodes ! r)" "final_node K ws (nodes[r := node]) r"
  shows "partial K ws edges (insert r F) (nodes[r := node])"
proof -
  have "map kn_edgeStart (nodes[r := node]) = map kn_edgeStart nodes"
    using node(1) r by (simp add: map_update list_update_same_conv)
  then have "trie ws (nodes[r := node]) edges" using part trie_shape by (auto simp: partial_def)
  moreover have "(if q \<in> insert r F then final_node K ws (nodes[r := node]) q else fresh_node K ws (nodes[r := node]) q)"
    if "q < length nodes" for q
    using part that node(2) by (cases "q = r") (auto simp: partial_def final_node_def fresh_node_def)
  ultimately show ?thesis using part by (simp add: partial_def)
qed

lemma link_edge_ok:
  assumes part: "partial K ws edges F nodes" and s: "s < length nodes" "s \<noteq> 0"
    and deep: "\<And>u. u < length nodes \<Longrightarrow> length (ws ! u) \<le> length (ws ! s) \<Longrightarrow> u \<in> F"
    and r: "be_target edge < length nodes" "ws ! be_target edge = ws ! s @ [be_label edge]" "be_target edge \<notin> F"
  shows "partial K ws edges (insert (be_target edge) F) (link_edge edges s nodes edge)
    \<and> length (link_edge edges s nodes edge) = length nodes
    \<and> map kn_edgeStart (link_edge edges s nodes edge) = map kn_edgeStart nodes"
proof -
  let ?t = "be_target edge" and ?c = "be_label edge" and ?f = "kn_failure (nodes ! s)"
  have t: "trie ws nodes edges" and K: "snd ` K \<subseteq> set ws" using part by (auto simp: partial_def)
  have fins: "final_node K ws nodes u" if "u < length nodes" "length (ws ! u) \<le> length (ws ! s)" for u
    using part deep [OF that] that(1) by (auto simp: partial_def)
  have f: "?f < length nodes" "ws ! ?f = lsuf (set ws) (tl (ws ! s))" using fins [OF s(1)] by (auto simp: final_node_def)
  have short: "length (ws ! ?f) < length (ws ! s)" using failure_shorter [OF t fins [OF s(1)] s] by simp
  have "ws ! s \<noteq> []" using short by auto
  then have tl: "tl (ws ! ?t) = tl (ws ! s) @ [?c]" "ws ! ?t \<noteq> []" using r(2) by simp_all
  have ls: "lsuf (set ws) (tl (ws ! ?t)) = lsuf (set ws) (ws ! ?f @ [?c])"
    unfolding tl(1) f(2) by (rule lsuf_snoc) (use t in \<open>simp add: trie_def\<close>)
  have fb: "case find_fallback (length nodes) nodes edges ?f ?c of
      Some q \<Rightarrow> q < length nodes \<and> ws ! q = lsuf (set ws) (ws ! ?f @ [?c]) | None \<Rightarrow> lsuf (set ws) (ws ! ?f @ [?c]) = []"
    using depth_bound [OF t f(1)] short by (intro find_fallback_ok [OF t f(1), where K = K] fins) simp_all
  have fresh: "fresh_node K ws nodes ?t" using part r by (auto simp: partial_def)
  define g where "g = (case find_fallback (length nodes) nodes edges ?f ?c of Some q \<Rightarrow> q | None \<Rightarrow> 0)"
  have g: "g < length nodes" "ws ! g = lsuf (set ws) (tl (ws ! ?t))"
    using fb trie_words(2) [OF t] t unfolding ls by (auto simp: g_def trie_def split: option.splits)
  have "length (ws ! g) \<le> length (ws ! ?f @ [?c])" unfolding g(2) ls by (rule lsuf_length)
  then have gs: "length (ws ! g) \<le> length (ws ! s)" using short by simp
  then have gt: "g \<noteq> ?t" using r(2) by auto
  let ?node = "(nodes ! ?t)\<lparr>kn_failure := g, kn_bestKeyword :=
      minKeywordIndex (kn_bestKeyword (nodes ! ?t)) (kn_bestKeyword (nodes ! g))\<rparr>"
  have "(nodes ! ?t)\<lparr>kn_failure := 0\<rparr> = nodes ! ?t" using fresh by (simp add: fresh_node_def)
  then have same: "nodes[?t := (nodes ! ?t)\<lparr>kn_failure := 0\<rparr>] = nodes" by simp
  have "(case find_fallback (length nodes) nodes edges ?f ?c of
      Some q \<Rightarrow> nodes[?t := (nodes ! ?t)\<lparr>kn_failure := q\<rparr>] | None \<Rightarrow> nodes) = nodes[?t := (nodes ! ?t)\<lparr>kn_failure := g\<rparr>]"
    using same by (simp add: g_def split: option.split)
  then have link: "link_edge edges s nodes edge = nodes[?t := ?node]"
    using r(1) gt by (simp add: link_edge_def Let_def)
  have best: "kn_bestKeyword ?node = least_opt {i. \<exists>w. (i, w) \<in> K \<and> suffix w (ws ! ?t)}"
    using fresh fins [OF g(1) gs]
    by (simp add: fresh_node_def final_node_def min_least_opt g(2) keywords_by_failure [OF K tl(2) trie_words(1) [OF t]])
  have "final_node K ws (nodes[?t := ?node]) ?t" using g r(1) best by (simp add: final_node_def)
  then have "partial K ws edges (insert ?t F) (nodes[?t := ?node])" by (intro partial_update [OF part r(1)]) simp_all
  moreover have "map kn_edgeStart (nodes[?t := ?node]) = map kn_edgeStart nodes"
    using r(1) by (simp add: map_update list_update_same_conv)
  ultimately show ?thesis unfolding link by simp
qed

lemma link_edges_ok:
  assumes "partial K ws edges F nodes" "s < length nodes" "s \<noteq> 0"
    and "\<And>u. u < length nodes \<Longrightarrow> length (ws ! u) \<le> length (ws ! s) \<Longrightarrow> u \<in> F"
    and "\<And>e. e \<in> set out \<Longrightarrow> be_target e < length nodes \<and> ws ! be_target e = ws ! s @ [be_label e] \<and> be_target e \<notin> F"
    and "distinct (map be_target out)"
  shows "partial K ws edges (F \<union> be_target ` set out) (foldl (link_edge edges s) nodes out)
    \<and> length (foldl (link_edge edges s) nodes out) = length nodes
    \<and> map kn_edgeStart (foldl (link_edge edges s) nodes out) = map kn_edgeStart nodes"
  using assms
proof (induction out arbitrary: F nodes)
  case (Cons e out)
  let ?nodes = "link_edge edges s nodes e"
  have 1: "partial K ws edges (insert (be_target e) F) ?nodes" "length ?nodes = length nodes"
      "map kn_edgeStart ?nodes = map kn_edgeStart nodes"
    using link_edge_ok [OF Cons.prems(1-4), of e] Cons.prems(5) by simp_all
  have "partial K ws edges (insert (be_target e) F \<union> be_target ` set out) (foldl (link_edge edges s) ?nodes out)
    \<and> length (foldl (link_edge edges s) ?nodes out) = length ?nodes
    \<and> map kn_edgeStart (foldl (link_edge edges s) ?nodes out) = map kn_edgeStart ?nodes"
  proof (rule Cons.IH)
    show "be_target e' < length ?nodes \<and> ws ! be_target e' = ws ! s @ [be_label e'] \<and> be_target e' \<notin> insert (be_target e) F"
      if "e' \<in> set out" for e'
    proof -
      have "be_target e' \<noteq> be_target e" using Cons.prems(6) that by (metis distinct.simps(2) image_eqI list.set_map list.simps(9))
      then show ?thesis using Cons.prems(5) [of e'] that 1(2) by simp
    qed
  qed (use Cons.prems 1 in auto)
  then show ?case using 1 by simp
qed simp

text \<open>
  The search goes breadth first: \<open>dn\<close> are the states taken from the queue, \<open>todo\<close> those still in it. A
  state is in the queue once its parent was taken from it, and the queue is sorted by depth.
\<close>

definition bfs_inv ::
  "(nat \<times> nat list) set \<Rightarrow> nat list list \<Rightarrow> kw_build_edge list \<Rightarrow> nat list \<Rightarrow> nat list \<Rightarrow> kw_node list \<Rightarrow> bool" where
  "bfs_inv K ws edges dn todo nodes \<longleftrightarrow>
     partial K ws edges (insert 0 (set (dn @ todo))) nodes \<and> distinct (dn @ todo) \<and> 0 \<notin> set (dn @ todo) \<and>
     set (dn @ todo) \<subseteq> {..<length nodes} \<and> sorted (map (\<lambda>s. length (ws ! s)) (dn @ todo)) \<and>
     (\<forall>s t c. s < length nodes \<and> t < length nodes \<and> ws ! t = ws ! s @ [c] \<longrightarrow>
        (t \<in> set (dn @ todo) \<longleftrightarrow> s = 0 \<or> s \<in> set dn)) \<and>
     (\<forall>x \<in> set todo. length (ws ! x) \<le> Suc (length (ws ! hd todo)))"

lemma bfs_reached:
  assumes b: "bfs_inv K ws edges dn todo nodes" and "u < length nodes"
    and "\<And>x. x \<in> set todo \<Longrightarrow> length (ws ! u) \<le> length (ws ! x)"
  shows "u \<in> insert 0 (set (dn @ todo))"
  using assms(2,3)
proof (induction "length (ws ! u)" arbitrary: u rule: less_induct)
  case less
  have t: "trie ws nodes edges" using b by (simp add: bfs_inv_def partial_def)
  show ?case
  proof (cases "u = 0")
    case False
    then have "ws ! u \<noteq> []" using root_word [OF t less.prems(1)] by simp
    then obtain w c where w: "ws ! u = w @ [c]" by (metis rev_exhaust)
    then have "w \<in> set ws" using trie_words(3) [OF t] less.prems(1) t nth_mem by (metis trie_def)
    then obtain q where q: "q < length nodes" "ws ! q = w" using t by (auto simp: in_set_conv_nth trie_def)
    have "q \<in> insert 0 (set (dn @ todo))" using less.prems(2) w q by (intro less.hyps) fastforce+
    moreover have "q \<notin> set todo" using less.prems(2) [of q] w q(2) by auto
    ultimately have "q = 0 \<or> q \<in> set dn" by auto
    then show ?thesis using b less.prems(1) q w unfolding bfs_inv_def by blast
  qed simp
qed

lemma out_targets:
  assumes t: "trie ws nodes edges" and s: "s < length nodes"
  defines "out \<equiv> map (\<lambda>i. edges ! i) (siblings edges (nodes ! s))"
  shows "e \<in> set out \<Longrightarrow> be_target e < length nodes \<and> ws ! be_target e = ws ! s @ [be_label e]"
    and "r < length nodes \<Longrightarrow> ws ! r = ws ! s @ [c] \<Longrightarrow> \<exists>e \<in> set out. be_target e = r \<and> be_label e = c"
    and "distinct (map be_target out)" "distinct (map be_label out)"
proof -
  have len: "length ws = length nodes" using t by (simp add: trie_def)
  note o = trie_out(1) [OF t s, unfolded out_edges_def]
  show tgt: "e \<in> set out \<Longrightarrow> be_target e < length nodes \<and> ws ! be_target e = ws ! s @ [be_label e]" for e
    using o len by (auto simp: out_def)
  show "r < length nodes \<Longrightarrow> ws ! r = ws ! s @ [c] \<Longrightarrow> \<exists>e \<in> set out. be_target e = r \<and> be_label e = c"
  proof -
    assume "r < length nodes" "ws ! r = ws ! s @ [c]"
    then obtain i where "i \<in> set (siblings edges (nodes ! s))" "be_label (edges ! i) = c" "be_target (edges ! i) = r"
      using o len by auto
    then show ?thesis by (auto simp: out_def)
  qed
  show lab: "distinct (map be_label out)" using o by (simp add: out_def comp_def)
  have "inj_on be_target (set out)"
  proof (rule inj_onI)
    fix e e' assume e: "e \<in> set out" "e' \<in> set out" "be_target e = be_target e'"
    then have "be_label e = be_label e'" using tgt [OF e(1)] tgt [OF e(2)] by simp
    then show "e = e'" using lab e by (auto simp: distinct_map inj_on_def)
  qed
  then show "distinct (map be_target out)" using lab by (simp add: distinct_map)
qed

lemma bfs_step:
  assumes b: "bfs_inv K ws edges dn (s # todo) nodes"
  defines "out \<equiv> map (\<lambda>i. edges ! i) (siblings edges (nodes ! s))"
  shows "bfs_inv K ws edges (dn @ [s]) (todo @ map be_target out) (foldl (link_edge edges s) nodes out)
    \<and> length (foldl (link_edge edges s) nodes out) = length nodes
    \<and> map kn_edgeStart (foldl (link_edge edges s) nodes out) = map kn_edgeStart nodes"
proof -
  let ?Q = "dn @ s # todo" and ?nodes = "foldl (link_edge edges s) nodes out" and ?d = "\<lambda>s. length (ws ! s)"
  have part: "partial K ws edges (insert 0 (set ?Q)) nodes" and dist: "distinct ?Q" and zero: "0 \<notin> set ?Q"
    and sub: "set ?Q \<subseteq> {..<length nodes}" and srt: "sorted (map ?d ?Q)"
    and mem: "\<And>s' t c. s' < length nodes \<Longrightarrow> t < length nodes \<Longrightarrow> ws ! t = ws ! s' @ [c] \<Longrightarrow> t \<in> set ?Q \<longleftrightarrow> s' = 0 \<or> s' \<in> set dn"
    and spread: "\<And>x. x \<in> set todo \<Longrightarrow> ?d x \<le> Suc (?d s)"
    using b unfolding bfs_inv_def by (blast, blast, blast, blast, blast, blast, auto)
  have t: "trie ws nodes edges" using part by (simp add: partial_def)
  have s: "s < length nodes" "s \<noteq> 0" "s \<notin> set dn" using sub zero dist by auto
  note o = out_targets [OF t s(1), folded out_def]
  have fresh: "be_target e \<notin> insert 0 (set ?Q)" if "e \<in> set out" for e
    using o(1) [OF that] mem [OF s(1), of "be_target e" "be_label e"] s root_word [OF t, of "be_target e"] by auto
  have deep: "u \<in> insert 0 (set ?Q)" if "u < length nodes" "?d u \<le> ?d s" for u
    using srt that by (intro bfs_reached [OF b that(1)]) (auto simp: sorted_append)
  have le: "?d x \<le> Suc (?d s)" if "x \<in> set ?Q" for x using that spread srt by (auto simp: sorted_append le_SucI)
  have links: "partial K ws edges (insert 0 (set ?Q) \<union> be_target ` set out) ?nodes" "length ?nodes = length nodes"
      "map kn_edgeStart ?nodes = map kn_edgeStart nodes"
    using link_edges_ok [OF part s(1,2) deep, of out] o(1,3) fresh by blast+
  have "bfs_inv K ws edges (dn @ [s]) (todo @ map be_target out) ?nodes"
    unfolding bfs_inv_def links(2)
  proof (intro conjI allI impI ballI)
    show "partial K ws edges (insert 0 (set ((dn @ [s]) @ todo @ map be_target out))) ?nodes"
      using links(1) by (simp add: Un_assoc insert_commute)
    show "distinct ((dn @ [s]) @ todo @ map be_target out)" using dist o(3) fresh by auto
    show "0 \<notin> set ((dn @ [s]) @ todo @ map be_target out)" using zero fresh by force
    show "set ((dn @ [s]) @ todo @ map be_target out) \<subseteq> {..<length nodes}" using sub o(1) by auto
    show "sorted (map ?d ((dn @ [s]) @ todo @ map be_target out))"
    proof -
      have "sorted (map ?d (map be_target out))" using o(1) by (auto simp: sorted_iff_nth_mono)
      moreover have "?d x \<le> ?d y" if "x \<in> set ?Q" "y \<in> set (map be_target out)" for x y using that le o(1) by auto
      ultimately show ?thesis using srt by (auto simp: sorted_append)
    qed
    show "(r \<in> set ((dn @ [s]) @ todo @ map be_target out)) = (q = 0 \<or> q \<in> set (dn @ [s]))"
      if "q < length nodes \<and> r < length nodes \<and> ws ! r = ws ! q @ [c]" for q r c
    proof (cases "q = s")
      case True
      then show ?thesis using o(2) [of r c] that by force
    next
      case False
      then have "r \<notin> be_target ` set out" using o(1) that trie_words(4) [OF t, of q s] s(1) by auto
      then show ?thesis using mem [of q r c] that False by auto
    qed
    show "?d x \<le> Suc (?d (hd (todo @ map be_target out)))" if "x \<in> set (todo @ map be_target out)" for x
    proof -
      have x: "?d x \<le> Suc (?d s)" using that spread o(1) by auto
      have "?d s \<le> ?d (hd (todo @ map be_target out))"
      proof (cases todo)
        case Nil
        then have "hd (todo @ map be_target out) \<in> be_target ` set out" using that by (cases out) auto
        then show ?thesis using o(1) by auto
      qed (use srt in \<open>simp add: sorted_append\<close>)
      then show ?thesis using x by simp
    qed
  qed
  then show ?thesis using links(2,3) by blast
qed

lemma link_queue_ok:
  assumes "bfs_inv K ws edges dn todo nodes" and "length nodes \<le> fuel + length dn"
  shows "partial K ws edges {..<length nodes} (link_queue fuel edges todo nodes)
    \<and> length (link_queue fuel edges todo nodes) = length nodes
    \<and> map kn_edgeStart (link_queue fuel edges todo nodes) = map kn_edgeStart nodes"
  using assms
proof (induction fuel edges todo nodes arbitrary: dn rule: link_queue.induct)
  case (1 fuel edges nodes)
  have "u \<in> insert 0 (set (dn @ []))" if "u < length nodes" for u using bfs_reached [OF 1(1) that] by simp
  then show ?case using 1(1) by (simp add: bfs_inv_def partial_def)
next
  case (2 edges s queue nodes)
  have Q: "distinct (dn @ s # queue)" "set (dn @ s # queue) \<subseteq> {..<length nodes}" using 2(1) by (auto simp: bfs_inv_def)
  have "length (dn @ s # queue) \<le> length nodes"
    using card_mono [OF _ Q(2)] distinct_card [OF Q(1)] by simp
  then show ?case using 2(2) by simp
next
  case (3 fuel edges s queue nodes)
  note st = bfs_step [OF 3(2)]
  have "length (foldl (link_edge edges s) nodes (map (\<lambda>i. edges ! i) (siblings edges (nodes ! s)))) \<le> fuel + length (dn @ [s])"
    using st 3(3) by simp
  then show ?case using 3(1) [OF refl, of "dn @ [s]"] st by (simp add: Let_def)
qed

subsection \<open>The laid-out edges\<close>

lemma sort_in_props:
  "set (sort_in e es) = insert e (set es)"
  "sorted (rev (map ke_label es)) \<Longrightarrow> sorted (rev (map ke_label (sort_in e es)))"
proof -
  show *: "set (sort_in e es) = insert e (set es)" by (induction es) auto
  show "sorted (rev (map ke_label es)) \<Longrightarrow> sorted (rev (map ke_label (sort_in e es)))"
  proof (induction es)
    case (Cons x es)
    have "set (sort_in e es) = insert e (set es)" by (induction es) auto
    then show ?case using Cons by (auto simp: sorted_append)
  qed simp
qed

lemma sort_outgoing_props:
  "set (sort_outgoing es) = set es" "sorted (map ke_label (sort_outgoing es))" "length (sort_outgoing es) = length es"
proof -
  have len: "length (sort_in e xs) = Suc (length xs)" for e xs by (induction xs) auto
  have "set (foldl (\<lambda>done e. sort_in e done) acc es) = set acc \<union> set es
    \<and> (sorted (rev (map ke_label acc)) \<longrightarrow> sorted (rev (map ke_label (foldl (\<lambda>done e. sort_in e done) acc es))))
    \<and> length (foldl (\<lambda>done e. sort_in e done) acc es) = length acc + length es" for acc
    by (induction es arbitrary: acc) (auto simp: sort_in_props len)
  from this [of "[]"] show "set (sort_outgoing es) = set es" "sorted (map ke_label (sort_outgoing es))"
    "length (sort_outgoing es) = length es"
    by (simp_all add: sort_outgoing_def rev_map)
qed

definition flat :: "kw_build_edge list \<Rightarrow> kw_node \<Rightarrow> kw_edge list" where
  "flat build node = sort_outgoing (map (\<lambda>i. \<lparr>ke_target = be_target (build ! i), ke_label = be_label (build ! i)\<rparr>) (siblings build node))"

lemma layout_ok:
  assumes "layout build edges nodes = (nodes', edges')"
  shows "length nodes' = length nodes \<and> (\<exists>rest. edges' = edges @ rest) \<and>
    (\<forall>s < length nodes. kn_failure (nodes' ! s) = kn_failure (nodes ! s) \<and> kn_bestKeyword (nodes' ! s) = kn_bestKeyword (nodes ! s)
       \<and> take (kn_edgeCount (nodes' ! s)) (drop (kn_edgeStart (nodes' ! s)) edges') = flat build (nodes ! s)
       \<and> kn_edgeCount (nodes' ! s) = length (flat build (nodes ! s)))"
  using assms
proof (induction build edges nodes arbitrary: nodes' edges' rule: layout.induct)
  case (1 build edges)
  then show ?case by simp
next
  case (2 build edges node nodes)
  obtain ns where l: "layout build (edges @ flat build node) nodes = (ns, edges')"
    and n': "nodes' = node\<lparr>kn_edgeStart := length edges, kn_edgeCount := length (flat build node)\<rparr> # ns"
    using 2(2) by (auto simp: flat_def Let_def split: prod.splits)
  note IH = 2(1) [OF refl refl l [unfolded flat_def]]
  obtain rest where "edges' = (edges @ flat build node) @ rest" using IH by (auto simp: flat_def)
  then show ?case using IH n' by (auto simp: nth_Cons split: nat.split)
qed

text \<open>Bisection stops at the first edge whose label is not below the one looked for.\<close>

lemma bisect_ok:
  assumes "left \<le> right" and "\<And>i j. left \<le> i \<Longrightarrow> i \<le> j \<Longrightarrow> j < right \<Longrightarrow> ke_label (edges ! i) \<le> ke_label (edges ! j)"
  shows "left \<le> bisect edges label left right \<and> bisect edges label left right \<le> right
    \<and> (\<forall>i. left \<le> i \<and> i < bisect edges label left right \<longrightarrow> ke_label (edges ! i) < label)
    \<and> (\<forall>i. bisect edges label left right \<le> i \<and> i < right \<longrightarrow> label \<le> ke_label (edges ! i))"
  using assms
proof (induction edges label left right rule: bisect.induct)
  case (1 edges label left right)
  show ?case
  proof (cases "left < right")
    case False
    then show ?thesis using 1(3) by (simp add: bisect.simps)
  next
    case True
    define mid where "mid = left + (right - left) div 2"
    have mid: "left \<le> mid" "mid < right" using True by (auto simp: mid_def)
    show ?thesis
    proof (cases "ke_label (edges ! mid) < label")
      case less: True
      have eq: "bisect edges label left right = bisect edges label (mid + 1) right"
        using True less by (subst bisect.simps) (simp add: mid_def Let_def)
      have IH: "mid + 1 \<le> bisect edges label (mid + 1) right \<and> bisect edges label (mid + 1) right \<le> right
        \<and> (\<forall>i. mid + 1 \<le> i \<and> i < bisect edges label (mid + 1) right \<longrightarrow> ke_label (edges ! i) < label)
        \<and> (\<forall>i. bisect edges label (mid + 1) right \<le> i \<and> i < right \<longrightarrow> label \<le> ke_label (edges ! i))"
        using mid 1(4) by (intro 1(1) [OF True mid_def less]) auto
      have "ke_label (edges ! i) < label" if "left \<le> i" "i \<le> mid" for i using 1(4) [OF that mid(2)] less by simp
      then show ?thesis unfolding eq using IH mid by (auto simp: not_less_eq_eq [symmetric])
    next
      case ge: False
      have eq: "bisect edges label left right = bisect edges label left mid"
        using True ge by (subst bisect.simps) (simp add: mid_def Let_def)
      have IH: "left \<le> bisect edges label left mid \<and> bisect edges label left mid \<le> mid
        \<and> (\<forall>i. left \<le> i \<and> i < bisect edges label left mid \<longrightarrow> ke_label (edges ! i) < label)
        \<and> (\<forall>i. bisect edges label left mid \<le> i \<and> i < mid \<longrightarrow> label \<le> ke_label (edges ! i))"
        using mid 1(4) by (intro 1(2) [OF True mid_def ge]) auto
      have "label \<le> ke_label (edges ! i)" if "mid \<le> i" "i < right" for i using 1(4) [OF mid(1) that] ge by simp
      then have "label \<le> ke_label (edges ! i)" if "bisect edges label left mid \<le> i" "i < right" for i
        using IH that by (cases "i < mid") auto
      then show ?thesis unfolding eq using IH mid by auto
    qed
  qed
qed

subsection \<open>The automaton\<close>

text \<open>What the matcher relies on: transitions follow the words, nodes are final.\<close>

definition automaton :: "(nat \<times> nat list) set \<Rightarrow> nat list list \<Rightarrow> kw_matcher \<Rightarrow> bool" where
  "automaton K ws m \<longleftrightarrow> length ws = length (km_nodes m) \<and> snd ` K \<subseteq> set ws \<and> [] \<in> set ws \<and>
     prefix_closed (set ws) \<and> (\<forall>s < length ws. ws ! s = [] \<longleftrightarrow> s = 0) \<and>
     (\<forall>s < length ws. final_node K ws (km_nodes m) s) \<and>
     (\<forall>s c. s < length ws \<and> c < 256 \<longrightarrow>
        (\<forall>t < length ws. ws ! t = ws ! s @ [c] \<longrightarrow> matcher_next m s c = t) \<and>
        (ws ! s @ [c] \<notin> set ws \<longrightarrow> matcher_next m s c = 0))"

lemma step_or_stay:
  assumes m: "automaton K ws m" and s: "s < length ws" and c: "c < 256"
  shows "ws ! s @ [c] \<in> set ws \<Longrightarrow> advance fuel m s c < length ws \<and> ws ! advance fuel m s c = lsuf (set ws) (ws ! s @ [c])"
    and "ws ! s @ [c] \<notin> set ws \<Longrightarrow> matcher_next m s c = 0"
proof -
  show "ws ! s @ [c] \<notin> set ws \<Longrightarrow> matcher_next m s c = 0" using m s c by (simp add: automaton_def)
  assume w: "ws ! s @ [c] \<in> set ws"
  then obtain t where t: "t < length ws" "ws ! t = ws ! s @ [c]" by (auto simp: in_set_conv_nth)
  then have "matcher_next m s c = t" "t \<noteq> 0" using m s c by (auto simp: automaton_def)
  then have "advance fuel m s c = t" by (simp add: advance.simps [of fuel] Let_def)
  then show "advance fuel m s c < length ws \<and> ws ! advance fuel m s c = lsuf (set ws) (ws ! s @ [c])"
    using t lsuf_word [OF w] by simp
qed

lemma advance_ok:
  assumes m: "automaton K ws m" and s: "s < length ws" and fuel: "length (ws ! s) \<le> fuel" and c: "c < 256"
  shows "advance fuel m s c < length ws \<and> ws ! advance fuel m s c = lsuf (set ws) (ws ! s @ [c])"
  using s fuel
proof (induction fuel arbitrary: s)
  case (0 s)
  then have "s = 0" "ws ! s = []" using m by (auto simp: automaton_def)
  then show ?case using 0(1) step_or_stay(1) [OF m 0(1) c, of 0] step_or_stay(2) [OF m 0(1) c]
    by (cases "ws ! s @ [c] \<in> set ws") simp_all
next
  case (Suc fuel s)
  show ?case
  proof (cases "ws ! s @ [c] \<in> set ws")
    case True
    then show ?thesis using step_or_stay(1) [OF m Suc.prems(1) c] by simp
  next
    case new: False
    note stay = step_or_stay(2) [OF m Suc.prems(1) c new]
    show ?thesis
    proof (cases "s = 0")
      case True
      then have "ws ! s = []" using m Suc.prems(1) by (simp add: automaton_def)
      then show ?thesis using True new Suc.prems(1) stay by simp
    next
      case False
      let ?g = "kn_failure (km_nodes m ! s)"
      have g: "?g < length ws" "ws ! ?g = lsuf (set ws) (tl (ws ! s))"
        using m Suc.prems(1) by (auto simp: automaton_def final_node_def)
      have "ws ! s \<noteq> []" using m Suc.prems(1) False by (simp add: automaton_def)
      from fall_back [OF _ this new]
      have eq: "lsuf (set ws) (ws ! s @ [c]) = lsuf (set ws) (ws ! ?g @ [c])" and short: "length (ws ! ?g) < length (ws ! s)"
        using m unfolding g(2) by (auto simp: automaton_def)
      show ?thesis unfolding eq using Suc.IH [OF g(1)] short Suc.prems(2) stay False by simp
    qed
  qed
qed

declare advance.simps [simp del]

lemma automaton_depth:
  assumes m: "automaton K ws m" and s: "s < length ws"
  shows "length (ws ! s) < length ws"
proof -
  show ?thesis using prefix_closed_length [of "set ws" "ws ! s"] m s card_length [of ws] by (simp add: automaton_def)
qed

text \<open>The text read so far leads to the node of its longest suffix; the keywords seen are those that occur in it.\<close>

lemma scan_ok:
  assumes m: "automaton K ws m"
    and "s < length ws" "ws ! s = lsuf (set ws) u" "set v \<subseteq> {..<256}"
  shows "scan m s (least_opt {i. \<exists>w. (i, w) \<in> K \<and> sublist w u}) v = least_opt {i. \<exists>w. (i, w) \<in> K \<and> sublist w (u @ v)}"
  using assms(2-4)
proof (induction v arbitrary: s u)
  case (Cons c v)
  define r where "r = advance (length (km_nodes m)) m s c"
  have c: "c < 256" using Cons.prems(3) by simp
  have len: "length ws = length (km_nodes m)" and K: "snd ` K \<subseteq> set ws" and closed: "prefix_closed (set ws)"
    using m by (auto simp: automaton_def)
  have fuel: "length (ws ! s) \<le> length (km_nodes m)" using automaton_depth [OF m Cons.prems(1)] len by simp
  have r: "r < length ws" "ws ! r = lsuf (set ws) (u @ [c])"
    using advance_ok [OF m Cons.prems(1) fuel c] Cons.prems(2) lsuf_snoc [OF closed, of u c] by (auto simp: r_def)
  have best: "kn_bestKeyword (km_nodes m ! r) = least_opt {i. \<exists>w. (i, w) \<in> K \<and> suffix w (u @ [c])}"
  proof -
    have "(i, w) \<in> K \<Longrightarrow> suffix w (ws ! r) \<longleftrightarrow> suffix w (u @ [c])" for i w
      unfolding r(2) using K by (intro suffix_lsuf_iff) auto
    then have "{i. \<exists>w. (i, w) \<in> K \<and> suffix w (ws ! r)} = {i. \<exists>w. (i, w) \<in> K \<and> suffix w (u @ [c])}" by blast
    then show ?thesis using m r(1) by (simp add: automaton_def final_node_def)
  qed
  have "{i. \<exists>w. (i, w) \<in> K \<and> sublist w u} \<union> {i. \<exists>w. (i, w) \<in> K \<and> suffix w (u @ [c])} = {i. \<exists>w. (i, w) \<in> K \<and> sublist w (u @ [c])}"
    by (auto simp: sublist_snoc)
  then have now: "minKeywordIndex (least_opt {i. \<exists>w. (i, w) \<in> K \<and> sublist w u}) (kn_bestKeyword (km_nodes m ! r)) =
      least_opt {i. \<exists>w. (i, w) \<in> K \<and> sublist w (u @ [c])}" by (simp add: best min_least_opt)
  have IH: "scan m r (least_opt {i. \<exists>w. (i, w) \<in> K \<and> sublist w (u @ [c])}) v = least_opt {i. \<exists>w. (i, w) \<in> K \<and> sublist w ((u @ [c]) @ v)}"
    using Cons.prems(3) by (intro Cons.IH r) simp
  show ?case
  proof (cases "least_opt {i. \<exists>w. (i, w) \<in> K \<and> sublist w (u @ [c])} = Some 0")
    case True
    then obtain w where "(0, w) \<in> K" "sublist w (u @ [c])" using least_opt_SomeD [OF True] by auto
    then have "sublist w (u @ c # v)" using sublist_append [of w "u @ [c]" v] by simp
    then have "least_opt {i. \<exists>w. (i, w) \<in> K \<and> sublist w (u @ c # v)} = Some 0"
      using \<open>(0, w) \<in> K\<close> by (intro least_opt_SomeI) auto
    then show ?thesis using True now by (simp add: r_def [symmetric] Let_def)
  next
    case False
    then show ?thesis using now IH by (simp add: r_def [symmetric] Let_def)
  qed
qed simp

subsection \<open>The matcher that is built\<close>

lemma root_kept:
  "c \<notin> be_label ` set out \<Longrightarrow> foldl (\<lambda>ts e. ts[be_label e := be_target e]) ts out ! c = ts ! c"
  by (induction out arbitrary: ts) auto

lemma root_transitions:
  assumes "distinct (map be_label out)" "\<And>e. e \<in> set out \<Longrightarrow> be_label e < length ts"
  shows "length (foldl (\<lambda>ts e. ts[be_label e := be_target e]) ts out) = length ts"
    and "e \<in> set out \<Longrightarrow> foldl (\<lambda>ts e. ts[be_label e := be_target e]) ts out ! be_label e = be_target e"
proof -
  let ?f = "\<lambda>ts e. ts[be_label e := be_target e]"
  show "length (foldl ?f ts out) = length ts" by (induction out arbitrary: ts) simp_all
  show "e \<in> set out \<Longrightarrow> foldl ?f ts out ! be_label e = be_target e" using assms
  proof (induction out arbitrary: ts)
    case (Cons x out)
    show ?case
    proof (cases "e \<in> set out")
      case True
      then show ?thesis using Cons by simp
    next
      case False
      then have x: "e = x" using Cons.prems by simp
      then have "be_label e \<notin> be_label ` set out" using Cons.prems(2) by simp
      then have "foldl ?f (?f ts x) out ! be_label e = ?f ts x ! be_label e" by (rule root_kept)
      then show ?thesis using x Cons.prems by simp
    qed
  qed simp
qed

lemma search_segment:
  fixes c :: nat
  assumes seg: "take n (drop b edges) = es" "n = length es" and srt: "sorted (map ke_label es)"
    and same: "\<And>e e'. e \<in> set es \<Longrightarrow> e' \<in> set es \<Longrightarrow> ke_label e = ke_label e' \<Longrightarrow> ke_target e = ke_target e'"
  defines "left \<equiv> bisect edges c b (b + n)"
  shows "e \<in> set es \<Longrightarrow> ke_label e = c \<Longrightarrow> left < b + n \<and> ke_label (edges ! left) = c \<and> ke_target (edges ! left) = ke_target e"
    and "(\<And>e. e \<in> set es \<Longrightarrow> ke_label e \<noteq> c) \<Longrightarrow> \<not> (left < b + n \<and> ke_label (edges ! left) = c)"
proof -
  have at: "edges ! (b + i) = es ! i" if "i < n" for i
  proof -
    have "es ! i = drop b edges ! i" unfolding seg(1) [symmetric] using that by simp
    moreover have "b \<le> length edges" using that seg by (cases "b \<le> length edges") auto
    ultimately show ?thesis by simp
  qed
  have at': "edges ! i = es ! (i - b)" if "b \<le> i" "i < b + n" for i using at [of "i - b"] that by simp
  have mono: "ke_label (edges ! i) \<le> ke_label (edges ! j)" if "b \<le> i" "i \<le> j" "j < b + n" for i j
    using that sorted_nth_mono [OF srt, of "i - b" "j - b"] seg(2) by (simp add: at')
  have bs: "b \<le> left \<and> left \<le> b + n \<and> (\<forall>i. b \<le> i \<and> i < left \<longrightarrow> ke_label (edges ! i) < c)
      \<and> (\<forall>i. left \<le> i \<and> i < b + n \<longrightarrow> c \<le> ke_label (edges ! i))"
    unfolding left_def by (rule bisect_ok) (auto intro: mono)
  have mem: "edges ! i \<in> set es" if "b \<le> i" "i < b + n" for i using that seg(2) by (simp add: at')
  show "\<not> (left < b + n \<and> ke_label (edges ! left) = c)" if "\<And>e. e \<in> set es \<Longrightarrow> ke_label e \<noteq> c"
    using that mem [of left] bs by auto
  show "left < b + n \<and> ke_label (edges ! left) = c \<and> ke_target (edges ! left) = ke_target e" if e: "e \<in> set es" "ke_label e = c"
  proof -
    obtain i where i: "i < n" "e = es ! i" using e seg(2) by (metis in_set_conv_nth)
    then have lab: "ke_label (edges ! (b + i)) = c" using e at by simp
    have le: "left \<le> b + i" using bs lab by (metis le_add1 less_irrefl not_le)
    then have lt: "left < b + n" using i(1) by simp
    have "ke_label (edges ! left) \<le> c" using mono [of left "b + i"] bs le i(1) lab by simp
    then have "ke_label (edges ! left) = c" using bs lt by fastforce
    moreover have "edges ! left \<in> set es" using mem bs lt by simp
    ultimately show ?thesis using same [OF _ e(1)] e(2) lt by simp
  qed
qed

lemma start_bfs:
  assumes t: "trie ws nodes build" and st: "stored K ws nodes" and K: "\<And>i w. (i, w) \<in> K \<Longrightarrow> w \<noteq> []"
  defines "out \<equiv> map (\<lambda>i. build ! i) (siblings build (nodes ! 0))"
  shows "bfs_inv K ws build [] (map be_target out) nodes"
proof -
  note n0 = trie_words(2) [OF t]
  note o = out_targets [OF t n0, folded out_def]
  have ws0: "ws ! 0 = []" using root_word [OF t n0] by simp
  have kid: "r \<in> be_target ` set out \<Longrightarrow> \<exists>c. ws ! r = [c] \<and> r < length nodes" for r using o(1) ws0 by auto
  have fin: "final_node K ws nodes s" if "s < length nodes" "s = 0 \<or> s \<in> be_target ` set out" for s
  proof -
    have "\<exists>c. ws ! s = [] \<or> ws ! s = [c]" using that ws0 kid by auto
    then have "lsuf (set ws) (tl (ws ! s)) = []" "\<And>i w. (i, w) \<in> K \<Longrightarrow> suffix w (ws ! s) \<longleftrightarrow> w = ws ! s"
      using K by (auto simp: suffix_Cons)
    then have "{i. \<exists>w. (i, w) \<in> K \<and> suffix w (ws ! s)} = {i. (i, ws ! s) \<in> K}" "lsuf (set ws) (tl (ws ! s)) = []" by auto
    then show ?thesis using st that(1) ws0 n0 by (simp add: final_node_def stored_def)
  qed
  show ?thesis unfolding bfs_inv_def
  proof (intro conjI allI impI ballI)
    show "partial K ws build (insert 0 (set ([] @ map be_target out))) nodes"
      using t st fin by (auto simp: partial_def stored_def fresh_node_def)
    show "distinct ([] @ map be_target out)" using o(3) by simp
    show "0 \<notin> set ([] @ map be_target out)" using kid ws0 by fastforce
    show "set ([] @ map be_target out) \<subseteq> {..<length nodes}" using o(1) by auto
    show "sorted (map (\<lambda>s. length (ws ! s)) ([] @ map be_target out))" using o(1) by (auto simp: sorted_iff_nth_mono)
    show "(r \<in> set ([] @ map be_target out)) = (s = 0 \<or> s \<in> set [])"
      if r: "s < length nodes \<and> r < length nodes \<and> ws ! r = ws ! s @ [c]" for s r c
    proof -
      have "r \<in> be_target ` set out \<Longrightarrow> s = 0" using kid [of r] r root_word [OF t, of s] by auto
      moreover have "s = 0 \<Longrightarrow> r \<in> be_target ` set out" using o(2) [of r c] r by force
      ultimately show ?thesis by auto
    qed
    show "length (ws ! x) \<le> Suc (length (ws ! hd (map be_target out)))" if "x \<in> set (map be_target out)" for x
      using kid [of x] that by auto
  qed
qed

lemma flat_edges:
  assumes t: "trie ws nodes build" and s: "s < length nodes"
  shows "e \<in> set (flat build (nodes ! s)) \<Longrightarrow> ke_target e < length nodes \<and> ws ! ke_target e = ws ! s @ [ke_label e]"
    and "r < length nodes \<Longrightarrow> ws ! r = ws ! s @ [c] \<Longrightarrow> \<lparr>ke_target = r, ke_label = c\<rparr> \<in> set (flat build (nodes ! s))"
proof -
  have flat: "set (flat build (nodes ! s)) = (\<lambda>b. \<lparr>ke_target = be_target b, ke_label = be_label b\<rparr>) `
      set (map (\<lambda>i. build ! i) (siblings build (nodes ! s)))"
    by (auto simp: flat_def sort_outgoing_props)
  note o = out_targets [OF t s]
  show "e \<in> set (flat build (nodes ! s)) \<Longrightarrow> ke_target e < length nodes \<and> ws ! ke_target e = ws ! s @ [ke_label e]"
    unfolding flat using o(1) by auto
  show "r < length nodes \<Longrightarrow> ws ! r = ws ! s @ [c] \<Longrightarrow> \<lparr>ke_target = r, ke_label = c\<rparr> \<in> set (flat build (nodes ! s))"
    unfolding flat using o(2) [of r c] by force
qed

lemma matcher_next_ok:
  assumes t: "trie ws nodes build" and byte: "\<And>w. w \<in> set ws \<Longrightarrow> set w \<subseteq> {..<256}"
    and lay: "layout build [] nodes = (nodes', edges)"
    and m: "km_nodes m = nodes'" "km_edges m = edges"
      "km_rootTransitions m = foldl (\<lambda>ts e. ts[be_label e := be_target e]) (replicate 256 0)
         (map (\<lambda>i. build ! i) (siblings build (nodes ! 0)))"
    and s: "s < length nodes" and c: "c < 256"
  shows "r < length nodes \<Longrightarrow> ws ! r = ws ! s @ [c] \<Longrightarrow> matcher_next m s c = r"
    and "ws ! s @ [c] \<notin> set ws \<Longrightarrow> matcher_next m s c = 0"
proof -
  have len: "length ws = length nodes" using t by (simp add: trie_def)
  have "(r < length nodes \<longrightarrow> ws ! r = ws ! s @ [c] \<longrightarrow> matcher_next m s c = r)
    \<and> (ws ! s @ [c] \<notin> set ws \<longrightarrow> matcher_next m s c = 0)"
  proof (cases "s = 0")
    case True
    let ?out = "map (\<lambda>i. build ! i) (siblings build (nodes ! 0))"
    note o = out_targets [OF t s [unfolded True]]
    have small: "be_label e < length (replicate 256 (0::nat))" if "e \<in> set ?out" for e
    proof -
      have "ws ! be_target e \<in> set ws" using o(1) [OF that] len nth_mem by metis
      then show ?thesis using byte [of "ws ! be_target e"] o(1) [OF that] by simp
    qed
    have "matcher_next m s c = r" if "r < length nodes" "ws ! r = ws ! s @ [c]"
      using o(2) [OF that [unfolded True]] root_transitions(2) [OF o(4) small] True m(3) by (auto simp: matcher_next_def)
    moreover have "matcher_next m s c = 0" if "ws ! s @ [c] \<notin> set ws"
    proof -
      have "c \<notin> be_label ` set ?out" using o(1) that True len by (metis imageE nth_mem)
      then show ?thesis using root_kept [of c ?out] True m(3) c by (simp add: matcher_next_def)
    qed
    ultimately show ?thesis by blast
  next
    case False
    let ?es = "flat build (nodes ! s)" and ?n = "nodes' ! s"
    have l: "length nodes' = length nodes" "take (kn_edgeCount ?n) (drop (kn_edgeStart ?n) edges) = ?es" "kn_edgeCount ?n = length ?es"
      using layout_ok [OF lay] s by auto
    have srt: "sorted (map ke_label ?es)" by (simp add: flat_def sort_outgoing_props)
    have same: "ke_target e = ke_target e'" if "e \<in> set ?es" "e' \<in> set ?es" "ke_label e = ke_label e'" for e e'
      using flat_edges(1) [OF t s that(1)] flat_edges(1) [OF t s that(2)] that(3) trie_words(4) [OF t] by metis
    let ?left = "bisect edges c (kn_edgeStart ?n) (kn_edgeStart ?n + kn_edgeCount ?n)"
    have nx: "matcher_next m s c = (if ?left < kn_edgeStart ?n + kn_edgeCount ?n \<and> ke_label (edges ! ?left) = c
        then ke_target (edges ! ?left) else 0)"
      using False s l(1) m by (simp add: matcher_next_def Let_def)
    have "matcher_next m s c = r" if "r < length nodes" "ws ! r = ws ! s @ [c]"
    proof -
      have "?left < kn_edgeStart ?n + kn_edgeCount ?n \<and> ke_label (edges ! ?left) = c
          \<and> ke_target (edges ! ?left) = ke_target \<lparr>ke_target = r, ke_label = c\<rparr>"
      proof (rule search_segment(1) [OF l(2,3) srt])
        show "\<lparr>ke_target = r, ke_label = c\<rparr> \<in> set ?es" by (rule flat_edges(2) [OF t s that])
      qed (rule same, assumption+, simp)
      then show ?thesis unfolding nx by simp
    qed
    moreover have "matcher_next m s c = 0" if "ws ! s @ [c] \<notin> set ws"
    proof -
      have "ke_label e \<noteq> c" if "e \<in> set ?es" for e
        using flat_edges(1) [OF t s that] \<open>ws ! s @ [c] \<notin> set ws\<close> len nth_mem by metis
      then have "\<not> (?left < kn_edgeStart ?n + kn_edgeCount ?n \<and> ke_label (edges ! ?left) = c)"
        by (intro search_segment(2) [OF l(2,3) srt]) (rule same, assumption+)
      then show ?thesis unfolding nx by auto
    qed
    ultimately show ?thesis by blast
  qed
  then show "r < length nodes \<Longrightarrow> ws ! r = ws ! s @ [c] \<Longrightarrow> matcher_next m s c = r"
    "ws ! s @ [c] \<notin> set ws \<Longrightarrow> matcher_next m s c = 0" by blast+
qed

lemma empty_trie: "trie [[]] [newContentModerationKeywordNode] []" "stored {} [[]] [newContentModerationKeywordNode]"
  by (auto simp: trie_def stored_def out_edges_def prefix_closed_def newContentModerationKeywordNode_def
      contentModerationKeywordBuildFirstEdge_def intro!: exI [of _ "[]"])

lemma kw_set_nonempty:
  assumes "\<And>s. lower s = [] \<Longrightarrow> s = []" and "(i, w) \<in> kw_set lower k kws"
  shows "w \<noteq> []"
  using assms by (auto simp: kw_set_def bytes_def)

lemma trie_root_siblings:
  assumes "trie ws nodes build" "map kn_edgeStart nodes' = map kn_edgeStart nodes"
  shows "siblings build (nodes' ! 0) = siblings build (nodes ! 0)"
proof -
  have "kn_edgeStart (nodes' ! 0) = kn_edgeStart (nodes ! 0)"
    using assms(2) trie_words(2) [OF assms(1)] by (metis length_map nth_map)
  then show ?thesis by (simp add: siblings_def contentModerationKeywordBuildFirstEdge_def)
qed

lemma sublist_bytes: "sublist (bytes x) (bytes y) \<longleftrightarrow> sublist x y"
proof -
  have inj: "inj_on (of_char :: char \<Rightarrow> nat) (set x \<union> set y)" by (rule inj_onI) simp
  show ?thesis
  proof
    assume "sublist (bytes x) (bytes y)"
    then obtain ps ss where "map of_char y = ps @ map of_char x @ (ss :: nat list)" by (auto simp: bytes_def sublist_def)
    then obtain p x' q where y: "y = p @ x' @ q" "map of_char x' = (map of_char x :: nat list)"
      by (metis append_eq_map_conv)
    then have "x' = x" using inj by (metis inj_on_def map_inj_on inj_onI of_char_eq_iff)
    then show "sublist x y" using y by simp
  next
    assume "sublist x y"
    then obtain ps ss where "y = ps @ x @ ss" by (auto simp: sublist_def)
    then have "bytes y = bytes ps @ bytes x @ bytes ss" by (simp add: bytes_def)
    then show "sublist (bytes x) (bytes y)" by (simp add: sublist_appendI)
  qed
qed

lemma find_least: "find P xs = map_option ((!) xs) (least_opt {i. i < length xs \<and> P (xs ! i)})"
proof (cases "find P xs")
  case None
  then have "{i. i < length xs \<and> P (xs ! i)} = {}" by (auto simp: find_None_iff)
  then have "least_opt {i. i < length xs \<and> P (xs ! i)} = None" by (metis least_opt_empty)
  then show ?thesis using None by simp
next
  case (Some x)
  then obtain i where "i < length xs" "P (xs ! i)" "x = xs ! i" "\<forall>j < i. \<not> P (xs ! j)" by (auto simp: find_Some_iff)
  then have "least_opt {i. i < length xs \<and> P (xs ! i)} = Some i" by (intro least_opt_SomeI) (auto simp: not_less [symmetric])
  then show ?thesis using Some \<open>x = xs ! i\<close> by simp
qed

lemma matcher_built:
  assumes lower: "\<And>s. lower s = [] \<Longrightarrow> s = []"
  shows "case newContentModerationKeywordMatcher lower kws of
      None \<Rightarrow> kw_set lower 0 kws = {}
    | Some m \<Rightarrow> km_keywords m = kws \<and> (\<exists>ws. automaton (kw_set lower 0 kws) ws m)"
proof (cases "kws = []")
  case True
  then show ?thesis by (simp add: newContentModerationKeywordMatcher_def kw_set_def)
next
  case False
  let ?K = "kw_set lower 0 kws"
  obtain nodes build where ins: "insert_keywords lower 0 kws ([newContentModerationKeywordNode], []) = (nodes, build)"
    by (rule prod.exhaust)
  obtain ws where t: "trie ws nodes build" and st: "stored ?K ws nodes"
    using insert_keywords_ok [OF empty_trie, of lower 0 kws] ins by auto
  have K: "\<And>i w. (i, w) \<in> ?K \<Longrightarrow> w \<noteq> []" using kw_set_nonempty [OF lower] by blast
  have len: "length ws = length nodes" using t by (simp add: trie_def)
  show ?thesis
  proof (cases "length nodes = 1")
    case True
    then have "length ws = 1" using len by simp
    then obtain w where "ws = [w]" by (auto simp: length_Suc_conv)
    then have "set ws = {[]}" using trie_words(1) [OF t] by simp
    then have "snd ` ?K \<subseteq> {[]}" using st by (simp add: stored_def)
    then have none: "?K = {}" using K by (metis equals0I image_subset_iff prod.exhaust_sel singletonD)
    have "newContentModerationKeywordMatcher lower kws = None"
      using True ins False by (simp add: newContentModerationKeywordMatcher_def)
    then show ?thesis using none by simp
  next
    case many: False
    let ?out = "map (\<lambda>i. build ! i) (siblings build (nodes ! 0))"
    let ?linked = "link_queue (length nodes) build (map be_target ?out) nodes"
    have part: "partial ?K ws build {..<length nodes} ?linked" and llen: "length ?linked = length nodes"
      and shape: "map kn_edgeStart ?linked = map kn_edgeStart nodes"
      using link_queue_ok [OF start_bfs [OF t st K], where fuel = "length nodes"] by auto
    obtain nodes' edges where lay: "layout build [] ?linked = (nodes', edges)" by (rule prod.exhaust)
    define m where "m = \<lparr>km_nodes = nodes', km_edges = edges,
      km_rootTransitions = foldl (\<lambda>ts e. ts[be_label e := be_target e]) (replicate 256 0) ?out, km_keywords = kws\<rparr>"
    have new: "newContentModerationKeywordMatcher lower kws = Some m"
      using False many ins lay by (simp add: newContentModerationKeywordMatcher_def m_def Let_def)
    have lt: "trie ws ?linked build" using part by (simp add: partial_def)
    note l = layout_ok [OF lay]
    have root: "siblings build (?linked ! 0) = siblings build (nodes ! 0)"
      using trie_root_siblings [OF t shape] .
    have "automaton ?K ws m" unfolding automaton_def
    proof (intro conjI allI impI)
      show "length ws = length (km_nodes m)" using l llen len by (simp add: m_def)
      show "snd ` ?K \<subseteq> set ws" using st by (simp add: stored_def)
      show "[] \<in> set ws" by (rule trie_words(1) [OF t])
      show "prefix_closed (set ws)" using t by (simp add: trie_def)
      show "(ws ! s = []) = (s = 0)" if "s < length ws" for s using root_word [OF t] that len by simp
      show "final_node ?K ws (km_nodes m) s" if "s < length ws" for s
        using part l llen that len by (auto simp: partial_def final_node_def m_def)
      have byte: "\<And>w. w \<in> set ws \<Longrightarrow> set w \<subseteq> {..<256}" using st by (simp add: stored_def)
      note nx = matcher_next_ok [OF lt byte lay, of m, unfolded root llen]
      fix s c :: nat
      assume sc: "s < length ws \<and> c < 256"
      show "matcher_next m s c = r" if "r < length ws" "ws ! r = ws ! s @ [c]" for r
        using nx(1) [of s c r] sc that len by (simp add: m_def)
      show "matcher_next m s c = 0" if "ws ! s @ [c] \<notin> set ws" using nx(2) [of s c] sc that len by (simp add: m_def)
    qed
    then show ?thesis using new by (auto simp: m_def)
  qed
qed

text \<open>
  (C28) The matcher is correct: it returns the first keyword of the list that occurs in the text, both
  compared in lower case, and nothing if none does. Empty keywords are ignored. Nothing is assumed of the
  conversion to lower case but that it leaves no text empty that was not.
\<close>

theorem keyword_match_correct:
  assumes "\<And>s. lower s = [] \<longleftrightarrow> s = []"
  shows "Match lower (newContentModerationKeywordMatcher lower kws) text =
    find (\<lambda>keyword. keyword \<noteq> [] \<and> sublist (lower keyword) (lower text)) kws"
proof -
  have inj: "sublist (bytes x) (bytes y) \<longleftrightarrow> sublist x y" for x y by (rule sublist_bytes)
  let ?P = "\<lambda>keyword. keyword \<noteq> [] \<and> sublist (lower keyword) (lower text)"
  let ?A = "{i. \<exists>w. (i, w) \<in> kw_set lower 0 kws \<and> sublist w (bytes (lower text))}"
  have A: "?A = {i. i < length kws \<and> ?P (kws ! i)}" by (auto simp: kw_set_def inj)
  have ref: "find ?P kws = map_option ((!) kws) (least_opt {i. i < length kws \<and> ?P (kws ! i)})" by (rule find_least)
  have built: "case newContentModerationKeywordMatcher lower kws of
      None \<Rightarrow> kw_set lower 0 kws = {}
    | Some m \<Rightarrow> km_keywords m = kws \<and> (\<exists>ws. automaton (kw_set lower 0 kws) ws m)"
    using assms by (intro matcher_built) simp
  show ?thesis
  proof (cases "newContentModerationKeywordMatcher lower kws")
    case None
    then have "?A = {}" using built by simp
    then have "least_opt ?A = None" by (metis least_opt_empty)
    then show ?thesis unfolding ref A [symmetric] using None by (simp add: Match_def)
  next
    case (Some m)
    then obtain ws where kws: "km_keywords m = kws" and m: "automaton (kw_set lower 0 kws) ws m" using built by auto
    have ws: "\<forall>s < length ws. ws ! s = [] \<longleftrightarrow> s = 0" and "[] \<in> set ws" and wlen: "length ws = length (km_nodes m)"
      using m unfolding automaton_def by blast+
    then have ws0: "0 < length ws" by (metis length_pos_if_in_set)
    then have ws0: "0 < length ws" "ws ! 0 = []" using ws by blast+
    have none: "{i. \<exists>w. (i, w) \<in> kw_set lower 0 kws \<and> sublist w []} = {}"
      using kw_set_nonempty [of lower _ _ 0 kws] assms by auto
    have scan: "scan m 0 None (bytes (lower text)) = least_opt ?A"
      using scan_ok [OF m ws0(1), of "[]" "bytes (lower text)"] ws0(2) bytes_range none by simp
    show ?thesis
    proof (cases "text = [] \<or> kws = []")
      case True
      have "?A = {}"
      proof (cases "kws = []")
        case True
        then show ?thesis by (simp add: kw_set_def)
      next
        case False
        then have "bytes (lower text) = []" using True assms [of "text"] by (simp add: bytes_def)
        then show ?thesis using none by simp
      qed
      then have "least_opt ?A = None" by (metis least_opt_empty)
      then show ?thesis unfolding ref A [symmetric] using True Some kws by (auto simp: Match_def)
    next
      case False
      have nodes: "km_nodes m \<noteq> []" using wlen ws0(1) by auto
      have range: "k < length kws" if "least_opt ?A = Some k" for k
        using least_opt_SomeD [OF that, unfolded A] by simp
      have "Match lower (Some m) text = map_option ((!) kws) (least_opt ?A)"
        unfolding Match_def option.case scan kws using False nodes range
        by (cases "least_opt ?A") (simp_all add: not_le)
      then show ?thesis unfolding ref A [symmetric] Some .
    qed
  qed
qed

lemma keyword_match_correct_witness:
  "(\<forall>s :: string. id s = [] \<longleftrightarrow> s = []) \<and>
   Match id (newContentModerationKeywordMatcher id [''xx'', '''', ''hers'', ''he'']) ''ushers'' = Some ''hers''"
proof -
  have "\<not> sublist ''xx'' ''ushers''" "sublist ''hers'' ''ushers''" by (simp_all add: sublist_Cons_right)
  then have "find (\<lambda>keyword. keyword \<noteq> [] \<and> sublist (id keyword) (id ''ushers'')) [''xx'', '''', ''hers'', ''he''] = Some ''hers''"
    by simp
  then show ?thesis by (simp add: keyword_match_correct [of id])
qed

end
