(* ===== verification/Usage_Billing.thy ===== *)
theory Usage_Billing
  imports Complex_Main Relay_Prelude Go_Time "HOL-Library.Signed_Division"
begin

text \<open>
  The billing of requests: the commands of \<open>service/usage_billing.go\<close> and
  \<open>service/batch_image_billing_hold.go\<close>, the transactions of \<open>repository/usage_billing_repo.go\<close> that
  apply them, and the archiving of their keys in \<open>repository/dashboard_aggregation_repo.go\<close>.

  A transaction is one atomic step of the database: the first statement inserts the key of the request
  under a unique index, so that a second transaction with the same key waits for the first, and every
  other statement is an update of one row. Each statement may fail, which rolls the transaction back,
  and the commit may fail with or without taking effect; these faults are arguments. They also stand for
  what is refused by the types of columns, such as a key that is too long. Money columns are
  \<open>NUMERIC(20,8)\<close>, or \<open>NUMERIC(20,10)\<close> for subscriptions: numbers are exact and rounded when they are
  stored. A \<open>float64\<close> reaches the database as its shortest decimal, which \<open>shopspring/decimal\<close> uses as
  well; its conversions are arguments, and so are time zones and the hash function. Amounts that are not
  finite are never stored: a comparison with \<open>NaN\<close> fails, and the columns refuse infinity.

  Shown are that no request is charged twice, whatever fails and is tried again, that balances and
  quotas are exactly what the log of committed commands says, that one command moves the balance, the
  quota of the key and the usage of the subscription by the same amount, that a key reports the
  exhaustion of its quota once, and that holds conserve money if they are whole multiples of the
  smallest amount.
\<close>

subsection \<open>Numbers\<close>

text \<open>\<open>NUMERIC(p,s)\<close> rounds half away from zero to \<open>s\<close> decimals.\<close>

definition numeric :: "nat \<Rightarrow> rat \<Rightarrow> rat" where
  "numeric s x = sgn x * of_int \<lfloor>\<bar>x\<bar> * 10 ^ s + 1 / 2\<rfloor> / 10 ^ s"

record 'f money_ops =
  mo_dec :: "'f \<Rightarrow> rat"            \<comment> \<open>the shortest decimal that reads back as this number\<close>
  mo_flt :: "rat \<Rightarrow> 'f"            \<comment> \<open>the nearest \<open>float64\<close>\<close>
  mo_sub :: "'f \<Rightarrow> 'f \<Rightarrow> 'f"
  mo_lt :: "'f \<Rightarrow> 'f \<Rightarrow> bool"
  mo_finite :: "'f \<Rightarrow> bool"         \<comment> \<open>neither \<open>NaN\<close> nor infinite\<close>
  mo_f10 :: "'f \<Rightarrow> string"          \<comment> \<open>the verb \<open>%0.10f\<close>\<close>

definition pos :: "'f money_ops \<Rightarrow> 'f \<Rightarrow> bool" where
  "pos ops v = mo_lt ops (mo_flt ops 0) v"

record 'f bill_env =
  en_ops :: "'f money_ops"
  en_hash :: "string \<Rightarrow> string"                    \<comment> \<open>SHA-256 in hexadecimal\<close>
  en_day :: "instant \<Rightarrow> instant"                   \<comment> \<open>\<open>date_trunc('day', _)\<close> in the zone of the session\<close>
  en_add_days :: "int \<Rightarrow> instant \<Rightarrow> instant"       \<comment> \<open>adding days to a \<open>timestamptz\<close>, in the same zone\<close>
  en_local :: "string \<Rightarrow> instant \<Rightarrow> int"          \<comment> \<open>\<open>timestamptz AT TIME ZONE\<close>: local time, in ns\<close>
  en_utc :: "string \<Rightarrow> int \<Rightarrow> instant"            \<comment> \<open>\<open>timestamp AT TIME ZONE\<close>\<close>

subsection \<open>Commands\<close>

record 'f UsageBillingCommand =
  uc_RequestID :: string
  uc_APIKeyID :: int
  uc_RequestFingerprint :: string
  uc_RequestPayloadHash :: string
  uc_UserID :: int
  uc_AccountID :: int
  uc_SubscriptionID :: "int option"
  uc_AccountType :: string
  uc_Model :: string
  uc_ServiceTier :: string
  uc_ReasoningEffort :: string
  uc_BillingType :: int
  uc_InputTokens :: int
  uc_OutputTokens :: int
  uc_CacheCreationTokens :: int
  uc_CacheReadTokens :: int
  uc_ImageCount :: int
  uc_MediaType :: string
  uc_BalanceCost :: 'f
  uc_SubscriptionCost :: 'f
  uc_APIKeyQuotaCost :: 'f
  uc_APIKeyRateLimitCost :: 'f
  uc_AccountQuotaCost :: 'f

record 'f AccountQuotaState =
  aq_TotalUsed :: 'f
  aq_TotalLimit :: 'f
  aq_DailyUsed :: 'f
  aq_DailyLimit :: 'f
  aq_WeeklyUsed :: 'f
  aq_WeeklyLimit :: 'f

record 'f UsageBillingApplyResult =
  ua_Applied :: bool
  ua_APIKeyQuotaExhausted :: bool
  ua_NewBalance :: "'f option"
  ua_BalanceOverdrafted :: bool
  ua_QuotaState :: "'f AccountQuotaState option"

record 'f BatchImageBalanceHoldCommand =
  hc_RequestID :: string
  hc_APIKeyID :: int
  hc_RequestFingerprint :: string
  hc_RequestPayloadHash :: string
  hc_UserID :: int
  hc_BatchID :: string
  hc_HoldAmount :: 'f
  hc_ActualAmount :: 'f

record 'f BatchImageBalanceHoldResult =
  hr_Applied :: bool
  hr_NewBalance :: "'f option"
  hr_FrozenBalance :: "'f option"

definition UsageBillingMonetaryScale :: nat where
  "UsageBillingMonetaryScale = 8"

definition QuantizeUsageBillingAmount :: "'f money_ops \<Rightarrow> 'f \<Rightarrow> 'f" where
  "QuantizeUsageBillingAmount ops v =
     (if \<not> mo_finite ops v \<or> mo_dec ops v = 0 then v
      else mo_flt ops (numeric UsageBillingMonetaryScale (mo_dec ops v)))"

definition quantizeMonetaryFields :: "'f money_ops \<Rightarrow> 'f UsageBillingCommand \<Rightarrow> 'f UsageBillingCommand" where
  "quantizeMonetaryFields ops c = c
     \<lparr>uc_BalanceCost := QuantizeUsageBillingAmount ops (uc_BalanceCost c),
      uc_SubscriptionCost := QuantizeUsageBillingAmount ops (uc_SubscriptionCost c),
      uc_APIKeyQuotaCost := QuantizeUsageBillingAmount ops (uc_APIKeyQuotaCost c),
      uc_APIKeyRateLimitCost := QuantizeUsageBillingAmount ops (uc_APIKeyRateLimitCost c),
      uc_AccountQuotaCost := QuantizeUsageBillingAmount ops (uc_AccountQuotaCost c)\<rparr>"

fun nat_dec :: "nat \<Rightarrow> string" where
  "nat_dec n = (if n < 10 then [char_of (48 + n)] else nat_dec (n div 10) @ [char_of (48 + n mod 10)])"

definition int_dec :: "int \<Rightarrow> string" where
  "int_dec i = (if i < 0 then ''-'' @ nat_dec (nat (- i)) else nat_dec (nat i))"

fun join_bar :: "string list \<Rightarrow> string" where
  "join_bar [] = []"
| "join_bar [s] = s"
| "join_bar (s # t # ss) = s @ ''|'' @ join_bar (t # ss)"

definition valueOrZero :: "int option \<Rightarrow> int" where
  "valueOrZero v = (case v of None \<Rightarrow> 0 | Some i \<Rightarrow> i)"

definition with_payload :: "string \<Rightarrow> string \<Rightarrow> string" where
  "with_payload raw payload = (let payloadHash = TrimSpace payload in if payloadHash \<noteq> [] then raw @ ''|'' @ payloadHash else raw)"

definition buildUsageBillingFingerprint :: "'f bill_env \<Rightarrow> 'f UsageBillingCommand \<Rightarrow> string" where
  "buildUsageBillingFingerprint env c =
     (let f10 = mo_f10 (en_ops env) in
      en_hash env (with_payload (join_bar
       [int_dec (uc_UserID c), int_dec (uc_AccountID c), int_dec (uc_APIKeyID c),
        TrimSpace (uc_AccountType c), TrimSpace (uc_Model c), TrimSpace (uc_ServiceTier c),
        TrimSpace (uc_ReasoningEffort c), int_dec (uc_BillingType c), int_dec (uc_InputTokens c),
        int_dec (uc_OutputTokens c), int_dec (uc_CacheCreationTokens c), int_dec (uc_CacheReadTokens c),
        int_dec (uc_ImageCount c), TrimSpace (uc_MediaType c), int_dec (valueOrZero (uc_SubscriptionID c)),
        f10 (uc_BalanceCost c), f10 (uc_SubscriptionCost c), f10 (uc_APIKeyQuotaCost c),
        f10 (uc_APIKeyRateLimitCost c), f10 (uc_AccountQuotaCost c)]) (uc_RequestPayloadHash c)))"

definition Normalize :: "'f bill_env \<Rightarrow> 'f UsageBillingCommand \<Rightarrow> 'f UsageBillingCommand" where
  "Normalize env c =
     (let c = c\<lparr>uc_RequestID := TrimSpace (uc_RequestID c)\<rparr>;
          c = (if TrimSpace (uc_RequestFingerprint c) = []
               then c\<lparr>uc_RequestFingerprint := buildUsageBillingFingerprint env c\<rparr> else c)
      in quantizeMonetaryFields (en_ops env) c)"

definition buildBatchImageBalanceHoldFingerprint :: "'f bill_env \<Rightarrow> 'f BatchImageBalanceHoldCommand \<Rightarrow> string" where
  "buildBatchImageBalanceHoldFingerprint env c =
     en_hash env (with_payload (join_bar
       [int_dec (hc_UserID c), int_dec (hc_APIKeyID c), TrimSpace (hc_BatchID c),
        mo_f10 (en_ops env) (hc_HoldAmount c), mo_f10 (en_ops env) (hc_ActualAmount c)]) (hc_RequestPayloadHash c))"

definition Normalize_hold ::
  "'f bill_env \<Rightarrow> 'f BatchImageBalanceHoldCommand \<Rightarrow> 'f BatchImageBalanceHoldCommand" where
  "Normalize_hold env c =
     (let c = c\<lparr>hc_RequestID := TrimSpace (hc_RequestID c), hc_BatchID := TrimSpace (hc_BatchID c)\<rparr>
      in if TrimSpace (hc_RequestFingerprint c) = []
         then c\<lparr>hc_RequestFingerprint := buildBatchImageBalanceHoldFingerprint env c\<rparr> else c)"

definition BatchImageHoldRequestID :: "string \<Rightarrow> string" where
  "BatchImageHoldRequestID batchID = ''batch_image_hold:'' @ TrimSpace batchID"

definition BatchImageCaptureRequestID :: "string \<Rightarrow> string" where
  "BatchImageCaptureRequestID batchID = ''batch_image_capture:'' @ TrimSpace batchID"

definition BatchImageReleaseRequestID :: "string \<Rightarrow> string" where
  "BatchImageReleaseRequestID batchID = ''batch_image_release:'' @ TrimSpace batchID"

subsection \<open>Tables\<close>

record user_row =
  ur_balance :: rat
  ur_frozen :: rat
  ur_deleted :: bool

record bill_sub_row =
  sr_group :: int
  sr_daily :: rat
  sr_weekly :: rat
  sr_monthly :: rat
  sr_deleted :: bool

record key_row =
  kr_quota :: rat
  kr_quota_used :: rat
  kr_status :: string
  kr_usage_5h :: rat
  kr_usage_1d :: rat
  kr_usage_7d :: rat
  kr_window_5h :: "instant option"
  kr_window_1d :: "instant option"
  kr_window_7d :: "instant option"
  kr_deleted :: bool

text \<open>The entries of the column \<open>extra\<close> that the statements read and write, as SQL casts them.\<close>

record account_extra =
  ax_quota_used :: "rat option"
  ax_quota_limit :: "rat option"
  ax_daily_used :: "rat option"
  ax_daily_limit :: "rat option"
  ax_daily_start :: "instant option"
  ax_daily_mode :: "string option"
  ax_daily_reset_at :: "instant option"
  ax_daily_hour :: "int option"
  ax_weekly_used :: "rat option"
  ax_weekly_limit :: "rat option"
  ax_weekly_start :: "instant option"
  ax_weekly_mode :: "string option"
  ax_weekly_reset_at :: "instant option"
  ax_weekly_hour :: "int option"
  ax_weekly_day :: "int option"
  ax_timezone :: "string option"

record account_row =
  ar_extra :: account_extra
  ar_deleted :: bool

type_synonym bill_key = "string \<times> int"   \<comment> \<open>request and API key\<close>

record billing_db =
  bd_dedup :: "bill_key \<rightharpoonup> string \<times> instant"     \<comment> \<open>fingerprint and time of creation\<close>
  bd_archive :: "bill_key \<rightharpoonup> string \<times> instant"
  bd_users :: "int \<rightharpoonup> user_row"
  bd_subs :: "int \<rightharpoonup> bill_sub_row"
  bd_groups :: "int \<rightharpoonup> bool"                     \<comment> \<open>whether it is deleted\<close>
  bd_keys :: "int \<rightharpoonup> key_row"
  bd_accounts :: "int \<rightharpoonup> account_row"
  bd_outbox :: "int list"                        \<comment> \<open>accounts whose change is to be announced\<close>

datatype 'e ub_error =
    ErrUsageBillingRequestIDRequired
  | ErrUsageBillingRequestConflict
  | UbSubscriptionNotFound
  | UbUserNotFound
  | UbAPIKeyNotFound
  | UbAccountNotFound
  | ErrBatchImageInsufficientBalance
  | ErrBatchImageSettlementCostExceedsHold
  | UbFrozenInsufficient
  | UbDatabase 'e

datatype bill_stmt =
    StBegin | StClaim | StSelectClaim | StSelectArchive | StSubscription | StBalance | StOverdraft
  | StKeyQuota | StKeyRate | StAccountQuota | StOutbox | StHold | StUserExists | StHeld | StHeldArchive

type_synonym 'e faults = "bill_stmt \<Rightarrow> 'e option"

datatype 'e commit = Committed | NotCommitted 'e | CommitLost 'e

definition stmt :: "'e faults \<Rightarrow> bill_stmt \<Rightarrow> 'e ub_error + 'a \<Rightarrow> 'e ub_error + 'a" where
  "stmt flt s k = (case flt s of Some e \<Rightarrow> Inl (UbDatabase e) | None \<Rightarrow> k)"

definition bindE :: "'x + 'a \<Rightarrow> ('a \<Rightarrow> 'x + 'b) \<Rightarrow> 'x + 'b" where
  "bindE m f = (case m of Inl e \<Rightarrow> Inl e | Inr v \<Rightarrow> f v)"

text \<open>The row an \<open>UPDATE\<close> by identifier finds.\<close>

definition live :: "('r \<Rightarrow> bool) \<Rightarrow> (int \<rightharpoonup> 'r) \<Rightarrow> int \<Rightarrow> 'r option" where
  "live deleted m i = (case m i of None \<Rightarrow> None | Some r \<Rightarrow> if deleted r then None else Some r)"

subsection \<open>Claiming a request\<close>

definition claimUsageBillingRequest ::
  "'e faults \<Rightarrow> instant \<Rightarrow> string \<Rightarrow> int \<Rightarrow> string \<Rightarrow> billing_db \<Rightarrow> 'e ub_error + bool \<times> billing_db" where
  "claimUsageBillingRequest flt now requestID apiKeyID requestFingerprint db = stmt flt StClaim
     (case bd_dedup db (requestID, apiKeyID) of
        Some (existingFingerprint, _) \<Rightarrow> stmt flt StSelectClaim
          (if TrimSpace existingFingerprint \<noteq> TrimSpace requestFingerprint
           then Inl ErrUsageBillingRequestConflict else Inr (False, db))
      | None \<Rightarrow>
          let db = db\<lparr>bd_dedup := (bd_dedup db)((requestID, apiKeyID) \<mapsto> (requestFingerprint, now))\<rparr>
          in stmt flt StSelectArchive
            (case bd_archive db (requestID, apiKeyID) of
               Some (archivedFingerprint, _) \<Rightarrow>
                 if TrimSpace archivedFingerprint \<noteq> TrimSpace requestFingerprint
                 then Inl ErrUsageBillingRequestConflict else Inr (False, db)
             | None \<Rightarrow> Inr (True, db)))"

text \<open>The body of a transaction and its end; \<open>None\<close> is a request that was applied before.\<close>

definition claimed ::
  "'e faults \<Rightarrow> instant \<Rightarrow> string \<Rightarrow> int \<Rightarrow> string \<Rightarrow> (billing_db \<Rightarrow> 'e ub_error + 'r \<times> billing_db) \<Rightarrow> billing_db
     \<Rightarrow> 'e ub_error + ('r \<times> billing_db) option" where
  "claimed flt now requestID apiKeyID fingerprint effects db =
     (if requestID = [] then Inl ErrUsageBillingRequestIDRequired
      else stmt flt StBegin
        (bindE (claimUsageBillingRequest flt now requestID apiKeyID fingerprint db)
          (\<lambda>(applied, db). if \<not> applied then Inr None else bindE (effects db) (\<lambda>r. Inr (Some r)))))"

definition finish ::
  "'e commit \<Rightarrow> 'r \<Rightarrow> 'e ub_error + ('r \<times> billing_db) option \<Rightarrow> billing_db \<Rightarrow> ('e ub_error + 'r) \<times> billing_db" where
  "finish c no body db =
     (case body of
        Inl e \<Rightarrow> (Inl e, db)
      | Inr None \<Rightarrow> (Inr no, db)
      | Inr (Some (r, db')) \<Rightarrow>
          (case c of Committed \<Rightarrow> (Inr r, db') | NotCommitted e \<Rightarrow> (Inl (UbDatabase e), db)
           | CommitLost e \<Rightarrow> (Inl (UbDatabase e), db')))"

subsection \<open>The effects of a command\<close>

definition incrementUsageBillingSubscription ::
  "'f bill_env \<Rightarrow> 'e faults \<Rightarrow> int \<Rightarrow> 'f \<Rightarrow> billing_db \<Rightarrow> 'e ub_error + billing_db" where
  "incrementUsageBillingSubscription env flt subscriptionID costUSD db = stmt flt StSubscription
     (let cost = mo_dec (en_ops env) costUSD in
      case live sr_deleted (bd_subs db) subscriptionID of
        None \<Rightarrow> Inl UbSubscriptionNotFound
      | Some r \<Rightarrow>
          if bd_groups db (sr_group r) \<noteq> Some False then Inl UbSubscriptionNotFound
          else Inr (db\<lparr>bd_subs := (bd_subs db)(subscriptionID \<mapsto> r
            \<lparr>sr_daily := numeric 10 (sr_daily r + cost), sr_weekly := numeric 10 (sr_weekly r + cost),
             sr_monthly := numeric 10 (sr_monthly r + cost)\<rparr>)\<rparr>))"

definition deductUsageBillingBalance ::
  "'f bill_env \<Rightarrow> 'e faults \<Rightarrow> int \<Rightarrow> 'f \<Rightarrow> billing_db \<Rightarrow> 'e ub_error + ('f \<times> bool) \<times> billing_db" where
  "deductUsageBillingBalance env flt userID amount db = stmt flt StBalance
     (let a = mo_dec (en_ops env) amount;
          deducted = (\<lambda>r. r\<lparr>ur_balance := numeric 8 (ur_balance r - a)\<rparr>);
          stored = (\<lambda>r. db\<lparr>bd_users := (bd_users db)(userID \<mapsto> deducted r)\<rparr>);
          newBalance = (\<lambda>r. mo_flt (en_ops env) (ur_balance (deducted r)))
      in case live ur_deleted (bd_users db) userID of
           Some r \<Rightarrow>
             if a \<le> ur_balance r then Inr ((newBalance r, True), stored r)
             else stmt flt StOverdraft (Inr ((newBalance r, False), stored r))
         | None \<Rightarrow> stmt flt StOverdraft (Inl UbUserNotFound))"

definition StatusAPIKeyActive :: string where
  "StatusAPIKeyActive = ''active''"

definition StatusAPIKeyQuotaExhausted :: string where
  "StatusAPIKeyQuotaExhausted = ''quota_exhausted''"

definition key_quota_row :: "rat \<Rightarrow> key_row \<Rightarrow> key_row" where
  "key_quota_row a r = r
     \<lparr>kr_quota_used := numeric 8 (kr_quota_used r + a),
      kr_status := (if 0 < kr_quota r \<and> kr_status r = StatusAPIKeyActive \<and> kr_quota_used r < kr_quota r
                       \<and> kr_quota r \<le> kr_quota_used r + a
                    then StatusAPIKeyQuotaExhausted else kr_status r)\<rparr>"

definition incrementUsageBillingAPIKeyQuota ::
  "'f bill_env \<Rightarrow> 'e faults \<Rightarrow> int \<Rightarrow> 'f \<Rightarrow> billing_db \<Rightarrow> 'e ub_error + bool \<times> billing_db" where
  "incrementUsageBillingAPIKeyQuota env flt apiKeyID amount db = stmt flt StKeyQuota
     (let a = mo_dec (en_ops env) amount in
      case live kr_deleted (bd_keys db) apiKeyID of
        None \<Rightarrow> Inl UbAPIKeyNotFound
      | Some r \<Rightarrow>
          let r = key_quota_row a r in
          Inr (0 < kr_quota r \<and> kr_quota r \<le> kr_quota_used r \<and> kr_quota_used r - a < kr_quota r,
               db\<lparr>bd_keys := (bd_keys db)(apiKeyID \<mapsto> r)\<rparr>))"

text \<open>One window of a key: its usage and start after an amount was added; \<open>start\<close> is where a new one begins.\<close>

definition key_window ::
  "(instant \<Rightarrow> instant) \<Rightarrow> instant \<Rightarrow> instant \<Rightarrow> rat \<Rightarrow> rat \<times> instant option \<Rightarrow> rat \<times> instant option" where
  "key_window until start now a = (\<lambda>(usage, window).
     (numeric 8 (case window of Some w \<Rightarrow> if until w \<le> now then a else usage + a | None \<Rightarrow> usage + a),
      Some (case window of Some w \<Rightarrow> if until w \<le> now then start else w | None \<Rightarrow> start)))"

definition incrementUsageBillingAPIKeyRateLimit ::
  "'f bill_env \<Rightarrow> 'e faults \<Rightarrow> instant \<Rightarrow> int \<Rightarrow> 'f \<Rightarrow> billing_db \<Rightarrow> 'e ub_error + billing_db" where
  "incrementUsageBillingAPIKeyRateLimit env flt now apiKeyID cost db = stmt flt StKeyRate
     (let a = mo_dec (en_ops env) cost in
      case live kr_deleted (bd_keys db) apiKeyID of
        None \<Rightarrow> Inl UbAPIKeyNotFound
      | Some r \<Rightarrow>
          let (u5, w5) = key_window (\<lambda>w. w + 5 * hour_ns) now now a (kr_usage_5h r, kr_window_5h r);
              (u1, w1) = key_window (\<lambda>w. w + 24 * hour_ns) (en_day env now) now a (kr_usage_1d r, kr_window_1d r);
              (u7, w7) = key_window (en_add_days env 7) (en_day env now) now a (kr_usage_7d r, kr_window_7d r)
          in Inr (db\<lparr>bd_keys := (bd_keys db)(apiKeyID \<mapsto> r
               \<lparr>kr_usage_5h := u5, kr_usage_1d := u1, kr_usage_7d := u7,
                kr_window_5h := w5, kr_window_1d := w1, kr_window_7d := w7\<rparr>)\<rparr>))"

subsection \<open>Quotas of accounts\<close>

abbreviation or_else :: "'a option \<Rightarrow> 'a \<Rightarrow> 'a" where
  "or_else x d \<equiv> (case x of None \<Rightarrow> d | Some v \<Rightarrow> v)"

definition dailyExpiredExpr :: "instant \<Rightarrow> account_extra \<Rightarrow> bool" where
  "dailyExpiredExpr now x =
     (if or_else (ax_daily_mode x) ''rolling'' = ''fixed'' then or_else (ax_daily_reset_at x) 0 \<le> now
      else or_else (ax_daily_start x) 0 + 24 * hour_ns \<le> now)"

definition weeklyExpiredExpr :: "instant \<Rightarrow> account_extra \<Rightarrow> bool" where
  "weeklyExpiredExpr now x =
     (if or_else (ax_weekly_mode x) ''rolling'' = ''fixed'' then or_else (ax_weekly_reset_at x) 0 \<le> now
      else or_else (ax_weekly_start x) 0 + 168 * hour_ns \<le> now)"

abbreviation day_ns :: int where
  "day_ns \<equiv> 24 * hour_ns"

definition local_midnight :: "'f bill_env \<Rightarrow> instant \<Rightarrow> account_extra \<Rightarrow> int" where
  "local_midnight env now x =
     (let t = en_local env (or_else (ax_timezone x) ''UTC'') now in t - t mod day_ns)"

definition to_seconds :: "instant \<Rightarrow> instant" where
  "to_seconds t = t - t mod second_ns"

definition nextDailyResetAtExpr :: "'f bill_env \<Rightarrow> instant \<Rightarrow> account_extra \<Rightarrow> instant option" where
  "nextDailyResetAtExpr env now x =
     (if or_else (ax_daily_mode x) ''rolling'' = ''fixed'' then
        let utc = en_utc env (or_else (ax_timezone x) ''UTC'');
            today = local_midnight env now x + or_else (ax_daily_hour x) 0 * hour_ns
        in Some (to_seconds (if utc today \<le> now then utc (today + day_ns) else utc today))
      else None)"

definition nextWeeklyResetAtExpr :: "'f bill_env \<Rightarrow> instant \<Rightarrow> account_extra \<Rightarrow> instant option" where
  "nextWeeklyResetAtExpr env now x =
     (if or_else (ax_weekly_mode x) ''rolling'' = ''fixed'' then
        let utc = en_utc env (or_else (ax_timezone x) ''UTC'');
            midnight = local_midnight env now x;
            dow = (midnight div day_ns + 4) mod 7;
            today = midnight + or_else (ax_weekly_hour x) 0 * hour_ns;
            days_forward = (or_else (ax_weekly_day x) 1 - dow + 7) smod 7
        in Some (to_seconds (if days_forward = 0 \<and> utc today \<le> now then utc (today + 7 * day_ns)
                             else utc (today + days_forward * day_ns)))
      else None)"

definition account_quota_extra :: "'f bill_env \<Rightarrow> instant \<Rightarrow> rat \<Rightarrow> account_extra \<Rightarrow> account_extra" where
  "account_quota_extra env now a x =
     (let daily = 0 < or_else (ax_daily_limit x) 0; dexp = dailyExpiredExpr now x;
          weekly = 0 < or_else (ax_weekly_limit x) 0; wexp = weeklyExpiredExpr now x;
          x1 = x\<lparr>ax_quota_used := Some (or_else (ax_quota_used x) 0 + a)\<rparr>;
          x2 = (if \<not> daily then x1 else
            let y = x1\<lparr>ax_daily_used := Some (if dexp then a else or_else (ax_daily_used x) 0 + a),
                       ax_daily_start := Some (if dexp then now else or_else (ax_daily_start x) now)\<rparr>
            in case nextDailyResetAtExpr env now x of
                 Some t \<Rightarrow> if dexp then y\<lparr>ax_daily_reset_at := Some t\<rparr> else y
               | None \<Rightarrow> y)
      in if \<not> weekly then x2 else
           let y = x2\<lparr>ax_weekly_used := Some (if wexp then a else or_else (ax_weekly_used x) 0 + a),
                      ax_weekly_start := Some (if wexp then now else or_else (ax_weekly_start x) now)\<rparr>
           in case nextWeeklyResetAtExpr env now x of
                Some t \<Rightarrow> if wexp then y\<lparr>ax_weekly_reset_at := Some t\<rparr> else y
              | None \<Rightarrow> y)"

definition quota_state :: "'f money_ops \<Rightarrow> account_extra \<Rightarrow> 'f AccountQuotaState" where
  "quota_state ops x =
     (let scan = (\<lambda>v. mo_flt ops (or_else v 0)) in
      \<lparr>aq_TotalUsed = scan (ax_quota_used x), aq_TotalLimit = scan (ax_quota_limit x),
       aq_DailyUsed = scan (ax_daily_used x), aq_DailyLimit = scan (ax_daily_limit x),
       aq_WeeklyUsed = scan (ax_weekly_used x), aq_WeeklyLimit = scan (ax_weekly_limit x)\<rparr>)"

definition crossed :: "'f money_ops \<Rightarrow> 'f \<Rightarrow> 'f \<Rightarrow> 'f \<Rightarrow> bool" where
  "crossed ops amount used limit \<longleftrightarrow>
     pos ops limit \<and> \<not> mo_lt ops used limit \<and> mo_lt ops (mo_sub ops used amount) limit"

definition enqueueSchedulerOutbox :: "int \<Rightarrow> billing_db \<Rightarrow> billing_db" where
  "enqueueSchedulerOutbox accountID db =
     (if accountID \<in> set (bd_outbox db) then db else db\<lparr>bd_outbox := bd_outbox db @ [accountID]\<rparr>)"

definition incrementUsageBillingAccountQuota ::
  "'f bill_env \<Rightarrow> 'e faults \<Rightarrow> instant \<Rightarrow> int \<Rightarrow> 'f \<Rightarrow> billing_db \<Rightarrow> 'e ub_error + 'f AccountQuotaState \<times> billing_db" where
  "incrementUsageBillingAccountQuota env flt now accountID amount db = stmt flt StAccountQuota
     (let ops = en_ops env in
      case live ar_deleted (bd_accounts db) accountID of
        None \<Rightarrow> Inl UbAccountNotFound
      | Some r \<Rightarrow>
          let x = account_quota_extra env now (mo_dec ops amount) (ar_extra r);
              db = db\<lparr>bd_accounts := (bd_accounts db)(accountID \<mapsto> r\<lparr>ar_extra := x\<rparr>)\<rparr>;
              state = quota_state ops x
          in if crossed ops amount (aq_TotalUsed state) (aq_TotalLimit state)
                \<or> crossed ops amount (aq_DailyUsed state) (aq_DailyLimit state)
                \<or> crossed ops amount (aq_WeeklyUsed state) (aq_WeeklyLimit state)
             then stmt flt StOutbox (Inr (state, enqueueSchedulerOutbox accountID db))
             else Inr (state, db))"

text \<open>
  \<open>strings.EqualFold\<close> with a constant of lower-case letters: besides the two cases of a letter, the Kelvin
  sign folds to \<open>k\<close> and the long s to \<open>s\<close>.
\<close>

definition lower_letter :: "char \<Rightarrow> char" where
  "lower_letter c = (let n = of_char c :: nat in if 65 \<le> n \<and> n \<le> 90 then char_of (n + 32) else c)"

function EqualFold :: "string \<Rightarrow> string \<Rightarrow> bool" where
  "EqualFold s [] = (s = [])"
| "EqualFold s (d # ds) =
     ((s \<noteq> [] \<and> lower_letter (hd s) = d \<and> EqualFold (tl s) ds)
      \<or> (d = CHR ''k'' \<and> take 3 s = map char_of [226, 132, 170 :: nat] \<and> EqualFold (drop 3 s) ds)
      \<or> (d = CHR ''s'' \<and> take 2 s = map char_of [197, 191 :: nat] \<and> EqualFold (drop 2 s) ds))"
  by pat_completeness auto
termination by (relation "measure (length \<circ> snd)") auto

definition AccountTypeAPIKey :: string where
  "AccountTypeAPIKey = ''apikey''"

definition AccountTypeBedrock :: string where
  "AccountTypeBedrock = ''bedrock''"

subsection \<open>Applying a command\<close>

definition effect_subscription ::
  "'f bill_env \<Rightarrow> 'e faults \<Rightarrow> 'f UsageBillingCommand \<Rightarrow> billing_db \<Rightarrow> 'e ub_error + billing_db" where
  "effect_subscription env flt cmd db =
     (case uc_SubscriptionID cmd of
        Some sid \<Rightarrow>
          if pos (en_ops env) (uc_SubscriptionCost cmd)
          then incrementUsageBillingSubscription env flt sid (uc_SubscriptionCost cmd) db else Inr db
      | None \<Rightarrow> Inr db)"

definition applyUsageBillingEffects ::
  "'f bill_env \<Rightarrow> 'e faults \<Rightarrow> instant \<Rightarrow> 'f UsageBillingCommand \<Rightarrow> 'f UsageBillingApplyResult \<Rightarrow> billing_db
     \<Rightarrow> 'e ub_error + 'f UsageBillingApplyResult \<times> billing_db" where
  "applyUsageBillingEffects env flt now cmd result db =
     (let ops = en_ops env in
      bindE (effect_subscription env flt cmd db) (\<lambda>db.
      bindE (if pos ops (uc_BalanceCost cmd)
             then bindE (deductUsageBillingBalance env flt (uc_UserID cmd) (uc_BalanceCost cmd) db)
               (\<lambda>((newBalance, sufficient), db).
                  Inr (result\<lparr>ua_NewBalance := Some newBalance, ua_BalanceOverdrafted := \<not> sufficient\<rparr>, db))
             else Inr (result, db)) (\<lambda>(result, db).
      bindE (if pos ops (uc_APIKeyQuotaCost cmd)
             then bindE (incrementUsageBillingAPIKeyQuota env flt (uc_APIKeyID cmd) (uc_APIKeyQuotaCost cmd) db)
               (\<lambda>(exhausted, db). Inr (result\<lparr>ua_APIKeyQuotaExhausted := exhausted\<rparr>, db))
             else Inr (result, db)) (\<lambda>(result, db).
      bindE (if pos ops (uc_APIKeyRateLimitCost cmd)
             then incrementUsageBillingAPIKeyRateLimit env flt now (uc_APIKeyID cmd) (uc_APIKeyRateLimitCost cmd) db
             else Inr db) (\<lambda>db.
      if pos ops (uc_AccountQuotaCost cmd)
         \<and> (EqualFold (uc_AccountType cmd) AccountTypeAPIKey \<or> EqualFold (uc_AccountType cmd) AccountTypeBedrock)
      then bindE (incrementUsageBillingAccountQuota env flt now (uc_AccountID cmd) (uc_AccountQuotaCost cmd) db)
        (\<lambda>(quotaState, db). Inr (result\<lparr>ua_QuotaState := Some quotaState\<rparr>, db))
      else Inr (result, db))))))"

definition no_result :: "'f UsageBillingApplyResult" where
  "no_result = \<lparr>ua_Applied = False, ua_APIKeyQuotaExhausted = False, ua_NewBalance = None,
     ua_BalanceOverdrafted = False, ua_QuotaState = None\<rparr>"

definition apply_tx ::
  "'f bill_env \<Rightarrow> 'e faults \<Rightarrow> instant \<Rightarrow> 'f UsageBillingCommand \<Rightarrow> billing_db
     \<Rightarrow> 'e ub_error + ('f UsageBillingApplyResult \<times> billing_db) option" where
  "apply_tx env flt now cmd db =
     (let cmd = Normalize env cmd in
      claimed flt now (uc_RequestID cmd) (uc_APIKeyID cmd) (uc_RequestFingerprint cmd)
        (applyUsageBillingEffects env flt now cmd (no_result\<lparr>ua_Applied := True\<rparr>)) db)"

definition Apply ::
  "'f bill_env \<Rightarrow> 'e faults \<Rightarrow> 'e commit \<Rightarrow> instant \<Rightarrow> 'f UsageBillingCommand option \<Rightarrow> billing_db
     \<Rightarrow> ('e ub_error + 'f UsageBillingApplyResult) \<times> billing_db" where
  "Apply env flt commit now cmd db =
     (case cmd of
        None \<Rightarrow> (Inr no_result, db)
      | Some cmd \<Rightarrow> finish commit no_result (apply_tx env flt now cmd db) db)"

subsection \<open>Holds of batch jobs\<close>

definition no_hold_result :: "'f BatchImageBalanceHoldResult" where
  "no_hold_result = \<lparr>hr_Applied = False, hr_NewBalance = None, hr_FrozenBalance = None\<rparr>"

definition userExistsForBilling :: "int \<Rightarrow> billing_db \<Rightarrow> bool" where
  "userExistsForBilling userID db = (live ur_deleted (bd_users db) userID \<noteq> None)"

definition batchImageHoldClaimExists ::
  "'e faults \<Rightarrow> string \<Rightarrow> int \<Rightarrow> billing_db \<Rightarrow> 'e ub_error + bool" where
  "batchImageHoldClaimExists flt holdRequestID apiKeyID db = stmt flt StHeld
     (if bd_dedup db (holdRequestID, apiKeyID) \<noteq> None then Inr True
      else stmt flt StHeldArchive (Inr (bd_archive db (holdRequestID, apiKeyID) \<noteq> None)))"

text \<open>The update of the user's row the three operations share, and what they report when it finds none.\<close>

definition hold_update ::
  "'f bill_env \<Rightarrow> 'e faults \<Rightarrow> int \<Rightarrow> (user_row \<Rightarrow> bool) \<Rightarrow> (user_row \<Rightarrow> user_row) \<Rightarrow> 'e ub_error \<Rightarrow> billing_db
     \<Rightarrow> 'e ub_error + 'f BatchImageBalanceHoldResult \<times> billing_db" where
  "hold_update env flt userID cond upd otherwise db = stmt flt StHold
     (case live ur_deleted (bd_users db) userID of
        Some r \<Rightarrow>
          if cond r then
            let r = upd r; scan = mo_flt (en_ops env) in
            Inr (no_hold_result\<lparr>hr_NewBalance := Some (scan (ur_balance r)), hr_FrozenBalance := Some (scan (ur_frozen r))\<rparr>,
                 db\<lparr>bd_users := (bd_users db)(userID \<mapsto> r)\<rparr>)
          else stmt flt StUserExists (Inl (if userExistsForBilling userID db then otherwise else UbUserNotFound))
      | None \<Rightarrow> stmt flt StUserExists (Inl (if userExistsForBilling userID db then otherwise else UbUserNotFound)))"

definition reserveUsageBillingBatchImageBalance ::
  "'f bill_env \<Rightarrow> 'e faults \<Rightarrow> 'f BatchImageBalanceHoldCommand \<Rightarrow> billing_db
     \<Rightarrow> 'e ub_error + 'f BatchImageBalanceHoldResult \<times> billing_db" where
  "reserveUsageBillingBatchImageBalance env flt cmd db =
     (if \<not> pos (en_ops env) (hc_HoldAmount cmd) then Inr (no_hold_result, db)
      else let a = mo_dec (en_ops env) (hc_HoldAmount cmd) in
           hold_update env flt (hc_UserID cmd) (\<lambda>r. a \<le> ur_balance r)
             (\<lambda>r. r\<lparr>ur_balance := numeric 8 (ur_balance r - a), ur_frozen := numeric 8 (ur_frozen r + a)\<rparr>)
             ErrBatchImageInsufficientBalance db)"

definition captureUsageBillingBatchImageBalance ::
  "'f bill_env \<Rightarrow> 'e faults \<Rightarrow> 'f BatchImageBalanceHoldCommand \<Rightarrow> billing_db
     \<Rightarrow> 'e ub_error + 'f BatchImageBalanceHoldResult \<times> billing_db" where
  "captureUsageBillingBatchImageBalance env flt cmd db =
     (let ops = en_ops env in
      if \<not> pos ops (hc_HoldAmount cmd) \<and> \<not> pos ops (hc_ActualAmount cmd) then Inr (no_hold_result, db)
      else if mo_lt ops (mo_flt ops (1 / 10 ^ 8)) (mo_sub ops (hc_ActualAmount cmd) (hc_HoldAmount cmd))
      then Inl ErrBatchImageSettlementCostExceedsHold
      else let h = mo_dec ops (hc_HoldAmount cmd); a = mo_dec ops (hc_ActualAmount cmd) in
           hold_update env flt (hc_UserID cmd) (\<lambda>r. h \<le> ur_frozen r)
             (\<lambda>r. r\<lparr>ur_balance := numeric 8 (ur_balance r + (if a < h then h - a else 0) - (if h < a then a - h else 0)),
                    ur_frozen := numeric 8 (ur_frozen r - h)\<rparr>)
             UbFrozenInsufficient db)"

definition releaseUsageBillingBatchImageBalance ::
  "'f bill_env \<Rightarrow> 'e faults \<Rightarrow> 'f BatchImageBalanceHoldCommand \<Rightarrow> billing_db
     \<Rightarrow> 'e ub_error + 'f BatchImageBalanceHoldResult \<times> billing_db" where
  "releaseUsageBillingBatchImageBalance env flt cmd db =
     (if \<not> pos (en_ops env) (hc_HoldAmount cmd) then Inr (no_hold_result, db)
      else bindE (batchImageHoldClaimExists flt (BatchImageHoldRequestID (hc_BatchID cmd)) (hc_APIKeyID cmd) db) (\<lambda>held.
        if \<not> held then Inr (no_hold_result, db)
        else let a = mo_dec (en_ops env) (hc_HoldAmount cmd) in
             hold_update env flt (hc_UserID cmd) (\<lambda>r. a \<le> ur_frozen r)
               (\<lambda>r. r\<lparr>ur_balance := numeric 8 (ur_balance r + a), ur_frozen := numeric 8 (ur_frozen r - a)\<rparr>)
               UbFrozenInsufficient db))"

datatype hold_kind = Reserve | Capture | Release

definition hold_effect ::
  "hold_kind \<Rightarrow> 'f bill_env \<Rightarrow> 'e faults \<Rightarrow> 'f BatchImageBalanceHoldCommand \<Rightarrow> billing_db
     \<Rightarrow> 'e ub_error + 'f BatchImageBalanceHoldResult \<times> billing_db" where
  "hold_effect k = (case k of Reserve \<Rightarrow> reserveUsageBillingBatchImageBalance
     | Capture \<Rightarrow> captureUsageBillingBatchImageBalance | Release \<Rightarrow> releaseUsageBillingBatchImageBalance)"

definition hold_tx ::
  "hold_kind \<Rightarrow> 'f bill_env \<Rightarrow> 'e faults \<Rightarrow> instant \<Rightarrow> 'f BatchImageBalanceHoldCommand \<Rightarrow> billing_db
     \<Rightarrow> 'e ub_error + ('f BatchImageBalanceHoldResult \<times> billing_db) option" where
  "hold_tx k env flt now cmd db =
     (let cmd = Normalize_hold env cmd in
      claimed flt now (hc_RequestID cmd) (hc_APIKeyID cmd) (hc_RequestFingerprint cmd)
        (\<lambda>db. bindE (hold_effect k env flt cmd db) (\<lambda>(r, db). Inr (r\<lparr>hr_Applied := True\<rparr>, db))) db)"

definition applyBatchImageBalanceHold ::
  "hold_kind \<Rightarrow> 'f bill_env \<Rightarrow> 'e faults \<Rightarrow> 'e commit \<Rightarrow> instant \<Rightarrow> 'f BatchImageBalanceHoldCommand option \<Rightarrow> billing_db
     \<Rightarrow> ('e ub_error + 'f BatchImageBalanceHoldResult) \<times> billing_db" where
  "applyBatchImageBalanceHold k env flt commit now cmd db =
     (case cmd of
        None \<Rightarrow> (Inr no_hold_result, db)
      | Some cmd \<Rightarrow> finish commit no_hold_result (hold_tx k env flt now cmd db) db)"

definition ReserveBatchImageBalance where
  "ReserveBatchImageBalance = applyBatchImageBalanceHold Reserve"

definition CaptureBatchImageBalance where
  "CaptureBatchImageBalance = applyBatchImageBalanceHold Capture"

definition ReleaseBatchImageBalance where
  "ReleaseBatchImageBalance = applyBatchImageBalanceHold Release"

subsection \<open>Archiving keys\<close>

text \<open>One statement; \<open>LIMIT\<close> without an order picks any rows, so the rows are an argument.\<close>

definition archive_batch :: "instant \<Rightarrow> nat \<Rightarrow> bill_key list \<Rightarrow> billing_db \<Rightarrow> billing_db \<times> nat" where
  "archive_batch cutoff limit picked db =
     (let victims = take limit (remdups (filter (\<lambda>k. case bd_dedup db k of Some (_, created) \<Rightarrow> created < cutoff | None \<Rightarrow> False) picked))
      in (db\<lparr>bd_archive := (\<lambda>k. if k \<in> set victims \<and> bd_archive db k = None then bd_dedup db k else bd_archive db k),
             bd_dedup := (\<lambda>k. if k \<in> set victims then None else bd_dedup db k)\<rparr>,
          length victims))"

definition usageBillingDedupCleanupBatchSize :: nat where
  "usageBillingDedupCleanupBatchSize = 10000"

text \<open>The loop over batches, for as many statements as there are outcomes given; a fault ends it.\<close>

fun CleanupUsageBillingDedup :: "instant \<Rightarrow> ('e + bill_key list) list \<Rightarrow> billing_db \<Rightarrow> 'e option \<times> billing_db" where
  "CleanupUsageBillingDedup cutoff [] db = (None, db)"
| "CleanupUsageBillingDedup cutoff (Inl e # rest) db = (Some e, db)"
| "CleanupUsageBillingDedup cutoff (Inr picked # rest) db =
     (let (db, affected) = archive_batch cutoff usageBillingDedupCleanupBatchSize picked db
      in if affected < usageBillingDedupCleanupBatchSize then (None, db)
         else CleanupUsageBillingDedup cutoff rest db)"

subsection \<open>Calls of the batch service\<close>

record 'f BatchImageJob =
  bj_BatchID :: string
  bj_UserID :: int
  bj_APIKeyID :: "int option"
  bj_EstimatedCost :: 'f
  bj_HoldAmount :: "'f option"

datatype 'e hold_error =
    ErrBatchImageSettlementMissingAPIKeyID
  | HoldInsufficientBalance
  | ErrBatchImageBillingHoldFailed "'e ub_error"
  | ErrBatchImageSettlementBillingFailed "'e ub_error"

definition buildBatchImageHoldCommand ::
  "'f money_ops \<Rightarrow> 'f BatchImageJob \<Rightarrow> string \<Rightarrow> 'f \<Rightarrow> string \<Rightarrow> 'e hold_error + 'f BatchImageBalanceHoldCommand" where
  "buildBatchImageHoldCommand ops job requestID actualAmount payloadHash =
     (let zero = mo_flt ops 0;
          atLeastZero = (\<lambda>v. if mo_lt ops v zero then zero else v) in
      case bj_APIKeyID job of
        None \<Rightarrow> Inl ErrBatchImageSettlementMissingAPIKeyID
      | Some key \<Rightarrow>
          if key \<le> 0 then Inl ErrBatchImageSettlementMissingAPIKeyID
          else Inr \<lparr>hc_RequestID = requestID, hc_APIKeyID = key, hc_RequestFingerprint = [],
                 hc_RequestPayloadHash = TrimSpace payloadHash, hc_UserID = bj_UserID job, hc_BatchID = bj_BatchID job,
                 hc_HoldAmount = atLeastZero (case bj_HoldAmount job of Some h \<Rightarrow> h | None \<Rightarrow> bj_EstimatedCost job),
                 hc_ActualAmount = atLeastZero actualAmount\<rparr>)"

definition reserveBatchImageBalanceHold ::
  "'f bill_env \<Rightarrow> 'e faults \<Rightarrow> 'e commit \<Rightarrow> instant \<Rightarrow> 'f BatchImageJob \<Rightarrow> string \<Rightarrow> billing_db
     \<Rightarrow> 'e hold_error option \<times> billing_db" where
  "reserveBatchImageBalanceHold env flt commit now job payloadHash db =
     (case buildBatchImageHoldCommand (en_ops env) job (BatchImageHoldRequestID (bj_BatchID job)) (mo_flt (en_ops env) 0) payloadHash of
        Inl e \<Rightarrow> (Some e, db)
      | Inr cmd \<Rightarrow>
          if \<not> pos (en_ops env) (hc_HoldAmount cmd) then (None, db)
          else (case ReserveBatchImageBalance env flt commit now (Some cmd) db of
                  (Inl ErrBatchImageInsufficientBalance, db) \<Rightarrow> (Some HoldInsufficientBalance, db)
                | (Inl e, db) \<Rightarrow> (Some (ErrBatchImageBillingHoldFailed e), db)
                | (Inr _, db) \<Rightarrow> (None, db)))"

definition captureBatchImageBalanceHold ::
  "'f bill_env \<Rightarrow> 'e faults \<Rightarrow> 'e commit \<Rightarrow> instant \<Rightarrow> 'f BatchImageJob \<Rightarrow> 'f \<Rightarrow> string \<Rightarrow> billing_db
     \<Rightarrow> 'e hold_error option \<times> billing_db" where
  "captureBatchImageBalanceHold env flt commit now job actualAmount payloadHash db =
     (case buildBatchImageHoldCommand (en_ops env) job (BatchImageCaptureRequestID (bj_BatchID job)) actualAmount payloadHash of
        Inl e \<Rightarrow> (Some e, db)
      | Inr cmd \<Rightarrow>
          (case CaptureBatchImageBalance env flt commit now (Some cmd) db of
             (Inl e, db) \<Rightarrow> (Some (ErrBatchImageSettlementBillingFailed e), db)
           | (Inr _, db) \<Rightarrow> (None, db)))"

definition releaseBatchImageBalanceHold ::
  "'f bill_env \<Rightarrow> 'e faults \<Rightarrow> 'e commit \<Rightarrow> instant \<Rightarrow> 'f BatchImageJob option \<Rightarrow> string \<Rightarrow> billing_db
     \<Rightarrow> 'e hold_error option \<times> billing_db" where
  "releaseBatchImageBalanceHold env flt commit now job payloadHash db =
     (case job of
        None \<Rightarrow> (None, db)
      | Some job \<Rightarrow>
          (case buildBatchImageHoldCommand (en_ops env) job (BatchImageReleaseRequestID (bj_BatchID job)) (mo_flt (en_ops env) 0) payloadHash of
             Inl e \<Rightarrow> (Some e, db)
           | Inr cmd \<Rightarrow>
               if \<not> pos (en_ops env) (hc_HoldAmount cmd) then (None, db)
               else (case ReleaseBatchImageBalance env flt commit now (Some cmd) db of
                       (Inl ErrUsageBillingRequestConflict, db) \<Rightarrow> (None, db)
                     | (Inl e, db) \<Rightarrow> (Some (ErrBatchImageBillingHoldFailed e), db)
                     | (Inr _, db) \<Rightarrow> (None, db))))"

subsection \<open>Runs\<close>

datatype ('e, 'f) bill_op =
    OpApply "'e faults" "'e commit" instant "'f UsageBillingCommand"
  | OpHold hold_kind "'e faults" "'e commit" instant "'f BatchImageBalanceHoldCommand"
  | OpArchive instant "('e + bill_key list) list"

text \<open>What a committed transaction did, with the normalised command.\<close>

datatype 'f bill_entry = Charged "'f UsageBillingCommand" | Held hold_kind "'f BatchImageBalanceHoldCommand"

fun entry_key :: "'f bill_entry \<Rightarrow> bill_key" where
  "entry_key (Charged c) = (uc_RequestID c, uc_APIKeyID c)"
| "entry_key (Held k c) = (hc_RequestID c, hc_APIKeyID c)"

definition committed :: "'e commit \<Rightarrow> 'x \<Rightarrow> 'e ub_error + ('r \<times> billing_db) option \<Rightarrow> 'x list" where
  "committed c x body =
     (case body of Inr (Some _) \<Rightarrow> (case c of NotCommitted _ \<Rightarrow> [] | _ \<Rightarrow> [x]) | _ \<Rightarrow> [])"

fun bill_step :: "'f bill_env \<Rightarrow> billing_db \<Rightarrow> ('e, 'f) bill_op \<Rightarrow> billing_db \<times> 'f bill_entry list" where
  "bill_step env db (OpApply flt c now cmd) =
     (snd (Apply env flt c now (Some cmd) db), committed c (Charged (Normalize env cmd)) (apply_tx env flt now cmd db))"
| "bill_step env db (OpHold k flt c now cmd) =
     (snd (applyBatchImageBalanceHold k env flt c now (Some cmd) db),
      committed c (Held k (Normalize_hold env cmd)) (hold_tx k env flt now cmd db))"
| "bill_step env db (OpArchive cutoff batches) = (snd (CleanupUsageBillingDedup cutoff batches db), [])"

abbreviation seen_keys :: "billing_db \<Rightarrow> bill_key set" where
  "seen_keys db \<equiv> dom (bd_dedup db) \<union> dom (bd_archive db)"

subsection \<open>Claims\<close>

lemma claim_cases:
  assumes "claimUsageBillingRequest flt now rid key fp db = Inr (applied, db')"
  shows "if applied then (rid, key) \<notin> seen_keys db \<and> db' = db\<lparr>bd_dedup := (bd_dedup db)((rid, key) \<mapsto> (fp, now))\<rparr>
         else (rid, key) \<in> seen_keys db"
  using assms
  by (auto simp: claimUsageBillingRequest_def stmt_def Let_def split: option.splits if_splits prod.splits)

lemma claimed_SomeD:
  assumes "claimed flt now rid key fp effects db = Inr (Some (r, db'))"
  shows "(rid, key) \<notin> seen_keys db \<and> effects (db\<lparr>bd_dedup := (bd_dedup db)((rid, key) \<mapsto> (fp, now))\<rparr>) = Inr (r, db')"
  using assms
  by (auto simp: claimed_def stmt_def bindE_def dest!: claim_cases split: if_splits option.splits sum.splits)

lemma claimed_NoneD:
  assumes "claimed flt now rid key fp effects db = Inr None"
  shows "(rid, key) \<in> seen_keys db"
  using assms
  by (auto simp: claimed_def stmt_def bindE_def dest!: claim_cases split: if_splits option.splits sum.splits)

lemma bindE_Inr: "bindE m f = Inr y \<longleftrightarrow> (\<exists>x. m = Inr x \<and> f x = Inr y)"
  by (cases m) (simp_all add: bindE_def)

lemma stmt_Inr: "stmt flt s k = Inr y \<longleftrightarrow> flt s = None \<and> k = Inr y"
  by (simp add: stmt_def split: option.split)

lemma subscription_Inr:
  assumes "incrementUsageBillingSubscription env flt sid cost db = Inr db'"
  shows "\<exists>r. bd_subs db sid = Some r \<and> \<not> sr_deleted r \<and>
    db' = db\<lparr>bd_subs := (bd_subs db)(sid \<mapsto> r
      \<lparr>sr_daily := numeric 10 (sr_daily r + mo_dec (en_ops env) cost), sr_weekly := numeric 10 (sr_weekly r + mo_dec (en_ops env) cost),
       sr_monthly := numeric 10 (sr_monthly r + mo_dec (en_ops env) cost)\<rparr>)\<rparr>"
  using assms
  by (auto simp: incrementUsageBillingSubscription_def stmt_Inr Let_def live_def split: option.splits if_splits)

lemma balance_Inr:
  assumes "deductUsageBillingBalance env flt uid amount db = Inr ((nb, ok), db')"
  shows "\<exists>r. bd_users db uid = Some r \<and> \<not> ur_deleted r \<and> ok = (mo_dec (en_ops env) amount \<le> ur_balance r) \<and>
    nb = mo_flt (en_ops env) (numeric 8 (ur_balance r - mo_dec (en_ops env) amount)) \<and>
    db' = db\<lparr>bd_users := (bd_users db)(uid \<mapsto> r\<lparr>ur_balance := numeric 8 (ur_balance r - mo_dec (en_ops env) amount)\<rparr>)\<rparr>"
  using assms
  by (auto simp: deductUsageBillingBalance_def stmt_Inr Let_def live_def split: option.splits if_splits)

lemma key_quota_Inr:
  assumes "incrementUsageBillingAPIKeyQuota env flt kid amount db = Inr (ex, db')"
  shows "\<exists>r. bd_keys db kid = Some r \<and> \<not> kr_deleted r \<and>
    db' = db\<lparr>bd_keys := (bd_keys db)(kid \<mapsto> key_quota_row (mo_dec (en_ops env) amount) r)\<rparr>"
  using assms
  by (auto simp: incrementUsageBillingAPIKeyQuota_def stmt_Inr Let_def live_def split: option.splits if_splits)

lemma key_rate_Inr:
  assumes "incrementUsageBillingAPIKeyRateLimit env flt now kid cost db = Inr db'"
  shows "\<exists>r r'. bd_keys db kid = Some r \<and> \<not> kr_deleted r \<and> db' = db\<lparr>bd_keys := (bd_keys db)(kid \<mapsto> r')\<rparr> \<and>
    kr_quota_used r' = kr_quota_used r \<and> kr_quota r' = kr_quota r \<and> kr_status r' = kr_status r \<and> kr_deleted r' = kr_deleted r"
  using assms
  by (auto simp: incrementUsageBillingAPIKeyRateLimit_def stmt_Inr Let_def live_def split: option.splits if_splits prod.splits)

lemma account_quota_Inr:
  assumes "incrementUsageBillingAccountQuota env flt now aid amount db = Inr (st, db')"
  shows "bd_dedup db' = bd_dedup db \<and> bd_archive db' = bd_archive db \<and> bd_users db' = bd_users db \<and>
    bd_subs db' = bd_subs db \<and> bd_groups db' = bd_groups db \<and> bd_keys db' = bd_keys db"
  using assms
  by (auto simp: incrementUsageBillingAccountQuota_def stmt_Inr Let_def enqueueSchedulerOutbox_def split: option.splits if_splits)

text \<open>What the effects of a command do to users, subscriptions and the quotas of keys.\<close>

definition charged_users :: "'f money_ops \<Rightarrow> 'f UsageBillingCommand \<Rightarrow> (int \<rightharpoonup> user_row) \<Rightarrow> (int \<rightharpoonup> user_row)" where
  "charged_users ops c m = (if pos ops (uc_BalanceCost c) then
     m(uc_UserID c := map_option (\<lambda>r. r\<lparr>ur_balance := numeric 8 (ur_balance r - mo_dec ops (uc_BalanceCost c))\<rparr>) (m (uc_UserID c)))
   else m)"

definition used_quota :: "'f money_ops \<Rightarrow> 'f UsageBillingCommand \<Rightarrow> (int \<rightharpoonup> rat) \<Rightarrow> (int \<rightharpoonup> rat)" where
  "used_quota ops c m = (if pos ops (uc_APIKeyQuotaCost c) then
     m(uc_APIKeyID c := map_option (\<lambda>u. numeric 8 (u + mo_dec ops (uc_APIKeyQuotaCost c))) (m (uc_APIKeyID c)))
   else m)"

definition used_subscription :: "'f money_ops \<Rightarrow> 'f UsageBillingCommand \<Rightarrow> (int \<rightharpoonup> rat \<times> rat \<times> rat) \<Rightarrow> (int \<rightharpoonup> rat \<times> rat \<times> rat)" where
  "used_subscription ops c m =
     (let add = (\<lambda>u. numeric 10 (u + mo_dec ops (uc_SubscriptionCost c))) in
      case uc_SubscriptionID c of
        Some sid \<Rightarrow> if pos ops (uc_SubscriptionCost c)
          then m(sid := map_option (\<lambda>(d, w, mth). (add d, add w, add mth)) (m sid)) else m
      | None \<Rightarrow> m)"

abbreviation key_quotas :: "billing_db \<Rightarrow> int \<rightharpoonup> rat" where
  "key_quotas db \<equiv> map_option kr_quota_used \<circ> bd_keys db"

abbreviation sub_usages :: "billing_db \<Rightarrow> int \<rightharpoonup> rat \<times> rat \<times> rat" where
  "sub_usages db \<equiv> map_option (\<lambda>r. (sr_daily r, sr_weekly r, sr_monthly r)) \<circ> bd_subs db"

lemma effects_Inr:
  assumes "applyUsageBillingEffects env flt now cmd res db = Inr (res', db')"
  shows "bd_dedup db' = bd_dedup db" "bd_archive db' = bd_archive db"
    "bd_users db' = charged_users (en_ops env) cmd (bd_users db)"
    "key_quotas db' = used_quota (en_ops env) cmd (key_quotas db)"
    "sub_usages db' = used_subscription (en_ops env) cmd (sub_usages db)"
proof -
  let ?ops = "en_ops env"
  obtain db1 res2 db2 res3 db3 db4 where
      1: "effect_subscription env flt cmd db = Inr db1"
    and 2: "(if pos ?ops (uc_BalanceCost cmd)
             then bindE (deductUsageBillingBalance env flt (uc_UserID cmd) (uc_BalanceCost cmd) db1)
               (\<lambda>((newBalance, sufficient), db).
                  Inr (res\<lparr>ua_NewBalance := Some newBalance, ua_BalanceOverdrafted := \<not> sufficient\<rparr>, db))
             else Inr (res, db1)) = Inr (res2, db2)"
    and 3: "(if pos ?ops (uc_APIKeyQuotaCost cmd)
             then bindE (incrementUsageBillingAPIKeyQuota env flt (uc_APIKeyID cmd) (uc_APIKeyQuotaCost cmd) db2)
               (\<lambda>(exhausted, db). Inr (res2\<lparr>ua_APIKeyQuotaExhausted := exhausted\<rparr>, db))
             else Inr (res2, db2)) = Inr (res3, db3)"
    and 4: "(if pos ?ops (uc_APIKeyRateLimitCost cmd)
             then incrementUsageBillingAPIKeyRateLimit env flt now (uc_APIKeyID cmd) (uc_APIKeyRateLimitCost cmd) db3
             else Inr db3) = Inr db4"
    and 5: "(if pos ?ops (uc_AccountQuotaCost cmd)
         \<and> (EqualFold (uc_AccountType cmd) AccountTypeAPIKey \<or> EqualFold (uc_AccountType cmd) AccountTypeBedrock)
      then bindE (incrementUsageBillingAccountQuota env flt now (uc_AccountID cmd) (uc_AccountQuotaCost cmd) db4)
        (\<lambda>(quotaState, db). Inr (res3\<lparr>ua_QuotaState := Some quotaState\<rparr>, db))
      else Inr (res3, db4)) = Inr (res', db')"
    using assms unfolding applyUsageBillingEffects_def Let_def bindE_Inr split_paired_Ex prod.case by blast
  have s1: "bd_dedup db1 = bd_dedup db \<and> bd_archive db1 = bd_archive db \<and> bd_users db1 = bd_users db \<and>
      bd_keys db1 = bd_keys db \<and> sub_usages db1 = used_subscription ?ops cmd (sub_usages db)"
    using 1 by (auto simp: effect_subscription_def used_subscription_def Let_def fun_eq_iff dest!: subscription_Inr
        split: option.splits if_splits)
  have s2: "bd_dedup db2 = bd_dedup db1 \<and> bd_archive db2 = bd_archive db1 \<and> bd_users db2 = charged_users ?ops cmd (bd_users db1) \<and>
      bd_keys db2 = bd_keys db1 \<and> bd_subs db2 = bd_subs db1"
    using 2 by (auto simp: charged_users_def bindE_Inr dest!: balance_Inr split: if_splits)
  have s3: "bd_dedup db3 = bd_dedup db2 \<and> bd_archive db3 = bd_archive db2 \<and> bd_users db3 = bd_users db2 \<and>
      key_quotas db3 = used_quota ?ops cmd (key_quotas db2) \<and> bd_subs db3 = bd_subs db2"
    using 3 by (auto simp: used_quota_def bindE_Inr key_quota_row_def fun_eq_iff dest!: key_quota_Inr split: if_splits)
  have s4: "bd_dedup db4 = bd_dedup db3 \<and> bd_archive db4 = bd_archive db3 \<and> bd_users db4 = bd_users db3 \<and>
      key_quotas db4 = key_quotas db3 \<and> bd_subs db4 = bd_subs db3"
    using 4 by (auto simp: fun_eq_iff dest!: key_rate_Inr split: if_splits)
  have s5: "bd_dedup db' = bd_dedup db4 \<and> bd_archive db' = bd_archive db4 \<and> bd_users db' = bd_users db4 \<and>
      bd_keys db' = bd_keys db4 \<and> bd_subs db' = bd_subs db4"
    using 5 by (auto simp: bindE_Inr dest!: account_quota_Inr split: if_splits)
  show "bd_dedup db' = bd_dedup db" "bd_archive db' = bd_archive db"
    "bd_users db' = charged_users ?ops cmd (bd_users db)"
    "key_quotas db' = used_quota ?ops cmd (key_quotas db)"
    "sub_usages db' = used_subscription ?ops cmd (sub_usages db)"
    using s1 s2 s3 s4 s5 by simp_all
qed

lemma hold_update_Inr:
  assumes "hold_update env flt uid cond upd otherwise db = Inr (res, db')"
  shows "\<exists>r. bd_users db uid = Some r \<and> \<not> ur_deleted r \<and> cond r \<and> db' = db\<lparr>bd_users := (bd_users db)(uid \<mapsto> upd r)\<rparr>"
  using assms by (auto simp: hold_update_def stmt_Inr Let_def live_def split: option.splits if_splits)

text \<open>What an operation on a hold does to the row of the user.\<close>

definition hold_row :: "'f money_ops \<Rightarrow> hold_kind \<Rightarrow> 'f BatchImageBalanceHoldCommand \<Rightarrow> user_row \<Rightarrow> user_row" where
  "hold_row ops k c r =
     (let h = mo_dec ops (hc_HoldAmount c); a = mo_dec ops (hc_ActualAmount c) in
      case k of
        Reserve \<Rightarrow> r\<lparr>ur_balance := numeric 8 (ur_balance r - h), ur_frozen := numeric 8 (ur_frozen r + h)\<rparr>
      | Capture \<Rightarrow> r\<lparr>ur_balance := numeric 8 (ur_balance r + (h - a)), ur_frozen := numeric 8 (ur_frozen r - h)\<rparr>
      | Release \<Rightarrow> r\<lparr>ur_balance := numeric 8 (ur_balance r + h), ur_frozen := numeric 8 (ur_frozen r - h)\<rparr>)"

definition hold_moves :: "'f money_ops \<Rightarrow> hold_kind \<Rightarrow> 'f BatchImageBalanceHoldCommand \<Rightarrow> bool" where
  "hold_moves ops k c \<longleftrightarrow> pos ops (hc_HoldAmount c) \<or> (k = Capture \<and> pos ops (hc_ActualAmount c))"

lemma hold_effect_Inr:
  assumes "hold_effect k env flt c db = Inr (res, db')"
  shows "(db' = db \<and> (hold_moves (en_ops env) k c \<longrightarrow> k = Release)) \<or>
    (\<exists>r. bd_users db (hc_UserID c) = Some r \<and> \<not> ur_deleted r \<and> hold_moves (en_ops env) k c \<and>
      (mo_dec (en_ops env) (hc_HoldAmount c) \<le> (if k = Reserve then ur_balance r else ur_frozen r)) \<and>
      db' = db\<lparr>bd_users := (bd_users db)(hc_UserID c \<mapsto> hold_row (en_ops env) k c r)\<rparr>)"
proof (cases k)
  case Reserve
  then show ?thesis using assms
    by (auto simp: hold_effect_def hold_moves_def hold_row_def reserveUsageBillingBatchImageBalance_def Let_def
        dest!: hold_update_Inr split: if_splits)
next
  case Capture
  have eq: "x + (if a < h then h - a else 0) - (if h < a then a - h else 0) = x + (h - a)" for x h a :: rat by simp
  show ?thesis using assms unfolding Capture hold_effect_def hold_kind.case captureUsageBillingBatchImageBalance_def Let_def eq
    by (auto simp: hold_moves_def hold_row_def Let_def dest!: hold_update_Inr split: if_splits)
next
  case Release
  then show ?thesis using assms
    by (auto simp: hold_effect_def hold_moves_def hold_row_def releaseUsageBillingBatchImageBalance_def Let_def bindE_Inr
        dest!: hold_update_Inr split: if_splits)
qed

subsection \<open>No request is charged twice\<close>

lemma apply_tx_SomeD:
  assumes "apply_tx env flt now cmd db = Inr (Some (res, db'))"
  shows "entry_key (Charged (Normalize env cmd)) \<notin> seen_keys db"
    and "applyUsageBillingEffects env flt now (Normalize env cmd) (no_result\<lparr>ua_Applied := True\<rparr>)
      (db\<lparr>bd_dedup := (bd_dedup db)(entry_key (Charged (Normalize env cmd)) \<mapsto> (uc_RequestFingerprint (Normalize env cmd), now))\<rparr>)
      = Inr (res, db')"
  using claimed_SomeD [OF assms [unfolded apply_tx_def Let_def]] by simp_all

lemma hold_tx_SomeD:
  assumes "hold_tx k env flt now cmd db = Inr (Some (res, db'))"
  shows "entry_key (Held k (Normalize_hold env cmd)) \<notin> seen_keys db"
    and "\<exists>res. hold_effect k env flt (Normalize_hold env cmd)
      (db\<lparr>bd_dedup := (bd_dedup db)(entry_key (Held k (Normalize_hold env cmd)) \<mapsto> (hc_RequestFingerprint (Normalize_hold env cmd), now))\<rparr>)
      = Inr (res, db')"
  using claimed_SomeD [OF assms [unfolded hold_tx_def Let_def]] by (auto simp: bindE_Inr)

lemma archive_batch_seen: "seen_keys (fst (archive_batch cutoff limit picked db)) = seen_keys db"
  by (auto simp: archive_batch_def Let_def dom_def)

lemma archive_batch_users:
  "bd_users (fst (archive_batch cutoff limit picked db)) = bd_users db"
  "bd_keys (fst (archive_batch cutoff limit picked db)) = bd_keys db"
  by (simp_all add: archive_batch_def Let_def)

lemma cleanup_keeps:
  "seen_keys (snd (CleanupUsageBillingDedup cutoff batches db)) = seen_keys db \<and>
   bd_users (snd (CleanupUsageBillingDedup cutoff batches db)) = bd_users db \<and>
   bd_keys (snd (CleanupUsageBillingDedup cutoff batches db)) = bd_keys db"
proof (induction cutoff batches db rule: CleanupUsageBillingDedup.induct)
  case (3 cutoff picked rest db)
  then show ?case
    by (cases "archive_batch cutoff usageBillingDedupCleanupBatchSize picked db")
      (use archive_batch_seen [of cutoff usageBillingDedupCleanupBatchSize picked db]
        archive_batch_users [of cutoff usageBillingDedupCleanupBatchSize picked db] in auto)
qed simp_all

lemma finish_snd:
  "snd (finish c no body db) = (case body of Inr (Some (r, db')) \<Rightarrow> (case c of NotCommitted e \<Rightarrow> db | _ \<Rightarrow> db') | _ \<Rightarrow> db)"
  by (auto simp: finish_def split: sum.split option.split commit.split)

text \<open>A step of the machine is either silent or one committed transaction.\<close>

lemma bill_step_cases:
  obtains (silent) "snd (bill_step env db op) = []" "seen_keys (fst (bill_step env db op)) = seen_keys db"
      "bd_users (fst (bill_step env db op)) = bd_users db" "bd_keys (fst (bill_step env db op)) = bd_keys db"
  | (charged) flt c now cmd res where "op = OpApply flt c now cmd"
      "snd (bill_step env db op) = [Charged (Normalize env cmd)]"
      "apply_tx env flt now cmd db = Inr (Some (res, fst (bill_step env db op)))"
  | (held) k flt c now cmd res where "op = OpHold k flt c now cmd"
      "snd (bill_step env db op) = [Held k (Normalize_hold env cmd)]"
      "hold_tx k env flt now cmd db = Inr (Some (res, fst (bill_step env db op)))"
proof (cases op)
  case (OpApply flt c now cmd)
  show thesis
  proof (cases "snd (bill_step env db op) = []")
    case True
    then have "fst (bill_step env db op) = db"
      using OpApply by (auto simp: Apply_def finish_snd committed_def split: sum.splits option.splits commit.splits)
    then show thesis using silent True by simp
  next
    case False
    then obtain res db' where tx: "apply_tx env flt now cmd db = Inr (Some (res, db'))" and nc: "\<And>e. c \<noteq> NotCommitted e"
      using OpApply by (auto simp: committed_def split: sum.splits option.splits commit.splits)
    have "bill_step env db op = (db', [Charged (Normalize env cmd)])"
      using OpApply tx nc by (simp add: Apply_def finish_snd committed_def split: commit.split)
    then show thesis using charged [OF OpApply] tx by simp
  qed
next
  case (OpHold k flt c now cmd)
  show thesis
  proof (cases "snd (bill_step env db op) = []")
    case True
    then have "fst (bill_step env db op) = db"
      using OpHold by (auto simp: applyBatchImageBalanceHold_def finish_snd committed_def split: sum.splits option.splits commit.splits)
    then show thesis using silent True by simp
  next
    case False
    then obtain res db' where tx: "hold_tx k env flt now cmd db = Inr (Some (res, db'))" and nc: "\<And>e. c \<noteq> NotCommitted e"
      using OpHold by (auto simp: committed_def split: sum.splits option.splits commit.splits)
    have "bill_step env db op = (db', [Held k (Normalize_hold env cmd)])"
      using OpHold tx nc by (simp add: applyBatchImageBalanceHold_def finish_snd committed_def split: commit.split)
    then show thesis using held [OF OpHold] tx by simp
  qed
next
  case (OpArchive cutoff batches)
  then show thesis using silent cleanup_keeps [of cutoff batches db] by simp
qed

lemma bill_step_claims:
  "seen_keys (fst (bill_step env db op)) = seen_keys db \<union> entry_key ` set (snd (bill_step env db op))"
  "e \<in> set (snd (bill_step env db op)) \<Longrightarrow> entry_key e \<notin> seen_keys db"
proof -
  have "seen_keys (fst (bill_step env db op)) = seen_keys db \<union> entry_key ` set (snd (bill_step env db op))
    \<and> (\<forall>e \<in> set (snd (bill_step env db op)). entry_key e \<notin> seen_keys db)"
  proof (cases rule: bill_step_cases [of env db op])
    case silent
    then show ?thesis by simp
  next
    case (charged flt c now cmd res)
    note t = apply_tx_SomeD [OF charged(3)]
    show ?thesis using t(1) effects_Inr(1,2) [OF t(2)] charged(2) by auto
  next
    case (held k flt c now cmd res)
    note t = hold_tx_SomeD [OF held(3)]
    have "bd_dedup (fst (bill_step env db op)) = (bd_dedup db)(entry_key (Held k (Normalize_hold env cmd)) \<mapsto>
        (hc_RequestFingerprint (Normalize_hold env cmd), now)) \<and> bd_archive (fst (bill_step env db op)) = bd_archive db"
      using t(2) by (auto dest!: hold_effect_Inr)
    then show ?thesis using t(1) held(2) by auto
  qed
  then show "seen_keys (fst (bill_step env db op)) = seen_keys db \<union> entry_key ` set (snd (bill_step env db op))"
    "e \<in> set (snd (bill_step env db op)) \<Longrightarrow> entry_key e \<notin> seen_keys db" by blast+
qed

interpretation billing: stream_claims "bill_step env" entry_key seen_keys for env :: "'f bill_env"
proof
  fix s i e
  show "seen_keys (fst (bill_step env s i)) = seen_keys s \<union> entry_key ` set (snd (bill_step env s i))"
    by (rule bill_step_claims(1))
  show "e \<in> set (snd (bill_step env s i)) \<Longrightarrow> entry_key e \<notin> seen_keys s" by (rule bill_step_claims(2))
  show "distinct (map entry_key (snd (bill_step env s i)))"
  proof (cases rule: bill_step_cases [of env s i])
    case silent
    show ?thesis unfolding silent(1) by simp
  next
    case charged
    show ?thesis unfolding charged(2) by simp
  next
    case held
    show ?thesis unfolding held(2) by simp
  qed
qed

text \<open>
  (C6) No request is charged twice. Whatever commands, holds and clean-ups run in whatever order, and
  whichever statements and commits fail: the keys of the transactions that took effect are different from
  each other and from all keys that were known before, and are known afterwards, in the table of keys or
  in its archive.
\<close>

theorem billing_exactly_once:
  "distinct (map entry_key (snd (run_stream (bill_step env) db ops)))
   \<and> entry_key ` set (snd (run_stream (bill_step env) db ops)) \<inter> seen_keys db = {}
   \<and> seen_keys (fst (run_stream (bill_step env) db ops)) = seen_keys db \<union> entry_key ` set (snd (run_stream (bill_step env) db ops))"
  using billing.run_distinct [of env db ops] billing.run_fresh [of _ env db ops] billing.run_seen [of env db ops] by blast

text \<open>Attempts at one command, each with its own faults, end of the transaction and time.\<close>

abbreviation attempts_of :: "'f UsageBillingCommand \<Rightarrow> ('e faults \<times> 'e commit \<times> instant) list \<Rightarrow> ('e, 'f) bill_op list" where
  "attempts_of cmd as \<equiv> map (\<lambda>(flt, c, now). OpApply flt c now cmd) as"

lemma attempts_log: "set (snd (run_stream (bill_step env) db (attempts_of cmd as))) \<subseteq> {Charged (Normalize env cmd)}"
proof (induction as arbitrary: db)
  case (Cons a as)
  obtain flt c now where a: "a = (flt, c, now)" by (rule prod_cases3)
  have "set (snd (bill_step env db (OpApply flt c now cmd))) \<subseteq> {Charged (Normalize env cmd)}"
    by (auto simp: committed_def split: sum.splits option.splits commit.splits)
  then show ?case using Cons [of "fst (bill_step env db (OpApply flt c now cmd))"]
    by (simp add: a run_stream_Cons del: bill_step.simps)
qed simp

lemma distinct_keys_single:
  "distinct (map f xs) \<Longrightarrow> set xs \<subseteq> {x} \<Longrightarrow> xs \<noteq> [] \<Longrightarrow> xs = [x]"
  by (cases xs; cases "tl xs") auto

text \<open>
  (C8) A command that is tried until it succeeds is charged once. The attempts before may have failed at any
  statement, and their commits may have been lost after taking effect: if the key was not known before
  and the last attempt returns without an error, the command took effect exactly once.
\<close>

theorem billing_retry_charges_once:
  assumes "entry_key (Charged (Normalize env cmd)) \<notin> seen_keys db"
    and "fst (Apply env flt Committed now (Some cmd) (fst (run_stream (bill_step env) db (attempts_of cmd as)))) = Inr r"
  shows "snd (run_stream (bill_step env) db (attempts_of cmd (as @ [(flt, Committed, now)]))) = [Charged (Normalize env cmd)]"
proof (rule distinct_keys_single [OF billing.run_distinct attempts_log])
  let ?db = "fst (run_stream (bill_step env) db (attempts_of cmd as))"
  have log: "snd (run_stream (bill_step env) db (attempts_of cmd (as @ [(flt, Committed, now)]))) =
      snd (run_stream (bill_step env) db (attempts_of cmd as)) @ committed Committed (Charged (Normalize env cmd)) (apply_tx env flt now cmd ?db)"
    by (simp add: run_stream_append run_stream_simps)
  consider res where "apply_tx env flt now cmd ?db = Inr (Some res)" | "apply_tx env flt now cmd ?db = Inr None"
    using assms(2) by (auto simp: Apply_def finish_def split: sum.splits option.splits)
  then show "snd (run_stream (bill_step env) db (attempts_of cmd (as @ [(flt, Committed, now)]))) \<noteq> []"
  proof cases
    case 1
    then show ?thesis unfolding log by (simp add: committed_def)
  next
    case 2
    then have "entry_key (Charged (Normalize env cmd)) \<in> seen_keys ?db"
      using claimed_NoneD [of flt now] by (simp add: apply_tx_def Let_def)
    then have "snd (run_stream (bill_step env) db (attempts_of cmd as)) \<noteq> []"
      using assms(1) billing.run_seen [of env db "attempts_of cmd as"] by auto
    then show ?thesis unfolding log by simp
  qed
qed

subsection \<open>Balances\<close>

definition scaled :: "nat \<Rightarrow> rat \<Rightarrow> bool" where
  "scaled s x \<longleftrightarrow> x * 10 ^ s = of_int \<lfloor>x * 10 ^ s\<rfloor>"

lemma scaledI: "x * 10 ^ s = of_int k \<Longrightarrow> scaled s x"
  by (simp add: scaled_def)

lemma scaledE:
  assumes "scaled s x"
  obtains k where "x = of_int k / 10 ^ s"
proof -
  have "x = of_int \<lfloor>x * 10 ^ s\<rfloor> / 10 ^ s" using assms by (simp add: scaled_def field_simps)
  then show thesis by (rule that)
qed

lemma numeric_scaled [simp]: "scaled s (numeric s x)"
proof -
  have "sgn x = of_int (sgn \<lfloor>sgn x\<rfloor>)" by (cases "x = 0"; cases "0 < x") (simp_all add: sgn_rat_def)
  then show ?thesis by (intro scaledI [where k = "sgn \<lfloor>sgn x\<rfloor> * \<lfloor>\<bar>x\<bar> * 10 ^ s + 1 / 2\<rfloor>"]) (simp add: numeric_def)
qed

lemma numeric_id [simp]:
  assumes "scaled s x"
  shows "numeric s x = x"
proof -
  obtain k where x: "x = of_int k / 10 ^ s" by (rule scaledE [OF assms])
  define m where "m = \<bar>k\<bar>"
  have "\<bar>x\<bar> * 10 ^ s = of_int m" by (simp add: x m_def)
  then have "\<lfloor>\<bar>x\<bar> * 10 ^ s + 1 / 2\<rfloor> = m" by (intro floor_unique) simp_all
  then have "\<lfloor>\<bar>x\<bar> * 10 ^ s + 1 / 2\<rfloor> = \<bar>k\<bar>" by (simp add: m_def)
  moreover have "sgn x * of_int \<bar>k\<bar> / 10 ^ s = x" by (cases k "0 :: int" rule: linorder_cases) (simp_all add: x sgn_rat_def field_simps)
  ultimately show ?thesis by (simp add: numeric_def)
qed

lemma scaled_add: "scaled s x \<Longrightarrow> scaled s y \<Longrightarrow> scaled s (x + y)"
  by (elim scaledE) (simp add: scaled_def add_divide_distrib [symmetric] flip: of_int_add)

lemma scaled_uminus: "scaled s x \<Longrightarrow> scaled s (- x)"
  by (elim scaledE) (simp add: scaled_def flip: of_int_minus)

lemma scaled_diff: "scaled s x \<Longrightarrow> scaled s y \<Longrightarrow> scaled s (x - y)"
  using scaled_add [of s x "- y"] scaled_uminus [of s y] by simp

lemma numeric_nonneg: "0 \<le> x \<Longrightarrow> 0 \<le> numeric s x"
  by (auto simp: numeric_def sgn_rat_def intro!: divide_nonneg_nonneg)

text \<open>
  What the source relies on of \<open>float64\<close>: a number with at most eight decimals and seven digits before
  them has fewer digits than the format holds, so it is read back from its nearest \<open>float64\<close>; and a
  positive number is written as a positive one and is not less than zero, and none is less than itself.
\<close>

definition float64_laws :: "'f money_ops \<Rightarrow> bool" where
  "float64_laws ops \<longleftrightarrow>
     (\<forall>x. scaled 8 x \<and> \<bar>x\<bar> < 10 ^ 7 \<longrightarrow> mo_dec ops (mo_flt ops x) = x) \<and>
     (\<forall>v. pos ops v \<longrightarrow> 0 < mo_dec ops v \<and> \<not> mo_lt ops v (mo_flt ops 0)) \<and> (\<forall>v. \<not> mo_lt ops v v)"

definition sane :: "'f money_ops \<Rightarrow> 'f \<Rightarrow> bool" where
  "sane ops v \<longleftrightarrow> mo_finite ops v \<and> \<bar>mo_dec ops v\<bar> \<le> 10 ^ 6"

lemma numeric_bound:
  assumes "\<bar>x\<bar> \<le> 10 ^ 6"
  shows "\<bar>numeric 8 x\<bar> < 10 ^ 7"
proof -
  let ?n = "\<lfloor>\<bar>x\<bar> * 10 ^ 8 + 1 / 2\<rfloor>"
  have n: "0 \<le> ?n" by (simp add: zero_le_floor)
  have "(of_int ?n :: rat) \<le> \<bar>x\<bar> * 10 ^ 8 + 1 / 2" by (rule of_int_floor_le)
  also have "\<dots> < 10 ^ 7 * 10 ^ 8" using assms by simp
  finally have b: "(of_int ?n :: rat) / 10 ^ 8 < 10 ^ 7" by simp
  have "\<bar>numeric 8 x\<bar> = \<bar>sgn x\<bar> * (of_int ?n / 10 ^ 8)" using n by (simp add: numeric_def abs_mult)
  also have "\<dots> \<le> of_int ?n / 10 ^ 8" using n by (auto simp: sgn_rat_def)
  finally show ?thesis using b by linarith
qed

lemma quantize_dec:
  assumes "float64_laws ops" "sane ops v"
  shows "mo_dec ops (QuantizeUsageBillingAmount ops v) = numeric 8 (mo_dec ops v)"
  using assms numeric_bound [of "mo_dec ops v"]
  by (auto simp: QuantizeUsageBillingAmount_def float64_laws_def sane_def UsageBillingMonetaryScale_def numeric_def [of 8 0])

lemma Normalize_fields [simp]:
  "uc_BalanceCost (Normalize env c) = QuantizeUsageBillingAmount (en_ops env) (uc_BalanceCost c)"
  "uc_SubscriptionCost (Normalize env c) = QuantizeUsageBillingAmount (en_ops env) (uc_SubscriptionCost c)"
  "uc_APIKeyQuotaCost (Normalize env c) = QuantizeUsageBillingAmount (en_ops env) (uc_APIKeyQuotaCost c)"
  "uc_UserID (Normalize env c) = uc_UserID c" "uc_APIKeyID (Normalize env c) = uc_APIKeyID c"
  "uc_SubscriptionID (Normalize env c) = uc_SubscriptionID c" "uc_RequestID (Normalize env c) = TrimSpace (uc_RequestID c)"
  by (simp_all add: Normalize_def quantizeMonetaryFields_def Let_def)

lemma Normalize_hold_fields [simp]:
  "hc_HoldAmount (Normalize_hold env c) = hc_HoldAmount c" "hc_ActualAmount (Normalize_hold env c) = hc_ActualAmount c"
  "hc_UserID (Normalize_hold env c) = hc_UserID c" "hc_APIKeyID (Normalize_hold env c) = hc_APIKeyID c"
  "hc_RequestID (Normalize_hold env c) = TrimSpace (hc_RequestID c)" "hc_BatchID (Normalize_hold env c) = TrimSpace (hc_BatchID c)"
  by (simp_all add: Normalize_hold_def Let_def)

text \<open>What a user owns, and what an entry of the log takes from it.\<close>

definition wealth :: "int \<Rightarrow> billing_db \<Rightarrow> rat" where
  "wealth u db = (case bd_users db u of None \<Rightarrow> 0 | Some r \<Rightarrow> ur_balance r + ur_frozen r)"

fun spent :: "'f money_ops \<Rightarrow> int \<Rightarrow> 'f bill_entry \<Rightarrow> rat" where
  "spent ops u (Charged c) = (if uc_UserID c = u \<and> pos ops (uc_BalanceCost c) then mo_dec ops (uc_BalanceCost c) else 0)"
| "spent ops u (Held k c) = (if hc_UserID c = u \<and> k = Capture \<and> hold_moves ops k c then mo_dec ops (hc_ActualAmount c) else 0)"

definition used :: "'f money_ops \<Rightarrow> int \<Rightarrow> 'f bill_entry \<Rightarrow> rat" where
  "used ops k e = (case e of
     Charged c \<Rightarrow> if uc_APIKeyID c = k \<and> pos ops (uc_APIKeyQuotaCost c) then mo_dec ops (uc_APIKeyQuotaCost c) else 0
   | Held _ _ \<Rightarrow> 0)"

text \<open>Users are stored with eight decimals, and holds are not negative.\<close>

definition user_ok :: "int \<Rightarrow> billing_db \<Rightarrow> bool" where
  "user_ok u db \<longleftrightarrow> (\<exists>r. bd_users db u = Some r \<and> scaled 8 (ur_balance r) \<and> scaled 8 (ur_frozen r) \<and> 0 \<le> ur_frozen r)"

definition key_ok :: "int \<Rightarrow> billing_db \<Rightarrow> bool" where
  "key_ok k db \<longleftrightarrow> (\<exists>r. bd_keys db k = Some r \<and> scaled 8 (kr_quota_used r))"

text \<open>The amounts of a call are of an ordinary size; those of holds have eight decimals.\<close>

fun op_ok :: "'f money_ops \<Rightarrow> ('e, 'f) bill_op \<Rightarrow> bool" where
  "op_ok ops (OpApply _ _ _ c) \<longleftrightarrow> sane ops (uc_BalanceCost c) \<and> sane ops (uc_APIKeyQuotaCost c)"
| "op_ok ops (OpHold _ _ _ _ c) \<longleftrightarrow> scaled 8 (mo_dec ops (hc_HoldAmount c)) \<and> scaled 8 (mo_dec ops (hc_ActualAmount c))"
| "op_ok ops (OpArchive _ _) \<longleftrightarrow> True"

lemma charged_user:
  assumes "float64_laws ops" "sane ops v" "user_ok u db"
    and "uc_BalanceCost c = QuantizeUsageBillingAmount ops v"
    and "bd_users db' = charged_users ops c (bd_users db)"
  shows "user_ok u db' \<and> wealth u db' = wealth u db - spent ops u (Charged c)"
proof -
  obtain r where r: "bd_users db u = Some r" "scaled 8 (ur_balance r)" "scaled 8 (ur_frozen r)" "0 \<le> ur_frozen r"
    using assms(3) by (auto simp: user_ok_def)
  have a: "scaled 8 (mo_dec ops (uc_BalanceCost c))" using quantize_dec [OF assms(1,2)] assms(4) by simp
  note s = scaled_diff [OF r(2) a]
  show ?thesis using r s assms(5) by (auto simp: user_ok_def wealth_def charged_users_def)
qed

lemma held_user:
  assumes "float64_laws ops" "user_ok u db" "scaled 8 (mo_dec ops (hc_HoldAmount c))" "scaled 8 (mo_dec ops (hc_ActualAmount c))"
    and "(db' = db \<and> (hold_moves ops k c \<longrightarrow> k = Release)) \<or>
    (\<exists>r. bd_users db (hc_UserID c) = Some r \<and> \<not> ur_deleted r \<and> hold_moves ops k c \<and>
      (mo_dec ops (hc_HoldAmount c) \<le> (if k = Reserve then ur_balance r else ur_frozen r)) \<and>
      db' = db\<lparr>bd_users := (bd_users db)(hc_UserID c \<mapsto> hold_row ops k c r)\<rparr>)"
  shows "user_ok u db' \<and> wealth u db' = wealth u db - spent ops u (Held k c)"
  using assms(5)
proof (elim disjE exE conjE)
  assume "db' = db" "hold_moves ops k c \<longrightarrow> k = Release"
  then show ?thesis using assms(2) by auto
next
  fix r
  assume r: "bd_users db (hc_UserID c) = Some r" "hold_moves ops k c"
    "mo_dec ops (hc_HoldAmount c) \<le> (if k = Reserve then ur_balance r else ur_frozen r)"
    and db': "db' = db\<lparr>bd_users := (bd_users db)(hc_UserID c \<mapsto> hold_row ops k c r)\<rparr>"
  show ?thesis
  proof (cases "hc_UserID c = u")
    case True
    let ?h = "mo_dec ops (hc_HoldAmount c)" and ?a = "mo_dec ops (hc_ActualAmount c)"
    have r0: "scaled 8 (ur_balance r)" "scaled 8 (ur_frozen r)" "0 \<le> ur_frozen r" using assms(2) r(1) True by (auto simp: user_ok_def)
    have h: "k = Reserve \<Longrightarrow> 0 < ?h" using r(2) assms(1) by (auto simp: hold_moves_def float64_laws_def)
    note sc = scaled_add scaled_diff r0 assms(3,4)
    show ?thesis using True r r0 h
      by (cases k) (auto simp: user_ok_def wealth_def hold_row_def Let_def db' sc)
  next
    case False
    then show ?thesis using assms(2) by (simp add: user_ok_def wealth_def db')
  qed
qed

lemma bill_step_user:
  assumes laws: "float64_laws (en_ops env)" and ok: "op_ok (en_ops env) op" and u: "user_ok u db"
  shows "user_ok u (fst (bill_step env db op)) \<and>
    wealth u (fst (bill_step env db op)) = wealth u db + sum_list (map (\<lambda>e. - spent (en_ops env) u e) (snd (bill_step env db op)))"
proof (cases rule: bill_step_cases [of env db op])
  case silent
  then show ?thesis using u by (simp add: user_ok_def wealth_def)
next
  case (charged flt c now cmd res)
  let ?db = "fst (bill_step env db op)" and ?c = "Normalize env cmd"
  have b: "bd_users ?db = charged_users (en_ops env) ?c (bd_users db)"
    using effects_Inr(3) [OF apply_tx_SomeD(2) [OF charged(3)]] by simp
  have "sane (en_ops env) (uc_BalanceCost cmd)" using ok charged(1) by simp
  from charged_user [OF laws this u _ b] show ?thesis unfolding charged(2) by simp
next
  case (held k flt c now cmd res)
  let ?c = "Normalize_hold env cmd"
  obtain fp res where e: "hold_effect k env flt ?c (db\<lparr>bd_dedup := fp\<rparr>) = Inr (res, fst (bill_step env db op))"
    using hold_tx_SomeD(2) [OF held(3)] by blast
  have u': "user_ok u (db\<lparr>bd_dedup := fp\<rparr>)" using u by (simp add: user_ok_def)
  have s: "scaled 8 (mo_dec (en_ops env) (hc_HoldAmount ?c))" "scaled 8 (mo_dec (en_ops env) (hc_ActualAmount ?c))"
    using ok held(1) by simp_all
  have "wealth u (db\<lparr>bd_dedup := fp\<rparr>) = wealth u db" by (simp add: wealth_def)
  then show ?thesis using held_user [OF laws u' s hold_effect_Inr [OF e]] unfolding held(2) by simp
qed

interpretation balances: stream_account "bill_step env" "\<lambda>op. float64_laws (en_ops env) \<and> op_ok (en_ops env) op"
    "user_ok u" "wealth u" "\<lambda>e. - spent (en_ops env) u e"
  for env :: "'f bill_env" and u :: int
  using bill_step_user by unfold_locales blast+

lemma bill_step_key:
  assumes laws: "float64_laws (en_ops env)" and ok: "op_ok (en_ops env) op" and k: "key_ok k db"
  shows "key_ok k (fst (bill_step env db op)) \<and>
    the (key_quotas (fst (bill_step env db op)) k) = the (key_quotas db k) + sum_list (map (used (en_ops env) k) (snd (bill_step env db op)))"
proof (cases rule: bill_step_cases [of env db op])
  case silent
  then show ?thesis using k by (simp add: key_ok_def)
next
  case (charged flt c now cmd res)
  let ?db = "fst (bill_step env db op)" and ?c = "Normalize env cmd" and ?ops = "en_ops env"
  obtain r where r: "bd_keys db k = Some r" "scaled 8 (kr_quota_used r)" using k by (auto simp: key_ok_def)
  have q: "key_quotas ?db = used_quota ?ops ?c (key_quotas db)"
    using effects_Inr(4) [OF apply_tx_SomeD(2) [OF charged(3)]] by simp
  have "sane ?ops (uc_APIKeyQuotaCost cmd)" using ok charged(1) by simp
  then have "scaled 8 (mo_dec ?ops (uc_APIKeyQuotaCost ?c))" using quantize_dec [OF laws] by simp
  note s = scaled_add [OF r(2) this]
  have v: "key_quotas ?db k = Some (kr_quota_used r + used ?ops k (Charged ?c))"
    unfolding q using r s by (auto simp: used_quota_def used_def)
  have "scaled 8 (kr_quota_used r + used ?ops k (Charged ?c))" using r s by (simp add: used_def)
  then show ?thesis using v r unfolding charged(2) by (auto simp: key_ok_def)
next
  case (held kd flt c now cmd res)
  have "bd_keys (fst (bill_step env db op)) = bd_keys db"
    using hold_tx_SomeD(2) [OF held(3)] by (auto dest!: hold_effect_Inr)
  then show ?thesis using k unfolding held(2) by (simp add: key_ok_def used_def)
qed

interpretation quotas: stream_account "bill_step env" "\<lambda>op. float64_laws (en_ops env) \<and> op_ok (en_ops env) op"
    "key_ok k" "\<lambda>db. the (key_quotas db k)" "used (en_ops env) k"
  for env :: "'f bill_env" and k :: int
  using bill_step_key by unfold_locales blast+

text \<open>
  (C7) Balances and quotas are what the log of committed transactions says. After any run, with any
  failures, what a user owns -- the balance and what is on hold -- has fallen by exactly the costs of the
  commands that took effect and the amounts captured from holds, what is on hold is not negative, and the
  quota used by an API key has grown by exactly the costs charged to it. The amounts are assumed to be of
  an ordinary size, and those of holds to have at most eight decimals.
\<close>

theorem balances_match_log:
  assumes "float64_laws (en_ops env)" and "list_all (op_ok (en_ops env)) ops" and "user_ok u db" and "key_ok k db"
  shows "user_ok u (fst (run_stream (bill_step env) db ops))
   \<and> wealth u (fst (run_stream (bill_step env) db ops)) =
       wealth u db - sum_list (map (spent (en_ops env) u) (snd (run_stream (bill_step env) db ops)))
   \<and> the (key_quotas (fst (run_stream (bill_step env) db ops)) k) =
       the (key_quotas db k) + sum_list (map (used (en_ops env) k) (snd (run_stream (bill_step env) db ops)))"
proof -
  have ok: "list_all (\<lambda>op. float64_laws (en_ops env) \<and> op_ok (en_ops env) op) ops"
    using assms(1,2) by (simp add: list_all_iff)
  have neg: "sum_list (map (\<lambda>e. - spent (en_ops env) u e) es) = - sum_list (map (spent (en_ops env) u) es)" for es
    by (induction es) simp_all
  show ?thesis
    using balances.run_inv [OF ok assms(3)] balances.run_total [OF ok assms(3)] quotas.run_total [OF ok assms(4)]
    by (simp add: neg)
qed

text \<open>An environment with exact numbers, and a small database.\<close>

definition exact_ops :: "rat money_ops" where
  "exact_ops = \<lparr>mo_dec = id, mo_flt = id, mo_sub = (-), mo_lt = (<), mo_finite = (\<lambda>_. True), mo_f10 = (\<lambda>_. ''0'')\<rparr>"

definition exact_env :: "rat bill_env" where
  "exact_env = \<lparr>en_ops = exact_ops, en_hash = (\<lambda>s. ''h''), en_day = id, en_add_days = (\<lambda>d t. t + d * day_ns), en_local = (\<lambda>_ t. t),
     en_utc = (\<lambda>_ t. t)\<rparr>"

definition small_db :: billing_db where
  "small_db = \<lparr>bd_dedup = Map.empty, bd_archive = Map.empty,
     bd_users = [1 \<mapsto> \<lparr>ur_balance = 10, ur_frozen = 0, ur_deleted = False\<rparr>],
     bd_subs = [3 \<mapsto> \<lparr>sr_group = 4, sr_daily = 0, sr_weekly = 0, sr_monthly = 0, sr_deleted = False\<rparr>],
     bd_groups = [4 \<mapsto> False],
     bd_keys = [2 \<mapsto> \<lparr>kr_quota = 5, kr_quota_used = 0, kr_status = StatusAPIKeyActive, kr_usage_5h = 0, kr_usage_1d = 0,
       kr_usage_7d = 0, kr_window_5h = None, kr_window_1d = None, kr_window_7d = None, kr_deleted = False\<rparr>],
     bd_accounts = Map.empty, bd_outbox = []\<rparr>"

definition small_cmd :: "rat UsageBillingCommand" where
  "small_cmd = \<lparr>uc_RequestID = ''r'', uc_APIKeyID = 2, uc_RequestFingerprint = ''f'', uc_RequestPayloadHash = [],
     uc_UserID = 1, uc_AccountID = 0, uc_SubscriptionID = Some 3, uc_AccountType = ''oauth'', uc_Model = [], uc_ServiceTier = [],
     uc_ReasoningEffort = [], uc_BillingType = 0, uc_InputTokens = 0, uc_OutputTokens = 0, uc_CacheCreationTokens = 0,
     uc_CacheReadTokens = 0, uc_ImageCount = 0, uc_MediaType = [], uc_BalanceCost = 3, uc_SubscriptionCost = 3,
     uc_APIKeyQuotaCost = 3, uc_APIKeyRateLimitCost = 0, uc_AccountQuotaCost = 0\<rparr>"

definition small_hold :: "string \<Rightarrow> rat \<Rightarrow> rat \<Rightarrow> rat BatchImageBalanceHoldCommand" where
  "small_hold rid hold actual = \<lparr>hc_RequestID = rid, hc_APIKeyID = 2, hc_RequestFingerprint = ''f'', hc_RequestPayloadHash = [],
     hc_UserID = 1, hc_BatchID = ''b'', hc_HoldAmount = hold, hc_ActualAmount = actual\<rparr>"

lemma exact_laws: "float64_laws (en_ops exact_env)"
  by (simp add: float64_laws_def exact_env_def exact_ops_def pos_def)

lemma small_db_ok: "user_ok 1 small_db" "key_ok 2 small_db"
  by (simp_all add: user_ok_def key_ok_def small_db_def scaled_def)

abbreviation no_faults :: "unit faults" where
  "no_faults \<equiv> (\<lambda>_. None)"

definition small_run :: "(unit, rat) bill_op list" where
  "small_run = [OpApply no_faults (CommitLost ()) 1 small_cmd, OpApply no_faults Committed 2 small_cmd,
     OpHold Reserve no_faults Committed 3 (small_hold ''batch_image_hold:b'' 4 0),
     OpHold Capture no_faults Committed 4 (small_hold ''batch_image_capture:b'' 4 1)]"

lemma trim_eval [simp]:
  "TrimSpace ''r'' = ''r''" "TrimSpace ''f'' = ''f''" "TrimSpace ''b'' = ''b''"
  "TrimSpace ''batch_image_hold:b'' = ''batch_image_hold:b''" "TrimSpace ''batch_image_capture:b'' = ''batch_image_capture:b''"
  "TrimSpace ''batch_image_release:b'' = ''batch_image_release:b''"
  by (rule TrimSpace_printable; simp add: printable_def)+

lemma numeric_eval [simp]: "numeric s 0 = 0" "numeric s (numeral n) = numeral n"
proof -
  have "scaled s (numeral n)" by (rule scaledI [where k = "numeral n * 10 ^ s"]) simp
  then show "numeric s (numeral n) = numeral n" by (rule numeric_id)
qed (simp add: numeric_def)

lemma one_eval [simp]: "numeric s 1 = 1"
proof -
  have "scaled s 1" by (rule scaledI [where k = "10 ^ s"]) simp
  then show ?thesis by (rule numeric_id)
qed

lemmas bill_eval = bill_step.simps run_stream_simps Apply_def apply_tx_def claimed_def claimUsageBillingRequest_def stmt_def bindE_def
  finish_def committed_def Let_def Normalize_def quantizeMonetaryFields_def QuantizeUsageBillingAmount_def
  UsageBillingMonetaryScale_def applyUsageBillingEffects_def effect_subscription_def
  incrementUsageBillingSubscription_def deductUsageBillingBalance_def incrementUsageBillingAPIKeyQuota_def
  key_quota_row_def live_def pos_def exact_env_def exact_ops_def small_cmd_def small_db_def small_hold_def
  applyBatchImageBalanceHold_def hold_tx_def Normalize_hold_def hold_effect_def hold_update_def
  reserveUsageBillingBatchImageBalance_def captureUsageBillingBatchImageBalance_def releaseUsageBillingBatchImageBalance_def
  batchImageHoldClaimExists_def BatchImageHoldRequestID_def no_result_def no_hold_result_def

lemma small_run_log:
  "map entry_key (snd (run_stream (bill_step exact_env) small_db small_run)) =
     [(''r'', 2), (''batch_image_hold:b'', 2), (''batch_image_capture:b'', 2)]"
  by (simp add: small_run_def bill_eval)

theorem balances_match_log_witness:
  "float64_laws (en_ops exact_env) \<and> list_all (op_ok (en_ops exact_env)) small_run \<and> user_ok 1 small_db \<and> key_ok 2 small_db
   \<and> wealth 1 (fst (run_stream (bill_step exact_env) small_db small_run)) = 6
   \<and> the (key_quotas (fst (run_stream (bill_step exact_env) small_db small_run)) 2) = 3"
proof -
  have ok: "list_all (op_ok (en_ops exact_env)) small_run"
    by (simp add: small_run_def small_cmd_def small_hold_def exact_env_def exact_ops_def sane_def scaled_def)
  have w: "wealth 1 small_db = 10" "the (key_quotas small_db 2) = 0" by (simp_all add: wealth_def small_db_def)
  have "sum_list (map (spent (en_ops exact_env) 1) (snd (run_stream (bill_step exact_env) small_db small_run))) = 4
      \<and> sum_list (map (used (en_ops exact_env) 2) (snd (run_stream (bill_step exact_env) small_db small_run))) = 3"
    by (simp add: small_run_def bill_eval hold_moves_def used_def)
  then show ?thesis using balances_match_log [OF exact_laws ok small_db_ok] w exact_laws ok small_db_ok by simp
qed

theorem billing_retry_charges_once_witness:
  "snd (run_stream (bill_step exact_env) small_db
     (attempts_of small_cmd ([(\<lambda>_. None, CommitLost (), 1)] @ [(\<lambda>_. None, Committed, 2)]))) = [Charged (Normalize exact_env small_cmd)]"
proof -
  have "entry_key (Charged (Normalize exact_env small_cmd)) \<notin> seen_keys small_db" by (simp add: small_db_def)
  moreover have "fst (Apply exact_env no_faults Committed 2 (Some small_cmd) (fst (run_stream (bill_step exact_env) small_db
      (attempts_of small_cmd [(\<lambda>_. None, CommitLost (), 1)])))) = Inr no_result"
    by (simp add: bill_eval)
  ultimately show ?thesis by (rule billing_retry_charges_once)
qed

text \<open>
  One amount moves everywhere. When a command that charges the same cost to the balance, the quota of
  the API key and the subscription takes effect, the balance falls by exactly the amount by which the
  quota and each of the three usages of the subscription rise, namely the cost rounded to eight decimals;
  without rounding it first, the columns would round the two directions differently.
\<close>

theorem one_amount_everywhere:
  assumes laws: "float64_laws (en_ops env)" and v: "sane (en_ops env) v" "pos (en_ops env) (QuantizeUsageBillingAmount (en_ops env) v)"
    and cmd: "uc_BalanceCost cmd = v" "uc_APIKeyQuotaCost cmd = v" "uc_SubscriptionCost cmd = v" "uc_SubscriptionID cmd = Some sid"
    and run: "Apply env flt c now (Some cmd) db = (Inr res, db')" "ua_Applied res"
    and rows: "bd_users db (uc_UserID cmd) = Some u" "scaled 8 (ur_balance u)" "key_quotas db (uc_APIKeyID cmd) = Some q" "scaled 8 q"
      "sub_usages db sid = Some (d, w, m)" "scaled 10 d" "scaled 10 w" "scaled 10 m"
  shows "\<exists>u'. bd_users db' (uc_UserID cmd) = Some u' \<and> ur_balance u - ur_balance u' = numeric 8 (mo_dec (en_ops env) v)
    \<and> key_quotas db' (uc_APIKeyID cmd) = Some (q + numeric 8 (mo_dec (en_ops env) v))
    \<and> sub_usages db' sid = Some (d + numeric 8 (mo_dec (en_ops env) v), w + numeric 8 (mo_dec (en_ops env) v), m + numeric 8 (mo_dec (en_ops env) v))"
proof -
  let ?x = "numeric 8 (mo_dec (en_ops env) v)"
  have tx: "apply_tx env flt now cmd db = Inr (Some (res, db'))"
    using run by (auto simp: Apply_def finish_def no_result_def split: sum.splits option.splits commit.splits)
  note e = effects_Inr [OF apply_tx_SomeD(2) [OF tx]]
  have x: "mo_dec (en_ops env) (QuantizeUsageBillingAmount (en_ops env) v) = ?x" by (rule quantize_dec [OF laws v(1)])
  have s8: "scaled 8 ?x" by simp
  have s10: "scaled 10 ?x"
  proof -
    obtain k where "?x = of_int k / 10 ^ 8" by (rule scaledE [OF s8])
    then show ?thesis by (intro scaledI [where k = "k * 100"]) simp
  qed
  have "bd_users db' (uc_UserID cmd) = Some (u\<lparr>ur_balance := ur_balance u - ?x\<rparr>)"
    using e(3) rows(1) scaled_diff [OF rows(2) s8] by (simp add: charged_users_def cmd v x)
  moreover have "key_quotas db' (uc_APIKeyID cmd) = Some (q + ?x)"
    using rows(3) scaled_add [OF rows(4) s8] unfolding e(4) by (auto simp: used_quota_def cmd v x)
  moreover
  have sub: "used_subscription (en_ops env) (Normalize env cmd) M sid = Some (d + ?x, w + ?x, m + ?x)"
    if "M sid = Some (d, w, m)" for M
    using that scaled_add [OF rows(6) s10] scaled_add [OF rows(7) s10] scaled_add [OF rows(8) s10]
    by (simp add: used_subscription_def Let_def cmd v x)
  have "sub_usages db' sid = Some (d + ?x, w + ?x, m + ?x)" unfolding e(5) by (rule sub) (use rows(5) in simp)
  ultimately show ?thesis by simp
qed

text \<open>The example of the comment in the source: unrounded, the two columns move by different amounts.\<close>

lemma rounding_drift:
  "10000 - numeric 8 (10000 - 78125 / 10 ^ 9) = 7812 / 10 ^ 8" "numeric 8 (0 + 78125 / 10 ^ 9) = 7813 / 10 ^ 8"
  by (simp_all add: numeric_def sgn_rat_def floor_unique)

theorem one_amount_everywhere_witness:
  "\<exists>u'. bd_users (snd (Apply exact_env no_faults Committed 1 (Some small_cmd) small_db)) 1 = Some u' \<and> 10 - ur_balance u' = 3
    \<and> key_quotas (snd (Apply exact_env no_faults Committed 1 (Some small_cmd) small_db)) 2 = Some 3
    \<and> sub_usages (snd (Apply exact_env no_faults Committed 1 (Some small_cmd) small_db)) 3 = Some (3, 3, 3)"
proof -
  obtain res where run: "Apply exact_env no_faults Committed 1 (Some small_cmd) small_db =
      (Inr res, snd (Apply exact_env no_faults Committed 1 (Some small_cmd) small_db))" "ua_Applied res"
    by (simp add: bill_eval)
  have "sane (en_ops exact_env) 3" "pos (en_ops exact_env) (QuantizeUsageBillingAmount (en_ops exact_env) 3)"
    by (simp_all add: sane_def pos_def QuantizeUsageBillingAmount_def UsageBillingMonetaryScale_def exact_env_def exact_ops_def)
  from one_amount_everywhere [OF exact_laws this _ _ _ _ run, of 3 "\<lparr>ur_balance = 10, ur_frozen = 0, ur_deleted = False\<rparr>" 0 0 0 0]
  show ?thesis by (simp add: small_cmd_def small_db_def scaled_def exact_env_def exact_ops_def)
qed

subsection \<open>Exhausted keys\<close>

text \<open>Amounts charged to one key, one after the other, and what each call reports.\<close>

definition quota_step :: "'f bill_env \<Rightarrow> int \<Rightarrow> billing_db \<Rightarrow> 'f \<Rightarrow> billing_db \<times> bool list" where
  "quota_step env k db v =
     (case incrementUsageBillingAPIKeyQuota env (\<lambda>_. None :: unit option) k v db of
        Inl _ \<Rightarrow> (db, []) | Inr (exhausted, db') \<Rightarrow> (db', [exhausted]))"

lemma quota_step_row:
  assumes "bd_keys db k = Some r" "\<not> kr_deleted r" "scaled 8 (kr_quota_used r)" "scaled 8 (mo_dec (en_ops env) v)"
  shows "quota_step env k db v = (db\<lparr>bd_keys := (bd_keys db)(k \<mapsto> key_quota_row (mo_dec (en_ops env) v) r)\<rparr>,
    [0 < kr_quota r \<and> kr_quota r \<le> kr_quota_used r + mo_dec (en_ops env) v \<and> kr_quota_used r < kr_quota r])"
  using assms scaled_add [OF assms(3,4)]
  by (simp add: quota_step_def incrementUsageBillingAPIKeyQuota_def stmt_def live_def Let_def key_quota_row_def)

text \<open>
  A key reports the exhaustion of its quota once. Whatever positive amounts are charged to a key with a
  quota, exactly one call reports it as exhausted if the sum reaches the quota for the first time, and no
  call does otherwise; an active key is marked as exhausted from then on, and the key has used what it
  was charged.
\<close>

theorem quota_exhausted_reported_once:
  assumes "bd_keys db k = Some r" "\<not> kr_deleted r" "scaled 8 (kr_quota_used r)" "0 < kr_quota r"
    and "list_all (\<lambda>v. scaled 8 (mo_dec (en_ops env) v) \<and> 0 < mo_dec (en_ops env) v) vs"
  defines "grown \<equiv> kr_quota_used r + sum_list (map (mo_dec (en_ops env)) vs)"
  shows "count_if id (snd (run_stream (quota_step env k) db vs)) = (if kr_quota_used r < kr_quota r \<and> kr_quota r \<le> grown then 1 else 0)
    \<and> (\<exists>r'. bd_keys (fst (run_stream (quota_step env k) db vs)) k = Some r' \<and> kr_quota_used r' = grown
        \<and> kr_status r' = (if kr_status r = StatusAPIKeyActive \<and> kr_quota_used r < kr_quota r \<and> kr_quota r \<le> grown
                           then StatusAPIKeyQuotaExhausted else kr_status r))"
  using assms(1-5) unfolding grown_def
proof (induction vs arbitrary: db r)
  case Nil
  then show ?case by (auto simp: run_stream_simps)
next
  case (Cons v vs)
  let ?a = "mo_dec (en_ops env) v" and ?r = "key_quota_row (mo_dec (en_ops env) v) r"
  have a: "scaled 8 ?a" "0 < ?a" using Cons.prems by simp_all
  note q = quota_step_row [OF Cons.prems(1-3) a(1)]
  have u: "kr_quota_used ?r = kr_quota_used r + ?a" "kr_quota ?r = kr_quota r" "kr_deleted ?r = kr_deleted r"
    using scaled_add [OF Cons.prems(3) a(1)] by (simp_all add: key_quota_row_def)
  have s: "kr_status ?r = (if kr_status r = StatusAPIKeyActive \<and> kr_quota_used r < kr_quota r \<and> kr_quota r \<le> kr_quota_used r + ?a
      then StatusAPIKeyQuotaExhausted else kr_status r)" using Cons.prems(4) by (simp add: key_quota_row_def)
  have ne: "StatusAPIKeyQuotaExhausted \<noteq> StatusAPIKeyActive" by (simp add: StatusAPIKeyActive_def StatusAPIKeyQuotaExhausted_def)
  have sum: "0 \<le> sum_list (map (mo_dec (en_ops env)) vs)"
    using Cons.prems(5) by (intro sum_list_nonneg) (auto simp: list_all_iff)
  have r': "bd_keys (fst (quota_step env k db v)) k = Some ?r" by (simp add: q)
  have prems: "\<not> kr_deleted ?r" "scaled 8 (kr_quota_used ?r)" "0 < kr_quota ?r"
    "list_all (\<lambda>v. scaled 8 (mo_dec (en_ops env) v) \<and> 0 < mo_dec (en_ops env) v) vs"
    using Cons.prems scaled_add [OF Cons.prems(3) a(1)] by (simp_all add: u)
  note IH = Cons.IH [OF r' prems]
  show ?case
  proof (cases "kr_quota r \<le> kr_quota_used r + ?a")
    case True
    then show ?thesis using IH a sum Cons.prems(4) by (auto simp: run_stream_Cons u s q ne add.assoc)
  next
    case False
    then show ?thesis using IH a sum Cons.prems(4) by (auto simp: run_stream_Cons u s q ne add.assoc)
  qed
qed

theorem quota_exhausted_reported_once_witness:
  "count_if id (snd (run_stream (quota_step exact_env 2) small_db [2, 2, 2])) = 1"
proof -
  have "bd_keys small_db 2 = Some \<lparr>kr_quota = 5, kr_quota_used = 0, kr_status = StatusAPIKeyActive, kr_usage_5h = 0, kr_usage_1d = 0,
       kr_usage_7d = 0, kr_window_5h = None, kr_window_1d = None, kr_window_7d = None, kr_deleted = False\<rparr>"
    by (simp add: small_db_def)
  from quota_exhausted_reported_once [OF this, of exact_env "[2, 2, 2]"] show ?thesis
    by (simp add: scaled_def exact_env_def exact_ops_def)
qed

subsection \<open>Holds\<close>

text \<open>A call with a new key and without faults does what its effect does.\<close>

lemma hold_call:
  assumes flt: "\<forall>s. flt s = None"
    and key: "(TrimSpace (hc_RequestID cmd), hc_APIKeyID cmd) \<notin> seen_keys db" "TrimSpace (hc_RequestID cmd) \<noteq> []"
    and db1: "db1 = db\<lparr>bd_dedup := (bd_dedup db)((TrimSpace (hc_RequestID cmd), hc_APIKeyID cmd) \<mapsto>
        (hc_RequestFingerprint (Normalize_hold env cmd), now))\<rparr>"
  shows "hold_effect k env flt (Normalize_hold env cmd) db1 = Inr (res, db') \<Longrightarrow>
      applyBatchImageBalanceHold k env flt Committed now (Some cmd) db = (Inr (res\<lparr>hr_Applied := True\<rparr>), db')"
    and "hold_effect k env flt (Normalize_hold env cmd) db1 = Inl e \<Longrightarrow>
      applyBatchImageBalanceHold k env flt Committed now (Some cmd) db = (Inl e, db)"
proof -
  have "bd_dedup db (TrimSpace (hc_RequestID cmd), hc_APIKeyID cmd) = None" "bd_archive db (TrimSpace (hc_RequestID cmd), hc_APIKeyID cmd) = None"
    using key(1) by auto
  then have "claimUsageBillingRequest flt now (TrimSpace (hc_RequestID cmd)) (hc_APIKeyID cmd)
      (hc_RequestFingerprint (Normalize_hold env cmd)) db = Inr (True, db1)"
    by (simp add: claimUsageBillingRequest_def stmt_def db1 flt)
  then have tx: "hold_tx k env flt now cmd db = bindE (bindE (hold_effect k env flt (Normalize_hold env cmd) db1)
      (\<lambda>(r, db). Inr (r\<lparr>hr_Applied := True\<rparr>, db))) (\<lambda>r. Inr (Some r))"
    using key(2) by (simp add: hold_tx_def claimed_def stmt_def bindE_def Let_def flt)
  show "hold_effect k env flt (Normalize_hold env cmd) db1 = Inr (res, db') \<Longrightarrow>
      applyBatchImageBalanceHold k env flt Committed now (Some cmd) db = (Inr (res\<lparr>hr_Applied := True\<rparr>), db')"
    "hold_effect k env flt (Normalize_hold env cmd) db1 = Inl e \<Longrightarrow>
      applyBatchImageBalanceHold k env flt Committed now (Some cmd) db = (Inl e, db)"
    by (simp_all add: applyBatchImageBalanceHold_def tx bindE_def finish_def)
qed

text \<open>A job whose cost can be put on hold.\<close>

definition holdable :: "'f bill_env \<Rightarrow> 'f BatchImageJob \<Rightarrow> int \<Rightarrow> 'f \<Rightarrow> bool" where
  "holdable env job key h \<longleftrightarrow> bj_APIKeyID job = Some key \<and> 0 < key \<and> bj_HoldAmount job = Some h \<and> pos (en_ops env) h
     \<and> bj_BatchID job \<noteq> [] \<and> printable (hd (bj_BatchID job)) \<and> printable (last (bj_BatchID job))"

definition job_command :: "'f money_ops \<Rightarrow> 'f BatchImageJob \<Rightarrow> int \<Rightarrow> 'f \<Rightarrow> string \<Rightarrow> 'f \<Rightarrow> string \<Rightarrow> 'f BatchImageBalanceHoldCommand" where
  "job_command ops job key h rid a payload = \<lparr>hc_RequestID = rid, hc_APIKeyID = key, hc_RequestFingerprint = [],
     hc_RequestPayloadHash = TrimSpace payload, hc_UserID = bj_UserID job, hc_BatchID = bj_BatchID job,
     hc_HoldAmount = h, hc_ActualAmount = (if mo_lt ops a (mo_flt ops 0) then mo_flt ops 0 else a)\<rparr>"

lemma job_command_fields [simp]:
  "hc_RequestID (job_command ops job key h rid a p) = rid" "hc_APIKeyID (job_command ops job key h rid a p) = key"
  "hc_UserID (job_command ops job key h rid a p) = bj_UserID job" "hc_BatchID (job_command ops job key h rid a p) = bj_BatchID job"
  "hc_HoldAmount (job_command ops job key h rid a p) = h"
  "\<not> mo_lt ops a (mo_flt ops 0) \<Longrightarrow> hc_ActualAmount (job_command ops job key h rid a p) = a"
  by (simp_all add: job_command_def)

lemma build_holdable:
  assumes "float64_laws (en_ops env)" "holdable env job key h"
  shows "buildBatchImageHoldCommand (en_ops env) job rid a p = Inr (job_command (en_ops env) job key h rid a p)"
  using assms by (simp add: buildBatchImageHoldCommand_def holdable_def job_command_def float64_laws_def Let_def)

lemma hold_ids:
  assumes "holdable env job key h"
  shows "TrimSpace (bj_BatchID job) = bj_BatchID job"
    "TrimSpace (BatchImageHoldRequestID (bj_BatchID job)) = BatchImageHoldRequestID (bj_BatchID job)"
    "TrimSpace (BatchImageCaptureRequestID (bj_BatchID job)) = BatchImageCaptureRequestID (bj_BatchID job)"
    "TrimSpace (BatchImageReleaseRequestID (bj_BatchID job)) = BatchImageReleaseRequestID (bj_BatchID job)"
    "BatchImageHoldRequestID (bj_BatchID job) \<noteq> []" "BatchImageCaptureRequestID (bj_BatchID job) \<noteq> []"
    "BatchImageReleaseRequestID (bj_BatchID job) \<noteq> []"
    "BatchImageHoldRequestID (bj_BatchID job) \<noteq> BatchImageCaptureRequestID (bj_BatchID job)"
    "BatchImageHoldRequestID (bj_BatchID job) \<noteq> BatchImageReleaseRequestID (bj_BatchID job)"
proof -
  have b: "bj_BatchID job \<noteq> []" "printable (hd (bj_BatchID job))" "printable (last (bj_BatchID job))"
    using assms by (simp_all add: holdable_def)
  show t: "TrimSpace (bj_BatchID job) = bj_BatchID job" using TrimSpace_printable [OF b] .
  note d = BatchImageHoldRequestID_def BatchImageCaptureRequestID_def BatchImageReleaseRequestID_def
  show "TrimSpace (BatchImageHoldRequestID (bj_BatchID job)) = BatchImageHoldRequestID (bj_BatchID job)"
    "TrimSpace (BatchImageCaptureRequestID (bj_BatchID job)) = BatchImageCaptureRequestID (bj_BatchID job)"
    "TrimSpace (BatchImageReleaseRequestID (bj_BatchID job)) = BatchImageReleaseRequestID (bj_BatchID job)"
    unfolding d t using b by (intro TrimSpace_printable; simp add: printable_def)+
qed (simp_all add: BatchImageHoldRequestID_def BatchImageCaptureRequestID_def BatchImageReleaseRequestID_def)

text \<open>The effect of an operation that moves money, for a user who exists.\<close>

lemma hold_effect_moves:
  assumes flt: "\<forall>s. flt s = None" and row: "bd_users db (hc_UserID c) = Some r" "\<not> ur_deleted r"
    and moves: "hold_moves (en_ops env) k c"
    and cap: "k = Capture \<longrightarrow> \<not> mo_lt (en_ops env) (mo_flt (en_ops env) (1 / 10 ^ 8)) (mo_sub (en_ops env) (hc_ActualAmount c) (hc_HoldAmount c))"
    and held: "k = Release \<longrightarrow> (BatchImageHoldRequestID (hc_BatchID c), hc_APIKeyID c) \<in> seen_keys db"
  defines "enough \<equiv> mo_dec (en_ops env) (hc_HoldAmount c) \<le> (if k = Reserve then ur_balance r else ur_frozen r)"
  shows "enough \<Longrightarrow> \<exists>res. hold_effect k env flt c db = Inr (res, db\<lparr>bd_users := (bd_users db)(hc_UserID c \<mapsto> hold_row (en_ops env) k c r)\<rparr>)"
    and "\<not> enough \<Longrightarrow> hold_effect k env flt c db = Inl (if k = Reserve then ErrBatchImageInsufficientBalance else UbFrozenInsufficient)"
proof -
  have eq: "x + (if a < h then h - a else 0) - (if h < a then a - h else 0) = x + (h - a)" for x h a :: rat by simp
  have live: "live ur_deleted (bd_users db) (hc_UserID c) = Some r" using row by (simp add: live_def)
  have h: "k = Release \<longrightarrow> batchImageHoldClaimExists flt (BatchImageHoldRequestID (hc_BatchID c)) (hc_APIKeyID c) db = Inr True"
    using held by (auto simp: batchImageHoldClaimExists_def stmt_def flt)
  note d = hold_effect_def reserveUsageBillingBatchImageBalance_def captureUsageBillingBatchImageBalance_def
    releaseUsageBillingBatchImageBalance_def hold_update_def Let_def eq
  show "enough \<Longrightarrow> \<exists>res. hold_effect k env flt c db = Inr (res, db\<lparr>bd_users := (bd_users db)(hc_UserID c \<mapsto> hold_row (en_ops env) k c r)\<rparr>)"
    using moves cap h unfolding d
    by (cases k) (auto simp: enough_def hold_moves_def hold_row_def stmt_def flt live bindE_def Let_def)
  show "\<not> enough \<Longrightarrow> hold_effect k env flt c db = Inl (if k = Reserve then ErrBatchImageInsufficientBalance else UbFrozenInsufficient)"
    using moves cap h unfolding d
    by (cases k) (auto simp: enough_def hold_moves_def stmt_def flt live bindE_def userExistsForBilling_def)
qed

text \<open>The three calls for a job, while their keys are new and no statement fails.\<close>

lemma job_call:
  fixes flt :: "'e faults" and p :: string
  assumes flt: "\<forall>s. flt s = None" and job: "holdable env job key h"
    and row: "bd_users db (bj_UserID job) = Some r" "\<not> ur_deleted r"
    and rid: "TrimSpace rid = rid" "rid \<noteq> []" "(rid, key) \<notin> seen_keys db"
    and a: "\<not> mo_lt (en_ops env) a (mo_flt (en_ops env) 0)"
    and cap: "k = Capture \<longrightarrow> \<not> mo_lt (en_ops env) (mo_flt (en_ops env) (1 / 10 ^ 8)) (mo_sub (en_ops env) a h)"
    and held: "k = Release \<longrightarrow> (BatchImageHoldRequestID (bj_BatchID job), key) \<in> seen_keys db"
  defines "enough \<equiv> mo_dec (en_ops env) h \<le> (if k = Reserve then ur_balance r else ur_frozen r)"
    and "cmd \<equiv> job_command (en_ops env) job key h rid a p"
  shows "enough \<Longrightarrow> \<exists>res fp. applyBatchImageBalanceHold k env flt Committed now (Some cmd) db =
      (Inr res, db\<lparr>bd_dedup := (bd_dedup db)((rid, key) \<mapsto> (fp, now)), bd_users := (bd_users db)(bj_UserID job \<mapsto> hold_row (en_ops env) k cmd r)\<rparr>)"
    and "\<not> enough \<Longrightarrow> applyBatchImageBalanceHold k env flt Committed now (Some cmd) db =
      (Inl (if k = Reserve then ErrBatchImageInsufficientBalance else UbFrozenInsufficient), db)"
proof -
  define db1 where "db1 = db\<lparr>bd_dedup := (bd_dedup db)((rid, key) \<mapsto> (hc_RequestFingerprint (Normalize_hold env cmd), now))\<rparr>"
  have moves: "hold_moves (en_ops env) k (Normalize_hold env cmd)" using job by (simp add: hold_moves_def holdable_def cmd_def)
  have held': "k = Release \<longrightarrow> (BatchImageHoldRequestID (hc_BatchID (Normalize_hold env cmd)), hc_APIKeyID (Normalize_hold env cmd)) \<in> seen_keys db1"
    using held by (auto simp: db1_def cmd_def hold_ids [OF job])
  have hr: "hold_row (en_ops env) k (Normalize_hold env cmd) r = hold_row (en_ops env) k cmd r" by (simp add: hold_row_def)
  have row': "bd_users db1 (hc_UserID (Normalize_hold env cmd)) = Some r" using row by (simp add: db1_def cmd_def)
  note e = hold_effect_moves [where db = db1 and k = k and env = env and flt = flt, OF flt row' row(2) moves _ held']
  note call = hold_call [where cmd = cmd and db = db and flt = flt and env = env and now = now and k = k, OF flt]
  have id: "hc_RequestID cmd = rid" "hc_APIKeyID cmd = key" "hc_UserID (Normalize_hold env cmd) = bj_UserID job"
    "hc_HoldAmount (Normalize_hold env cmd) = h" "hc_ActualAmount (Normalize_hold env cmd) = a"
    using a by (simp_all add: cmd_def)
  show "enough \<Longrightarrow> \<exists>res fp. applyBatchImageBalanceHold k env flt Committed now (Some cmd) db =
      (Inr res, db\<lparr>bd_dedup := (bd_dedup db)((rid, key) \<mapsto> (fp, now)), bd_users := (bd_users db)(bj_UserID job \<mapsto> hold_row (en_ops env) k cmd r)\<rparr>)"
  proof -
    assume en: "enough"
    obtain res where "hold_effect k env flt (Normalize_hold env cmd) db1 =
        Inr (res, db1\<lparr>bd_users := (bd_users db1)(bj_UserID job \<mapsto> hold_row (en_ops env) k cmd r)\<rparr>)"
      using e(1) [unfolded id hr, OF cap en [unfolded enough_def]] by blast
    from call(1) [OF _ _ _ this] show ?thesis using rid by (auto simp: id db1_def)
  qed
  show "\<not> enough \<Longrightarrow> applyBatchImageBalanceHold k env flt Committed now (Some cmd) db =
      (Inl (if k = Reserve then ErrBatchImageInsufficientBalance else UbFrozenInsufficient), db)"
  proof -
    assume en: "\<not> enough"
    have "hold_effect k env flt (Normalize_hold env cmd) db1 = Inl (if k = Reserve then ErrBatchImageInsufficientBalance else UbFrozenInsufficient)"
      using e(2) [unfolded id hr, OF cap en [unfolded enough_def]] .
    from call(2) [OF _ _ _ this] show ?thesis using rid by (auto simp: id db1_def)
  qed
qed

lemma reserve_job:
  fixes flt :: "'e faults" and p :: string
  assumes flt: "\<forall>s. flt s = None" and laws: "float64_laws (en_ops env)" and job: "holdable env job key h"
    and row: "bd_users db (bj_UserID job) = Some r" "\<not> ur_deleted r" "mo_dec (en_ops env) h \<le> ur_balance r"
    and key: "(BatchImageHoldRequestID (bj_BatchID job), key) \<notin> seen_keys db"
  shows "\<exists>fp. reserveBatchImageBalanceHold env flt Committed now job p db =
    (None, db\<lparr>bd_dedup := (bd_dedup db)((BatchImageHoldRequestID (bj_BatchID job), key) \<mapsto> (fp, now)),
       bd_users := (bd_users db)(bj_UserID job \<mapsto> r\<lparr>ur_balance := numeric 8 (ur_balance r - mo_dec (en_ops env) h),
         ur_frozen := numeric 8 (ur_frozen r + mo_dec (en_ops env) h)\<rparr>)\<rparr>)"
proof -
  have h: "pos (en_ops env) h" using job by (simp add: holdable_def)
  have zero: "\<not> mo_lt (en_ops env) (mo_flt (en_ops env) 0) (mo_flt (en_ops env) 0)" using laws by (simp add: float64_laws_def)
  have "mo_dec (en_ops env) h \<le> (if Reserve = Reserve then ur_balance r else ur_frozen r)" using row(3) by simp
  from job_call(1) [OF flt job row(1,2) hold_ids(2,5) [OF job] key zero _ _ this, where now = now and p = p]
  show ?thesis
    by (auto simp: reserveBatchImageBalanceHold_def build_holdable [OF laws job] h ReserveBatchImageBalance_def hold_row_def Let_def)
qed

lemma capture_job:
  fixes flt :: "'e faults" and p :: string
  assumes flt: "\<forall>s. flt s = None" and laws: "float64_laws (en_ops env)" and job: "holdable env job key h"
    and row: "bd_users db (bj_UserID job) = Some r" "\<not> ur_deleted r"
    and key: "(BatchImageCaptureRequestID (bj_BatchID job), key) \<notin> seen_keys db"
    and a: "\<not> mo_lt (en_ops env) a (mo_flt (en_ops env) 0)"
      "\<not> mo_lt (en_ops env) (mo_flt (en_ops env) (1 / 10 ^ 8)) (mo_sub (en_ops env) a h)"
  shows "mo_dec (en_ops env) h \<le> ur_frozen r \<Longrightarrow> \<exists>db'. captureBatchImageBalanceHold env flt Committed now job a p db = (None, db')
      \<and> bd_users db' = (bd_users db)(bj_UserID job \<mapsto>
           r\<lparr>ur_balance := numeric 8 (ur_balance r + (mo_dec (en_ops env) h - mo_dec (en_ops env) a)), ur_frozen := numeric 8 (ur_frozen r - mo_dec (en_ops env) h)\<rparr>)"
    and "\<not> mo_dec (en_ops env) h \<le> ur_frozen r \<Longrightarrow>
      captureBatchImageBalanceHold env flt Committed now job a p db = (Some (ErrBatchImageSettlementBillingFailed UbFrozenInsufficient), db)"
proof -
  note call = job_call [OF flt job row(1,2) hold_ids(3,6) [OF job] key a(1), where k = Capture and now = now and p = p]
  show "mo_dec (en_ops env) h \<le> ur_frozen r \<Longrightarrow> \<exists>db'. captureBatchImageBalanceHold env flt Committed now job a p db = (None, db')
      \<and> bd_users db' = (bd_users db)(bj_UserID job \<mapsto>
           r\<lparr>ur_balance := numeric 8 (ur_balance r + (mo_dec (en_ops env) h - mo_dec (en_ops env) a)), ur_frozen := numeric 8 (ur_frozen r - mo_dec (en_ops env) h)\<rparr>)"
    using call(1) a
    by (auto simp: captureBatchImageBalanceHold_def build_holdable [OF laws job] CaptureBatchImageBalance_def hold_row_def Let_def)
  show "\<not> mo_dec (en_ops env) h \<le> ur_frozen r \<Longrightarrow>
      captureBatchImageBalanceHold env flt Committed now job a p db = (Some (ErrBatchImageSettlementBillingFailed UbFrozenInsufficient), db)"
    using call(2) a
    by (auto simp: captureBatchImageBalanceHold_def build_holdable [OF laws job] CaptureBatchImageBalance_def)
qed

lemma release_job:
  fixes flt :: "'e faults" and p :: string
  assumes flt: "\<forall>s. flt s = None" and laws: "float64_laws (en_ops env)" and job: "holdable env job key h"
    and row: "bd_users db (bj_UserID job) = Some r" "\<not> ur_deleted r"
    and key: "(BatchImageReleaseRequestID (bj_BatchID job), key) \<notin> seen_keys db"
    and held: "(BatchImageHoldRequestID (bj_BatchID job), key) \<in> seen_keys db"
  shows "mo_dec (en_ops env) h \<le> ur_frozen r \<Longrightarrow> \<exists>db'. releaseBatchImageBalanceHold env flt Committed now (Some job) p db = (None, db')
      \<and> bd_users db' = (bd_users db)(bj_UserID job \<mapsto>
           r\<lparr>ur_balance := numeric 8 (ur_balance r + mo_dec (en_ops env) h), ur_frozen := numeric 8 (ur_frozen r - mo_dec (en_ops env) h)\<rparr>)"
    and "\<not> mo_dec (en_ops env) h \<le> ur_frozen r \<Longrightarrow>
      releaseBatchImageBalanceHold env flt Committed now (Some job) p db = (Some (ErrBatchImageBillingHoldFailed UbFrozenInsufficient), db)"
proof -
  have h: "pos (en_ops env) h" using job by (simp add: holdable_def)
  have zero: "\<not> mo_lt (en_ops env) (mo_flt (en_ops env) 0) (mo_flt (en_ops env) 0)" using laws by (simp add: float64_laws_def)
  note call = job_call [OF flt job row(1,2) hold_ids(4,7) [OF job] key zero, where k = Release and now = now and p = p]
  show "mo_dec (en_ops env) h \<le> ur_frozen r \<Longrightarrow> \<exists>db'. releaseBatchImageBalanceHold env flt Committed now (Some job) p db = (None, db')
      \<and> bd_users db' = (bd_users db)(bj_UserID job \<mapsto>
           r\<lparr>ur_balance := numeric 8 (ur_balance r + mo_dec (en_ops env) h), ur_frozen := numeric 8 (ur_frozen r - mo_dec (en_ops env) h)\<rparr>)"
    using call(1) held
    by (auto simp: releaseBatchImageBalanceHold_def build_holdable [OF laws job] h ReleaseBatchImageBalance_def hold_row_def Let_def)
  show "\<not> mo_dec (en_ops env) h \<le> ur_frozen r \<Longrightarrow>
      releaseBatchImageBalanceHold env flt Committed now (Some job) p db = (Some (ErrBatchImageBillingHoldFailed UbFrozenInsufficient), db)"
    using call(2) held
    by (auto simp: releaseBatchImageBalanceHold_def build_holdable [OF laws job] h ReleaseBatchImageBalance_def)
qed

text \<open>
  (C9) A hold ends in a charge or in nothing. If a hold with eight decimals is covered by the balance, it
  is reserved, and then, as long as its keys are new and no statement fails, capturing it leaves the
  balance lower by exactly the actual cost, and releasing it leaves the user's row as it was; in both
  cases nothing of the hold remains.
\<close>

theorem hold_ends_in_charge_or_nothing:
  fixes flt :: "'e faults"
  assumes flt: "\<forall>s. flt s = None" and laws: "float64_laws (en_ops env)" and job: "holdable env job key h"
    and row: "bd_users db (bj_UserID job) = Some r" "\<not> ur_deleted r" "scaled 8 (ur_balance r)" "scaled 8 (ur_frozen r)" "0 \<le> ur_frozen r"
    and h: "scaled 8 (mo_dec (en_ops env) h)" "mo_dec (en_ops env) h \<le> ur_balance r"
    and new: "\<forall>f \<in> {BatchImageHoldRequestID, BatchImageCaptureRequestID, BatchImageReleaseRequestID}. (f (bj_BatchID job), key) \<notin> seen_keys db"
    and a: "\<not> mo_lt (en_ops env) a (mo_flt (en_ops env) 0)" "scaled 8 (mo_dec (en_ops env) a)"
      "\<not> mo_lt (en_ops env) (mo_flt (en_ops env) (1 / 10 ^ 8)) (mo_sub (en_ops env) a h)"
  shows "\<exists>db1 db2 db3. reserveBatchImageBalanceHold env flt Committed t1 job p1 db = (None, db1)
    \<and> captureBatchImageBalanceHold env flt Committed t2 job a p2 db1 = (None, db2)
    \<and> bd_users db2 = (bd_users db)(bj_UserID job \<mapsto> r\<lparr>ur_balance := ur_balance r - mo_dec (en_ops env) a\<rparr>)
    \<and> releaseBatchImageBalanceHold env flt Committed t3 (Some job) p3 db1 = (None, db3)
    \<and> bd_users db3 = bd_users db"
proof -
  let ?h = "mo_dec (en_ops env) h" and ?a = "mo_dec (en_ops env) a" and ?b = "bj_BatchID job"
  let ?r = "r\<lparr>ur_balance := ur_balance r - ?h, ur_frozen := ur_frozen r + ?h\<rparr>"
  note sc = scaled_add scaled_diff row(3,4) h(1) a(2)
  have keys: "(BatchImageHoldRequestID ?b, key) \<notin> seen_keys db" "(BatchImageCaptureRequestID ?b, key) \<notin> seen_keys db"
    "(BatchImageReleaseRequestID ?b, key) \<notin> seen_keys db" using new by simp_all
  obtain fp where res: "reserveBatchImageBalanceHold env flt Committed t1 job p1 db =
      (None, db\<lparr>bd_dedup := (bd_dedup db)((BatchImageHoldRequestID ?b, key) \<mapsto> (fp, t1)), bd_users := (bd_users db)(bj_UserID job \<mapsto> ?r)\<rparr>)"
    using reserve_job [OF flt laws job row(1,2) h(2) keys(1), where now = t1 and p = p1] by (auto simp: sc)
  define db1 where "db1 = db\<lparr>bd_dedup := (bd_dedup db)((BatchImageHoldRequestID ?b, key) \<mapsto> (fp, t1)), bd_users := (bd_users db)(bj_UserID job \<mapsto> ?r)\<rparr>"
  have row1: "bd_users db1 (bj_UserID job) = Some ?r" "\<not> ur_deleted ?r" "?h \<le> ur_frozen ?r" using row by (simp_all add: db1_def)
  have keys1: "(BatchImageCaptureRequestID ?b, key) \<notin> seen_keys db1" "(BatchImageReleaseRequestID ?b, key) \<notin> seen_keys db1"
    "(BatchImageHoldRequestID ?b, key) \<in> seen_keys db1"
    using keys hold_ids(8,9) [OF job] by (auto simp: db1_def)
  have "scaled 8 (ur_balance r - ?a)" by (intro sc)
  then have cap: "\<exists>db2. captureBatchImageBalanceHold env flt Committed t2 job a p2 db1 = (None, db2)
      \<and> bd_users db2 = (bd_users db)(bj_UserID job \<mapsto> r\<lparr>ur_balance := ur_balance r - ?a\<rparr>)"
    using capture_job(1) [OF flt laws job row1(1,2) keys1(1) a(1,3) row1(3), where now = t2 and p = p2]
    by (auto simp: db1_def row(4))
  have same: "(bd_users db)(bj_UserID job \<mapsto> r) = bd_users db" using row(1) by (rule map_upd_triv)
  have "\<exists>db3. releaseBatchImageBalanceHold env flt Committed t3 (Some job) p3 db1 = (None, db3) \<and> bd_users db3 = bd_users db"
    using release_job(1) [OF flt laws job row1(1,2) keys1(2,3) row1(3), where now = t3 and p = p3]
    by (auto simp: db1_def row(3,4) same)
  then show ?thesis using res cap unfolding db1_def [symmetric] by blast
qed

text \<open>
  (C34) A hold that the column rounds down can be neither captured nor released. Holds are not rounded
  before they are stored, unlike the costs of requests: if the amount has more than eight decimals and
  its rounding is smaller, the stored hold is smaller than the amount that capture and release ask for;
  for a user without other holds both fail every time, and the money stays on hold.
\<close>

theorem unrounded_hold_is_stuck:
  fixes flt :: "'e faults"
  assumes flt: "\<forall>s. flt s = None" and laws: "float64_laws (en_ops env)" and job: "holdable env job key h"
    and row: "bd_users db (bj_UserID job) = Some r" "\<not> ur_deleted r" "ur_frozen r = 0"
    and h: "mo_dec (en_ops env) h \<le> ur_balance r" "numeric 8 (mo_dec (en_ops env) h) < mo_dec (en_ops env) h"
    and new: "\<forall>f \<in> {BatchImageHoldRequestID, BatchImageCaptureRequestID, BatchImageReleaseRequestID}. (f (bj_BatchID job), key) \<notin> seen_keys db"
    and a: "\<not> mo_lt (en_ops env) a (mo_flt (en_ops env) 0)" "\<not> mo_lt (en_ops env) (mo_flt (en_ops env) (1 / 10 ^ 8)) (mo_sub (en_ops env) a h)"
  shows "\<exists>db1. reserveBatchImageBalanceHold env flt Committed t1 job p1 db = (None, db1)
    \<and> captureBatchImageBalanceHold env flt Committed t2 job a p2 db1 = (Some (ErrBatchImageSettlementBillingFailed UbFrozenInsufficient), db1)
    \<and> releaseBatchImageBalanceHold env flt Committed t3 (Some job) p3 db1 = (Some (ErrBatchImageBillingHoldFailed UbFrozenInsufficient), db1)"
proof -
  let ?h = "mo_dec (en_ops env) h" and ?b = "bj_BatchID job"
  let ?r = "r\<lparr>ur_balance := numeric 8 (ur_balance r - ?h), ur_frozen := numeric 8 ?h\<rparr>"
  have keys: "(BatchImageHoldRequestID ?b, key) \<notin> seen_keys db" "(BatchImageCaptureRequestID ?b, key) \<notin> seen_keys db"
    "(BatchImageReleaseRequestID ?b, key) \<notin> seen_keys db" using new by simp_all
  obtain fp where res: "reserveBatchImageBalanceHold env flt Committed t1 job p1 db =
      (None, db\<lparr>bd_dedup := (bd_dedup db)((BatchImageHoldRequestID ?b, key) \<mapsto> (fp, t1)), bd_users := (bd_users db)(bj_UserID job \<mapsto> ?r)\<rparr>)"
    using reserve_job [OF flt laws job row(1,2) h(1) keys(1), where now = t1 and p = p1] by (auto simp: row(3))
  define db1 where "db1 = db\<lparr>bd_dedup := (bd_dedup db)((BatchImageHoldRequestID ?b, key) \<mapsto> (fp, t1)), bd_users := (bd_users db)(bj_UserID job \<mapsto> ?r)\<rparr>"
  have row1: "bd_users db1 (bj_UserID job) = Some ?r" "\<not> ur_deleted ?r" "\<not> ?h \<le> ur_frozen ?r" using row h(2) by (simp_all add: db1_def)
  have keys1: "(BatchImageCaptureRequestID ?b, key) \<notin> seen_keys db1" "(BatchImageReleaseRequestID ?b, key) \<notin> seen_keys db1"
    "(BatchImageHoldRequestID ?b, key) \<in> seen_keys db1"
    using keys hold_ids(8,9) [OF job] by (auto simp: db1_def)
  show ?thesis
    using res capture_job(2) [OF flt laws job row1(1,2) keys1(1) a row1(3), where now = t2 and p = p2]
      release_job(2) [OF flt laws job row1(1,2) keys1(2,3) row1(3), where now = t3 and p = p3]
    unfolding db1_def [symmetric] by blast
qed

text \<open>
  Nothing stops the release of a hold that was captured: the keys of the two operations differ, and the
  release only asks whether the hold was ever reserved. It pays the hold out again, from what the user
  has on hold for other jobs.
\<close>

lemma release_after_capture:
  fixes flt :: "'e faults"
  assumes "\<forall>s. flt s = None" and "float64_laws (en_ops env)" and "holdable env job key h"
    and "bd_users db (bj_UserID job) = Some r" "\<not> ur_deleted r" "mo_dec (en_ops env) h \<le> ur_frozen r"
    and "(BatchImageHoldRequestID (bj_BatchID job), key) \<in> seen_keys db" "(BatchImageCaptureRequestID (bj_BatchID job), key) \<in> seen_keys db"
      "(BatchImageReleaseRequestID (bj_BatchID job), key) \<notin> seen_keys db"
  shows "\<exists>db'. releaseBatchImageBalanceHold env flt Committed now (Some job) p db = (None, db')
      \<and> bd_users db' = (bd_users db)(bj_UserID job \<mapsto>
           r\<lparr>ur_balance := numeric 8 (ur_balance r + mo_dec (en_ops env) h), ur_frozen := numeric 8 (ur_frozen r - mo_dec (en_ops env) h)\<rparr>)"
  by (rule release_job(1) [OF assms(1-5,9,7,6)])

text \<open>Witnesses.\<close>

definition small_job :: "rat \<Rightarrow> rat BatchImageJob" where
  "small_job h = \<lparr>bj_BatchID = ''b'', bj_UserID = 1, bj_APIKeyID = Some 2, bj_EstimatedCost = 0, bj_HoldAmount = Some h\<rparr>"

lemma small_job_holdable: "0 < h \<Longrightarrow> holdable exact_env (small_job h) 2 h"
  by (simp add: holdable_def small_job_def exact_env_def exact_ops_def pos_def printable_def)

theorem hold_ends_in_charge_or_nothing_witness:
  "\<exists>db1 db2 db3. reserveBatchImageBalanceHold exact_env no_faults Committed 1 (small_job 4) [] small_db = (None, db1)
    \<and> captureBatchImageBalanceHold exact_env no_faults Committed 2 (small_job 4) 3 [] db1 = (None, db2)
    \<and> bd_users db2 = [1 \<mapsto> \<lparr>ur_balance = 7, ur_frozen = 0, ur_deleted = False\<rparr>]
    \<and> releaseBatchImageBalanceHold exact_env no_faults Committed 3 (Some (small_job 4)) [] db1 = (None, db3)
    \<and> bd_users db3 = bd_users small_db"
proof -
  have u: "bd_users small_db (bj_UserID (small_job 4)) = Some \<lparr>ur_balance = 10, ur_frozen = 0, ur_deleted = False\<rparr>"
    by (simp add: small_db_def small_job_def)
  have "\<forall>s. no_faults s = None" by simp
  from hold_ends_in_charge_or_nothing [OF this exact_laws small_job_holdable u, where a = 3 and ?t1.0 = 1 and ?t2.0 = 2 and ?t3.0 = 3
      and ?p1.0 = "[]" and ?p2.0 = "[]" and ?p3.0 = "[]"]
  show ?thesis by (simp add: scaled_def exact_env_def exact_ops_def small_db_def small_job_def)
qed

theorem unrounded_hold_is_stuck_witness:
  "\<exists>db1. reserveBatchImageBalanceHold exact_env no_faults Committed 1 (small_job (78124 / 10 ^ 9)) [] small_db = (None, db1)
    \<and> captureBatchImageBalanceHold exact_env no_faults Committed 2 (small_job (78124 / 10 ^ 9)) 0 [] db1
        = (Some (ErrBatchImageSettlementBillingFailed UbFrozenInsufficient), db1)
    \<and> releaseBatchImageBalanceHold exact_env no_faults Committed 3 (Some (small_job (78124 / 10 ^ 9))) [] db1
        = (Some (ErrBatchImageBillingHoldFailed UbFrozenInsufficient), db1)"
proof -
  let ?h = "78124 / 10 ^ 9 :: rat"
  have u: "bd_users small_db (bj_UserID (small_job ?h)) = Some \<lparr>ur_balance = 10, ur_frozen = 0, ur_deleted = False\<rparr>"
    by (simp add: small_db_def small_job_def)
  have "\<lfloor>78129 / 10 :: rat\<rfloor> = 7812" by (rule floor_unique) simp_all
  then have n: "numeric 8 ?h < ?h" by (simp add: numeric_def sgn_rat_def)
  have h: "0 < ?h" "?h \<le> 10" by simp_all
  have e: "mo_dec (en_ops exact_env) = id" by (simp add: exact_env_def exact_ops_def)
  have "\<forall>s. no_faults s = None" by simp
  from unrounded_hold_is_stuck [OF this exact_laws small_job_holdable [OF h(1)] u, unfolded e id_apply, OF _ _ _ n,
      where a = 0 and ?t1.0 = 1 and ?t2.0 = 2 and ?t3.0 = 3 and ?p1.0 = "[]" and ?p2.0 = "[]" and ?p3.0 = "[]"]
  show ?thesis using h(2) by (simp add: exact_env_def exact_ops_def small_db_def)
qed

subsection \<open>A command that can be applied is\<close>

definition rows_exist :: "'f bill_env \<Rightarrow> 'f UsageBillingCommand \<Rightarrow> billing_db \<Rightarrow> bool" where
  "rows_exist env c db \<longleftrightarrow>
     (pos (en_ops env) (uc_BalanceCost c) \<longrightarrow> live ur_deleted (bd_users db) (uc_UserID c) \<noteq> None) \<and>
     (pos (en_ops env) (uc_APIKeyQuotaCost c) \<or> pos (en_ops env) (uc_APIKeyRateLimitCost c) \<longrightarrow>
        live kr_deleted (bd_keys db) (uc_APIKeyID c) \<noteq> None) \<and>
     (pos (en_ops env) (uc_AccountQuotaCost c) \<longrightarrow> live ar_deleted (bd_accounts db) (uc_AccountID c) \<noteq> None) \<and>
     (case uc_SubscriptionID c of None \<Rightarrow> True | Some sid \<Rightarrow> pos (en_ops env) (uc_SubscriptionCost c) \<longrightarrow>
        (case live sr_deleted (bd_subs db) sid of None \<Rightarrow> False | Some r \<Rightarrow> bd_groups db (sr_group r) = Some False))"

lemma bindE_ok: "m = Inr x \<Longrightarrow> bindE m f = f x"
  by (simp add: bindE_def)

lemma subscription_ok:
  assumes flt: "\<forall>s. flt s = None" and rows: "rows_exist env c db"
  shows "\<exists>db'. effect_subscription env flt c db = Inr db' \<and> bd_users db' = bd_users db \<and> bd_keys db' = bd_keys db \<and> bd_accounts db' = bd_accounts db"
proof (cases "uc_SubscriptionID c")
  case (Some sid)
  show ?thesis
  proof (cases "pos (en_ops env) (uc_SubscriptionCost c)")
    case True
    then obtain r where "live sr_deleted (bd_subs db) sid = Some r" "bd_groups db (sr_group r) = Some False"
      using rows Some by (auto simp: rows_exist_def split: option.splits)
    then show ?thesis using True Some flt by (simp add: effect_subscription_def incrementUsageBillingSubscription_def stmt_def Let_def)
  qed (simp add: effect_subscription_def Some)
qed (simp add: effect_subscription_def)

lemma balance_ok:
  assumes "\<forall>s. flt s = None" "live ur_deleted (bd_users db) uid = Some r"
  shows "\<exists>nb db'. deductUsageBillingBalance env flt uid v db = Inr ((nb, mo_dec (en_ops env) v \<le> ur_balance r), db')
    \<and> bd_keys db' = bd_keys db \<and> bd_accounts db' = bd_accounts db"
  using assms by (simp add: deductUsageBillingBalance_def stmt_def Let_def)

lemma key_quota_ok:
  assumes "\<forall>s. flt s = None" "live kr_deleted (bd_keys db) k = Some r"
  shows "\<exists>ex db'. incrementUsageBillingAPIKeyQuota env flt k v db = Inr (ex, db') \<and> live kr_deleted (bd_keys db') k \<noteq> None \<and> bd_accounts db' = bd_accounts db"
  using assms by (auto simp: incrementUsageBillingAPIKeyQuota_def stmt_def Let_def live_def key_quota_row_def split: option.splits if_splits)

lemma key_rate_ok:
  assumes "\<forall>s. flt s = None" "live kr_deleted (bd_keys db) k \<noteq> None"
  shows "\<exists>db'. incrementUsageBillingAPIKeyRateLimit env flt now k v db = Inr db' \<and> bd_accounts db' = bd_accounts db"
  using assms by (auto simp: incrementUsageBillingAPIKeyRateLimit_def stmt_def Let_def split: prod.splits)

lemma account_quota_ok:
  assumes "\<forall>s. flt s = None" "live ar_deleted (bd_accounts db) a \<noteq> None"
  shows "\<exists>st db'. incrementUsageBillingAccountQuota env flt now a v db = Inr (st, db')"
  using assms by (auto simp: incrementUsageBillingAccountQuota_def stmt_def Let_def)

lemma effects_ok:
  fixes flt :: "'e faults"
  assumes flt: "\<forall>s. flt s = None" and rows: "rows_exist env c db"
  shows "\<exists>res' db'. applyUsageBillingEffects env flt now c res db = Inr (res', db') \<and> ua_Applied res' = ua_Applied res \<and>
    ua_BalanceOverdrafted res' = (if pos (en_ops env) (uc_BalanceCost c)
      then ur_balance (the (bd_users db (uc_UserID c))) < mo_dec (en_ops env) (uc_BalanceCost c) else ua_BalanceOverdrafted res)"
proof -
  let ?ops = "en_ops env"
  have rows: "pos ?ops (uc_BalanceCost c) \<Longrightarrow> live ur_deleted (bd_users db) (uc_UserID c) \<noteq> None"
      "pos ?ops (uc_APIKeyQuotaCost c) \<Longrightarrow> live kr_deleted (bd_keys db) (uc_APIKeyID c) \<noteq> None"
      "pos ?ops (uc_APIKeyRateLimitCost c) \<Longrightarrow> live kr_deleted (bd_keys db) (uc_APIKeyID c) \<noteq> None"
      "pos ?ops (uc_AccountQuotaCost c) \<Longrightarrow> live ar_deleted (bd_accounts db) (uc_AccountID c) \<noteq> None"
    and all: "rows_exist env c db"
    using rows by (auto simp: rows_exist_def)
  obtain db1 where 1: "effect_subscription env flt c db = Inr db1" "bd_users db1 = bd_users db" "bd_keys db1 = bd_keys db" "bd_accounts db1 = bd_accounts db"
    using subscription_ok [OF flt all] by blast
  have "\<exists>res2 db2. (if pos ?ops (uc_BalanceCost c)
             then bindE (deductUsageBillingBalance env flt (uc_UserID c) (uc_BalanceCost c) db1)
               (\<lambda>((newBalance, sufficient), db).
                  Inr (res\<lparr>ua_NewBalance := Some newBalance, ua_BalanceOverdrafted := \<not> sufficient\<rparr>, db))
             else Inr (res, db1)) = (Inr (res2, db2) :: 'e ub_error + _) \<and> bd_keys db2 = bd_keys db1 \<and> bd_accounts db2 = bd_accounts db1 \<and>
      ua_Applied res2 = ua_Applied res \<and> ua_BalanceOverdrafted res2 = (if pos ?ops (uc_BalanceCost c)
        then ur_balance (the (bd_users db (uc_UserID c))) < mo_dec ?ops (uc_BalanceCost c) else ua_BalanceOverdrafted res)"
  proof (cases "pos ?ops (uc_BalanceCost c)")
    case True
    then obtain r where r: "live ur_deleted (bd_users db1) (uc_UserID c) = Some r" using rows(1) 1(2) by auto
    then have u: "bd_users db (uc_UserID c) = Some r" using 1(2) by (auto simp: live_def split: option.splits if_splits)
    from balance_ok [OF flt r, of env "uc_BalanceCost c"] True u show ?thesis by (auto simp: bindE_def not_le)
  qed simp
  then obtain res2 db2 where 2: "(if pos ?ops (uc_BalanceCost c)
             then bindE (deductUsageBillingBalance env flt (uc_UserID c) (uc_BalanceCost c) db1)
               (\<lambda>((newBalance, sufficient), db).
                  Inr (res\<lparr>ua_NewBalance := Some newBalance, ua_BalanceOverdrafted := \<not> sufficient\<rparr>, db))
             else Inr (res, db1)) = (Inr (res2, db2) :: 'e ub_error + _)" "bd_keys db2 = bd_keys db1" "bd_accounts db2 = bd_accounts db1"
      "ua_Applied res2 = ua_Applied res" "ua_BalanceOverdrafted res2 = (if pos ?ops (uc_BalanceCost c)
        then ur_balance (the (bd_users db (uc_UserID c))) < mo_dec ?ops (uc_BalanceCost c) else ua_BalanceOverdrafted res)" by blast
  have "\<exists>res3 db3. (if pos ?ops (uc_APIKeyQuotaCost c)
             then bindE (incrementUsageBillingAPIKeyQuota env flt (uc_APIKeyID c) (uc_APIKeyQuotaCost c) db2)
               (\<lambda>(exhausted, db). Inr (res2\<lparr>ua_APIKeyQuotaExhausted := exhausted\<rparr>, db))
             else Inr (res2, db2)) = (Inr (res3, db3) :: 'e ub_error + _) \<and> bd_accounts db3 = bd_accounts db2 \<and>
      (pos ?ops (uc_APIKeyRateLimitCost c) \<longrightarrow> live kr_deleted (bd_keys db3) (uc_APIKeyID c) \<noteq> None) \<and>
      ua_Applied res3 = ua_Applied res2 \<and> ua_BalanceOverdrafted res3 = ua_BalanceOverdrafted res2"
  proof (cases "pos ?ops (uc_APIKeyQuotaCost c)")
    case True
    then obtain r where "live kr_deleted (bd_keys db2) (uc_APIKeyID c) = Some r" using rows(2) 1(3) 2(2) by auto
    from key_quota_ok [OF flt this, of env "uc_APIKeyQuotaCost c"] True show ?thesis by (auto simp: bindE_def)
  qed (use rows(3) 1(3) 2(2) in simp)
  then obtain res3 db3 where 3: "(if pos ?ops (uc_APIKeyQuotaCost c)
             then bindE (incrementUsageBillingAPIKeyQuota env flt (uc_APIKeyID c) (uc_APIKeyQuotaCost c) db2)
               (\<lambda>(exhausted, db). Inr (res2\<lparr>ua_APIKeyQuotaExhausted := exhausted\<rparr>, db))
             else Inr (res2, db2)) = (Inr (res3, db3) :: 'e ub_error + _)" "bd_accounts db3 = bd_accounts db2"
      "pos ?ops (uc_APIKeyRateLimitCost c) \<longrightarrow> live kr_deleted (bd_keys db3) (uc_APIKeyID c) \<noteq> None"
      "ua_Applied res3 = ua_Applied res2" "ua_BalanceOverdrafted res3 = ua_BalanceOverdrafted res2" by blast
  obtain db4 where 4: "(if pos ?ops (uc_APIKeyRateLimitCost c)
             then incrementUsageBillingAPIKeyRateLimit env flt now (uc_APIKeyID c) (uc_APIKeyRateLimitCost c) db3
             else Inr db3) = (Inr db4 :: 'e ub_error + _)" "bd_accounts db4 = bd_accounts db3"
    using key_rate_ok [OF flt, of db3 "uc_APIKeyID c" env now "uc_APIKeyRateLimitCost c"] 3(3) by (cases "pos ?ops (uc_APIKeyRateLimitCost c)") auto
  have acc: "\<exists>st db5. incrementUsageBillingAccountQuota env flt now (uc_AccountID c) (uc_AccountQuotaCost c) db4 = Inr (st, db5)"
    if "pos ?ops (uc_AccountQuotaCost c)"
    using account_quota_ok [OF flt] rows(4) [OF that] 1(4) 2(3) 3(2) 4(2) by metis
  show ?thesis
    unfolding applyUsageBillingEffects_def Let_def bindE_ok [OF 1(1)] 2(1) bindE_ok [OF refl] prod.case 3(1) 4(1)
    using acc 2(4,5) 3(4,5) by (auto simp: bindE_def)
qed

text \<open>
  A command that can be applied is applied: if its key is new, the rows it charges exist and nothing
  fails, the call returns a result that says so, whatever the balance; and the result reports an overdraft
  exactly if the cost exceeds the balance.
\<close>

theorem billing_applies:
  fixes flt :: "'e faults"
  assumes flt: "\<forall>s. flt s = None" and rid: "TrimSpace (uc_RequestID cmd) \<noteq> []"
    and new: "entry_key (Charged (Normalize env cmd)) \<notin> seen_keys db" and rows: "rows_exist env (Normalize env cmd) db"
  shows "\<exists>res db'. Apply env flt Committed now (Some cmd) db = (Inr res, db') \<and> ua_Applied res \<and>
    (ua_BalanceOverdrafted res \<longleftrightarrow> pos (en_ops env) (uc_BalanceCost (Normalize env cmd)) \<and>
       ur_balance (the (bd_users db (uc_UserID cmd))) < mo_dec (en_ops env) (uc_BalanceCost (Normalize env cmd)))"
proof -
  let ?c = "Normalize env cmd"
  define db1 where "db1 = db\<lparr>bd_dedup := (bd_dedup db)((uc_RequestID ?c, uc_APIKeyID ?c) \<mapsto> (uc_RequestFingerprint ?c, now))\<rparr>"
  have "bd_dedup db (uc_RequestID ?c, uc_APIKeyID ?c) = None" "bd_archive db (uc_RequestID ?c, uc_APIKeyID ?c) = None" using new by auto
  then have claim: "claimUsageBillingRequest flt now (uc_RequestID ?c) (uc_APIKeyID ?c) (uc_RequestFingerprint ?c) db = Inr (True, db1)"
    using flt by (simp add: claimUsageBillingRequest_def stmt_def db1_def)
  have "rows_exist env ?c db1" using rows unfolding rows_exist_def db1_def by (simp cong: option.case_cong)
  then obtain res db' where
    eff: "applyUsageBillingEffects env flt now ?c (no_result\<lparr>ua_Applied := True\<rparr>) db1 = Inr (res, db')" "ua_Applied res"
    and od: "ua_BalanceOverdrafted res = (if pos (en_ops env) (uc_BalanceCost ?c)
        then ur_balance (the (bd_users db1 (uc_UserID ?c))) < mo_dec (en_ops env) (uc_BalanceCost ?c)
        else ua_BalanceOverdrafted (no_result\<lparr>ua_Applied := True\<rparr> :: 'a UsageBillingApplyResult))"
    using effects_ok [OF flt, of env ?c db1 now "no_result\<lparr>ua_Applied := True\<rparr>"] by auto
  have od': "ua_BalanceOverdrafted res \<longleftrightarrow> pos (en_ops env) (uc_BalanceCost ?c) \<and> ur_balance (the (bd_users db (uc_UserID cmd))) < mo_dec (en_ops env) (uc_BalanceCost ?c)"
    unfolding od by (simp add: db1_def no_result_def)
  have "apply_tx env flt now cmd db = Inr (Some (res, db'))"
    unfolding apply_tx_def Let_def claimed_def bindE_ok [OF claim] prod.case using flt rid by (simp add: stmt_def bindE_ok [OF eff(1)])
  then show ?thesis using eff(2) od' by (simp add: Apply_def finish_def)
qed

theorem billing_applies_witness:
  "\<exists>res db'. Apply exact_env no_faults Committed 1 (Some small_cmd) small_db = (Inr res, db') \<and> ua_Applied res \<and> \<not> ua_BalanceOverdrafted res"
proof -
  have 1: "\<forall>s. no_faults s = None" by simp
  have 2: "TrimSpace (uc_RequestID small_cmd) \<noteq> []" by (simp add: small_cmd_def)
  have 3: "entry_key (Charged (Normalize exact_env small_cmd)) \<notin> seen_keys small_db" by (simp add: small_db_def)
  have 4: "rows_exist exact_env (Normalize exact_env small_cmd) small_db"
    by (simp add: rows_exist_def small_db_def live_def Normalize_def quantizeMonetaryFields_def small_cmd_def Let_def
        pos_def exact_env_def exact_ops_def QuantizeUsageBillingAmount_def)
  from billing_applies [OF 1 2 3 4, where now = 1]
  show ?thesis by (simp add: small_db_def small_cmd_def exact_env_def exact_ops_def QuantizeUsageBillingAmount_def pos_def UsageBillingMonetaryScale_def)
qed

end
