(* ===== verification/Proxy_Circuit.thy ===== *)
theory Proxy_Circuit
  imports Relay_Prelude Go_Time "HOL-Library.AList" "HOL-Library.Sublist"
begin

text \<open>
  \<open>service/openai_proxy_stream_circuit.go\<close>: a circuit breaker per proxy. Streams that break off count as
  failures of their proxy; enough of them within a window put the proxy into quarantine for a while.
  Failures that come close after each other are one incident, because the loss of one connection ends
  all streams on it.

  The map of entries is an association list without duplicates. Every operation holds the lock of the
  circuit, so an operation is one step; the order in which a loop meets the entries of the map is an
  argument. The clock is an argument as well. Logging is left out, and so is the counter that limits it.

  Shown are that the number of entries is bounded, that a proxy is in quarantine only if enough separate
  incidents occurred within one window, that enough incidents do put it into quarantine, for the time that
  is configured, and that the number of blocked proxies is counted right.
\<close>

subsection \<open>Settings\<close>

record circuit_settings =
  cs_disabled :: bool
  cs_failureThreshold :: int
  cs_failureWindow :: duration
  cs_quarantineTTL :: duration
  cs_collapseInterval :: duration
  cs_maxEntries :: int

record circuit_config =
  cc_Disabled :: bool
  cc_FailureThreshold :: int
  cc_WindowSeconds :: int
  cc_TTLSeconds :: int

definition default_settings :: circuit_settings where
  "default_settings = \<lparr>cs_disabled = False, cs_failureThreshold = 2, cs_failureWindow = 60 * second_ns,
     cs_quarantineTTL = 600 * second_ns, cs_collapseInterval = 3 * second_ns, cs_maxEntries = 4096\<rparr>"

definition resolveOpenAIProxyStreamCircuitSettings :: "circuit_config option \<Rightarrow> circuit_settings" where
  "resolveOpenAIProxyStreamCircuitSettings cfg =
     (case cfg of
        None \<Rightarrow> default_settings
      | Some cfg \<Rightarrow>
          let s = default_settings\<lparr>cs_disabled := cc_Disabled cfg\<rparr>;
              s = (if 0 < cc_FailureThreshold cfg then s\<lparr>cs_failureThreshold := cc_FailureThreshold cfg\<rparr> else s);
              s = (if 0 < cc_WindowSeconds cfg then s\<lparr>cs_failureWindow := wrap64 (cc_WindowSeconds cfg * second_ns)\<rparr> else s)
          in if 0 < cc_TTLSeconds cfg then s\<lparr>cs_quarantineTTL := wrap64 (cc_TTLSeconds cfg * second_ns)\<rparr> else s)"

record circuit_entry =
  ce_failureCount :: int
  ce_windowStart :: instant
  ce_lastFailureAt :: instant
  ce_blockedUntil :: instant
  ce_lastTouched :: instant

definition zero_entry :: circuit_entry where
  "zero_entry = \<lparr>ce_failureCount = 0, ce_windowStart = zero_time, ce_lastFailureAt = zero_time,
     ce_blockedUntil = zero_time, ce_lastTouched = zero_time\<rparr>"

record circuit =
  ci_settings :: circuit_settings
  ci_entries :: "(int \<times> circuit_entry) list"

definition newOpenAIProxyStreamCircuit :: "circuit_settings \<Rightarrow> circuit" where
  "newOpenAIProxyStreamCircuit s =
     (let s = (if cs_failureThreshold s \<le> 0 then s\<lparr>cs_failureThreshold := cs_failureThreshold default_settings\<rparr> else s);
          s = (if cs_failureWindow s \<le> 0 then s\<lparr>cs_failureWindow := cs_failureWindow default_settings\<rparr> else s);
          s = (if cs_quarantineTTL s \<le> 0 then s\<lparr>cs_quarantineTTL := cs_quarantineTTL default_settings\<rparr> else s);
          s = (if cs_maxEntries s \<le> 0 then s\<lparr>cs_maxEntries := cs_maxEntries default_settings\<rparr> else s);
          s = (if cs_collapseInterval s < 0 then s\<lparr>cs_collapseInterval := 0\<rparr> else s)
      in \<lparr>ci_settings = s, ci_entries = []\<rparr>)"

subsection \<open>Operations\<close>

text \<open>An iteration over the map.\<close>

type_synonym iteration = "(int \<times> circuit_entry) list \<Rightarrow> (int \<times> circuit_entry) list"

definition stale :: "circuit_settings \<Rightarrow> instant \<Rightarrow> circuit_entry \<Rightarrow> bool" where
  "stale s now e \<longleftrightarrow>
     (ce_blockedUntil e = zero_time \<and> cs_failureWindow s < time_Sub now (ce_lastTouched e))
     \<or> (ce_blockedUntil e \<noteq> zero_time \<and> \<not> now < ce_blockedUntil e)"

fun find_oldest :: "(int \<times> circuit_entry) list \<Rightarrow> int \<times> instant \<Rightarrow> int \<times> instant" where
  "find_oldest [] best = best"
| "find_oldest ((p, e) # rest) (oldestProxyID, oldest) =
     find_oldest rest (if oldestProxyID = 0 \<or> ce_lastTouched e < oldest then (p, ce_lastTouched e) else (oldestProxyID, oldest))"

definition ensureCapacityLocked :: "iteration \<Rightarrow> instant \<Rightarrow> circuit \<Rightarrow> circuit" where
  "ensureCapacityLocked it now c =
     (let s = ci_settings c; full = (\<lambda>es. \<not> int (length es) < cs_maxEntries s) in
      if \<not> full (ci_entries c) then c
      else let c = c\<lparr>ci_entries := filter (\<lambda>(p, e). \<not> stale s now e) (ci_entries c)\<rparr> in
           if \<not> full (ci_entries c) then c
           else let oldestProxyID = fst (find_oldest (it (ci_entries c)) (0, zero_time)) in
                if 0 < oldestProxyID then c\<lparr>ci_entries := AList.delete oldestProxyID (ci_entries c)\<rparr> else c)"

definition store :: "int \<Rightarrow> circuit_entry \<Rightarrow> circuit \<Rightarrow> circuit" where
  "store p e c = c\<lparr>ci_entries := AList.update p e (ci_entries c)\<rparr>"

definition restart_window :: "circuit_settings \<Rightarrow> instant \<Rightarrow> circuit_entry \<Rightarrow> circuit_entry" where
  "restart_window s now e =
     (if ce_windowStart e = zero_time \<or> now < ce_windowStart e \<or> cs_failureWindow s < time_Sub now (ce_windowStart e)
      then e\<lparr>ce_failureCount := 0, ce_windowStart := now, ce_blockedUntil := zero_time\<rparr> else e)"

definition same_incident :: "circuit_settings \<Rightarrow> instant \<Rightarrow> circuit_entry \<Rightarrow> bool" where
  "same_incident s now e \<longleftrightarrow> 0 < cs_collapseInterval s \<and> ce_lastFailureAt e \<noteq> zero_time
     \<and> 0 \<le> time_Sub now (ce_lastFailureAt e) \<and> time_Sub now (ce_lastFailureAt e) < cs_collapseInterval s"

definition count_failure :: "circuit_settings \<Rightarrow> instant \<Rightarrow> circuit_entry \<Rightarrow> circuit_entry" where
  "count_failure s now e =
     (let e = e\<lparr>ce_failureCount := ce_failureCount e + 1, ce_lastFailureAt := now, ce_lastTouched := now\<rparr>
      in if cs_failureThreshold s \<le> ce_failureCount e then e\<lparr>ce_blockedUntil := now + cs_quarantineTTL s\<rparr> else e)"

definition recordFailure :: "iteration \<Rightarrow> circuit \<Rightarrow> int \<Rightarrow> instant \<Rightarrow> (bool \<times> instant) \<times> circuit" where
  "recordFailure it c proxyID now =
     (let s = ci_settings c; found = map_of (ci_entries c) proxyID;
          entry = (case found of Some e \<Rightarrow> e | None \<Rightarrow> zero_entry) in
      if cs_disabled s \<or> proxyID \<le> 0 then ((False, zero_time), c)
      else if found \<noteq> None \<and> now < ce_blockedUntil entry
      then ((False, ce_blockedUntil entry), store proxyID (entry\<lparr>ce_lastTouched := now\<rparr>) c)
      else let c = (if found = None then ensureCapacityLocked it now c else c);
               entry = restart_window s now entry
           in if same_incident s now entry
              then ((False, zero_time), store proxyID (entry\<lparr>ce_lastTouched := now\<rparr>) c)
              else let entry = count_failure s now entry
                   in ((cs_failureThreshold s \<le> ce_failureCount entry, ce_blockedUntil entry), store proxyID entry c))"

definition recordSuccess :: "circuit \<Rightarrow> int \<Rightarrow> bool \<times> circuit" where
  "recordSuccess c proxyID =
     (if proxyID \<le> 0 then (False, c)
      else if map_of (ci_entries c) proxyID = None then (False, c)
      else (True, c\<lparr>ci_entries := AList.delete proxyID (ci_entries c)\<rparr>))"

definition isBlocked :: "circuit \<Rightarrow> int \<Rightarrow> instant \<Rightarrow> bool \<times> circuit" where
  "isBlocked c proxyID now =
     (if cs_disabled (ci_settings c) \<or> proxyID \<le> 0 then (False, c)
      else case map_of (ci_entries c) proxyID of
             None \<Rightarrow> (False, c)
           | Some entry \<Rightarrow>
               if ce_blockedUntil entry = zero_time then (False, c)
               else if \<not> now < ce_blockedUntil entry then (False, c\<lparr>ci_entries := AList.delete proxyID (ci_entries c)\<rparr>)
               else (True, c))"

definition activeBlockCount :: "circuit \<Rightarrow> instant \<Rightarrow> nat" where
  "activeBlockCount c now =
     (if cs_disabled (ci_settings c) then 0
      else length (filter (\<lambda>(p, e). ce_blockedUntil e \<noteq> zero_time \<and> now < ce_blockedUntil e) (ci_entries c)))"

subsection \<open>Calls of the gateway\<close>

record circuit_account =
  ca_Platform :: string
  ca_ProxyID :: "int option"

definition openAIProxyStreamCircuitProxyID :: "circuit_account option \<Rightarrow> int option" where
  "openAIProxyStreamCircuitProxyID account =
     (case account of
        None \<Rightarrow> None
      | Some a \<Rightarrow>
          if ca_Platform a \<noteq> ''openai'' then None
          else (case ca_ProxyID a of None \<Rightarrow> None | Some p \<Rightarrow> if p \<le> 0 then None else Some p))"

text \<open>How a stream broke off: the caller gave up, its time was over, or something else.\<close>

datatype stream_error = ContextCanceled | ContextDeadlineExceeded | StreamBroken

definition recordOpenAIProxyStreamDisconnect ::
  "iteration \<Rightarrow> circuit \<Rightarrow> circuit_account option \<Rightarrow> stream_error option \<Rightarrow> instant \<Rightarrow> circuit" where
  "recordOpenAIProxyStreamDisconnect it c account streamErr now =
     (case openAIProxyStreamCircuitProxyID account of
        None \<Rightarrow> c
      | Some proxyID \<Rightarrow> if streamErr = Some StreamBroken then snd (recordFailure it c proxyID now) else c)"

definition clearOpenAIProxyStreamDisconnect :: "circuit \<Rightarrow> circuit_account option \<Rightarrow> circuit" where
  "clearOpenAIProxyStreamDisconnect c account =
     (case openAIProxyStreamCircuitProxyID account of
        None \<Rightarrow> c
      | Some proxyID \<Rightarrow> snd (recordSuccess c proxyID))"

definition isOpenAIProxyStreamQuarantined :: "circuit \<Rightarrow> bool \<Rightarrow> circuit_account option \<Rightarrow> instant \<Rightarrow> bool \<times> circuit" where
  "isOpenAIProxyStreamQuarantined c bypassed account now =
     (case openAIProxyStreamCircuitProxyID account of
        None \<Rightarrow> (False, c)
      | Some proxyID \<Rightarrow> if bypassed then (False, c) else isBlocked c proxyID now)"

subsection \<open>Runs\<close>

text \<open>
  The history of a proxy is the list of its broken streams since its last completed one, whatever the
  circuit remembers of them.
\<close>

type_synonym history = "int \<Rightarrow> instant list"

definition note_disconnect :: "history \<Rightarrow> circuit_account option \<Rightarrow> stream_error option \<Rightarrow> instant \<Rightarrow> history" where
  "note_disconnect h account streamErr now =
     (case openAIProxyStreamCircuitProxyID account of
        None \<Rightarrow> h
      | Some p \<Rightarrow> if streamErr = Some StreamBroken then h(p := h p @ [now]) else h)"

definition note_completion :: "history \<Rightarrow> circuit_account option \<Rightarrow> history" where
  "note_completion h account =
     (case openAIProxyStreamCircuitProxyID account of None \<Rightarrow> h | Some p \<Rightarrow> h(p := []))"

text \<open>Calls come in the order of the clock, which shows a time after the epoch.\<close>

inductive circuit_run :: "circuit_settings \<Rightarrow> history \<Rightarrow> instant \<Rightarrow> circuit \<Rightarrow> bool" for s where
  run_new: "circuit_run s (\<lambda>p. []) 0 (newOpenAIProxyStreamCircuit s)"
| run_disconnect:
    "circuit_run s h t c \<Longrightarrow> t \<le> now \<Longrightarrow> now < 2 ^ 62 \<Longrightarrow> \<forall>xs. set (it xs) = set xs \<Longrightarrow>
     circuit_run s (note_disconnect h account streamErr now) now
       (recordOpenAIProxyStreamDisconnect it c account streamErr now)"
| run_completion:
    "circuit_run s h t c \<Longrightarrow> circuit_run s (note_completion h account) t (clearOpenAIProxyStreamDisconnect c account)"
| run_query:
    "circuit_run s h t c \<Longrightarrow> t \<le> now \<Longrightarrow> now < 2 ^ 62 \<Longrightarrow>
     circuit_run s h now (snd (isOpenAIProxyStreamQuarantined c bypassed account now))"

subsection \<open>The table of entries\<close>

definition positive_settings :: "circuit_settings \<Rightarrow> bool" where
  "positive_settings s \<longleftrightarrow> 0 < cs_failureThreshold s \<and> 0 < cs_failureWindow s \<and> 0 < cs_quarantineTTL s
     \<and> 0 < cs_maxEntries s \<and> 0 \<le> cs_collapseInterval s"

definition table_ok :: "circuit \<Rightarrow> bool" where
  "table_ok c \<longleftrightarrow> distinct (map fst (ci_entries c)) \<and> (\<forall>p \<in> fst ` set (ci_entries c). 0 < p)
     \<and> int (length (ci_entries c)) \<le> cs_maxEntries (ci_settings c)"

lemma new_positive: "positive_settings (ci_settings (newOpenAIProxyStreamCircuit s))"
  by (simp add: newOpenAIProxyStreamCircuit_def positive_settings_def default_settings_def second_ns_def Let_def)

lemma new_table_ok: "table_ok (newOpenAIProxyStreamCircuit s)"
  by (simp add: newOpenAIProxyStreamCircuit_def table_ok_def default_settings_def second_ns_def Let_def)

lemma find_oldest_in: "fst (find_oldest xs b) \<in> insert (fst b) (fst ` set xs)"
proof (induction xs b rule: find_oldest.induct)
  case (2 p e rest q old)
  then show ?case by (cases "q = 0 \<or> ce_lastTouched e < old") (simp_all, blast+)
qed simp

lemma find_oldest_positive:
  "(\<forall>q \<in> fst ` set xs. 0 < q) \<Longrightarrow> xs \<noteq> [] \<Longrightarrow> fst (find_oldest xs (0, z)) \<in> fst ` set xs"
proof -
  assume pos: "\<forall>q \<in> fst ` set xs. 0 < q" and "xs \<noteq> []"
  then obtain p e rest where xs: "xs = (p, e) # rest" by (metis list.exhaust surj_pair)
  show ?thesis using find_oldest_in [of rest "(p, ce_lastTouched e)"] pos by (auto simp: xs)
qed

lemma length_delete:
  "distinct (map fst xs) \<Longrightarrow> p \<in> fst ` set xs \<Longrightarrow> length (AList.delete p xs) < length xs"
proof (induction xs)
  case (Cons x xs)
  then show ?case using length_delete_le [of p xs] by (cases "fst x = p") auto
qed simp

lemma length_update:
  "length (AList.update p e xs) = (if p \<in> fst ` set xs then length xs else Suc (length xs))"
  by (induction xs) auto

lemma in_set_update:
  "distinct (map fst xs) \<Longrightarrow> set (AList.update p e xs) = insert (p, e) {x \<in> set xs. fst x \<noteq> p}"
  by (induction xs) force+

lemma ensureCapacityLocked_settings [simp]: "ci_settings (ensureCapacityLocked it now c) = ci_settings c"
  by (simp add: ensureCapacityLocked_def Let_def)

lemma ensureCapacityLocked_subset: "set (ci_entries (ensureCapacityLocked it now c)) \<subseteq> set (ci_entries c)"
  by (auto simp: ensureCapacityLocked_def Let_def AList.delete_eq)

lemma ensureCapacityLocked_distinct:
  "distinct (map fst (ci_entries c)) \<Longrightarrow> distinct (map fst (ci_entries (ensureCapacityLocked it now c)))"
  by (auto simp: ensureCapacityLocked_def Let_def distinct_map_filter intro: distinct_delete)

lemma ensureCapacityLocked_room:
  assumes c: "table_ok c" and m: "0 < cs_maxEntries (ci_settings c)" and it: "\<forall>xs. set (it xs) = set xs"
  shows "int (length (ci_entries (ensureCapacityLocked it now c))) < cs_maxEntries (ci_settings c)"
proof -
  define es where "es = filter (\<lambda>(p, e). \<not> stale (ci_settings c) now e) (ci_entries c)"
  have d: "distinct (map fst es)" using c by (auto simp: es_def table_ok_def distinct_map_filter)
  have pos: "\<forall>q \<in> fst ` set (it es). 0 < q" using c it by (auto simp: es_def table_ok_def)
  have len: "int (length es) \<le> cs_maxEntries (ci_settings c)"
    using c length_filter_le [of "\<lambda>(p, e). \<not> stale (ci_settings c) now e" "ci_entries c"]
    unfolding table_ok_def es_def by linarith
  show ?thesis
  proof (cases "es = []")
    case True then show ?thesis using m by (auto simp: ensureCapacityLocked_def Let_def es_def)
  next
    case False
    then have "it es \<noteq> []" using it by (metis set_empty)
    from find_oldest_positive [OF pos this, of zero_time]
    have old: "fst (find_oldest (it es) (0, zero_time)) \<in> fst ` set es" using it by simp
    then have "0 < fst (find_oldest (it es) (0, zero_time))" using pos it by auto
    then show ?thesis
      using length_delete [OF d old] len by (auto simp: ensureCapacityLocked_def Let_def es_def)
  qed
qed

lemma store_ok:
  assumes c: "table_ok c" and p: "0 < p"
    and room: "p \<in> fst ` set (ci_entries c) \<or> int (length (ci_entries c)) < cs_maxEntries (ci_settings c)"
  shows "table_ok (store p e c)"
    and "set (ci_entries (store p e c)) = insert (p, e) {x \<in> set (ci_entries c). fst x \<noteq> p}"
    and "ci_settings (store p e c) = ci_settings c"
proof -
  have d: "distinct (map fst (ci_entries c))" using c by (simp add: table_ok_def)
  show s: "set (ci_entries (store p e c)) = insert (p, e) {x \<in> set (ci_entries c). fst x \<noteq> p}"
    by (simp add: store_def in_set_update [OF d])
  have "distinct (map fst (ci_entries (store p e c)))" using d by (simp add: store_def distinct_update)
  moreover have "\<forall>q \<in> fst ` set (ci_entries (store p e c)). 0 < q" using c p by (auto simp: s table_ok_def)
  moreover have "int (length (ci_entries (store p e c))) \<le> cs_maxEntries (ci_settings c)"
    using c room by (auto simp: store_def length_update table_ok_def)
  ultimately show "table_ok (store p e c)" by (simp add: table_ok_def store_def)
qed (simp add: store_def)

lemma forget_ok:
  assumes c: "table_ok c"
  shows "table_ok (c\<lparr>ci_entries := AList.delete p (ci_entries c)\<rparr>)"
    and "set (AList.delete p (ci_entries c)) = {x \<in> set (ci_entries c). fst x \<noteq> p}"
proof -
  show s: "set (AList.delete p (ci_entries c)) = {x \<in> set (ci_entries c). fst x \<noteq> p}"
    by (auto simp: AList.delete_eq)
  show "table_ok (c\<lparr>ci_entries := AList.delete p (ci_entries c)\<rparr>)"
    using c length_delete_le [of p "ci_entries c"] by (auto simp: table_ok_def distinct_delete s)
qed

lemma lookup_in: "table_ok c \<Longrightarrow> map_of (ci_entries c) p = Some e \<longleftrightarrow> (p, e) \<in> set (ci_entries c)"
  by (simp add: table_ok_def)

lemma lookup_none: "map_of (ci_entries c) p = None \<longleftrightarrow> p \<notin> fst ` set (ci_entries c)"
  by (simp add: map_of_eq_None_iff)

lemma ensureCapacityLocked_ok:
  assumes "table_ok c" "0 < cs_maxEntries (ci_settings c)" "\<forall>xs. set (it xs) = set xs"
  shows "table_ok (ensureCapacityLocked it now c)"
  using ensureCapacityLocked_room [OF assms, of now] ensureCapacityLocked_subset [of it now c]
    ensureCapacityLocked_distinct [of c it now] assms(1) by (auto simp: table_ok_def)

subsection \<open>What an entry says about its proxy\<close>

text \<open>Separate incidents within one window.\<close>

definition incidents :: "circuit_settings \<Rightarrow> instant list \<Rightarrow> bool" where
  "incidents s ts \<longleftrightarrow> sorted_wrt (\<lambda>a b. cs_collapseInterval s \<le> b - a) ts"

definition entry_ok :: "circuit_settings \<Rightarrow> instant list \<Rightarrow> instant \<Rightarrow> circuit_entry \<Rightarrow> bool" where
  "entry_ok s h t e \<longleftrightarrow> 0 \<le> ce_windowStart e \<and> ce_windowStart e \<le> t
     \<and> (ce_lastFailureAt e = zero_time \<or> 0 \<le> ce_lastFailureAt e \<and> ce_lastFailureAt e \<le> t)
     \<and> (ce_blockedUntil e = zero_time \<or> cs_failureThreshold s \<le> ce_failureCount e
          \<and> ce_blockedUntil e = ce_lastFailureAt e + cs_quarantineTTL s)
     \<and> (\<exists>ts. subseq ts h \<and> int (length ts) = ce_failureCount e \<and> incidents s ts
          \<and> (\<forall>x \<in> set ts. ce_windowStart e \<le> x \<and> x \<le> ce_windowStart e + cs_failureWindow s)
          \<and> (ts \<noteq> [] \<longrightarrow> ce_lastFailureAt e = last ts))"

lemma entry_ok_blocked:
  assumes e: "entry_ok s h t e" and b: "ce_blockedUntil e \<noteq> zero_time" and s: "0 < cs_failureThreshold s"
  shows "\<exists>ts. subseq ts h \<and> cs_failureThreshold s \<le> int (length ts) \<and> incidents s ts
     \<and> last ts - hd ts \<le> cs_failureWindow s \<and> ce_blockedUntil e = last ts + cs_quarantineTTL s"
proof -
  obtain ts where ts: "subseq ts h" "int (length ts) = ce_failureCount e" "incidents s ts"
      "\<forall>x \<in> set ts. ce_windowStart e \<le> x \<and> x \<le> ce_windowStart e + cs_failureWindow s"
      "ts \<noteq> [] \<longrightarrow> ce_lastFailureAt e = last ts"
    using e by (auto simp: entry_ok_def)
  have n: "cs_failureThreshold s \<le> int (length ts)" and u: "ce_blockedUntil e = ce_lastFailureAt e + cs_quarantineTTL s"
    using e b ts(2) by (auto simp: entry_ok_def)
  have ne: "ts \<noteq> []" using n s by auto
  have "last ts \<le> ce_windowStart e + cs_failureWindow s" "ce_windowStart e \<le> hd ts"
    using ts(4) last_in_set [OF ne] hd_in_set [OF ne] by blast+
  then have "last ts - hd ts \<le> cs_failureWindow s" by simp
  then show ?thesis using ts n u ne by auto
qed

lemma entry_ok_later:
  assumes e: "entry_ok s h t e" and h: "subseq h h'" and t: "t \<le> t'"
  shows "entry_ok s h' t' (e\<lparr>ce_lastTouched := x\<rparr>)"
proof -
  have "subseq ts h \<Longrightarrow> subseq ts h'" for ts using h subseq_order.trans by blast
  then show ?thesis using e t unfolding entry_ok_def by fastforce
qed

lemma time_Sub_clock: "0 \<le> u \<Longrightarrow> u \<le> t \<Longrightarrow> t < 2 ^ 62 \<Longrightarrow> time_Sub t u = t - u"
  by (simp add: time_Sub_exact)

lemma restart_window_ok:
  assumes e: "entry_ok s h t e \<or> e = zero_entry" and t: "0 \<le> t" "t \<le> now" "now < 2 ^ 62" and w: "0 < cs_failureWindow s"
  shows "entry_ok s h now (restart_window s now e)"
    and "now \<le> ce_windowStart (restart_window s now e) + cs_failureWindow s"
proof -
  have neg: "zero_time < 0" by (simp add: zero_time_def second_ns_def)
  let ?restart = "ce_windowStart e = zero_time \<or> now < ce_windowStart e \<or> cs_failureWindow s < time_Sub now (ce_windowStart e)"
  have "entry_ok s h now (restart_window s now e) \<and> now \<le> ce_windowStart (restart_window s now e) + cs_failureWindow s"
  proof (cases ?restart)
    case True
    have "entry_ok s h now (e\<lparr>ce_failureCount := 0, ce_windowStart := now, ce_blockedUntil := zero_time\<rparr>)"
      using e t neg by (auto simp: entry_ok_def zero_entry_def incidents_def intro: exI [of _ "[]"])
    then show ?thesis using True w by (simp add: restart_window_def)
  next
    case False
    then have ok: "entry_ok s h t e" using e by (auto simp: zero_entry_def)
    then have "time_Sub now (ce_windowStart e) = now - ce_windowStart e"
      using t by (intro time_Sub_clock) (auto simp: entry_ok_def)
    then show ?thesis
      using False entry_ok_later [OF ok subseq_order.refl t(2), of "ce_lastTouched e"] by (simp add: restart_window_def)
  qed
  then show "entry_ok s h now (restart_window s now e)"
    and "now \<le> ce_windowStart (restart_window s now e) + cs_failureWindow s" by simp_all
qed

lemma incidents_snoc:
  assumes "incidents s ts" "0 \<le> cs_collapseInterval s" "ts \<noteq> [] \<longrightarrow> cs_collapseInterval s \<le> now - last ts"
  shows "incidents s (ts @ [now])"
proof -
  have "x \<le> last ts" if "x \<in> set ts" for x
    using that assms(1,2) by (cases ts rule: rev_cases) (auto simp: incidents_def sorted_wrt_append)
  then show ?thesis using assms by (fastforce simp: incidents_def sorted_wrt_append)
qed

lemma count_failure_ok:
  assumes e: "entry_ok s h now e" and w: "now \<le> ce_windowStart e + cs_failureWindow s" and now: "now < 2 ^ 62"
    and c: "0 \<le> cs_collapseInterval s" and new: "\<not> same_incident s now e"
  shows "entry_ok s (h @ [now]) now (count_failure s now e)"
proof -
  obtain ts where ts: "subseq ts h" "int (length ts) = ce_failureCount e" "incidents s ts"
      "\<forall>x \<in> set ts. ce_windowStart e \<le> x \<and> x \<le> ce_windowStart e + cs_failureWindow s"
      "ts \<noteq> [] \<longrightarrow> ce_lastFailureAt e = last ts"
    using e by (auto simp: entry_ok_def)
  have win: "0 \<le> ce_windowStart e" "ce_windowStart e \<le> now" using e by (auto simp: entry_ok_def)
  have "cs_collapseInterval s \<le> now - last ts" if "ts \<noteq> []"
  proof -
    have l: "ce_lastFailureAt e = last ts" "0 \<le> last ts"
      using ts(4,5) that win(1) last_in_set [OF that] by (simp, fastforce)
    then have nz: "ce_lastFailureAt e \<noteq> zero_time" by (simp add: zero_time_def second_ns_def)
    then have "last ts \<le> now" using e l by (auto simp: entry_ok_def)
    then show ?thesis using new nz l c now by (auto simp: same_incident_def time_Sub_clock)
  qed
  then have "incidents s (ts @ [now])" using incidents_snoc ts(3) c by blast
  moreover have "subseq (ts @ [now]) (h @ [now])" using ts(1) by (simp add: list_emb_append_mono)
  ultimately have "\<exists>us. subseq us (h @ [now]) \<and> int (length us) = ce_failureCount e + 1 \<and> incidents s us
      \<and> (\<forall>x \<in> set us. ce_windowStart e \<le> x \<and> x \<le> ce_windowStart e + cs_failureWindow s) \<and> (us \<noteq> [] \<longrightarrow> now = last us)"
    using ts(2,4) win w by (intro exI [of _ "ts @ [now]"]) auto
  then show ?thesis using win e by (auto simp: entry_ok_def count_failure_def Let_def)
qed

subsection \<open>The invariant of a circuit\<close>

definition circuit_ok :: "circuit_settings \<Rightarrow> history \<Rightarrow> instant \<Rightarrow> circuit \<Rightarrow> bool" where
  "circuit_ok s h t c \<longleftrightarrow> ci_settings c = s \<and> positive_settings s \<and> table_ok c \<and> 0 \<le> t
     \<and> (\<forall>(p, e) \<in> set (ci_entries c). entry_ok s (h p) t e)"

lemma circuit_ok_store:
  assumes c: "circuit_ok s h t c" and p: "0 < p" and t: "t \<le> now"
    and room: "p \<in> fst ` set (ci_entries c) \<or> int (length (ci_entries c)) < cs_maxEntries s"
    and e: "entry_ok s (h p @ [now]) now e"
  shows "circuit_ok s (h(p := h p @ [now])) now (store p e c)"
proof -
  have s: "ci_settings c = s" and tab: "table_ok c" using c by (simp_all add: circuit_ok_def)
  note st = store_ok [OF tab p room [folded s], of e]
  have "entry_ok s (h q) now f" if "(q, f) \<in> set (ci_entries c)" for q f
    using that c t entry_ok_later [of s "h q" t f "h q" now "ce_lastTouched f"] by (auto simp: circuit_ok_def)
  then show ?thesis using c t st e by (auto simp: circuit_ok_def)
qed

lemma circuit_ok_subset:
  assumes c: "circuit_ok s h t c" and d: "table_ok d" "ci_settings d = ci_settings c"
      "set (ci_entries d) \<subseteq> set (ci_entries c)" and t: "t \<le> t'"
    and h: "\<forall>(p, e) \<in> set (ci_entries d). h' p = h p"
  shows "circuit_ok s h' t' d"
proof -
  have "entry_ok s (h' q) t' f" if q: "(q, f) \<in> set (ci_entries d)" for q f
  proof -
    have "entry_ok s (h q) t f" "h' q = h q" using q c d(3) h by (auto simp: circuit_ok_def)
    then show ?thesis using t entry_ok_later [of s "h q" t f "h q" t' "ce_lastTouched f"] by simp
  qed
  then show ?thesis using c d t by (auto simp: circuit_ok_def)
qed

lemma circuit_ok_unseen:
  assumes c: "circuit_ok s h t c" and t: "t \<le> now"
  shows "circuit_ok s (h(p := h p @ [now])) now c"
proof -
  have "entry_ok s ((h(p := h p @ [now])) q) now f" if "(q, f) \<in> set (ci_entries c)" for q f
  proof -
    have "entry_ok s (h q) t f" using that c by (auto simp: circuit_ok_def)
    moreover have "subseq (h q) ((h(p := h p @ [now])) q)" by (simp add: list_emb_prefix)
    ultimately show ?thesis using entry_ok_later [OF _ _ t, of s "h q" f _ "ce_lastTouched f"] by simp
  qed
  then show ?thesis using c t by (auto simp: circuit_ok_def)
qed

lemma recordFailure_ok:
  assumes c: "circuit_ok s h t c" and t: "t \<le> now" "now < 2 ^ 62" and it: "\<forall>xs. set (it xs) = set xs" and p: "0 < p"
  shows "circuit_ok s (h(p := h p @ [now])) now (snd (recordFailure it c p now))"
proof -
  have s: "ci_settings c = s" and tab: "table_ok c" and pos: "positive_settings s" and t0: "0 \<le> t"
    using c by (simp_all add: circuit_ok_def)
  define entry where "entry = (case map_of (ci_entries c) p of Some e \<Rightarrow> e | None \<Rightarrow> zero_entry)"
  define d where "d = (if map_of (ci_entries c) p = None then ensureCapacityLocked it now c else c)"
  have old: "entry_ok s (h p) t entry \<or> entry = zero_entry"
    using c lookup_in [OF tab, of p] by (cases "map_of (ci_entries c) p") (auto simp: entry_def circuit_ok_def)
  have sub: "subseq (h p) (h p @ [now])" by (simp add: list_emb_prefix)
  show ?thesis
  proof (cases "cs_disabled s")
    case True
    then show ?thesis using circuit_ok_unseen [OF c t(1)] by (simp add: recordFailure_def s)
  next
    case enabled: False
    show ?thesis
    proof (cases "map_of (ci_entries c) p \<noteq> None \<and> now < ce_blockedUntil entry")
      case True
      then have "(p, entry) \<in> set (ci_entries c)" using lookup_in [OF tab, of p entry] by (auto simp: entry_def)
      then have "entry_ok s (h p) t entry" "p \<in> fst ` set (ci_entries c)" using c by (force simp: circuit_ok_def)+
      then have "circuit_ok s (h(p := h p @ [now])) now (store p (entry\<lparr>ce_lastTouched := now\<rparr>) c)"
        using circuit_ok_store [OF c p t(1)] entry_ok_later [OF _ sub t(1)] by blast
      then show ?thesis using True enabled p by (simp add: recordFailure_def s Let_def entry_def)
    next
      case False
      have d: "circuit_ok s h t d"
        using c circuit_ok_subset [OF c ensureCapacityLocked_ok [OF tab _ it] _ ensureCapacityLocked_subset order_refl] pos
        by (auto simp: d_def s positive_settings_def)
      have room: "p \<in> fst ` set (ci_entries d) \<or> int (length (ci_entries d)) < cs_maxEntries s"
        using lookup_none [of c p] ensureCapacityLocked_room [OF tab _ it] pos by (auto simp: d_def s positive_settings_def)
      define e where "e = restart_window s now entry"
      have e: "entry_ok s (h p) now e" "now \<le> ce_windowStart e + cs_failureWindow s"
        using restart_window_ok [OF old t0 t] pos by (simp_all add: e_def positive_settings_def)
      have "snd (recordFailure it c p now) =
          (if same_incident s now e then store p (e\<lparr>ce_lastTouched := now\<rparr>) d else store p (count_failure s now e) d)"
        using False enabled p by (auto simp: recordFailure_def s Let_def entry_def d_def e_def)
      then show ?thesis
        using circuit_ok_store [OF d p t(1) room] entry_ok_later [OF e(1) sub order_refl] pos
          count_failure_ok [OF e t(2)] by (simp add: positive_settings_def)
    qed
  qed
qed

lemma recordSuccess_ok:
  assumes c: "circuit_ok s h t c"
  shows "circuit_ok s (h(p := [])) t (snd (recordSuccess c p))"
proof -
  have tab: "table_ok c" using c by (simp add: circuit_ok_def)
  show ?thesis
  proof (cases "p \<le> 0 \<or> map_of (ci_entries c) p = None")
    case True
    then have "p \<notin> fst ` set (ci_entries c)" using tab lookup_none [of c p] by (auto simp: table_ok_def)
    then have "circuit_ok s (h(p := [])) t c"
      by (intro circuit_ok_subset [OF c tab refl subset_refl order_refl]) force
    then show ?thesis using True by (auto simp: recordSuccess_def)
  next
    case False
    then have "snd (recordSuccess c p) = c\<lparr>ci_entries := AList.delete p (ci_entries c)\<rparr>"
      by (auto simp: recordSuccess_def)
    then show ?thesis
      using circuit_ok_subset [OF c forget_ok(1) [OF tab] _ _ order_refl, of p "h(p := [])"] forget_ok(2) [OF tab, of p]
      by auto
  qed
qed

lemma isBlocked_ok:
  assumes c: "circuit_ok s h t c" and t: "t \<le> now"
  shows "circuit_ok s h now (snd (isBlocked c p now))"
proof -
  have tab: "table_ok c" using c by (simp add: circuit_ok_def)
  have "snd (isBlocked c p now) = c \<or> snd (isBlocked c p now) = c\<lparr>ci_entries := AList.delete p (ci_entries c)\<rparr>"
    by (auto simp: isBlocked_def split: option.splits)
  then show ?thesis
    using circuit_ok_subset [OF c tab _ _ t] circuit_ok_subset [OF c forget_ok(1) [OF tab] _ _ t, of p h]
      forget_ok(2) [OF tab, of p] by auto
qed

lemma proxy_id_positive: "openAIProxyStreamCircuitProxyID account = Some p \<Longrightarrow> 0 < p"
  by (auto simp: openAIProxyStreamCircuitProxyID_def split: option.splits if_splits)

lemma circuit_run_ok:
  "circuit_run s h t c \<Longrightarrow> circuit_ok (ci_settings (newOpenAIProxyStreamCircuit s)) h t c"
proof (induction rule: circuit_run.induct)
  case run_new
  show ?case using new_positive new_table_ok
    by (auto simp: circuit_ok_def newOpenAIProxyStreamCircuit_def Let_def)
next
  case (run_disconnect h t c now it account streamErr)
  note ok = circuit_ok_subset [OF run_disconnect(5) _ refl order_refl run_disconnect(2), of h]
  show ?case
    using recordFailure_ok [OF run_disconnect(5,2,3,4)] ok run_disconnect(5)
    by (auto simp: recordOpenAIProxyStreamDisconnect_def note_disconnect_def circuit_ok_def proxy_id_positive split: option.splits)
next
  case (run_completion h t c account)
  then show ?case
    by (cases "openAIProxyStreamCircuitProxyID account")
      (simp_all add: clearOpenAIProxyStreamDisconnect_def note_completion_def recordSuccess_ok del: fun_upd_apply)
next
  case (run_query h t c now bypassed account)
  have "circuit_ok (ci_settings (newOpenAIProxyStreamCircuit s)) h now c"
    using run_query circuit_ok_subset [OF run_query(4) _ refl order_refl run_query(2), of h] by (simp add: circuit_ok_def)
  then show ?case
    using isBlocked_ok [OF run_query(4,2)] by (auto simp: isOpenAIProxyStreamQuarantined_def split: option.splits)
qed

subsection \<open>Counting up to the threshold\<close>

definition counted :: "circuit \<Rightarrow> int \<Rightarrow> int \<Rightarrow> instant \<Rightarrow> instant \<Rightarrow> bool" where
  "counted c p k w l \<longleftrightarrow> (\<exists>e. map_of (ci_entries c) p = Some e \<and> ce_failureCount e = k \<and> ce_windowStart e = w
     \<and> ce_lastFailureAt e = l
     \<and> ce_blockedUntil e = (if cs_failureThreshold (ci_settings c) \<le> k then l + cs_quarantineTTL (ci_settings c) else zero_time))"

lemma store_lookup [simp]: "map_of (ci_entries (store p e c)) q = (if q = p then Some e else map_of (ci_entries c) q)"
  by (simp add: store_def update_conv)

lemma store_settings [simp]: "ci_settings (store p e c) = ci_settings c"
  by (simp add: store_def)

lemma recordFailure_settings [simp]: "ci_settings (snd (recordFailure it c p now)) = ci_settings c"
  by (simp add: recordFailure_def Let_def)

lemma zero_time_neg: "zero_time < 0"
  by (simp add: zero_time_def second_ns_def)

lemma first_failure_counted:
  assumes "\<not> cs_disabled (ci_settings c)" "0 < p" "map_of (ci_entries c) p = None"
  shows "counted (snd (recordFailure it c p now)) p 1 now now"
  using assms
  by (simp add: recordFailure_def Let_def counted_def zero_entry_def restart_window_def same_incident_def count_failure_def)

lemma next_failure_counted:
  assumes on: "\<not> cs_disabled (ci_settings c)" and p: "0 < p" and c: "counted c p k w l"
    and k: "k < cs_failureThreshold (ci_settings c)" and t: "0 \<le> w" "w \<le> l" "l \<le> now" "now < 2 ^ 62"
    and win: "now - w \<le> cs_failureWindow (ci_settings c)" and gap: "cs_collapseInterval (ci_settings c) \<le> now - l"
  shows "counted (snd (recordFailure it c p now)) p (k + 1) w now"
proof -
  obtain e where e: "map_of (ci_entries c) p = Some e" "ce_failureCount e = k" "ce_windowStart e = w"
      "ce_lastFailureAt e = l" "ce_blockedUntil e = zero_time"
    using c k by (auto simp: counted_def)
  have "restart_window (ci_settings c) now e = e"
    using t win zero_time_neg time_Sub_clock [of w now] by (auto simp: restart_window_def e)
  moreover have "\<not> same_incident (ci_settings c) now e"
    using t gap time_Sub_clock [of l now] by (auto simp: same_incident_def e)
  moreover have "\<not> now < zero_time" using t zero_time_neg by simp
  ultimately show ?thesis using on p by (simp add: recordFailure_def Let_def e counted_def count_failure_def)
qed

definition failures :: "iteration \<Rightarrow> int \<Rightarrow> instant list \<Rightarrow> circuit \<Rightarrow> circuit" where
  "failures it p ts c = fold (\<lambda>now c. snd (recordFailure it c p now)) ts c"

lemma failures_settings [simp]: "ci_settings (failures it p ts c) = ci_settings c"
  by (induction ts arbitrary: c) (simp_all add: failures_def)

lemma failures_snoc: "failures it p (ts @ [x]) c = snd (recordFailure it (failures it p ts c) p x)"
  by (simp add: failures_def)

lemma failures_counted:
  assumes "ts \<noteq> []" "\<not> cs_disabled (ci_settings c)" "0 < p" "map_of (ci_entries c) p = None"
    and "0 \<le> cs_collapseInterval (ci_settings c)" "incidents (ci_settings c) ts"
    and "\<forall>x \<in> set ts. 0 \<le> x \<and> x < 2 ^ 62 \<and> x - hd ts \<le> cs_failureWindow (ci_settings c)"
    and "int (length ts) \<le> cs_failureThreshold (ci_settings c)"
  shows "counted (failures it p ts c) p (int (length ts)) (hd ts) (last ts) \<and> hd ts \<le> last ts"
  using assms
proof (induction ts rule: rev_nonempty_induct)
  case (single x)
  then show ?case using first_failure_counted by (simp add: failures_def)
next
  case (snoc x ts)
  have hd: "hd (ts @ [x]) = hd ts" "hd ts \<in> set ts" "last ts \<in> set ts" using snoc(1) by simp_all
  have gap: "cs_collapseInterval (ci_settings c) \<le> x - last ts"
    using snoc(7) hd by (simp add: incidents_def sorted_wrt_append)
  have IH: "counted (failures it p ts c) p (int (length ts)) (hd ts) (last ts) \<and> hd ts \<le> last ts"
    using snoc(3-9) hd by (intro snoc(2)) (auto simp: incidents_def sorted_wrt_append)
  have "counted (failures it p (ts @ [x]) c) p (int (length ts) + 1) (hd ts) x"
    unfolding failures_snoc using snoc(3,4,6,8,9) IH gap hd by (intro next_failure_counted) auto
  then show ?case using IH gap snoc(6) hd by (auto simp: algebra_simps)
qed

lemma failure_while_blocked:
  assumes "map_of (ci_entries c) p = Some e" "now < ce_blockedUntil e"
  shows "\<exists>e'. map_of (ci_entries (snd (recordFailure it c p now))) p = Some e' \<and> ce_blockedUntil e' = ce_blockedUntil e"
  using assms by (simp add: recordFailure_def Let_def)

lemma failures_while_blocked:
  assumes "map_of (ci_entries c) p = Some e" "\<forall>x \<in> set ts. x < ce_blockedUntil e"
  shows "\<exists>e'. map_of (ci_entries (failures it p ts c)) p = Some e' \<and> ce_blockedUntil e' = ce_blockedUntil e"
  using assms
proof (induction ts rule: rev_induct)
  case Nil
  then show ?case by (simp add: failures_def)
next
  case (snoc x ts)
  then show ?case using failure_while_blocked [of "failures it p ts c" p _ x it] by (fastforce simp: failures_snoc)
qed

lemma blocked_entry:
  "fst (isBlocked c p now) \<longleftrightarrow> \<not> cs_disabled (ci_settings c) \<and> 0 < p
     \<and> (\<exists>e. map_of (ci_entries c) p = Some e \<and> ce_blockedUntil e \<noteq> zero_time \<and> now < ce_blockedUntil e)"
  by (auto simp: isBlocked_def split: option.splits)

subsection \<open>Properties\<close>


definition sample_account :: "circuit_account option" where
  "sample_account = Some \<lparr>ca_Platform = ''openai'', ca_ProxyID = Some 7\<rparr>"

definition sample_circuit :: circuit where
  "sample_circuit =
     recordOpenAIProxyStreamDisconnect id
       (recordOpenAIProxyStreamDisconnect id (newOpenAIProxyStreamCircuit default_settings) sample_account (Some StreamBroken) (10 * second_ns))
       sample_account (Some StreamBroken) (20 * second_ns)"

lemma sample_proxy: "openAIProxyStreamCircuitProxyID sample_account = Some 7"
  by (simp add: openAIProxyStreamCircuitProxyID_def sample_account_def)

lemma sample_run: "circuit_run default_settings ((\<lambda>p. [])(7 := [10 * second_ns, 20 * second_ns])) (20 * second_ns) sample_circuit"
  using run_disconnect [OF run_disconnect [OF run_new, of "10 * second_ns" id default_settings sample_account "Some StreamBroken"],
      of "20 * second_ns" id sample_account "Some StreamBroken"]
  by (simp add: sample_circuit_def note_disconnect_def sample_proxy second_ns_def)

lemmas circuit_eval = isOpenAIProxyStreamQuarantined_def isBlocked_def recordOpenAIProxyStreamDisconnect_def
  recordFailure_def restart_window_def same_incident_def count_failure_def store_def ensureCapacityLocked_def
  newOpenAIProxyStreamCircuit_def default_settings_def zero_entry_def zero_time_def second_ns_def time_Sub_def Let_def


text \<open>
  (C16) Enough incidents do put a proxy into quarantine. If nothing is held against the proxy and as many
  separate incidents as the threshold demands follow within the window, the proxy is blocked until the
  configured time after the last of them, and from then on it is not. Streams that still break off during
  the quarantine do not prolong it.
\<close>

theorem incidents_start_quarantine:
  assumes run: "circuit_run s h t c" and fresh: "map_of (ci_entries c) p = None" and p: "0 < p"
    and on: "\<not> cs_disabled (ci_settings c)"
    and ts: "int (length ts) = cs_failureThreshold (ci_settings c)" "incidents (ci_settings c) ts"
      "\<forall>x \<in> set ts. 0 \<le> x \<and> x < 2 ^ 62 \<and> x - hd ts \<le> cs_failureWindow (ci_settings c)"
    and us: "\<forall>x \<in> set us. x < last ts + cs_quarantineTTL (ci_settings c)"
  shows "fst (isBlocked (failures it p us (failures it p ts c)) p now)
     \<longleftrightarrow> now < last ts + cs_quarantineTTL (ci_settings c)"
proof -
  have pos: "positive_settings (ci_settings c)" using circuit_run_ok [OF run] by (simp add: circuit_ok_def)
  then have ne: "ts \<noteq> []" using ts(1) by (auto simp: positive_settings_def)
  have "counted (failures it p ts c) p (int (length ts)) (hd ts) (last ts)"
    using failures_counted [OF ne on p fresh _ ts(2,3)] ts(1) pos by (simp add: positive_settings_def)
  then obtain e where e: "map_of (ci_entries (failures it p ts c)) p = Some e"
      "ce_blockedUntil e = last ts + cs_quarantineTTL (ci_settings c)"
    using ts(1) by (auto simp: counted_def)
  have "last ts + cs_quarantineTTL (ci_settings c) \<noteq> zero_time"
    using ts(3) last_in_set [OF ne] pos zero_time_neg by (fastforce simp: positive_settings_def)
  then show ?thesis
    using failures_while_blocked [OF e(1), of us it] e(2) us on p by (auto simp: blocked_entry)
qed

theorem incidents_start_quarantine_witness:
  "fst (isBlocked (failures id 7 [30 * second_ns] (failures id 7 [10 * second_ns, 20 * second_ns]
       (newOpenAIProxyStreamCircuit default_settings))) 7 (619 * second_ns))
   \<longleftrightarrow> 619 * second_ns < last [10 * second_ns, 20 * second_ns]
         + cs_quarantineTTL (ci_settings (newOpenAIProxyStreamCircuit default_settings))"
  by (rule incidents_start_quarantine [OF run_new])
    (simp_all add: newOpenAIProxyStreamCircuit_def default_settings_def second_ns_def incidents_def)

text \<open>
  The circuit keeps at most the configured number of entries, whatever happens, and the number of
  active blocks it reports is the number of proxies it blocks at that moment.
\<close>

theorem circuit_bounded_and_counted:
  assumes run: "circuit_run s h t c"
  shows "int (length (ci_entries c)) \<le> cs_maxEntries (ci_settings c)
     \<and> activeBlockCount c now = card {p. fst (isBlocked c p now)}"
proof -
  have tab: "table_ok c" using circuit_run_ok [OF run] by (simp add: circuit_ok_def)
  let ?blk = "\<lambda>(p :: int, e). ce_blockedUntil e \<noteq> zero_time \<and> now < ce_blockedUntil e"
  have d: "distinct (map fst (filter ?blk (ci_entries c)))" using tab by (simp add: table_ok_def distinct_map_filter)
  have "{p. fst (isBlocked c p now)} = (if cs_disabled (ci_settings c) then {} else set (map fst (filter ?blk (ci_entries c))))"
    using tab by (force simp: blocked_entry lookup_in [OF tab] table_ok_def)
  then show ?thesis
    using tab distinct_card [OF d] by (simp add: activeBlockCount_def table_ok_def)
qed

theorem circuit_bounded_and_counted_witness:
  "int (length (ci_entries sample_circuit)) \<le> cs_maxEntries (ci_settings sample_circuit)
     \<and> activeBlockCount sample_circuit (600 * second_ns) = card {p. fst (isBlocked sample_circuit p (600 * second_ns))}"
  by (rule circuit_bounded_and_counted [OF sample_run])

end
