(* ===== verification/Failover.thy ===== *)
theory Failover
  imports Relay_Prelude Go_Time Complex_Main
begin

text \<open>
  \<open>handler/failover_loop.go\<close> and the loop of the messages handler around it
  (\<open>handler/gateway_handler.go\<close>): when an upstream account fails, a request is repeated on the same account
  or moved to another one, until one answers or the limits are reached.

  The state of the loop is the record the source keeps per request. One pass of the loop is one step; what
  the calls of a pass return (selection, admission, forwarding) is its argument, with the state of the
  request context: whether the client is gone, the clock, and which waits end before the client leaves.
  The counts of retries are a total function, as a Go map yields zero for a key it does not hold. Writing
  of answers, logging and usage records are left out; a pass that answers the client yields the kind of
  answer.

  Shown are a bound for the number of passes of a request, that an account refused by the profit control
  is not used again, the limits of switches and retries, and the length of the waits.
\<close>

subsection \<open>Errors of upstream accounts\<close>

datatype NextAccountAction = NextAccountLegacyRetry | NextAccountRetry | NextAccountStop

record UpstreamFailoverError =
  ufe_StatusCode :: int
  ufe_ResponseBody :: string
  ufe_ForceCacheBilling :: bool
  ufe_RetryableOnSameAccount :: bool
  ufe_SameAccountRetryDelay :: duration
  ufe_SameAccountRetryDeadline :: instant
  ufe_SameAccountRetryMax :: int
  ufe_RequestScopedTransient :: bool
  ufe_SafeToFailoverAfterWrite :: bool
  ufe_Stage :: string
  ufe_Scope :: string
  ufe_Reason :: string
  ufe_NextAccountAction :: NextAccountAction
  ufe_ClientStatusCode :: int
  ufe_ClientMessage :: string

definition ShouldRetryNextAccount :: "UpstreamFailoverError option \<Rightarrow> bool" where
  "ShouldRetryNextAccount e = (case e of None \<Rightarrow> False | Some e \<Rightarrow> ufe_NextAccountAction e \<noteq> NextAccountStop)"

subsection \<open>Retries an account allows\<close>

text \<open>A value of the credentials, as \<open>encoding/json\<close> or the code sets it.\<close>

datatype cred_value = CredNil | CredBool bool | CredInt int | CredInt64 int | CredFloat64 rat
  | CredNumber string | CredString string | CredOther

record failover_account =
  fa_ID :: int
  fa_Platform :: string
  fa_Type :: string
  fa_Credentials :: "(string \<rightharpoonup> cred_value) option"

definition IsAPIKeyOrBedrock :: "failover_account \<Rightarrow> bool" where
  "IsAPIKeyOrBedrock a \<longleftrightarrow> fa_Type a = ''apikey'' \<or> fa_Type a = ''bedrock''"

definition IsPoolMode :: "failover_account \<Rightarrow> bool" where
  "IsPoolMode a =
     (IsAPIKeyOrBedrock a
      \<and> (case fa_Credentials a of
           None \<Rightarrow> False
         | Some cr \<Rightarrow> (case cr ''pool_mode'' of Some (CredBool enabled) \<Rightarrow> enabled | _ \<Rightarrow> False)))"

definition defaultPoolModeRetryCount :: int where
  "defaultPoolModeRetryCount = 3"

definition maxPoolModeRetryCount :: int where
  "maxPoolModeRetryCount = 10"

text \<open>
  A \<open>float64\<close> loses its fraction; Go leaves the result open for values that do not fit into an \<open>int\<close>, so
  the conversion of those is an argument.
\<close>

definition float_int :: "(rat \<Rightarrow> int) \<Rightarrow> rat \<Rightarrow> int" where
  "float_int big r =
     (let n = (if 0 \<le> r then \<lfloor>r\<rfloor> else \<lceil>r\<rceil>) in if - (2 ^ 63) \<le> n \<and> n < 2 ^ 63 then n else big r)"

definition parsePoolModeRetryCount :: "(rat \<Rightarrow> int) \<Rightarrow> cred_value \<Rightarrow> int" where
  "parsePoolModeRetryCount big v =
     (case v of
        CredInt i \<Rightarrow> i
      | CredInt64 i \<Rightarrow> i
      | CredFloat64 r \<Rightarrow> float_int big r
      | CredNumber s \<Rightarrow> (case Atoi s of Some i \<Rightarrow> i | None \<Rightarrow> defaultPoolModeRetryCount)
      | CredString s \<Rightarrow> (case Atoi (TrimSpace s) of Some i \<Rightarrow> i | None \<Rightarrow> defaultPoolModeRetryCount)
      | _ \<Rightarrow> defaultPoolModeRetryCount)"

definition GetPoolModeRetryCount :: "(rat \<Rightarrow> int) \<Rightarrow> failover_account option \<Rightarrow> int" where
  "GetPoolModeRetryCount big account =
     (case account of
        None \<Rightarrow> defaultPoolModeRetryCount
      | Some a \<Rightarrow>
          if \<not> IsPoolMode a then defaultPoolModeRetryCount
          else (case fa_Credentials a of
                  None \<Rightarrow> defaultPoolModeRetryCount
                | Some cr \<Rightarrow>
                    (case cr ''pool_mode_retry_count'' of
                       None \<Rightarrow> defaultPoolModeRetryCount
                     | Some CredNil \<Rightarrow> defaultPoolModeRetryCount
                     | Some raw \<Rightarrow>
                         let n = parsePoolModeRetryCount big raw in
                         if n < 0 then 0 else if maxPoolModeRetryCount < n then maxPoolModeRetryCount else n)))"

definition effectiveSameAccountRetryLimit ::
  "(rat \<Rightarrow> int) \<Rightarrow> UpstreamFailoverError option \<Rightarrow> failover_account option \<Rightarrow> int" where
  "effectiveSameAccountRetryLimit big failoverErr account =
     (case account of
        None \<Rightarrow> 0
      | Some a \<Rightarrow>
          let limit = GetPoolModeRetryCount big (Some a) in
          (case failoverErr of
             None \<Rightarrow> limit
           | Some e \<Rightarrow>
               if 0 < limit \<and> 0 < ufe_SameAccountRetryMax e \<and> ufe_SameAccountRetryMax e < limit
               then ufe_SameAccountRetryMax e else limit))"

subsection \<open>Waits\<close>

definition sameAccountRetryDelay :: duration where
  "sameAccountRetryDelay = 500000000"

definition maxRequestScopedRetryDelay :: duration where
  "maxRequestScopedRetryDelay = 8 * second_ns"

definition singleAccountBackoffDelay :: duration where
  "singleAccountBackoffDelay = 2 * second_ns"

fun backoff_loop :: "nat \<Rightarrow> duration \<Rightarrow> duration" where
  "backoff_loop 0 delay = delay"
| "backoff_loop (Suc n) delay =
     (if maxRequestScopedRetryDelay div 2 \<le> delay then maxRequestScopedRetryDelay else backoff_loop n (delay * 2))"

definition sameAccountRetryDelayFor :: "UpstreamFailoverError option \<Rightarrow> int \<Rightarrow> duration" where
  "sameAccountRetryDelayFor failoverErr retryCount =
     (case failoverErr of
        None \<Rightarrow> sameAccountRetryDelay
      | Some e \<Rightarrow>
          if 0 < ufe_SameAccountRetryDelay e then ufe_SameAccountRetryDelay e
          else if \<not> ufe_RequestScopedTransient e \<or> retryCount \<le> 1 then sameAccountRetryDelay
          else backoff_loop (nat (retryCount - 1)) sameAccountRetryDelay)"

text \<open>The context of a request during a call: is it cancelled, what time is it, does a wait come to its end.\<close>

record request_ctx =
  cx_Err :: bool
  cx_now :: instant
  cx_waits :: "duration \<Rightarrow> bool"

definition sleepWithContext :: "request_ctx \<Rightarrow> duration \<Rightarrow> bool" where
  "sleepWithContext ctx d \<longleftrightarrow> d \<le> 0 \<or> cx_waits ctx d"

definition sameAccountRetryDeadlineAllows :: "instant \<Rightarrow> UpstreamFailoverError option \<Rightarrow> bool" where
  "sameAccountRetryDeadlineAllows now failoverErr =
     (case failoverErr of
        None \<Rightarrow> True
      | Some e \<Rightarrow> ufe_SameAccountRetryDeadline e = zero_time \<or> now < ufe_SameAccountRetryDeadline e)"

definition sameAccountRetryAllowed :: "instant \<Rightarrow> UpstreamFailoverError option \<Rightarrow> int \<Rightarrow> int \<Rightarrow> bool" where
  "sameAccountRetryAllowed now failoverErr retryCount retryLimit =
     (case failoverErr of
        None \<Rightarrow> False
      | Some e \<Rightarrow>
          if \<not> ufe_RetryableOnSameAccount e then False
          else if \<not> sameAccountRetryDeadlineAllows now (Some e) then False
          else if 0 < ufe_SameAccountRetryMax e
          then if retryLimit \<le> 0 then False
               else retryCount < (if ufe_SameAccountRetryMax e < retryLimit then ufe_SameAccountRetryMax e else retryLimit)
          else if ufe_SameAccountRetryDeadline e \<noteq> zero_time then True
          else 0 < retryLimit \<and> retryCount < retryLimit)"

definition needForceCacheBilling :: "bool \<Rightarrow> UpstreamFailoverError option \<Rightarrow> bool \<Rightarrow> bool" where
  "needForceCacheBilling hasBoundSession failoverErr sameAccountRetry \<longleftrightarrow>
     hasBoundSession \<and> \<not> sameAccountRetry
     \<or> (case failoverErr of None \<Rightarrow> False | Some e \<Rightarrow> ufe_ForceCacheBilling e)"

subsection \<open>The state of the loop\<close>

datatype FailoverAction = FailoverContinue | FailoverExhausted | FailoverCanceled

definition maxProfitVetoAttempts :: int where
  "maxProfitVetoAttempts = 10"

record FailoverState =
  fs_SwitchCount :: int
  fs_MaxSwitches :: int
  fs_FailedAccountIDs :: "int set"
  fs_SameAccountRetryCount :: "int \<Rightarrow> int"
  fs_LastFailoverErr :: "UpstreamFailoverError option"
  fs_ForceCacheBilling :: bool
  fs_hasBoundSession :: bool
  fs_profitVetoedAccountIDs :: "int set"
  fs_profitVetoCount :: int

definition NewFailoverState :: "int \<Rightarrow> bool \<Rightarrow> FailoverState" where
  "NewFailoverState maxSwitches hasBoundSession =
     \<lparr>fs_SwitchCount = 0, fs_MaxSwitches = maxSwitches, fs_FailedAccountIDs = {}, fs_SameAccountRetryCount = (\<lambda>_. 0),
      fs_LastFailoverErr = None, fs_ForceCacheBilling = False, fs_hasBoundSession = hasBoundSession,
      fs_profitVetoedAccountIDs = {}, fs_profitVetoCount = 0\<rparr>"

definition RecordProfitVeto :: "int \<Rightarrow> FailoverState \<Rightarrow> FailoverAction \<times> FailoverState" where
  "RecordProfitVeto accountID s =
     (let s = s\<lparr>fs_FailedAccountIDs := insert accountID (fs_FailedAccountIDs s),
                fs_profitVetoedAccountIDs := insert accountID (fs_profitVetoedAccountIDs s),
                fs_profitVetoCount := fs_profitVetoCount s + 1\<rparr>
      in (if maxProfitVetoAttempts \<le> fs_profitVetoCount s then FailoverExhausted else FailoverContinue, s))"

definition allExclusionsAreProfitVetoed :: "FailoverState \<Rightarrow> bool" where
  "allExclusionsAreProfitVetoed s \<longleftrightarrow>
     \<not> (fs_profitVetoedAccountIDs s = {} \<or> fs_FailedAccountIDs s = {})
     \<and> fs_FailedAccountIDs s \<subseteq> fs_profitVetoedAccountIDs s"

text \<open>The result is the action, the new state, and the accounts reported as temporarily unschedulable.\<close>

definition HandleFailoverError ::
  "request_ctx \<Rightarrow> int \<Rightarrow> string \<Rightarrow> int \<Rightarrow> UpstreamFailoverError option \<Rightarrow> FailoverState
   \<Rightarrow> FailoverAction \<times> FailoverState \<times> int list" where
  "HandleFailoverError ctx accountID platform retryLimit failoverErr s =
     (if cx_Err ctx then (FailoverCanceled, s, [])
      else let s = s\<lparr>fs_LastFailoverErr := failoverErr\<rparr> in
      if failoverErr = None \<or> \<not> ShouldRetryNextAccount failoverErr then (FailoverExhausted, s, [])
      else
        let retryCount = fs_SameAccountRetryCount s accountID;
            sameAccountRetry = sameAccountRetryAllowed (cx_now ctx) failoverErr retryCount retryLimit;
            s = (if needForceCacheBilling (fs_hasBoundSession s) failoverErr sameAccountRetry
                 then s\<lparr>fs_ForceCacheBilling := True\<rparr> else s)
        in if sameAccountRetry
           then let s = s\<lparr>fs_SameAccountRetryCount := (fs_SameAccountRetryCount s)(accountID := retryCount + 1)\<rparr>;
                    retryDelay = sameAccountRetryDelayFor failoverErr (fs_SameAccountRetryCount s accountID)
                in (if sleepWithContext ctx retryDelay then FailoverContinue else FailoverCanceled, s, [])
           else
             let unscheduled = (case failoverErr of
                                  Some e \<Rightarrow> if ufe_RetryableOnSameAccount e then [accountID] else []
                                | None \<Rightarrow> []);
                 s = s\<lparr>fs_FailedAccountIDs := insert accountID (fs_FailedAccountIDs s)\<rparr>
             in if fs_MaxSwitches s \<le> fs_SwitchCount s then (FailoverExhausted, s, unscheduled)
                else
                  let s = s\<lparr>fs_SwitchCount := fs_SwitchCount s + 1\<rparr> in
                  if platform = ''antigravity'' \<and> \<not> sleepWithContext ctx (wrap64 ((fs_SwitchCount s - 1) * second_ns))
                  then (FailoverCanceled, s, unscheduled)
                  else (FailoverContinue, s, unscheduled))"

definition HandleSelectionExhausted :: "request_ctx \<Rightarrow> FailoverState \<Rightarrow> FailoverAction \<times> FailoverState" where
  "HandleSelectionExhausted ctx s =
     (if cx_Err ctx then (FailoverCanceled, s)
      else if (case fs_LastFailoverErr s of None \<Rightarrow> False | Some e \<Rightarrow> ufe_StatusCode e = 503) \<and> fs_SwitchCount s \<le> fs_MaxSwitches s
      then if allExclusionsAreProfitVetoed s then (FailoverExhausted, s)
           else if \<not> sleepWithContext ctx singleAccountBackoffDelay then (FailoverCanceled, s)
           else (FailoverContinue, s\<lparr>fs_FailedAccountIDs := fs_profitVetoedAccountIDs s\<rparr>)
      else (FailoverExhausted, s))"

subsection \<open>The loop of the messages handler\<close>

text \<open>What a request finds when its prompt is too long and a fallback group is configured.\<close>

datatype fallback_group =
    ResolveFailed
  | FallbackGroup (fb_Platform: string) (fb_SubscriptionType: string) (fb_FallbackGroupIDOnInvalidRequest: "int option")
      (fb_eligible: bool)

text \<open>
  What \<open>Forward\<close> returns. A failover error comes with the context of the request after the call, and says
  whether bytes were written to the client meanwhile.
\<close>

datatype forward_result =
    Forwarded
  | BetaBlocked
  | PromptTooLong fallback_group
  | UpstreamFailed UpstreamFailoverError bool request_ctx
  | ForwardFailed

text \<open>What becomes of a selected account up to \<open>Forward\<close>.\<close>

datatype admission =
    Intercepted
  | NoWaitPlan
  | WaitQueueFull
  | SlotNotAcquired
  | ProfitVetoed
  | BodyRejected
  | Admitted forward_result

datatype loop_pass =
    CloneFailed
  | SelectionFailed request_ctx
  | Selected failover_account admission

datatype answer =
    InvalidRequest
  | NoAccounts
  | Exhausted "UpstreamFailoverError option"
  | ClientGone
  | MockResponse
  | TooManyPending
  | ConcurrencyError
  | ProfitControlled
  | ClientPolicy
  | PromptError
  | BillingError
  | StreamBrokenOff UpstreamFailoverError
  | GatewayError
  | Answered

text \<open>The loop goes on with a state, starts again in the fallback group, or ends.\<close>

datatype pass_result = Continue FailoverState | RetryWithFallback | Return answer

definition on_selection_failed :: "request_ctx \<Rightarrow> FailoverState \<Rightarrow> pass_result" where
  "on_selection_failed ctx fs =
     (if fs_FailedAccountIDs fs = {} then Return NoAccounts
      else case HandleSelectionExhausted ctx fs of
             (FailoverContinue, fs) \<Rightarrow> Continue fs
           | (FailoverCanceled, fs) \<Rightarrow> Return ClientGone
           | (FailoverExhausted, fs) \<Rightarrow> Return (Exhausted (fs_LastFailoverErr fs)))"

definition on_profit_veto :: "int \<Rightarrow> FailoverState \<Rightarrow> pass_result" where
  "on_profit_veto accountID fs =
     (case RecordProfitVeto accountID fs of
        (FailoverExhausted, fs) \<Rightarrow> Return ProfitControlled
      | (_, fs) \<Rightarrow> Continue fs)"

definition on_prompt_too_long :: "int option \<Rightarrow> bool \<Rightarrow> fallback_group \<Rightarrow> pass_result" where
  "on_prompt_too_long fallbackGroupID fallbackUsed fallbackGroup =
     (if \<not> fallbackUsed \<and> (case fallbackGroupID of None \<Rightarrow> False | Some g \<Rightarrow> 0 < g)
      then case fallbackGroup of
             ResolveFailed \<Rightarrow> Return PromptError
           | FallbackGroup pf st fb eligible \<Rightarrow>
               if pf \<noteq> ''anthropic'' \<or> st = ''subscription'' \<or> fb \<noteq> None then Return PromptError
               else if \<not> eligible then Return BillingError
               else RetryWithFallback
      else Return PromptError)"

definition on_upstream_failed ::
  "(rat \<Rightarrow> int) \<Rightarrow> failover_account \<Rightarrow> UpstreamFailoverError \<Rightarrow> bool \<Rightarrow> request_ctx \<Rightarrow> FailoverState \<Rightarrow> pass_result" where
  "on_upstream_failed big account failoverErr written ctx fs =
     (if written then Return (StreamBrokenOff failoverErr)
      else case HandleFailoverError ctx (fa_ID account) (fa_Platform account) (GetPoolModeRetryCount big (Some account))
                  (Some failoverErr) fs of
             (FailoverContinue, fs, _) \<Rightarrow> Continue fs
           | (FailoverExhausted, fs, _) \<Rightarrow> Return (Exhausted (fs_LastFailoverErr fs))
           | (FailoverCanceled, fs, _) \<Rightarrow> Return ClientGone)"

definition messages_pass :: "(rat \<Rightarrow> int) \<Rightarrow> int option \<Rightarrow> bool \<Rightarrow> loop_pass \<Rightarrow> FailoverState \<Rightarrow> pass_result" where
  "messages_pass big fallbackGroupID fallbackUsed seen fs =
     (case seen of
        CloneFailed \<Rightarrow> Return InvalidRequest
      | SelectionFailed ctx \<Rightarrow> on_selection_failed ctx fs
      | Selected account adm \<Rightarrow>
          (case adm of
             Intercepted \<Rightarrow> Return MockResponse
           | NoWaitPlan \<Rightarrow> Return NoAccounts
           | WaitQueueFull \<Rightarrow> Return TooManyPending
           | SlotNotAcquired \<Rightarrow> Return ConcurrencyError
           | ProfitVetoed \<Rightarrow> on_profit_veto (fa_ID account) fs
           | BodyRejected \<Rightarrow> Return InvalidRequest
           | Admitted r \<Rightarrow>
               (case r of
                  Forwarded \<Rightarrow> Return Answered
                | BetaBlocked \<Rightarrow> Return ClientPolicy
                | PromptTooLong fallbackGroup \<Rightarrow> on_prompt_too_long fallbackGroupID fallbackUsed fallbackGroup
                | UpstreamFailed e written ctx \<Rightarrow> on_upstream_failed big account e written ctx fs
                | ForwardFailed \<Rightarrow> Return GatewayError)))"

text \<open>
  The two loops of the handler: the inner one over passes, the outer one over groups. The world hands out
  what each pass finds; \<open>Inl\<close> is a request that is not finished when it stops.
\<close>

fun messages_loop ::
  "(rat \<Rightarrow> int) \<Rightarrow> int \<Rightarrow> bool \<Rightarrow> int option \<Rightarrow> bool \<Rightarrow> loop_pass list \<Rightarrow> FailoverState \<Rightarrow> FailoverState + answer" where
  "messages_loop big maxSwitches bound fallbackGroupID fallbackUsed [] fs = Inl fs"
| "messages_loop big maxSwitches bound fallbackGroupID fallbackUsed (x # xs) fs =
     (case messages_pass big fallbackGroupID fallbackUsed x fs of
        Continue fs' \<Rightarrow> messages_loop big maxSwitches bound fallbackGroupID fallbackUsed xs fs'
      | RetryWithFallback \<Rightarrow>
          messages_loop big maxSwitches bound fallbackGroupID True xs (NewFailoverState maxSwitches bound)
      | Return a \<Rightarrow> Inr a)"

definition Messages_loop :: "(rat \<Rightarrow> int) \<Rightarrow> int \<Rightarrow> bool \<Rightarrow> int option \<Rightarrow> loop_pass list \<Rightarrow> FailoverState + answer" where
  "Messages_loop big maxSwitches bound fallbackGroupID xs =
     messages_loop big maxSwitches bound fallbackGroupID False xs (NewFailoverState maxSwitches bound)"

subsection \<open>Limits of one account\<close>

lemma GetPoolModeRetryCount_bounds: "0 \<le> GetPoolModeRetryCount big a \<and> GetPoolModeRetryCount big a \<le> 10"
  by (simp add: GetPoolModeRetryCount_def defaultPoolModeRetryCount_def maxPoolModeRetryCount_def Let_def
      split: option.splits cred_value.splits)

text \<open>An error whose retries on the same account are counted, rather than only limited by a deadline.\<close>

definition counted_error :: "UpstreamFailoverError \<Rightarrow> bool" where
  "counted_error e \<longleftrightarrow> ufe_SameAccountRetryDeadline e = zero_time \<or> 0 < ufe_SameAccountRetryMax e"

lemma retry_below_limit:
  "sameAccountRetryAllowed now (Some e) k limit \<Longrightarrow> counted_error e \<Longrightarrow> k < limit"
  by (auto simp: sameAccountRetryAllowed_def counted_error_def split: if_splits)

text \<open>The limit of the account with the cap of the error is the limit that is applied.\<close>

lemma effective_limit_applied:
  assumes "counted_error e" "0 \<le> k"
  shows "sameAccountRetryAllowed now (Some e) k (GetPoolModeRetryCount big (Some a)) \<longleftrightarrow>
     ufe_RetryableOnSameAccount e \<and> sameAccountRetryDeadlineAllows now (Some e)
     \<and> k < effectiveSameAccountRetryLimit big (Some e) (Some a)"
  using assms by (auto simp: sameAccountRetryAllowed_def effectiveSameAccountRetryLimit_def counted_error_def Let_def)

lemma backoff_loop_min:
  "0 < d \<Longrightarrow> d \<le> maxRequestScopedRetryDelay \<Longrightarrow> backoff_loop n d = min (d * 2 ^ n) maxRequestScopedRetryDelay"
proof (induction n arbitrary: d)
  case (Suc n)
  have m: "maxRequestScopedRetryDelay div 2 * 2 = maxRequestScopedRetryDelay"
    by (simp add: maxRequestScopedRetryDelay_def second_ns_def)
  show ?case
  proof (cases "maxRequestScopedRetryDelay div 2 \<le> d")
    case True
    have "d * 2 ^ Suc n = d * 2 * 2 ^ n" by simp
    moreover have "maxRequestScopedRetryDelay \<le> d * 2" using True m by linarith
    moreover have "d * 2 * 1 \<le> d * 2 * 2 ^ n" using Suc.prems(1) by (intro mult_left_mono) simp_all
    ultimately show ?thesis using True by simp
  next
    case False
    then have "d * 2 \<le> maxRequestScopedRetryDelay" using m by linarith
    then show ?thesis using False Suc.IH [of "d * 2"] Suc.prems(1) by (simp add: mult.assoc)
  qed
qed simp

subsection \<open>One pass\<close>

text \<open>How a pass that continues changes the state.\<close>

definition upstream_failure :: "loop_pass \<Rightarrow> bool" where
  "upstream_failure x = (case x of Selected a (Admitted (UpstreamFailed e w ctx)) \<Rightarrow> True | _ \<Rightarrow> False)"

definition profit_veto :: "loop_pass \<Rightarrow> bool" where
  "profit_veto x = (case x of Selected a ProfitVetoed \<Rightarrow> True | _ \<Rightarrow> False)"

lemma Continue_cases:
  assumes "messages_pass big g used x fs = Continue fs'"
  obtains
    (selection) ctx where "x = SelectionFailed ctx" "fs_FailedAccountIDs fs \<noteq> {}"
      "HandleSelectionExhausted ctx fs = (FailoverContinue, fs')"
  | (veto) a where "x = Selected a ProfitVetoed" "RecordProfitVeto (fa_ID a) fs = (FailoverContinue, fs')"
  | (failure) a e ctx un where "x = Selected a (Admitted (UpstreamFailed e False ctx))"
      "HandleFailoverError ctx (fa_ID a) (fa_Platform a) (GetPoolModeRetryCount big (Some a)) (Some e) fs
         = (FailoverContinue, fs', un)"
proof (cases x)
  case (SelectionFailed ctx)
  then show ?thesis using assms selection [of ctx]
    by (auto simp: messages_pass_def on_selection_failed_def split: if_splits prod.splits FailoverAction.splits)
next
  case (Selected a adm)
  show ?thesis
  proof (cases adm)
    case ProfitVetoed
    then show ?thesis using assms Selected veto [of a]
      by (auto simp: messages_pass_def on_profit_veto_def RecordProfitVeto_def Let_def split: if_splits)
  next
    case (Admitted r)
    then show ?thesis using assms Selected failure
      by (auto simp: messages_pass_def on_prompt_too_long_def on_upstream_failed_def
          split: forward_result.splits if_splits option.splits fallback_group.splits prod.splits FailoverAction.splits)
  qed (use assms Selected in \<open>simp_all add: messages_pass_def\<close>)
qed (use assms in \<open>simp add: messages_pass_def\<close>)

lemma selection_continues:
  assumes "HandleSelectionExhausted ctx fs = (FailoverContinue, fs')" "fs_FailedAccountIDs fs \<noteq> {}"
  shows "\<not> fs_FailedAccountIDs fs \<subseteq> fs_profitVetoedAccountIDs fs
     \<and> fs' = fs\<lparr>fs_FailedAccountIDs := fs_profitVetoedAccountIDs fs\<rparr>"
  using assms by (auto simp: HandleSelectionExhausted_def allExclusionsAreProfitVetoed_def split: if_splits)

lemma veto_continues:
  assumes "RecordProfitVeto a fs = (FailoverContinue, fs')"
  shows "fs_profitVetoCount fs + 1 < 10 \<and> fs' = fs\<lparr>fs_FailedAccountIDs := insert a (fs_FailedAccountIDs fs),
     fs_profitVetoedAccountIDs := insert a (fs_profitVetoedAccountIDs fs), fs_profitVetoCount := fs_profitVetoCount fs + 1\<rparr>"
  using assms by (auto simp: RecordProfitVeto_def Let_def maxProfitVetoAttempts_def split: if_splits)

text \<open>A failure that lets the loop continue is a retry on the account or a switch away from it.\<close>

lemma failure_continues:
  assumes "HandleFailoverError ctx a pf limit (Some e) fs = (FailoverContinue, fs', un)"
  obtains
    (retry) b where "sameAccountRetryAllowed (cx_now ctx) (Some e) (fs_SameAccountRetryCount fs a) limit"
      "fs' = fs\<lparr>fs_LastFailoverErr := Some e, fs_ForceCacheBilling := b,
         fs_SameAccountRetryCount := (fs_SameAccountRetryCount fs)(a := fs_SameAccountRetryCount fs a + 1)\<rparr>"
  | (switch) b where "fs_SwitchCount fs < fs_MaxSwitches fs"
      "fs' = fs\<lparr>fs_LastFailoverErr := Some e, fs_ForceCacheBilling := b,
         fs_FailedAccountIDs := insert a (fs_FailedAccountIDs fs), fs_SwitchCount := fs_SwitchCount fs + 1\<rparr>"
proof -
  define same where "same = sameAccountRetryAllowed (cx_now ctx) (Some e) (fs_SameAccountRetryCount fs a) limit"
  define b where "b = (needForceCacheBilling (fs_hasBoundSession fs) (Some e) same \<or> fs_ForceCacheBilling fs)"
  have fs1: "(if needForceCacheBilling (fs_hasBoundSession fs) (Some e) same
      then fs\<lparr>fs_LastFailoverErr := Some e, fs_ForceCacheBilling := True\<rparr> else fs\<lparr>fs_LastFailoverErr := Some e\<rparr>)
      = fs\<lparr>fs_LastFailoverErr := Some e, fs_ForceCacheBilling := b\<rparr>"
    by (simp add: b_def)
  show ?thesis
  proof (cases same)
    case True
    then show ?thesis using assms retry [of b] fs1
      by (simp add: HandleFailoverError_def Let_def same_def split: if_splits)
  next
    case False
    then show ?thesis using assms switch [of b] fs1
      by (simp add: HandleFailoverError_def Let_def same_def split: if_splits)
  qed
qed

subsection \<open>The number of passes\<close>

text \<open>The accounts a request may be given, and the errors it may meet.\<close>

definition pass_within :: "int set \<Rightarrow> loop_pass \<Rightarrow> bool" where
  "pass_within A x =
     (case x of
        Selected a adm \<Rightarrow> fa_ID a \<in> A \<and> (case adm of Admitted (UpstreamFailed e w ctx) \<Rightarrow> counted_error e | _ \<Rightarrow> True)
      | _ \<Rightarrow> True)"

text \<open>
  What is left of the limits. A switch may bring one more selection that finds no account, so it counts
  twice; that selection is paid for as long as an account is excluded for another reason than profit.
\<close>

definition budget :: "int set \<Rightarrow> FailoverState \<Rightarrow> nat" where
  "budget A fs = 2 * nat (fs_MaxSwitches fs - fs_SwitchCount fs) + nat (10 - fs_profitVetoCount fs)
     + (\<Sum>a\<in>A. nat (10 - fs_SameAccountRetryCount fs a))
     + (if fs_FailedAccountIDs fs \<subseteq> fs_profitVetoedAccountIDs fs then 0 else 1)"

lemma pass_budget:
  assumes A: "finite A" and x: "pass_within A x" and go: "messages_pass big g used x fs = Continue fs'"
  shows "budget A fs' < budget A fs"
  using go
proof (cases rule: Continue_cases)
  case (selection ctx)
  then show ?thesis using selection_continues [of ctx fs fs'] by (auto simp: budget_def)
next
  case (veto a)
  then show ?thesis using veto_continues [of "fa_ID a" fs fs'] by (auto simp: budget_def)
next
  case (failure a e ctx un)
  have a: "fa_ID a \<in> A" "counted_error e" using x failure(1) by (simp_all add: pass_within_def)
  from failure(2) show ?thesis
  proof (cases rule: failure_continues)
    case (retry b)
    let ?r = "fs_SameAccountRetryCount fs"
    have "?r (fa_ID a) < 10"
      using retry_below_limit [OF retry(1) a(2)] GetPoolModeRetryCount_bounds [of big "Some a"] by linarith
    then have "(\<Sum>x\<in>A. nat (10 - (?r(fa_ID a := ?r (fa_ID a) + 1)) x)) < (\<Sum>x\<in>A. nat (10 - ?r x))"
      using A a(1) by (intro sum_strict_mono_ex1) auto
    then show ?thesis by (simp add: budget_def retry(2) del: fun_upd_apply)
  next
    case (switch b)
    then show ?thesis by (auto simp: budget_def)
  qed
qed

lemma budget_new: "budget A (NewFailoverState m bound) = 2 * nat m + 10 + 10 * card A"
  by (simp add: budget_def NewFailoverState_def)

lemma fallback_once: "messages_pass big g used x fs = RetryWithFallback \<Longrightarrow> \<not> used"
proof (cases x)
  case (Selected a adm)
  assume "messages_pass big g used x fs = RetryWithFallback"
  then show ?thesis using Selected
    by (cases adm)
      (auto simp: messages_pass_def on_prompt_too_long_def on_upstream_failed_def on_profit_veto_def RecordProfitVeto_def Let_def
        split: forward_result.splits if_splits option.splits fallback_group.splits prod.splits FailoverAction.splits)
qed (auto simp: messages_pass_def on_selection_failed_def split: if_splits prod.splits FailoverAction.splits)

lemma messages_loop_ends:
  assumes "finite A" "\<forall>x \<in> set xs. pass_within A x"
    and "budget A fs + (if used then 0 else 1 + budget A (NewFailoverState m bound)) < length xs"
  shows "\<exists>a. messages_loop big m bound g used xs fs = Inr a"
  using assms(2,3)
proof (induction xs arbitrary: used fs)
  case (Cons x xs)
  show ?case
  proof (cases "messages_pass big g used x fs")
    case (Continue fs')
    then have "budget A fs' < budget A fs" using pass_budget [OF assms(1) _ Continue] Cons.prems(1) by simp
    then show ?thesis using Cons.IH [of fs' used] Cons.prems Continue by (auto split: if_splits)
  next
    case RetryWithFallback
    then have "\<not> used" by (rule fallback_once)
    then show ?thesis using Cons.IH [of "NewFailoverState m bound" True] Cons.prems RetryWithFallback by simp
  qed simp
qed simp

subsection \<open>Rounds\<close>

text \<open>The passes of one group that let the loop continue.\<close>

fun failover_round :: "(rat \<Rightarrow> int) \<Rightarrow> loop_pass list \<Rightarrow> FailoverState \<Rightarrow> FailoverState option" where
  "failover_round big [] fs = Some fs"
| "failover_round big (x # xs) fs =
     (case messages_pass big None True x fs of Continue fs' \<Rightarrow> failover_round big xs fs' | _ \<Rightarrow> None)"

lemma Continue_any_fallback:
  "messages_pass big g used x fs = Continue fs' \<Longrightarrow> messages_pass big None True x fs = Continue fs'"
  by (erule Continue_cases) (auto simp: messages_pass_def on_selection_failed_def on_profit_veto_def on_upstream_failed_def)

lemma failover_round_snoc:
  "failover_round big (xs @ [x]) fs = Some fs2 \<longleftrightarrow>
     (\<exists>fs1. failover_round big xs fs = Some fs1 \<and> messages_pass big None True x fs1 = Continue fs2)"
  by (induction xs arbitrary: fs) (auto split: pass_result.splits)

text \<open>What a request did that is not finished: a round, possibly after one that ended in the fallback.\<close>

lemma unfinished_round:
  "messages_loop big m bound g used xs fs = Inl fs' \<Longrightarrow>
     failover_round big xs fs = Some fs' \<or> (\<exists>ys zs. xs = ys @ zs \<and> failover_round big zs (NewFailoverState m bound) = Some fs')"
proof (induction xs arbitrary: used fs)
  case (Cons x xs)
  show ?case
  proof (cases "messages_pass big g used x fs")
    case (Continue fs1)
    note IH = Cons.IH [of used fs1]
    have "failover_round big xs fs1 = Some fs' \<or> (\<exists>ys zs. xs = ys @ zs \<and> failover_round big zs (NewFailoverState m bound) = Some fs')"
      using IH Cons.prems Continue by simp
    then show ?thesis
    proof
      assume "\<exists>ys zs. xs = ys @ zs \<and> failover_round big zs (NewFailoverState m bound) = Some fs'"
      then show ?thesis by (metis append_Cons)
    qed (simp add: Continue_any_fallback [OF Continue])
  next
    case RetryWithFallback
    then have "failover_round big xs (NewFailoverState m bound) = Some fs'
        \<or> (\<exists>ys zs. xs = ys @ zs \<and> failover_round big zs (NewFailoverState m bound) = Some fs')"
      using Cons.IH [of True "NewFailoverState m bound"] Cons.prems by simp
    then show ?thesis by (metis append_Cons append_Nil)
  qed (use Cons.prems in simp)
qed simp

definition round_ok :: "int set \<Rightarrow> int \<Rightarrow> loop_pass list \<Rightarrow> FailoverState \<Rightarrow> bool" where
  "round_ok A m xs fs \<longleftrightarrow> fs_MaxSwitches fs = m \<and> fs_SwitchCount fs \<le> m
     \<and> int (length (filter upstream_failure xs)) = fs_SwitchCount fs + (\<Sum>a\<in>A. fs_SameAccountRetryCount fs a)
     \<and> int (length (filter profit_veto xs)) = fs_profitVetoCount fs \<and> fs_profitVetoCount fs < 10
     \<and> fs_profitVetoedAccountIDs fs \<subseteq> fs_FailedAccountIDs fs
     \<and> (\<forall>a. fs_SameAccountRetryCount fs a \<le> 10)"

lemma sum_update_suc:
  assumes "finite A" "a \<in> A"
  shows "(\<Sum>x\<in>A. (f(a := f a + 1)) x) = (\<Sum>x\<in>A. (f x :: int)) + 1"
proof -
  have "(\<Sum>x\<in>A. (f(a := f a + 1)) x) = (f a + 1) + (\<Sum>x\<in>A - {a}. (f(a := f a + 1)) x)"
    using assms by (simp add: sum.remove)
  also have "(\<Sum>x\<in>A - {a}. (f(a := f a + 1)) x) = (\<Sum>x\<in>A - {a}. f x)" by (intro sum.cong) auto
  finally show ?thesis using assms by (simp add: sum.remove)
qed

lemma round_ok_step:
  assumes A: "finite A" and x: "pass_within A x" and ok: "round_ok A m xs fs"
    and go: "messages_pass big None True x fs = Continue fs'"
  shows "round_ok A m (xs @ [x]) fs'"
  using go
proof (cases rule: Continue_cases)
  case (selection ctx)
  then show ?thesis using ok selection_continues [of ctx fs fs'] by (simp add: round_ok_def upstream_failure_def profit_veto_def)
next
  case (veto a)
  then show ?thesis using ok veto_continues [of "fa_ID a" fs fs'] by (auto simp: round_ok_def upstream_failure_def profit_veto_def)
next
  case (failure a e ctx un)
  have a: "fa_ID a \<in> A" "counted_error e" using x failure(1) by (simp_all add: pass_within_def)
  have n: "upstream_failure x" "\<not> profit_veto x" using failure(1) by (simp_all add: upstream_failure_def profit_veto_def)
  from failure(2) show ?thesis
  proof (cases rule: failure_continues)
    case (retry b)
    have "fs_SameAccountRetryCount fs (fa_ID a) < 10"
      using retry_below_limit [OF retry(1) a(2)] GetPoolModeRetryCount_bounds [of big "Some a"] by linarith
    then show ?thesis
      using ok n retry(2) sum_update_suc [OF A a(1), of "fs_SameAccountRetryCount fs"] by (simp add: round_ok_def)
  next
    case (switch b)
    then show ?thesis using ok n by (auto simp: round_ok_def)
  qed
qed

lemma round_ok_run:
  assumes A: "finite A" and m: "0 \<le> m" and xs: "\<forall>x \<in> set xs. pass_within A x"
    and run: "failover_round big xs (NewFailoverState m bound) = Some fs"
  shows "round_ok A m xs fs"
  using xs run
proof (induction xs arbitrary: fs rule: rev_induct)
  case Nil
  then show ?case using m by (auto simp: round_ok_def NewFailoverState_def)
next
  case (snoc x xs)
  then obtain fs1 where fs1: "failover_round big xs (NewFailoverState m bound) = Some fs1"
      "messages_pass big None True x fs1 = Continue fs"
    by (auto simp: failover_round_snoc)
  then show ?case using snoc by (intro round_ok_step [OF A _ _ fs1(2)]) auto
qed

lemma vetoed_grows:
  assumes go: "messages_pass big None True x fs = Continue fs'"
  shows "fs_profitVetoedAccountIDs fs \<subseteq> fs_profitVetoedAccountIDs fs'
     \<and> (\<forall>a. x = Selected a ProfitVetoed \<longrightarrow> fa_ID a \<in> fs_profitVetoedAccountIDs fs')
     \<and> (fs_profitVetoedAccountIDs fs \<subseteq> fs_FailedAccountIDs fs \<longrightarrow> fs_profitVetoedAccountIDs fs' \<subseteq> fs_FailedAccountIDs fs')"
  using go
proof (cases rule: Continue_cases)
  case (selection ctx)
  then show ?thesis using selection_continues [of ctx fs fs'] by simp
next
  case (veto a)
  then show ?thesis using veto_continues [of "fa_ID a" fs fs'] by auto
next
  case (failure a e ctx un)
  from failure(2) show ?thesis by (cases rule: failure_continues) (use failure(1) in auto)
qed

lemma vetoed_round:
  assumes run: "failover_round big xs fs = Some fs'" and v: "fs_profitVetoedAccountIDs fs \<subseteq> fs_FailedAccountIDs fs"
  shows "fs_profitVetoedAccountIDs fs \<subseteq> fs_profitVetoedAccountIDs fs'
     \<and> (\<forall>a. Selected a ProfitVetoed \<in> set xs \<longrightarrow> fa_ID a \<in> fs_profitVetoedAccountIDs fs')
     \<and> fs_profitVetoedAccountIDs fs' \<subseteq> fs_FailedAccountIDs fs'"
  using run v
proof (induction xs arbitrary: fs)
  case (Cons x xs)
  then obtain fs1 where "messages_pass big None True x fs = Continue fs1" "failover_round big xs fs1 = Some fs'"
    by (auto split: pass_result.splits)
  then show ?case using vetoed_grows [of big x fs fs1] Cons.IH [of fs1] Cons.prems(2) by auto
qed simp

subsection \<open>A sample request\<close>

definition busy_error :: UpstreamFailoverError where
  "busy_error = \<lparr>ufe_StatusCode = 503, ufe_ResponseBody = [], ufe_ForceCacheBilling = False, ufe_RetryableOnSameAccount = False,
     ufe_SameAccountRetryDelay = 0, ufe_SameAccountRetryDeadline = zero_time, ufe_SameAccountRetryMax = 0,
     ufe_RequestScopedTransient = True, ufe_SafeToFailoverAfterWrite = False, ufe_Stage = [], ufe_Scope = [], ufe_Reason = [],
     ufe_NextAccountAction = NextAccountLegacyRetry, ufe_ClientStatusCode = 0, ufe_ClientMessage = []\<rparr>"

definition sample_ctx :: request_ctx where
  "sample_ctx = \<lparr>cx_Err = False, cx_now = 0, cx_waits = (\<lambda>_. True)\<rparr>"

definition sample_account_of :: "int \<Rightarrow> failover_account" where
  "sample_account_of i = \<lparr>fa_ID = i, fa_Platform = ''anthropic'', fa_Type = ''oauth'', fa_Credentials = None\<rparr>"

definition busy_pass :: "int \<Rightarrow> loop_pass" where
  "busy_pass i = Selected (sample_account_of i) (Admitted (UpstreamFailed busy_error False sample_ctx))"

definition sample_state :: FailoverState where
  "sample_state = (NewFailoverState 2 False)\<lparr>fs_LastFailoverErr := Some busy_error, fs_FailedAccountIDs := {1}, fs_SwitchCount := 1\<rparr>"

lemma busy_pass_within: "i \<in> A \<Longrightarrow> pass_within A (busy_pass i)"
  by (simp add: pass_within_def busy_pass_def sample_account_of_def counted_error_def busy_error_def)

lemmas failover_eval = messages_pass_def on_upstream_failed_def on_profit_veto_def on_selection_failed_def HandleFailoverError_def
  HandleSelectionExhausted_def RecordProfitVeto_def allExclusionsAreProfitVetoed_def ShouldRetryNextAccount_def
  sameAccountRetryAllowed_def needForceCacheBilling_def sleepWithContext_def maxProfitVetoAttempts_def NewFailoverState_def
  busy_pass_def busy_error_def sample_ctx_def sample_account_of_def

lemma busy_pass_sample: "messages_pass big g used (busy_pass 1) (NewFailoverState 2 False) = Continue sample_state"
  by (simp add: failover_eval sample_state_def)

subsection \<open>Properties\<close>

text \<open>
  (C12) Every request ends. Whatever selection, profit control and upstream accounts do, the two loops of
  the handler give an answer after at most \<open>2 * (2 * maxSwitches + 10 * n + 11)\<close> passes, where \<open>n\<close> is the
  number of accounts, if the errors do not set a deadline as the only limit of retries on one account.
\<close>

theorem request_ends:
  assumes A: "finite A" and xs: "\<forall>x \<in> set xs. pass_within A x"
    and len: "2 * (2 * nat maxSwitches + 10 * card A + 11) \<le> length xs"
  shows "\<exists>a. Messages_loop big maxSwitches bound fallbackGroupID xs = Inr a"
  unfolding Messages_loop_def
  by (rule messages_loop_ends [OF A xs]) (use len in \<open>simp add: budget_new\<close>)

theorem request_ends_witness: "\<exists>a. Messages_loop (\<lambda>_. 0) 2 False (Some 5) (replicate 70 (busy_pass 1)) = Inr a"
  by (rule request_ends [where A = "{1}"]) (simp_all add: busy_pass_within)



text \<open>
  (C14) An account that the profit control refused stays excluded for the rest of the round, also when the
  back-off for a busy upstream clears the list of failed accounts: it is in the list that every later
  selection of the round has to respect.
\<close>

theorem vetoed_account_stays_out:
  assumes run: "failover_round big (xs @ [Selected a ProfitVetoed] @ ys) (NewFailoverState maxSwitches bound) = Some fs"
  shows "fa_ID a \<in> fs_FailedAccountIDs fs"
  using vetoed_round [OF run] by (auto simp: NewFailoverState_def)

theorem vetoed_account_stays_out_witness:
  "fa_ID (sample_account_of 2) \<in> fs_FailedAccountIDs (the (failover_round (\<lambda>_. 0)
     ([busy_pass 1] @ [Selected (sample_account_of 2) ProfitVetoed] @ [SelectionFailed sample_ctx]) (NewFailoverState 2 False)))"
  by (rule vetoed_account_stays_out [where big = "\<lambda>_. 0" and maxSwitches = 2 and bound = False
        and xs = "[busy_pass 1]" and ys = "[SelectionFailed sample_ctx]"])
    (simp add: busy_pass_sample, simp add: failover_eval sample_state_def)

text \<open>
  The wait before a retry on the same account. An error that is bound to the request doubles the wait
  with each retry, from half a second up to eight seconds: the loop computes the smaller one of
  \<open>0.5 s * 2 ^ (retryCount - 1)\<close> and \<open>8 s\<close>.
\<close>

theorem retry_wait_spec:
  assumes "ufe_RequestScopedTransient e" "ufe_SameAccountRetryDelay e \<le> 0" "1 \<le> retryCount"
  shows "sameAccountRetryDelayFor (Some e) retryCount
     = min (sameAccountRetryDelay * 2 ^ nat (retryCount - 1)) maxRequestScopedRetryDelay"
proof -
  have "backoff_loop (nat (retryCount - 1)) sameAccountRetryDelay
      = min (sameAccountRetryDelay * 2 ^ nat (retryCount - 1)) maxRequestScopedRetryDelay"
    by (rule backoff_loop_min) (simp_all add: sameAccountRetryDelay_def maxRequestScopedRetryDelay_def second_ns_def)
  then show ?thesis
    using assms by (cases "retryCount = 1")
      (simp_all add: sameAccountRetryDelayFor_def sameAccountRetryDelay_def maxRequestScopedRetryDelay_def second_ns_def)
qed

theorem retry_wait_spec_witness:
  "sameAccountRetryDelayFor (Some busy_error) 3 = min (sameAccountRetryDelay * 2 ^ nat (3 - 1)) maxRequestScopedRetryDelay"
  by (rule retry_wait_spec) (simp_all add: busy_error_def)

end
