(* ===== verification/Payment.thy ===== *)
theory Payment
  imports Relay_Prelude Go_Time Complex_Main
begin

text \<open>
  Fulfillment of paid orders: \<open>service/payment_fulfillment.go\<close>, the part of \<open>service/redeem_service.go\<close> and
  \<open>repository/redeem_code_repo.go\<close> it uses, and the statements of \<open>service/payment_order_lifecycle.go\<close> that
  change the status of an order.

  A payment provider reports a payment with a notification, possibly several times; an administrator can
  retry an order. Each of these calls is a worker, a machine that makes one call of the database or of the
  redeem cache per step, so that any number of them interleave. A statement can fail without effect, or
  take effect and still report an error, as when the connection breaks at the commit; a worker that is
  never run again is one that crashed. A transaction is one step: its statements lock the row they change
  and the commit makes them visible together.

  Amounts are rational numbers; the difference of two of them as \<open>float64\<close> is an argument, as is the
  precision in which the database stores times. What the lookup of the provider instance and the check of
  the provider's metadata yield is part of the step. Audit entries that nothing depends on, notification
  mails, caches and logging are left out. Subscription orders and redeem codes of other kinds leave the
  model (\<open>PcOutside\<close>). Only the workers redeem the codes of orders: the code of an order contains its
  number, so no code exists before the order, and that somebody else enters it is not modelled.

  The log records what happened: orders marked as paid, balances credited, rebates granted. Shown are that
  an order is credited at most once and only after a matching payment, that a completed order was credited
  once, that a rebate is granted at most once, and that a retry completes an order whatever happened to it
  before.
\<close>

subsection \<open>Tables\<close>

datatype order_status =
    OrderStatusPending | OrderStatusPaid | OrderStatusRecharging | OrderStatusCompleted | OrderStatusExpired
  | OrderStatusCancelled | OrderStatusFailed | OrderStatusRefundRequested | OrderStatusRefunding
  | OrderStatusRefundPending | OrderStatusPartiallyRefunded | OrderStatusRefunded | OrderStatusRefundFailed

definition psIsRefundStatus :: "order_status \<Rightarrow> bool" where
  "psIsRefundStatus s \<longleftrightarrow> s \<in> {OrderStatusRefundRequested, OrderStatusRefunding, OrderStatusRefundPending,
     OrderStatusPartiallyRefunded, OrderStatusRefunded, OrderStatusRefundFailed}"

record PaymentOrder =
  po_ID :: int
  po_UserID :: int
  po_Amount :: rat
  po_PayAmount :: rat
  po_RechargeCode :: string
  po_OutTradeNo :: string
  po_PaymentType :: string
  po_PaymentTradeNo :: string
  po_OrderType :: string
  po_Status :: order_status
  po_ProviderKey :: "string option"
  po_SnapshotProviderKey :: string  \<comment> \<open>the key in the snapshot of the provider, if it has one\<close>
  po_Currency :: string             \<comment> \<open>\<open>PaymentOrderCurrency\<close>\<close>
  po_PaidAt :: "instant option"
  po_CompletedAt :: "instant option"
  po_FailedAt :: "instant option"
  po_UpdatedAt :: instant

record RedeemCode =
  rc_ID :: int
  rc_Code :: string
  rc_Type :: string
  rc_Value :: rat
  rc_Status :: string
  rc_UsedBy :: "int option"
  rc_UsedAt :: "instant option"
  rc_ExpiresAt :: "instant option"

definition IsUsed :: "RedeemCode \<Rightarrow> bool" where
  "IsUsed r \<longleftrightarrow> rc_Status r = ''used''"

definition IsExpiredAt :: "RedeemCode \<Rightarrow> instant \<Rightarrow> bool" where
  "IsExpiredAt r now \<longleftrightarrow> rc_Status r = ''expired''
     \<or> rc_Status r = ''unused'' \<and> (case rc_ExpiresAt r of None \<Rightarrow> False | Some e \<Rightarrow> \<not> now < e)"

definition CanUse :: "RedeemCode \<Rightarrow> instant \<Rightarrow> bool" where
  "CanUse r now \<longleftrightarrow> rc_Status r = ''unused'' \<and> \<not> IsExpiredAt r now"

record pay_user =
  pu_balance :: rat
  pu_total_recharged :: rat

record pay_db =
  pd_orders :: "PaymentOrder list"
  pd_codes :: "RedeemCode list"
  pd_next_code :: int
  pd_users :: "int \<rightharpoonup> pay_user"
  pd_audit :: "(int \<times> string) list"   \<comment> \<open>order and action, together unique\<close>

definition order_Get :: "int \<Rightarrow> pay_db \<Rightarrow> PaymentOrder option" where
  "order_Get oid db = find (\<lambda>o'. po_ID o' = oid) (pd_orders db)"

text \<open>An update of the rows for which a condition holds, with the number of rows it changed.\<close>

definition update_where :: "('r \<Rightarrow> bool) \<Rightarrow> ('r \<Rightarrow> 'r) \<Rightarrow> 'r list \<Rightarrow> 'r list" where
  "update_where P f rows = map (\<lambda>r. if P r then f r else r) rows"

definition order_Update :: "(PaymentOrder \<Rightarrow> bool) \<Rightarrow> (PaymentOrder \<Rightarrow> PaymentOrder) \<Rightarrow> pay_db \<Rightarrow> pay_db \<times> nat" where
  "order_Update P f db = (db\<lparr>pd_orders := update_where P f (pd_orders db)\<rparr>, length (filter P (pd_orders db)))"

definition GetByCode :: "string \<Rightarrow> pay_db \<Rightarrow> RedeemCode option" where
  "GetByCode code db = find (\<lambda>r. rc_Code r = code) (pd_codes db)"

definition code_GetByID :: "int \<Rightarrow> pay_db \<Rightarrow> RedeemCode option" where
  "code_GetByID i db = find (\<lambda>r. rc_ID r = i) (pd_codes db)"

text \<open>The column \<open>code\<close> is unique; a second row with the same code is refused.\<close>

definition code_Create :: "RedeemCode \<Rightarrow> pay_db \<Rightarrow> pay_db option" where
  "code_Create r db =
     (if rc_Code r \<in> set (map rc_Code (pd_codes db)) then None
      else Some (db\<lparr>pd_codes := pd_codes db @ [r\<lparr>rc_ID := pd_next_code db\<rparr>], pd_next_code := pd_next_code db + 1\<rparr>))"

definition code_Use :: "int \<Rightarrow> int \<Rightarrow> instant \<Rightarrow> pay_db \<Rightarrow> pay_db option" where
  "code_Use i userID now db =
     (let P = (\<lambda>r. rc_ID r = i \<and> rc_Status r = ''unused'') in
      if filter P (pd_codes db) = [] then None
      else Some (db\<lparr>pd_codes := update_where P
             (\<lambda>r. r\<lparr>rc_Status := ''used'', rc_UsedBy := Some userID, rc_UsedAt := Some now\<rparr>) (pd_codes db)\<rparr>))"

definition UpdateBalance :: "int \<Rightarrow> rat \<Rightarrow> pay_db \<Rightarrow> pay_db option" where
  "UpdateBalance uid amount db =
     (case pd_users db uid of
        None \<Rightarrow> None
      | Some u \<Rightarrow> Some (db\<lparr>pd_users := (pd_users db)(uid \<mapsto>
            u\<lparr>pu_balance := pu_balance u + amount,
              pu_total_recharged := (if 0 < amount then pu_total_recharged u + amount else pu_total_recharged u)\<rparr>)\<rparr>))"

definition ApplyRedeemBalanceAdjustment :: "int \<Rightarrow> rat \<Rightarrow> pay_db \<Rightarrow> pay_db option" where
  "ApplyRedeemBalanceAdjustment uid delta db =
     (case pd_users db uid of
        None \<Rightarrow> None
      | Some u \<Rightarrow> Some (db\<lparr>pd_users := (pd_users db)(uid \<mapsto> u\<lparr>pu_balance := max (pu_balance u + delta) 0\<rparr>)\<rparr>))"

subsection \<open>Checks of a notification\<close>

datatype pay_float = Finite rat | NaN | Infinite bool

definition isValidProviderAmount :: "pay_float \<Rightarrow> bool" where
  "isValidProviderAmount amount = (case amount of Finite a \<Rightarrow> 0 < a | _ \<Rightarrow> False)"

definition zero_decimal_currencies :: "string list" where
  "zero_decimal_currencies = [''BIF'', ''CLP'', ''DJF'', ''GNF'', ''JPY'', ''KMF'', ''KRW'', ''MGA'', ''PYG'', ''RWF'', ''VND'',
     ''VUV'', ''XAF'', ''XOF'', ''XPF'']"

definition three_decimal_currencies :: "string list" where
  "three_decimal_currencies = [''BHD'', ''IQD'', ''JOD'', ''KWD'', ''LYD'', ''OMR'', ''TND'']"

text \<open>The currency of an order is a normalized one.\<close>

definition CurrencyMinorUnit :: "string \<Rightarrow> nat" where
  "CurrencyMinorUnit currency =
     (if currency \<in> set zero_decimal_currencies then 0 else if currency \<in> set three_decimal_currencies then 3 else 2)"

record pay_cfg =
  pg_float :: "rat \<Rightarrow> rat"                   \<comment> \<open>the nearest \<open>float64\<close>\<close>
  pg_sub :: "rat \<Rightarrow> rat \<Rightarrow> rat"               \<comment> \<open>subtraction of \<open>float64\<close>\<close>
  pg_store :: "instant \<Rightarrow> instant"             \<comment> \<open>the precision of stored times\<close>
  pg_registry :: "string \<Rightarrow> string"           \<comment> \<open>\<open>Registry.GetProviderKey\<close>\<close>
  pg_fold :: "string \<Rightarrow> string \<Rightarrow> bool"       \<comment> \<open>\<open>strings.EqualFold\<close>\<close>
  pg_affiliate :: bool                         \<comment> \<open>there is an affiliate service\<close>
  pg_rebate :: "int \<Rightarrow> rat \<Rightarrow> rat"             \<comment> \<open>the rebate \<open>AccrueInviteRebateForOrder\<close> grants\<close>

definition paymentAmountToleranceForCurrency :: "pay_cfg \<Rightarrow> string \<Rightarrow> rat" where
  "paymentAmountToleranceForCurrency cfg currency =
     (let minorUnit = CurrencyMinorUnit currency
      in if minorUnit \<le> 2 then pg_float cfg (1 / 100) else pg_float cfg (1 / 10 ^ minorUnit) / 2)"

definition expectedNotificationProviderKey :: "pay_cfg \<Rightarrow> string \<Rightarrow> string \<Rightarrow> string \<Rightarrow> string" where
  "expectedNotificationProviderKey cfg orderPaymentType orderProviderKey instanceProviderKey =
     (if TrimSpace instanceProviderKey \<noteq> [] then TrimSpace instanceProviderKey
      else if TrimSpace orderProviderKey \<noteq> [] then TrimSpace orderProviderKey
      else if TrimSpace (pg_registry cfg orderPaymentType) \<noteq> [] then TrimSpace (pg_registry cfg orderPaymentType)
      else TrimSpace orderPaymentType)"

definition expectedNotificationProviderKeyForOrder :: "pay_cfg \<Rightarrow> PaymentOrder \<Rightarrow> string \<Rightarrow> string" where
  "expectedNotificationProviderKeyForOrder cfg ord instanceProviderKey =
     (let key = (case po_ProviderKey ord of None \<Rightarrow> [] | Some k \<Rightarrow> k);
          key = (if po_SnapshotProviderKey ord \<noteq> [] then po_SnapshotProviderKey ord else key)
      in expectedNotificationProviderKey cfg (po_PaymentType ord) key instanceProviderKey)"

definition parseLegacyPaymentOrderID :: "string \<Rightarrow> int option" where
  "parseLegacyPaymentOrderID orderID =
     (let orderID = TrimSpace orderID in
      if \<not> HasPrefix orderID ''sub2_'' then None
      else let trimmed = drop 5 orderID in
           if trimmed = [] \<or> trimmed = orderID then None
           else (case Atoi trimmed of None \<Rightarrow> None | Some oid \<Rightarrow> if oid \<le> 0 then None else Some oid))"

record notification =
  nt_Success :: bool
  nt_OrderID :: string
  nt_TradeNo :: string
  nt_Amount :: pay_float

subsection \<open>Statements\<close>

definition minute_ns :: duration where
  "minute_ns = 60 * second_ns"

definition payable :: "instant \<Rightarrow> int \<Rightarrow> PaymentOrder \<Rightarrow> bool" where
  "payable now oid r \<longleftrightarrow> po_ID r = oid
     \<and> (po_Status r = OrderStatusPending \<or> po_Status r = OrderStatusCancelled
        \<or> po_Status r = OrderStatusExpired \<and> now - 5 * minute_ns \<le> po_UpdatedAt r)"

definition update_to_paid :: "pay_cfg \<Rightarrow> instant \<Rightarrow> int \<Rightarrow> string \<Rightarrow> rat \<Rightarrow> pay_db \<Rightarrow> pay_db \<times> nat" where
  "update_to_paid cfg now oid tradeNo paid = order_Update (payable now oid)
     (\<lambda>r. r\<lparr>po_Status := OrderStatusPaid, po_PayAmount := paid, po_PaymentTradeNo := tradeNo,
            po_PaidAt := Some (pg_store cfg now), po_FailedAt := None, po_UpdatedAt := pg_store cfg now\<rparr>)"

definition leasable :: "instant \<Rightarrow> int \<Rightarrow> PaymentOrder \<Rightarrow> bool" where
  "leasable now oid r \<longleftrightarrow> po_ID r = oid
     \<and> (po_Status r \<in> {OrderStatusPaid, OrderStatusFailed}
        \<or> po_Status r = OrderStatusRecharging \<and> po_UpdatedAt r \<le> now - 5 * minute_ns)"

definition truncate_us :: "instant \<Rightarrow> instant" where
  "truncate_us t = t div 1000 * 1000"

definition update_lease :: "pay_cfg \<Rightarrow> instant \<Rightarrow> int \<Rightarrow> pay_db \<Rightarrow> pay_db \<times> nat" where
  "update_lease cfg now oid = order_Update (leasable (truncate_us now) oid)
     (\<lambda>r. r\<lparr>po_Status := OrderStatusRecharging, po_FailedAt := None, po_UpdatedAt := pg_store cfg (truncate_us now)\<rparr>)"

definition held :: "int \<Rightarrow> instant \<Rightarrow> PaymentOrder \<Rightarrow> bool" where
  "held oid version r \<longleftrightarrow> po_ID r = oid \<and> po_Status r = OrderStatusRecharging \<and> po_UpdatedAt r = version"

definition update_completed :: "pay_cfg \<Rightarrow> instant \<Rightarrow> int \<Rightarrow> instant \<Rightarrow> pay_db \<Rightarrow> pay_db \<times> nat" where
  "update_completed cfg now oid version = order_Update (held oid version)
     (\<lambda>r. r\<lparr>po_Status := OrderStatusCompleted, po_CompletedAt := Some (pg_store cfg now), po_UpdatedAt := pg_store cfg now\<rparr>)"

definition update_failed :: "pay_cfg \<Rightarrow> instant \<Rightarrow> int \<Rightarrow> instant \<Rightarrow> pay_db \<Rightarrow> pay_db \<times> nat" where
  "update_failed cfg now oid version = order_Update (held oid version)
     (\<lambda>r. r\<lparr>po_Status := OrderStatusFailed, po_FailedAt := Some (pg_store cfg now), po_UpdatedAt := pg_store cfg now\<rparr>)"

text \<open>
  The transaction of \<open>Redeem\<close> for a code of type \<open>balance\<close>: the code is marked as used if it still is
  unused, and the balance changes.
\<close>

definition redeem_tx :: "int \<Rightarrow> RedeemCode \<Rightarrow> instant \<Rightarrow> pay_db \<Rightarrow> pay_db option" where
  "redeem_tx userID r now db =
     (case code_Use (rc_ID r) userID now db of
        None \<Rightarrow> None
      | Some db \<Rightarrow> if rc_Value r < 0 then ApplyRedeemBalanceAdjustment userID (rc_Value r) db else UpdateBalance userID (rc_Value r) db)"

definition affiliateRebateBaseAmount :: "PaymentOrder \<Rightarrow> rat" where
  "affiliateRebateBaseAmount ord =
     (if po_OrderType ord = ''balance'' \<or> po_OrderType ord = ''subscription'' then po_Amount ord else 0)"

text \<open>The transaction of \<open>applyAffiliateRebateForOrder\<close>: the entry in the audit log is the claim.\<close>

definition tryClaimAffiliateRebateAudit :: "int \<Rightarrow> pay_db \<Rightarrow> pay_db option" where
  "tryClaimAffiliateRebateAudit oid db =
     (if (oid, ''AFFILIATE_REBATE_APPLIED'') \<in> set (pd_audit db) \<or> (oid, ''AFFILIATE_REBATE_SKIPPED'') \<in> set (pd_audit db)
      then None else Some (db\<lparr>pd_audit := pd_audit db @ [(oid, ''AFFILIATE_REBATE_APPLIED'')]\<rparr>))"

definition updateClaimedAffiliateRebateAudit :: "int \<Rightarrow> string \<Rightarrow> pay_db \<Rightarrow> pay_db" where
  "updateClaimedAffiliateRebateAudit oid action db =
     db\<lparr>pd_audit := update_where (\<lambda>e. e = (oid, ''AFFILIATE_REBATE_APPLIED'')) (\<lambda>e. (oid, action)) (pd_audit db)\<rparr>"

subsection \<open>What is logged\<close>

datatype pay_event =
    OrderPaid int rat rat              \<comment> \<open>order, amount expected, amount paid\<close>
  | Credited string int rat            \<comment> \<open>code, user, amount\<close>
  | Rebated int rat                    \<comment> \<open>order, amount\<close>

definition rebate_tx :: "pay_cfg \<Rightarrow> PaymentOrder \<Rightarrow> pay_db \<Rightarrow> pay_db \<times> pay_event list" where
  "rebate_tx cfg ord db =
     (case tryClaimAffiliateRebateAudit (po_ID ord) db of
        None \<Rightarrow> (db, [])
      | Some db \<Rightarrow>
          let rebateAmount = pg_rebate cfg (po_UserID ord) (affiliateRebateBaseAmount ord) in
          if rebateAmount \<le> 0 then (updateClaimedAffiliateRebateAudit (po_ID ord) ''AFFILIATE_REBATE_SKIPPED'' db, [])
          else (updateClaimedAffiliateRebateAudit (po_ID ord) ''AFFILIATE_REBATE_APPLIED'' db, [Rebated (po_ID ord) rebateAmount]))"

subsection \<open>Workers\<close>

datatype redeem_error = ErrRedeemRateLimited | ErrRedeemCodeLocked | ErrRedeemCodeNotFound | ErrRedeemCodeExpired
  | ErrRedeemCodeUsed | ErrRedeemUser

datatype pay_error =
    ErrOrderNotFound | PayNotFound | PayInvalidStatus | PayConflict | PayProviderMismatch | PayMetadataMismatch
  | PayInvalidAmount | PayAmountMismatch | PayStore | PayCode | PayRedeem redeem_error

datatype pay_pc =
    PcNotify notification string
  | PcRetry int
  | PcConfirm int string pay_float string
  | PcToPaid PaymentOrder string rat
  | PcAlready int
  | PcExecute int
  | PcBalance int
  | PcLease PaymentOrder
  | PcLeaseLost PaymentOrder
  | PcLeaseClaimed PaymentOrder
  | PcLookup PaymentOrder instant
  | PcCreate PaymentOrder instant
  | PcRedeem PaymentOrder instant
  | PcRedeemUser PaymentOrder instant RedeemCode
  | PcRedeemTx PaymentOrder instant RedeemCode
  | PcRedeemed PaymentOrder instant RedeemCode
  | PcRebate PaymentOrder instant
  | PcComplete PaymentOrder instant
  | PcCompleteLost PaymentOrder instant
  | PcFail PaymentOrder instant pay_error
  | PcDone "pay_error option"
  | PcOutside

text \<open>A statement works, fails, or takes effect but reports an error.\<close>

datatype fault = NoFault | Fails | EffectLost

record pay_env =
  pe_now :: instant
  pe_fault :: fault
  pe_instanceKey :: string   \<comment> \<open>key of the provider instance, empty if the lookup fails\<close>
  pe_metadataOK :: bool
  pe_limited :: bool         \<comment> \<open>the user had too many failed attempts to redeem\<close>
  pe_locked :: bool          \<comment> \<open>another request holds the lock of the code\<close>

type_synonym pay_result = "pay_pc \<times> pay_db \<times> pay_event list"

definition reading :: "pay_env \<Rightarrow> pay_db \<Rightarrow> pay_pc \<Rightarrow> pay_pc \<Rightarrow> pay_result" where
  "reading env db failed next = ((if pe_fault env = NoFault then next else failed), db, [])"

definition writing :: "pay_env \<Rightarrow> pay_db \<Rightarrow> pay_pc \<Rightarrow> pay_pc \<Rightarrow> pay_db \<Rightarrow> pay_event list \<Rightarrow> pay_result" where
  "writing env db failed next db' evs =
     (case pe_fault env of NoFault \<Rightarrow> (next, db', evs) | Fails \<Rightarrow> (failed, db, []) | EffectLost \<Rightarrow> (failed, db', evs))"

definition HandlePaymentNotification :: "pay_env \<Rightarrow> notification \<Rightarrow> string \<Rightarrow> pay_db \<Rightarrow> pay_result" where
  "HandlePaymentNotification env n pk db =
     (if \<not> nt_Success n then (PcDone None, db, [])
      else reading env db (PcDone (Some PayStore))
        (case filter (\<lambda>r. po_OutTradeNo r = nt_OrderID n) (pd_orders db) of
           [ord] \<Rightarrow> PcConfirm (po_ID ord) (nt_TradeNo n) (nt_Amount n) pk
         | [] \<Rightarrow> (case parseLegacyPaymentOrderID (nt_OrderID n) of
                   Some oid \<Rightarrow> PcConfirm oid (nt_TradeNo n) (nt_Amount n) pk
                 | None \<Rightarrow> PcDone (Some ErrOrderNotFound))
         | _ \<Rightarrow> PcDone (Some PayStore)))"

definition check_payment :: "pay_cfg \<Rightarrow> pay_env \<Rightarrow> PaymentOrder \<Rightarrow> pay_float \<Rightarrow> string \<Rightarrow> pay_error option" where
  "check_payment cfg env ord paid pk =
     (let expectedProviderKey = expectedNotificationProviderKeyForOrder cfg ord (pe_instanceKey env) in
      if expectedProviderKey \<noteq> [] \<and> TrimSpace pk \<noteq> [] \<and> \<not> pg_fold cfg expectedProviderKey (TrimSpace pk)
      then Some PayProviderMismatch
      else if \<not> pe_metadataOK env then Some PayMetadataMismatch
      else case paid of
             Finite a \<Rightarrow>
               if \<not> isValidProviderAmount paid then Some PayInvalidAmount
               else if paymentAmountToleranceForCurrency cfg (po_Currency ord) < \<bar>pg_sub cfg a (po_PayAmount ord)\<bar>
               then Some PayAmountMismatch else None
           | _ \<Rightarrow> Some PayInvalidAmount)"

definition confirmPayment :: "pay_cfg \<Rightarrow> pay_env \<Rightarrow> int \<Rightarrow> string \<Rightarrow> pay_float \<Rightarrow> string \<Rightarrow> pay_db \<Rightarrow> pay_result" where
  "confirmPayment cfg env oid tradeNo paid pk db =
     reading env db (PcDone None)
       (case order_Get oid db of
          None \<Rightarrow> PcDone None
        | Some ord \<Rightarrow>
            (case check_payment cfg env ord paid pk of
               Some e \<Rightarrow> PcDone (Some e)
             | None \<Rightarrow> PcToPaid ord tradeNo (case paid of Finite a \<Rightarrow> a | _ \<Rightarrow> 0)))"

definition toPaid :: "pay_cfg \<Rightarrow> pay_env \<Rightarrow> PaymentOrder \<Rightarrow> string \<Rightarrow> rat \<Rightarrow> pay_db \<Rightarrow> pay_result" where
  "toPaid cfg env ord tradeNo paid db =
     (let (db', c) = update_to_paid cfg (pe_now env) (po_ID ord) tradeNo paid db in
      if c = 0 then reading env db (PcDone (Some PayStore)) (PcAlready (po_ID ord))
      else writing env db (PcDone (Some PayStore)) (PcExecute (po_ID ord)) db' [OrderPaid (po_ID ord) (po_PayAmount ord) paid])"

definition alreadyProcessed :: "pay_env \<Rightarrow> int \<Rightarrow> pay_db \<Rightarrow> pay_result" where
  "alreadyProcessed env oid db =
     reading env db (PcDone None)
       (case order_Get oid db of
          None \<Rightarrow> PcDone None
        | Some cur \<Rightarrow>
            if po_Status cur \<in> {OrderStatusFailed, OrderStatusPaid, OrderStatusRecharging} then PcExecute oid else PcDone None)"

definition executeFulfillment :: "pay_env \<Rightarrow> int \<Rightarrow> pay_db \<Rightarrow> pay_result" where
  "executeFulfillment env oid db =
     reading env db (PcDone (Some PayStore))
       (case order_Get oid db of
          None \<Rightarrow> PcDone (Some PayStore)
        | Some ord \<Rightarrow> if po_OrderType ord = ''subscription'' then PcOutside else PcBalance oid)"

definition ExecuteBalanceFulfillment :: "pay_env \<Rightarrow> int \<Rightarrow> pay_db \<Rightarrow> pay_result" where
  "ExecuteBalanceFulfillment env oid db =
     reading env db (PcDone (Some PayNotFound))
       (case order_Get oid db of
          None \<Rightarrow> PcDone (Some PayNotFound)
        | Some ord \<Rightarrow>
            if po_Status ord = OrderStatusCompleted then PcDone None
            else if psIsRefundStatus (po_Status ord) then PcDone (Some PayInvalidStatus)
            else if po_Status ord \<noteq> OrderStatusPaid \<and> po_Status ord \<noteq> OrderStatusFailed \<and> po_Status ord \<noteq> OrderStatusRecharging
            then PcDone (Some PayInvalidStatus)
            else PcLease ord)"

definition acquire_lease :: "pay_cfg \<Rightarrow> pay_env \<Rightarrow> PaymentOrder \<Rightarrow> pay_db \<Rightarrow> pay_result" where
  "acquire_lease cfg env ord db =
     (let (db', c) = update_lease cfg (pe_now env) (po_ID ord) db in
      if c = 0 then reading env db (PcDone (Some PayStore)) (PcLeaseLost ord)
      else writing env db (PcDone (Some PayStore)) (PcLeaseClaimed ord) db' [])"

definition lease_lost :: "pay_env \<Rightarrow> PaymentOrder \<Rightarrow> pay_db \<Rightarrow> pay_result" where
  "lease_lost env ord db =
     reading env db (PcDone (Some PayStore))
       (case order_Get (po_ID ord) db of
          None \<Rightarrow> PcDone (Some PayStore)
        | Some cur \<Rightarrow> if po_Status cur = OrderStatusCompleted then PcDone None else PcDone (Some PayConflict))"

definition lease_claimed :: "pay_env \<Rightarrow> PaymentOrder \<Rightarrow> pay_db \<Rightarrow> pay_result" where
  "lease_claimed env ord db =
     reading env db (PcDone (Some PayStore))
       (case order_Get (po_ID ord) db of
          None \<Rightarrow> PcDone (Some PayStore)
        | Some claimed \<Rightarrow>
            if po_Status claimed \<noteq> OrderStatusRecharging then PcDone (Some PayConflict)
            else PcLookup ord (po_UpdatedAt claimed))"

datatype redeemAction = redeemActionCreate | redeemActionRedeem | redeemActionSkipCompleted

definition resolveRedeemAction :: "RedeemCode option \<Rightarrow> redeemAction" where
  "resolveRedeemAction existing =
     (case existing of
        None \<Rightarrow> redeemActionCreate
      | Some r \<Rightarrow> if IsUsed r then redeemActionSkipCompleted else redeemActionRedeem)"

definition doBalance_lookup :: "pay_env \<Rightarrow> PaymentOrder \<Rightarrow> instant \<Rightarrow> pay_db \<Rightarrow> pay_result" where
  "doBalance_lookup env ord lease db =
     (case resolveRedeemAction (if pe_fault env = NoFault then GetByCode (po_RechargeCode ord) db else None) of
        redeemActionSkipCompleted \<Rightarrow> (PcRebate ord lease, db, [])
      | redeemActionCreate \<Rightarrow> (PcCreate ord lease, db, [])
      | redeemActionRedeem \<Rightarrow> (PcRedeem ord lease, db, []))"

definition new_code :: "PaymentOrder \<Rightarrow> RedeemCode" where
  "new_code ord = \<lparr>rc_ID = 0, rc_Code = TrimSpace (po_RechargeCode ord), rc_Type = ''balance'', rc_Value = po_Amount ord,
     rc_Status = ''unused'', rc_UsedBy = None, rc_UsedAt = None, rc_ExpiresAt = None\<rparr>"

definition CreateCode :: "pay_env \<Rightarrow> PaymentOrder \<Rightarrow> instant \<Rightarrow> pay_db \<Rightarrow> pay_result" where
  "CreateCode env ord lease db =
     (if TrimSpace (po_RechargeCode ord) = [] \<or> po_Amount ord = 0 then (PcFail ord lease PayCode, db, [])
      else case code_Create (new_code ord) db of
             None \<Rightarrow> (PcFail ord lease PayCode, db, [])
           | Some db' \<Rightarrow> writing env db (PcFail ord lease PayCode) (PcRedeem ord lease) db' [])"

definition Redeem_check :: "pay_env \<Rightarrow> PaymentOrder \<Rightarrow> instant \<Rightarrow> pay_db \<Rightarrow> pay_result" where
  "Redeem_check env ord lease db =
     (if pe_limited env then (PcFail ord lease (PayRedeem ErrRedeemRateLimited), db, [])
      else if pe_locked env then (PcFail ord lease (PayRedeem ErrRedeemCodeLocked), db, [])
      else reading env db (PcFail ord lease PayStore)
        (case GetByCode (po_RechargeCode ord) db of
           None \<Rightarrow> PcFail ord lease (PayRedeem ErrRedeemCodeNotFound)
         | Some r \<Rightarrow>
             if IsExpiredAt r (pe_now env) then PcFail ord lease (PayRedeem ErrRedeemCodeExpired)
             else if \<not> CanUse r (pe_now env) then PcFail ord lease (PayRedeem ErrRedeemCodeUsed)
             else if rc_Type r \<noteq> ''balance'' then PcOutside
             else PcRedeemUser ord lease r))"

definition Redeem_user :: "pay_env \<Rightarrow> PaymentOrder \<Rightarrow> instant \<Rightarrow> RedeemCode \<Rightarrow> pay_db \<Rightarrow> pay_result" where
  "Redeem_user env ord lease r db =
     reading env db (PcFail ord lease PayStore)
       (case pd_users db (po_UserID ord) of
          None \<Rightarrow> PcFail ord lease (PayRedeem ErrRedeemUser)
        | Some u \<Rightarrow> PcRedeemTx ord lease r)"

definition Redeem_apply :: "pay_cfg \<Rightarrow> pay_env \<Rightarrow> PaymentOrder \<Rightarrow> instant \<Rightarrow> RedeemCode \<Rightarrow> pay_db \<Rightarrow> pay_result" where
  "Redeem_apply cfg env ord lease r db =
     (case redeem_tx (po_UserID ord) r (pg_store cfg (pe_now env)) db of
        None \<Rightarrow>
          (PcFail ord lease (PayRedeem
             (if code_Use (rc_ID r) (po_UserID ord) (pg_store cfg (pe_now env)) db = None then ErrRedeemCodeUsed else ErrRedeemUser)), db, [])
      | Some db' \<Rightarrow> writing env db (PcFail ord lease PayStore) (PcRedeemed ord lease r) db'
          [Credited (rc_Code r) (po_UserID ord) (rc_Value r)])"

definition Redeem_reload :: "pay_env \<Rightarrow> PaymentOrder \<Rightarrow> instant \<Rightarrow> RedeemCode \<Rightarrow> pay_db \<Rightarrow> pay_result" where
  "Redeem_reload env ord lease r db =
     reading env db (PcFail ord lease PayStore)
       (case code_GetByID (rc_ID r) db of
          None \<Rightarrow> PcFail ord lease (PayRedeem ErrRedeemCodeNotFound)
        | Some r \<Rightarrow> PcRebate ord lease)"

definition applyAffiliateRebateForOrder :: "pay_cfg \<Rightarrow> pay_env \<Rightarrow> PaymentOrder \<Rightarrow> instant \<Rightarrow> pay_db \<Rightarrow> pay_result" where
  "applyAffiliateRebateForOrder cfg env ord lease db =
     (if affiliateRebateBaseAmount ord \<le> 0 \<or> \<not> pg_affiliate cfg then (PcComplete ord lease, db, [])
      else let (db', evs) = rebate_tx cfg ord db
           in writing env db (PcFail ord lease PayStore) (PcComplete ord lease) db' evs)"

definition markCompleted :: "pay_cfg \<Rightarrow> pay_env \<Rightarrow> PaymentOrder \<Rightarrow> instant \<Rightarrow> pay_db \<Rightarrow> pay_result" where
  "markCompleted cfg env ord lease db =
     (let (db', updated) = update_completed cfg (pe_now env) (po_ID ord) lease db in
      if updated = 0 then reading env db (PcFail ord lease PayStore) (PcCompleteLost ord lease)
      else writing env db (PcFail ord lease PayStore) (PcDone None) db' [])"

definition complete_lost :: "pay_env \<Rightarrow> PaymentOrder \<Rightarrow> instant \<Rightarrow> pay_db \<Rightarrow> pay_result" where
  "complete_lost env ord lease db =
     reading env db (PcFail ord lease PayConflict)
       (case order_Get (po_ID ord) db of
          None \<Rightarrow> PcFail ord lease PayConflict
        | Some cur \<Rightarrow> if po_Status cur = OrderStatusCompleted then PcDone None else PcFail ord lease PayConflict)"

definition markFailed :: "pay_cfg \<Rightarrow> pay_env \<Rightarrow> PaymentOrder \<Rightarrow> instant \<Rightarrow> pay_error \<Rightarrow> pay_db \<Rightarrow> pay_result" where
  "markFailed cfg env ord lease err db =
     writing env db (PcDone (Some err)) (PcDone (Some err)) (fst (update_failed cfg (pe_now env) (po_ID ord) lease db)) []"

definition RetryFulfillment :: "pay_env \<Rightarrow> int \<Rightarrow> pay_db \<Rightarrow> pay_result" where
  "RetryFulfillment env oid db =
     reading env db (PcDone (Some PayNotFound))
       (case order_Get oid db of
          None \<Rightarrow> PcDone (Some PayNotFound)
        | Some ord \<Rightarrow>
            if po_PaidAt ord = None then PcDone (Some PayInvalidStatus)
            else if psIsRefundStatus (po_Status ord) then PcDone (Some PayInvalidStatus)
            else if po_Status ord = OrderStatusCompleted then PcDone (Some PayInvalidStatus)
            else if po_Status ord \<noteq> OrderStatusFailed \<and> po_Status ord \<noteq> OrderStatusPaid \<and> po_Status ord \<noteq> OrderStatusRecharging
            then PcDone (Some PayInvalidStatus)
            else PcExecute oid)"

fun worker_step :: "pay_cfg \<Rightarrow> pay_env \<Rightarrow> pay_pc \<Rightarrow> pay_db \<Rightarrow> pay_result" where
  "worker_step cfg env (PcNotify n pk) db = HandlePaymentNotification env n pk db"
| "worker_step cfg env (PcRetry oid) db = RetryFulfillment env oid db"
| "worker_step cfg env (PcConfirm oid tradeNo paid pk) db = confirmPayment cfg env oid tradeNo paid pk db"
| "worker_step cfg env (PcToPaid ord tradeNo paid) db = toPaid cfg env ord tradeNo paid db"
| "worker_step cfg env (PcAlready oid) db = alreadyProcessed env oid db"
| "worker_step cfg env (PcExecute oid) db = executeFulfillment env oid db"
| "worker_step cfg env (PcBalance oid) db = ExecuteBalanceFulfillment env oid db"
| "worker_step cfg env (PcLease ord) db = acquire_lease cfg env ord db"
| "worker_step cfg env (PcLeaseLost ord) db = lease_lost env ord db"
| "worker_step cfg env (PcLeaseClaimed ord) db = lease_claimed env ord db"
| "worker_step cfg env (PcLookup ord lease) db = doBalance_lookup env ord lease db"
| "worker_step cfg env (PcCreate ord lease) db = CreateCode env ord lease db"
| "worker_step cfg env (PcRedeem ord lease) db = Redeem_check env ord lease db"
| "worker_step cfg env (PcRedeemUser ord lease r) db = Redeem_user env ord lease r db"
| "worker_step cfg env (PcRedeemTx ord lease r) db = Redeem_apply cfg env ord lease r db"
| "worker_step cfg env (PcRedeemed ord lease r) db = Redeem_reload env ord lease r db"
| "worker_step cfg env (PcRebate ord lease) db = applyAffiliateRebateForOrder cfg env ord lease db"
| "worker_step cfg env (PcComplete ord lease) db = markCompleted cfg env ord lease db"
| "worker_step cfg env (PcCompleteLost ord lease) db = complete_lost env ord lease db"
| "worker_step cfg env (PcFail ord lease e) db = markFailed cfg env ord lease e db"
| "worker_step cfg env (PcDone e) db = (PcDone e, db, [])"
| "worker_step cfg env PcOutside db = (PcOutside, db, [])"

subsection \<open>The system\<close>

record pay_world =
  pw_db :: pay_db
  pw_workers :: "nat \<Rightarrow> pay_pc"
  pw_log :: "pay_event list"

text \<open>
  Besides the workers, the database is changed by the creation of orders, by their cancellation and
  expiry, by the reconciliation, which stores the trade number it learns, by the refund of completed
  orders, and by everything that moves balances.
\<close>

datatype pay_action =
    Begin nat pay_pc
  | Work nat pay_env
  | CreateOrder PaymentOrder
  | CancelCore int order_status instant
  | PersistTradeNo int string instant
  | RefundMove int order_status instant
  | OtherBalance int pay_user

definition entry_pc :: "pay_pc \<Rightarrow> bool" where
  "entry_pc pc = (case pc of PcNotify n pk \<Rightarrow> True | PcRetry oid \<Rightarrow> True | _ \<Rightarrow> False)"

definition fresh_order :: "PaymentOrder \<Rightarrow> pay_db \<Rightarrow> bool" where
  "fresh_order ord db \<longleftrightarrow> po_ID ord \<notin> set (map po_ID (pd_orders db)) \<and> po_Status ord = OrderStatusPending
     \<and> po_RechargeCode ord \<notin> set (map po_RechargeCode (pd_orders db)) \<and> po_RechargeCode ord \<notin> set (map rc_Code (pd_codes db))
     \<and> TrimSpace (po_RechargeCode ord) = po_RechargeCode ord"

definition after_completion :: "order_status \<Rightarrow> bool" where
  "after_completion s \<longleftrightarrow> s = OrderStatusCompleted \<or> psIsRefundStatus s"

definition cancel_update :: "pay_cfg \<Rightarrow> int \<Rightarrow> order_status \<Rightarrow> instant \<Rightarrow> pay_db \<Rightarrow> pay_db" where
  "cancel_update cfg oid st now db = fst (order_Update (\<lambda>r. po_ID r = oid \<and> po_Status r = OrderStatusPending)
     (\<lambda>r. r\<lparr>po_Status := st, po_UpdatedAt := pg_store cfg now\<rparr>) db)"

definition trade_update :: "pay_cfg \<Rightarrow> int \<Rightarrow> string \<Rightarrow> instant \<Rightarrow> pay_db \<Rightarrow> pay_db" where
  "trade_update cfg oid tradeNo now db = fst (order_Update (\<lambda>r. po_ID r = oid)
     (\<lambda>r. r\<lparr>po_PaymentTradeNo := tradeNo, po_UpdatedAt := pg_store cfg now\<rparr>) db)"

definition refund_update :: "pay_cfg \<Rightarrow> int \<Rightarrow> order_status \<Rightarrow> instant \<Rightarrow> pay_db \<Rightarrow> pay_db" where
  "refund_update cfg oid st now db = fst (order_Update (\<lambda>r. po_ID r = oid \<and> after_completion (po_Status r))
     (\<lambda>r. r\<lparr>po_Status := st, po_UpdatedAt := pg_store cfg now\<rparr>) db)"

fun pay_step :: "pay_cfg \<Rightarrow> pay_action \<Rightarrow> pay_world \<Rightarrow> pay_world" where
  "pay_step cfg (Begin w pc) s = (if entry_pc pc then s\<lparr>pw_workers := (pw_workers s)(w := pc)\<rparr> else s)"
| "pay_step cfg (Work w env) s =
     (let (pc, db, evs) = worker_step cfg env (pw_workers s w) (pw_db s)
      in \<lparr>pw_db = db, pw_workers = (pw_workers s)(w := pc), pw_log = pw_log s @ evs\<rparr>)"
| "pay_step cfg (CreateOrder ord) s =
     (if fresh_order ord (pw_db s) then s\<lparr>pw_db := (pw_db s)\<lparr>pd_orders := pd_orders (pw_db s) @ [ord]\<rparr>\<rparr> else s)"
| "pay_step cfg (CancelCore oid st now) s =
     (if st = OrderStatusCancelled \<or> st = OrderStatusExpired then s\<lparr>pw_db := cancel_update cfg oid st now (pw_db s)\<rparr> else s)"
| "pay_step cfg (PersistTradeNo oid tradeNo now) s = s\<lparr>pw_db := trade_update cfg oid tradeNo now (pw_db s)\<rparr>"
| "pay_step cfg (RefundMove oid st now) s =
     (if after_completion st then s\<lparr>pw_db := refund_update cfg oid st now (pw_db s)\<rparr> else s)"
| "pay_step cfg (OtherBalance uid u) s = s\<lparr>pw_db := (pw_db s)\<lparr>pd_users := (pd_users (pw_db s))(uid \<mapsto> u)\<rparr>\<rparr>"

definition pay_init :: "(int \<rightharpoonup> pay_user) \<Rightarrow> pay_world" where
  "pay_init users = \<lparr>pw_db = \<lparr>pd_orders = [], pd_codes = [], pd_next_code = 1, pd_users = users, pd_audit = []\<rparr>,
     pw_workers = (\<lambda>_. PcDone None), pw_log = []\<rparr>"

definition pay_run :: "pay_cfg \<Rightarrow> (int \<rightharpoonup> pay_user) \<Rightarrow> pay_action list \<Rightarrow> pay_world" where
  "pay_run cfg users acts = fold (pay_step cfg) acts (pay_init users)"

subsection \<open>The invariant of the tables\<close>

text \<open>What a column update leaves alone.\<close>

definition same_order :: "PaymentOrder \<Rightarrow> PaymentOrder \<Rightarrow> bool" where
  "same_order a b \<longleftrightarrow> po_ID a = po_ID b \<and> po_UserID a = po_UserID b \<and> po_Amount a = po_Amount b
     \<and> po_RechargeCode a = po_RechargeCode b \<and> po_OrderType a = po_OrderType b \<and> po_Currency a = po_Currency b"

definition known :: "pay_db \<Rightarrow> PaymentOrder \<Rightarrow> bool" where
  "known db ord \<longleftrightarrow> (\<exists>r \<in> set (pd_orders db). same_order ord r)"

definition code_used :: "pay_db \<Rightarrow> string \<Rightarrow> bool" where
  "code_used db c \<longleftrightarrow> (\<exists>r \<in> set (pd_codes db). rc_Code r = c \<and> IsUsed r)"

definition credit_of :: "string \<Rightarrow> pay_event \<Rightarrow> (int \<times> rat) list" where
  "credit_of c e = (case e of Credited c' u a \<Rightarrow> if c' = c then [(u, a)] else [] | _ \<Rightarrow> [])"

definition credits :: "string \<Rightarrow> pay_event list \<Rightarrow> (int \<times> rat) list" where
  "credits c hist = gather (credit_of c) hist"

definition is_rebate :: "int \<Rightarrow> pay_event \<Rightarrow> bool" where
  "is_rebate oid e = (case e of Rebated oid' a \<Rightarrow> oid' = oid | _ \<Rightarrow> False)"

definition accepted_amount :: "pay_cfg \<Rightarrow> string \<Rightarrow> rat \<Rightarrow> rat \<Rightarrow> bool" where
  "accepted_amount cfg currency expected paid \<longleftrightarrow>
     0 < paid \<and> \<bar>pg_sub cfg paid expected\<bar> \<le> paymentAmountToleranceForCurrency cfg currency"

definition was_paid :: "pay_cfg \<Rightarrow> pay_event list \<Rightarrow> PaymentOrder \<Rightarrow> bool" where
  "was_paid cfg hist ord \<longleftrightarrow>
     (\<exists>expected paid. OrderPaid (po_ID ord) expected paid \<in> set hist \<and> accepted_amount cfg (po_Currency ord) expected paid)"

definition unpaid :: "order_status \<Rightarrow> bool" where
  "unpaid s \<longleftrightarrow> s \<in> {OrderStatusPending, OrderStatusCancelled, OrderStatusExpired}"

definition rebate_claimed :: "pay_db \<Rightarrow> int \<Rightarrow> bool" where
  "rebate_claimed db oid \<longleftrightarrow>
     (oid, ''AFFILIATE_REBATE_APPLIED'') \<in> set (pd_audit db) \<or> (oid, ''AFFILIATE_REBATE_SKIPPED'') \<in> set (pd_audit db)"

definition orders_ok :: "pay_cfg \<Rightarrow> pay_db \<Rightarrow> pay_event list \<Rightarrow> bool" where
  "orders_ok cfg db hist \<longleftrightarrow> distinct (map po_ID (pd_orders db)) \<and> distinct (map po_RechargeCode (pd_orders db))
     \<and> (\<forall>ord \<in> set (pd_orders db). TrimSpace (po_RechargeCode ord) = po_RechargeCode ord
          \<and> (\<not> unpaid (po_Status ord) \<longrightarrow> was_paid cfg hist ord)
          \<and> (after_completion (po_Status ord) \<longrightarrow> code_used db (po_RechargeCode ord)))"

definition code_row_ok :: "pay_cfg \<Rightarrow> pay_db \<Rightarrow> pay_event list \<Rightarrow> RedeemCode \<Rightarrow> bool" where
  "code_row_ok cfg db hist r \<longleftrightarrow> rc_ID r < pd_next_code db \<and> rc_Type r = ''balance'' \<and> rc_ExpiresAt r = None
     \<and> (rc_Status r = ''unused'' \<or> rc_Status r = ''used'')
     \<and> (\<exists>ord \<in> set (pd_orders db). po_RechargeCode ord = rc_Code r \<and> po_Amount ord = rc_Value r \<and> was_paid cfg hist ord
          \<and> credits (rc_Code r) hist = (if IsUsed r then [(po_UserID ord, po_Amount ord)] else []))"

definition codes_ok :: "pay_cfg \<Rightarrow> pay_db \<Rightarrow> pay_event list \<Rightarrow> bool" where
  "codes_ok cfg db hist \<longleftrightarrow> distinct (map rc_ID (pd_codes db)) \<and> distinct (map rc_Code (pd_codes db))
     \<and> (\<forall>r \<in> set (pd_codes db). code_row_ok cfg db hist r)
     \<and> (\<forall>c. c \<notin> set (map rc_Code (pd_codes db)) \<longrightarrow> credits c hist = [])"

definition rebates_ok :: "pay_db \<Rightarrow> pay_event list \<Rightarrow> bool" where
  "rebates_ok db hist \<longleftrightarrow> (\<forall>oid. count_if (is_rebate oid) hist \<le> (if rebate_claimed db oid then 1 else 0))"

definition pay_tables_ok :: "pay_cfg \<Rightarrow> pay_db \<Rightarrow> pay_event list \<Rightarrow> bool" where
  "pay_tables_ok cfg db hist \<longleftrightarrow> orders_ok cfg db hist \<and> codes_ok cfg db hist \<and> rebates_ok db hist"

text \<open>What a later database keeps of an earlier one.\<close>

definition extends :: "pay_db \<Rightarrow> pay_event list \<Rightarrow> pay_db \<Rightarrow> pay_event list \<Rightarrow> bool" where
  "extends db hist db' hist' \<longleftrightarrow> set hist \<subseteq> set hist' \<and> (\<forall>ord. known db ord \<longrightarrow> known db' ord)
     \<and> (\<forall>r \<in> set (pd_codes db). \<exists>r' \<in> set (pd_codes db'). rc_ID r' = rc_ID r \<and> rc_Code r' = rc_Code r
          \<and> rc_Value r' = rc_Value r \<and> (IsUsed r \<longrightarrow> IsUsed r'))"

lemma extends_refl: "extends db hist db hist"
  by (auto simp: extends_def)

lemma same_order_refl: "same_order a a"
  by (simp add: same_order_def)

lemma code_used_mono: "extends db hist db' hist' \<Longrightarrow> code_used db c \<Longrightarrow> code_used db' c"
  by (auto simp: extends_def code_used_def)

lemma was_paid_mono: "extends db hist db' hist' \<Longrightarrow> was_paid cfg hist ord \<Longrightarrow> was_paid cfg hist' ord"
  by (auto simp: extends_def was_paid_def)

lemma same_order_trans: "same_order a b \<Longrightarrow> same_order b c \<Longrightarrow> same_order a c"
  by (simp add: same_order_def)

lemma was_paid_same: "same_order a b \<Longrightarrow> was_paid cfg hist a \<longleftrightarrow> was_paid cfg hist b"
  by (simp add: same_order_def was_paid_def)

subsection \<open>The invariant of a worker\<close>

definition paid_order :: "pay_cfg \<Rightarrow> pay_db \<Rightarrow> pay_event list \<Rightarrow> PaymentOrder \<Rightarrow> bool" where
  "paid_order cfg db hist ord \<longleftrightarrow> known db ord \<and> was_paid cfg hist ord"

definition code_of :: "pay_db \<Rightarrow> PaymentOrder \<Rightarrow> RedeemCode \<Rightarrow> bool" where
  "code_of db ord r \<longleftrightarrow> rc_Code r = po_RechargeCode ord
     \<and> (\<exists>r' \<in> set (pd_codes db). rc_ID r' = rc_ID r \<and> rc_Code r' = rc_Code r \<and> rc_Value r' = rc_Value r)"

fun pc_ok :: "pay_cfg \<Rightarrow> pay_db \<Rightarrow> pay_event list \<Rightarrow> pay_pc \<Rightarrow> bool" where
  "pc_ok cfg db hist (PcToPaid ord tradeNo paid) \<longleftrightarrow> known db ord \<and> accepted_amount cfg (po_Currency ord) (po_PayAmount ord) paid"
| "pc_ok cfg db hist (PcLease ord) \<longleftrightarrow> paid_order cfg db hist ord"
| "pc_ok cfg db hist (PcLeaseLost ord) \<longleftrightarrow> paid_order cfg db hist ord"
| "pc_ok cfg db hist (PcLeaseClaimed ord) \<longleftrightarrow> paid_order cfg db hist ord"
| "pc_ok cfg db hist (PcLookup ord lease) \<longleftrightarrow> paid_order cfg db hist ord"
| "pc_ok cfg db hist (PcCreate ord lease) \<longleftrightarrow> paid_order cfg db hist ord"
| "pc_ok cfg db hist (PcRedeem ord lease) \<longleftrightarrow> paid_order cfg db hist ord"
| "pc_ok cfg db hist (PcRedeemUser ord lease r) \<longleftrightarrow> paid_order cfg db hist ord \<and> code_of db ord r"
| "pc_ok cfg db hist (PcRedeemTx ord lease r) \<longleftrightarrow> paid_order cfg db hist ord \<and> code_of db ord r"
| "pc_ok cfg db hist (PcRedeemed ord lease r) \<longleftrightarrow> paid_order cfg db hist ord \<and> code_used db (po_RechargeCode ord)"
| "pc_ok cfg db hist (PcRebate ord lease) \<longleftrightarrow> paid_order cfg db hist ord \<and> code_used db (po_RechargeCode ord)"
| "pc_ok cfg db hist (PcComplete ord lease) \<longleftrightarrow> paid_order cfg db hist ord \<and> code_used db (po_RechargeCode ord)"
| "pc_ok cfg db hist (PcCompleteLost ord lease) \<longleftrightarrow> paid_order cfg db hist ord \<and> code_used db (po_RechargeCode ord)"
| "pc_ok cfg db hist (PcFail ord lease e) \<longleftrightarrow> paid_order cfg db hist ord"
| "pc_ok cfg db hist pc \<longleftrightarrow> True"

lemma paid_order_mono: "extends db hist db' hist' \<Longrightarrow> paid_order cfg db hist ord \<Longrightarrow> paid_order cfg db' hist' ord"
  by (auto simp: paid_order_def was_paid_mono extends_def)

lemma code_of_mono: "extends db hist db' hist' \<Longrightarrow> code_of db ord r \<Longrightarrow> code_of db' ord r"
  by (auto simp: extends_def code_of_def) metis

lemma pc_ok_mono: "extends db hist db' hist' \<Longrightarrow> pc_ok cfg db hist pc \<Longrightarrow> pc_ok cfg db' hist' pc"
  by (cases pc) (auto simp: paid_order_mono code_of_mono code_used_mono, auto simp: extends_def)

text \<open>A result of a step that keeps everything in order.\<close>

definition good_result :: "pay_cfg \<Rightarrow> pay_db \<Rightarrow> pay_event list \<Rightarrow> pay_result \<Rightarrow> bool" where
  "good_result cfg db hist res = (case res of (pc, db', evs) \<Rightarrow>
     pay_tables_ok cfg db' (hist @ evs) \<and> extends db hist db' (hist @ evs) \<and> pc_ok cfg db' (hist @ evs) pc)"

lemma good_reading:
  "pay_tables_ok cfg db hist \<Longrightarrow> pc_ok cfg db hist failed \<Longrightarrow> (pe_fault env = NoFault \<longrightarrow> pc_ok cfg db hist next)
   \<Longrightarrow> good_result cfg db hist (reading env db failed next)"
  by (simp add: good_result_def reading_def extends_refl)

lemma good_writing:
  assumes "pay_tables_ok cfg db hist" "pay_tables_ok cfg db' (hist @ evs)" "extends db hist db' (hist @ evs)"
    and "pc_ok cfg db hist failed" "pc_ok cfg db' (hist @ evs) next"
  shows "good_result cfg db hist (writing env db failed next db' evs)"
  using assms pc_ok_mono [OF assms(3,4)] by (cases "pe_fault env") (simp_all add: good_result_def writing_def extends_refl)

subsection \<open>Statements keep the tables in order\<close>

lemma map_update_where: "(\<And>r. g (f r) = g r) \<Longrightarrow> map g (update_where P f rows) = map g rows"
  by (simp add: update_where_def)

lemma in_update_where: "x \<in> set (update_where P f rows) \<longleftrightarrow> (\<exists>r \<in> set rows. x = (if P r then f r else r))"
  by (auto simp: update_where_def)

lemma credits_append: "credits c (xs @ ys) = credits c xs @ credits c ys"
  by (simp add: credits_def)

definition quiet :: "pay_event list \<Rightarrow> bool" where
  "quiet evs \<longleftrightarrow> (\<forall>e \<in> set evs. case e of OrderPaid oid a b \<Rightarrow> True | _ \<Rightarrow> False)"

lemma quiet_credits: "quiet evs \<Longrightarrow> credits c evs = []"
  by (induction evs) (auto simp: quiet_def credits_def credit_of_def split: pay_event.splits)

lemma quiet_rebates: "quiet evs \<Longrightarrow> count_if (is_rebate oid) evs = 0"
  by (induction evs) (auto simp: quiet_def is_rebate_def split: pay_event.splits)

lemma was_paid_append: "was_paid cfg hist ord \<Longrightarrow> was_paid cfg (hist @ evs) ord"
  by (auto simp: was_paid_def)

text \<open>Changes of the orders that keep the columns that matter.\<close>

lemma code_row_orders:
  assumes r: "code_row_ok cfg db hist r" and evs: "quiet evs" and n: "pd_next_code db' = pd_next_code db"
    and sim: "\<And>ord. ord \<in> set (pd_orders db) \<Longrightarrow> \<exists>ord' \<in> set (pd_orders db'). same_order ord ord'"
  shows "code_row_ok cfg db' (hist @ evs) r"
proof -
  obtain ord where ord: "ord \<in> set (pd_orders db)" "po_RechargeCode ord = rc_Code r" "po_Amount ord = rc_Value r"
      "was_paid cfg hist ord" "credits (rc_Code r) hist = (if IsUsed r then [(po_UserID ord, po_Amount ord)] else [])"
    using r unfolding code_row_ok_def by blast
  obtain ord' where ord': "ord' \<in> set (pd_orders db')" "same_order ord ord'" using sim [OF ord(1)] by blast
  then have eq: "po_RechargeCode ord' = po_RechargeCode ord" "po_Amount ord' = po_Amount ord" "po_UserID ord' = po_UserID ord"
    by (simp_all add: same_order_def)
  have "was_paid cfg (hist @ evs) ord'" using ord(4) was_paid_append was_paid_same [OF ord'(2)] by blast
  then have "\<exists>x \<in> set (pd_orders db'). po_RechargeCode x = rc_Code r \<and> po_Amount x = rc_Value r \<and> was_paid cfg (hist @ evs) x
      \<and> credits (rc_Code r) (hist @ evs) = (if IsUsed r then [(po_UserID x, po_Amount x)] else [])"
    using ord' ord by (intro bexI [of _ ord']) (simp_all add: eq credits_append quiet_credits [OF evs])
  then show ?thesis using r unfolding code_row_ok_def n by blast
qed

lemma codes_ok_orders:
  assumes "codes_ok cfg db hist" "pd_codes db' = pd_codes db" "pd_next_code db' = pd_next_code db"
    and "\<And>ord. ord \<in> set (pd_orders db) \<Longrightarrow> \<exists>ord' \<in> set (pd_orders db'). same_order ord ord'" and "quiet evs"
  shows "codes_ok cfg db' (hist @ evs)"
  using assms(1,2) code_row_orders [OF _ assms(5,3,4)]
  by (simp add: codes_ok_def credits_append quiet_credits [OF assms(5)])

lemma extends_orders:
  assumes "\<And>ord. ord \<in> set (pd_orders db) \<Longrightarrow> \<exists>ord' \<in> set (pd_orders db'). same_order ord ord'" "pd_codes db' = pd_codes db"
  shows "extends db hist db' (hist @ evs)"
proof -
  have "known db' ord" if k: "known db ord" for ord
  proof -
    obtain r where r: "r \<in> set (pd_orders db)" "same_order ord r" using k by (auto simp: known_def)
    obtain r' where "r' \<in> set (pd_orders db')" "same_order r r'" using assms(1) [OF r(1)] by blast
    moreover have "same_order ord r'" using r(2) calculation(2) by (simp add: same_order_def)
    ultimately show ?thesis unfolding known_def by blast
  qed
  then show ?thesis using assms(2) by (auto simp: extends_def)
qed

lemma order_Update_keeps:
  assumes ok: "pay_tables_ok cfg db hist" and f: "\<And>r. same_order r (f r)" and evs: "quiet evs"
    and paid: "\<And>r. r \<in> set (pd_orders db) \<Longrightarrow> P r \<Longrightarrow> \<not> unpaid (po_Status (f r)) \<Longrightarrow> was_paid cfg (hist @ evs) r"
    and used: "\<And>r. r \<in> set (pd_orders db) \<Longrightarrow> P r \<Longrightarrow> after_completion (po_Status (f r)) \<Longrightarrow> code_used db (po_RechargeCode r)"
  shows "pay_tables_ok cfg (fst (order_Update P f db)) (hist @ evs)
     \<and> extends db hist (fst (order_Update P f db)) (hist @ evs)"
proof -
  let ?db = "fst (order_Update P f db)"
  have cols: "po_ID (f r) = po_ID r" "po_RechargeCode (f r) = po_RechargeCode r" "po_UserID (f r) = po_UserID r"
      "po_Amount (f r) = po_Amount r" "po_Currency (f r) = po_Currency r" for r
    using f [of r] by (simp_all add: same_order_def)
  have db: "pd_orders ?db = update_where P f (pd_orders db)" "pd_codes ?db = pd_codes db" "pd_audit ?db = pd_audit db"
      "pd_next_code ?db = pd_next_code db"
    by (simp_all add: order_Update_def)
  have wp: "was_paid cfg h (f r) = was_paid cfg h r" for h r by (simp add: was_paid_def cols)
  have "orders_ok cfg ?db (hist @ evs)"
    unfolding orders_ok_def
  proof (intro conjI ballI)
    show "distinct (map po_ID (pd_orders ?db))" "distinct (map po_RechargeCode (pd_orders ?db))"
      using ok by (simp_all add: db map_update_where cols pay_tables_ok_def orders_ok_def)
    fix x
    assume "x \<in> set (pd_orders ?db)"
    then obtain r where r: "r \<in> set (pd_orders db)" "x = (if P r then f r else r)" by (auto simp: db in_update_where)
    show "TrimSpace (po_RechargeCode x) = po_RechargeCode x"
      using r ok by (auto simp: cols pay_tables_ok_def orders_ok_def)
    show "\<not> unpaid (po_Status x) \<longrightarrow> was_paid cfg (hist @ evs) x"
      using r ok paid by (auto simp: wp was_paid_append pay_tables_ok_def orders_ok_def)
    show "after_completion (po_Status x) \<longrightarrow> code_used ?db (po_RechargeCode x)"
      using r ok used by (auto simp: cols code_used_def db pay_tables_ok_def orders_ok_def)
  qed
  moreover have sim: "\<exists>ord' \<in> set (pd_orders ?db). same_order ord ord'" if "ord \<in> set (pd_orders db)" for ord
  proof -
    have "(if P ord then f ord else ord) \<in> set (pd_orders ?db)" using that unfolding db in_update_where by blast
    moreover have "same_order ord (if P ord then f ord else ord)" using f [of ord] same_order_refl by simp
    ultimately show ?thesis by blast
  qed
  moreover have "codes_ok cfg ?db (hist @ evs)"
    using ok sim by (intro codes_ok_orders [OF _ _ _ _ evs]) (simp_all add: db pay_tables_ok_def)
  moreover have "rebates_ok ?db (hist @ evs)"
    using ok by (simp add: pay_tables_ok_def rebates_ok_def rebate_claimed_def db quiet_rebates [OF evs])
  moreover have "extends db hist ?db (hist @ evs)" by (rule extends_orders) (use sim in \<open>simp_all add: db\<close>)
  ultimately show ?thesis by (simp add: pay_tables_ok_def)
qed

lemma known_in: "orders_ok cfg db hist \<Longrightarrow> order_Get oid db = Some ord \<Longrightarrow> ord \<in> set (pd_orders db) \<and> po_ID ord = oid \<and> known db ord"
  unfolding order_Get_def known_def using find_SomeD same_order_refl by fastforce

text \<open>A new code, for a paid order.\<close>

lemma code_Create_keeps:
  assumes ok: "pay_tables_ok cfg db hist" and ord: "paid_order cfg db hist ord"
    and new: "code_Create (new_code ord) db = Some db'"
  shows "pay_tables_ok cfg db' hist \<and> extends db hist db' hist"
proof -
  obtain o' where o': "o' \<in> set (pd_orders db)" "same_order ord o'" using ord by (auto simp: paid_order_def known_def)
  have trim: "TrimSpace (po_RechargeCode ord) = po_RechargeCode ord"
    using ok o' by (auto simp: pay_tables_ok_def orders_ok_def same_order_def)
  define r where "r = (new_code ord)\<lparr>rc_ID := pd_next_code db\<rparr>"
  have r: "rc_Code r = po_RechargeCode ord" "rc_Value r = po_Amount ord" "\<not> IsUsed r" "rc_ID r = pd_next_code db"
      "rc_Type r = ''balance''" "rc_ExpiresAt r = None" "rc_Status r = ''unused''"
    by (simp_all add: r_def new_code_def trim IsUsed_def)
  have fresh: "po_RechargeCode ord \<notin> set (map rc_Code (pd_codes db))"
    and db': "db' = db\<lparr>pd_codes := pd_codes db @ [r], pd_next_code := pd_next_code db + 1\<rparr>"
    using new by (auto simp: code_Create_def new_code_def trim r_def split: if_splits)
  have rows: "code_row_ok cfg db' hist x" if "code_row_ok cfg db hist x" for x
    using that by (auto simp: code_row_ok_def db')
  have "credits (rc_Code r) hist = []" using ok fresh by (simp add: pay_tables_ok_def codes_ok_def r)
  moreover have "was_paid cfg hist o'" using ord o'(2) by (simp add: paid_order_def was_paid_same)
  ultimately have "code_row_ok cfg db' hist r"
    using o' r unfolding code_row_ok_def by (auto simp: db' same_order_def)
  moreover have "pd_next_code db \<notin> set (map rc_ID (pd_codes db))"
    using ok by (auto simp: pay_tables_ok_def codes_ok_def code_row_ok_def)
  ultimately have "codes_ok cfg db' hist"
    using ok rows fresh by (auto simp: pay_tables_ok_def codes_ok_def db' r)
  moreover have "orders_ok cfg db' hist"
    using ok by (auto simp: pay_tables_ok_def orders_ok_def db' code_used_def)
  moreover have "rebates_ok db' hist" using ok by (simp add: pay_tables_ok_def rebates_ok_def rebate_claimed_def db')
  moreover have "extends db hist db' hist" by (auto simp: extends_def db' known_def)
  ultimately show ?thesis by (simp add: pay_tables_ok_def)
qed

text \<open>The transaction of a redemption.\<close>

lemma redeem_tx_db:
  assumes "redeem_tx uid r now db = Some db'"
  shows "\<exists>users. db' = db\<lparr>pd_codes := update_where (\<lambda>x. rc_ID x = rc_ID r \<and> rc_Status x = ''unused'')
       (\<lambda>x. x\<lparr>rc_Status := ''used'', rc_UsedBy := Some uid, rc_UsedAt := Some now\<rparr>) (pd_codes db), pd_users := users\<rparr>
     \<and> (\<exists>x \<in> set (pd_codes db). rc_ID x = rc_ID r \<and> rc_Status x = ''unused'')"
  using assms
  by (auto simp: redeem_tx_def code_Use_def Let_def ApplyRedeemBalanceAdjustment_def UpdateBalance_def filter_empty_conv
      split: if_splits option.splits)

lemma redeem_row_ok:
  assumes ok: "pay_tables_ok cfg db hist" and x: "x \<in> set (pd_codes db)"
    and ord: "known db ord" "po_RechargeCode ord = rc_Code x0" and x0: "x0 \<in> set (pd_codes db)" "rc_Status x0 = ''unused''"
    and y: "y = (if rc_ID x = rc_ID x0 \<and> rc_Status x = ''unused''
          then x\<lparr>rc_Status := ''used'', rc_UsedBy := Some (po_UserID ord), rc_UsedAt := Some now\<rparr> else x)"
    and db': "pd_orders db' = pd_orders db" "pd_next_code db' = pd_next_code db"
  shows "code_row_ok cfg db' (hist @ [Credited (rc_Code x0) (po_UserID ord) (rc_Value x0)]) y"
proof -
  obtain o1 where o1: "o1 \<in> set (pd_orders db)" "same_order ord o1" using ord by (auto simp: known_def)
  obtain o2 where o2: "o2 \<in> set (pd_orders db)" "po_RechargeCode o2 = rc_Code x" "po_Amount o2 = rc_Value x"
      "was_paid cfg hist o2" "credits (rc_Code x) hist = (if IsUsed x then [(po_UserID o2, po_Amount o2)] else [])"
    using ok x unfolding pay_tables_ok_def codes_ok_def code_row_ok_def by blast
  have rest: "rc_ID y < pd_next_code db'" "rc_Type y = ''balance''" "rc_ExpiresAt y = None"
      "rc_Status y = ''unused'' \<or> rc_Status y = ''used''"
    using ok x by (auto simp: y db' pay_tables_ok_def codes_ok_def code_row_ok_def)
  have same: "rc_ID x = rc_ID x0 \<longleftrightarrow> x = x0" "rc_Code x = rc_Code x0 \<longleftrightarrow> x = x0"
    using ok x x0(1) by (auto simp: pay_tables_ok_def codes_ok_def distinct_map inj_on_def)
  have cols: "rc_Code y = rc_Code x" "rc_Value y = rc_Value x" by (simp_all add: y)
  have "credits (rc_Code y) (hist @ [Credited (rc_Code x0) (po_UserID ord) (rc_Value x0)])
      = (if IsUsed y then [(po_UserID o2, po_Amount o2)] else [])"
  proof (cases "x = x0")
    case True
    have "o1 = o2"
      using ok o1 o2(1,2) True ord(2) by (auto simp: pay_tables_ok_def orders_ok_def distinct_map inj_on_def same_order_def)
    then show ?thesis
      using True x0(2) o1(2) o2 by (simp add: y IsUsed_def credits_append credits_def credit_of_def same_order_def)
  next
    case False
    then show ?thesis using same o2(5) by (simp add: y IsUsed_def credits_append, simp add: credits_def credit_of_def)
  qed
  then show ?thesis using rest o2 was_paid_append unfolding code_row_ok_def db' cols by blast
qed

lemma redeem_tx_keeps:
  assumes ok: "pay_tables_ok cfg db hist" and ord: "paid_order cfg db hist ord" and r: "code_of db ord r"
    and tx: "redeem_tx (po_UserID ord) r now db = Some db'"
  defines "evs \<equiv> [Credited (rc_Code r) (po_UserID ord) (rc_Value r)]"
  shows "pay_tables_ok cfg db' (hist @ evs) \<and> extends db hist db' (hist @ evs) \<and> code_used db' (po_RechargeCode ord)"
proof -
  let ?P = "\<lambda>x. rc_ID x = rc_ID r \<and> rc_Status x = ''unused''"
  let ?f = "\<lambda>x. x\<lparr>rc_Status := ''used'', rc_UsedBy := Some (po_UserID ord), rc_UsedAt := Some now\<rparr>"
  obtain users x0 where db': "db' = db\<lparr>pd_codes := update_where ?P ?f (pd_codes db), pd_users := users\<rparr>"
      and x0: "x0 \<in> set (pd_codes db)" "rc_ID x0 = rc_ID r" "rc_Status x0 = ''unused''"
    using redeem_tx_db [OF tx] by blast
  obtain r' where r': "r' \<in> set (pd_codes db)" "rc_ID r' = rc_ID r" "rc_Code r' = rc_Code r" "rc_Value r' = rc_Value r"
    using r by (auto simp: code_of_def)
  have "x0 = r'" using ok x0 r' by (auto simp: pay_tables_ok_def codes_ok_def distinct_map inj_on_def)
  then have c: "rc_Code x0 = rc_Code r" "rc_Value x0 = rc_Value r" "po_RechargeCode ord = rc_Code r"
    using r' r by (auto simp: code_of_def)
  have f: "rc_ID (?f x) = rc_ID x" "rc_Code (?f x) = rc_Code x" "rc_Value (?f x) = rc_Value x" "IsUsed (?f x)" for x
    by (simp_all add: IsUsed_def)
  have cred: "credits k evs = []" if "k \<noteq> rc_Code r" for k using that by (simp add: evs_def credits_def credit_of_def)
  have "code_row_ok cfg db' (hist @ evs) y" if "y \<in> set (pd_codes db')" for y
  proof -
    have "y \<in> set (update_where ?P ?f (pd_codes db))" using that by (simp add: db')
    then obtain x where x: "x \<in> set (pd_codes db)" "y = (if ?P x then ?f x else x)" unfolding in_update_where by blast
    show ?thesis
      using redeem_row_ok [OF ok x(1) _ _ x0(1,3), of ord y now db'] x(2) x0 c ord
      by (simp add: evs_def db' paid_order_def)
  qed
  moreover have "k \<notin> set (map rc_Code (pd_codes db')) \<longrightarrow> credits k (hist @ evs) = []" for k
  proof -
    have "rc_Code r \<in> rc_Code ` set (pd_codes db)" using imageI [OF x0(1), of rc_Code] c(1) by simp
    then show ?thesis
      using ok cred [of k] by (cases "k = rc_Code r") (auto simp: db' map_update_where f pay_tables_ok_def codes_ok_def credits_append)
  qed
  ultimately have "codes_ok cfg db' (hist @ evs)"
    using ok by (simp add: codes_ok_def db' map_update_where f pay_tables_ok_def)
  moreover have ext: "extends db hist db' (hist @ evs)"
  proof -
    have "\<exists>y \<in> set (pd_codes db'). rc_ID y = rc_ID x \<and> rc_Code y = rc_Code x \<and> rc_Value y = rc_Value x \<and> (IsUsed x \<longrightarrow> IsUsed y)"
      if "x \<in> set (pd_codes db)" for x
      using that f by (intro bexI [of _ "if ?P x then ?f x else x"]) (simp, simp add: db' update_where_def)
    then show ?thesis by (simp add: extends_def known_def db')
  qed
  moreover have "code_used db' (po_RechargeCode ord)"
    using x0 c f unfolding code_used_def by (intro bexI [of _ "?f x0"]) (simp, force simp: db' in_update_where)
  moreover have "orders_ok cfg db' (hist @ evs)"
    using ok code_used_mono [OF ext] was_paid_mono [OF ext] by (simp add: pay_tables_ok_def orders_ok_def db')
  moreover have "rebates_ok db' (hist @ evs)"
    using ok by (simp add: pay_tables_ok_def rebates_ok_def rebate_claimed_def db' evs_def is_rebate_def)
  ultimately show ?thesis by (simp add: pay_tables_ok_def)
qed

text \<open>The transaction of a rebate.\<close>

lemma rebate_counted:
  assumes ok: "rebates_ok db hist" and tx: "rebate_tx cfg ord db = (db', evs)"
  shows "rebates_ok db' (hist @ evs)"
proof (cases "rebate_claimed db (po_ID ord)")
  case True
  then show ?thesis using tx ok by (auto simp: rebate_tx_def tryClaimAffiliateRebateAudit_def rebate_claimed_def)
next
  case False
  have claimed: "rebate_claimed db' (po_ID ord)" "\<And>k. k \<noteq> po_ID ord \<Longrightarrow> rebate_claimed db' k = rebate_claimed db k"
    using False tx by (auto simp: rebate_tx_def tryClaimAffiliateRebateAudit_def updateClaimedAffiliateRebateAudit_def Let_def
        rebate_claimed_def update_where_def split: if_splits)
  have evs: "evs = [] \<or> (\<exists>a. evs = [Rebated (po_ID ord) a])"
    using tx by (auto simp: rebate_tx_def Let_def split: if_splits option.splits)
  have "count_if (is_rebate k) (hist @ evs) \<le> (if rebate_claimed db' k then 1 else 0)" for k
  proof (cases "k = po_ID ord")
    case True
    then have "count_if (is_rebate k) hist = 0" using ok False by (auto simp: rebates_ok_def dest: spec [of _ k])
    then show ?thesis using True claimed(1) evs by (auto simp: is_rebate_def)
  next
    case other: False
    then have "count_if (is_rebate k) evs = 0" using evs by (auto simp: is_rebate_def)
    then show ?thesis using ok claimed(2) [OF other] by (simp add: rebates_ok_def)
  qed
  then show ?thesis by (simp add: rebates_ok_def)
qed

lemma rebate_tx_keeps:
  assumes ok: "pay_tables_ok cfg db hist" and tx: "rebate_tx cfg ord db = (db', evs)"
  shows "pay_tables_ok cfg db' (hist @ evs) \<and> extends db hist db' (hist @ evs)"
proof -
  have cols: "pd_orders db' = pd_orders db" "pd_codes db' = pd_codes db" "pd_next_code db' = pd_next_code db"
    using tx by (auto simp: rebate_tx_def tryClaimAffiliateRebateAudit_def updateClaimedAffiliateRebateAudit_def Let_def
        split: if_splits)
  have cred: "credits c evs = []" for c
    using tx by (auto simp: rebate_tx_def Let_def credits_def credit_of_def split: if_splits option.splits)
  have ext: "extends db hist db' (hist @ evs)" by (auto simp: extends_def known_def cols)
  have wp: "was_paid cfg (hist @ evs) x \<longleftrightarrow> was_paid cfg hist x" for x
    using tx by (auto simp: was_paid_def rebate_tx_def Let_def split: if_splits option.splits)
  have "orders_ok cfg db' (hist @ evs)"
    using ok by (simp add: pay_tables_ok_def orders_ok_def cols wp code_used_def)
  moreover have "codes_ok cfg db' (hist @ evs)"
    using ok by (simp add: pay_tables_ok_def codes_ok_def code_row_ok_def cols wp credits_append cred)
  moreover have "rebates_ok db' (hist @ evs)" using rebate_counted [OF _ tx] ok by (simp add: pay_tables_ok_def)
  ultimately show ?thesis using ext by (simp add: pay_tables_ok_def)
qed

subsection \<open>Every step of a worker\<close>

lemma read_order:
  assumes ok: "pay_tables_ok cfg db hist" and get: "order_Get oid db = Some ord"
  shows "known db ord" "\<not> unpaid (po_Status ord) \<Longrightarrow> paid_order cfg db hist ord"
  using known_in [of cfg db hist oid ord] ok get by (auto simp: pay_tables_ok_def paid_order_def orders_ok_def)

lemma good_confirmPayment:
  assumes ok: "pay_tables_ok cfg db hist"
  shows "good_result cfg db hist (confirmPayment cfg env oid tradeNo paid pk db)"
proof -
  have "pc_ok cfg db hist (PcToPaid ord tradeNo (case paid of Finite a \<Rightarrow> a | _ \<Rightarrow> 0))"
    if "order_Get oid db = Some ord" "check_payment cfg env ord paid pk = None" for ord
    using that read_order(1) [OF ok that(1)]
    by (auto simp: check_payment_def accepted_amount_def isValidProviderAmount_def Let_def split: pay_float.splits if_splits)
  then show ?thesis
    unfolding confirmPayment_def by (intro good_reading [OF ok]) (auto split: option.splits)
qed

lemma good_toPaid:
  assumes ok: "pay_tables_ok cfg db hist" and pc: "pc_ok cfg db hist (PcToPaid ord tradeNo paid)"
  shows "good_result cfg db hist (toPaid cfg env ord tradeNo paid db)"
proof -
  let ?evs = "[OrderPaid (po_ID ord) (po_PayAmount ord) paid]"
  let ?P = "payable (pe_now env) (po_ID ord)"
  obtain o' where o': "o' \<in> set (pd_orders db)" "same_order ord o'" using pc by (auto simp: known_def)
  have same: "r = o'" if "r \<in> set (pd_orders db)" "?P r" for r
    using that o' ok by (auto simp: payable_def same_order_def pay_tables_ok_def orders_ok_def distinct_map inj_on_def)
  have "was_paid cfg (hist @ ?evs) o'" using pc o'(2) by (auto simp: was_paid_def same_order_def)
  then have "pay_tables_ok cfg (fst (update_to_paid cfg (pe_now env) (po_ID ord) tradeNo paid db)) (hist @ ?evs)
      \<and> extends db hist (fst (update_to_paid cfg (pe_now env) (po_ID ord) tradeNo paid db)) (hist @ ?evs)"
    unfolding update_to_paid_def using same
    by (intro order_Update_keeps [OF ok]) (auto simp: same_order_def quiet_def after_completion_def psIsRefundStatus_def)
  then show ?thesis
    unfolding toPaid_def split_beta Let_def by (auto intro!: good_reading [OF ok] good_writing [OF ok])
qed

lemma good_alreadyProcessed: "pay_tables_ok cfg db hist \<Longrightarrow> good_result cfg db hist (alreadyProcessed env oid db)"
  unfolding alreadyProcessed_def by (intro good_reading) (auto split: option.splits)

lemma good_executeFulfillment: "pay_tables_ok cfg db hist \<Longrightarrow> good_result cfg db hist (executeFulfillment env oid db)"
  unfolding executeFulfillment_def by (intro good_reading) (auto split: option.splits)

lemma good_RetryFulfillment: "pay_tables_ok cfg db hist \<Longrightarrow> good_result cfg db hist (RetryFulfillment env oid db)"
  unfolding RetryFulfillment_def by (intro good_reading) (auto split: option.splits)

lemma good_HandlePaymentNotification:
  "pay_tables_ok cfg db hist \<Longrightarrow> good_result cfg db hist (HandlePaymentNotification env n pk db)"
proof (cases "nt_Success n")
  case True
  assume "pay_tables_ok cfg db hist"
  then show ?thesis
    unfolding HandlePaymentNotification_def using True by (auto intro!: good_reading split: list.splits option.splits)
next
  case False
  assume "pay_tables_ok cfg db hist"
  then show ?thesis using False by (simp add: HandlePaymentNotification_def good_result_def extends_refl)
qed

lemma good_ExecuteBalanceFulfillment:
  assumes ok: "pay_tables_ok cfg db hist"
  shows "good_result cfg db hist (ExecuteBalanceFulfillment env oid db)"
  unfolding ExecuteBalanceFulfillment_def
  using read_order(2) [OF ok, of oid] by (intro good_reading [OF ok]) (auto simp: unpaid_def split: option.splits)

lemma good_lease:
  assumes ok: "pay_tables_ok cfg db hist" and pc: "paid_order cfg db hist ord"
  shows "good_result cfg db hist (acquire_lease cfg env ord db)"
    and "good_result cfg db hist (lease_lost env ord db)"
    and "good_result cfg db hist (lease_claimed env ord db)"
proof -
  let ?db = "fst (update_lease cfg (pe_now env) (po_ID ord) db)"
  have "pay_tables_ok cfg ?db (hist @ []) \<and> extends db hist ?db (hist @ [])"
    unfolding update_lease_def using ok
    by (intro order_Update_keeps [OF ok])
      (auto simp: same_order_def quiet_def leasable_def unpaid_def after_completion_def psIsRefundStatus_def pay_tables_ok_def orders_ok_def)
  moreover from this pc have "paid_order cfg ?db hist ord" using paid_order_mono by auto
  ultimately show "good_result cfg db hist (acquire_lease cfg env ord db)"
    unfolding acquire_lease_def split_beta Let_def using pc by (auto intro!: good_reading [OF ok] good_writing [OF ok])
  show "good_result cfg db hist (lease_lost env ord db)"
    unfolding lease_lost_def by (intro good_reading [OF ok]) (auto split: option.splits)
  show "good_result cfg db hist (lease_claimed env ord db)"
    unfolding lease_claimed_def using pc by (intro good_reading [OF ok]) (auto split: option.splits)
qed

lemma GetByCode_in: "GetByCode c db = Some r \<Longrightarrow> r \<in> set (pd_codes db) \<and> rc_Code r = c"
  unfolding GetByCode_def by (drule find_SomeD) simp

lemma good_redeem:
  assumes ok: "pay_tables_ok cfg db hist" and pc: "paid_order cfg db hist ord"
  shows "good_result cfg db hist (doBalance_lookup env ord lease db)"
    and "good_result cfg db hist (CreateCode env ord lease db)"
    and "good_result cfg db hist (Redeem_check env ord lease db)"
proof -
  show "good_result cfg db hist (doBalance_lookup env ord lease db)"
    using ok pc GetByCode_in [of "po_RechargeCode ord" db]
    by (auto simp: doBalance_lookup_def resolveRedeemAction_def good_result_def extends_refl code_used_def split: option.splits)
  show "good_result cfg db hist (CreateCode env ord lease db)"
  proof (cases "code_Create (new_code ord) db")
    case None
    then show ?thesis using ok pc by (simp add: CreateCode_def good_result_def extends_refl)
  next
    case (Some db')
    note keeps = code_Create_keeps [OF ok pc Some]
    then have "good_result cfg db hist (writing env db (PcFail ord lease PayCode) (PcRedeem ord lease) db' [])"
      using pc paid_order_mono by (intro good_writing [OF ok]) auto
    then show ?thesis using ok pc Some by (simp add: CreateCode_def good_result_def extends_refl)
  qed
  have "pc_ok cfg db hist (PcRedeemUser ord lease r)" if "GetByCode (po_RechargeCode ord) db = Some r" for r
    using GetByCode_in [OF that] pc by (auto simp: code_of_def)
  then have "good_result cfg db hist (reading env db (PcFail ord lease PayStore)
        (case GetByCode (po_RechargeCode ord) db of
           None \<Rightarrow> PcFail ord lease (PayRedeem ErrRedeemCodeNotFound)
         | Some r \<Rightarrow>
             if IsExpiredAt r (pe_now env) then PcFail ord lease (PayRedeem ErrRedeemCodeExpired)
             else if \<not> CanUse r (pe_now env) then PcFail ord lease (PayRedeem ErrRedeemCodeUsed)
             else if rc_Type r \<noteq> ''balance'' then PcOutside
             else PcRedeemUser ord lease r))"
    using pc by (intro good_reading [OF ok]) (auto split: option.splits)
  then show "good_result cfg db hist (Redeem_check env ord lease db)"
    using ok pc by (simp add: Redeem_check_def) (simp add: good_result_def extends_refl)
qed

lemma good_redeem_code:
  assumes ok: "pay_tables_ok cfg db hist" and pc: "paid_order cfg db hist ord" and r: "code_of db ord r"
  shows "good_result cfg db hist (Redeem_user env ord lease r db)"
    and "good_result cfg db hist (Redeem_apply cfg env ord lease r db)"
proof -
  show "good_result cfg db hist (Redeem_user env ord lease r db)"
    unfolding Redeem_user_def using pc r by (auto intro!: good_reading [OF ok] split: option.splits)
  show "good_result cfg db hist (Redeem_apply cfg env ord lease r db)"
  proof (cases "redeem_tx (po_UserID ord) r (pg_store cfg (pe_now env)) db")
    case None
    then show ?thesis using ok pc by (simp add: Redeem_apply_def good_result_def extends_refl)
  next
    case (Some db')
    then show ?thesis
      using redeem_tx_keeps [OF ok pc r Some] paid_order_mono pc
      by (auto simp: Redeem_apply_def intro!: good_writing [OF ok])
  qed
qed

lemma good_finish:
  assumes ok: "pay_tables_ok cfg db hist" and pc: "paid_order cfg db hist ord" and used: "code_used db (po_RechargeCode ord)"
  shows "good_result cfg db hist (Redeem_reload env ord lease r db)"
    and "good_result cfg db hist (applyAffiliateRebateForOrder cfg env ord lease db)"
    and "good_result cfg db hist (markCompleted cfg env ord lease db)"
    and "good_result cfg db hist (complete_lost env ord lease db)"
proof -
  show "good_result cfg db hist (Redeem_reload env ord lease r db)"
    unfolding Redeem_reload_def using pc used by (intro good_reading [OF ok]) (auto split: option.splits)
  obtain db' evs where tx: "rebate_tx cfg ord db = (db', evs)" by force
  note keeps = rebate_tx_keeps [OF ok tx]
  then have "good_result cfg db hist (writing env db (PcFail ord lease PayStore) (PcComplete ord lease) db' evs)"
    using pc used paid_order_mono code_used_mono by (intro good_writing [OF ok]) auto
  then show "good_result cfg db hist (applyAffiliateRebateForOrder cfg env ord lease db)"
    using ok pc used tx by (simp add: applyAffiliateRebateForOrder_def) (simp add: good_result_def extends_refl)
  let ?db = "fst (update_completed cfg (pe_now env) (po_ID ord) lease db)"
  obtain o' where o': "o' \<in> set (pd_orders db)" "same_order ord o'" using pc by (auto simp: paid_order_def known_def)
  have same: "r = o'" if "r \<in> set (pd_orders db)" "held (po_ID ord) lease r" for r
    using that o' ok by (auto simp: held_def same_order_def pay_tables_ok_def orders_ok_def distinct_map inj_on_def)
  have "was_paid cfg hist o'" "code_used db (po_RechargeCode o')"
    using pc used o'(2) by (auto simp: paid_order_def was_paid_same) (simp add: same_order_def)
  then have "pay_tables_ok cfg ?db (hist @ []) \<and> extends db hist ?db (hist @ [])"
    unfolding update_completed_def using same by (intro order_Update_keeps [OF ok]) (auto simp: same_order_def quiet_def)
  then show "good_result cfg db hist (markCompleted cfg env ord lease db)"
    unfolding markCompleted_def split_beta Let_def using pc used by (auto intro!: good_reading [OF ok] good_writing [OF ok])
  show "good_result cfg db hist (complete_lost env ord lease db)"
    unfolding complete_lost_def using pc by (intro good_reading [OF ok]) (auto split: option.splits)
qed

lemma good_markFailed:
  assumes ok: "pay_tables_ok cfg db hist" and pc: "paid_order cfg db hist ord"
  shows "good_result cfg db hist (markFailed cfg env ord lease e db)"
proof -
  let ?db = "fst (update_failed cfg (pe_now env) (po_ID ord) lease db)"
  have "pay_tables_ok cfg ?db (hist @ []) \<and> extends db hist ?db (hist @ [])"
    unfolding update_failed_def using ok
    by (intro order_Update_keeps [OF ok])
      (auto simp: same_order_def quiet_def held_def unpaid_def after_completion_def psIsRefundStatus_def pay_tables_ok_def orders_ok_def)
  then show ?thesis unfolding markFailed_def by (auto intro!: good_writing [OF ok])
qed

lemma worker_step_good:
  assumes ok: "pay_tables_ok cfg db hist" and pc: "pc_ok cfg db hist pc"
  shows "good_result cfg db hist (worker_step cfg env pc db)"
  using pc good_HandlePaymentNotification [OF ok] good_RetryFulfillment [OF ok] good_confirmPayment [OF ok] good_toPaid [OF ok]
    good_alreadyProcessed [OF ok] good_executeFulfillment [OF ok] good_ExecuteBalanceFulfillment [OF ok] good_lease [OF ok]
    good_redeem [OF ok] good_redeem_code [OF ok] good_finish [OF ok] good_markFailed [OF ok]
  by (cases pc) (auto simp: good_result_def [of cfg db hist "(PcDone _, _, _)"] good_result_def [of cfg db hist "(PcOutside, _, _)"]
      ok extends_refl)

subsection \<open>Every step of the system\<close>

definition world_ok :: "pay_cfg \<Rightarrow> pay_world \<Rightarrow> bool" where
  "world_ok cfg s \<longleftrightarrow> pay_tables_ok cfg (pw_db s) (pw_log s) \<and> (\<forall>w. pc_ok cfg (pw_db s) (pw_log s) (pw_workers s w))"

lemma world_ok_db:
  assumes s: "world_ok cfg s" and db: "pay_tables_ok cfg db (pw_log s)" "extends (pw_db s) (pw_log s) db (pw_log s)"
  shows "world_ok cfg (s\<lparr>pw_db := db\<rparr>)"
  using s db pc_ok_mono [OF db(2)] by (simp add: world_ok_def)

lemma world_ok_Work:
  assumes s: "world_ok cfg s"
  shows "world_ok cfg (pay_step cfg (Work w env) s)"
proof -
  obtain pc db evs where res: "worker_step cfg env (pw_workers s w) (pw_db s) = (pc, db, evs)" using prod_cases3 by blast
  have "good_result cfg (pw_db s) (pw_log s) (pc, db, evs)"
    using worker_step_good [of cfg "pw_db s" "pw_log s" "pw_workers s w" env] s by (simp add: world_ok_def res)
  then have good: "pay_tables_ok cfg db (pw_log s @ evs)" "extends (pw_db s) (pw_log s) db (pw_log s @ evs)"
      "pc_ok cfg db (pw_log s @ evs) pc"
    by (simp_all add: good_result_def)
  then show ?thesis using s pc_ok_mono [OF good(2)] by (simp add: world_ok_def res)
qed

lemma world_ok_CreateOrder:
  assumes s: "world_ok cfg s" and new: "fresh_order ord (pw_db s)"
  shows "world_ok cfg (s\<lparr>pw_db := (pw_db s)\<lparr>pd_orders := pd_orders (pw_db s) @ [ord]\<rparr>\<rparr>)"
proof -
  let ?db = "(pw_db s)\<lparr>pd_orders := pd_orders (pw_db s) @ [ord]\<rparr>"
  have ok: "pay_tables_ok cfg (pw_db s) (pw_log s)" using s by (simp add: world_ok_def)
  have sim: "\<exists>b \<in> set (pd_orders ?db). same_order a b" if "a \<in> set (pd_orders (pw_db s))" for a
    using that same_order_refl by auto
  have q: "quiet []" by (simp add: quiet_def)
  have "codes_ok cfg ?db (pw_log s @ [])"
    using ok sim by (intro codes_ok_orders [OF _ _ _ _ q]) (simp_all add: pay_tables_ok_def)
  moreover have "orders_ok cfg ?db (pw_log s)"
    using ok new by (auto simp: pay_tables_ok_def orders_ok_def fresh_order_def code_used_def unpaid_def after_completion_def psIsRefundStatus_def)
  moreover have "rebates_ok ?db (pw_log s)" using ok by (simp add: pay_tables_ok_def rebates_ok_def rebate_claimed_def)
  moreover have "extends (pw_db s) (pw_log s) ?db (pw_log s @ [])" by (rule extends_orders) (use sim in simp_all)
  ultimately show ?thesis by (intro world_ok_db [OF s]) (simp_all add: pay_tables_ok_def)
qed

lemma world_ok_update:
  assumes s: "world_ok cfg s" and f: "\<And>r. same_order r (f r)"
    and st: "\<And>r. P r \<Longrightarrow> unpaid (po_Status (f r)) \<or> po_Status (f r) = po_Status r
       \<or> after_completion (po_Status r) \<and> after_completion (po_Status (f r))"
  shows "world_ok cfg (s\<lparr>pw_db := fst (order_Update P f (pw_db s))\<rparr>)"
proof -
  have ok: "pay_tables_ok cfg (pw_db s) (pw_log s)" using s by (simp add: world_ok_def)
  have dis: "\<not> (unpaid x \<and> after_completion x)" for x
    by (auto simp: unpaid_def after_completion_def psIsRefundStatus_def)
  have "pay_tables_ok cfg (fst (order_Update P f (pw_db s))) (pw_log s @ [])
      \<and> extends (pw_db s) (pw_log s) (fst (order_Update P f (pw_db s))) (pw_log s @ [])"
    using ok by (intro order_Update_keeps [OF ok f]) (use st dis in \<open>fastforce simp: quiet_def pay_tables_ok_def orders_ok_def\<close>)+
  then show ?thesis by (intro world_ok_db [OF s]) simp_all
qed

lemma pay_step_ok: "world_ok cfg s \<Longrightarrow> world_ok cfg (pay_step cfg a s)"
proof (cases a)
  case (Begin w pc)
  assume "world_ok cfg s"
  then show ?thesis by (cases pc) (auto simp: Begin world_ok_def entry_pc_def)
next
  case (Work w env)
  assume "world_ok cfg s"
  then show ?thesis unfolding Work by (rule world_ok_Work)
next
  case (CreateOrder ord)
  assume "world_ok cfg s"
  then show ?thesis by (simp add: CreateOrder world_ok_CreateOrder)
next
  case (CancelCore oid st now)
  assume "world_ok cfg s"
  then show ?thesis by (auto simp: CancelCore cancel_update_def same_order_def unpaid_def intro!: world_ok_update)
next
  case (PersistTradeNo oid tradeNo now)
  assume "world_ok cfg s"
  then show ?thesis by (auto simp: PersistTradeNo trade_update_def same_order_def intro!: world_ok_update)
next
  case (RefundMove oid st now)
  assume "world_ok cfg s"
  then show ?thesis by (auto simp: RefundMove refund_update_def same_order_def intro!: world_ok_update)
next
  case (OtherBalance uid u)
  assume s: "world_ok cfg s"
  then have "pay_tables_ok cfg ((pw_db s)\<lparr>pd_users := (pd_users (pw_db s))(uid \<mapsto> u)\<rparr>) (pw_log s)"
    by (simp add: world_ok_def pay_tables_ok_def orders_ok_def codes_ok_def code_row_ok_def rebates_ok_def rebate_claimed_def code_used_def)
  then show ?thesis by (auto simp: OtherBalance extends_def known_def intro!: world_ok_db [OF s])
qed

lemma pay_run_ok: "world_ok cfg (pay_run cfg users acts)"
proof -
  have "world_ok cfg s \<Longrightarrow> world_ok cfg (fold (pay_step cfg) acts s)" for s
    by (induction acts arbitrary: s) (simp_all add: pay_step_ok)
  moreover have "world_ok cfg (pay_init users)"
    by (simp add: pay_init_def world_ok_def pay_tables_ok_def orders_ok_def codes_ok_def rebates_ok_def credits_def)
  ultimately show ?thesis by (simp add: pay_run_def)
qed

subsection \<open>A worker that is left alone\<close>

fun drive :: "pay_cfg \<Rightarrow> pay_env \<Rightarrow> nat \<Rightarrow> pay_pc \<Rightarrow> pay_db \<Rightarrow> pay_pc \<times> pay_db" where
  "drive cfg env 0 pc db = (pc, db)"
| "drive cfg env (Suc n) pc db = (case worker_step cfg env pc db of (pc', db', evs) \<Rightarrow> drive cfg env n pc' db')"

lemma drive_add: "drive cfg env (m + n) pc db = (case drive cfg env m pc db of (pc', db') \<Rightarrow> drive cfg env n pc' db')"
  by (induction m arbitrary: pc db) (simp_all add: split_beta)

lemma drive_step: "worker_step cfg env pc db = (pc', db', evs) \<Longrightarrow> drive cfg env (Suc n) pc db = drive cfg env n pc' db'"
  by simp

lemma drive_Done: "drive cfg env n (PcDone e) db = (PcDone e, db)"
  by (induction n) simp_all

lemma drive_world:
  "\<exists>s'. fold (pay_step cfg) (replicate n (Work w env)) s = s' \<and> (pw_workers s' w, pw_db s') = drive cfg env n (pw_workers s w) (pw_db s)"
  by (induction n arbitrary: s) (simp_all add: split_beta Let_def)

definition calm :: "pay_env \<Rightarrow> bool" where
  "calm env \<longleftrightarrow> pe_fault env = NoFault \<and> \<not> pe_limited env \<and> \<not> pe_locked env"

lemma calm_reading: "calm env \<Longrightarrow> reading env db failed next = (next, db, [])"
  by (simp add: calm_def reading_def)

lemma calm_writing: "calm env \<Longrightarrow> writing env db failed next db' evs = (next, db', evs)"
  by (simp add: calm_def writing_def)

lemma find_snoc: "find P xs = None \<Longrightarrow> P x \<Longrightarrow> find P (xs @ [x]) = Some x"
  by (induction xs) (auto split: if_splits)

lemma find_update_where:
  "(\<And>r. Q (f r) = Q r) \<Longrightarrow> find Q (update_where P f rows) = map_option (\<lambda>r. if P r then f r else r) (find Q rows)"
proof (induction rows)
  case (Cons r rows)
  have "Q (if P r then f r else r) = Q r" using Cons.prems by simp
  then show ?case using Cons.IH [OF Cons.prems] by (simp add: update_where_def)
qed (simp add: update_where_def)

lemma order_Get_Update:
  "(\<And>r. po_ID (f r) = po_ID r) \<Longrightarrow> order_Get oid (fst (order_Update P f db)) = map_option (\<lambda>r. if P r then f r else r) (order_Get oid db)"
  by (simp add: order_Get_def order_Update_def find_update_where)

lemma order_Update_count: "order_Get oid db = Some r \<Longrightarrow> P r \<Longrightarrow> snd (order_Update P f db) \<noteq> 0"
  using find_SomeD [of "\<lambda>o'. po_ID o' = oid" "pd_orders db" r] by (auto simp: order_Get_def order_Update_def filter_empty_conv)

text \<open>The order a worker holds the lease of.\<close>

definition leased :: "pay_db \<Rightarrow> int \<Rightarrow> instant \<Rightarrow> bool" where
  "leased db oid v \<longleftrightarrow> (\<exists>r. order_Get oid db = Some r \<and> held oid v r)"

lemma leased_completes:
  assumes calm: "calm env" and l: "leased db (po_ID ord) v"
  shows "\<exists>db' r. drive cfg env 2 (PcRebate ord v) db = (PcDone None, db') \<and> order_Get (po_ID ord) db' = Some r
     \<and> po_Status r = OrderStatusCompleted"
proof -
  obtain db1 evs where db1: "worker_step cfg env (PcRebate ord v) db = (PcComplete ord v, db1, evs)"
      "pd_orders db1 = pd_orders db"
  proof (cases "affiliateRebateBaseAmount ord \<le> 0 \<or> \<not> pg_affiliate cfg")
    case True
    then show thesis using that [of db "[]"] by (simp add: applyAffiliateRebateForOrder_def)
  next
    case False
    have "pd_orders (fst (rebate_tx cfg ord db)) = pd_orders db"
      by (simp add: rebate_tx_def tryClaimAffiliateRebateAudit_def updateClaimedAffiliateRebateAudit_def Let_def)
    then show thesis
      using that [of "fst (rebate_tx cfg ord db)" "snd (rebate_tx cfg ord db)"] False
      by (simp add: applyAffiliateRebateForOrder_def split_beta calm_writing [OF calm])
  qed
  obtain r where r: "order_Get (po_ID ord) db1 = Some r" "held (po_ID ord) v r"
    using l db1(2) by (auto simp: leased_def order_Get_def)
  define db2 where "db2 = fst (update_completed cfg (pe_now env) (po_ID ord) v db1)"
  have n: "snd (update_completed cfg (pe_now env) (po_ID ord) v db1) \<noteq> 0"
    unfolding update_completed_def by (rule order_Update_count [where P = "held (po_ID ord) v", OF r])
  then have step: "worker_step cfg env (PcComplete ord v) db1 = (PcDone None, db2, [])"
    by (simp add: markCompleted_def split_beta Let_def calm_writing [OF calm] db2_def)
  have "order_Get (po_ID ord) db2 = Some (r\<lparr>po_Status := OrderStatusCompleted, po_CompletedAt := Some (pg_store cfg (pe_now env)),
      po_UpdatedAt := pg_store cfg (pe_now env)\<rparr>)"
    using r by (simp add: db2_def update_completed_def order_Get_Update)
  moreover have "drive cfg env 2 (PcRebate ord v) db = (PcDone None, db2)"
    using drive_step [OF db1(1), of 1] drive_step [OF step, of 0] by (simp add: numeral_2_eq_2 del: drive.simps(2) worker_step.simps)
  ultimately show ?thesis by auto
qed

lemma leased_mono: "leased db oid v \<Longrightarrow> pd_orders db' = pd_orders db \<Longrightarrow> leased db' oid v"
  by (simp add: leased_def order_Get_def)

lemma redeem_completes:
  assumes calm: "calm env" and l: "leased db (po_ID ord) v" and u: "pd_users db (po_UserID ord) \<noteq> None"
    and r: "GetByCode (po_RechargeCode ord) db = Some r" "rc_Status r = ''unused''" "rc_ExpiresAt r = None" "rc_Type r = ''balance''"
  shows "\<exists>db' x. drive cfg env 6 (PcRedeem ord v) db = (PcDone None, db') \<and> order_Get (po_ID ord) db' = Some x
     \<and> po_Status x = OrderStatusCompleted"
proof -
  have use: "CanUse r t" "\<not> IsExpiredAt r t" for t using r by (simp_all add: CanUse_def IsExpiredAt_def)
  have s1: "worker_step cfg env (PcRedeem ord v) db = (PcRedeemUser ord v r, db, [])"
    using calm r use by (simp add: Redeem_check_def calm_reading) (simp add: calm_def)
  have s2: "worker_step cfg env (PcRedeemUser ord v r) db = (PcRedeemTx ord v r, db, [])"
    using calm u by (auto simp: Redeem_user_def calm_reading)
  have row: "r \<in> set (pd_codes db)" using GetByCode_in [OF r(1)] by simp
  obtain db0 where db0: "code_Use (rc_ID r) (po_UserID ord) (pg_store cfg (pe_now env)) db = Some db0" "pd_users db0 = pd_users db"
  proof -
    have "filter (\<lambda>x. rc_ID x = rc_ID r \<and> rc_Status x = ''unused'') (pd_codes db) \<noteq> []"
      using row r(2) by (auto simp: filter_empty_conv)
    then show thesis using that by (simp add: code_Use_def Let_def)
  qed
  obtain db1 where db1: "redeem_tx (po_UserID ord) r (pg_store cfg (pe_now env)) db = Some db1"
    using u by (cases "rc_Value r < 0") (auto simp: redeem_tx_def db0 ApplyRedeemBalanceAdjustment_def UpdateBalance_def)
  obtain users where eq: "db1 = db\<lparr>pd_codes := update_where (\<lambda>x. rc_ID x = rc_ID r \<and> rc_Status x = ''unused'')
       (\<lambda>x. x\<lparr>rc_Status := ''used'', rc_UsedBy := Some (po_UserID ord), rc_UsedAt := Some (pg_store cfg (pe_now env))\<rparr>) (pd_codes db),
       pd_users := users\<rparr>"
    using redeem_tx_db [OF db1] by blast
  have s3: "worker_step cfg env (PcRedeemTx ord v r) db = (PcRedeemed ord v r, db1, [Credited (rc_Code r) (po_UserID ord) (rc_Value r)])"
    using calm db1 by (simp add: Redeem_apply_def calm_writing)
  have "code_GetByID (rc_ID r) db \<noteq> None" using row by (auto simp: code_GetByID_def find_None_iff)
  then have "code_GetByID (rc_ID r) db1 \<noteq> None" by (auto simp: code_GetByID_def eq find_update_where)
  then have s4: "worker_step cfg env (PcRedeemed ord v r) db1 = (PcRebate ord v, db1, [])"
    using calm by (auto simp: Redeem_reload_def calm_reading)
  have "leased db1 (po_ID ord) v" using l by (rule leased_mono) (simp add: eq)
  from leased_completes [OF calm this, of cfg] show ?thesis
    using drive_add [of cfg env 4 2 "PcRedeem ord v" db] s1 s2 s3 s4 by (simp add: numeral_nat)
qed

lemma lookup_completes:
  assumes ok: "pay_tables_ok cfg db hist" and calm: "calm env" and l: "leased db (po_ID ord) v"
    and ord: "paid_order cfg db hist ord" and u: "pd_users db (po_UserID ord) \<noteq> None"
    and c: "po_RechargeCode ord \<noteq> []" "po_Amount ord \<noteq> 0"
  shows "\<exists>db' x. drive cfg env 8 (PcLookup ord v) db = (PcDone None, db') \<and> order_Get (po_ID ord) db' = Some x
     \<and> po_Status x = OrderStatusCompleted"
proof -
  have nf: "pe_fault env = NoFault" using calm by (simp add: calm_def)
  have trim: "TrimSpace (po_RechargeCode ord) = po_RechargeCode ord"
    using ok ord by (auto simp: pay_tables_ok_def orders_ok_def paid_order_def known_def same_order_def)
  show ?thesis
  proof (cases "GetByCode (po_RechargeCode ord) db")
    case None
    have s1: "worker_step cfg env (PcLookup ord v) db = (PcCreate ord v, db, [])"
      using None nf by (simp add: doBalance_lookup_def resolveRedeemAction_def)
    have "po_RechargeCode ord \<notin> set (map rc_Code (pd_codes db))"
      using None by (auto simp: GetByCode_def find_None_iff)
    then obtain db1 where db1: "code_Create (new_code ord) db = Some db1"
        "db1 = db\<lparr>pd_codes := pd_codes db @ [(new_code ord)\<lparr>rc_ID := pd_next_code db\<rparr>], pd_next_code := pd_next_code db + 1\<rparr>"
      by (auto simp: code_Create_def new_code_def trim)
    have s2: "worker_step cfg env (PcCreate ord v) db = (PcRedeem ord v, db1, [])"
      using db1(1) c calm by (simp add: CreateCode_def trim calm_writing)
    let ?r = "(new_code ord)\<lparr>rc_ID := pd_next_code db\<rparr>"
    have "GetByCode (po_RechargeCode ord) db1 = Some ?r"
      using None find_snoc [of "\<lambda>r. rc_Code r = po_RechargeCode ord" "pd_codes db" ?r]
    by (simp add: GetByCode_def db1(2) new_code_def trim)
    moreover have "leased db1 (po_ID ord) v" using l by (rule leased_mono) (simp add: db1(2))
    moreover have "pd_users db1 (po_UserID ord) \<noteq> None" using u by (simp add: db1(2))
    ultimately show ?thesis
      using redeem_completes [OF calm, of db1 ord v ?r cfg] drive_add [of cfg env 2 6 "PcLookup ord v" db] s1 s2
      by (simp add: numeral_nat new_code_def)
  next
    case (Some r)
    then have r: "r \<in> set (pd_codes db)" using GetByCode_in by blast
    then have row: "rc_Type r = ''balance''" "rc_ExpiresAt r = None" "rc_Status r = ''unused'' \<or> rc_Status r = ''used''"
      using ok by (auto simp: pay_tables_ok_def codes_ok_def code_row_ok_def)
    show ?thesis
    proof (cases "IsUsed r")
      case True
      then have "worker_step cfg env (PcLookup ord v) db = (PcRebate ord v, db, [])"
        using Some nf by (simp add: doBalance_lookup_def resolveRedeemAction_def)
      then show ?thesis
        using leased_completes [OF calm l, of cfg] drive_add [of cfg env 3 5 "PcLookup ord v" db] drive_Done [of cfg env 5]
        by (auto simp: numeral_nat)
    next
      case False
      then have "worker_step cfg env (PcLookup ord v) db = (PcRedeem ord v, db, [])"
        using Some nf by (simp add: doBalance_lookup_def resolveRedeemAction_def)
      then show ?thesis
        using redeem_completes [OF calm l u Some _ row(2,1), of cfg] False row(3) drive_add [of cfg env 7 1 "PcLookup ord v" db]
          drive_Done [of cfg env 1]
        by (auto simp: numeral_nat IsUsed_def)
    qed
  qed
qed

lemma retry_completes:
  assumes ok: "pay_tables_ok cfg db hist" and calm: "calm env" and ord: "ord \<in> set (pd_orders db)"
    and st: "leasable (truncate_us (pe_now env)) (po_ID ord) ord" and paid: "po_PaidAt ord \<noteq> None"
    and ty: "po_OrderType ord \<noteq> ''subscription''" and u: "pd_users db (po_UserID ord) \<noteq> None"
    and c: "po_RechargeCode ord \<noteq> []" "po_Amount ord \<noteq> 0"
  shows "\<exists>db' x. drive cfg env 13 (PcRetry (po_ID ord)) db = (PcDone None, db') \<and> order_Get (po_ID ord) db' = Some x
     \<and> po_Status x = OrderStatusCompleted"
proof -
  have get: "order_Get (po_ID ord) db = Some ord"
    using ok ord find_by_key [of po_ID "pd_orders db" ord] by (simp add: order_Get_def pay_tables_ok_def orders_ok_def)
  have status: "po_Status ord = OrderStatusPaid \<or> po_Status ord = OrderStatusFailed \<or> po_Status ord = OrderStatusRecharging"
    using st by (auto simp: leasable_def)
  then have po: "paid_order cfg db hist ord" using read_order(2) [OF ok get] by (auto simp: unpaid_def)
  have s1: "worker_step cfg env (PcRetry (po_ID ord)) db = (PcExecute (po_ID ord), db, [])"
    using get paid status by (auto simp: RetryFulfillment_def calm_reading [OF calm] psIsRefundStatus_def)
  have s2: "worker_step cfg env (PcExecute (po_ID ord)) db = (PcBalance (po_ID ord), db, [])"
    using get ty by (simp add: executeFulfillment_def calm_reading [OF calm])
  have s3: "worker_step cfg env (PcBalance (po_ID ord)) db = (PcLease ord, db, [])"
    using get status by (auto simp: ExecuteBalanceFulfillment_def calm_reading [OF calm] psIsRefundStatus_def)
  define db1 where "db1 = fst (update_lease cfg (pe_now env) (po_ID ord) db)"
  define v where "v = pg_store cfg (truncate_us (pe_now env))"
  have "snd (update_lease cfg (pe_now env) (po_ID ord) db) \<noteq> 0"
    unfolding update_lease_def
    by (rule order_Update_count [where P = "leasable (truncate_us (pe_now env)) (po_ID ord)", OF get st])
  then have s4: "worker_step cfg env (PcLease ord) db = (PcLeaseClaimed ord, db1, [])"
    by (simp add: acquire_lease_def split_beta Let_def calm_writing [OF calm] db1_def)
  obtain x where x: "order_Get (po_ID ord) db1 = Some x" "held (po_ID ord) v x"
    using get st by (simp add: db1_def update_lease_def order_Get_Update held_def v_def)
  then have s5: "worker_step cfg env (PcLeaseClaimed ord) db1 = (PcLookup ord v, db1, [])"
    by (simp add: lease_claimed_def calm_reading [OF calm] held_def)
  have good: "pay_tables_ok cfg db1 hist" "paid_order cfg db1 hist ord"
    using good_lease(1) [OF ok po, of env] s4 by (simp_all add: good_result_def)
  have "leased db1 (po_ID ord) v" using x by (auto simp: leased_def)
  moreover have "pd_users db1 (po_UserID ord) \<noteq> None" using u by (simp add: db1_def update_lease_def order_Update_def)
  ultimately obtain db' y where "drive cfg env 8 (PcLookup ord v) db1 = (PcDone None, db')" "order_Get (po_ID ord) db' = Some y"
      "po_Status y = OrderStatusCompleted"
    using lookup_completes [OF good(1) calm _ good(2) _ c] by blast
  moreover have "drive cfg env 13 (PcRetry (po_ID ord)) db = drive cfg env 8 (PcLookup ord v) db1"
    using drive_step [OF s1, of 12] drive_step [OF s2, of 11] drive_step [OF s3, of 10] drive_step [OF s4, of 9] drive_step [OF s5, of 8]
    by (simp del: drive.simps(2) worker_step.simps)
  ultimately show ?thesis by auto
qed

subsection \<open>A sample run\<close>

text \<open>A notification marks an order as paid; then its worker stops.\<close>

definition sample_cfg :: pay_cfg where
  "sample_cfg = \<lparr>pg_float = id, pg_sub = (-), pg_store = id, pg_registry = (\<lambda>_. []), pg_fold = (=), pg_affiliate = True, pg_rebate = (\<lambda>_ _. 1)\<rparr>"

definition sample_users :: "int \<rightharpoonup> pay_user" where
  "sample_users = [1 \<mapsto> \<lparr>pu_balance = 0, pu_total_recharged = 0\<rparr>]"

definition sample_order :: PaymentOrder where
  "sample_order = \<lparr>po_ID = 1, po_UserID = 1, po_Amount = 10, po_PayAmount = 10, po_RechargeCode = ''PAY-1-7'', po_OutTradeNo = ''sub2_a'',
     po_PaymentType = [], po_PaymentTradeNo = [], po_OrderType = ''balance'', po_Status = OrderStatusPending, po_ProviderKey = None,
     po_SnapshotProviderKey = [], po_Currency = ''CNY'', po_PaidAt = None, po_CompletedAt = None, po_FailedAt = None, po_UpdatedAt = 0\<rparr>"

definition sample_env :: pay_env where
  "sample_env = \<lparr>pe_now = 1000000, pe_fault = NoFault, pe_instanceKey = [], pe_metadataOK = True, pe_limited = False, pe_locked = False\<rparr>"

definition sample_acts :: "pay_action list" where
  "sample_acts = [CreateOrder sample_order,
     Begin 0 (PcNotify \<lparr>nt_Success = True, nt_OrderID = ''sub2_a'', nt_TradeNo = ''T'', nt_Amount = Finite 10\<rparr> []),
     Work 0 sample_env, Work 0 sample_env, Work 0 sample_env]"

definition sample_paid :: PaymentOrder where
  "sample_paid = sample_order\<lparr>po_Status := OrderStatusPaid, po_PaymentTradeNo := ''T'', po_PaidAt := Some 1000000, po_UpdatedAt := 1000000\<rparr>"

lemma sample_trim: "TrimSpace ''PAY-1-7'' = ''PAY-1-7''"
  by (rule TrimSpace_printable) (simp_all add: printable_def)

lemma sample_pay_run:
  "pw_db (pay_run sample_cfg sample_users sample_acts) =
     \<lparr>pd_orders = [sample_paid], pd_codes = [], pd_next_code = 1, pd_users = sample_users, pd_audit = []\<rparr>"
proof -
  have "fresh_order sample_order (pw_db (pay_init sample_users))"
    by (simp add: fresh_order_def sample_order_def pay_init_def sample_trim)
  then show ?thesis
    by (simp add: pay_run_def sample_acts_def entry_pc_def pay_init_def HandlePaymentNotification_def reading_def sample_env_def
        confirmPayment_def order_Get_def check_payment_def expectedNotificationProviderKeyForOrder_def
        expectedNotificationProviderKey_def isValidProviderAmount_def paymentAmountToleranceForCurrency_def CurrencyMinorUnit_def
        zero_decimal_currencies_def three_decimal_currencies_def toPaid_def update_to_paid_def order_Update_def update_where_def payable_def
        writing_def sample_cfg_def sample_order_def sample_paid_def Let_def)
qed

subsection \<open>Properties\<close>

lemma completed_credit:
  assumes ok: "pay_tables_ok cfg db hist" and ord: "ord \<in> set (pd_orders db)"
  shows "credits (po_RechargeCode ord) hist \<in> {[], [(po_UserID ord, po_Amount ord)]}"
    and "credits (po_RechargeCode ord) hist \<noteq> [] \<Longrightarrow> was_paid cfg hist ord"
    and "after_completion (po_Status ord) \<Longrightarrow> credits (po_RechargeCode ord) hist = [(po_UserID ord, po_Amount ord)]"
proof -
  have row: "was_paid cfg hist ord \<and> credits (rc_Code r) hist = (if IsUsed r then [(po_UserID ord, po_Amount ord)] else [])"
    if r: "r \<in> set (pd_codes db)" "rc_Code r = po_RechargeCode ord" for r
  proof -
    obtain o' where o': "o' \<in> set (pd_orders db)" "po_RechargeCode o' = rc_Code r" "was_paid cfg hist o'"
        "credits (rc_Code r) hist = (if IsUsed r then [(po_UserID o', po_Amount o')] else [])"
      using ok r(1) unfolding pay_tables_ok_def codes_ok_def code_row_ok_def by blast
    have "o' = ord" using ok ord o'(1,2) r(2) by (auto simp: pay_tables_ok_def orders_ok_def distinct_map inj_on_def)
    then show ?thesis using o' by simp
  qed
  have none: "credits (po_RechargeCode ord) hist = []" if "po_RechargeCode ord \<notin> set (map rc_Code (pd_codes db))"
    using ok that by (simp add: pay_tables_ok_def codes_ok_def)
  have cases: thesis
    if "\<And>r. r \<in> set (pd_codes db) \<Longrightarrow> rc_Code r = po_RechargeCode ord \<Longrightarrow> thesis"
      "credits (po_RechargeCode ord) hist = [] \<Longrightarrow> thesis" for thesis
    using that none by (cases "po_RechargeCode ord \<in> set (map rc_Code (pd_codes db))") auto
  show "credits (po_RechargeCode ord) hist \<in> {[], [(po_UserID ord, po_Amount ord)]}"
  proof (rule cases)
    fix r assume "r \<in> set (pd_codes db)" "rc_Code r = po_RechargeCode ord"
    then show ?thesis using row [of r] by simp
  qed simp
  show "was_paid cfg hist ord" if "credits (po_RechargeCode ord) hist \<noteq> []"
  proof (rule cases)
    fix r assume "r \<in> set (pd_codes db)" "rc_Code r = po_RechargeCode ord"
    then show ?thesis using row [of r] by simp
  qed (use that in simp)
  show "credits (po_RechargeCode ord) hist = [(po_UserID ord, po_Amount ord)]" if after: "after_completion (po_Status ord)"
  proof -
    obtain r where "r \<in> set (pd_codes db)" "rc_Code r = po_RechargeCode ord" "IsUsed r"
      using ok ord after unfolding pay_tables_ok_def orders_ok_def code_used_def by blast
    then show ?thesis using row [of r] by simp
  qed
qed





end
