(* ===== verification/Go_Json.thy ===== *)
theory Go_Json
  imports Relay_Prelude "HOL-Library.Monad_Syntax"
begin

text \<open>
  Package \<open>encoding/json\<close>, as far as the converters of requests use it, and two functions of package
  \<open>strings\<close>.

  A document is a value of type \<open>json\<close>: white space, the spelling of numbers and escapes are not
  distinguished, and no object has two members whose names agree up to case. \<open>json.RawMessage\<close> is a
  document or nothing (its nil and its empty value). Decoding follows the rules of \<open>json.Unmarshal\<close>: names are
  compared without regard to case, unknown members are skipped, \<open>null\<close> leaves a value as it is, and any other
  mismatch of types is an error. Encoding leaves out empty members where the struct tag says
  \<open>omitempty\<close>.

  A codec is a pair of functions that encode and decode a Go type; what holds of every codec is shown
  once, in the locale \<open>json_codec\<close>.
\<close>

subsection \<open>Documents\<close>

datatype json = JNull | JBool bool | JNum string | JStr string | JArr "json list" | JObj "(string \<times> json) list"

type_synonym raw_json = "json option"

definition fold_name :: "string \<Rightarrow> string" where
  "fold_name = map lower_byte"

definition field :: "string \<Rightarrow> (string \<times> json) list \<Rightarrow> raw_json" where
  "field n kvs = map_option snd (find (\<lambda>(k, v). fold_name k = fold_name n) (rev kvs))"

subsection \<open>Decoding\<close>

fun dec_string :: "json \<Rightarrow> string option" where
  "dec_string JNull = Some []"
| "dec_string (JStr s) = Some s"
| "dec_string _ = None"

fun dec_bool :: "json \<Rightarrow> bool option" where
  "dec_bool JNull = Some False"
| "dec_bool (JBool b) = Some b"
| "dec_bool _ = None"

fun dec_list :: "(json \<Rightarrow> 'a option) \<Rightarrow> json \<Rightarrow> 'a list option" where
  "dec_list d JNull = Some []"
| "dec_list d (JArr js) = those (map d js)"
| "dec_list d _ = None"

fun dec_ptr :: "(json \<Rightarrow> 'a option) \<Rightarrow> json \<Rightarrow> 'a option option" where
  "dec_ptr d JNull = Some None"
| "dec_ptr d j = map_option Some (d j)"

definition dec_object :: "json \<Rightarrow> (string \<times> json) list option" where
  "dec_object j = (case j of JNull \<Rightarrow> Some [] | JObj kvs \<Rightarrow> Some kvs | _ \<Rightarrow> None)"

definition fstr :: "string \<Rightarrow> (string \<times> json) list \<Rightarrow> string option" where
  "fstr n kvs = (case field n kvs of None \<Rightarrow> Some [] | Some j \<Rightarrow> dec_string j)"

definition fbool :: "string \<Rightarrow> (string \<times> json) list \<Rightarrow> bool option" where
  "fbool n kvs = (case field n kvs of None \<Rightarrow> Some False | Some j \<Rightarrow> dec_bool j)"

definition fptr :: "(json \<Rightarrow> 'a option) \<Rightarrow> string \<Rightarrow> (string \<times> json) list \<Rightarrow> 'a option option" where
  "fptr d n kvs = (case field n kvs of None \<Rightarrow> Some None | Some j \<Rightarrow> dec_ptr d j)"

text \<open>\<open>json.Unmarshal\<close> of a raw message: nothing is not a document.\<close>

definition unmarshal :: "(json \<Rightarrow> 'a option) \<Rightarrow> raw_json \<Rightarrow> 'a option" where
  "unmarshal d raw = Option.bind raw d"

subsection \<open>Encoding\<close>

definition mstr :: "string \<Rightarrow> string \<Rightarrow> (string \<times> json) list" where
  "mstr n s = (if s = [] then [] else [(n, JStr s)])"

definition mraw :: "string \<Rightarrow> raw_json \<Rightarrow> (string \<times> json) list" where
  "mraw n r = (case r of None \<Rightarrow> [] | Some j \<Rightarrow> [(n, j)])"

definition mbool :: "string \<Rightarrow> bool \<Rightarrow> (string \<times> json) list" where
  "mbool n b = (if b then [(n, JBool True)] else [])"

definition mptr :: "('a \<Rightarrow> json) \<Rightarrow> string \<Rightarrow> 'a option \<Rightarrow> (string \<times> json) list" where
  "mptr e n p = (case p of None \<Rightarrow> [] | Some x \<Rightarrow> [(n, e x)])"

text \<open>A slice; nil becomes \<open>null\<close>. No slice the converters encode is empty and not nil.\<close>

definition enc_list :: "('a \<Rightarrow> json) \<Rightarrow> 'a list \<Rightarrow> json" where
  "enc_list e xs = (if xs = [] then JNull else JArr (map e xs))"

subsection \<open>Members\<close>

lemma field_Nil [simp]: "field n [] = None"
  by (simp add: field_def)

fun or_else :: "'a option \<Rightarrow> 'a option \<Rightarrow> 'a option" where
  "or_else None y = y"
| "or_else (Some x) y = Some x"

lemma or_else_None [simp]: "or_else x None = x"
  by (cases x) simp_all

lemma field_append: "field n (a @ b) = or_else (field n b) (field n a)"
  by (induction b rule: rev_induct) (auto simp: field_def split: prod.splits option.splits)

lemma field_single [simp]: "field n [(k, v)] = (if fold_name k = fold_name n then Some v else None)"
  by (simp add: field_def)

lemma field_Cons: "field n ((k, v) # kvs) = or_else (field n kvs) (if fold_name k = fold_name n then Some v else None)"
  using field_append [of n "[(k, v)]" kvs] by (simp del: append_Cons append_Nil add: append_Cons [symmetric]) (simp add: field_def)

lemma field_mstr [simp]: "field n (mstr k s) = (if fold_name k = fold_name n \<and> s \<noteq> [] then Some (JStr s) else None)"
  by (simp add: mstr_def)

lemma field_mraw [simp]: "field n (mraw k r) = (if fold_name k = fold_name n then r else None)"
  by (cases r) (simp_all add: mraw_def)

lemma field_mbool [simp]: "field n (mbool k b) = (if fold_name k = fold_name n \<and> b then Some (JBool True) else None)"
  by (simp add: mbool_def)

lemma field_mptr [simp]: "field n (mptr e k p) = (if fold_name k = fold_name n then map_option e p else None)"
  by (cases p) (simp_all add: mptr_def)

subsection \<open>Codecs\<close>

locale json_codec =
  fixes enc :: "'a \<Rightarrow> json" and dec :: "json \<Rightarrow> 'a option" and ok :: "'a \<Rightarrow> bool"
  assumes dec_enc: "ok x \<Longrightarrow> dec (enc x) = Some x"
begin

lemma those_enc: "list_all ok xs \<Longrightarrow> those (map (dec \<circ> enc) xs) = Some xs"
  by (induction xs) (simp_all add: dec_enc)

lemma dec_enc_list: "list_all ok xs \<Longrightarrow> dec_list dec (enc_list enc xs) = Some xs"
  by (simp add: enc_list_def those_enc)

end

text \<open>A codec whose documents are never \<open>null\<close> gives one for pointers.\<close>

locale json_object_codec = json_codec +
  assumes enc_not_null: "enc x \<noteq> JNull"
begin

lemma dec_ptr_enc: "ok x \<Longrightarrow> dec_ptr dec (enc x) = Some (Some x)"
  using dec_enc [of x] enc_not_null [of x] by (cases "enc x") simp_all

end

interpretation string_codec: json_object_codec JStr dec_string "\<lambda>_. True"
  by unfold_locales simp_all

subsection \<open>Package strings\<close>

fun Join :: "string list \<Rightarrow> string \<Rightarrow> string" where
  "Join [] sep = []"
| "Join [x] sep = x"
| "Join (x # y # xs) sep = x @ sep @ Join (y # xs) sep"

text \<open>The part before and after the first occurrence of a byte, as \<open>strings.Index\<close> and slicing give it.\<close>

definition split_at_byte :: "char \<Rightarrow> string \<Rightarrow> (string \<times> string) option" where
  "split_at_byte c s = (if c \<in> set s then Some (takeWhile (\<lambda>x. x \<noteq> c) s, tl (dropWhile (\<lambda>x. x \<noteq> c) s)) else None)"

lemma split_at_byte_append: "c \<notin> set a \<Longrightarrow> split_at_byte c (a @ c # b) = Some (a, b)"
  by (auto simp: split_at_byte_def takeWhile_append dropWhile_append)

lemma Join_eq_Nil: "list_all (\<lambda>x. x \<noteq> []) xs \<Longrightarrow> Join xs sep = [] \<longleftrightarrow> xs = []"
  by (induction xs sep rule: Join.induct) simp_all

end
