(* ===== verification/Request_Types.thy ===== *)
theory Request_Types
  imports Go_Json Api_Types Complex_Main
begin

text \<open>
  The structs of requests in \<open>pkg/apicompat/types.go\<close>, field by field in the order of the source, with
  their encoding and decoding. A field of type \<open>json.RawMessage\<close> is a document or nothing. Content blocks
  and parts occur in requests as documents as well; \<open>RequestBlock\<close> is \<open>AnthropicContentBlock\<close> with documents
  where the converters of answers keep bytes.

  What Go's decoder reads from the document its encoder writes is the value that was encoded
  (the interpretations of \<open>json_codec\<close>).
\<close>

subsection \<open>Anthropic Messages API\<close>

record RequestBlock =
  qb_Type :: string
  qb_CacheControl :: "AnthropicCacheControl option"
  qb_Text :: string
  qb_Thinking :: string
  qb_Signature :: string
  qb_Source :: "AnthropicImageSource option"
  qb_ID :: string
  qb_Name :: string
  qb_Input :: raw_json
  qb_ToolUseID :: string
  qb_Content :: raw_json
  qb_IsError :: bool

definition zero_RequestBlock :: RequestBlock where
  [zero_defs]: "zero_RequestBlock =
     \<lparr>qb_Type = [], qb_CacheControl = None, qb_Text = [], qb_Thinking = [], qb_Signature = [], qb_Source = None, qb_ID = [],
      qb_Name = [], qb_Input = None, qb_ToolUseID = [], qb_Content = None, qb_IsError = False\<rparr>"

record AnthropicMessage =
  am_Role :: string
  am_Content :: raw_json

record AnthropicTool =
  atl_Type :: string
  atl_Name :: string
  atl_Description :: string
  atl_InputSchema :: raw_json
  atl_CacheControl :: "AnthropicCacheControl option"

definition zero_AnthropicTool :: AnthropicTool where
  [zero_defs]: "zero_AnthropicTool =
     \<lparr>atl_Type = [], atl_Name = [], atl_Description = [], atl_InputSchema = None, atl_CacheControl = None\<rparr>"

record AnthropicThinking =
  ath_Type :: string
  ath_BudgetTokens :: int

record AnthropicRequest =
  aq_Model :: string
  aq_MaxTokens :: int
  aq_System :: raw_json
  aq_Messages :: "AnthropicMessage list"
  aq_Tools :: "AnthropicTool list"
  aq_Stream :: bool
  aq_Temperature :: "rat option"
  aq_TopP :: "rat option"
  aq_StopSeqs :: "string list"
  aq_Thinking :: "AnthropicThinking option"
  aq_ToolChoice :: raw_json
  aq_Metadata :: raw_json
  aq_OutputConfig :: "string option"   \<comment> \<open>the effort of \<open>AnthropicOutputConfig\<close>\<close>

definition zero_AnthropicRequest :: AnthropicRequest where
  [zero_defs]: "zero_AnthropicRequest =
     \<lparr>aq_Model = [], aq_MaxTokens = 0, aq_System = None, aq_Messages = [], aq_Tools = [], aq_Stream = False,
      aq_Temperature = None, aq_TopP = None, aq_StopSeqs = [], aq_Thinking = None, aq_ToolChoice = None,
      aq_Metadata = None, aq_OutputConfig = None\<rparr>"

subsection \<open>OpenAI Responses API\<close>

record ResponsesInputItem =
  ri_Type :: string
  ri_Role :: string
  ri_Content :: raw_json
  ri_EncryptedContent :: string
  ri_CallID :: string
  ri_Name :: string
  ri_Arguments :: string
  ri_ID :: string
  ri_Output :: string
  ri_outputRaw :: raw_json

definition zero_ResponsesInputItem :: ResponsesInputItem where
  [zero_defs]: "zero_ResponsesInputItem =
     \<lparr>ri_Type = [], ri_Role = [], ri_Content = None, ri_EncryptedContent = [], ri_CallID = [], ri_Name = [],
      ri_Arguments = [], ri_ID = [], ri_Output = [], ri_outputRaw = None\<rparr>"

text \<open>The tools of a namespace are not used by these converters.\<close>

record ResponsesTool =
  rt_Type :: string
  rt_Name :: string
  rt_Description :: string
  rt_Parameters :: raw_json
  rt_Strict :: "bool option"
  rt_AllowedXHandles :: "string list"
  rt_ExcludedXHandles :: "string list"
  rt_FromDate :: string
  rt_ToDate :: string
  rt_EnableImageUnderstanding :: "bool option"
  rt_EnableVideoUnderstanding :: "bool option"

definition zero_ResponsesTool :: ResponsesTool where
  [zero_defs]: "zero_ResponsesTool =
     \<lparr>rt_Type = [], rt_Name = [], rt_Description = [], rt_Parameters = None, rt_Strict = None, rt_AllowedXHandles = [],
      rt_ExcludedXHandles = [], rt_FromDate = [], rt_ToDate = [], rt_EnableImageUnderstanding = None, rt_EnableVideoUnderstanding = None\<rparr>"

record ResponsesReasoning =
  rrs_Effort :: string
  rrs_Summary :: string

record ResponsesText =
  rtx_Format :: raw_json
  rtx_Verbosity :: string

record ResponsesRequest =
  rq_Model :: string
  rq_Instructions :: string
  rq_Input :: raw_json
  rq_MaxOutputTokens :: "int option"
  rq_Temperature :: "rat option"
  rq_TopP :: "rat option"
  rq_Stream :: bool
  rq_Tools :: "ResponsesTool list"
  rq_Include :: "string list"
  rq_Store :: "bool option"
  rq_ParallelToolCalls :: "bool option"
  rq_Reasoning :: "ResponsesReasoning option"
  rq_Text :: "ResponsesText option"
  rq_ToolChoice :: raw_json
  rq_ServiceTier :: string
  rq_PromptCacheKey :: string
  rq_PreviousResponseID :: string

definition zero_ResponsesRequest :: ResponsesRequest where
  [zero_defs]: "zero_ResponsesRequest =
     \<lparr>rq_Model = [], rq_Instructions = [], rq_Input = None, rq_MaxOutputTokens = None, rq_Temperature = None, rq_TopP = None,
      rq_Stream = False, rq_Tools = [], rq_Include = [], rq_Store = None, rq_ParallelToolCalls = None, rq_Reasoning = None,
      rq_Text = None, rq_ToolChoice = None, rq_ServiceTier = [], rq_PromptCacheKey = [], rq_PreviousResponseID = []\<rparr>"

subsection \<open>OpenAI Chat Completions API\<close>

text \<open>\<open>RequestChatMessage\<close> is \<open>ChatMessage\<close> with a document as its content.\<close>

record RequestChatMessage =
  qm_Role :: string
  qm_Content :: raw_json
  qm_ReasoningContent :: string
  qm_Reasoning :: string
  qm_Name :: string
  qm_ToolCalls :: "ChatToolCall list"
  qm_ToolCallID :: string
  qm_FunctionCall :: "ChatFunctionCall option"

definition zero_RequestChatMessage :: RequestChatMessage where
  [zero_defs]: "zero_RequestChatMessage =
     \<lparr>qm_Role = [], qm_Content = None, qm_ReasoningContent = [], qm_Reasoning = [], qm_Name = [], qm_ToolCalls = [],
      qm_ToolCallID = [], qm_FunctionCall = None\<rparr>"

record ChatImageURL =
  ciu_URL :: string
  ciu_Detail :: string

record ChatFile =
  cfl_Filename :: string
  cfl_FileData :: string
  cfl_FileID :: string

record ChatContentPart =
  ccp_Type :: string
  ccp_Text :: string
  ccp_ImageURL :: "ChatImageURL option"
  ccp_File :: "ChatFile option"

record ChatFunction =
  cf_Name :: string
  cf_Description :: string
  cf_Parameters :: raw_json
  cf_Strict :: "bool option"

record ChatTool =
  ct_Type :: string
  ct_Function :: "ChatFunction option"
  ct_AllowedXHandles :: "string list"
  ct_ExcludedXHandles :: "string list"
  ct_FromDate :: string
  ct_ToDate :: string
  ct_EnableImageUnderstanding :: "bool option"
  ct_EnableVideoUnderstanding :: "bool option"

record ChatCompletionsRequest =
  cq_Model :: string
  cq_Messages :: "RequestChatMessage list"
  cq_Instructions :: string
  cq_MaxTokens :: "int option"
  cq_MaxCompletionTokens :: "int option"
  cq_Temperature :: "rat option"
  cq_TopP :: "rat option"
  cq_Stream :: bool
  cq_StreamOptions :: "bool option"   \<comment> \<open>\<open>include_usage\<close>\<close>
  cq_Tools :: "ChatTool list"
  cq_ParallelToolCalls :: "bool option"
  cq_ToolChoice :: raw_json
  cq_ReasoningEffort :: string
  cq_ServiceTier :: string
  cq_Stop :: raw_json
  cq_ResponseFormat :: raw_json
  cq_Functions :: "ChatFunction list"
  cq_FunctionCall :: raw_json

definition zero_ChatCompletionsRequest :: ChatCompletionsRequest where
  [zero_defs]: "zero_ChatCompletionsRequest =
     \<lparr>cq_Model = [], cq_Messages = [], cq_Instructions = [], cq_MaxTokens = None, cq_MaxCompletionTokens = None, cq_Temperature = None,
      cq_TopP = None, cq_Stream = False, cq_StreamOptions = None, cq_Tools = [], cq_ParallelToolCalls = None, cq_ToolChoice = None,
      cq_ReasoningEffort = [], cq_ServiceTier = [], cq_Stop = None, cq_ResponseFormat = None, cq_Functions = [], cq_FunctionCall = None\<rparr>"

subsection \<open>Encoding and decoding\<close>

definition enc_cache_control :: "AnthropicCacheControl \<Rightarrow> json" where
  "enc_cache_control c = JObj ((''type'', JStr (acc_Type c)) # mstr ''ttl'' (acc_TTL c))"

definition dec_cache_control :: "json \<Rightarrow> AnthropicCacheControl option" where
  "dec_cache_control j = do {
     kvs \<leftarrow> dec_object j; t \<leftarrow> fstr ''type'' kvs; ttl \<leftarrow> fstr ''ttl'' kvs;
     Some \<lparr>acc_Type = t, acc_TTL = ttl\<rparr>}"

definition enc_source :: "AnthropicImageSource \<Rightarrow> json" where
  "enc_source s = JObj [(''type'', JStr (ais_Type s)), (''media_type'', JStr (ais_MediaType s)), (''data'', JStr (ais_Data s))]"

definition dec_source :: "json \<Rightarrow> AnthropicImageSource option" where
  "dec_source j = do {
     kvs \<leftarrow> dec_object j; t \<leftarrow> fstr ''type'' kvs; m \<leftarrow> fstr ''media_type'' kvs; d \<leftarrow> fstr ''data'' kvs;
     Some \<lparr>ais_Type = t, ais_MediaType = m, ais_Data = d\<rparr>}"

text \<open>\<open>MarshalJSON\<close>: a text block always has its text and a thinking block its thinking.\<close>

definition block_members :: "RequestBlock \<Rightarrow> (string \<times> json) list" where
  "block_members b =
     (if qb_Type b = ''text'' then [(''text'', JStr (qb_Text b))]
      else if qb_Type b = ''thinking'' then [(''thinking'', JStr (qb_Thinking b))] else [])
     @ [(''type'', JStr (qb_Type b))] @ mptr enc_cache_control ''cache_control'' (qb_CacheControl b)
     @ (if qb_Type b = ''text'' then [] else mstr ''text'' (qb_Text b))
     @ (if qb_Type b = ''thinking'' then [] else mstr ''thinking'' (qb_Thinking b))
     @ mstr ''signature'' (qb_Signature b) @ mptr enc_source ''source'' (qb_Source b) @ mstr ''id'' (qb_ID b)
     @ mstr ''name'' (qb_Name b) @ mraw ''input'' (qb_Input b) @ mstr ''tool_use_id'' (qb_ToolUseID b)
     @ mraw ''content'' (qb_Content b) @ mbool ''is_error'' (qb_IsError b)"

definition enc_block :: "RequestBlock \<Rightarrow> json" where
  "enc_block b = JObj (block_members b)"

definition dec_block :: "json \<Rightarrow> RequestBlock option" where
  "dec_block j = do {
     kvs \<leftarrow> dec_object j; ty \<leftarrow> fstr ''type'' kvs; cc \<leftarrow> fptr dec_cache_control ''cache_control'' kvs; tx \<leftarrow> fstr ''text'' kvs;
     th \<leftarrow> fstr ''thinking'' kvs; sg \<leftarrow> fstr ''signature'' kvs; src \<leftarrow> fptr dec_source ''source'' kvs; i \<leftarrow> fstr ''id'' kvs;
     nm \<leftarrow> fstr ''name'' kvs; tu \<leftarrow> fstr ''tool_use_id'' kvs; er \<leftarrow> fbool ''is_error'' kvs;
     Some \<lparr>qb_Type = ty, qb_CacheControl = cc, qb_Text = tx, qb_Thinking = th, qb_Signature = sg, qb_Source = src, qb_ID = i,
       qb_Name = nm, qb_Input = field ''input'' kvs, qb_ToolUseID = tu, qb_Content = field ''content'' kvs, qb_IsError = er\<rparr>}"

definition enc_part :: "ResponsesContentPart \<Rightarrow> json" where
  "enc_part p = JObj ((''type'', JStr (rcp_Type p)) # mstr ''text'' (rcp_Text p) @ mstr ''image_url'' (rcp_ImageURL p)
     @ mstr ''filename'' (rcp_Filename p) @ mstr ''file_data'' (rcp_FileData p) @ mstr ''file_id'' (rcp_FileID p))"

definition dec_part :: "json \<Rightarrow> ResponsesContentPart option" where
  "dec_part j = do {
     kvs \<leftarrow> dec_object j; ty \<leftarrow> fstr ''type'' kvs; tx \<leftarrow> fstr ''text'' kvs; im \<leftarrow> fstr ''image_url'' kvs; fn \<leftarrow> fstr ''filename'' kvs;
     fd \<leftarrow> fstr ''file_data'' kvs; fi \<leftarrow> fstr ''file_id'' kvs;
     Some \<lparr>rcp_Type = ty, rcp_Text = tx, rcp_ImageURL = im, rcp_Filename = fn, rcp_FileData = fd, rcp_FileID = fi\<rparr>}"

definition item_members :: "ResponsesInputItem \<Rightarrow> (string \<times> json) list" where
  "item_members i = mstr ''type'' (ri_Type i) @ mstr ''role'' (ri_Role i) @ mraw ''content'' (ri_Content i)
     @ mstr ''encrypted_content'' (ri_EncryptedContent i) @ mstr ''call_id'' (ri_CallID i) @ mstr ''name'' (ri_Name i)
     @ mstr ''arguments'' (ri_Arguments i) @ mstr ''id'' (ri_ID i) @ mstr ''output'' (ri_Output i)"

definition enc_item :: "ResponsesInputItem \<Rightarrow> json" where
  "enc_item i = JObj (item_members i)"

text \<open>
  \<open>UnmarshalJSON\<close> of an item accepts an output that is not a string and keeps it. The argument gives the
  text of a document.
\<close>

definition set_output :: "(json \<Rightarrow> string) \<Rightarrow> raw_json \<Rightarrow> ResponsesInputItem \<Rightarrow> ResponsesInputItem" where
  "set_output text_of output i =
     (case output of
        None \<Rightarrow> i
      | Some j \<Rightarrow> if j = JNull then i
                  else case dec_string j of
                         Some s \<Rightarrow> i\<lparr>ri_Output := s\<rparr>
                       | None \<Rightarrow> i\<lparr>ri_outputRaw := Some j, ri_Output := text_of j\<rparr>)"

definition dec_item :: "(json \<Rightarrow> string) \<Rightarrow> json \<Rightarrow> ResponsesInputItem option" where
  "dec_item text_of j = do {
     kvs \<leftarrow> dec_object j; ty \<leftarrow> fstr ''type'' kvs; ro \<leftarrow> fstr ''role'' kvs; en \<leftarrow> fstr ''encrypted_content'' kvs;
     ci \<leftarrow> fstr ''call_id'' kvs; nm \<leftarrow> fstr ''name'' kvs; ar \<leftarrow> fstr ''arguments'' kvs; i \<leftarrow> fstr ''id'' kvs;
     Some (set_output text_of (field ''output'' kvs)
       \<lparr>ri_Type = ty, ri_Role = ro, ri_Content = field ''content'' kvs, ri_EncryptedContent = en, ri_CallID = ci, ri_Name = nm,
        ri_Arguments = ar, ri_ID = i, ri_Output = [], ri_outputRaw = None\<rparr>)}"

definition dec_image_url :: "json \<Rightarrow> ChatImageURL option" where
  "dec_image_url j = do {kvs \<leftarrow> dec_object j; u \<leftarrow> fstr ''url'' kvs; d \<leftarrow> fstr ''detail'' kvs; Some \<lparr>ciu_URL = u, ciu_Detail = d\<rparr>}"

definition dec_file :: "json \<Rightarrow> ChatFile option" where
  "dec_file j = do {
     kvs \<leftarrow> dec_object j; n \<leftarrow> fstr ''filename'' kvs; d \<leftarrow> fstr ''file_data'' kvs; i \<leftarrow> fstr ''file_id'' kvs;
     Some \<lparr>cfl_Filename = n, cfl_FileData = d, cfl_FileID = i\<rparr>}"

definition dec_chat_part :: "json \<Rightarrow> ChatContentPart option" where
  "dec_chat_part j = do {
     kvs \<leftarrow> dec_object j; t \<leftarrow> fstr ''type'' kvs; x \<leftarrow> fstr ''text'' kvs; i \<leftarrow> fptr dec_image_url ''image_url'' kvs;
     f \<leftarrow> fptr dec_file ''file'' kvs;
     Some \<lparr>ccp_Type = t, ccp_Text = x, ccp_ImageURL = i, ccp_File = f\<rparr>}"

subsection \<open>Round trips\<close>

lemma fold_names [simp]:
  "fold_name ''type'' = ''type''" "fold_name ''ttl'' = ''ttl''" "fold_name ''media_type'' = ''media_type''"
  "fold_name ''data'' = ''data''" "fold_name ''cache_control'' = ''cache_control''" "fold_name ''text'' = ''text''"
  "fold_name ''thinking'' = ''thinking''" "fold_name ''signature'' = ''signature''" "fold_name ''source'' = ''source''"
  "fold_name ''id'' = ''id''" "fold_name ''name'' = ''name''" "fold_name ''input'' = ''input''"
  "fold_name ''tool_use_id'' = ''tool_use_id''" "fold_name ''content'' = ''content''" "fold_name ''is_error'' = ''is_error''"
  "fold_name ''image_url'' = ''image_url''" "fold_name ''filename'' = ''filename''" "fold_name ''file_data'' = ''file_data''"
  "fold_name ''file_id'' = ''file_id''" "fold_name ''role'' = ''role''" "fold_name ''encrypted_content'' = ''encrypted_content''"
  "fold_name ''call_id'' = ''call_id''" "fold_name ''arguments'' = ''arguments''" "fold_name ''output'' = ''output''"
  by code_simp+

lemmas codec_defs = dec_object_def fstr_def fbool_def fptr_def field_append field_Cons

lemma dec_enc_cache_control: "dec_cache_control (enc_cache_control c) = Some c"
  by (simp add: enc_cache_control_def dec_cache_control_def codec_defs)

lemma dec_enc_source: "dec_source (enc_source s) = Some s"
  by (simp add: enc_source_def dec_source_def codec_defs)

interpretation cache_control_codec: json_object_codec enc_cache_control dec_cache_control "\<lambda>_. True"
  by unfold_locales (simp add: dec_enc_cache_control, simp add: enc_cache_control_def)

interpretation source_codec: json_object_codec enc_source dec_source "\<lambda>_. True"
  by unfold_locales (simp add: dec_enc_source, simp add: enc_source_def)

lemma fptr_cache_control: "field n kvs = map_option enc_cache_control p \<Longrightarrow> fptr dec_cache_control n kvs = Some p"
  by (cases p) (simp_all add: fptr_def cache_control_codec.dec_ptr_enc)

lemma fptr_source: "field n kvs = map_option enc_source p \<Longrightarrow> fptr dec_source n kvs = Some p"
  by (cases p) (simp_all add: fptr_def source_codec.dec_ptr_enc)

lemma block_members_fields:
  "fstr ''type'' (block_members b) = Some (qb_Type b)" "fstr ''text'' (block_members b) = Some (qb_Text b)"
  "fstr ''thinking'' (block_members b) = Some (qb_Thinking b)" "fstr ''signature'' (block_members b) = Some (qb_Signature b)"
  "fstr ''id'' (block_members b) = Some (qb_ID b)" "fstr ''name'' (block_members b) = Some (qb_Name b)"
  "fstr ''tool_use_id'' (block_members b) = Some (qb_ToolUseID b)" "fbool ''is_error'' (block_members b) = Some (qb_IsError b)"
  "field ''input'' (block_members b) = qb_Input b" "field ''content'' (block_members b) = qb_Content b"
  "field ''cache_control'' (block_members b) = map_option enc_cache_control (qb_CacheControl b)"
  "field ''source'' (block_members b) = map_option enc_source (qb_Source b)"
  by (simp_all add: block_members_def fstr_def fbool_def field_append field_Cons)

lemma dec_enc_block: "dec_block (enc_block b) = Some b"
  by (simp add: enc_block_def dec_block_def dec_object_def block_members_fields
      fptr_cache_control [OF block_members_fields(11)] fptr_source [OF block_members_fields(12)])

lemma dec_enc_part: "dec_part (enc_part p) = Some p"
  by (simp add: enc_part_def dec_part_def codec_defs)

lemma item_members_fields:
  "fstr ''type'' (item_members i) = Some (ri_Type i)" "fstr ''role'' (item_members i) = Some (ri_Role i)"
  "fstr ''encrypted_content'' (item_members i) = Some (ri_EncryptedContent i)" "fstr ''call_id'' (item_members i) = Some (ri_CallID i)"
  "fstr ''name'' (item_members i) = Some (ri_Name i)" "fstr ''arguments'' (item_members i) = Some (ri_Arguments i)"
  "fstr ''id'' (item_members i) = Some (ri_ID i)" "field ''content'' (item_members i) = ri_Content i"
  "field ''output'' (item_members i) = (if ri_Output i = [] then None else Some (JStr (ri_Output i)))"
  by (simp_all add: item_members_def fstr_def field_append field_Cons)

lemma dec_enc_item: "ri_outputRaw i = None \<Longrightarrow> dec_item text_of (enc_item i) = Some i"
  by (simp add: enc_item_def dec_item_def dec_object_def item_members_fields set_output_def)

interpretation block_codec: json_object_codec enc_block dec_block "\<lambda>_. True"
  by unfold_locales (simp add: dec_enc_block, simp add: enc_block_def)

interpretation part_codec: json_object_codec enc_part dec_part "\<lambda>_. True"
  by unfold_locales (simp add: dec_enc_part, simp add: enc_part_def)

interpretation item_codec: json_object_codec enc_item "dec_item text_of" "\<lambda>i. ri_outputRaw i = None" for text_of
  by unfold_locales (simp add: dec_enc_item, simp add: enc_item_def)

end
