(* ===== verification/Request_To_Anthropic.thy ===== *)
theory Request_To_Anthropic
  imports Request_Types
begin

text \<open>
  Conversion of a Responses request into an Anthropic request:
  \<open>pkg/apicompat/responses_to_anthropic_request.go\<close>.

  A Responses request carries a conversation as a flat list of items; Anthropic wants messages of
  alternating roles in which every tool call is answered by the next message. The converter turns each item
  into a message, merges neighbours of the same role, pairs calls with their results and merges again.
  Reading and printing a document as text are arguments; nothing is assumed of them.

  Shown, for every request: in the messages sent upstream roles alternate, every call of a message is
  answered by the following one and every result answers a call of the preceding one; apart from calls and
  results nothing is lost, added or reordered; exactly the calls that have a result survive, in order, each
  with the last result given for it.
\<close>

record json_text =
  jt_parse :: "string \<Rightarrow> json option"
  jt_text :: "json \<Rightarrow> string"

subsection \<open>Content\<close>

definition extractTextFromContent :: "raw_json \<Rightarrow> string" where
  "extractTextFromContent raw =
     (case raw of
        None \<Rightarrow> []
      | Some j \<Rightarrow>
          (case dec_string j of
             Some s \<Rightarrow> s
           | None \<Rightarrow>
               (case dec_list dec_part j of
                  Some parts \<Rightarrow>
                    Join (map rcp_Text (filter (\<lambda>p. (rcp_Type p = ''input_text'' \<or> rcp_Type p = ''output_text'' \<or> rcp_Type p = ''text'')
                        \<and> rcp_Text p \<noteq> []) parts)) [byte 10, byte 10]
                | None \<Rightarrow> [])))"

definition anthropicContentIsEmpty :: "raw_json \<Rightarrow> bool" where
  "anthropicContentIsEmpty content = (case content of None \<Rightarrow> True | Some j \<Rightarrow> j = JNull \<or> j = JStr [] \<or> j = JArr [])"

definition parseContentBlocks :: "raw_json \<Rightarrow> RequestBlock list" where
  "parseContentBlocks raw =
     (case unmarshal (dec_list dec_block) raw of
        Some blocks \<Rightarrow> blocks
      | None \<Rightarrow>
          (case unmarshal dec_string raw of
             Some s \<Rightarrow> [zero_RequestBlock\<lparr>qb_Type := ''text'', qb_Text := s\<rparr>]
           | None \<Rightarrow> []))"

definition anthropicContentIsOnlyBlankText :: "raw_json \<Rightarrow> bool" where
  "anthropicContentIsOnlyBlankText content =
     (let blocks = parseContentBlocks content
      in blocks \<noteq> [] \<and> list_all (\<lambda>b. qb_Type b = ''text'' \<and> TrimSpace (qb_Text b) = []) blocks)"

definition dataURIToAnthropicImageSource :: "string \<Rightarrow> AnthropicImageSource option" where
  "dataURIToAnthropicImageSource dataURI =
     (if \<not> HasPrefix dataURI ''data:'' then None
      else case split_at_byte (CHR '';'') (TrimPrefix dataURI ''data:'') of
             None \<Rightarrow> None
           | Some (mediaType, rest) \<Rightarrow>
               if \<not> HasPrefix rest ''base64,'' then None
               else Some \<lparr>ais_Type = ''base64'', ais_MediaType = mediaType, ais_Data = TrimPrefix rest ''base64,''\<rparr>)"

definition text_block :: "string \<Rightarrow> RequestBlock" where
  "text_block s = zero_RequestBlock\<lparr>qb_Type := ''text'', qb_Text := s\<rparr>"

definition image_block :: "AnthropicImageSource \<Rightarrow> RequestBlock" where
  "image_block src = zero_RequestBlock\<lparr>qb_Type := ''image'', qb_Source := Some src\<rparr>"

definition user_part_blocks :: "ResponsesContentPart \<Rightarrow> RequestBlock list" where
  "user_part_blocks p =
     (if rcp_Type p = ''input_text'' \<or> rcp_Type p = ''text'' then if rcp_Text p \<noteq> [] then [text_block (rcp_Text p)] else []
      else if rcp_Type p = ''input_image''
      then (case dataURIToAnthropicImageSource (rcp_ImageURL p) of Some src \<Rightarrow> [image_block src] | None \<Rightarrow> [])
      else [])"

definition convertResponsesUserToAnthropicContent :: "raw_json \<Rightarrow> raw_json" where
  "convertResponsesUserToAnthropicContent raw =
     (case raw of
        None \<Rightarrow> Some (JStr [])
      | Some j \<Rightarrow>
          (case dec_string j of
             Some s \<Rightarrow> Some (JStr s)
           | None \<Rightarrow>
               (case dec_list dec_part j of
                  None \<Rightarrow> raw
                | Some parts \<Rightarrow>
                    let blocks = gather user_part_blocks parts
                    in if blocks = [] then Some (JStr []) else Some (enc_list enc_block blocks))))"

definition assistant_part_blocks :: "ResponsesContentPart \<Rightarrow> RequestBlock list" where
  "assistant_part_blocks p =
     (if (rcp_Type p = ''output_text'' \<or> rcp_Type p = ''text'') \<and> rcp_Text p \<noteq> [] then [text_block (rcp_Text p)] else [])"

definition convertResponsesAssistantToAnthropicContent :: "raw_json \<Rightarrow> raw_json" where
  "convertResponsesAssistantToAnthropicContent raw =
     (case raw of
        None \<Rightarrow> Some (enc_list enc_block [text_block []])
      | Some j \<Rightarrow>
          (case dec_string j of
             Some s \<Rightarrow> Some (enc_list enc_block [text_block s])
           | None \<Rightarrow>
               (case dec_list dec_part j of
                  None \<Rightarrow> raw
                | Some parts \<Rightarrow>
                    let blocks = gather assistant_part_blocks parts;
                        blocks = (if blocks = [] then [text_block []] else blocks)
                    in Some (enc_list enc_block blocks))))"

definition output_part_blocks :: "ResponsesContentPart \<Rightarrow> RequestBlock list" where
  "output_part_blocks p =
     (if rcp_Type p = ''input_text'' \<or> rcp_Type p = ''output_text'' \<or> rcp_Type p = ''text''
      then if rcp_Text p \<noteq> [] then [text_block (rcp_Text p)] else []
      else if rcp_Type p = ''input_image''
      then (case dataURIToAnthropicImageSource (rcp_ImageURL p) of Some src \<Rightarrow> [image_block src] | None \<Rightarrow> [])
      else [])"

definition responsesFunctionOutputToAnthropicContent :: "ResponsesInputItem \<Rightarrow> raw_json" where
  "responsesFunctionOutputToAnthropicContent item =
     (case ri_outputRaw item of
        None \<Rightarrow> Some (JStr (if ri_Output item = [] then ''(empty)'' else ri_Output item))
      | Some j \<Rightarrow>
          (case dec_list dec_part j of
             Some parts \<Rightarrow>
               let blocks = gather output_part_blocks parts
               in if blocks \<noteq> [] then Some (enc_list enc_block blocks)
                  else if parts = [] then Some (JStr ''(empty)'') else Some (JStr (ri_Output item))
           | None \<Rightarrow> Some (JStr (ri_Output item))))"

definition fromResponsesCallIDToAnthropic :: "string \<Rightarrow> string" where
  "fromResponsesCallIDToAnthropic cid =
     (case CutPrefix cid ''fc_'' of (after, ok) \<Rightarrow>
        if ok \<and> (HasPrefix after ''toolu_'' \<or> HasPrefix after ''call_'') then after
        else if \<not> HasPrefix cid ''toolu_'' \<and> \<not> HasPrefix cid ''call_'' then ''toolu_'' @ cid
        else cid)"

subsection \<open>Messages\<close>

definition anthropicMessageFromBlocks :: "string \<Rightarrow> RequestBlock list \<Rightarrow> AnthropicMessage" where
  "anthropicMessageFromBlocks role blocks = \<lparr>am_Role = role, am_Content = Some (enc_list enc_block blocks)\<rparr>"

definition merge_message :: "AnthropicMessage list \<Rightarrow> AnthropicMessage \<Rightarrow> AnthropicMessage list" where
  "merge_message merged msg =
     (if merged = [] \<or> am_Role (last merged) \<noteq> am_Role msg then merged @ [msg]
      else butlast merged @
        [(last merged)\<lparr>am_Content :=
            Some (enc_list enc_block (parseContentBlocks (am_Content (last merged)) @ parseContentBlocks (am_Content msg)))\<rparr>])"

definition mergeConsecutiveMessages :: "AnthropicMessage list \<Rightarrow> AnthropicMessage list" where
  "mergeConsecutiveMessages messages = (if length messages \<le> 1 then messages else foldl merge_message [] messages)"

definition is_result :: "RequestBlock \<Rightarrow> bool" where
  "is_result b \<longleftrightarrow> qb_Type b = ''tool_result''"

definition is_use :: "RequestBlock \<Rightarrow> bool" where
  "is_use b \<longleftrightarrow> qb_Type b = ''tool_use''"

text \<open>The index of the results: a later result for the same call replaces an earlier one.\<close>

definition index_result :: "(string \<rightharpoonup> RequestBlock) \<Rightarrow> RequestBlock \<Rightarrow> (string \<rightharpoonup> RequestBlock)" where
  "index_result results b = (if is_result b \<and> qb_ToolUseID b \<noteq> [] then results(qb_ToolUseID b \<mapsto> b) else results)"

definition index_message :: "(string \<rightharpoonup> RequestBlock) \<Rightarrow> AnthropicMessage \<Rightarrow> (string \<rightharpoonup> RequestBlock)" where
  "index_message results m =
     (if am_Role m \<noteq> ''user'' then results else foldl index_result results (parseContentBlocks (am_Content m)))"

definition pair_message :: "(string \<rightharpoonup> RequestBlock) \<Rightarrow> AnthropicMessage \<Rightarrow> AnthropicMessage list" where
  "pair_message results m =
     (let blocks = parseContentBlocks (am_Content m) in
      if am_Role m = ''assistant'' then
        let toolUses = filter is_use blocks; others = filter (\<lambda>b. \<not> is_use b) blocks in
        if toolUses = [] then [m]
        else let kept = filter (\<lambda>tu. results (qb_ID tu) \<noteq> None) toolUses in
             if kept = [] then if others \<noteq> [] then [anthropicMessageFromBlocks ''assistant'' others] else []
             else [anthropicMessageFromBlocks ''assistant'' (others @ kept),
                   anthropicMessageFromBlocks ''user'' (map (\<lambda>tu. the (results (qb_ID tu))) kept)]
      else if am_Role m = ''user'' then
        let nonResult = filter (\<lambda>b. \<not> is_result b) blocks in
        if list_ex is_result blocks
        then if nonResult \<noteq> [] then [anthropicMessageFromBlocks ''user'' nonResult] else []
        else [m]
      else [m])"

definition normalizeAnthropicToolPairing :: "AnthropicMessage list \<Rightarrow> AnthropicMessage list" where
  "normalizeAnthropicToolPairing messages =
     gather (pair_message (foldl index_message (\<lambda>_. None) messages)) messages"

text \<open>
  One item of the input. A block whose arguments are not a document cannot be encoded; the error is
  ignored and the message has no content.
\<close>

definition convert_item :: "json_text \<Rightarrow> string list \<times> AnthropicMessage list \<Rightarrow> ResponsesInputItem \<Rightarrow> string list \<times> AnthropicMessage list" where
  "convert_item lib acc item =
     (case acc of (systemParts, messages) \<Rightarrow>
        if ri_Role item = ''system'' \<or> ri_Role item = ''developer'' then
          let txt = extractTextFromContent (ri_Content item)
          in if txt \<noteq> [] then (systemParts @ [txt], messages) else (systemParts, messages)
        else if ri_Type item = ''function_call'' then
          let input = (if ri_Arguments item \<noteq> [] then jt_parse lib (ri_Arguments item) else Some (JObj []));
              block = zero_RequestBlock\<lparr>qb_Type := ''tool_use'', qb_ID := fromResponsesCallIDToAnthropic (ri_CallID item),
                        qb_Name := ri_Name item, qb_Input := input\<rparr>
          in (systemParts, messages @
               [\<lparr>am_Role = ''assistant'', am_Content = (if input = None then None else Some (enc_list enc_block [block]))\<rparr>])
        else if ri_Type item = ''function_call_output'' then
          let block = zero_RequestBlock\<lparr>qb_Type := ''tool_result'', qb_ToolUseID := fromResponsesCallIDToAnthropic (ri_CallID item),
                        qb_Content := responsesFunctionOutputToAnthropicContent item\<rparr>
          in (systemParts, messages @ [\<lparr>am_Role = ''user'', am_Content = Some (enc_list enc_block [block])\<rparr>])
        else if ri_Type item = ''reasoning'' then acc
        else if ri_Role item = ''user'' then
          let content = convertResponsesUserToAnthropicContent (ri_Content item)
          in if anthropicContentIsEmpty content then acc
             else (systemParts, messages @ [\<lparr>am_Role = ''user'', am_Content = content\<rparr>])
        else if ri_Role item = ''assistant'' then
          let content = convertResponsesAssistantToAnthropicContent (ri_Content item)
          in if anthropicContentIsEmpty content \<or> anthropicContentIsOnlyBlankText content then acc
             else (systemParts, messages @ [\<lparr>am_Role = ''assistant'', am_Content = content\<rparr>])
        else if ri_Content item = None then acc
        else
          let content = convertResponsesUserToAnthropicContent (ri_Content item)
          in if anthropicContentIsEmpty content then acc
             else (systemParts, messages @ [\<lparr>am_Role = ''user'', am_Content = content\<rparr>]))"

definition marshal_system :: "string list \<Rightarrow> raw_json" where
  "marshal_system systemParts = (if systemParts \<noteq> [] then Some (JStr (Join systemParts [byte 10, byte 10])) else None)"

definition repair_messages :: "AnthropicMessage list \<Rightarrow> AnthropicMessage list" where
  "repair_messages messages = mergeConsecutiveMessages (normalizeAnthropicToolPairing (mergeConsecutiveMessages messages))"

definition convertResponsesInputToAnthropic ::
  "json_text \<Rightarrow> string \<Rightarrow> raw_json \<Rightarrow> (raw_json \<times> AnthropicMessage list) option" where
  "convertResponsesInputToAnthropic lib instructions inputRaw =
     (let systemParts = (if TrimSpace instructions \<noteq> [] then [TrimSpace instructions] else []) in
      case unmarshal dec_string inputRaw of
        Some inputStr \<Rightarrow> Some (marshal_system systemParts, [\<lparr>am_Role = ''user'', am_Content = Some (JStr inputStr)\<rparr>])
      | None \<Rightarrow>
          (case unmarshal (dec_list (dec_item (jt_text lib))) inputRaw of
             None \<Rightarrow> None
           | Some items \<Rightarrow>
               (case foldl (convert_item lib) (systemParts, []) items of
                  (systemParts, messages) \<Rightarrow> Some (marshal_system systemParts, repair_messages messages))))"

subsection \<open>Tools and parameters\<close>

definition key :: "string \<Rightarrow> (string \<times> json) list \<Rightarrow> raw_json" where
  "key n kvs = map_of (rev kvs) n"

definition set_key :: "string \<Rightarrow> json \<Rightarrow> (string \<times> json) list \<Rightarrow> (string \<times> json) list" where
  "set_key n v kvs = filter (\<lambda>kv. fst kv \<noteq> n) kvs @ [(n, v)]"

definition emptyObjectSchema :: json where
  "emptyObjectSchema = JObj [(''type'', JStr ''object''), (''properties'', JObj [])]"

definition with_properties :: "(string \<times> json) list \<Rightarrow> json" where
  "with_properties m = JObj (if key ''properties'' m = None then set_key ''properties'' (JObj []) m else m)"

definition normalizeAnthropicInputSchema :: "raw_json \<Rightarrow> json" where
  "normalizeAnthropicInputSchema schema =
     (case schema of
        None \<Rightarrow> emptyObjectSchema
      | Some (JObj m) \<Rightarrow>
          (case key ''type'' m of
             None \<Rightarrow> with_properties (set_key ''type'' (JStr ''object'') m)
           | Some JNull \<Rightarrow> with_properties (set_key ''type'' (JStr ''object'') m)
           | Some typeRaw \<Rightarrow> if dec_string typeRaw = Some ''object'' then with_properties m else emptyObjectSchema)
      | Some _ \<Rightarrow> emptyObjectSchema)"

definition responses_tool :: "ResponsesTool \<Rightarrow> AnthropicTool" where
  "responses_tool t =
     (if rt_Type t \<in> {''web_search'', ''google_search'', ''web_search_20250305''}
      then zero_AnthropicTool\<lparr>atl_Type := ''web_search_20250305'', atl_Name := ''web_search''\<rparr>
      else if rt_Type t \<in> {''function'', ''custom''}
      then zero_AnthropicTool\<lparr>atl_Name := rt_Name t, atl_Description := rt_Description t,
             atl_InputSchema := Some (normalizeAnthropicInputSchema (rt_Parameters t))\<rparr>
      else zero_AnthropicTool\<lparr>atl_Type := rt_Type t, atl_Name := rt_Name t, atl_Description := rt_Description t,
             atl_InputSchema := Some (normalizeAnthropicInputSchema (rt_Parameters t))\<rparr>)"

definition convertResponsesToAnthropicTools :: "ResponsesTool list \<Rightarrow> AnthropicTool list" where
  "convertResponsesToAnthropicTools tools = map responses_tool tools"

definition dec_tool_choice :: "json \<Rightarrow> (string \<times> string \<times> string) option" where
  "dec_tool_choice j = do {
     kvs \<leftarrow> dec_object j; ty \<leftarrow> fstr ''type'' kvs; nm \<leftarrow> fstr ''name'' kvs;
     fn \<leftarrow> (case field ''function'' kvs of None \<Rightarrow> Some [] | Some f \<Rightarrow> Option.bind (dec_object f) (fstr ''name''));
     Some (ty, nm, fn)}"

definition convertResponsesToAnthropicToolChoice :: "json \<Rightarrow> json" where
  "convertResponsesToAnthropicToolChoice raw =
     (case dec_string raw of
        Some s \<Rightarrow>
          if s = ''auto'' then JObj [(''type'', JStr ''auto'')]
          else if s = ''required'' then JObj [(''type'', JStr ''any'')]
          else if s = ''none'' then JObj [(''type'', JStr ''none'')]
          else raw
      | None \<Rightarrow>
          (case dec_tool_choice raw of
             Some (ty, nm, fn) \<Rightarrow>
               if ty = ''function'' then
                 let name = (if TrimSpace nm = [] then TrimSpace fn else TrimSpace nm)
                 in if name = [] then raw else JObj [(''name'', JStr name), (''type'', JStr ''tool'')]
               else raw
           | None \<Rightarrow> raw))"

definition defaultThinkingBudget :: "string \<Rightarrow> int" where
  "defaultThinkingBudget effort =
     (if effort = ''low'' then 1024 else if effort = ''medium'' then 4096 else if effort = ''high'' then 10240
      else if effort = ''max'' then 32768 else 10240)"

definition mapResponsesEffortToAnthropic :: "string \<Rightarrow> string" where
  "mapResponsesEffortToAnthropic effort = (if effort = ''xhigh'' then ''max'' else effort)"

definition ResponsesToAnthropicRequest :: "json_text \<Rightarrow> ResponsesRequest \<Rightarrow> AnthropicRequest option" where
  "ResponsesToAnthropicRequest lib req =
     (case convertResponsesInputToAnthropic lib (rq_Instructions req) (rq_Input req) of
        None \<Rightarrow> None
      | Some (system, messages) \<Rightarrow>
          let maxTokens = (case rq_MaxOutputTokens req of Some v \<Rightarrow> if 0 < v then v else 0 | None \<Rightarrow> 0);
              effort = (case rq_Reasoning req of Some r \<Rightarrow> rrs_Effort r | None \<Rightarrow> []);
              mapped = mapResponsesEffortToAnthropic effort
          in Some (zero_AnthropicRequest
               \<lparr>aq_Model := rq_Model req, aq_Messages := messages, aq_Temperature := rq_Temperature req, aq_TopP := rq_TopP req,
                aq_Stream := rq_Stream req, aq_System := system, aq_MaxTokens := (if maxTokens = 0 then 8192 else maxTokens),
                aq_Tools := convertResponsesToAnthropicTools (rq_Tools req),
                aq_ToolChoice := map_option convertResponsesToAnthropicToolChoice (rq_ToolChoice req),
                aq_OutputConfig := (if effort \<noteq> [] then Some mapped else None),
                aq_Thinking := (if effort \<noteq> [] \<and> mapped \<noteq> ''low''
                                then Some \<lparr>ath_Type = ''enabled'', ath_BudgetTokens = defaultThinkingBudget mapped\<rparr> else None)\<rparr>))"

subsection \<open>Conversations\<close>

text \<open>What a message says apart from tool calls and results, the calls it makes and the results it gives.\<close>

definition spoken :: "AnthropicMessage list \<Rightarrow> (string \<times> RequestBlock) list" where
  "spoken = gather (\<lambda>m. map (Pair (am_Role m))
     (filter (\<lambda>b. \<not> (am_Role m = ''assistant'' \<and> is_use b) \<and> \<not> (am_Role m = ''user'' \<and> is_result b)) (parseContentBlocks (am_Content m))))"

definition calls :: "AnthropicMessage list \<Rightarrow> RequestBlock list" where
  "calls = gather (\<lambda>m. if am_Role m = ''assistant'' then filter is_use (parseContentBlocks (am_Content m)) else [])"

definition results :: "AnthropicMessage list \<Rightarrow> RequestBlock list" where
  "results = gather (\<lambda>m. if am_Role m = ''user'' then filter is_result (parseContentBlocks (am_Content m)) else [])"

definition last_result :: "AnthropicMessage list \<Rightarrow> string \<Rightarrow> RequestBlock option" where
  "last_result ms cid = (if cid = [] then None else find (\<lambda>b. qb_ToolUseID b = cid) (rev (results ms)))"

text \<open>Every result answers a call of the message before, and every call is answered by the message after.\<close>

fun tool_paired :: "string set \<Rightarrow> AnthropicMessage list \<Rightarrow> bool" where
  "tool_paired called [] \<longleftrightarrow> called = {}"
| "tool_paired called (m # ms) \<longleftrightarrow>
     set (map qb_ToolUseID (results [m])) = called \<and> tool_paired (set (map qb_ID (calls [m]))) ms"

definition alternating :: "AnthropicMessage list \<Rightarrow> bool" where
  "alternating ms \<longleftrightarrow> successively (\<lambda>a b. am_Role a \<noteq> am_Role b) ms"

lemma conversation_append:
  "spoken (xs @ ys) = spoken xs @ spoken ys" "calls (xs @ ys) = calls xs @ calls ys" "results (xs @ ys) = results xs @ results ys"
  by (simp_all add: spoken_def calls_def results_def)

lemma conversation_Nil [simp]: "spoken [] = []" "calls [] = []" "results [] = []"
  by (simp_all add: spoken_def calls_def results_def)

lemma conversation_Cons:
  "spoken (m # ms) = spoken [m] @ spoken ms" "calls (m # ms) = calls [m] @ calls ms" "results (m # ms) = results [m] @ results ms"
  by (simp_all add: spoken_def calls_def results_def)

lemma conversation_single:
  "spoken [m] = map (Pair (am_Role m))
     (filter (\<lambda>b. \<not> (am_Role m = ''assistant'' \<and> is_use b) \<and> \<not> (am_Role m = ''user'' \<and> is_result b)) (parseContentBlocks (am_Content m)))"
  "calls [m] = (if am_Role m = ''assistant'' then filter is_use (parseContentBlocks (am_Content m)) else [])"
  "results [m] = (if am_Role m = ''user'' then filter is_result (parseContentBlocks (am_Content m)) else [])"
  by (simp_all add: spoken_def calls_def results_def)

lemma parse_enc [simp]: "parseContentBlocks (Some (enc_list enc_block bs)) = bs"
  by (simp add: parseContentBlocks_def unmarshal_def block_codec.dec_enc_list list_all_iff)

subsection \<open>Merging\<close>

definition join_messages :: "AnthropicMessage \<Rightarrow> AnthropicMessage \<Rightarrow> AnthropicMessage" where
  "join_messages a b = a\<lparr>am_Content := Some (enc_list enc_block (parseContentBlocks (am_Content a) @ parseContentBlocks (am_Content b)))\<rparr>"

text \<open>The loop as a recursion from the front.\<close>

fun merge_from :: "AnthropicMessage \<Rightarrow> AnthropicMessage list \<Rightarrow> AnthropicMessage list" where
  "merge_from m [] = [m]"
| "merge_from m (x # xs) = (if am_Role m = am_Role x then merge_from (join_messages m x) xs else m # merge_from x xs)"

lemma foldl_merge: "foldl merge_message (acc @ [m]) xs = acc @ merge_from m xs"
proof (induction xs arbitrary: acc m)
  case (Cons x xs)
  show ?case
  proof (cases "am_Role m = am_Role x")
    case True
    then show ?thesis using Cons.IH [of acc "join_messages m x"] by (simp add: merge_message_def join_messages_def)
  next
    case False
    then show ?thesis using Cons.IH [of "acc @ [m]" x] by (simp add: merge_message_def)
  qed
qed simp

lemma merge_eq: "mergeConsecutiveMessages ms = (case ms of [] \<Rightarrow> [] | m # xs \<Rightarrow> merge_from m xs)"
proof (cases ms)
  case (Cons m xs)
  then show ?thesis
    using foldl_merge [of "[]" m xs] by (cases xs) (simp_all add: mergeConsecutiveMessages_def merge_message_def)
qed (simp add: mergeConsecutiveMessages_def)

lemma join_messages_conversation:
  assumes "am_Role a = am_Role b"
  shows "spoken [join_messages a b] = spoken [a] @ spoken [b]" "calls [join_messages a b] = calls [a] @ calls [b]"
    "results [join_messages a b] = results [a] @ results [b]"
  using assms by (simp_all add: conversation_single join_messages_def)

lemma merge_from_conversation:
  "spoken (merge_from m xs) = spoken (m # xs) \<and> calls (merge_from m xs) = calls (m # xs) \<and> results (merge_from m xs) = results (m # xs)"
proof (induction m xs rule: merge_from.induct)
  case (2 m x xs)
  then show ?case
    by (cases "am_Role m = am_Role x")
      (simp_all add: conversation_Cons [of _ "x # xs"] conversation_Cons [of _ xs] join_messages_conversation
        conversation_Cons [of _ "merge_from x xs"])
qed simp

lemma merge_conversation:
  "spoken (mergeConsecutiveMessages ms) = spoken ms" "calls (mergeConsecutiveMessages ms) = calls ms"
  "results (mergeConsecutiveMessages ms) = results ms"
  by (cases ms, simp_all add: merge_eq merge_from_conversation)+

lemma merge_from_alternating:
  "successively (\<lambda>a b. am_Role a \<noteq> am_Role b) (merge_from m xs) \<and> merge_from m xs \<noteq> [] \<and> am_Role (hd (merge_from m xs)) = am_Role m"
proof (induction m xs rule: merge_from.induct)
  case (2 m x xs)
  then show ?case
    by (cases "am_Role m = am_Role x") (auto simp: join_messages_def successively_Cons)
qed simp

lemma merge_alternating: "alternating (mergeConsecutiveMessages ms)"
  by (cases ms) (simp_all add: merge_eq alternating_def merge_from_alternating)

text \<open>Messages of one role cannot both call and answer, so merging two neighbours keeps the pairing.\<close>

lemma merge_from_paired: "tool_paired C (m # xs) \<Longrightarrow> tool_paired C (merge_from m xs)"
proof (induction m xs arbitrary: C rule: merge_from.induct)
  case (2 m x xs)
  show ?case
  proof (cases "am_Role m = am_Role x")
    case True
    have "set (map qb_ToolUseID (results [x])) = set (map qb_ID (calls [m]))" using "2.prems" by simp
    moreover have "results [x] = [] \<or> calls [m] = []" using True by (simp add: conversation_single)
    ultimately have "results [x] = []" "calls [m] = []" by auto
    then have "tool_paired C (join_messages m x # xs)" using "2.prems" True by (simp add: join_messages_conversation)
    then show ?thesis using True "2.IH"(1) by simp
  qed (use 2 in simp)
qed simp

lemma merge_paired: "tool_paired C ms \<Longrightarrow> tool_paired C (mergeConsecutiveMessages ms)"
  by (cases ms) (simp_all add: merge_eq merge_from_paired)

subsection \<open>Pairing\<close>

lemma foldl_index_result:
  "foldl index_result R bs cid =
     (case (if cid = [] then None else find (\<lambda>b. qb_ToolUseID b = cid) (rev (filter is_result bs))) of None \<Rightarrow> R cid | Some b \<Rightarrow> Some b)"
  by (induction bs rule: rev_induct) (auto simp: index_result_def)

lemma foldl_index_message:
  "foldl index_message R ms cid = (case last_result ms cid of None \<Rightarrow> R cid | Some b \<Rightarrow> Some b)"
proof (induction ms rule: rev_induct)
  case (snoc m ms)
  have "find P (xs @ ys) = (case find P xs of None \<Rightarrow> find P ys | Some b \<Rightarrow> Some b)" for P and xs ys :: "RequestBlock list"
    by (induction xs) simp_all
  then show ?case
    using snoc by (auto simp: index_message_def foldl_index_result last_result_def conversation_append conversation_single split: option.splits)
qed (simp add: last_result_def)

lemma index_eq: "foldl index_message (\<lambda>_. None) ms = last_result ms"
  by (rule ext) (simp add: foldl_index_message split: option.splits)

lemma last_result_Some: "last_result ms cid = Some b \<Longrightarrow> is_result b \<and> qb_ToolUseID b = cid"
  by (auto simp: last_result_def results_def gather_def dest!: find_SomeD split: if_splits)

lemma normalize_eq: "normalizeAnthropicToolPairing ms = gather (pair_message (last_result ms)) ms"
  by (simp add: normalizeAnthropicToolPairing_def index_eq)

definition answered :: "(string \<rightharpoonup> RequestBlock) \<Rightarrow> RequestBlock \<Rightarrow> bool" where
  "answered R c \<longleftrightarrow> R (qb_ID c) \<noteq> None"

text \<open>What pairing relies on: the index gives for a call a result that answers it.\<close>

locale result_index =
  fixes R :: "string \<rightharpoonup> RequestBlock"
  assumes R: "R cid = Some b \<Longrightarrow> is_result b \<and> qb_ToolUseID b = cid"
begin

lemma result_blocks:
  assumes "list_all (\<lambda>tu. R (qb_ID tu) \<noteq> None) kept"
  shows "filter is_result (map (\<lambda>tu. the (R (qb_ID tu))) kept) = map (\<lambda>tu. the (R (qb_ID tu))) kept"
    and "filter (\<lambda>b. \<not> is_result b) (map (\<lambda>tu. the (R (qb_ID tu))) kept) = []"
    and "map qb_ToolUseID (map (\<lambda>tu. the (R (qb_ID tu))) kept) = map qb_ID kept"
  using assms R by (induction kept) auto

lemma pair_message_cases:
  obtains (same) "pair_message R m = [m]" "calls [m] = []" "results [m] = []"
  | (dropped) "pair_message R m = []" "spoken [m] = []" "filter (answered R) (calls [m]) = []"
  | (stripped) m' where "pair_message R m = [m']" "spoken [m'] = spoken [m]" "calls [m'] = []" "results [m'] = []"
      "filter (answered R) (calls [m]) = []"
  | (answered) a u where "pair_message R m = [a, u]" "spoken [a] = spoken [m]" "spoken [u] = []" "calls [u] = []" "results [a] = []"
      "calls [a] = filter (answered R) (calls [m])" "results [u] = map (\<lambda>c. the (R (qb_ID c))) (calls [a])"
      "map qb_ToolUseID (results [u]) = map qb_ID (calls [a])"
proof -
  let ?bs = "parseContentBlocks (am_Content m)"
  consider (a) "am_Role m = ''assistant''" | (u) "am_Role m = ''user''" | (o) "am_Role m \<noteq> ''assistant''" "am_Role m \<noteq> ''user''" by blast
  then show thesis
  proof cases
    case a
    define kept where "kept = filter (answered R) (filter is_use ?bs)"
    define others where "others = filter (\<lambda>b. \<not> is_use b) ?bs"
    have sp: "spoken [m] = map (Pair ''assistant'') others" "calls [m] = filter is_use ?bs" "results [m] = []"
      using a by (simp_all add: conversation_single others_def)
    have pm: "pair_message R m = (if filter is_use ?bs = [] then [m]
         else if kept = [] then if others \<noteq> [] then [anthropicMessageFromBlocks ''assistant'' others] else []
         else [anthropicMessageFromBlocks ''assistant'' (others @ kept), anthropicMessageFromBlocks ''user'' (map (\<lambda>c. the (R (qb_ID c))) kept)])"
      using a by (simp add: pair_message_def Let_def kept_def others_def answered_def)
    show thesis
    proof (cases "filter is_use ?bs = [] \<or> kept = []")
      case True
      then show thesis
        using same stripped [of "anthropicMessageFromBlocks ''assistant'' others"] dropped pm sp
        by (auto simp: conversation_single anthropicMessageFromBlocks_def others_def kept_def split: if_splits)
    next
      case False
      have k: "list_all (\<lambda>tu. R (qb_ID tu) \<noteq> None) kept" by (auto simp: kept_def answered_def list_all_iff)
      have uses: "filter is_use kept = kept" "filter (\<lambda>b. \<not> is_use b) kept = []" "filter is_use others = []" "filter (\<lambda>b. \<not> is_use b) others = others"
        unfolding filter_id_conv filter_empty_conv by (auto simp: kept_def others_def)
      show thesis
        by (rule answered [of "anthropicMessageFromBlocks ''assistant'' (others @ kept)"
              "anthropicMessageFromBlocks ''user'' (map (\<lambda>c. the (R (qb_ID c))) kept)"])
          (use False pm sp uses result_blocks [OF k] kept_def [symmetric] in \<open>simp_all add: conversation_single anthropicMessageFromBlocks_def del: filter_filter\<close>)
    qed
  next
    case u
    show thesis
    proof (cases "list_ex is_result ?bs")
      case True
      define rest where "rest = filter (\<lambda>b. \<not> is_result b) ?bs"
      have "pair_message R m = (if rest \<noteq> [] then [anthropicMessageFromBlocks ''user'' rest] else [])"
        using u True by (simp add: pair_message_def rest_def Let_def)
      moreover have "filter is_result rest = []" "filter (\<lambda>b. \<not> is_result b) rest = rest" by (auto simp: rest_def filter_empty_conv)
      moreover have "spoken [m] = map (Pair ''user'') rest" "calls [m] = []" using u by (simp_all add: conversation_single rest_def)
      ultimately show thesis
        using dropped stripped [of "anthropicMessageFromBlocks ''user'' rest"]
        by (auto simp: conversation_single anthropicMessageFromBlocks_def split: if_splits)
    next
      case False
      then have "filter is_result ?bs = []" by (auto simp: filter_empty_conv list_ex_iff)
      then show thesis using same u False by (simp add: pair_message_def conversation_single Let_def)
    qed
  next
    case o
    then show thesis using same by (simp add: pair_message_def conversation_single Let_def)
  qed
qed

lemma pair_conversation:
  "spoken (pair_message R m) = spoken [m]" "calls (pair_message R m) = filter (answered R) (calls [m])"
  "results (pair_message R m) = map (\<lambda>c. the (R (qb_ID c))) (calls (pair_message R m))"
  by (cases m rule: pair_message_cases; simp add: conversation_Cons [of _ "[_]"])+

lemma pair_paired: "tool_paired {} ms \<Longrightarrow> tool_paired {} (pair_message R m @ ms)"
  by (cases m rule: pair_message_cases) simp_all

lemma gather_conversation:
  "spoken (gather (pair_message R) ms) = spoken ms" "calls (gather (pair_message R) ms) = filter (answered R) (calls ms)"
  "results (gather (pair_message R) ms) = map (\<lambda>c. the (R (qb_ID c))) (calls (gather (pair_message R) ms))"
proof (induction ms)
  case (Cons m ms)
  { case 1 then show ?case using Cons conversation_Cons [of m ms] by (simp add: conversation_append pair_conversation) }
  { case 2 then show ?case using Cons conversation_Cons [of m ms] by (simp add: conversation_append pair_conversation) }
  { case 3 then show ?case using Cons conversation_Cons [of m ms] by (simp add: conversation_append pair_conversation) }
qed simp_all

lemma gather_paired: "tool_paired {} (gather (pair_message R) ms)"
  by (induction ms) (simp_all add: pair_paired)

end

interpretation last_results: result_index "last_result ms" for ms
  by unfold_locales (rule last_result_Some)

lemma last_result_merge [simp]: "last_result (mergeConsecutiveMessages ms) = last_result ms"
  by (rule ext) (simp add: last_result_def merge_conversation)

lemma repair_paired: "tool_paired {} (repair_messages ms)"
  by (simp add: repair_messages_def normalize_eq merge_paired last_results.gather_paired)

lemma repair_conversation:
  "spoken (repair_messages ms) = spoken ms" "calls (repair_messages ms) = filter (\<lambda>c. last_result ms (qb_ID c) \<noteq> None) (calls ms)"
  "results (repair_messages ms) = map (\<lambda>c. the (last_result ms (qb_ID c))) (calls (repair_messages ms))"
  by (simp_all add: repair_messages_def merge_conversation normalize_eq last_results.gather_conversation answered_def [abs_def])

subsection \<open>Properties\<close>

lemma repair_alternating: "alternating (repair_messages ms)"
  by (simp add: repair_messages_def merge_alternating)

lemma convert_request_messages:
  assumes "ResponsesToAnthropicRequest lib req = Some out"
  obtains (plain) s where "aq_Messages out = [\<lparr>am_Role = ''user'', am_Content = Some (JStr s)\<rparr>]"
  | (items) items sys ms where "unmarshal (dec_list (dec_item (jt_text lib))) (rq_Input req) = Some items"
      "foldl (convert_item lib) (if TrimSpace (rq_Instructions req) \<noteq> [] then [TrimSpace (rq_Instructions req)] else [], []) items = (sys, ms)"
      "aq_Messages out = repair_messages ms"
  using assms
  by (fastforce simp: ResponsesToAnthropicRequest_def convertResponsesInputToAnthropic_def Let_def zero_defs split: option.splits prod.splits)

lemma convert_request_defined:
  "convertResponsesInputToAnthropic lib (rq_Instructions req) (rq_Input req) \<noteq> None \<Longrightarrow> \<exists>out. ResponsesToAnthropicRequest lib req = Some out"
  by (auto simp: ResponsesToAnthropicRequest_def Let_def)

text \<open>
  (C17) Tool calls and results are paired. In the messages of every converted request the roles alternate,
  every tool call is answered by the message that follows it, and every tool result answers a call of the
  message before it, whatever the history looked like: calls without results, results without calls,
  results that come late, repeated or unreadable items.
\<close>

theorem tool_calls_paired:
  assumes "ResponsesToAnthropicRequest lib req = Some out"
  shows "alternating (aq_Messages out) \<and> tool_paired {} (aq_Messages out)"
  using assms
proof (cases rule: convert_request_messages)
  case (plain s)
  have "parseContentBlocks (Some (JStr s)) = [text_block s]"
    by (simp add: parseContentBlocks_def unmarshal_def text_block_def)
  then show ?thesis
    using plain by (simp add: alternating_def conversation_single text_block_def is_result_def zero_defs)
next
  case items
  then show ?thesis by (simp add: repair_alternating repair_paired)
qed

text \<open>A call, a note of the developer, the result, and a result nobody asked for.\<close>

definition sample_history :: "ResponsesInputItem list" where
  "sample_history =
     [zero_ResponsesInputItem\<lparr>ri_Type := ''function_call'', ri_CallID := ''call_1'', ri_Name := ''ls''\<rparr>,
      zero_ResponsesInputItem\<lparr>ri_Role := ''user'', ri_Content := Some (JStr ''approved'')\<rparr>,
      zero_ResponsesInputItem\<lparr>ri_Type := ''function_call_output'', ri_CallID := ''call_1'', ri_Output := ''a.go''\<rparr>,
      zero_ResponsesInputItem\<lparr>ri_Type := ''function_call_output'', ri_CallID := ''call_2'', ri_Output := ''b.go''\<rparr>]"

theorem tool_calls_paired_witness:
  "\<exists>out. ResponsesToAnthropicRequest \<lparr>jt_parse = (\<lambda>_. None), jt_text = (\<lambda>_. [])\<rparr>
       (zero_ResponsesRequest\<lparr>rq_Input := Some (enc_list enc_item sample_history)\<rparr>) = Some out
     \<and> alternating (aq_Messages out) \<and> tool_paired {} (aq_Messages out)"
proof -
  have "unmarshal (dec_list (dec_item t)) (Some (enc_list enc_item sample_history)) = Some sample_history" for t
    by (simp add: unmarshal_def item_codec.dec_enc_list sample_history_def zero_ResponsesInputItem_def)
  moreover have "dec_string (enc_list enc_item sample_history) = None" by (simp add: enc_list_def sample_history_def)
  ultimately have "\<exists>out. ResponsesToAnthropicRequest \<lparr>jt_parse = (\<lambda>_. None), jt_text = (\<lambda>_. [])\<rparr>
       (zero_ResponsesRequest\<lparr>rq_Input := Some (enc_list enc_item sample_history)\<rparr>) = Some out"
    by (intro convert_request_defined) (simp add: convertResponsesInputToAnthropic_def zero_ResponsesRequest_def unmarshal_def split: prod.split)
  then show ?thesis using tool_calls_paired by blast
qed

text \<open>
  (C18) Repairing the pairing keeps the conversation. Everything said apart from tool calls and results
  stays, in the same order and with the same role; of the calls exactly those stay for which the history
  has a result, in the same order; and they are answered, in order, by the last result given for each.
\<close>

theorem repair_keeps_conversation:
  "spoken (repair_messages ms) = spoken ms
   \<and> calls (repair_messages ms) = filter (\<lambda>c. last_result ms (qb_ID c) \<noteq> None) (calls ms)
   \<and> results (repair_messages ms) = map (\<lambda>c. the (last_result ms (qb_ID c))) (calls (repair_messages ms))"
  by (intro conjI) (rule repair_conversation)+

text \<open>
  A call whose arguments are not a document: the encoding error is ignored, and if nothing else is said in
  that turn, a message without content goes upstream.
\<close>

lemma unreadable_call_leaves_empty_message:
  assumes "jt_parse lib args = None" "args \<noteq> []"
  shows "convertResponsesInputToAnthropic lib []
      (Some (enc_list enc_item [zero_ResponsesInputItem\<lparr>ri_Type := ''function_call'', ri_CallID := cid, ri_Arguments := args\<rparr>]))
    = Some (None, [\<lparr>am_Role = ''assistant'', am_Content = None\<rparr>])"
proof -
  let ?is = "[zero_ResponsesInputItem\<lparr>ri_Type := ''function_call'', ri_CallID := cid, ri_Arguments := args\<rparr>]"
  have "dec_list (dec_item t) (enc_list enc_item ?is) = Some ?is" for t
    by (rule item_codec.dec_enc_list) (simp add: zero_ResponsesInputItem_def)
  moreover have "dec_string (enc_list enc_item ?is) = None" by (simp add: enc_list_def)
  moreover have "parseContentBlocks None = []" by (simp add: parseContentBlocks_def unmarshal_def)
  ultimately show ?thesis
    using assms by (simp add: convertResponsesInputToAnthropic_def unmarshal_def convert_item_def zero_ResponsesInputItem_def
        repair_messages_def mergeConsecutiveMessages_def normalizeAnthropicToolPairing_def pair_message_def marshal_system_def)
qed

text \<open>
  A request for high effort that names no limit: the thinking budget is larger than the limit for all
  tokens the converter fills in.
\<close>

lemma budget_exceeds_default_limit:
  assumes "ResponsesToAnthropicRequest lib req = Some out" "rq_MaxOutputTokens req = None"
    "rq_Reasoning req = Some \<lparr>rrs_Effort = ''high'', rrs_Summary = []\<rparr>"
  shows "\<exists>t. aq_Thinking out = Some t \<and> aq_MaxTokens out < ath_BudgetTokens t"
  using assms
  by (auto simp: ResponsesToAnthropicRequest_def Let_def mapResponsesEffortToAnthropic_def defaultThinkingBudget_def zero_AnthropicRequest_def
      split: option.splits)

end
