(* ===== verification/Json_Notation.thy ===== *)
theory Json_Notation
  imports Request_To_Anthropic
begin

text \<open>
  A simple notation for documents, to run the converters on concrete requests: a printer, and a reader that
  reads back what the printer wrote. Characters of strings are marked one by one, so that no escapes are
  needed; objects and arrays have their usual brackets.
\<close>

fun print_string :: "string \<Rightarrow> string" where
  "print_string [] = ''.''"
| "print_string (c # cs) = CHR ''='' # c # print_string cs"

fun read_string :: "string \<Rightarrow> (string \<times> string) option" where
  "read_string [] = None"
| "read_string [x] = (if x = CHR ''.'' then Some ([], []) else None)"
| "read_string (x # c # xs) =
     (if x = CHR ''.'' then Some ([], c # xs)
      else if x = CHR ''='' then map_option (\<lambda>(s, rest). (c # s, rest)) (read_string xs) else None)"

fun print_json :: "json \<Rightarrow> string" where
  "print_json JNull = ''n''"
| "print_json (JBool b) = (if b then ''t'' else ''f'')"
| "print_json (JNum s) = CHR ''#'' # print_string s"
| "print_json (JStr s) = CHR ''$'' # print_string s"
| "print_json (JArr js) = CHR ''['' # concat (map print_json js) @ '']''"
| "print_json (JObj kvs) = CHR ''{'' # concat (map (\<lambda>(k, v). print_string k @ print_json v) kvs) @ ''}''"

fun read_json :: "nat \<Rightarrow> string \<Rightarrow> (json \<times> string) option"
  and read_elements :: "nat \<Rightarrow> string \<Rightarrow> (json list \<times> string) option"
  and read_members :: "nat \<Rightarrow> string \<Rightarrow> ((string \<times> json) list \<times> string) option" where
  "read_json 0 s = None"
| "read_json (Suc n) [] = None"
| "read_json (Suc n) (x # xs) =
     (if x = CHR ''n'' then Some (JNull, xs)
      else if x = CHR ''t'' then Some (JBool True, xs)
      else if x = CHR ''f'' then Some (JBool False, xs)
      else if x = CHR ''#'' then map_option (\<lambda>(s, rest). (JNum s, rest)) (read_string xs)
      else if x = CHR ''$'' then map_option (\<lambda>(s, rest). (JStr s, rest)) (read_string xs)
      else if x = CHR ''['' then map_option (\<lambda>(js, rest). (JArr js, rest)) (read_elements n xs)
      else if x = CHR ''{'' then map_option (\<lambda>(kvs, rest). (JObj kvs, rest)) (read_members n xs)
      else None)"
| "read_elements 0 s = None"
| "read_elements (Suc n) [] = None"
| "read_elements (Suc n) (x # xs) =
     (if x = CHR '']'' then Some ([], xs)
      else do {(j, rest) \<leftarrow> read_json n (x # xs); (js, rest) \<leftarrow> read_elements n rest; Some (j # js, rest)})"
| "read_members 0 s = None"
| "read_members (Suc n) [] = None"
| "read_members (Suc n) (x # xs) =
     (if x = CHR ''}'' then Some ([], xs)
      else do {(k, rest) \<leftarrow> read_string (x # xs); (j, rest) \<leftarrow> read_json n rest; (kvs, rest) \<leftarrow> read_members n rest;
               Some ((k, j) # kvs, rest)})"

definition plain_text :: json_text where
  "plain_text = \<lparr>jt_parse = (\<lambda>s. case read_json (Suc (length s)) s of Some (j, []) \<Rightarrow> Some j | _ \<Rightarrow> None), jt_text = print_json\<rparr>"

lemma read_print_string: "read_string (print_string s @ rest) = Some (s, rest)"
  by (induction s) (cases rest; simp)+

lemma print_string_head: "\<exists>c cs. print_string s = c # cs \<and> c \<in> {CHR ''.'', CHR ''=''}"
  by (cases s) simp_all

lemma print_json_head: "\<exists>c cs. print_json j = c # cs \<and> c \<noteq> CHR '']''"
  by (cases j) simp_all

lemma read_elements_print:
  assumes "\<And>j n rest. j \<in> set js \<Longrightarrow> length (print_json j) < n \<Longrightarrow> read_json n (print_json j @ rest) = Some (j, rest)"
    and "length (concat (map print_json js)) + 1 < n"
  shows "read_elements n (concat (map print_json js) @ CHR '']'' # rest) = Some (js, rest)"
  using assms
proof (induction js arbitrary: n)
  case Nil
  then show ?case by (cases n) simp_all
next
  case (Cons j js)
  obtain m where n: "n = Suc m" using Cons.prems(2) by (cases n) simp_all
  obtain c cs where c: "print_json j = c # cs" "c \<noteq> CHR '']''" using print_json_head by blast
  have "read_json m (c # cs @ xs) = Some (j, xs)" for xs
    using Cons.prems(1) [of j m xs] Cons.prems(2) c n by simp
  moreover have "read_elements m (concat (map print_json js) @ CHR '']'' # rest) = Some (js, rest)"
    using Cons.IH [of m] Cons.prems c n by simp
  ultimately show ?case using c n by simp
qed

lemma read_members_print:
  assumes "\<And>k j n rest. (k, j) \<in> set kvs \<Longrightarrow> length (print_json j) < n \<Longrightarrow> read_json n (print_json j @ rest) = Some (j, rest)"
    and "length (concat (map (\<lambda>(k, v). print_string k @ print_json v) kvs)) + 1 < n"
  shows "read_members n (concat (map (\<lambda>(k, v). print_string k @ print_json v) kvs) @ CHR ''}'' # rest) = Some (kvs, rest)"
  using assms
proof (induction kvs arbitrary: n)
  case Nil
  then show ?case by (cases n) simp_all
next
  case (Cons kv kvs)
  obtain k j where kv: "kv = (k, j)" by (cases kv)
  obtain m where n: "n = Suc m" using Cons.prems(2) by (cases n) simp_all
  obtain c cs where c: "print_string k = c # cs" "c \<noteq> CHR ''}''" using print_string_head [of k] by auto
  have "read_json m (print_json j @ xs) = Some (j, xs)" for xs
    using Cons.prems(1) [of k j m xs] Cons.prems(2) c kv n by simp
  moreover have "read_members m (concat (map (\<lambda>(k, v). print_string k @ print_json v) kvs) @ CHR ''}'' # rest) = Some (kvs, rest)"
    using Cons.IH [of m] Cons.prems c kv n by fastforce
  moreover have "read_string (c # cs @ xs) = Some (k, xs)" for xs using read_print_string [of k xs] c by simp
  ultimately show ?case using c kv n by simp
qed

lemma read_print_json: "length (print_json j) < n \<Longrightarrow> read_json n (print_json j @ rest) = Some (j, rest)"
proof (induction j arbitrary: n rest)
  case (JArr js)
  then show ?case using read_elements_print [of js "n - 1" rest] by (cases n) simp_all
next
  case (JObj kvs)
  have "read_members (n - 1) (concat (map (\<lambda>(k, v). print_string k @ print_json v) kvs) @ CHR ''}'' # rest) = Some (kvs, rest)"
    by (rule read_members_print) (use JObj in fastforce)+
  then show ?case using JObj.prems by (cases n) simp_all
next
  case JNull
  then show ?case by (cases n) simp_all
next
  case (JBool b)
  then show ?case by (cases n) simp_all
next
  case (JNum x)
  then show ?case by (cases n) (simp_all add: read_print_string)
next
  case (JStr x)
  then show ?case by (cases n) (simp_all add: read_print_string)
qed

lemma plain_text_reads_back: "jt_parse plain_text (jt_text plain_text j) = Some j"
  using read_print_json [of j "Suc (length (print_json j))" "[]"] by (simp add: plain_text_def)

end
