(* ===== verification/Request_To_Responses.thy ===== *)
theory Request_To_Responses
  imports Json_Notation
begin

text \<open>
  Conversion of an Anthropic request into a Responses request: \<open>pkg/apicompat/anthropic_to_responses.go\<close>.

  Each message becomes a list of items: the results of tool calls, the calls, encrypted reasoning, and a
  message with the texts and images.
\<close>

subsection \<open>Content\<close>

definition isAnthropicBillingHeaderText :: "string \<Rightarrow> bool" where
  "isAnthropicBillingHeaderText t = HasPrefix t ''x-anthropic-billing-header: ''"

definition text_part :: "string \<Rightarrow> string \<Rightarrow> ResponsesContentPart" where
  "text_part ty s = zero_ResponsesContentPart\<lparr>rcp_Type := ty, rcp_Text := s\<rparr>"

definition image_part :: "string \<Rightarrow> ResponsesContentPart" where
  "image_part uri = zero_ResponsesContentPart\<lparr>rcp_Type := ''input_image'', rcp_ImageURL := uri\<rparr>"

definition parseAnthropicSystemContentParts :: "json \<Rightarrow> ResponsesContentPart list option" where
  "parseAnthropicSystemContentParts raw =
     (case dec_string raw of
        Some s \<Rightarrow> Some (if isAnthropicBillingHeaderText s \<or> s = [] then [] else [text_part ''input_text'' s])
      | None \<Rightarrow>
          (case dec_list dec_block raw of
             None \<Rightarrow> None
           | Some blocks \<Rightarrow>
               Some (map (\<lambda>b. text_part ''input_text'' (qb_Text b))
                 (filter (\<lambda>b. qb_Type b = ''text'' \<and> qb_Text b \<noteq> [] \<and> \<not> isAnthropicBillingHeaderText (qb_Text b)) blocks))))"

definition anthropicImageToDataURI :: "AnthropicImageSource option \<Rightarrow> string" where
  "anthropicImageToDataURI src =
     (case src of
        None \<Rightarrow> []
      | Some s \<Rightarrow>
          if ais_Data s = [] then []
          else let mediaType = (if ais_MediaType s = [] then ''image/png'' else ais_MediaType s)
               in ''data:'' @ mediaType @ '';base64,'' @ ais_Data s)"

definition block_texts :: "RequestBlock list \<Rightarrow> string list" where
  "block_texts blocks = map qb_Text (filter (\<lambda>b. qb_Type b = ''text'' \<and> qb_Text b \<noteq> []) blocks)"

definition image_parts :: "RequestBlock \<Rightarrow> ResponsesContentPart list" where
  "image_parts b =
     (if qb_Type b = ''image'' \<and> anthropicImageToDataURI (qb_Source b) \<noteq> [] then [image_part (anthropicImageToDataURI (qb_Source b))] else [])"

definition convertToolResultOutput :: "RequestBlock \<Rightarrow> string \<times> ResponsesContentPart list" where
  "convertToolResultOutput b =
     (case qb_Content b of
        None \<Rightarrow> (''(empty)'', [])
      | Some j \<Rightarrow>
          (case dec_string j of
             Some s \<Rightarrow> (if s = [] then ''(empty)'' else s, [])
           | None \<Rightarrow>
               (case dec_list dec_block j of
                  None \<Rightarrow> (''(empty)'', [])
                | Some inner \<Rightarrow>
                    let txt = Join (block_texts inner) [byte 10, byte 10]
                    in (if txt = [] then ''(empty)'' else txt, gather image_parts inner))))"

definition extractAnthropicTextFromBlocks :: "RequestBlock list \<Rightarrow> string" where
  "extractAnthropicTextFromBlocks blocks = Join (block_texts blocks) [byte 10, byte 10]"

subsection \<open>Messages\<close>

definition message_of_parts :: "string \<Rightarrow> ResponsesContentPart list \<Rightarrow> ResponsesInputItem" where
  "message_of_parts role parts =
     zero_ResponsesInputItem\<lparr>ri_Type := ''message'', ri_Role := role, ri_Content := Some (enc_list enc_part parts)\<rparr>"

definition result_item :: "RequestBlock \<Rightarrow> ResponsesInputItem" where
  "result_item b = zero_ResponsesInputItem\<lparr>ri_Type := ''function_call_output'', ri_CallID := toResponsesCallID (qb_ToolUseID b),
     ri_Output := fst (convertToolResultOutput b)\<rparr>"

definition user_block_parts :: "RequestBlock \<Rightarrow> ResponsesContentPart list" where
  "user_block_parts b =
     (if qb_Type b = ''text'' then if qb_Text b \<noteq> [] then [text_part ''input_text'' (qb_Text b)] else [] else image_parts b)"

definition anthropicUserToResponses :: "raw_json \<Rightarrow> ResponsesInputItem list option" where
  "anthropicUserToResponses raw =
     (case unmarshal dec_string raw of
        Some s \<Rightarrow> Some [message_of_parts ''user'' [text_part ''input_text'' s]]
      | None \<Rightarrow>
          (case unmarshal (dec_list dec_block) raw of
             None \<Rightarrow> None
           | Some blocks \<Rightarrow>
               let parts = gather user_block_parts blocks @ gather (\<lambda>b. snd (convertToolResultOutput b)) (filter is_result blocks)
               in Some (map result_item (filter is_result blocks) @ (if parts \<noteq> [] then [message_of_parts ''user'' parts] else []))))"

definition replayed_signature :: "RequestBlock \<Rightarrow> ResponsesInputItem list" where
  "replayed_signature b =
     (let sig = TrimSpace (qb_Signature b) in
      if qb_Type b \<noteq> ''thinking'' \<or> sig = [] \<or> HasPrefix sig ''gAAAA'' then []
      else [zero_ResponsesInputItem\<lparr>ri_Type := ''reasoning'', ri_EncryptedContent := sig\<rparr>])"

definition call_item :: "json_text \<Rightarrow> RequestBlock \<Rightarrow> ResponsesInputItem" where
  "call_item lib b = zero_ResponsesInputItem\<lparr>ri_Type := ''function_call'', ri_CallID := toResponsesCallID (qb_ID b), ri_Name := qb_Name b,
     ri_Arguments := (case qb_Input b of None \<Rightarrow> ''{}'' | Some j \<Rightarrow> jt_text lib j)\<rparr>"

definition anthropicAssistantToResponses :: "json_text \<Rightarrow> raw_json \<Rightarrow> ResponsesInputItem list option" where
  "anthropicAssistantToResponses lib raw =
     (case unmarshal dec_string raw of
        Some s \<Rightarrow> Some [message_of_parts ''assistant'' [text_part ''output_text'' s]]
      | None \<Rightarrow>
          (case unmarshal (dec_list dec_block) raw of
             None \<Rightarrow> None
           | Some blocks \<Rightarrow>
               let txt = extractAnthropicTextFromBlocks blocks
               in Some (gather replayed_signature blocks
                    @ (if txt \<noteq> [] then [message_of_parts ''assistant'' [text_part ''output_text'' txt]] else [])
                    @ map (call_item lib) (filter is_use blocks))))"

definition anthropicMsgToResponsesItems :: "json_text \<Rightarrow> AnthropicMessage \<Rightarrow> ResponsesInputItem list option" where
  "anthropicMsgToResponsesItems lib m =
     (if am_Role m = ''user'' then anthropicUserToResponses (am_Content m)
      else if am_Role m = ''assistant'' then anthropicAssistantToResponses lib (am_Content m)
      else anthropicUserToResponses (am_Content m))"

definition convertAnthropicToResponsesInput :: "json_text \<Rightarrow> raw_json \<Rightarrow> AnthropicMessage list \<Rightarrow> ResponsesInputItem list option" where
  "convertAnthropicToResponsesInput lib system msgs = do {
     sys \<leftarrow> (case system of
              None \<Rightarrow> Some []
            | Some j \<Rightarrow>
                (case parseAnthropicSystemContentParts j of
                   None \<Rightarrow> None
                 | Some sysParts \<Rightarrow> Some (if sysParts \<noteq> [] then [message_of_parts ''developer'' sysParts] else [])));
     items \<leftarrow> those (map (anthropicMsgToResponsesItems lib) msgs);
     Some (sys @ concat items)}"

subsection \<open>Tools and parameters\<close>

definition normalizeToolParameters :: "raw_json \<Rightarrow> json" where
  "normalizeToolParameters schema =
     (case schema of
        None \<Rightarrow> emptyObjectSchema
      | Some JNull \<Rightarrow> emptyObjectSchema
      | Some (JObj m) \<Rightarrow> if key ''type'' m \<noteq> Some (JStr ''object'') then JObj m else with_properties m
      | Some j \<Rightarrow> j)"

definition anthropic_tool :: "AnthropicTool \<Rightarrow> ResponsesTool" where
  "anthropic_tool t =
     (if HasPrefix (atl_Type t) ''web_search'' then zero_ResponsesTool\<lparr>rt_Type := ''web_search''\<rparr>
      else zero_ResponsesTool\<lparr>rt_Type := ''function'', rt_Name := atl_Name t, rt_Description := atl_Description t,
             rt_Parameters := Some (normalizeToolParameters (atl_InputSchema t)), rt_Strict := Some False\<rparr>)"

definition convertAnthropicToolsToResponses :: "AnthropicTool list \<Rightarrow> ResponsesTool list" where
  "convertAnthropicToolsToResponses tools = map anthropic_tool tools"

definition convertAnthropicToolChoiceToResponses :: "json \<Rightarrow> json option" where
  "convertAnthropicToolChoiceToResponses raw = do {
     kvs \<leftarrow> dec_object raw; ty \<leftarrow> fstr ''type'' kvs; nm \<leftarrow> fstr ''name'' kvs;
     Some (if ty = ''auto'' then JStr ''auto''
           else if ty = ''any'' then JStr ''required''
           else if ty = ''none'' then JStr ''none''
           else if ty = ''tool'' then JObj [(''name'', JStr nm), (''type'', JStr ''function'')]
           else raw)}"

definition mapAnthropicEffortToResponses :: "string \<Rightarrow> string" where
  "mapAnthropicEffortToResponses effort = (if effort = ''max'' then ''xhigh'' else effort)"

definition isReasoningModel :: "string \<Rightarrow> bool" where
  "isReasoningModel model = HasPrefix model ''gpt-5''"

definition minMaxOutputTokens :: int where
  "minMaxOutputTokens = 128"

definition AnthropicToResponses :: "json_text \<Rightarrow> AnthropicRequest \<Rightarrow> ResponsesRequest option" where
  "AnthropicToResponses lib req = do {
     input \<leftarrow> convertAnthropicToResponsesInput lib (aq_System req) (aq_Messages req);
     toolChoice \<leftarrow> (case aq_ToolChoice req of None \<Rightarrow> Some None | Some tc \<Rightarrow> map_option Some (convertAnthropicToolChoiceToResponses tc));
     let effort = (case aq_OutputConfig req of Some e \<Rightarrow> if e \<noteq> [] then e else ''medium'' | None \<Rightarrow> ''medium'');
     Some (zero_ResponsesRequest
       \<lparr>rq_Model := aq_Model req, rq_Input := Some (enc_list enc_item input), rq_Stream := aq_Stream req,
        rq_Include := [''reasoning.encrypted_content''],
        rq_Temperature := (if isReasoningModel (aq_Model req) then None else aq_Temperature req),
        rq_TopP := (if isReasoningModel (aq_Model req) then None else aq_TopP req),
        rq_Store := Some False, rq_ParallelToolCalls := Some True,
        rq_Text := Some \<lparr>rtx_Format = None, rtx_Verbosity = ''medium''\<rparr>,
        rq_MaxOutputTokens := (if 0 < aq_MaxTokens req then Some (max (aq_MaxTokens req) minMaxOutputTokens) else None),
        rq_Tools := convertAnthropicToolsToResponses (aq_Tools req),
        rq_Reasoning := Some \<lparr>rrs_Effort = mapAnthropicEffortToResponses effort, rrs_Summary = ''auto''\<rparr>,
        rq_ToolChoice := toolChoice\<rparr>)}"

subsection \<open>Round trips of the parameters\<close>

lemma image_round_trip:
  assumes "ais_Type s = ''base64''" "ais_Data s \<noteq> []" "ais_MediaType s \<noteq> []" "CHR '';'' \<notin> set (ais_MediaType s)"
  shows "dataURIToAnthropicImageSource (anthropicImageToDataURI (Some s)) = Some s"
proof -
  have "split_at_byte (CHR '';'') (ais_MediaType s @ '';base64,'' @ ais_Data s) = Some (ais_MediaType s, ''base64,'' @ ais_Data s)"
    using split_at_byte_append [OF assms(4), of "''base64,'' @ ais_Data s"] by simp
  then show ?thesis
    using assms by (simp add: dataURIToAnthropicImageSource_def anthropicImageToDataURI_def TrimPrefix_def CutPrefix_def HasPrefix_def)
qed

lemma effort_round_trip: "e \<noteq> ''xhigh'' \<Longrightarrow> mapResponsesEffortToAnthropic (mapAnthropicEffortToResponses e) = e"
  by (simp add: mapResponsesEffortToAnthropic_def mapAnthropicEffortToResponses_def)

lemma field_function [simp]: "fold_name ''function'' = ''function''"
  by code_simp

lemma tool_choice_round_trip:
  "ty \<in> {''auto'', ''any'', ''none''} \<Longrightarrow>
     map_option convertResponsesToAnthropicToolChoice (convertAnthropicToolChoiceToResponses (JObj [(''type'', JStr ty)])) = Some (JObj [(''type'', JStr ty)])"
  "TrimSpace n = n \<Longrightarrow> n \<noteq> [] \<Longrightarrow>
     map_option convertResponsesToAnthropicToolChoice
       (convertAnthropicToolChoiceToResponses (JObj [(''name'', JStr n), (''type'', JStr ''tool'')])) = Some (JObj [(''name'', JStr n), (''type'', JStr ''tool'')])"
  by (auto simp: convertAnthropicToolChoiceToResponses_def convertResponsesToAnthropicToolChoice_def dec_tool_choice_def codec_defs)

lemma key_set_key: "key n (set_key m v kvs) = (if n = m then Some v else key n kvs)"
proof -
  have "map_of (rev (filter (\<lambda>kv. fst kv \<noteq> m) kvs)) n = map_of (rev kvs) n" if "n \<noteq> m"
    using that by (induction kvs) (auto simp: map_add_def split: option.split)
  then show ?thesis by (simp add: key_def set_key_def map_add_def)
qed

text \<open>The parameters of a tool always end up as an object with properties.\<close>

definition object_schema :: "json \<Rightarrow> bool" where
  "object_schema j = (case j of JObj m \<Rightarrow> key ''type'' m = Some (JStr ''object'') \<and> key ''properties'' m \<noteq> None | _ \<Rightarrow> False)"

lemma with_properties_ok: "key ''type'' m = Some (JStr ''object'') \<Longrightarrow> object_schema (with_properties m)"
  by (simp add: with_properties_def object_schema_def key_set_key)

lemma normalizeAnthropicInputSchema_ok: "object_schema (normalizeAnthropicInputSchema schema)"
proof -
  have e: "object_schema emptyObjectSchema" by (simp add: object_schema_def emptyObjectSchema_def key_def)
  have "t = JStr ''object''" if "dec_string t = Some ''object''" for t using that by (cases t) simp_all
  then show ?thesis
    using e by (auto simp: normalizeAnthropicInputSchema_def key_set_key intro!: with_properties_ok split: option.splits json.splits)
qed

lemma tool_schema_round_trip:
  "object_schema j \<Longrightarrow> normalizeAnthropicInputSchema (Some (normalizeToolParameters (Some j))) = j"
  by (auto simp: object_schema_def normalizeToolParameters_def normalizeAnthropicInputSchema_def with_properties_def split: json.splits)

subsection \<open>Items one by one\<close>

text \<open>What one item adds to the system prompt and to the messages when the request is converted back.\<close>

definition item_system :: "ResponsesInputItem \<Rightarrow> string list" where
  "item_system i = fst (convert_item \<lparr>jt_parse = (\<lambda>_. None), jt_text = (\<lambda>_. [])\<rparr> ([], []) i)"

definition item_messages :: "json_text \<Rightarrow> ResponsesInputItem \<Rightarrow> AnthropicMessage list" where
  "item_messages lib i = snd (convert_item lib ([], []) i)"

lemma convert_item_eq: "convert_item lib (sys, ms) i = (sys @ item_system i, ms @ item_messages lib i)"
  by (simp add: convert_item_def item_system_def item_messages_def Let_def)

lemma convert_items_eq: "foldl (convert_item lib) (sys, ms) is = (sys @ gather item_system is, ms @ gather (item_messages lib) is)"
  by (induction "is" arbitrary: sys ms) (simp_all add: convert_item_eq)

lemmas item_simps = item_messages_def convert_item_def message_of_parts_def result_item_def call_item_def zero_ResponsesInputItem_def

definition result_block :: "RequestBlock \<Rightarrow> RequestBlock" where
  "result_block b = zero_RequestBlock\<lparr>qb_Type := ''tool_result'', qb_ToolUseID := fromResponsesCallIDToAnthropic (qb_ToolUseID b),
     qb_Content := Some (JStr (fst (convertToolResultOutput b)))\<rparr>"

definition call_block :: "RequestBlock \<Rightarrow> RequestBlock" where
  "call_block b = zero_RequestBlock\<lparr>qb_Type := ''tool_use'', qb_ID := fromResponsesCallIDToAnthropic (qb_ID b), qb_Name := qb_Name b,
     qb_Input := Some (case qb_Input b of None \<Rightarrow> JObj [] | Some j \<Rightarrow> j)\<rparr>"

lemma convertToolResultOutput_nonempty: "fst (convertToolResultOutput b) \<noteq> []"
  by (simp add: convertToolResultOutput_def Let_def split: option.splits)

lemma item_messages_result: "item_messages lib (result_item b) = [anthropicMessageFromBlocks ''user'' [result_block b]]"
  using convertToolResultOutput_nonempty [of b]
  by (simp add: item_simps responsesFunctionOutputToAnthropicContent_def result_block_def toResponsesCallID_def anthropicMessageFromBlocks_def Let_def)

text \<open>The text of a document can be read again.\<close>

definition reads_back :: "json_text \<Rightarrow> bool" where
  "reads_back lib \<longleftrightarrow> (\<forall>j. jt_parse lib (jt_text lib j) = Some j) \<and> jt_parse lib ''{}'' = Some (JObj []) \<and> jt_parse lib [] = None"

lemma item_messages_call:
  assumes "reads_back lib"
  shows "item_messages lib (call_item lib b) = [anthropicMessageFromBlocks ''assistant'' [call_block b]]"
proof -
  have "jt_text lib j \<noteq> []" for j using assms by (metis reads_back_def option.distinct(1))
  then show ?thesis
    using assms by (cases "qb_Input b") (simp_all add: item_simps call_block_def toResponsesCallID_def anthropicMessageFromBlocks_def Let_def reads_back_def)
qed

lemma item_messages_reasoning: "gather (item_messages lib) (replayed_signature b) = []"
  by (simp add: replayed_signature_def Let_def item_simps)

lemma dec_string_parts [simp]: "parts \<noteq> [] \<Longrightarrow> dec_string (enc_list e parts) = None"
  by (simp add: enc_list_def)

lemma dec_parts [simp]: "dec_list dec_part (enc_list enc_part parts) = Some parts"
  by (rule part_codec.dec_enc_list) (simp add: list_all_iff)

lemma item_messages_user:
  assumes "parts \<noteq> []"
  shows "item_messages lib (message_of_parts ''user'' parts) =
     (if gather user_part_blocks parts = [] then [] else [anthropicMessageFromBlocks ''user'' (gather user_part_blocks parts)])"
  using assms
  by (simp add: item_simps convertResponsesUserToAnthropicContent_def anthropicContentIsEmpty_def anthropicMessageFromBlocks_def Let_def)
    (simp add: enc_list_def)

lemma item_messages_assistant:
  "item_messages lib (message_of_parts ''assistant'' [text_part ''output_text'' s]) =
     (if TrimSpace s = [] then [] else [anthropicMessageFromBlocks ''assistant'' [text_block s]])"
proof -
  have "gather assistant_part_blocks [text_part ''output_text'' s] = (if s = [] then [] else [text_block s])"
    by (simp add: assistant_part_blocks_def text_part_def zero_ResponsesContentPart_def)
  then have "convertResponsesAssistantToAnthropicContent (Some (enc_list enc_part [text_part ''output_text'' s])) = Some (enc_list enc_block [text_block s])"
    by (simp add: convertResponsesAssistantToAnthropicContent_def Let_def)
  moreover have "anthropicContentIsOnlyBlankText (Some (enc_list enc_block [text_block s])) \<longleftrightarrow> TrimSpace s = []"
    by (simp add: anthropicContentIsOnlyBlankText_def Let_def text_block_def zero_defs)
  moreover have "\<not> anthropicContentIsEmpty (Some (enc_list enc_block [text_block s]))"
    by (simp add: anthropicContentIsEmpty_def enc_list_def)
  ultimately show ?thesis by (simp add: item_simps anthropicMessageFromBlocks_def Let_def)
qed

subsection \<open>Messages one by one\<close>

text \<open>What a message says once it went through the other protocol.\<close>

definition user_said :: "RequestBlock list \<Rightarrow> RequestBlock list" where
  "user_said bs = gather user_part_blocks
     (gather user_block_parts bs @ gather (\<lambda>b. snd (convertToolResultOutput b)) (filter is_result bs))"

definition assistant_said :: "RequestBlock list \<Rightarrow> RequestBlock list" where
  "assistant_said bs =
     (let txt = extractAnthropicTextFromBlocks bs in if TrimSpace txt = [] then [] else [text_block txt])"

lemma plain_blocks [simp]:
  "\<not> is_result (text_block s)" "\<not> is_use (text_block s)" "\<not> is_result (image_block src)" "\<not> is_use (image_block src)"
  by (simp_all add: text_block_def image_block_def is_result_def is_use_def zero_defs)

lemma user_part_blocks_plain: "list_all (\<lambda>b. \<not> is_result b) (user_part_blocks p)"
  by (simp add: user_part_blocks_def split: option.split)

lemma part_blocks_plain: "b \<in> set (user_part_blocks p) \<Longrightarrow> \<not> is_result b"
  using user_part_blocks_plain [of p] by (simp add: list_all_iff)

lemma user_blocks_plain: "filter is_result (gather user_part_blocks ps) = []"
  by (auto simp: filter_empty_conv gather_def dest: part_blocks_plain)

lemma user_blocks_kept: "filter (\<lambda>b. \<not> is_result b) (gather user_part_blocks ps) = gather user_part_blocks ps"
  by (rule filter_True) (auto simp: gather_def dest: part_blocks_plain)

lemma user_message_conversation:
  "spoken [anthropicMessageFromBlocks ''user'' bs] = map (Pair ''user'') (filter (\<lambda>b. \<not> is_result b) bs)"
  "results [anthropicMessageFromBlocks ''user'' bs] = filter is_result bs" "calls [anthropicMessageFromBlocks ''user'' bs] = []"
  "spoken [anthropicMessageFromBlocks ''assistant'' bs] = map (Pair ''assistant'') (filter (\<lambda>b. \<not> is_use b) bs)"
  "calls [anthropicMessageFromBlocks ''assistant'' bs] = filter is_use bs" "results [anthropicMessageFromBlocks ''assistant'' bs] = []"
  by (simp_all add: conversation_single anthropicMessageFromBlocks_def)

lemma results_conversation:
  "spoken (gather (item_messages lib) (map result_item bs)) = []" "calls (gather (item_messages lib) (map result_item bs)) = []"
  "results (gather (item_messages lib) (map result_item bs)) = map result_block bs"
  by (induction bs)
    (simp_all add: item_messages_result conversation_Cons [of _ "gather _ _"] user_message_conversation is_result_def result_block_def zero_defs)

lemma user_parts_conversation:
  assumes "ms = gather (item_messages lib) (if parts \<noteq> [] then [message_of_parts ''user'' parts] else [])"
  shows "spoken ms = map (Pair ''user'') (gather user_part_blocks parts)" "calls ms = []" "results ms = []"
  using assms by (auto simp: item_messages_user user_message_conversation user_blocks_plain user_blocks_kept)

lemma user_items:
  assumes "anthropicUserToResponses raw = Some is"
  shows "spoken (gather (item_messages lib) is) = map (Pair ''user'') (user_said (parseContentBlocks raw))"
    "calls (gather (item_messages lib) is) = []"
    "results (gather (item_messages lib) is) = map result_block (filter is_result (parseContentBlocks raw))"
proof -
  have "spoken (gather (item_messages lib) is) = map (Pair ''user'') (user_said (parseContentBlocks raw))
    \<and> calls (gather (item_messages lib) is) = []
    \<and> results (gather (item_messages lib) is) = map result_block (filter is_result (parseContentBlocks raw))"
  proof (cases "unmarshal dec_string raw")
    case (Some s)
    then have "raw = Some JNull \<and> s = [] \<or> raw = Some (JStr s)"
      unfolding unmarshal_def by (cases raw; cases "the raw") auto
    then have p: "parseContentBlocks raw = [] \<and> s = [] \<or> parseContentBlocks raw = [text_block s]"
      by (auto simp: parseContentBlocks_def unmarshal_def text_block_def)
    have "is = [message_of_parts ''user'' [text_part ''input_text'' s]]" using assms Some by (simp add: anthropicUserToResponses_def)
    then show ?thesis
      using p user_parts_conversation [of _ lib "[text_part ''input_text'' s]"]
      by (auto simp: user_said_def user_part_blocks_def user_block_parts_def text_part_def text_block_def image_parts_def is_result_def zero_defs)
  next
    case None
    then obtain blocks where b: "unmarshal (dec_list dec_block) raw = Some blocks"
      using assms by (auto simp: anthropicUserToResponses_def split: option.splits)
    let ?parts = "gather user_block_parts blocks @ gather (\<lambda>b. snd (convertToolResultOutput b)) (filter is_result blocks)"
    have "is = map result_item (filter is_result blocks) @ (if ?parts \<noteq> [] then [message_of_parts ''user'' ?parts] else [])"
      using assms None b by (simp add: anthropicUserToResponses_def Let_def)
    moreover have "parseContentBlocks raw = blocks" using b by (simp add: parseContentBlocks_def)
    ultimately show ?thesis
      using user_parts_conversation [OF refl, of lib ?parts] by (simp only: gather_simps conversation_append results_conversation user_said_def) simp
  qed
  then show "spoken (gather (item_messages lib) is) = map (Pair ''user'') (user_said (parseContentBlocks raw))"
    "calls (gather (item_messages lib) is) = []"
    "results (gather (item_messages lib) is) = map result_block (filter is_result (parseContentBlocks raw))"
    by simp_all
qed

lemma calls_conversation:
  assumes "reads_back lib"
  shows "spoken (gather (item_messages lib) (map (call_item lib) bs)) = []" "results (gather (item_messages lib) (map (call_item lib) bs)) = []"
    "calls (gather (item_messages lib) (map (call_item lib) bs)) = map call_block bs"
  by (induction bs)
    (simp_all add: item_messages_call [OF assms] conversation_Cons [of _ "gather _ _"] user_message_conversation is_use_def call_block_def zero_defs)

lemma reasoning_conversation: "gather (item_messages lib) (gather replayed_signature bs) = []"
  by (induction bs) (simp_all add: item_messages_reasoning)

lemma assistant_items:
  assumes lib: "reads_back lib" and "anthropicAssistantToResponses lib raw = Some is"
  shows "spoken (gather (item_messages lib) is) = map (Pair ''assistant'') (assistant_said (parseContentBlocks raw))
    \<and> results (gather (item_messages lib) is) = []
    \<and> calls (gather (item_messages lib) is) = map call_block (filter is_use (parseContentBlocks raw))"
proof (cases "unmarshal dec_string raw")
  case (Some s)
  then have "raw = Some JNull \<and> s = [] \<or> raw = Some (JStr s)"
    unfolding unmarshal_def by (cases raw; cases "the raw") auto
  then have p: "parseContentBlocks raw = [] \<and> s = [] \<or> parseContentBlocks raw = [text_block s]"
    by (auto simp: parseContentBlocks_def unmarshal_def text_block_def)
  then have "assistant_said (parseContentBlocks raw) = (if TrimSpace s = [] then [] else [text_block s])"
    by (auto simp: assistant_said_def extractAnthropicTextFromBlocks_def block_texts_def text_block_def zero_defs)
  moreover have "is = [message_of_parts ''assistant'' [text_part ''output_text'' s]]"
    using assms(2) Some by (simp add: anthropicAssistantToResponses_def)
  moreover have "filter is_use (parseContentBlocks raw) = []" using p by auto
  ultimately show ?thesis
    by (simp add: item_messages_assistant user_message_conversation)
next
  case None
  then obtain blocks where b: "unmarshal (dec_list dec_block) raw = Some blocks"
    using assms by (auto simp: anthropicAssistantToResponses_def split: option.splits)
  let ?txt = "extractAnthropicTextFromBlocks blocks"
  have "is = gather replayed_signature blocks
      @ (if ?txt \<noteq> [] then [message_of_parts ''assistant'' [text_part ''output_text'' ?txt]] else []) @ map (call_item lib) (filter is_use blocks)"
    using assms(2) None b by (simp add: anthropicAssistantToResponses_def Let_def)
  moreover have "parseContentBlocks raw = blocks" using b by (simp add: parseContentBlocks_def)
  ultimately show ?thesis
    by (simp add: reasoning_conversation conversation_append calls_conversation [OF lib] item_messages_assistant user_message_conversation
        assistant_said_def Let_def)
qed

subsection \<open>Whole requests\<close>

definition said :: "AnthropicMessage \<Rightarrow> RequestBlock list" where
  "said m = (if am_Role m = ''assistant'' then assistant_said (parseContentBlocks (am_Content m))
     else user_said (parseContentBlocks (am_Content m)))"

definition speaks :: "AnthropicMessage \<Rightarrow> bool" where
  "speaks m \<longleftrightarrow> am_Role m = ''user'' \<or> am_Role m = ''assistant''"

lemma message_items:
  assumes lib: "reads_back lib" and conv: "anthropicMsgToResponsesItems lib m = Some is" and role: "speaks m"
  shows "spoken (gather (item_messages lib) is) = map (Pair (am_Role m)) (said m)
    \<and> calls (gather (item_messages lib) is) = map call_block (calls [m])
    \<and> results (gather (item_messages lib) is) = map result_block (results [m])"
proof (cases "am_Role m = ''user''")
  case True
  then show ?thesis
    using user_items [of "am_Content m" "is" lib] conv by (simp add: anthropicMsgToResponsesItems_def conversation_single said_def)
next
  case False
  then show ?thesis
    using assistant_items [OF lib, of "am_Content m" "is"] conv role
    by (simp add: anthropicMsgToResponsesItems_def conversation_single said_def speaks_def)
qed

lemma those_Cons_Some: "those (x # xs) = Some ys \<longleftrightarrow> (\<exists>z zs. x = Some z \<and> those xs = Some zs \<and> ys = z # zs)"
  by (auto split: option.splits)

lemma messages_items:
  assumes lib: "reads_back lib" and conv: "those (map (anthropicMsgToResponsesItems lib) msgs) = Some iss" and roles: "list_all speaks msgs"
  shows "spoken (gather (item_messages lib) (concat iss)) = gather (\<lambda>m. map (Pair (am_Role m)) (said m)) msgs
    \<and> calls (gather (item_messages lib) (concat iss)) = map call_block (calls msgs)
    \<and> results (gather (item_messages lib) (concat iss)) = map result_block (results msgs)"
  using conv roles
proof (induction msgs arbitrary: iss)
  case (Cons m msgs)
  then obtain i is' where i: "anthropicMsgToResponsesItems lib m = Some i" "those (map (anthropicMsgToResponsesItems lib) msgs) = Some is'" "iss = i # is'"
    unfolding list.map those_Cons_Some by blast
  then show ?case
    using Cons.IH [OF i(2)] Cons.prems message_items [OF lib i(1)] conversation_Cons [of m msgs]
    by (simp add: conversation_append)
qed simp

definition plain_item :: "ResponsesInputItem \<Rightarrow> bool" where
  "plain_item i \<longleftrightarrow> ri_outputRaw i = None \<and> ri_Role i \<noteq> ''system'' \<and> ri_Role i \<noteq> ''developer''"

lemma plain_items [simp]:
  "plain_item (message_of_parts ''user'' ps)" "plain_item (message_of_parts ''assistant'' ps)" "plain_item (result_item b)"
  "plain_item (call_item lib b)" "list_all plain_item (replayed_signature b)"
  by (simp_all add: plain_item_def message_of_parts_def result_item_def call_item_def replayed_signature_def zero_ResponsesInputItem_def Let_def)

lemma list_all_gather: "(\<And>x. list_all P (f x)) \<Longrightarrow> list_all P (gather f xs)"
  by (induction xs) simp_all

lemma user_items_plain: "anthropicUserToResponses raw = Some is \<Longrightarrow> list_all plain_item is"
  by (auto simp: anthropicUserToResponses_def Let_def list.pred_map list_all_iff split: option.splits if_splits)

lemma assistant_items_plain: "anthropicAssistantToResponses lib raw = Some is \<Longrightarrow> list_all plain_item is"
  by (auto simp: anthropicAssistantToResponses_def Let_def list.pred_map o_def list.pred_True list_all_gather split: option.splits)

lemma message_items_plain: "anthropicMsgToResponsesItems lib m = Some is \<Longrightarrow> list_all plain_item is"
  by (auto simp: anthropicMsgToResponsesItems_def user_items_plain assistant_items_plain split: if_splits)

lemma messages_items_plain: "those (map (anthropicMsgToResponsesItems lib) msgs) = Some iss \<Longrightarrow> list_all plain_item (concat iss)"
proof (induction msgs arbitrary: iss)
  case (Cons m msgs)
  then show ?case unfolding list.map those_Cons_Some by (auto simp: message_items_plain)
qed simp

lemma plain_item_system: "plain_item i \<Longrightarrow> item_system i = []"
  by (simp add: plain_item_def item_system_def convert_item_def Let_def)

lemma plain_items_system: "list_all plain_item is \<Longrightarrow> gather item_system is = []"
  by (induction "is") (simp_all add: plain_item_system)

text \<open>The texts of the system prompt.\<close>

definition system_texts :: "AnthropicRequest \<Rightarrow> string list" where
  "system_texts req = (case aq_System req of None \<Rightarrow> []
     | Some j \<Rightarrow> (case parseAnthropicSystemContentParts j of None \<Rightarrow> [] | Some ps \<Rightarrow> map rcp_Text ps))"

lemma system_parts:
  assumes "parseAnthropicSystemContentParts j = Some ps"
  shows "list_all (\<lambda>p. rcp_Type p = ''input_text'' \<and> rcp_Text p \<noteq> []) ps"
  using assms
  by (auto simp: parseAnthropicSystemContentParts_def list.pred_map o_def list_all_iff text_part_def zero_ResponsesContentPart_def
      split: option.splits if_splits)

lemma developer_item:
  assumes "ps \<noteq> []" "list_all (\<lambda>p. rcp_Type p = ''input_text'' \<and> rcp_Text p \<noteq> []) ps"
  shows "item_system (message_of_parts ''developer'' ps) = [Join (map rcp_Text ps) [byte 10, byte 10]]"
    "item_messages lib (message_of_parts ''developer'' ps) = []" "ri_outputRaw (message_of_parts ''developer'' ps) = None"
proof -
  have "filter (\<lambda>p. (rcp_Type p = ''input_text'' \<or> rcp_Type p = ''output_text'' \<or> rcp_Type p = ''text'') \<and> rcp_Text p \<noteq> []) ps = ps"
    using assms(2) by (auto simp: filter_id_conv list_all_iff)
  then have "extractTextFromContent (Some (enc_list enc_part ps)) = Join (map rcp_Text ps) [byte 10, byte 10]"
    using assms(1) by (simp add: extractTextFromContent_def)
  moreover have "Join (map rcp_Text ps) [byte 10, byte 10] \<noteq> []"
    using assms Join_eq_Nil [of "map rcp_Text ps" "[byte 10, byte 10]"] by (simp add: list_all_iff)
  ultimately show "item_system (message_of_parts ''developer'' ps) = [Join (map rcp_Text ps) [byte 10, byte 10]]"
    "item_messages lib (message_of_parts ''developer'' ps) = []" "ri_outputRaw (message_of_parts ''developer'' ps) = None"
    by (simp_all add: item_system_def item_simps)
qed

lemma request_items:
  assumes "convertAnthropicToResponsesInput lib (aq_System req) (aq_Messages req) = Some items"
  obtains iss where "those (map (anthropicMsgToResponsesItems lib) (aq_Messages req)) = Some iss"
    "gather (item_messages lib) items = gather (item_messages lib) (concat iss)"
    "gather item_system items = (if system_texts req = [] then [] else [Join (system_texts req) [byte 10, byte 10]])"
    "list_all (\<lambda>i. ri_outputRaw i = None) items"
proof -
  obtain iss sys where iss: "those (map (anthropicMsgToResponsesItems lib) (aq_Messages req)) = Some iss" "items = sys @ concat iss"
      and sys: "aq_System req = None \<and> sys = [] \<or> (\<exists>j ps. aq_System req = Some j \<and> parseAnthropicSystemContentParts j = Some ps
         \<and> sys = (if ps \<noteq> [] then [message_of_parts ''developer'' ps] else []))"
    using assms by (auto simp: convertAnthropicToResponsesInput_def bind_eq_Some_conv split: option.splits)
  have "gather (item_messages lib) sys = [] \<and> list_all (\<lambda>i. ri_outputRaw i = None) sys
     \<and> gather item_system sys = (if system_texts req = [] then [] else [Join (system_texts req) [byte 10, byte 10]])"
    using sys by (auto simp: system_texts_def developer_item [OF _ system_parts])
  moreover have "list_all plain_item (concat iss)" using iss(1) by (rule messages_items_plain)
  moreover have "list_all (\<lambda>i. ri_outputRaw i = None) (concat iss)"
    using \<open>list_all plain_item (concat iss)\<close> by (auto simp: list_all_iff plain_item_def)
  ultimately show thesis using that iss plain_items_system by simp
qed

subsection \<open>Identifiers and results\<close>

definition anthropic_id :: "string \<Rightarrow> bool" where
  "anthropic_id cid \<longleftrightarrow> HasPrefix cid ''toolu_'' \<or> HasPrefix cid ''call_''"

lemma anthropic_id_kept: "anthropic_id cid \<Longrightarrow> fromResponsesCallIDToAnthropic cid = cid"
  by (auto simp: anthropic_id_def fromResponsesCallIDToAnthropic_def HasPrefix_def CutPrefix_def prefix_def)

lemma anthropic_id_nonempty: "anthropic_id cid \<Longrightarrow> cid \<noteq> []"
  by (auto simp: anthropic_id_def HasPrefix_def)

lemma tool_paired_ids: "tool_paired C ms \<Longrightarrow> set (map qb_ToolUseID (results ms)) = C \<union> set (map qb_ID (calls ms))"
proof (induction ms arbitrary: C)
  case (Cons m ms)
  have "set (map qb_ToolUseID (results ms)) = set (map qb_ID (calls [m])) \<union> set (map qb_ID (calls ms))"
    using Cons.IH [of "set (map qb_ID (calls [m]))"] Cons.prems by simp
  then show ?case using Cons.prems conversation_Cons [of m ms] by auto
qed simp

lemma result_block_id: "anthropic_id (qb_ToolUseID b) \<Longrightarrow> qb_ToolUseID (result_block b) = qb_ToolUseID b"
  by (simp add: result_block_def anthropic_id_kept zero_defs)

lemma call_block_id: "anthropic_id (qb_ID c) \<Longrightarrow> qb_ID (call_block c) = qb_ID c"
  by (simp add: call_block_def anthropic_id_kept zero_defs)

lemma last_result_unique:
  assumes rs: "results ms = map result_block rs" "distinct (map qb_ToolUseID rs)" "\<forall>b \<in> set rs. anthropic_id (qb_ToolUseID b)"
    and b: "b \<in> set rs"
  shows "last_result ms (qb_ToolUseID b) = Some (result_block b)"
proof -
  have "map qb_ToolUseID (map result_block rs) = map qb_ToolUseID rs" using rs(3) by (simp add: result_block_id)
  then have "distinct (map qb_ToolUseID (rev (map result_block rs)))" using rs(2) by (metis distinct_rev rev_map)
  then have "find (\<lambda>y. qb_ToolUseID y = qb_ToolUseID (result_block b)) (rev (map result_block rs)) = Some (result_block b)"
    by (rule find_by_key) (use b in simp)
  then show ?thesis using b rs anthropic_id_nonempty by (auto simp: last_result_def result_block_id)
qed

text \<open>What a client sees of a call and of a result.\<close>

definition call_view :: "RequestBlock \<Rightarrow> string \<times> string \<times> json" where
  "call_view c = (qb_ID c, qb_Name c, case qb_Input c of None \<Rightarrow> JObj [] | Some j \<Rightarrow> j)"

lemma call_view_block: "anthropic_id (qb_ID c) \<Longrightarrow> call_view (call_block c) = call_view c"
  by (simp add: call_view_def call_block_def anthropic_id_kept zero_defs)

lemma repaired_conversation:
  assumes calls: "calls ms = map call_block cs" and results: "results ms = map result_block rs"
    and ids: "set (map qb_ToolUseID rs) = set (map qb_ID cs)" "distinct (map qb_ToolUseID rs)" "\<forall>c \<in> set cs. anthropic_id (qb_ID c)"
  shows "calls (repair_messages ms) = map call_block cs" "set (results (repair_messages ms)) = set (map result_block rs)"
proof -
  have call: "\<exists>c \<in> set cs. qb_ID c = qb_ToolUseID b" if "b \<in> set rs" for b
  proof -
    have "qb_ToolUseID b \<in> set (map qb_ID cs)" unfolding ids(1) [symmetric] using that by simp
    then show ?thesis by auto
  qed
  have answer: "\<exists>b \<in> set rs. qb_ToolUseID b = qb_ID c" if "c \<in> set cs" for c
  proof -
    have "qb_ID c \<in> set (map qb_ToolUseID rs)" unfolding ids(1) using that by simp
    then show ?thesis by auto
  qed
  have good: "\<forall>b \<in> set rs. anthropic_id (qb_ToolUseID b)" using call ids(3) by metis
  have found: "\<exists>b \<in> set rs. last_result ms (qb_ID (call_block c)) = Some (result_block b) \<and> qb_ToolUseID b = qb_ID c" if c: "c \<in> set cs" for c
  proof -
    obtain b where "b \<in> set rs" "qb_ToolUseID b = qb_ID c" using answer [OF c] by blast
    then show ?thesis using last_result_unique [OF results ids(2) good] call_block_id [of c] ids(3) c by metis
  qed
  have kept: "calls (repair_messages ms) = filter (\<lambda>c. last_result ms (qb_ID c) \<noteq> None) (calls ms)"
      "results (repair_messages ms) = map (\<lambda>c. the (last_result ms (qb_ID c))) (calls (repair_messages ms))"
    by (simp_all add: repair_conversation)
  show calls': "calls (repair_messages ms) = map call_block cs"
    unfolding kept calls by (rule filter_True) (use found in fastforce)
  show "set (results (repair_messages ms)) = set (map result_block rs)"
  proof
    show "set (results (repair_messages ms)) \<subseteq> set (map result_block rs)"
      unfolding kept(2) calls' using found by fastforce
    show "set (map result_block rs) \<subseteq> set (results (repair_messages ms))"
    proof
      fix x assume "x \<in> set (map result_block rs)"
      then obtain b where b: "b \<in> set rs" "x = result_block b" by auto
      then obtain c where c: "c \<in> set cs" "qb_ID c = qb_ToolUseID b" using call by blast
      then have "qb_ID (call_block c) = qb_ToolUseID b" using call_block_id [of c] ids(3) by metis
      then have "last_result ms (qb_ID (call_block c)) = Some x"
        using last_result_unique [OF results ids(2) good b(1)] b(2) by simp
      then show "x \<in> set (results (repair_messages ms))" unfolding kept(2) calls' using c(1) by force
    qed
  qed
qed

subsection \<open>Properties\<close>


text \<open>A conversation with a call, its result and a question.\<close>

definition sample_call :: RequestBlock where
  "sample_call = zero_RequestBlock\<lparr>qb_Type := ''tool_use'', qb_ID := ''toolu_1'', qb_Name := ''ls'', qb_Input := Some (JObj [(''dir'', JStr ''src'')])\<rparr>"

definition sample_result :: RequestBlock where
  "sample_result = zero_RequestBlock\<lparr>qb_Type := ''tool_result'', qb_ToolUseID := ''toolu_1'', qb_Content := Some (JStr ''a.go'')\<rparr>"

definition sample_request :: AnthropicRequest where
  "sample_request = zero_AnthropicRequest\<lparr>aq_System := Some (JStr ''Be brief''), aq_Messages :=
     [anthropicMessageFromBlocks ''assistant'' [sample_call],
      anthropicMessageFromBlocks ''user'' [sample_result, text_block ''What is this?'']]\<rparr>"

lemma plain_text_ok: "reads_back plain_text"
proof -
  have "jt_parse plain_text ''{}'' = Some (JObj [])" "jt_parse plain_text [] = None" by (simp_all add: plain_text_def)
  then show ?thesis by (simp add: reads_back_def plain_text_reads_back)
qed

lemma dec_blocks [simp]: "dec_list dec_block (enc_list enc_block bs) = Some bs"
  by (rule block_codec.dec_enc_list) (simp add: list_all_iff)

lemma sample_kinds [simp]:
  "is_use sample_call" "\<not> is_result sample_call" "is_result sample_result" "\<not> is_use sample_result"
  by (simp_all add: sample_call_def sample_result_def is_use_def is_result_def zero_defs)

lemma sample_items:
  "convertAnthropicToResponsesInput plain_text (aq_System sample_request) (aq_Messages sample_request) = Some
     [message_of_parts ''developer'' [text_part ''input_text'' ''Be brief''], call_item plain_text sample_call, result_item sample_result,
      message_of_parts ''user'' [text_part ''input_text'' ''What is this?'']]"
proof -
  have "anthropicAssistantToResponses plain_text (Some (enc_list enc_block [sample_call])) = Some [call_item plain_text sample_call]"
    by (simp add: anthropicAssistantToResponses_def unmarshal_def extractAnthropicTextFromBlocks_def block_texts_def replayed_signature_def)
      (simp add: sample_call_def zero_defs)
  moreover have "anthropicUserToResponses (Some (enc_list enc_block [sample_result, text_block ''What is this?''])) =
      Some [result_item sample_result, message_of_parts ''user'' [text_part ''input_text'' ''What is this?'']]"
    by (simp add: anthropicUserToResponses_def unmarshal_def user_block_parts_def image_parts_def text_block_def)
      (simp add: sample_result_def convertToolResultOutput_def is_result_def zero_defs)
  moreover have "\<not> isAnthropicBillingHeaderText ''Be brief''"
    by (simp add: isAnthropicBillingHeaderText_def HasPrefix_def)
  ultimately show ?thesis
    by (simp add: convertAnthropicToResponsesInput_def sample_request_def zero_AnthropicRequest_def anthropicMsgToResponsesItems_def
        anthropicMessageFromBlocks_def parseAnthropicSystemContentParts_def)
qed


end
