(* ===== verification/Chat_Request.thy ===== *)
theory Chat_Request
  imports Request_To_Responses
begin

text \<open>
  Conversion of a Chat Completions request into a Responses request:
  \<open>pkg/apicompat/chatcompletions_to_responses.go\<close> and \<open>pkg/apicompat/response_format.go\<close>, and its composition
  with the conversion into an Anthropic request, by which chat clients reach Anthropic accounts
  (\<open>service/gateway_forward_as_chat_completions.go\<close>). The case tables of Unicode are an argument.
\<close>

subsection \<open>Content\<close>

datatype chatMessageContent = ChatText string | ChatParts "ChatContentPart list"

definition parseChatMessageContent :: "raw_json \<Rightarrow> chatMessageContent option" where
  "parseChatMessageContent raw =
     (case raw of
        None \<Rightarrow> Some (ChatText [])
      | Some j \<Rightarrow>
          (case dec_string j of
             Some s \<Rightarrow> Some (ChatText s)
           | None \<Rightarrow> map_option ChatParts (dec_list dec_chat_part j)))"

definition isEmptyBase64DataURI :: "string \<Rightarrow> bool" where
  "isEmptyBase64DataURI raw =
     (if \<not> HasPrefix raw ''data:'' then False
      else case split_at_byte (CHR '';'') (TrimPrefix raw ''data:'') of
             None \<Rightarrow> False
           | Some (_, rest) \<Rightarrow> HasPrefix rest ''base64,'' \<and> TrimSpace (TrimPrefix rest ''base64,'') = [])"

definition chat_part :: "ChatContentPart \<Rightarrow> ResponsesContentPart list" where
  "chat_part p =
     (if ccp_Type p = ''text'' then if ccp_Text p \<noteq> [] then [text_part ''input_text'' (ccp_Text p)] else []
      else if ccp_Type p = ''image_url'' then
        (case ccp_ImageURL p of
           Some u \<Rightarrow> if ciu_URL u \<noteq> [] \<and> \<not> isEmptyBase64DataURI (ciu_URL u) then [image_part (ciu_URL u)] else []
         | None \<Rightarrow> [])
      else if ccp_Type p = ''file'' then
        (case ccp_File p of
           Some f \<Rightarrow> if cfl_FileData f \<noteq> [] \<or> cfl_FileID f \<noteq> []
                     then [zero_ResponsesContentPart\<lparr>rcp_Type := ''input_file'', rcp_Filename := cfl_Filename f,
                             rcp_FileData := cfl_FileData f, rcp_FileID := cfl_FileID f\<rparr>] else []
         | None \<Rightarrow> [])
      else [])"

definition convertChatContentPartsToResponses :: "ChatContentPart list \<Rightarrow> ResponsesContentPart list" where
  "convertChatContentPartsToResponses parts = gather chat_part parts"

definition marshalChatInputContent :: "chatMessageContent \<Rightarrow> json" where
  "marshalChatInputContent content =
     (case content of
        ChatText s \<Rightarrow> JStr s
      | ChatParts ps \<Rightarrow>
          let parts = convertChatContentPartsToResponses ps
          in if parts = [] then JStr [] else enc_list enc_part parts)"

definition flattenChatContentParts :: "ChatContentPart list \<Rightarrow> string" where
  "flattenChatContentParts parts = Join (map ccp_Text (filter (\<lambda>p. ccp_Type p = ''text'' \<and> ccp_Text p \<noteq> []) parts)) []"

definition parseChatContent :: "raw_json \<Rightarrow> string option" where
  "parseChatContent raw =
     map_option (\<lambda>c. case c of ChatText s \<Rightarrow> s | ChatParts ps \<Rightarrow> flattenChatContentParts ps) (parseChatMessageContent raw)"

definition any_string :: "raw_json \<Rightarrow> string" where
  "any_string v = (case v of Some (JStr s) \<Rightarrow> s | _ \<Rightarrow> [])"

definition assistant_part_text :: "(string \<times> json) list \<Rightarrow> string" where
  "assistant_part_text p =
     (let typ = any_string (key ''type'' p); txt = any_string (key ''text'' p); thinking = any_string (key ''thinking'' p) in
      if typ = ''thinking'' \<or> typ = ''reasoning'' then
        if thinking \<noteq> [] then ''<thinking>'' @ thinking @ ''</thinking>''
        else if txt \<noteq> [] then ''<thinking>'' @ txt @ ''</thinking>'' else []
      else txt)"

definition parseAssistantContent :: "raw_json \<Rightarrow> string" where
  "parseAssistantContent raw =
     (case raw of
        None \<Rightarrow> []
      | Some j \<Rightarrow>
          (case dec_string j of
             Some s \<Rightarrow> s
           | None \<Rightarrow> (case dec_list dec_object j of None \<Rightarrow> [] | Some parts \<Rightarrow> gather assistant_part_text parts)))"

subsection \<open>Messages\<close>

definition chatSystemToResponses :: "RequestChatMessage \<Rightarrow> ResponsesInputItem list option" where
  "chatSystemToResponses m =
     map_option (\<lambda>c. [zero_ResponsesInputItem\<lparr>ri_Role := ''system'', ri_Content := Some (marshalChatInputContent c)\<rparr>])
       (parseChatMessageContent (qm_Content m))"

definition chatUserToResponses :: "RequestChatMessage \<Rightarrow> ResponsesInputItem list option" where
  "chatUserToResponses m =
     map_option (\<lambda>c. [zero_ResponsesInputItem\<lparr>ri_Role := ''user'', ri_Content := Some (marshalChatInputContent c)\<rparr>])
       (parseChatMessageContent (qm_Content m))"

definition assistant_text :: "RequestChatMessage \<Rightarrow> string" where
  "assistant_text m =
     (let content = (if qm_ReasoningContent m \<noteq> [] then ''<thinking>'' @ qm_ReasoningContent m @ ''</thinking>'' else []);
          s = parseAssistantContent (qm_Content m)
      in if s = [] then content else if content \<noteq> [] then content @ [byte 10] @ s else s)"

definition chat_call_item :: "ChatToolCall \<Rightarrow> ResponsesInputItem" where
  "chat_call_item tc = zero_ResponsesInputItem\<lparr>ri_Type := ''function_call'', ri_CallID := ctc_ID tc, ri_Name := cfc_Name (ctc_Function tc),
     ri_Arguments := (if cfc_Arguments (ctc_Function tc) = [] then ''{}'' else cfc_Arguments (ctc_Function tc))\<rparr>"

definition chatAssistantToResponses :: "RequestChatMessage \<Rightarrow> ResponsesInputItem list" where
  "chatAssistantToResponses m =
     (if assistant_text m \<noteq> []
      then [zero_ResponsesInputItem\<lparr>ri_Role := ''assistant'', ri_Content := Some (enc_list enc_part [text_part ''output_text'' (assistant_text m)])\<rparr>]
      else []) @ map chat_call_item (qm_ToolCalls m)"

definition output_item :: "string \<Rightarrow> string \<Rightarrow> ResponsesInputItem" where
  "output_item cid out = zero_ResponsesInputItem\<lparr>ri_Type := ''function_call_output'', ri_CallID := cid,
     ri_Output := (if out = [] then ''(empty)'' else out)\<rparr>"

definition chatToolToResponses :: "RequestChatMessage \<Rightarrow> ResponsesInputItem list option" where
  "chatToolToResponses m = map_option (\<lambda>out. [output_item (qm_ToolCallID m) out]) (parseChatContent (qm_Content m))"

definition chatFunctionToResponses :: "RequestChatMessage \<Rightarrow> ResponsesInputItem list option" where
  "chatFunctionToResponses m = map_option (\<lambda>out. [output_item (qm_Name m) out]) (parseChatContent (qm_Content m))"

definition chatMessageToResponsesItems :: "RequestChatMessage \<Rightarrow> ResponsesInputItem list option" where
  "chatMessageToResponsesItems m =
     (if qm_Role m = ''system'' then chatSystemToResponses m
      else if qm_Role m = ''user'' then chatUserToResponses m
      else if qm_Role m = ''assistant'' then Some (chatAssistantToResponses m)
      else if qm_Role m = ''tool'' then chatToolToResponses m
      else if qm_Role m = ''function'' then chatFunctionToResponses m
      else chatUserToResponses m)"

definition convertChatMessagesToResponsesInput :: "RequestChatMessage list \<Rightarrow> ResponsesInputItem list option" where
  "convertChatMessagesToResponsesInput msgs = map_option concat (those (map chatMessageToResponsesItems msgs))"

subsection \<open>Tools and parameters\<close>

definition defaultStrictFalse :: "bool option \<Rightarrow> bool option" where
  "defaultStrictFalse src = (case src of None \<Rightarrow> Some False | Some b \<Rightarrow> Some b)"

definition function_tool :: "ChatFunction \<Rightarrow> ResponsesTool" where
  "function_tool f = zero_ResponsesTool\<lparr>rt_Type := ''function'', rt_Name := cf_Name f, rt_Description := cf_Description f,
     rt_Parameters := cf_Parameters f, rt_Strict := defaultStrictFalse (cf_Strict f)\<rparr>"

definition chat_tool :: "(string \<Rightarrow> string) \<Rightarrow> ChatTool \<Rightarrow> ResponsesTool list" where
  "chat_tool uni t =
     (let toolType = ToLower uni (TrimSpace (ct_Type t)) in
      if toolType = ''x_search''
      then [zero_ResponsesTool\<lparr>rt_Type := ''x_search'', rt_AllowedXHandles := ct_AllowedXHandles t, rt_ExcludedXHandles := ct_ExcludedXHandles t,
              rt_FromDate := ct_FromDate t, rt_ToDate := ct_ToDate t, rt_EnableImageUnderstanding := ct_EnableImageUnderstanding t,
              rt_EnableVideoUnderstanding := ct_EnableVideoUnderstanding t\<rparr>]
      else if toolType = ''web_search'' \<or> toolType = ''code_execution'' then [zero_ResponsesTool\<lparr>rt_Type := toolType\<rparr>]
      else if ct_Type t \<noteq> ''function'' then []
      else (case ct_Function t of None \<Rightarrow> [] | Some f \<Rightarrow> [function_tool f]))"

definition convertChatToolsToResponses :: "(string \<Rightarrow> string) \<Rightarrow> ChatTool list \<Rightarrow> ChatFunction list \<Rightarrow> ResponsesTool list" where
  "convertChatToolsToResponses uni tools functions = gather (chat_tool uni) tools @ map function_tool functions"

definition convertChatFunctionCallToToolChoice :: "json \<Rightarrow> json option" where
  "convertChatFunctionCallToToolChoice raw =
     (case dec_string raw of
        Some s \<Rightarrow> Some (JStr s)
      | None \<Rightarrow> do {kvs \<leftarrow> dec_object raw; n \<leftarrow> fstr ''name'' kvs; Some (JObj [(''name'', JStr n), (''type'', JStr ''function'')])})"

definition normalizedRawJSON :: "raw_json \<Rightarrow> raw_json" where
  "normalizedRawJSON raw = (if raw = Some JNull then None else raw)"

definition rawString :: "raw_json \<Rightarrow> string" where
  "rawString raw = (case Option.bind (normalizedRawJSON raw) dec_string of Some s \<Rightarrow> s | None \<Rightarrow> [])"

definition chatResponseFormatToResponsesTextFormat :: "raw_json \<Rightarrow> raw_json" where
  "chatResponseFormatToResponsesTextFormat raw =
     (case normalizedRawJSON raw of
        None \<Rightarrow> None
      | Some j \<Rightarrow>
          (case dec_object j of
             None \<Rightarrow> Some j
           | Some obj \<Rightarrow>
               if rawString (key ''type'' obj) \<noteq> ''json_schema'' then Some j
               else (case normalizedRawJSON (key ''json_schema'' obj) of
                       None \<Rightarrow> Some j
                     | Some schemaRaw \<Rightarrow>
                         (case dec_object schemaRaw of
                            None \<Rightarrow> Some j
                          | Some schema \<Rightarrow> Some (JObj (set_key ''type'' (JStr ''json_schema'') schema))))))"

definition ChatCompletionsToResponses :: "(string \<Rightarrow> string) \<Rightarrow> ChatCompletionsRequest \<Rightarrow> ResponsesRequest option" where
  "ChatCompletionsToResponses uni req = do {
     input \<leftarrow> convertChatMessagesToResponsesInput (cq_Messages req);
     toolChoice \<leftarrow> (case cq_ToolChoice req of
                      Some tc \<Rightarrow> Some (Some tc)
                    | None \<Rightarrow> (case cq_FunctionCall req of
                                None \<Rightarrow> Some None
                              | Some fc \<Rightarrow> map_option Some (convertChatFunctionCallToToolChoice fc)));
     let maxTokens = (case cq_MaxCompletionTokens req of Some v \<Rightarrow> v | None \<Rightarrow> (case cq_MaxTokens req of Some v \<Rightarrow> v | None \<Rightarrow> 0));
     let format = chatResponseFormatToResponsesTextFormat (cq_ResponseFormat req);
     Some (zero_ResponsesRequest
       \<lparr>rq_Model := cq_Model req, rq_Instructions := cq_Instructions req, rq_Input := Some (enc_list enc_item input), rq_Stream := True,
        rq_Include := [''reasoning.encrypted_content''], rq_ServiceTier := cq_ServiceTier req,
        rq_ParallelToolCalls := cq_ParallelToolCalls req,
        rq_Temperature := (if isReasoningModel (cq_Model req) then None else cq_Temperature req),
        rq_TopP := (if isReasoningModel (cq_Model req) then None else cq_TopP req),
        rq_Store := Some False,
        rq_MaxOutputTokens := (if 0 < maxTokens then Some (max maxTokens minMaxOutputTokens) else None),
        rq_Reasoning := (if cq_ReasoningEffort req \<noteq> [] then Some \<lparr>rrs_Effort = cq_ReasoningEffort req, rrs_Summary = ''auto''\<rparr> else None),
        rq_Text := (case format of None \<Rightarrow> None | Some f \<Rightarrow> Some \<lparr>rtx_Format = Some f, rtx_Verbosity = []\<rparr>),
        rq_Tools := convertChatToolsToResponses uni (cq_Tools req) (cq_Functions req),
        rq_ToolChoice := toolChoice\<rparr>)}"

subsection \<open>From a chat message to Anthropic messages\<close>

definition chat_calls :: "RequestChatMessage \<Rightarrow> ChatToolCall list" where
  "chat_calls m = (if qm_Role m = ''assistant'' then qm_ToolCalls m else [])"

text \<open>The results a message gives, with the call they belong to.\<close>

definition chat_results :: "RequestChatMessage \<Rightarrow> (string \<times> string) list" where
  "chat_results m =
     (if qm_Role m = ''tool'' \<or> qm_Role m = ''function'' then
        (case parseChatContent (qm_Content m) of
           None \<Rightarrow> []
         | Some out \<Rightarrow> [(if qm_Role m = ''tool'' then qm_ToolCallID m else qm_Name m, if out = [] then ''(empty)'' else out)])
      else [])"

definition chat_said :: "RequestChatMessage \<Rightarrow> (string \<times> RequestBlock) list" where
  "chat_said m =
     (if qm_Role m = ''assistant''
      then if TrimSpace (assistant_text m) = [] then [] else [(''assistant'', text_block (assistant_text m))]
      else if qm_Role m \<in> {''system'', ''tool'', ''function''} then []
      else (case parseChatMessageContent (qm_Content m) of
              None \<Rightarrow> []
            | Some (ChatText t) \<Rightarrow> if t = [] then [] else [(''user'', text_block t)]
            | Some (ChatParts ps) \<Rightarrow> map (Pair ''user'') (gather user_part_blocks (convertChatContentPartsToResponses ps))))"

definition arguments_read :: "json_text \<Rightarrow> ChatToolCall \<Rightarrow> bool" where
  "arguments_read lib tc \<longleftrightarrow> jt_parse lib ''{}'' = Some (JObj [])
     \<and> (cfc_Arguments (ctc_Function tc) \<noteq> [] \<longrightarrow> jt_parse lib (cfc_Arguments (ctc_Function tc)) \<noteq> None)"

definition chat_input :: "json_text \<Rightarrow> ChatToolCall \<Rightarrow> json" where
  "chat_input lib tc = (if cfc_Arguments (ctc_Function tc) = [] then JObj [] else the (jt_parse lib (cfc_Arguments (ctc_Function tc))))"

definition chat_call_block :: "json_text \<Rightarrow> ChatToolCall \<Rightarrow> RequestBlock" where
  "chat_call_block lib tc = zero_RequestBlock\<lparr>qb_Type := ''tool_use'', qb_ID := fromResponsesCallIDToAnthropic (ctc_ID tc),
     qb_Name := cfc_Name (ctc_Function tc), qb_Input := Some (chat_input lib tc)\<rparr>"

definition output_block :: "string \<times> string \<Rightarrow> RequestBlock" where
  "output_block r = zero_RequestBlock\<lparr>qb_Type := ''tool_result'', qb_ToolUseID := fromResponsesCallIDToAnthropic (fst r),
     qb_Content := Some (JStr (snd r))\<rparr>"

lemma item_messages_chat_call:
  "arguments_read lib tc \<Longrightarrow> item_messages lib (chat_call_item tc) = [anthropicMessageFromBlocks ''assistant'' [chat_call_block lib tc]]"
  by (auto simp: item_messages_def convert_item_def chat_call_item_def chat_call_block_def chat_input_def arguments_read_def
      anthropicMessageFromBlocks_def zero_ResponsesInputItem_def Let_def)

lemma item_messages_output:
  "item_messages lib (output_item cid out) = [anthropicMessageFromBlocks ''user'' [output_block (cid, if out = [] then ''(empty)'' else out)]]"
  by (simp add: item_messages_def convert_item_def output_item_def output_block_def responsesFunctionOutputToAnthropicContent_def
      anthropicMessageFromBlocks_def zero_ResponsesInputItem_def Let_def)

lemma chat_calls_conversation:
  assumes "list_all (arguments_read lib) tcs"
  shows "spoken (gather (item_messages lib) (map chat_call_item tcs)) = [] \<and> results (gather (item_messages lib) (map chat_call_item tcs)) = []
    \<and> calls (gather (item_messages lib) (map chat_call_item tcs)) = map (chat_call_block lib) tcs"
  using assms
  by (induction tcs)
    (simp_all add: item_messages_chat_call conversation_Cons [of _ "gather _ _"] user_message_conversation is_use_def chat_call_block_def zero_defs)

text \<open>A message item of a role, whatever its type says, is converted like one that is marked as a message.\<close>

lemma item_messages_role:
  assumes "role = ''user'' \<or> role = ''assistant''" "ps \<noteq> []"
  shows "item_messages lib (zero_ResponsesInputItem\<lparr>ri_Role := role, ri_Content := Some (enc_list enc_part ps)\<rparr>)
    = item_messages lib (message_of_parts role ps)"
  using assms by (auto simp: item_messages_def convert_item_def message_of_parts_def zero_ResponsesInputItem_def Let_def)

lemma item_messages_text:
  "item_messages lib (zero_ResponsesInputItem\<lparr>ri_Role := ''user'', ri_Content := Some (JStr t)\<rparr>)
     = (if t = [] then [] else [\<lparr>am_Role = ''user'', am_Content = Some (JStr t)\<rparr>])"
  by (simp add: item_messages_def convert_item_def convertResponsesUserToAnthropicContent_def anthropicContentIsEmpty_def
      zero_ResponsesInputItem_def Let_def)

lemma parse_text: "parseContentBlocks (Some (JStr t)) = [text_block t]"
  by (simp add: parseContentBlocks_def unmarshal_def text_block_def)

lemma text_conversation:
  "spoken [\<lparr>am_Role = ''user'', am_Content = Some (JStr t)\<rparr>] = [(''user'', text_block t)]"
  "calls [\<lparr>am_Role = ''user'', am_Content = Some (JStr t)\<rparr>] = []" "results [\<lparr>am_Role = ''user'', am_Content = Some (JStr t)\<rparr>] = []"
  by (simp_all add: conversation_single parse_text)

lemma chat_user_items:
  assumes "chatUserToResponses m = Some is"
  shows "spoken (gather (item_messages lib) is) =
       (case parseChatMessageContent (qm_Content m) of
          None \<Rightarrow> []
        | Some (ChatText t) \<Rightarrow> if t = [] then [] else [(''user'', text_block t)]
        | Some (ChatParts ps) \<Rightarrow> map (Pair ''user'') (gather user_part_blocks (convertChatContentPartsToResponses ps)))
    \<and> calls (gather (item_messages lib) is) = [] \<and> results (gather (item_messages lib) is) = []"
proof -
  obtain c where c: "parseChatMessageContent (qm_Content m) = Some c"
      "is = [zero_ResponsesInputItem\<lparr>ri_Role := ''user'', ri_Content := Some (marshalChatInputContent c)\<rparr>]"
    using assms by (auto simp: chatUserToResponses_def)
  show ?thesis
  proof (cases c)
    case (ChatText t)
    then show ?thesis using c by (simp add: marshalChatInputContent_def item_messages_text text_conversation)
  next
    case (ChatParts ps)
    let ?parts = "convertChatContentPartsToResponses ps"
    have "gather (item_messages lib) is = gather (item_messages lib) (if ?parts \<noteq> [] then [message_of_parts ''user'' ?parts] else [])"
      using c ChatParts item_messages_text [of lib "[]"]
      by (simp add: marshalChatInputContent_def Let_def item_messages_role)
    then show ?thesis using c ChatParts user_parts_conversation [of _ lib ?parts] by simp
  qed
qed

lemma chat_assistant_items:
  assumes "list_all (arguments_read lib) (qm_ToolCalls m)"
  shows "spoken (gather (item_messages lib) (chatAssistantToResponses m)) =
       (if TrimSpace (assistant_text m) = [] then [] else [(''assistant'', text_block (assistant_text m))])
    \<and> calls (gather (item_messages lib) (chatAssistantToResponses m)) = map (chat_call_block lib) (qm_ToolCalls m)
    \<and> results (gather (item_messages lib) (chatAssistantToResponses m)) = []"
  using chat_calls_conversation [OF assms]
  by (simp add: chatAssistantToResponses_def conversation_append item_messages_role item_messages_assistant user_message_conversation)

lemma chat_message_items:
  assumes conv: "chatMessageToResponsesItems m = Some is" and args: "list_all (arguments_read lib) (chat_calls m)"
  shows "spoken (gather (item_messages lib) is) = chat_said m
    \<and> calls (gather (item_messages lib) is) = map (chat_call_block lib) (chat_calls m)
    \<and> results (gather (item_messages lib) is) = map output_block (chat_results m)"
proof -
  consider (sys) "qm_Role m = ''system''" | (asst) "qm_Role m = ''assistant''" | (res) "qm_Role m = ''tool'' \<or> qm_Role m = ''function''"
    | (user) "qm_Role m \<notin> {''system'', ''assistant'', ''tool'', ''function''}" by blast
  then show ?thesis
  proof cases
    case sys
    then show ?thesis
      using conv by (auto simp: chatMessageToResponsesItems_def chatSystemToResponses_def chat_said_def chat_calls_def chat_results_def
          item_messages_def convert_item_def zero_ResponsesInputItem_def Let_def)
  next
    case asst
    then show ?thesis
      using conv args chat_assistant_items [of lib m]
      by (simp add: chatMessageToResponsesItems_def chat_said_def chat_calls_def chat_results_def)
  next
    case res
    then obtain out where "parseChatContent (qm_Content m) = Some out" "is = [output_item (if qm_Role m = ''tool'' then qm_ToolCallID m else qm_Name m) out]"
      using conv by (auto simp: chatMessageToResponsesItems_def chatToolToResponses_def chatFunctionToResponses_def)
    then show ?thesis
      using res by (auto simp: item_messages_output user_message_conversation chat_said_def chat_calls_def chat_results_def
          output_block_def is_result_def zero_defs)
  next
    case user
    then have "chatUserToResponses m = Some is" using conv by (simp add: chatMessageToResponsesItems_def split: if_splits)
    then show ?thesis using user chat_user_items [of m "is" lib] by (simp add: chat_said_def chat_calls_def chat_results_def)
  qed
qed

lemma chat_messages_items:
  assumes conv: "those (map chatMessageToResponsesItems msgs) = Some iss" and args: "list_all (arguments_read lib) (gather chat_calls msgs)"
  shows "spoken (gather (item_messages lib) (concat iss)) = gather chat_said msgs
    \<and> calls (gather (item_messages lib) (concat iss)) = map (chat_call_block lib) (gather chat_calls msgs)
    \<and> results (gather (item_messages lib) (concat iss)) = map output_block (gather chat_results msgs)"
  using assms
proof (induction msgs arbitrary: iss)
  case (Cons m msgs)
  then obtain i is' where i: "chatMessageToResponsesItems m = Some i" "those (map chatMessageToResponsesItems msgs) = Some is'" "iss = i # is'"
    unfolding list.map those_Cons_Some by blast
  then show ?case
    using Cons.IH [OF i(2)] Cons.prems(2) chat_message_items [OF i(1), of lib] by (simp add: conversation_append)
qed simp

subsection \<open>Whole requests\<close>

lemma chat_message_plain: "chatMessageToResponsesItems m = Some is \<Longrightarrow> list_all (\<lambda>i. ri_outputRaw i = None) is"
  by (auto simp: chatMessageToResponsesItems_def chatSystemToResponses_def chatUserToResponses_def chatAssistantToResponses_def
      chatToolToResponses_def chatFunctionToResponses_def output_item_def chat_call_item_def zero_ResponsesInputItem_def list_all_iff split: if_splits)

lemma chat_messages_plain: "those (map chatMessageToResponsesItems msgs) = Some iss \<Longrightarrow> list_all (\<lambda>i. ri_outputRaw i = None) (concat iss)"
proof (induction msgs arbitrary: iss)
  case (Cons m msgs)
  then show ?case unfolding list.map those_Cons_Some by (auto simp: chat_message_plain)
qed simp

lemma output_block_id: "anthropic_id (fst r) \<Longrightarrow> qb_ToolUseID (output_block r) = fst r"
  by (simp add: output_block_def anthropic_id_kept zero_defs)

lemma find_output:
  "\<forall>r \<in> set rs. anthropic_id (fst r) \<Longrightarrow> find (\<lambda>b. qb_ToolUseID b = cid) (map output_block rs) = map_option (\<lambda>out. output_block (cid, out)) (map_of rs cid)"
  by (induction rs) (auto simp: output_block_id)

lemma last_result_outputs:
  assumes "results ms = map output_block rs" "\<forall>r \<in> set rs. anthropic_id (fst r)" "cid \<noteq> []"
  shows "last_result ms cid = map_option (\<lambda>out. output_block (cid, out)) (map_of (rev rs) cid)"
  using assms find_output [of "rev rs" cid] by (simp add: last_result_def rev_map)

definition chat_call_view :: "json_text \<Rightarrow> ChatToolCall \<Rightarrow> string \<times> string \<times> json" where
  "chat_call_view lib tc = (ctc_ID tc, cfc_Name (ctc_Function tc), chat_input lib tc)"

definition answered_calls :: "ChatCompletionsRequest \<Rightarrow> ChatToolCall list" where
  "answered_calls req = filter (\<lambda>tc. map_of (rev (gather chat_results (cq_Messages req))) (ctc_ID tc) \<noteq> None) (gather chat_calls (cq_Messages req))"

lemma chat_repaired:
  assumes calls: "calls ms = map (chat_call_block lib) tcs" and results: "results ms = map output_block rs"
    and ids: "\<forall>tc \<in> set tcs. anthropic_id (ctc_ID tc)" "\<forall>r \<in> set rs. anthropic_id (fst r)"
  shows "calls (repair_messages ms) = map (chat_call_block lib) (filter (\<lambda>tc. map_of (rev rs) (ctc_ID tc) \<noteq> None) tcs)"
    "results (repair_messages ms) = map (\<lambda>tc. output_block (ctc_ID tc, the (map_of (rev rs) (ctc_ID tc)))) (filter (\<lambda>tc. map_of (rev rs) (ctc_ID tc) \<noteq> None) tcs)"
proof -
  have bid: "qb_ID (chat_call_block lib tc) = ctc_ID tc" if "tc \<in> set tcs" for tc
    using ids(1) that by (simp add: chat_call_block_def anthropic_id_kept zero_defs)
  have found: "last_result ms (ctc_ID tc) = map_option (\<lambda>out. output_block (ctc_ID tc, out)) (map_of (rev rs) (ctc_ID tc))"
    if tc: "tc \<in> set tcs" for tc
  proof (rule last_result_outputs [OF results ids(2)])
    show "ctc_ID tc \<noteq> []" using ids(1) tc anthropic_id_nonempty by blast
  qed
  have "filter (\<lambda>tc. last_result ms (qb_ID (chat_call_block lib tc)) \<noteq> None) tcs = filter (\<lambda>tc. map_of (rev rs) (ctc_ID tc) \<noteq> None) tcs"
    by (rule filter_cong) (simp_all add: bid found)
  then show c: "calls (repair_messages ms) = map (chat_call_block lib) (filter (\<lambda>tc. map_of (rev rs) (ctc_ID tc) \<noteq> None) tcs)"
    by (simp add: repair_conversation calls filter_map o_def)
  show "results (repair_messages ms) = map (\<lambda>tc. output_block (ctc_ID tc, the (map_of (rev rs) (ctc_ID tc)))) (filter (\<lambda>tc. map_of (rev rs) (ctc_ID tc) \<noteq> None) tcs)"
    unfolding repair_conversation(3) [of ms] c by (auto simp: bid found)
qed


subsection \<open>An example\<close>

definition sample_chat_call :: ChatToolCall where
  "sample_chat_call = zero_ChatToolCall\<lparr>ctc_ID := ''call_1'', ctc_Function := \<lparr>cfc_Name = ''ls'', cfc_Arguments = []\<rparr>\<rparr>"

definition sample_chat :: ChatCompletionsRequest where
  "sample_chat = zero_ChatCompletionsRequest\<lparr>cq_Messages :=
     [zero_RequestChatMessage\<lparr>qm_Role := ''user'', qm_Content := Some (JStr ''List the files'')\<rparr>,
      zero_RequestChatMessage\<lparr>qm_Role := ''assistant'', qm_ToolCalls := [sample_chat_call]\<rparr>,
      zero_RequestChatMessage\<lparr>qm_Role := ''tool'', qm_ToolCallID := ''call_1'', qm_Content := Some (JStr ''a.go'')\<rparr>]\<rparr>"

lemmas sample_chat_defs = sample_chat_def zero_ChatCompletionsRequest_def zero_RequestChatMessage_def

lemma sample_chat_conversation:
  "gather chat_calls (cq_Messages sample_chat) = [sample_chat_call]"
  "gather chat_results (cq_Messages sample_chat) = [(''call_1'', ''a.go'')]"
  "gather chat_said (cq_Messages sample_chat) = [(''user'', text_block ''List the files'')]"
  by (simp_all add: sample_chat_defs chat_calls_def chat_results_def chat_said_def parseChatContent_def parseChatMessageContent_def
      assistant_text_def parseAssistantContent_def)

lemma sample_chat_converts:
  "\<exists>r. ChatCompletionsToResponses id sample_chat = Some r \<and> rq_Input r \<noteq> Some JNull"
  by (simp add: ChatCompletionsToResponses_def sample_chat_defs convertChatMessagesToResponsesInput_def chatMessageToResponsesItems_def
      chatUserToResponses_def chatToolToResponses_def parseChatContent_def parseChatMessageContent_def enc_list_def zero_ResponsesRequest_def Let_def)


text \<open>
  The legacy form of a tool call is lost on the way: an assistant message that calls a function by \<open>function_call\<close> becomes no
  item at all, while the \<open>function\<close> message that answers it becomes an output for a call that no longer exists.
\<close>

lemma legacy_call_is_lost:
  "chatMessageToResponsesItems (zero_RequestChatMessage\<lparr>qm_Role := ''assistant'', qm_FunctionCall := Some fc\<rparr>) = Some []"
  "chatMessageToResponsesItems (zero_RequestChatMessage\<lparr>qm_Role := ''function'', qm_Name := cfc_Name fc, qm_Content := Some (JStr out)\<rparr>)
     = Some [output_item (cfc_Name fc) out]"
  by (simp_all add: chatMessageToResponsesItems_def chatAssistantToResponses_def assistant_text_def parseAssistantContent_def
      chatFunctionToResponses_def parseChatContent_def parseChatMessageContent_def zero_RequestChatMessage_def)

end
