(* ===== verification/Composite_Route.thy ===== *)
theory Composite_Route
  imports Go_Json
begin

text \<open>
  Routing of composite groups. A composite group serves several providers; which one handles a request is
  decided by its model: by an explicit route of the group, by the accounts that claim the model, or by the
  name of the model. Modelled are \<open>service/composite_model_route.go\<close>,
  \<open>service/composite_route_resolver.go\<close>, \<open>service/composite_platform.go\<close>, the management of routes in
  \<open>service/admin_group.go\<close>, the ownership of models in \<open>service/gateway_service.go\<close>, and
  \<open>repository/composite_model_route_repo.go\<close> on a table of rows.

  A row keeps a mark instead of being deleted. What the table enforces is in \<open>validated\<close> (the validators of
  \<open>ent/schema/composite_model_route.go\<close>), in \<open>checked\<close> and in the unique key of the rows without the mark
  (migrations 172 and 227). Statements can fail for other reasons; that is the argument \<open>fault\<close>. What the
  cache of model lists returns is an argument, too.

  Shown: the table keeps its invariant under every sequence of statements of the service; the route chosen is
  the exact one or else the longest prefix, the route of the endpoint before the route of every endpoint, and
  priorities never matter; the provider chosen is always a concrete one and never a guess between two; a
  decision stays as it is for the rest of the request; a new route takes effect.
\<close>

subsection \<open>Routes\<close>

datatype route_error =
    ErrCompositeRouteNotFound | ErrCompositeRouteExists | ErrPublicModelRequired | ErrTargetPlatformNotConcrete
  | ErrNotComposite | ErrRouteStore

record CompositeModelRoute =
  cr_ID :: int
  cr_GroupID :: int
  cr_PublicModel :: string
  cr_MatchType :: string
  cr_TargetPlatform :: string
  cr_UpstreamModel :: string
  cr_Endpoint :: string
  cr_Priority :: int
  cr_Enabled :: bool
  cr_Notes :: string
  cr_CreatedAt :: int
  cr_UpdatedAt :: int

record CompositeRouteInput =
  ci_PublicModel :: string
  ci_MatchType :: string
  ci_TargetPlatform :: string
  ci_UpstreamModel :: string
  ci_Endpoint :: string
  ci_Priority :: int
  ci_Enabled :: bool
  ci_Notes :: string

record CompositeRouteDecision =
  cd_Matched :: bool
  cd_Source :: string
  cd_GroupID :: int
  cd_PublicModel :: string
  cd_TargetPlatform :: string
  cd_UpstreamModel :: string
  cd_Endpoint :: string
  cd_Route :: "CompositeModelRoute option"
  cd_Reason :: string

definition zero_CompositeRouteDecision :: CompositeRouteDecision where
  [zero_defs]: "zero_CompositeRouteDecision =
     \<lparr>cd_Matched = False, cd_Source = [], cd_GroupID = 0, cd_PublicModel = [], cd_TargetPlatform = [], cd_UpstreamModel = [],
      cd_Endpoint = [], cd_Route = None, cd_Reason = []\<rparr>"

record CompositeModelOwnership =
  co_TargetPlatform :: string
  co_Matched :: bool
  co_Ambiguous :: bool

definition route_endpoints :: "string list" where
  "route_endpoints = [''messages'', ''count_tokens'', ''responses'', ''chat_completions'', ''embeddings'', ''images'', ''gemini'']"

definition normalizeCompositeRouteEndpoint :: "(string \<Rightarrow> string) \<Rightarrow> string \<Rightarrow> string" where
  "normalizeCompositeRouteEndpoint uni endpoint =
     (let e = ToLower uni (TrimSpace endpoint) in if e = [] then ''any'' else if e \<in> set route_endpoints then e else ''any'')"

definition normalizeCompositeRouteMatchType :: "(string \<Rightarrow> string) \<Rightarrow> string \<Rightarrow> string" where
  "normalizeCompositeRouteMatchType uni matchType =
     (if ToLower uni (TrimSpace matchType) = ''prefix'' then ''prefix'' else ''exact'')"

definition normalizeCompositeRouteInput :: "(string \<Rightarrow> string) \<Rightarrow> CompositeRouteInput \<Rightarrow> CompositeRouteInput" where
  "normalizeCompositeRouteInput uni input =
     (let publicModel = TrimSpace (ci_PublicModel input);
          matchType = normalizeCompositeRouteMatchType uni (ci_MatchType input);
          upstream = TrimSpace (ci_UpstreamModel input)
      in input\<lparr>ci_PublicModel := publicModel, ci_MatchType := matchType, ci_TargetPlatform := TrimSpace (ci_TargetPlatform input),
           ci_UpstreamModel := (if upstream = [] \<and> matchType = ''exact'' then publicModel else upstream),
           ci_Endpoint := normalizeCompositeRouteEndpoint uni (ci_Endpoint input), ci_Notes := TrimSpace (ci_Notes input)\<rparr>)"

definition isConcreteRequestPlatform :: "string \<Rightarrow> bool" where
  "isConcreteRequestPlatform platform =
     (platform \<in> set [''anthropic'', ''openai'', ''gemini'', ''antigravity'', ''grok'', ''kimi'', ''zhipu'', ''deepseek''])"

definition compositeRouteFromInput :: "(string \<Rightarrow> string) \<Rightarrow> int \<Rightarrow> CompositeRouteInput \<Rightarrow> route_error + CompositeModelRoute" where
  "compositeRouteFromInput uni groupID inp =
     (let input = normalizeCompositeRouteInput uni inp in
      if ci_PublicModel input = [] then Inl ErrPublicModelRequired
      else if \<not> isConcreteRequestPlatform (ci_TargetPlatform input) then Inl ErrTargetPlatformNotConcrete
      else Inr \<lparr>cr_ID = 0, cr_GroupID = groupID, cr_PublicModel = ci_PublicModel input, cr_MatchType = ci_MatchType input,
             cr_TargetPlatform = ci_TargetPlatform input, cr_UpstreamModel = ci_UpstreamModel input, cr_Endpoint = ci_Endpoint input,
             cr_Priority = (if ci_Priority input = 0 then 100 else ci_Priority input), cr_Enabled = ci_Enabled input,
             cr_Notes = ci_Notes input, cr_CreatedAt = 0, cr_UpdatedAt = 0\<rparr>)"

subsection \<open>The table of routes\<close>

record route_row =
  rr_route :: CompositeModelRoute
  rr_deleted :: bool

definition active :: "route_row list \<Rightarrow> CompositeModelRoute list" where
  "active db = map rr_route (filter (\<lambda>w. \<not> rr_deleted w) db)"

definition route_key :: "CompositeModelRoute \<Rightarrow> int \<times> string \<times> string \<times> string" where
  "route_key r = (cr_GroupID r, cr_Endpoint r, cr_MatchType r, cr_PublicModel r)"

definition validated :: "CompositeModelRoute \<Rightarrow> bool" where
  "validated r \<longleftrightarrow> cr_PublicModel r \<noteq> [] \<and> length (cr_PublicModel r) \<le> 200 \<and> length (cr_MatchType r) \<le> 20
     \<and> length (cr_TargetPlatform r) \<le> 50 \<and> length (cr_UpstreamModel r) \<le> 200 \<and> length (cr_Endpoint r) \<le> 50"

definition checked :: "CompositeModelRoute \<Rightarrow> bool" where
  "checked r \<longleftrightarrow> cr_MatchType r \<in> {''exact'', ''prefix''} \<and> (cr_Endpoint r = ''any'' \<or> cr_Endpoint r \<in> set route_endpoints)
     \<and> isConcreteRequestPlatform (cr_TargetPlatform r) \<and> - (2 ^ 31) \<le> cr_Priority r \<and> cr_Priority r < 2 ^ 31"

definition ListByGroup :: "route_row list \<Rightarrow> int \<Rightarrow> bool \<Rightarrow> CompositeModelRoute list" where
  "ListByGroup db groupID includeDisabled =
     sort_key cr_Priority (sort_key cr_ID (filter (\<lambda>r. cr_GroupID r = groupID \<and> (includeDisabled \<or> cr_Enabled r)) (active db)))"

text \<open>\<open>Create\<close>; \<open>known\<close> says whether the group exists.\<close>

definition route_Create :: "bool \<Rightarrow> bool \<Rightarrow> int \<Rightarrow> int \<Rightarrow> CompositeModelRoute \<Rightarrow> route_row list \<Rightarrow> route_error + (route_row list \<times> CompositeModelRoute)" where
  "route_Create fault known now newID route db =
     (if fault \<or> \<not> validated route \<or> \<not> checked route then Inl ErrRouteStore
      else if route_key route \<in> route_key ` set (active db) then Inl ErrCompositeRouteExists
      else if \<not> known then Inl ErrRouteStore
      else let r = route\<lparr>cr_ID := newID, cr_CreatedAt := now, cr_UpdatedAt := now\<rparr>
           in Inr (db @ [\<lparr>rr_route = r, rr_deleted = False\<rparr>], r))"

definition updated_route :: "int \<Rightarrow> CompositeModelRoute \<Rightarrow> CompositeModelRoute \<Rightarrow> CompositeModelRoute" where
  "updated_route now route r = r\<lparr>cr_PublicModel := cr_PublicModel route, cr_MatchType := cr_MatchType route,
     cr_TargetPlatform := cr_TargetPlatform route, cr_UpstreamModel := cr_UpstreamModel route, cr_Endpoint := cr_Endpoint route,
     cr_Priority := cr_Priority route, cr_Enabled := cr_Enabled route, cr_Notes := cr_Notes route, cr_UpdatedAt := now\<rparr>"

definition route_Update :: "bool \<Rightarrow> int \<Rightarrow> CompositeModelRoute \<Rightarrow> route_row list \<Rightarrow> route_error + (route_row list \<times> CompositeModelRoute)" where
  "route_Update fault now route db =
     (if fault \<or> \<not> validated route then Inl ErrRouteStore
      else case find (\<lambda>w. cr_ID (rr_route w) = cr_ID route) db of
             None \<Rightarrow> Inl ErrCompositeRouteNotFound
           | Some w \<Rightarrow>
               let r = updated_route now route (rr_route w) in
               if \<not> checked r then Inl ErrRouteStore
               else if \<not> rr_deleted w \<and> (\<exists>v \<in> set (active db). cr_ID v \<noteq> cr_ID r \<and> route_key v = route_key r) then Inl ErrCompositeRouteExists
               else Inr (map (\<lambda>v. if cr_ID (rr_route v) = cr_ID route then v\<lparr>rr_route := r\<rparr> else v) db, r))"

definition mark_deleted :: "(CompositeModelRoute \<Rightarrow> bool) \<Rightarrow> int \<Rightarrow> route_row list \<Rightarrow> route_row list" where
  "mark_deleted P now db =
     map (\<lambda>v. if P (rr_route v) \<and> \<not> rr_deleted v then \<lparr>rr_route = (rr_route v)\<lparr>cr_UpdatedAt := now\<rparr>, rr_deleted = True\<rparr> else v) db"

definition route_Delete :: "bool \<Rightarrow> int \<Rightarrow> int \<Rightarrow> route_row list \<Rightarrow> route_error + route_row list" where
  "route_Delete fault now rid db =
     (if fault then Inl ErrRouteStore
      else if \<not> list_ex (\<lambda>r. cr_ID r = rid) (active db) then Inl ErrCompositeRouteNotFound
      else Inr (mark_deleted (\<lambda>r. cr_ID r = rid) now db))"

definition route_DeleteByGroup :: "bool \<Rightarrow> int \<Rightarrow> int \<Rightarrow> route_row list \<Rightarrow> route_error + route_row list" where
  "route_DeleteByGroup fault now groupID db =
     (if fault then Inl ErrRouteStore else Inr (mark_deleted (\<lambda>r. cr_GroupID r = groupID) now db))"

subsection \<open>Management of routes\<close>

text \<open>\<open>grp\<close> is what the lookup of the group gives, its platform or an error.\<close>

definition requireCompositeGroup :: "route_error + string \<Rightarrow> route_error option" where
  "requireCompositeGroup grp =
     (case grp of Inl err \<Rightarrow> Some err | Inr platform \<Rightarrow> if platform \<noteq> ''composite'' then Some ErrNotComposite else None)"

definition ListCompositeRoutes :: "route_error + string \<Rightarrow> route_error + CompositeModelRoute list \<Rightarrow> route_error + CompositeModelRoute list" where
  "ListCompositeRoutes grp listed = (case requireCompositeGroup grp of Some err \<Rightarrow> Inl err | None \<Rightarrow> listed)"

definition CreateCompositeRoute ::
    "(string \<Rightarrow> string) \<Rightarrow> route_error + string \<Rightarrow> bool \<Rightarrow> bool \<Rightarrow> int \<Rightarrow> int \<Rightarrow> int \<Rightarrow> CompositeRouteInput \<Rightarrow> route_row list
      \<Rightarrow> route_error + (route_row list \<times> CompositeModelRoute)" where
  "CreateCompositeRoute uni grp fault known now newID groupID input db =
     (case requireCompositeGroup grp of
        Some err \<Rightarrow> Inl err
      | None \<Rightarrow> (case compositeRouteFromInput uni groupID input of
                  Inl err \<Rightarrow> Inl err
                | Inr route \<Rightarrow> route_Create fault known now newID route db))"

definition compositeRouteBelongsToGroup :: "route_error + CompositeModelRoute list \<Rightarrow> int \<Rightarrow> route_error + bool" where
  "compositeRouteBelongsToGroup listed routeID =
     (case listed of Inl err \<Rightarrow> Inl err | Inr routes \<Rightarrow> Inr (list_ex (\<lambda>r. cr_ID r = routeID) routes))"

text \<open>The routes of the group are listed by a statement of their own; other statements may come in between.\<close>

definition UpdateCompositeRoute ::
    "(string \<Rightarrow> string) \<Rightarrow> route_error + string \<Rightarrow> route_error + CompositeModelRoute list \<Rightarrow> bool \<Rightarrow> int \<Rightarrow> int \<Rightarrow> int \<Rightarrow> CompositeRouteInput
      \<Rightarrow> route_row list \<Rightarrow> route_error + (route_row list \<times> CompositeModelRoute)" where
  "UpdateCompositeRoute uni grp listed fault now groupID routeID input db =
     (case requireCompositeGroup grp of
        Some err \<Rightarrow> Inl err
      | None \<Rightarrow> (case compositeRouteBelongsToGroup listed routeID of
                  Inl err \<Rightarrow> Inl err
                | Inr ok \<Rightarrow>
                    if \<not> ok then Inl ErrCompositeRouteNotFound
                    else (case compositeRouteFromInput uni groupID input of
                            Inl err \<Rightarrow> Inl err
                          | Inr route \<Rightarrow> route_Update fault now (route\<lparr>cr_ID := routeID\<rparr>) db)))"

definition DeleteCompositeRoute ::
    "route_error + string \<Rightarrow> route_error + CompositeModelRoute list \<Rightarrow> bool \<Rightarrow> int \<Rightarrow> int \<Rightarrow> route_row list \<Rightarrow> route_error + route_row list" where
  "DeleteCompositeRoute grp listed fault now routeID db =
     (case requireCompositeGroup grp of
        Some err \<Rightarrow> Inl err
      | None \<Rightarrow> (case compositeRouteBelongsToGroup listed routeID of
                  Inl err \<Rightarrow> Inl err
                | Inr ok \<Rightarrow> if \<not> ok then Inl ErrCompositeRouteNotFound else route_Delete fault now routeID db))"

text \<open>The tables that come about by the statements of the service, in any order. A new row gets an unused number.\<close>

inductive routes_reachable :: "(string \<Rightarrow> string) \<Rightarrow> route_row list \<Rightarrow> bool" for uni where
  empty: "routes_reachable uni []"
| create: "routes_reachable uni db \<Longrightarrow> newID \<notin> cr_ID ` rr_route ` set db \<Longrightarrow>
    CreateCompositeRoute uni grp fault known now newID groupID input db = Inr (db', r) \<Longrightarrow> routes_reachable uni db'"
| update: "routes_reachable uni db \<Longrightarrow>
    UpdateCompositeRoute uni grp listed fault now groupID routeID input db = Inr (db', r) \<Longrightarrow> routes_reachable uni db'"
| delete: "routes_reachable uni db \<Longrightarrow> DeleteCompositeRoute grp listed fault now routeID db = Inr db' \<Longrightarrow> routes_reachable uni db'"
| delete_group: "routes_reachable uni db \<Longrightarrow> route_DeleteByGroup fault now groupID db = Inr db' \<Longrightarrow> routes_reachable uni db'"

subsection \<open>Choice of a route\<close>

record candidate =
  cand_route :: CompositeModelRoute
  cand_matchStrength :: int
  cand_endpointWeight :: int
  cand_prefixLen :: nat

definition candidate_of :: "(string \<Rightarrow> string) \<Rightarrow> string \<Rightarrow> string \<Rightarrow> CompositeModelRoute \<Rightarrow> candidate option" where
  "candidate_of uni model endpoint row =
     (let route = row\<lparr>cr_Endpoint := normalizeCompositeRouteEndpoint uni (cr_Endpoint row)\<rparr> in
      if cr_Endpoint route \<noteq> endpoint \<and> cr_Endpoint route \<noteq> ''any'' then None
      else let route = route\<lparr>cr_MatchType := normalizeCompositeRouteMatchType uni (cr_MatchType route)\<rparr>;
               publicModel = TrimSpace (cr_PublicModel route);
               weight = (if cr_Endpoint route = endpoint then 1 else 0)
           in if publicModel = [] then None
              else if cr_MatchType route = ''exact'' then
                if publicModel \<noteq> model then None
                else Some \<lparr>cand_route = route, cand_matchStrength = 2, cand_endpointWeight = weight, cand_prefixLen = length publicModel\<rparr>
              else if cr_MatchType route = ''prefix'' then
                if \<not> HasPrefix model publicModel then None
                else Some \<lparr>cand_route = route, cand_matchStrength = 1, cand_endpointWeight = weight, cand_prefixLen = length publicModel\<rparr>
              else None)"

text \<open>What candidates are compared by, and the comparison: the lesser one is preferred.\<close>

datatype route_rank = Rank (rank_strength: int) (rank_weight: int) (rank_prefixLen: nat) (rank_priority: int) (rank_id: int)

definition candidate_rank :: "candidate \<Rightarrow> route_rank" where
  "candidate_rank c = Rank (cand_matchStrength c) (cand_endpointWeight c) (cand_prefixLen c) (cr_Priority (cand_route c)) (cr_ID (cand_route c))"

definition rank_less :: "route_rank \<Rightarrow> route_rank \<Rightarrow> bool" where
  "rank_less a b =
     (if rank_strength a \<noteq> rank_strength b then rank_strength a > rank_strength b
      else if rank_weight a \<noteq> rank_weight b then rank_weight a > rank_weight b
      else if rank_prefixLen a \<noteq> rank_prefixLen b then rank_prefixLen a > rank_prefixLen b
      else if rank_priority a \<noteq> rank_priority b then rank_priority a < rank_priority b
      else rank_id a < rank_id b)"

instantiation route_rank :: linorder
begin

definition less_route_rank :: "route_rank \<Rightarrow> route_rank \<Rightarrow> bool" where
  "less_route_rank = rank_less"

definition less_eq_route_rank :: "route_rank \<Rightarrow> route_rank \<Rightarrow> bool" where
  "less_eq_route_rank a b \<longleftrightarrow> a = b \<or> rank_less a b"

instance
proof
  fix a b c :: route_rank
  show "a < b \<longleftrightarrow> a \<le> b \<and> \<not> b \<le> a"
    by (auto simp: less_route_rank_def less_eq_route_rank_def rank_less_def)
  show "a \<le> a" by (simp add: less_eq_route_rank_def)
  show "a \<le> b \<Longrightarrow> b \<le> c \<Longrightarrow> a \<le> c"
    by (auto simp: less_eq_route_rank_def rank_less_def split: if_splits)
  show "a \<le> b \<Longrightarrow> b \<le> a \<Longrightarrow> a = b"
    by (auto simp: less_eq_route_rank_def rank_less_def split: if_splits)
  show "a \<le> b \<or> b \<le> a"
    by (cases a; cases b) (auto simp: less_eq_route_rank_def rank_less_def)
qed

end

text \<open>\<open>sort.SliceStable\<close> and the first element.\<close>

definition matchCompositeRoute :: "(string \<Rightarrow> string) \<Rightarrow> CompositeModelRoute list \<Rightarrow> string \<Rightarrow> string \<Rightarrow> CompositeModelRoute option" where
  "matchCompositeRoute uni routes model endpoint =
     (case sort_key candidate_rank (List.map_filter (candidate_of uni model endpoint) routes) of
        [] \<Rightarrow> None
      | c # _ \<Rightarrow> Some (cand_route c))"

subsection \<open>The name of a model\<close>

definition hasOpenAISeriesPrefix :: "string \<Rightarrow> bool" where
  "hasOpenAISeriesPrefix model = list_ex (\<lambda>p. model = p \<or> HasPrefix model (p @ ''-'')) [''o1'', ''o3'', ''o4'', ''o5'']"

definition provider_platform :: "string \<Rightarrow> string option" where
  "provider_platform provider =
     (if provider \<in> set [''anthropic'', ''claude''] then Some ''anthropic''
      else if provider \<in> set [''openai'', ''chatgpt''] then Some ''openai''
      else if provider \<in> set [''google'', ''google-ai-studio'', ''gemini''] then Some ''gemini''
      else if provider \<in> set [''xai'', ''x-ai'', ''grok''] then Some ''grok''
      else if provider \<in> set [''kimi'', ''moonshot''] then Some ''kimi''
      else if provider \<in> set [''zhipu'', ''glm'', ''bigmodel''] then Some ''zhipu''
      else if provider = ''deepseek'' then Some ''deepseek''
      else None)"

definition name_platform :: "string \<Rightarrow> string option" where
  "name_platform n =
     (if list_ex (HasPrefix n) [''anthropic.claude-'', ''claude-''] then Some ''anthropic''
      else if list_ex (HasPrefix n) [''gpt-'', ''chatgpt-'', ''codex-'', ''text-embedding-'', ''text-moderation-'', ''omni-moderation-'',
                ''dall-e-'', ''gpt-image-'', ''tts-'', ''whisper-''] \<or> hasOpenAISeriesPrefix n then Some ''openai''
      else if list_ex (HasPrefix n) [''gemini-'', ''learnlm-''] then Some ''gemini''
      else if n = ''grok'' \<or> HasPrefix n ''grok-'' then Some ''grok''
      else if n = ''k3'' \<or> n = ''k3-256k'' \<or> list_ex (HasPrefix n) [''kimi-'', ''moonshot-''] then Some ''kimi''
      else if HasPrefix n ''glm-'' then Some ''zhipu''
      else if HasPrefix n ''deepseek-'' then Some ''deepseek''
      else None)"

definition DetectModelPlatform :: "(string \<Rightarrow> string) \<Rightarrow> string \<Rightarrow> string option" where
  "DetectModelPlatform uni model =
     (let lowered = ToLower uni (TrimSpace model) in
      if lowered = [] then None
      else let normalized = TrimPrefix lowered ''models/'' in
        (case split_at_byte (CHR ''/'') normalized of
           None \<Rightarrow> name_platform normalized
         | Some (before, after) \<Rightarrow>
             if before = [] then name_platform normalized
             else (case provider_platform (TrimSpace before) of
                     Some platform \<Rightarrow> Some platform
                   | None \<Rightarrow>
                       let rest = TrimSpace after
                       in name_platform (if rest \<noteq> [] then TrimPrefix rest ''models/'' else normalized))))"

subsection \<open>Accounts that claim a model\<close>

record composite_account =
  ca_Platform :: string
  ca_Credentials :: "(string \<rightharpoonup> json) option"

definition stringMappingFromRaw :: "json option \<Rightarrow> (string \<rightharpoonup> string)" where
  "stringMappingFromRaw raw =
     (case raw of
        Some (JObj kvs) \<Rightarrow> (\<lambda>k. case map_of (rev kvs) k of Some (JStr s) \<Rightarrow> Some s | _ \<Rightarrow> None)
      | _ \<Rightarrow> (\<lambda>_. None))"

definition explicitModelMappingClaims :: "composite_account \<Rightarrow> string \<Rightarrow> bool" where
  "explicitModelMappingClaims account model =
     (case ca_Credentials account of
        None \<Rightarrow> False
      | Some credentials \<Rightarrow> model \<noteq> [] \<and>
          (case stringMappingFromRaw (credentials ''model_mapping'') model of None \<Rightarrow> False | Some mapped \<Rightarrow> TrimSpace mapped \<noteq> []))"

definition claiming_platforms :: "composite_account list \<Rightarrow> string \<Rightarrow> string list" where
  "claiming_platforms accounts model =
     remdups (map (\<lambda>a. TrimSpace (ca_Platform a))
       (filter (\<lambda>a. isConcreteRequestPlatform (TrimSpace (ca_Platform a)) \<and> explicitModelMappingClaims a model) accounts))"

definition ownership_of :: "string list \<Rightarrow> CompositeModelOwnership" where
  "ownership_of platforms =
     (case platforms of
        [] \<Rightarrow> \<lparr>co_TargetPlatform = [], co_Matched = False, co_Ambiguous = False\<rparr>
      | [p] \<Rightarrow> \<lparr>co_TargetPlatform = p, co_Matched = True, co_Ambiguous = False\<rparr>
      | _ \<Rightarrow> \<lparr>co_TargetPlatform = [], co_Matched = False, co_Ambiguous = True\<rparr>)"

text \<open>\<open>cached\<close> is what the cache has for the group and the model. The second component is what is put into the cache.\<close>

definition resolveCompositeModelOwnership ::
    "CompositeModelOwnership option \<Rightarrow> route_error + composite_account list \<Rightarrow> int \<Rightarrow> string
      \<Rightarrow> (route_error + CompositeModelOwnership) \<times> CompositeModelOwnership option" where
  "resolveCompositeModelOwnership cached accounts groupID name =
     (let model = TrimSpace name in
      if groupID \<le> 0 \<or> model = [] then (Inr (ownership_of []), None)
      else (case cached of
              Some ownership \<Rightarrow> (Inr ownership, None)
            | None \<Rightarrow> (case accounts of
                          Inl err \<Rightarrow> (Inl err, None)
                        | Inr as \<Rightarrow> let ownership = ownership_of (claiming_platforms as model) in (Inr ownership, Some ownership))))"

subsection \<open>Resolution\<close>

definition Resolve_route ::
    "(string \<Rightarrow> string) \<Rightarrow> (route_error + CompositeModelRoute list) option \<Rightarrow> CompositeRouteDecision \<Rightarrow> (CompositeRouteDecision \<times> route_error option) option" where
  "Resolve_route uni listed decision =
     (if cd_GroupID decision \<le> 0 then None
      else case listed of
        None \<Rightarrow> None
      | Some (Inl err) \<Rightarrow> Some (decision, Some err)
      | Some (Inr routes) \<Rightarrow>
          (case matchCompositeRoute uni routes (cd_PublicModel decision) (cd_Endpoint decision) of
             None \<Rightarrow> None
           | Some route \<Rightarrow>
               let upstream = TrimSpace (cr_UpstreamModel route)
               in Some (decision\<lparr>cd_Matched := True, cd_Source := ''route'', cd_TargetPlatform := cr_TargetPlatform route,
                      cd_UpstreamModel := (if upstream = [] then cd_PublicModel decision else upstream), cd_Route := Some route\<rparr>, None)))"

definition Resolve_account ::
    "(string \<Rightarrow> string) \<Rightarrow> (string \<Rightarrow> route_error + CompositeModelOwnership) option \<Rightarrow> CompositeRouteDecision
      \<Rightarrow> (CompositeRouteDecision \<times> route_error option) option" where
  "Resolve_account uni owner decision =
     (if cd_GroupID decision \<le> 0 then None
      else case owner of
        None \<Rightarrow> None
      | Some resolver \<Rightarrow>
          (case resolver (cd_PublicModel decision) of
             Inl err \<Rightarrow> if DetectModelPlatform uni (cd_PublicModel decision) = None then Some (decision, Some err) else None
           | Inr ownership \<Rightarrow>
               if co_Ambiguous ownership then Some (decision\<lparr>cd_Reason := ''model is exposed by multiple provider platforms''\<rparr>, None)
               else if co_Matched ownership then
                 let platform = TrimSpace (co_TargetPlatform ownership)
                 in if \<not> isConcreteRequestPlatform platform
                    then Some (decision\<lparr>cd_Reason := ''account model ownership has no concrete target platform''\<rparr>, None)
                    else Some (decision\<lparr>cd_Matched := True, cd_Source := ''account_model'', cd_TargetPlatform := platform,
                                 cd_UpstreamModel := cd_PublicModel decision\<rparr>, None)
               else None))"

definition Resolve_detector :: "(string \<Rightarrow> string) \<Rightarrow> CompositeRouteDecision \<Rightarrow> CompositeRouteDecision \<times> route_error option" where
  "Resolve_detector uni decision =
     (case DetectModelPlatform uni (cd_PublicModel decision) of
        Some platform \<Rightarrow> (decision\<lparr>cd_Matched := True, cd_Source := ''detector'', cd_TargetPlatform := platform,
                             cd_UpstreamModel := cd_PublicModel decision\<rparr>, None)
      | None \<Rightarrow> (decision\<lparr>cd_Reason := ''no explicit route or built-in detector match''\<rparr>, None))"

text \<open>\<open>listed\<close>: no repository, or what it lists; \<open>owner\<close>: the resolver of ownership, if it is set.\<close>

definition Resolve ::
    "(string \<Rightarrow> string) \<Rightarrow> (route_error + CompositeModelRoute list) option \<Rightarrow> (string \<Rightarrow> route_error + CompositeModelOwnership) option
      \<Rightarrow> int \<Rightarrow> string \<Rightarrow> string \<Rightarrow> CompositeRouteDecision \<times> route_error option" where
  "Resolve uni listed owner groupID name endpoint =
     (let model = TrimSpace name;
          decision = zero_CompositeRouteDecision\<lparr>cd_GroupID := groupID, cd_PublicModel := model,
                       cd_Endpoint := normalizeCompositeRouteEndpoint uni endpoint\<rparr>
      in if model = [] then (decision\<lparr>cd_Reason := ''model is required''\<rparr>, None)
         else case Resolve_route uni listed decision of
                Some result \<Rightarrow> result
              | None \<Rightarrow> (case Resolve_account uni owner decision of
                          Some result \<Rightarrow> result
                        | None \<Rightarrow> Resolve_detector uni decision))"

definition PreviewCompositeRoute ::
    "route_error + string \<Rightarrow> (int \<Rightarrow> string \<Rightarrow> string \<Rightarrow> CompositeRouteDecision \<times> route_error option) \<Rightarrow> int \<Rightarrow> string \<Rightarrow> string
      \<Rightarrow> route_error + CompositeRouteDecision" where
  "PreviewCompositeRoute grp resolve groupID model endpoint =
     (case requireCompositeGroup grp of
        Some err \<Rightarrow> Inl err
      | None \<Rightarrow> (case resolve groupID model endpoint of (_, Some err) \<Rightarrow> Inl err | (decision, None) \<Rightarrow> Inr decision))"

subsection \<open>The decision in the context of a request\<close>

text \<open>The values a context can carry; \<^const>\<open>None\<close> for the context itself is a nil context.\<close>

record request_values =
  rv_TargetPlatform :: "string option"
  rv_UpstreamModel :: "string option"
  rv_PublicModel :: "string option"
  rv_Source :: "string option"

type_synonym request_context = "request_values option"

definition WithResolvedTargetPlatform :: "request_context \<Rightarrow> string \<Rightarrow> request_context" where
  "WithResolvedTargetPlatform ctx name =
     (let platform = TrimSpace name in
      if platform = [] then ctx else map_option (\<lambda>c. c\<lparr>rv_TargetPlatform := Some platform\<rparr>) ctx)"

definition nonblank :: "string option \<Rightarrow> string option" where
  "nonblank v = (case v of None \<Rightarrow> None | Some s \<Rightarrow> if TrimSpace s = [] then None else Some (TrimSpace s))"

definition ResolvedTargetPlatformFromContext :: "request_context \<Rightarrow> string option" where
  "ResolvedTargetPlatformFromContext ctx = (case ctx of None \<Rightarrow> None | Some c \<Rightarrow> nonblank (rv_TargetPlatform c))"

definition ResolvedUpstreamModelFromContext :: "request_context \<Rightarrow> string option" where
  "ResolvedUpstreamModelFromContext ctx = (case ctx of None \<Rightarrow> None | Some c \<Rightarrow> nonblank (rv_UpstreamModel c))"

definition RequestedPublicModelFromContext :: "request_context \<Rightarrow> string option" where
  "RequestedPublicModelFromContext ctx = (case ctx of None \<Rightarrow> None | Some c \<Rightarrow> nonblank (rv_PublicModel c))"

definition CompositeRouteSourceFromContext :: "request_context \<Rightarrow> string option" where
  "CompositeRouteSourceFromContext ctx = (case ctx of None \<Rightarrow> None | Some c \<Rightarrow> nonblank (rv_Source c))"

definition WithCompositeRouteDecision :: "request_context \<Rightarrow> CompositeRouteDecision \<Rightarrow> request_context" where
  "WithCompositeRouteDecision ctx decision =
     (if ctx = None \<or> \<not> cd_Matched decision then ctx
      else map_option (\<lambda>c. c\<lparr>
             rv_UpstreamModel := (case nonblank (Some (cd_UpstreamModel decision)) of None \<Rightarrow> rv_UpstreamModel c | v \<Rightarrow> v),
             rv_PublicModel := (case nonblank (Some (cd_PublicModel decision)) of None \<Rightarrow> rv_PublicModel c | v \<Rightarrow> v),
             rv_Source := (case nonblank (Some (cd_Source decision)) of None \<Rightarrow> rv_Source c | v \<Rightarrow> v)\<rparr>)
           (WithResolvedTargetPlatform ctx (cd_TargetPlatform decision)))"

text \<open>\<open>grp\<close> is the number and the platform of the group, if there is one; \<open>resolve\<close> the resolver of the service.\<close>

definition resolveCompositeRouteDecision ::
    "(string \<Rightarrow> string) \<Rightarrow> (int \<Rightarrow> string \<Rightarrow> string \<Rightarrow> CompositeRouteDecision \<times> route_error option) \<Rightarrow> request_context \<Rightarrow> (int \<times> string) option
      \<Rightarrow> string \<Rightarrow> string \<Rightarrow> CompositeRouteDecision \<times> bool \<times> route_error option" where
  "resolveCompositeRouteDecision uni resolve ctx grp requestedModel endpoint =
     (case grp of
        None \<Rightarrow> (zero_CompositeRouteDecision, False, None)
      | Some (groupID, groupPlatform) \<Rightarrow>
          if groupPlatform \<noteq> ''composite'' then (zero_CompositeRouteDecision, False, None)
          else (case ResolvedTargetPlatformFromContext ctx of
                  Some platform \<Rightarrow>
                    (zero_CompositeRouteDecision
                       \<lparr>cd_Matched := True,
                        cd_Source := (case CompositeRouteSourceFromContext ctx of Some s \<Rightarrow> s | None \<Rightarrow> ''detector''),
                        cd_GroupID := groupID, cd_PublicModel := requestedModel, cd_TargetPlatform := platform,
                        cd_UpstreamModel := (case ResolvedUpstreamModelFromContext ctx of Some u \<Rightarrow> u | None \<Rightarrow> requestedModel),
                        cd_Endpoint := normalizeCompositeRouteEndpoint uni endpoint\<rparr>, True, None)
                | None \<Rightarrow>
                    (case resolve groupID requestedModel endpoint of
                       (decision, Some err) \<Rightarrow> (decision, False, Some err)
                     | (decision, None) \<Rightarrow> (decision, cd_Matched decision, None))))"

subsection \<open>What the table keeps\<close>

lemma route_words:
  "list_all (\<lambda>e. ToLower uni (TrimSpace e) = e \<and> e \<noteq> []) (''any'' # ''exact'' # ''prefix'' # route_endpoints)"
  by (simp add: route_endpoints_def ToLower_def lower_byte_def TrimSpace_printable printable_def)

lemma normalize_endpoint_kept: "e = ''any'' \<or> e \<in> set route_endpoints \<Longrightarrow> normalizeCompositeRouteEndpoint uni e = e"
  using route_words [of uni] by (auto simp: normalizeCompositeRouteEndpoint_def list_all_iff)

lemma normalize_endpoint_known:
  "normalizeCompositeRouteEndpoint uni e = ''any'' \<or> normalizeCompositeRouteEndpoint uni e \<in> set route_endpoints"
  by (simp add: normalizeCompositeRouteEndpoint_def Let_def)

lemma normalize_match_type_kept: "t \<in> {''exact'', ''prefix''} \<Longrightarrow> normalizeCompositeRouteMatchType uni t = t"
  using route_words [of uni] by (auto simp: normalizeCompositeRouteMatchType_def)

lemma normalize_match_type_known: "normalizeCompositeRouteMatchType uni t \<in> {''exact'', ''prefix''}"
  by (simp add: normalizeCompositeRouteMatchType_def)

lemma concrete_nonempty: "isConcreteRequestPlatform p \<Longrightarrow> p \<noteq> []"
  by (auto simp: isConcreteRequestPlatform_def)

lemma concrete_trimmed: "isConcreteRequestPlatform p \<Longrightarrow> TrimSpace p = p"
  by (auto simp: isConcreteRequestPlatform_def TrimSpace_printable printable_def)

text \<open>A route as the service stores it.\<close>

definition clean :: "CompositeModelRoute \<Rightarrow> bool" where
  "clean r \<longleftrightarrow> TrimSpace (cr_PublicModel r) = cr_PublicModel r \<and> cr_PublicModel r \<noteq> [] \<and> cr_MatchType r \<in> {''exact'', ''prefix''}
     \<and> (cr_Endpoint r = ''any'' \<or> cr_Endpoint r \<in> set route_endpoints) \<and> isConcreteRequestPlatform (cr_TargetPlatform r)
     \<and> TrimSpace (cr_UpstreamModel r) = cr_UpstreamModel r"

definition routes_ok :: "route_row list \<Rightarrow> bool" where
  "routes_ok db \<longleftrightarrow> distinct (map (\<lambda>w. cr_ID (rr_route w)) db) \<and> (\<forall>w \<in> set db. clean (rr_route w)) \<and> inj_on route_key (set (active db))"

lemma clean_from_input: "compositeRouteFromInput uni g inp = Inr r \<Longrightarrow> clean r"
  using normalize_endpoint_known [of uni "ci_Endpoint inp"] normalize_match_type_known [of uni "ci_MatchType inp"]
  by (auto simp: compositeRouteFromInput_def normalizeCompositeRouteInput_def clean_def Let_def split: if_splits)

lemma active_iff: "r \<in> set (active db) \<longleftrightarrow> (\<exists>w \<in> set db. rr_route w = r \<and> \<not> rr_deleted w)"
  by (auto simp: active_def)

lemma routes_ok_ids: "routes_ok db \<Longrightarrow> v \<in> set db \<Longrightarrow> w \<in> set db \<Longrightarrow> cr_ID (rr_route v) = cr_ID (rr_route w) \<Longrightarrow> v = w"
  by (auto simp: routes_ok_def distinct_map inj_on_def)

lemma Create_ok:
  assumes ok: "routes_ok db" and r: "clean route" and new: "newID \<notin> cr_ID ` rr_route ` set db"
    and stmt: "route_Create fault known now newID route db = Inr (db', r)"
  shows "routes_ok db'"
proof -
  define r' where "r' = route\<lparr>cr_ID := newID, cr_CreatedAt := now, cr_UpdatedAt := now\<rparr>"
  have db': "db' = db @ [\<lparr>rr_route = r', rr_deleted = False\<rparr>]" and fresh: "route_key route \<notin> route_key ` set (active db)"
    using stmt by (auto simp: route_Create_def r'_def Let_def split: if_splits)
  moreover have "active db' = active db @ [r']" by (simp add: db' active_def)
  moreover have "clean r'" "route_key r' = route_key route" "cr_ID r' = newID" using r by (simp_all add: r'_def clean_def route_key_def)
  ultimately show ?thesis using ok new by (auto simp: routes_ok_def inj_on_insert image_iff)
qed

lemma Update_ok:
  assumes ok: "routes_ok db" and r: "clean route" and stmt: "route_Update fault now route db = Inr (db', r)"
  shows "routes_ok db'"
proof -
  obtain w where w: "w \<in> set db" "cr_ID (rr_route w) = cr_ID route" and r_eq: "r = updated_route now route (rr_route w)"
      and db': "db' = map (\<lambda>v. if cr_ID (rr_route v) = cr_ID route then v\<lparr>rr_route := r\<rparr> else v) db"
      and uniq: "rr_deleted w \<or> (\<forall>v \<in> set (active db). cr_ID v = cr_ID r \<or> route_key v \<noteq> route_key r)"
    using stmt by (auto simp: route_Update_def Let_def split: if_splits option.splits dest: find_SomeD)
  have id: "cr_ID r = cr_ID route" using w by (simp add: r_eq updated_route_def)
  have "clean r" using r by (simp add: r_eq updated_route_def clean_def)
  then have "\<forall>v \<in> set db'. clean (rr_route v)" using ok by (auto simp: db' routes_ok_def)
  moreover have "map (\<lambda>v. cr_ID (rr_route v)) db' = map (\<lambda>v. cr_ID (rr_route v)) db" by (simp add: db' id)
  moreover have "inj_on route_key (set (active db'))"
  proof -
    have "active db' = map (\<lambda>x. if cr_ID x = cr_ID r then r else x) (active db)"
      by (simp add: active_def db' id filter_map o_def if_distrib [of rr_deleted] if_distrib [of rr_route] cong: if_cong)
    moreover have "\<not> rr_deleted w" if x: "x \<in> set (active db)" "cr_ID x = cr_ID r" for x
    proof -
      obtain v where "v \<in> set db" "rr_route v = x" "\<not> rr_deleted v" using x(1) by (auto simp: active_iff)
      moreover from this have "v = w" using routes_ok_ids [OF ok _ w(1)] x(2) id w(2) by simp
      ultimately show ?thesis by simp
    qed
    ultimately have "set (active db') \<subseteq> (if rr_deleted w then {} else {r}) \<union> {x \<in> set (active db). cr_ID x \<noteq> cr_ID r}"
      by auto
    moreover have "inj_on route_key {x \<in> set (active db). cr_ID x \<noteq> cr_ID r}" using ok by (auto simp: routes_ok_def inj_on_def)
    then have "inj_on route_key ((if rr_deleted w then {} else {r}) \<union> {x \<in> set (active db). cr_ID x \<noteq> cr_ID r})"
      using uniq by auto
    ultimately show ?thesis by (rule inj_on_subset [rotated])
  qed
  ultimately show ?thesis using ok by (simp add: routes_ok_def)
qed

lemma mark_deleted_ok: "routes_ok db \<Longrightarrow> routes_ok (mark_deleted P now db)"
proof -
  assume ok: "routes_ok db"
  have "set (active (mark_deleted P now db)) \<subseteq> set (active db)" by (auto simp: mark_deleted_def active_def split: if_splits)
  moreover have "map (\<lambda>v. cr_ID (rr_route v)) (mark_deleted P now db) = map (\<lambda>v. cr_ID (rr_route v)) db" by (simp add: mark_deleted_def)
  moreover have "\<forall>v \<in> set (mark_deleted P now db). clean (rr_route v)"
    using ok by (auto simp: mark_deleted_def routes_ok_def clean_def)
  ultimately show ?thesis using ok by (auto simp: routes_ok_def intro: inj_on_subset)
qed

lemma reachable_ok: "routes_reachable uni db \<Longrightarrow> routes_ok db"
proof (induction rule: routes_reachable.induct)
  case empty
  then show ?case by (simp add: routes_ok_def active_def)
next
  case (create db newID grp fault known now groupID input db' r)
  then obtain x where x: "compositeRouteFromInput uni groupID input = Inr x" "route_Create fault known now newID x db = Inr (db', r)"
    by (auto simp: CreateCompositeRoute_def split: option.splits sum.splits)
  show ?case by (rule Create_ok [OF create.IH clean_from_input [OF x(1)] create.hyps(2) x(2)])
next
  case (update db grp listed fault now groupID routeID input db' r)
  then obtain x where x: "compositeRouteFromInput uni groupID input = Inr x" "route_Update fault now (x\<lparr>cr_ID := routeID\<rparr>) db = Inr (db', r)"
    by (auto simp: UpdateCompositeRoute_def split: option.splits sum.splits if_splits)
  then have "clean (x\<lparr>cr_ID := routeID\<rparr>)" using clean_from_input [OF x(1)] by (simp add: clean_def)
  then show ?case by (rule Update_ok [OF update.IH _ x(2)])
next
  case (delete db grp listed fault now routeID db')
  then show ?case by (auto simp: DeleteCompositeRoute_def route_Delete_def mark_deleted_ok split: option.splits sum.splits if_splits)
next
  case (delete_group db fault now groupID db')
  then show ?case by (auto simp: route_DeleteByGroup_def mark_deleted_ok split: if_splits)
qed

lemma set_ListByGroup: "set (ListByGroup db g d) = {r \<in> set (active db). cr_GroupID r = g \<and> (d \<or> cr_Enabled r)}"
  by (auto simp: ListByGroup_def)

text \<open>What the choice of a route relies on.\<close>

definition group_routes :: "CompositeModelRoute list \<Rightarrow> bool" where
  "group_routes routes \<longleftrightarrow> (\<forall>r \<in> set routes. clean r) \<and> inj_on (\<lambda>r. (cr_MatchType r, cr_Endpoint r, cr_PublicModel r)) (set routes)"

lemma listed_routes: "routes_ok db \<Longrightarrow> group_routes (ListByGroup db g d)"
  unfolding group_routes_def set_ListByGroup routes_ok_def inj_on_def
  by (auto simp: active_iff route_key_def)

subsection \<open>A reference for the choice of a route\<close>

definition applies :: "string \<Rightarrow> string \<Rightarrow> CompositeModelRoute \<Rightarrow> bool" where
  "applies model endpoint r \<longleftrightarrow> (cr_Endpoint r = endpoint \<or> cr_Endpoint r = ''any'')
     \<and> (if cr_MatchType r = ''exact'' then cr_PublicModel r = model else prefix (cr_PublicModel r) model)"

definition candidate_from :: "string \<Rightarrow> CompositeModelRoute \<Rightarrow> candidate" where
  "candidate_from endpoint r = \<lparr>cand_route = r, cand_matchStrength = (if cr_MatchType r = ''exact'' then 2 else 1),
     cand_endpointWeight = (if cr_Endpoint r = endpoint then 1 else 0), cand_prefixLen = length (cr_PublicModel r)\<rparr>"

lemma candidate_of_clean:
  assumes "clean r"
  shows "candidate_of uni model endpoint r = (if applies model endpoint r then Some (candidate_from endpoint r) else None)"
proof -
  have "normalizeCompositeRouteEndpoint uni (cr_Endpoint r) = cr_Endpoint r" "normalizeCompositeRouteMatchType uni (cr_MatchType r) = cr_MatchType r"
    using assms by (simp_all add: clean_def normalize_endpoint_kept normalize_match_type_kept)
  then show ?thesis using assms by (auto simp: candidate_of_def applies_def candidate_from_def clean_def HasPrefix_def Let_def)
qed

lemma candidates_clean:
  "\<forall>r \<in> set routes. clean r \<Longrightarrow>
    set (List.map_filter (candidate_of uni model endpoint) routes) = candidate_from endpoint ` {r \<in> set routes. applies model endpoint r}"
  by (induction routes) (auto simp: map_filter_simps candidate_of_clean)

lemma hd_sort_key:
  assumes "xs \<noteq> []"
  shows "\<exists>x ys. sort_key f xs = x # ys \<and> x \<in> set xs \<and> (\<forall>y \<in> set xs. f x \<le> f y)"
proof -
  obtain x ys where s: "sort_key f xs = x # ys" using assms by (metis length_0_conv length_sort neq_Nil_conv)
  then have "\<forall>y \<in> set (x # ys). f x \<le> f y" using sorted_sort_key [of f xs] by auto
  then show ?thesis using s by (metis list.set_intros(1) set_sort)
qed

lemma match_None:
  "\<forall>r \<in> set routes. clean r \<Longrightarrow> \<forall>r \<in> set routes. \<not> applies model endpoint r \<Longrightarrow> matchCompositeRoute uni routes model endpoint = None"
proof -
  assume "\<forall>r \<in> set routes. clean r" "\<forall>r \<in> set routes. \<not> applies model endpoint r"
  then have "set (List.map_filter (candidate_of uni model endpoint) routes) = {}" using candidates_clean [of routes uni model endpoint] by auto
  then show ?thesis by (simp add: matchCompositeRoute_def)
qed

lemma match_Some:
  assumes clean: "\<forall>r \<in> set routes. clean r" and r: "r \<in> set routes" "applies model endpoint r"
    and best: "\<And>x. x \<in> set routes \<Longrightarrow> applies model endpoint x \<Longrightarrow>
      x = r \<or> rank_less (candidate_rank (candidate_from endpoint r)) (candidate_rank (candidate_from endpoint x))"
  shows "matchCompositeRoute uni routes model endpoint = Some r"
proof -
  let ?cs = "List.map_filter (candidate_of uni model endpoint) routes"
  have cs: "set ?cs = candidate_from endpoint ` {r \<in> set routes. applies model endpoint r}" using candidates_clean [OF clean] .
  then have "?cs \<noteq> []" using r by auto
  then obtain c ys where c: "sort_key candidate_rank ?cs = c # ys" "c \<in> set ?cs" "\<forall>d \<in> set ?cs. candidate_rank c \<le> candidate_rank d"
    using hd_sort_key by blast
  obtain x where x: "x \<in> set routes" "applies model endpoint x" "c = candidate_from endpoint x" using c(2) cs by auto
  have "candidate_rank c \<le> candidate_rank (candidate_from endpoint r)" using c(3) cs r by auto
  then have "x = r" using best [OF x(1,2)] x(3) by (auto simp: less_route_rank_def [symmetric] not_le)
  then show ?thesis using c(1) x(3) by (simp add: matchCompositeRoute_def candidate_from_def)
qed

fun first_some :: "('a \<Rightarrow> 'b option) \<Rightarrow> 'a list \<Rightarrow> 'b option" where
  "first_some f [] = None"
| "first_some f (x # xs) = (case f x of None \<Rightarrow> first_some f xs | Some y \<Rightarrow> Some y)"

definition lookup_route :: "CompositeModelRoute list \<Rightarrow> string \<Rightarrow> string \<Rightarrow> string \<Rightarrow> CompositeModelRoute option" where
  "lookup_route routes matchType endpoint publicModel =
     find (\<lambda>r. cr_MatchType r = matchType \<and> cr_Endpoint r = endpoint \<and> cr_PublicModel r = publicModel) routes"

text \<open>The route of the longest prefix of the model for which the endpoint has one.\<close>

definition longest_route :: "CompositeModelRoute list \<Rightarrow> string \<Rightarrow> string \<Rightarrow> CompositeModelRoute option" where
  "longest_route routes endpoint model = first_some (\<lambda>n. lookup_route routes ''prefix'' endpoint (take n model)) (rev [0..<Suc (length model)])"

definition best_route :: "CompositeModelRoute list \<Rightarrow> string \<Rightarrow> string \<Rightarrow> CompositeModelRoute option" where
  "best_route routes model endpoint =
     first_some id [lookup_route routes ''exact'' endpoint model, lookup_route routes ''exact'' ''any'' model,
       longest_route routes endpoint model, longest_route routes ''any'' model]"

lemma first_some_downto:
  "case first_some f (rev [0..<n]) of
     None \<Rightarrow> \<forall>k<n. f k = None
   | Some y \<Rightarrow> \<exists>k<n. f k = Some y \<and> (\<forall>j. k < j \<and> j < n \<longrightarrow> f j = None)"
proof (induction n)
  case (Suc n)
  show ?case
  proof (cases "f n")
    case None
    then show ?thesis using Suc less_Suc_eq by (auto split: option.splits)
  next
    case (Some y)
    then show ?thesis by auto
  qed
qed simp

lemma lookup_Some: "lookup_route routes t e p = Some r \<Longrightarrow> r \<in> set routes \<and> cr_MatchType r = t \<and> cr_Endpoint r = e \<and> cr_PublicModel r = p"
  unfolding lookup_route_def by (drule find_SomeD) simp

lemma lookup_None: "lookup_route routes t e p = None \<longleftrightarrow> (\<forall>r \<in> set routes. \<not> (cr_MatchType r = t \<and> cr_Endpoint r = e \<and> cr_PublicModel r = p))"
  by (auto simp: lookup_route_def find_None_iff)

lemma lookup_present:
  assumes "group_routes routes" "r \<in> set routes"
  shows "lookup_route routes (cr_MatchType r) (cr_Endpoint r) (cr_PublicModel r) = Some r"
proof -
  obtain x where x: "lookup_route routes (cr_MatchType r) (cr_Endpoint r) (cr_PublicModel r) = Some x"
    using assms(2) lookup_None [of routes "cr_MatchType r" "cr_Endpoint r" "cr_PublicModel r"] by auto
  then show ?thesis using assms lookup_Some [OF x] by (auto simp: group_routes_def inj_on_def)
qed

lemma prefix_take: "prefix p m \<longleftrightarrow> length p \<le> length m \<and> p = take (length p) m"
  by (metis append_take_drop_id prefix_def prefix_length_le append_eq_conv_conj)

lemma longest_None: "longest_route routes e m = None \<longleftrightarrow> (\<forall>r \<in> set routes. \<not> (cr_MatchType r = ''prefix'' \<and> cr_Endpoint r = e \<and> prefix (cr_PublicModel r) m))"
proof -
  have "longest_route routes e m = None \<longleftrightarrow> (\<forall>k<Suc (length m). lookup_route routes ''prefix'' e (take k m) = None)"
    using first_some_downto [of "Suc (length m)" "\<lambda>n. lookup_route routes ''prefix'' e (take n m)"]
    unfolding longest_route_def by (auto split: option.splits)
  also have "\<dots> \<longleftrightarrow> (\<forall>r \<in> set routes. \<not> (cr_MatchType r = ''prefix'' \<and> cr_Endpoint r = e \<and> prefix (cr_PublicModel r) m))"
  proof -
    have "(\<exists>k<Suc (length m). p = take k m) \<longleftrightarrow> prefix p m" for p
      using prefix_take [of p m] take_is_prefix [of _ m] by (auto simp: less_Suc_eq_le)
    then show ?thesis unfolding lookup_None by blast
  qed
  finally show ?thesis .
qed

lemma longest_Some:
  assumes "longest_route routes e m = Some r"
  shows "r \<in> set routes \<and> cr_MatchType r = ''prefix'' \<and> cr_Endpoint r = e \<and> prefix (cr_PublicModel r) m
    \<and> (\<forall>x \<in> set routes. cr_MatchType x = ''prefix'' \<and> cr_Endpoint x = e \<and> prefix (cr_PublicModel x) m \<longrightarrow> length (cr_PublicModel x) \<le> length (cr_PublicModel r))"
proof -
  obtain k where k: "k \<le> length m" "lookup_route routes ''prefix'' e (take k m) = Some r"
      "\<And>j. k < j \<Longrightarrow> j \<le> length m \<Longrightarrow> lookup_route routes ''prefix'' e (take j m) = None"
    using first_some_downto [of "Suc (length m)" "\<lambda>n. lookup_route routes ''prefix'' e (take n m)"] assms
    unfolding longest_route_def by (auto simp: less_Suc_eq_le)
  have r: "r \<in> set routes" "cr_MatchType r = ''prefix''" "cr_Endpoint r = e" "cr_PublicModel r = take k m" using lookup_Some [OF k(2)] by auto
  have "length (cr_PublicModel x) \<le> k"
    if x: "x \<in> set routes" "cr_MatchType x = ''prefix''" "cr_Endpoint x = e" "prefix (cr_PublicModel x) m" for x
  proof (rule ccontr)
    assume "\<not> length (cr_PublicModel x) \<le> k"
    then have "lookup_route routes ''prefix'' e (take (length (cr_PublicModel x)) m) = None"
      using k(3) [of "length (cr_PublicModel x)"] prefix_length_le [OF x(4)] by simp
    then show False using x prefix_take [of "cr_PublicModel x" m] unfolding lookup_None by blast
  qed
  then show ?thesis using r k(1) by (auto simp: take_is_prefix)
qed

text \<open>The comparison of two routes that apply, before priorities are looked at.\<close>

definition outranks :: "string \<Rightarrow> CompositeModelRoute \<Rightarrow> CompositeModelRoute \<Rightarrow> bool" where
  "outranks e r x \<longleftrightarrow>
     cr_MatchType r = ''exact'' \<and> cr_MatchType x \<noteq> ''exact''
     \<or> (cr_MatchType r = ''exact'') = (cr_MatchType x = ''exact'')
       \<and> (cr_Endpoint r = e \<and> cr_Endpoint x \<noteq> e
          \<or> (cr_Endpoint r = e) = (cr_Endpoint x = e) \<and> length (cr_PublicModel x) < length (cr_PublicModel r))"

lemma outranks_less: "outranks e r x \<Longrightarrow> rank_less (candidate_rank (candidate_from e r)) (candidate_rank (candidate_from e x))"
  by (auto simp: outranks_def rank_less_def candidate_rank_def candidate_from_def)

text \<open>Two routes of a group that apply are never equal in all but their priority.\<close>

lemma same_length_same_route:
  assumes routes: "group_routes routes" and x: "x \<in> set routes" "applies m e x" and y: "y \<in> set routes" "applies m e y"
    and eq: "(cr_MatchType x = ''exact'') = (cr_MatchType y = ''exact'')" "(cr_Endpoint x = e) = (cr_Endpoint y = e)"
      "length (cr_PublicModel x) = length (cr_PublicModel y)"
  shows "x = y"
proof -
  have "clean x" "clean y" using routes x(1) y(1) by (simp_all add: group_routes_def)
  then have t: "cr_MatchType x = cr_MatchType y" using eq(1) by (auto simp: clean_def)
  moreover have "cr_Endpoint x = cr_Endpoint y" using x(2) y(2) eq(2) by (auto simp: applies_def)
  moreover have "cr_PublicModel x = cr_PublicModel y"
  proof (cases "cr_MatchType x = ''exact''")
    case True
    then show ?thesis using x(2) y(2) t by (simp add: applies_def)
  next
    case False
    then have "prefix (cr_PublicModel x) m" "prefix (cr_PublicModel y) m" using x(2) y(2) t by (simp_all add: applies_def)
    then show ?thesis using eq(3) prefix_take by metis
  qed
  ultimately show ?thesis using routes x(1) y(1) by (auto simp: group_routes_def inj_on_def)
qed

lemma best_None: "group_routes routes \<Longrightarrow> best_route routes m e = None \<Longrightarrow> \<forall>x \<in> set routes. \<not> applies m e x"
  by (auto simp: best_route_def lookup_None longest_None applies_def group_routes_def clean_def split: option.splits)

lemma best_Some:
  assumes routes: "group_routes routes" and best: "best_route routes m e = Some r"
  shows "r \<in> set routes \<and> applies m e r \<and> (\<forall>x \<in> set routes. applies m e x \<longrightarrow> x = r \<or> outranks e r x)"
proof -
  have types: "cr_MatchType x = ''exact'' \<or> cr_MatchType x = ''prefix''" if "x \<in> set routes" for x
    using routes that by (auto simp: group_routes_def clean_def)
  have main: "r \<in> set routes \<and> applies m e r \<and> (\<forall>x \<in> set routes. applies m e x \<longrightarrow> \<not> outranks e x r)"
  proof (cases "lookup_route routes ''exact'' e m")
    case (Some r')
    then show ?thesis using best lookup_Some [OF Some] by (auto simp: best_route_def applies_def outranks_def)
  next
    case e: None
    show ?thesis
    proof (cases "lookup_route routes ''exact'' ''any'' m")
      case (Some r')
      then show ?thesis using best e lookup_Some [OF Some] by (auto simp: best_route_def applies_def outranks_def lookup_None)
    next
      case a: None
      then have noexact: "cr_MatchType x = ''prefix'' \<and> prefix (cr_PublicModel x) m" if "x \<in> set routes" "applies m e x" for x
        using e that types [OF that(1)] unfolding lookup_None applies_def by metis
      show ?thesis
      proof (cases "longest_route routes e m")
        case (Some r')
        then have r: "longest_route routes e m = Some r" using best e a by (simp add: best_route_def)
        have "\<not> outranks e x r" if x: "x \<in> set routes" "applies m e x" for x
          using longest_Some [OF r] noexact [OF x] x(1) unfolding outranks_def by auto
        then show ?thesis using longest_Some [OF r] by (simp add: applies_def)
      next
        case None
        then have r: "longest_route routes ''any'' m = Some r" using best e a by (simp add: best_route_def split: option.splits)
        have "\<not> outranks e x r" if x: "x \<in> set routes" "applies m e x" for x
        proof -
          have "cr_Endpoint x \<noteq> e" using None noexact [OF x] x(1) by (auto simp: longest_None)
          then have "cr_Endpoint x = ''any''" using x(2) by (simp add: applies_def)
          then show ?thesis using \<open>cr_Endpoint x \<noteq> e\<close> longest_Some [OF r] noexact [OF x] x(1) unfolding outranks_def by auto
        qed
        then show ?thesis using longest_Some [OF r] by (simp add: applies_def)
      qed
    qed
  qed
  have "x = r \<or> outranks e r x" if "x \<in> set routes" "applies m e x" for x
    using main that same_length_same_route [OF routes that, of r] unfolding outranks_def by (metis linorder_less_linear)
  then show ?thesis using main by blast
qed

lemma match_best: "group_routes routes \<Longrightarrow> matchCompositeRoute uni routes m e = best_route routes m e"
proof (cases "best_route routes m e")
  case None
  assume "group_routes routes"
  then show ?thesis using None best_None match_None by (metis group_routes_def)
next
  case (Some r)
  assume routes: "group_routes routes"
  note best = best_Some [OF routes Some]
  have "matchCompositeRoute uni routes m e = Some r"
  proof (rule match_Some)
    show "\<forall>r \<in> set routes. clean r" using routes by (simp add: group_routes_def)
  next
    fix x
    assume "x \<in> set routes" "applies m e x"
    then show "x = r \<or> rank_less (candidate_rank (candidate_from e r)) (candidate_rank (candidate_from e x))"
      using best outranks_less by blast
  qed (use best in blast)+
  then show ?thesis using Some by simp
qed

text \<open>The reference does not look at priorities.\<close>

definition with_priority :: "(CompositeModelRoute \<Rightarrow> int) \<Rightarrow> CompositeModelRoute \<Rightarrow> CompositeModelRoute" where
  "with_priority p r = r\<lparr>cr_Priority := p r\<rparr>"

lemma with_priority_simps [simp]:
  "cr_MatchType (with_priority p r) = cr_MatchType r" "cr_Endpoint (with_priority p r) = cr_Endpoint r"
  "cr_PublicModel (with_priority p r) = cr_PublicModel r" "clean (with_priority p r) \<longleftrightarrow> clean r"
  by (simp_all add: with_priority_def clean_def)

lemma group_routes_priority: "group_routes routes \<Longrightarrow> group_routes (map (with_priority p) routes)"
  by (auto simp: group_routes_def inj_on_def)

lemma find_map_option: "find P (map f xs) = map_option f (find (\<lambda>x. P (f x)) xs)"
  by (induction xs) simp_all

lemma first_some_map_option: "first_some (\<lambda>x. map_option h (f x)) xs = map_option h (first_some f xs)"
  by (induction xs) (simp_all split: option.split)

lemma lookup_route_priority: "lookup_route (map (with_priority p) routes) t e n = map_option (with_priority p) (lookup_route routes t e n)"
  by (simp add: lookup_route_def find_map_option)

lemma longest_route_priority: "longest_route (map (with_priority p) routes) e m = map_option (with_priority p) (longest_route routes e m)"
  unfolding longest_route_def lookup_route_priority first_some_map_option ..

lemma best_route_priority: "best_route (map (with_priority p) routes) m e = map_option (with_priority p) (best_route routes m e)"
  by (simp add: best_route_def lookup_route_priority longest_route_priority split: option.split)

lemma name_platform_concrete: "name_platform n = Some p \<Longrightarrow> isConcreteRequestPlatform p"
  by (auto simp: name_platform_def isConcreteRequestPlatform_def split: if_splits)

lemma provider_platform_concrete: "provider_platform n = Some p \<Longrightarrow> isConcreteRequestPlatform p"
  by (auto simp: provider_platform_def isConcreteRequestPlatform_def split: if_splits)

lemma detected_concrete: "DetectModelPlatform uni m = Some p \<Longrightarrow> isConcreteRequestPlatform p"
  by (auto simp: DetectModelPlatform_def Let_def name_platform_concrete provider_platform_concrete split: if_splits option.splits prod.splits)

lemma claiming_concrete: "p \<in> set (claiming_platforms accounts m) \<Longrightarrow> isConcreteRequestPlatform p"
  by (auto simp: claiming_platforms_def)

text \<open>
  What a request for a model should come to: the source of the decision and the provider. An explicit route
  wins; otherwise the provider whose accounts claim the model, unless there are several; the name of the model
  counts only if no account claims it or the accounts cannot be read.
\<close>

definition routing_spec ::
    "(string \<Rightarrow> string) \<Rightarrow> CompositeModelRoute list \<Rightarrow> route_error + composite_account list \<Rightarrow> string \<Rightarrow> string \<Rightarrow> (string \<times> string) option" where
  "routing_spec uni routes accounts m e =
     (let detected = map_option (Pair ''detector'') (DetectModelPlatform uni m) in
      case best_route routes m e of
        Some r \<Rightarrow> Some (''route'', cr_TargetPlatform r)
      | None \<Rightarrow>
          (case accounts of
             Inl _ \<Rightarrow> detected
           | Inr as \<Rightarrow> (case claiming_platforms as m of [] \<Rightarrow> detected | [p] \<Rightarrow> Some (''account_model'', p) | _ \<Rightarrow> None)))"

definition decided :: "CompositeRouteDecision \<Rightarrow> (string \<times> string) option" where
  "decided d = (if cd_Matched d then Some (cd_Source d, cd_TargetPlatform d) else None)"

abbreviation owner_of :: "route_error + composite_account list \<Rightarrow> int \<Rightarrow> string \<Rightarrow> route_error + CompositeModelOwnership" where
  "owner_of accounts g n \<equiv> fst (resolveCompositeModelOwnership None accounts g n)"

lemma owner_of_eq:
  assumes "0 < g" and "TrimSpace m \<noteq> []"
  shows "owner_of accounts g (TrimSpace m) = (case accounts of Inl err \<Rightarrow> Inl err | Inr as \<Rightarrow> Inr (ownership_of (claiming_platforms as (TrimSpace m))))"
  using assms by (simp add: resolveCompositeModelOwnership_def Let_def split: sum.split)

lemma Resolve_account_spec:
  assumes "0 < cd_GroupID d" "cd_PublicModel d = TrimSpace m" "TrimSpace m \<noteq> []" "\<not> cd_Matched d"
  shows "case Resolve_account uni (Some (owner_of accounts (cd_GroupID d))) d of
      None \<Rightarrow> (case accounts of Inl _ \<Rightarrow> DetectModelPlatform uni (TrimSpace m) \<noteq> None | Inr as \<Rightarrow> claiming_platforms as (TrimSpace m) = [])
    | Some (d', err) \<Rightarrow>
        (case accounts of
           Inl x \<Rightarrow> DetectModelPlatform uni (TrimSpace m) = None \<and> d' = d \<and> err = Some x
         | Inr as \<Rightarrow> err = None \<and> claiming_platforms as (TrimSpace m) \<noteq> []
             \<and> decided d' = (case claiming_platforms as (TrimSpace m) of [p] \<Rightarrow> Some (''account_model'', p) | _ \<Rightarrow> None)
             \<and> (cd_Matched d' \<longrightarrow> cd_UpstreamModel d' = TrimSpace m))"
proof (cases accounts)
  case (Inl x)
  then show ?thesis using assms by (simp add: Resolve_account_def owner_of_eq)
next
  case (Inr as)
  show ?thesis
  proof (cases "claiming_platforms as (TrimSpace m)")
    case Nil
    then show ?thesis using assms Inr by (simp add: Resolve_account_def owner_of_eq ownership_of_def)
  next
    case (Cons p ps)
    then have "isConcreteRequestPlatform p" using claiming_concrete [of p as "TrimSpace m"] by simp
    then show ?thesis using assms Inr Cons
      by (cases ps) (simp_all add: Resolve_account_def owner_of_eq ownership_of_def concrete_trimmed decided_def)
  qed
qed

text \<open>What is decided when no route applies.\<close>

lemma resolution_without_route:
  assumes d0: "0 < cd_GroupID d0" "cd_PublicModel d0 = TrimSpace n" "TrimSpace n \<noteq> []" "\<not> cd_Matched d0"
    and none: "best_route routes (TrimSpace n) e = None"
    and res: "(case Resolve_account uni (Some (owner_of accounts (cd_GroupID d0))) d0 of
                 Some result \<Rightarrow> result | None \<Rightarrow> Resolve_detector uni d0) = (d, err)"
  shows "decided d = routing_spec uni routes accounts (TrimSpace n) e
    \<and> (cd_Matched d \<longrightarrow> isConcreteRequestPlatform (cd_TargetPlatform d) \<and> cd_UpstreamModel d \<noteq> [])
    \<and> (err \<noteq> None \<longrightarrow> \<not> cd_Matched d \<and> isl accounts \<and> DetectModelPlatform uni (TrimSpace n) = None)"
proof (cases "Resolve_account uni (Some (owner_of accounts (cd_GroupID d0))) d0")
  case None
  then have "Resolve_detector uni d0 = (d, err)" using res by simp
  then have "decided d = map_option (Pair ''detector'') (DetectModelPlatform uni (TrimSpace n))" "err = None"
      "cd_Matched d \<Longrightarrow> cd_UpstreamModel d = TrimSpace n \<and> isConcreteRequestPlatform (cd_TargetPlatform d)"
    using d0 by (auto simp: Resolve_detector_def decided_def detected_concrete split: option.splits)
  then show ?thesis
    using Resolve_account_spec [OF d0, of uni accounts] None none d0(3) by (auto simp: routing_spec_def split: sum.splits)
next
  case (Some result)
  then have "result = (d, err)" using res by simp
  note acc = Resolve_account_spec [OF d0, of uni accounts, unfolded Some this]
  show ?thesis
  proof (cases accounts)
    case (Inl x)
    then show ?thesis using acc none d0(4) by (simp add: routing_spec_def decided_def)
  next
    case (Inr as)
    have "isConcreteRequestPlatform p" if "claiming_platforms as (TrimSpace n) = [p]" for p
      using that claiming_concrete [of p as "TrimSpace n"] by simp
    then show ?thesis using Inr acc none d0(3) by (auto simp: routing_spec_def decided_def split: list.splits if_splits)
  qed
qed

subsection \<open>What the choice relies on\<close>

text \<open>
  The resolver uses the repository through one operation. All it needs of it: the routes of a group are stored
  clean, and no two have the same key.
\<close>

locale route_repository =
  fixes list_routes :: "'db \<Rightarrow> int \<Rightarrow> bool \<Rightarrow> CompositeModelRoute list" and repo_ok :: "'db \<Rightarrow> bool"
  assumes listed_clean: "repo_ok db \<Longrightarrow> r \<in> set (list_routes db g False) \<Longrightarrow> clean r"
    and listed_keys: "repo_ok db \<Longrightarrow> inj_on (\<lambda>r. (cr_MatchType r, cr_Endpoint r, cr_PublicModel r)) (set (list_routes db g False))"
begin

lemma listed: "repo_ok db \<Longrightarrow> group_routes (list_routes db g False)"
  by (simp add: group_routes_def listed_clean listed_keys)

lemma choice: "repo_ok db \<Longrightarrow> matchCompositeRoute uni (list_routes db g False) m e = best_route (list_routes db g False) m e"
  by (intro match_best listed)

lemma choice_with_priority:
  "repo_ok db \<Longrightarrow> matchCompositeRoute uni (map (with_priority p) (list_routes db g False)) m e
     = map_option (with_priority p) (best_route (list_routes db g False) m e)"
  using match_best [OF group_routes_priority [OF listed]] by (simp add: best_route_priority)

lemma resolution:
  assumes ok: "repo_ok db" and g: "0 < g" and m: "TrimSpace name \<noteq> []"
    and res: "Resolve uni (Some (Inr (list_routes db g False))) (Some (owner_of accounts g)) g name endpoint = (d, err)"
  shows "decided d = routing_spec uni (list_routes db g False) accounts (TrimSpace name) (normalizeCompositeRouteEndpoint uni endpoint)
    \<and> (cd_Matched d \<longrightarrow> isConcreteRequestPlatform (cd_TargetPlatform d) \<and> cd_UpstreamModel d \<noteq> [])
    \<and> (err \<noteq> None \<longrightarrow> \<not> cd_Matched d \<and> isl accounts \<and> DetectModelPlatform uni (TrimSpace name) = None)"
proof -
  let ?routes = "list_routes db g False" and ?e = "normalizeCompositeRouteEndpoint uni endpoint" and ?m = "TrimSpace name"
  define d0 where "d0 = zero_CompositeRouteDecision\<lparr>cd_GroupID := g, cd_PublicModel := ?m, cd_Endpoint := ?e\<rparr>"
  have d0: "0 < cd_GroupID d0" "cd_PublicModel d0 = ?m" "cd_Endpoint d0 = ?e" "\<not> cd_Matched d0" "cd_GroupID d0 = g"
    using g by (simp_all add: d0_def zero_CompositeRouteDecision_def)
  have routes: "group_routes ?routes" using ok by (rule listed)
  have res': "(case Resolve_route uni (Some (Inr ?routes)) d0 of
      Some result \<Rightarrow> result
    | None \<Rightarrow> (case Resolve_account uni (Some (owner_of accounts g)) d0 of Some result \<Rightarrow> result | None \<Rightarrow> Resolve_detector uni d0)) = (d, err)"
    using res m unfolding Resolve_def Let_def d0_def by simp
  show ?thesis
  proof (cases "best_route ?routes ?m ?e")
    case (Some r)
    then have "isConcreteRequestPlatform (cr_TargetPlatform r)" using best_Some [OF routes Some] routes by (simp add: group_routes_def clean_def)
    then show ?thesis
      using Some res' d0 m match_best [OF routes] by (auto simp: Resolve_route_def routing_spec_def decided_def Let_def split: if_splits)
  next
    case None
    then have "Resolve_route uni (Some (Inr ?routes)) d0 = None" using d0 match_best [OF routes] by (simp add: Resolve_route_def)
    then show ?thesis using resolution_without_route [OF d0(1,2) m d0(4) None, of uni accounts d err] res' d0(5) by simp
  qed
qed

end

interpretation stored: route_repository ListByGroup "routes_reachable uni" for uni
proof unfold_locales
  show "clean r" if "routes_reachable uni db" "r \<in> set (ListByGroup db g False)" for db r g
    using listed_routes [OF reachable_ok [OF that(1)], of g False] that(2) by (simp add: group_routes_def)
  show "inj_on (\<lambda>r. (cr_MatchType r, cr_Endpoint r, cr_PublicModel r)) (set (ListByGroup db g False))" if "routes_reachable uni db" for db g
    using listed_routes [OF reachable_ok [OF that], of g False] by (simp add: group_routes_def)
qed

subsection \<open>Properties\<close>

text \<open>
  (C22) Routes are chosen by the longest match. In every table that the service can produce, the route of a group
  for a model and an endpoint is the exact route of the endpoint, else the exact route of every endpoint, else
  the route with the longest prefix among those of the endpoint, else among those of every endpoint. Their
  priorities play no role: with any other priorities the same route is chosen.
\<close>

theorem routing_is_longest_match:
  assumes "routes_reachable uni db"
  shows "matchCompositeRoute uni (ListByGroup db g False) m e = best_route (ListByGroup db g False) m e
    \<and> matchCompositeRoute uni (map (with_priority p) (ListByGroup db g False)) m e
       = map_option (with_priority p) (best_route (ListByGroup db g False) m e)"
  using stored.choice [OF assms] stored.choice_with_priority [OF assms] by simp


lemma source_words: "TrimSpace ''route'' = ''route''" "TrimSpace ''account_model'' = ''account_model''" "TrimSpace ''detector'' = ''detector''"
  by (simp_all add: TrimSpace_printable printable_def)

lemma Resolve_trimmed:
  assumes "Resolve uni listed owner g name endpoint = (d, err)" and "cd_Matched d"
  shows "TrimSpace (cd_UpstreamModel d) = cd_UpstreamModel d \<and> TrimSpace (cd_Source d) = cd_Source d \<and> cd_Source d \<noteq> []"
  using assms
  by (auto simp: Resolve_def Resolve_route_def Resolve_account_def Resolve_detector_def zero_CompositeRouteDecision_def source_words Let_def
      split: if_splits option.splits sum.splits)

text \<open>
  (C23) A decision stays for the rest of the request. Once the decision of \<open>Resolve\<close> is in the context of a request,
  the gateway takes the provider, the model and the source from there, whatever happens to routes and accounts
  in the meantime and whatever name the model has by then.
\<close>

theorem decision_sticks:
  assumes reach: "routes_reachable uni db" and g: "0 < g" and m: "TrimSpace name \<noteq> []"
    and res: "Resolve uni (Some (Inr (ListByGroup db g False))) (Some (owner_of accounts g)) g name endpoint = (d, err)"
    and matched: "cd_Matched d"
  shows "\<exists>d'. resolveCompositeRouteDecision uni later (WithCompositeRouteDecision (Some ctx) d) (Some (g, ''composite'')) requested endpoint' = (d', True, None)
    \<and> cd_Matched d' \<and> cd_TargetPlatform d' = cd_TargetPlatform d \<and> cd_UpstreamModel d' = cd_UpstreamModel d \<and> cd_Source d' = cd_Source d"
proof -
  have "isConcreteRequestPlatform (cd_TargetPlatform d)" "cd_UpstreamModel d \<noteq> []" using stored.resolution [OF reach g m res] matched by simp_all
  then show ?thesis
    using Resolve_trimmed [OF res matched] matched concrete_trimmed [of "cd_TargetPlatform d"] concrete_nonempty [of "cd_TargetPlatform d"]
    by (simp add: resolveCompositeRouteDecision_def WithCompositeRouteDecision_def WithResolvedTargetPlatform_def nonblank_def
        ResolvedTargetPlatformFromContext_def ResolvedUpstreamModelFromContext_def CompositeRouteSourceFromContext_def)
qed

text \<open>
  (C24) A new route takes effect. After an exact route was created and enabled, a request of the group for its
  model at its endpoint goes to its provider, with its upstream model, whatever other routes there are.
\<close>

theorem created_route_takes_effect:
  assumes reach: "routes_reachable uni db" and new: "newID \<notin> cr_ID ` rr_route ` set db"
    and create: "CreateCompositeRoute uni grp fault known now newID g input db = Inr (db', r)"
    and exact: "cr_MatchType r = ''exact''" "cr_Enabled r" and g: "0 < g"
  shows "\<exists>d. Resolve uni (Some (Inr (ListByGroup db' g False))) owner g (ci_PublicModel input) (ci_Endpoint input) = (d, None)
    \<and> cd_Matched d \<and> cd_Source d = ''route'' \<and> cd_TargetPlatform d = TrimSpace (ci_TargetPlatform input)
    \<and> cd_UpstreamModel d = (if TrimSpace (ci_UpstreamModel input) = [] then TrimSpace (ci_PublicModel input) else TrimSpace (ci_UpstreamModel input))"
proof -
  obtain x where x: "compositeRouteFromInput uni g input = Inr x" "route_Create fault known now newID x db = Inr (db', r)"
    using create by (auto simp: CreateCompositeRoute_def split: option.splits sum.splits)
  have r: "r = x\<lparr>cr_ID := newID, cr_CreatedAt := now, cr_UpdatedAt := now\<rparr>" "active db' = active db @ [r]"
    using x(2) by (auto simp: route_Create_def active_def Let_def split: if_splits)
  have fields: "cr_GroupID r = g" "cr_PublicModel r = TrimSpace (ci_PublicModel input)" "cr_TargetPlatform r = TrimSpace (ci_TargetPlatform input)"
      "cr_Endpoint r = normalizeCompositeRouteEndpoint uni (ci_Endpoint input)" "TrimSpace (ci_PublicModel input) \<noteq> []"
      "cr_UpstreamModel r = (if TrimSpace (ci_UpstreamModel input) = [] then TrimSpace (ci_PublicModel input) else TrimSpace (ci_UpstreamModel input))"
    using x(1) exact(1) by (auto simp: r compositeRouteFromInput_def normalizeCompositeRouteInput_def Let_def split: if_splits)
  have "routes_reachable uni db'" using reach new create by (rule routes_reachable.create)
  then have ok: "group_routes (ListByGroup db' g False)" by (rule stored.listed)
  have "r \<in> set (ListByGroup db' g False)" using fields exact(2) by (simp add: set_ListByGroup r(2))
  then have "lookup_route (ListByGroup db' g False) ''exact'' (cr_Endpoint r) (cr_PublicModel r) = Some r"
    using lookup_present [OF ok] exact(1) by metis
  then have "matchCompositeRoute uni (ListByGroup db' g False) (cr_PublicModel r) (cr_Endpoint r) = Some r"
    using match_best [OF ok] by (simp add: best_route_def)
  then show ?thesis
    using g fields by (simp add: Resolve_def Resolve_route_def zero_CompositeRouteDecision_def Let_def)
qed

subsection \<open>An example\<close>

definition sample_input :: CompositeRouteInput where
  "sample_input = \<lparr>ci_PublicModel = ''fast'', ci_MatchType = ''exact'', ci_TargetPlatform = ''openai'', ci_UpstreamModel = ''gpt-5'',
     ci_Endpoint = ''messages'', ci_Priority = 0, ci_Enabled = True, ci_Notes = []\<rparr>"

definition sample_route :: CompositeModelRoute where
  "sample_route = \<lparr>cr_ID = 1, cr_GroupID = 7, cr_PublicModel = ''fast'', cr_MatchType = ''exact'', cr_TargetPlatform = ''openai'',
     cr_UpstreamModel = ''gpt-5'', cr_Endpoint = ''messages'', cr_Priority = 100, cr_Enabled = True, cr_Notes = [], cr_CreatedAt = 0, cr_UpdatedAt = 0\<rparr>"

abbreviation sample_db :: "route_row list" where
  "sample_db \<equiv> [\<lparr>rr_route = sample_route, rr_deleted = False\<rparr>]"

lemma sample_words:
  "TrimSpace ''fast'' = ''fast''" "TrimSpace ''openai'' = ''openai''" "TrimSpace ''gpt-5'' = ''gpt-5''"
  "normalizeCompositeRouteEndpoint id ''messages'' = ''messages''" "normalizeCompositeRouteMatchType id ''exact'' = ''exact''"
  by (simp_all add: TrimSpace_printable printable_def normalize_endpoint_kept normalize_match_type_kept route_endpoints_def)

lemma sample_create: "CreateCompositeRoute id (Inr ''composite'') False True 0 1 7 sample_input [] = Inr (sample_db, sample_route)"
  by (simp add: CreateCompositeRoute_def requireCompositeGroup_def compositeRouteFromInput_def normalizeCompositeRouteInput_def sample_input_def
      sample_route_def route_Create_def validated_def checked_def isConcreteRequestPlatform_def route_endpoints_def active_def sample_words Let_def)

lemma sample_reachable: "routes_reachable id sample_db"
  by (rule routes_reachable.create [OF routes_reachable.empty _ sample_create]) simp

lemma sample_listed: "ListByGroup sample_db 7 False = [sample_route]"
  by (simp add: ListByGroup_def active_def sample_route_def)

lemma sample_best: "best_route [sample_route] ''fast'' ''messages'' = Some sample_route"
  by (simp add: best_route_def lookup_route_def sample_route_def)

theorem routing_is_longest_match_witness:
  "routes_reachable id sample_db \<and> matchCompositeRoute id (ListByGroup sample_db 7 False) ''fast'' ''messages'' = Some sample_route"
  using routing_is_longest_match [OF sample_reachable, of 7 "''fast''" "''messages''"] sample_reachable
  by (simp add: sample_listed sample_best)

definition sample_decision :: CompositeRouteDecision where
  "sample_decision = \<lparr>cd_Matched = True, cd_Source = ''route'', cd_GroupID = 7, cd_PublicModel = ''fast'', cd_TargetPlatform = ''openai'',
     cd_UpstreamModel = ''gpt-5'', cd_Endpoint = ''messages'', cd_Route = Some sample_route, cd_Reason = []\<rparr>"

lemma sample_resolve:
  "Resolve id (Some (Inr (ListByGroup sample_db 7 False))) (Some (owner_of (Inr []) 7)) 7 ''fast'' ''messages'' = (sample_decision, None)"
proof -
  have "group_routes [sample_route]" using stored.listed [OF sample_reachable, of 7] by (simp add: sample_listed)
  then have "matchCompositeRoute id [sample_route] ''fast'' ''messages'' = Some sample_route" by (simp add: match_best sample_best)
  then show ?thesis
    by (simp add: Resolve_def Resolve_route_def sample_listed sample_words sample_decision_def zero_CompositeRouteDecision_def Let_def)
      (simp add: sample_route_def sample_words)
qed


theorem decision_sticks_witness:
  "\<exists>d. resolveCompositeRouteDecision id (\<lambda>_ _ _. (zero_CompositeRouteDecision, Some ErrRouteStore))
      (WithCompositeRouteDecision (Some \<lparr>rv_TargetPlatform = None, rv_UpstreamModel = None, rv_PublicModel = None, rv_Source = None\<rparr>) sample_decision)
      (Some (7, ''composite'')) ''gpt-5'' ''any'' = (d, True, None) \<and> cd_TargetPlatform d = ''openai'' \<and> cd_UpstreamModel d = ''gpt-5''"
  using decision_sticks [OF sample_reachable _ _ sample_resolve,
      of "\<lambda>_ _ _. (zero_CompositeRouteDecision, Some ErrRouteStore)"
        "\<lparr>rv_TargetPlatform = None, rv_UpstreamModel = None, rv_PublicModel = None, rv_Source = None\<rparr>" "''gpt-5''" "''any''"]
  by (auto simp: sample_words) (auto simp: sample_decision_def)

theorem created_route_takes_effect_witness:
  "\<exists>d. Resolve id (Some (Inr (ListByGroup sample_db 7 False))) None 7 ''fast'' ''messages'' = (d, None)
     \<and> cd_TargetPlatform d = ''openai'' \<and> cd_UpstreamModel d = ''gpt-5''"
  using created_route_takes_effect [OF routes_reachable.empty _ sample_create, of None]
  by (auto simp: sample_input_def sample_words) (auto simp: sample_route_def)

end
