(* ===== verification/Auth_Limiter.thy ===== *)
theory Auth_Limiter
  imports Go_Time "HOL-Library.Word"
begin

text \<open>
  The limiter of clients that keep failing to authenticate: \<open>service/invalid_auth_abuse_limiter.go\<close>. Failures
  are counted per client in sixteen shards, each behind its own lock; one counter, shared by all shards, bounds
  the number of clients tracked, and when there is no room left failures are counted together.

  A call of \<open>check\<close> or \<open>record\<close> is a machine with one step per section that runs under a lock or on an atomic
  value; calls take the time when they start, and their steps interleave in any order. A step holds what a lock
  protects: the room for a new client is reserved while the lock of its shard is held. The counters of the health
  report are words of 64 bits, the cursor of the cleanup and the hash are words of 32 bits, and all of them wrap.

  Shown: the table never outgrows its capacity and the counter is the number of clients tracked; a client is
  turned away only after it failed often enough within one window, or after as many failures of clients for
  which there was no room; a client that fails often enough is turned away for the configured time.
\<close>

unbundle bit_operations_syntax

subsection \<open>State\<close>

record invalid_abuse_config =
  iac_Enabled :: bool
  iac_Threshold :: int
  iac_WindowSeconds :: int
  iac_BlockSeconds :: int
  iac_Capacity :: int

record abuse_settings =
  as_threshold :: int
  as_window :: duration
  as_block :: duration
  as_capacity :: int

record invalidAuthAbuseEntry =
  ae_failures :: int
  ae_windowStart :: instant
  ae_blockedUntil :: instant

type_synonym invalidAuthAbuseShard = "(string \<times> invalidAuthAbuseEntry) list"

record invalidAuthAbuseLimiter =
  lm_shards :: "invalidAuthAbuseShard list"
  lm_overflow :: invalidAuthAbuseEntry
  lm_tracked :: int
  lm_recorded :: "64 word"
  lm_blocked :: "64 word"
  lm_rejected :: "64 word"
  lm_expired :: "64 word"
  lm_overflowed :: "64 word"
  lm_globalBlocked :: "64 word"
  lm_cleanupNext :: int
  lm_cleanupCursor :: "32 word"

definition invalidAuthAbuseShardCount :: nat where
  "invalidAuthAbuseShardCount = 16"

definition zero_abuse_entry :: invalidAuthAbuseEntry where
  [zero_defs]: "zero_abuse_entry = \<lparr>ae_failures = 0, ae_windowStart = zero_time, ae_blockedUntil = zero_time\<rparr>"

definition new_limiter :: invalidAuthAbuseLimiter where
  "new_limiter = \<lparr>lm_shards = replicate invalidAuthAbuseShardCount [], lm_overflow = zero_abuse_entry, lm_tracked = 0, lm_recorded = 0, lm_blocked = 0,
     lm_rejected = 0, lm_expired = 0, lm_overflowed = 0, lm_globalBlocked = 0, lm_cleanupNext = 0, lm_cleanupCursor = 0\<rparr>"

definition newInvalidAuthAbuseLimiter :: "invalid_abuse_config option \<Rightarrow> (abuse_settings \<times> invalidAuthAbuseLimiter) option" where
  "newInvalidAuthAbuseLimiter cfg =
     (case cfg of
        None \<Rightarrow> None
      | Some c \<Rightarrow>
          if \<not> iac_Enabled c then None
          else if iac_Threshold c \<le> 0 \<or> iac_WindowSeconds c \<le> 0 \<or> iac_BlockSeconds c \<le> 0 \<or> iac_Capacity c \<le> 0 then None
          else Some (\<lparr>as_threshold = iac_Threshold c, as_window = wrap64 (iac_WindowSeconds c * second_ns),
                       as_block = wrap64 (iac_BlockSeconds c * second_ns), as_capacity = iac_Capacity c\<rparr>, new_limiter))"

subsection \<open>Sections\<close>

text \<open>FNV-1a over the bytes of the key.\<close>

definition fnv_byte :: "32 word \<Rightarrow> char \<Rightarrow> 32 word" where
  "fnv_byte hash c = (hash XOR of_nat (of_char c)) * 16777619"

definition shard_index :: "string \<Rightarrow> nat" where
  "shard_index clientKey = unat (foldl fnv_byte 2166136261 clientKey) mod invalidAuthAbuseShardCount"

definition entryExpired :: "abuse_settings \<Rightarrow> invalidAuthAbuseEntry \<Rightarrow> instant \<Rightarrow> bool" where
  "entryExpired s entry now \<longleftrightarrow> \<not> now < ae_blockedUntil entry \<and> \<not> now < ae_windowStart entry \<and> \<not> now < ae_windowStart entry + as_window s"

definition entry_of :: "string \<Rightarrow> invalidAuthAbuseLimiter \<Rightarrow> invalidAuthAbuseEntry option" where
  "entry_of clientKey l = map_of (lm_shards l ! shard_index clientKey) clientKey"

definition remove_key :: "string \<Rightarrow> invalidAuthAbuseShard \<Rightarrow> invalidAuthAbuseShard" where
  "remove_key k sh = filter (\<lambda>(k', _). k' \<noteq> k) sh"

definition set_shard :: "nat \<Rightarrow> invalidAuthAbuseShard \<Rightarrow> invalidAuthAbuseLimiter \<Rightarrow> invalidAuthAbuseLimiter" where
  "set_shard i sh l = l\<lparr>lm_shards := (lm_shards l)[i := sh]\<rparr>"

definition maybeCleanupAtCapacity :: "abuse_settings \<Rightarrow> instant \<Rightarrow> invalidAuthAbuseLimiter \<Rightarrow> invalidAuthAbuseLimiter" where
  "maybeCleanupAtCapacity s now l =
     (if lm_tracked l < as_capacity s then l
      else if now < lm_cleanupNext l then l
      else let i = unat (lm_cleanupCursor l) mod invalidAuthAbuseShardCount;
               sh = lm_shards l ! i;
               kept = filter (\<lambda>(_, entry). \<not> entryExpired s entry now) sh;
               n = length sh - length kept
           in (set_shard i kept l)\<lparr>lm_cleanupNext := now + 100000000, lm_cleanupCursor := lm_cleanupCursor l + 1,
                lm_tracked := lm_tracked l - int n, lm_expired := lm_expired l + of_nat n\<rparr>)"

text \<open>Both \<open>check\<close> and \<open>record\<close> first drop an entry of the client that has expired.\<close>

definition drop_expired :: "abuse_settings \<Rightarrow> instant \<Rightarrow> string \<Rightarrow> invalidAuthAbuseLimiter \<Rightarrow> invalidAuthAbuseLimiter" where
  "drop_expired s now clientKey l =
     (case entry_of clientKey l of
        None \<Rightarrow> l
      | Some entry \<Rightarrow>
          if \<not> entryExpired s entry now then l
          else (set_shard (shard_index clientKey) (remove_key clientKey (lm_shards l ! shard_index clientKey)) l)
                 \<lparr>lm_tracked := lm_tracked l - 1, lm_expired := lm_expired l + 1\<rparr>)"

text \<open>The failure is counted; the second component says whether the client is blocked by it.\<close>

definition add_failure :: "abuse_settings \<Rightarrow> instant \<Rightarrow> invalidAuthAbuseEntry \<Rightarrow> invalidAuthAbuseEntry \<times> bool" where
  "add_failure s now entry =
     (let entry = entry\<lparr>ae_failures := ae_failures entry + 1\<rparr> in
      if as_threshold s \<le> ae_failures entry
      then (entry\<lparr>ae_failures := 0, ae_blockedUntil := now + as_block s, ae_windowStart := now + as_block s\<rparr>, True)
      else (entry, False))"

definition record_failure :: "abuse_settings \<Rightarrow> instant \<Rightarrow> invalidAuthAbuseEntry \<Rightarrow> invalidAuthAbuseEntry \<times> bool" where
  "record_failure s now entry =
     (if now < ae_blockedUntil entry then (entry, False)
      else add_failure s now
             (if now < ae_windowStart entry \<or> \<not> now < ae_windowStart entry + as_window s
              then entry\<lparr>ae_windowStart := now, ae_failures := 0\<rparr> else entry))"

text \<open>The section of \<open>record\<close> under the lock; the second component says whether there was no room for the client.\<close>

definition record_entry :: "abuse_settings \<Rightarrow> instant \<Rightarrow> string \<Rightarrow> invalidAuthAbuseLimiter \<Rightarrow> invalidAuthAbuseLimiter \<times> bool" where
  "record_entry s now clientKey l0 =
     (let l = drop_expired s now clientKey l0; i = shard_index clientKey; sh = lm_shards l ! i in
      case entry_of clientKey l of
        Some entry \<Rightarrow>
          (case record_failure s now entry of (entry', blocked) \<Rightarrow>
             ((set_shard i ((clientKey, entry') # remove_key clientKey sh) l)\<lparr>lm_blocked := lm_blocked l + (if blocked then 1 else 0)\<rparr>, False))
      | None \<Rightarrow>
          if as_capacity s \<le> lm_tracked l then (l, True)
          else (case record_failure s now (zero_abuse_entry\<lparr>ae_windowStart := now\<rparr>) of (entry', blocked) \<Rightarrow>
                  ((set_shard i ((clientKey, entry') # sh) l)
                     \<lparr>lm_tracked := lm_tracked l + 1, lm_blocked := lm_blocked l + (if blocked then 1 else 0)\<rparr>, False)))"

definition recordOverflow :: "abuse_settings \<Rightarrow> instant \<Rightarrow> invalidAuthAbuseLimiter \<Rightarrow> invalidAuthAbuseLimiter" where
  "recordOverflow s now l0 =
     (let l = l0\<lparr>lm_overflowed := lm_overflowed l0 + 1\<rparr>; o' = lm_overflow l in
      if now < ae_blockedUntil o' then l
      else case add_failure s now
                  (if ae_windowStart o' = zero_time \<or> \<not> now < ae_windowStart o' + as_window s
                   then o'\<lparr>ae_windowStart := now, ae_failures := 0\<rparr> else o') of
             (entry', blocked) \<Rightarrow> l\<lparr>lm_overflow := entry', lm_blocked := lm_blocked l + (if blocked then 1 else 0)\<rparr>)"

subsection \<open>Calls\<close>

datatype auth_pc =
    CheckStart string instant | CheckEntry string instant | CheckCapacity instant | CheckOverflow instant
  | CheckDone "duration option"
  | RecordStart string instant | RecordEntry string instant | RecordOverflow instant | RecordDone

definition check_start :: "string \<Rightarrow> instant \<Rightarrow> auth_pc" where
  "check_start clientKey now = (if clientKey = [] then CheckDone None else CheckStart clientKey now)"

definition record_start :: "string \<Rightarrow> instant \<Rightarrow> auth_pc" where
  "record_start clientKey now = (if clientKey = [] then RecordDone else RecordStart clientKey now)"

definition check_entry :: "abuse_settings \<Rightarrow> string \<Rightarrow> instant \<Rightarrow> invalidAuthAbuseLimiter \<Rightarrow> auth_pc \<times> invalidAuthAbuseLimiter" where
  "check_entry s clientKey now l0 =
     (let l = drop_expired s now clientKey l0 in
      case entry_of clientKey l of
        None \<Rightarrow> (CheckCapacity now, l)
      | Some entry \<Rightarrow>
          if now < ae_blockedUntil entry
          then (CheckDone (Some (time_Sub (ae_blockedUntil entry) now)), l\<lparr>lm_rejected := lm_rejected l + 1\<rparr>)
          else (CheckDone None, l))"

definition checkOverflow :: "instant \<Rightarrow> invalidAuthAbuseLimiter \<Rightarrow> duration option" where
  "checkOverflow now l =
     (if now < ae_blockedUntil (lm_overflow l) then Some (time_Sub (ae_blockedUntil (lm_overflow l)) now) else None)"

definition auth_step :: "abuse_settings \<Rightarrow> auth_pc \<Rightarrow> invalidAuthAbuseLimiter \<Rightarrow> auth_pc \<times> invalidAuthAbuseLimiter" where
  "auth_step s pc l =
     (case pc of
        CheckStart k now \<Rightarrow> (CheckEntry k now, maybeCleanupAtCapacity s now l)
      | CheckEntry k now \<Rightarrow> check_entry s k now l
      | CheckCapacity now \<Rightarrow> if as_capacity s \<le> lm_tracked l then (CheckOverflow now, l) else (CheckDone None, l)
      | CheckOverflow now \<Rightarrow>
          (case checkOverflow now l of
             None \<Rightarrow> (CheckDone None, l)
           | Some retry \<Rightarrow> (CheckDone (Some retry), l\<lparr>lm_rejected := lm_rejected l + 1, lm_globalBlocked := lm_globalBlocked l + 1\<rparr>))
      | CheckDone r \<Rightarrow> (CheckDone r, l)
      | RecordStart k now \<Rightarrow> (RecordEntry k now, maybeCleanupAtCapacity s now (l\<lparr>lm_recorded := lm_recorded l + 1\<rparr>))
      | RecordEntry k now \<Rightarrow> (case record_entry s now k l of (l', full) \<Rightarrow> (if full then RecordOverflow now else RecordDone, l'))
      | RecordOverflow now \<Rightarrow> (RecordDone, recordOverflow s now l)
      | RecordDone \<Rightarrow> (RecordDone, l))"

text \<open>A call on its own: no call takes more than four steps.\<close>

fun auth_run :: "abuse_settings \<Rightarrow> nat \<Rightarrow> auth_pc \<times> invalidAuthAbuseLimiter \<Rightarrow> auth_pc \<times> invalidAuthAbuseLimiter" where
  "auth_run s 0 x = x"
| "auth_run s (Suc n) x = auth_run s n (auth_step s (fst x) (snd x))"

definition limiter_check :: "abuse_settings \<Rightarrow> instant \<Rightarrow> string \<Rightarrow> invalidAuthAbuseLimiter \<Rightarrow> auth_pc \<times> invalidAuthAbuseLimiter" where
  "limiter_check s now clientKey l = auth_run s 4 (check_start clientKey now, l)"

definition limiter_record :: "abuse_settings \<Rightarrow> instant \<Rightarrow> string \<Rightarrow> invalidAuthAbuseLimiter \<Rightarrow> invalidAuthAbuseLimiter" where
  "limiter_record s now clientKey l = snd (auth_run s 3 (record_start clientKey now, l))"

text \<open>The calls of the service, which may have no limiter, and the health report.\<close>

definition CheckInvalidAuthAbuse ::
    "instant \<Rightarrow> string \<Rightarrow> (abuse_settings \<times> invalidAuthAbuseLimiter) option \<Rightarrow> duration option \<times> (abuse_settings \<times> invalidAuthAbuseLimiter) option" where
  "CheckInvalidAuthAbuse now clientKey limiter =
     (case limiter of
        None \<Rightarrow> (None, None)
      | Some (s, l) \<Rightarrow> (case limiter_check s now clientKey l of
                        (CheckDone r, l') \<Rightarrow> (r, Some (s, l'))
                      | (_, l') \<Rightarrow> (None, Some (s, l'))))"

definition RecordInvalidAuthFailure ::
    "instant \<Rightarrow> string \<Rightarrow> (abuse_settings \<times> invalidAuthAbuseLimiter) option \<Rightarrow> (abuse_settings \<times> invalidAuthAbuseLimiter) option" where
  "RecordInvalidAuthFailure now clientKey limiter = map_option (\<lambda>(s, l). (s, limiter_record s now clientKey l)) limiter"

record InvalidAuthAbuseHealth =
  ih_Enabled :: bool
  ih_Tracked :: int
  ih_Capacity :: int
  ih_Recorded :: "64 word"
  ih_Blocks :: "64 word"
  ih_Rejected :: "64 word"
  ih_Expired :: "64 word"
  ih_Overflowed :: "64 word"
  ih_GlobalBlocked :: "64 word"

definition limiter_health :: "(abuse_settings \<times> invalidAuthAbuseLimiter) option \<Rightarrow> InvalidAuthAbuseHealth" where
  "limiter_health limiter =
     (case limiter of
        None \<Rightarrow> \<lparr>ih_Enabled = False, ih_Tracked = 0, ih_Capacity = 0, ih_Recorded = 0, ih_Blocks = 0, ih_Rejected = 0, ih_Expired = 0,
                 ih_Overflowed = 0, ih_GlobalBlocked = 0\<rparr>
      | Some (s, l) \<Rightarrow> \<lparr>ih_Enabled = True, ih_Tracked = lm_tracked l, ih_Capacity = as_capacity s, ih_Recorded = lm_recorded l, ih_Blocks = lm_blocked l,
                 ih_Rejected = lm_rejected l, ih_Expired = lm_expired l, ih_Overflowed = lm_overflowed l, ih_GlobalBlocked = lm_globalBlocked l\<rparr>)"

text \<open>
  Many calls. The first log has the failures that were recorded, with the client and the time; the second the
  times of failures for which there was no room.
\<close>

record auth_system =
  au_limiter :: invalidAuthAbuseLimiter
  au_calls :: "auth_pc list"
  au_log :: "(string \<times> instant) list"
  au_overflow_log :: "instant list"

definition logged :: "auth_pc \<Rightarrow> (string \<times> instant) list" where
  "logged pc = (case pc of RecordEntry k now \<Rightarrow> [(k, now)] | _ \<Rightarrow> [])"

definition overflow_logged :: "auth_pc \<Rightarrow> instant list" where
  "overflow_logged pc = (case pc of RecordOverflow now \<Rightarrow> [now] | _ \<Rightarrow> [])"

inductive auth_reach :: "abuse_settings \<Rightarrow> auth_system \<Rightarrow> bool" for s where
  start: "auth_reach s \<lparr>au_limiter = new_limiter, au_calls = [], au_log = [], au_overflow_log = []\<rparr>"
| arrive_check: "auth_reach s y \<Longrightarrow> zero_time < now \<Longrightarrow> auth_reach s (y\<lparr>au_calls := au_calls y @ [check_start k now]\<rparr>)"
| arrive_record: "auth_reach s y \<Longrightarrow> zero_time < now \<Longrightarrow> auth_reach s (y\<lparr>au_calls := au_calls y @ [record_start k now]\<rparr>)"
| step: "auth_reach s y \<Longrightarrow> i < length (au_calls y) \<Longrightarrow> auth_step s (au_calls y ! i) (au_limiter y) = (pc, l) \<Longrightarrow>
    auth_reach s \<lparr>au_limiter = l, au_calls = (au_calls y)[i := pc], au_log = au_log y @ logged (au_calls y ! i),
      au_overflow_log = au_overflow_log y @ overflow_logged (au_calls y ! i)\<rparr>"

subsection \<open>Invariant\<close>

definition settings_ok :: "abuse_settings \<Rightarrow> bool" where
  "settings_ok s \<longleftrightarrow> 0 < as_threshold s \<and> 0 < as_window s \<and> 0 < as_block s \<and> 0 < as_capacity s"

lemma new_settings_ok:
  assumes "newInvalidAuthAbuseLimiter (Some c) = Some (s, l)" and "iac_WindowSeconds c < 2 ^ 33" "iac_BlockSeconds c < 2 ^ 33"
  shows "settings_ok s \<and> l = new_limiter"
  using assms by (auto simp: newInvalidAuthAbuseLimiter_def settings_ok_def second_ns_def split: if_splits)

text \<open>The failures of a client within a window.\<close>

definition failures_within :: "(string \<times> instant) list \<Rightarrow> string \<Rightarrow> instant \<Rightarrow> duration \<Rightarrow> int" where
  "failures_within log k w d = int (count_if (\<lambda>(k', t). k' = k \<and> w \<le> t \<and> t < w + d) log)"

lemma failures_within_append:
  "failures_within (log @ x) k w d = failures_within log k w d + failures_within x k w d"
  by (simp add: failures_within_def)

lemma failures_within_nonneg [simp]: "0 \<le> failures_within log k w d"
  by (simp add: failures_within_def)

text \<open>The client has earned to be blocked until a time: enough failures in one window, the last a block before.\<close>

definition earned :: "abuse_settings \<Rightarrow> (string \<times> instant) list \<Rightarrow> string \<Rightarrow> instant \<Rightarrow> bool" where
  "earned s log k until \<longleftrightarrow>
     (k, until - as_block s) \<in> set log
     \<and> (\<exists>w. w \<le> until - as_block s \<and> until - as_block s < w + as_window s \<and> as_threshold s \<le> failures_within log k w (as_window s))"

definition entry_ok :: "abuse_settings \<Rightarrow> (string \<times> instant) list \<Rightarrow> string \<Rightarrow> invalidAuthAbuseEntry \<Rightarrow> bool" where
  "entry_ok s log k e \<longleftrightarrow> 0 \<le> ae_failures e \<and> ae_failures e < as_threshold s
     \<and> ae_failures e \<le> failures_within log k (ae_windowStart e) (as_window s)
     \<and> (ae_blockedUntil e = zero_time \<or> earned s log k (ae_blockedUntil e))"

lemma failures_within_mono: "n \<le> failures_within log k w d \<Longrightarrow> n \<le> failures_within (log @ x) k w d"
  using failures_within_nonneg [of x k w d] unfolding failures_within_append by linarith

lemma earned_append: "earned s log k u \<Longrightarrow> earned s (log @ x) k u"
  unfolding earned_def using failures_within_mono by auto

lemma entry_ok_append: "entry_ok s log k e \<Longrightarrow> entry_ok s (log @ x) k e"
  by (auto simp: entry_ok_def earned_append failures_within_mono)

lemma entry_ok_zero: "settings_ok s \<Longrightarrow> entry_ok s log k (zero_abuse_entry\<lparr>ae_windowStart := now\<rparr>)"
  by (simp add: entry_ok_def zero_abuse_entry_def settings_ok_def)

lemma add_failure_ok:
  assumes s: "settings_ok s" and e: "entry_ok s log k e" and now: "ae_windowStart e \<le> now" "now < ae_windowStart e + as_window s"
  shows "entry_ok s (log @ [(k, now)]) k (fst (add_failure s now e))"
proof -
  have n: "ae_failures e + 1 \<le> failures_within (log @ [(k, now)]) k (ae_windowStart e) (as_window s)"
    using e now by (simp add: entry_ok_def failures_within_append) (simp add: failures_within_def)
  show ?thesis
  proof (cases "as_threshold s \<le> ae_failures e + 1")
    case True
    then have "earned s (log @ [(k, now)]) k (now + as_block s)" unfolding earned_def using n now by (intro conjI exI [of _ "ae_windowStart e"]) simp_all
    then show ?thesis using True s by (simp add: add_failure_def entry_ok_def settings_ok_def)
  next
    case False
    then show ?thesis using e n by (auto simp: add_failure_def entry_ok_def earned_append)
  qed
qed

lemma record_failure_ok:
  assumes s: "settings_ok s" and e: "entry_ok s log k e"
  shows "entry_ok s (log @ [(k, now)]) k (fst (record_failure s now e))"
proof (cases "now < ae_blockedUntil e")
  case True
  then show ?thesis using e by (simp add: record_failure_def entry_ok_append)
next
  case False
  define e1 where "e1 = (if now < ae_windowStart e \<or> \<not> now < ae_windowStart e + as_window s
    then e\<lparr>ae_windowStart := now, ae_failures := 0\<rparr> else e)"
  have "entry_ok s log k e1" "ae_windowStart e1 \<le> now" "now < ae_windowStart e1 + as_window s"
    using e s by (auto simp: e1_def entry_ok_def settings_ok_def)
  then show ?thesis using False add_failure_ok [OF s] by (simp add: record_failure_def e1_def)
qed

definition shard_ok :: "abuse_settings \<Rightarrow> (string \<times> instant) list \<Rightarrow> nat \<Rightarrow> invalidAuthAbuseShard \<Rightarrow> bool" where
  "shard_ok s log i sh \<longleftrightarrow> distinct (map fst sh) \<and> (\<forall>(k, e) \<in> set sh. shard_index k = i \<and> entry_ok s log k e)"

definition overflow_ok :: "abuse_settings \<Rightarrow> instant list \<Rightarrow> invalidAuthAbuseEntry \<Rightarrow> bool" where
  "overflow_ok s olog e \<longleftrightarrow> 0 \<le> ae_failures e \<and> ae_failures e < as_threshold s \<and> ae_failures e \<le> int (length olog)
     \<and> (ae_blockedUntil e = zero_time \<or> as_threshold s \<le> int (length olog))"

definition limiter_ok :: "abuse_settings \<Rightarrow> (string \<times> instant) list \<Rightarrow> instant list \<Rightarrow> invalidAuthAbuseLimiter \<Rightarrow> bool" where
  "limiter_ok s log olog l \<longleftrightarrow> length (lm_shards l) = invalidAuthAbuseShardCount
     \<and> (\<forall>i < invalidAuthAbuseShardCount. shard_ok s log i (lm_shards l ! i))
     \<and> lm_tracked l = int (sum_list (map length (lm_shards l))) \<and> lm_tracked l \<le> as_capacity s \<and> overflow_ok s olog (lm_overflow l)"

lemma shard_index_less [simp]: "shard_index k < invalidAuthAbuseShardCount"
  by (simp add: shard_index_def invalidAuthAbuseShardCount_def)

text \<open>A known value of the hash.\<close>

lemma fnv_known_value: "foldl fnv_byte 2166136261 ''a'' = 0xE40C292C"
  by (simp add: fnv_byte_def)

lemma limiter_ok_shard: "limiter_ok s log olog l \<Longrightarrow> shard_ok s log (shard_index k) (lm_shards l ! shard_index k)"
  by (simp add: limiter_ok_def)

lemma set_shard_ok:
  assumes ok: "limiter_ok s log olog l" and i: "i < invalidAuthAbuseShardCount" and sh: "shard_ok s log i sh"
    and l': "lm_shards l' = lm_shards (set_shard i sh l)" "lm_overflow l' = lm_overflow l"
      "lm_tracked l' = lm_tracked l + int (length sh) - int (length (lm_shards l ! i))" "lm_tracked l' \<le> as_capacity s"
  shows "limiter_ok s log olog l'"
proof -
  have len: "i < length (lm_shards l)" using ok i by (simp add: limiter_ok_def)
  then have "length (lm_shards l ! i) \<le> sum_list (map length (lm_shards l))"
    using elem_le_sum_list [of i "map length (lm_shards l)"] by simp
  moreover have "sum_list (map length ((lm_shards l)[i := sh])) + length (lm_shards l ! i) = sum_list (map length (lm_shards l)) + length sh"
    using len calculation by (simp add: map_update sum_list_update)
  ultimately show ?thesis using ok l' sh len by (auto simp: limiter_ok_def set_shard_def nth_list_update)
qed

lemma shard_ok_filter: "shard_ok s log i sh \<Longrightarrow> shard_ok s log i (filter P sh)"
  by (auto simp: shard_ok_def distinct_map_filter)

lemma shard_ok_append: "shard_ok s log i sh \<Longrightarrow> shard_ok s (log @ x) i sh"
  by (auto simp: shard_ok_def entry_ok_append)

lemma limiter_ok_append: "limiter_ok s log olog l \<Longrightarrow> limiter_ok s (log @ x) olog l"
  by (simp add: limiter_ok_def shard_ok_append)

lemma sweep_ok: "limiter_ok s log olog l \<Longrightarrow> limiter_ok s log olog (maybeCleanupAtCapacity s now l)"
proof -
  assume ok: "limiter_ok s log olog l"
  define i where "i = unat (lm_cleanupCursor l) mod invalidAuthAbuseShardCount"
  have i: "i < invalidAuthAbuseShardCount" by (simp add: i_def invalidAuthAbuseShardCount_def)
  define kept where "kept = filter (\<lambda>(_, entry). \<not> entryExpired s entry now) (lm_shards l ! i)"
  have le: "length kept \<le> length (lm_shards l ! i)" by (simp add: kept_def)
  show ?thesis
  proof (cases "lm_tracked l < as_capacity s \<or> now < lm_cleanupNext l")
    case True
    then show ?thesis using ok by (auto simp: maybeCleanupAtCapacity_def)
  next
    case False
    have "shard_ok s log i kept" using ok i by (simp add: kept_def shard_ok_filter limiter_ok_def)
    then show ?thesis
      by (rule set_shard_ok [OF ok i]) (use False le ok in \<open>simp_all add: maybeCleanupAtCapacity_def Let_def i_def [symmetric] kept_def [symmetric] limiter_ok_def set_shard_def\<close>)
  qed
qed

lemma length_remove_key:
  assumes "distinct (map fst sh)" "map_of sh k = Some e"
  shows "length (remove_key k sh) + 1 = length sh"
  using assms
proof (induction sh)
  case (Cons x sh)
  show ?case
  proof (cases "fst x = k")
    case True
    then have "remove_key k sh = sh" using Cons.prems(1) by (auto simp: remove_key_def filter_id_conv image_iff)
    then show ?thesis using True by (cases x) (simp add: remove_key_def)
  next
    case False
    then show ?thesis using Cons by (auto simp: remove_key_def split: prod.splits)
  qed
qed simp

lemma shard_ok_remove: "shard_ok s log i sh \<Longrightarrow> shard_ok s log i (remove_key k sh)"
  by (simp add: remove_key_def shard_ok_filter)

lemma shard_ok_insert:
  "shard_ok s log i sh \<Longrightarrow> entry_ok s log k e \<Longrightarrow> shard_index k = i \<Longrightarrow> map_of sh k = None \<Longrightarrow> shard_ok s log i ((k, e) # sh)"
  by (auto simp: shard_ok_def map_of_eq_None_iff)

lemma map_of_remove_key [simp]: "map_of (remove_key k sh) k = None"
  by (auto simp: remove_key_def map_of_eq_None_iff)

lemma shard_ok_entry: "shard_ok s log i sh \<Longrightarrow> map_of sh k = Some e \<Longrightarrow> entry_ok s log k e"
  by (auto simp: shard_ok_def dest: map_of_SomeD)

lemma shard_ok_keys: "shard_ok s log i sh \<Longrightarrow> distinct (map fst sh) \<and> (\<forall>k \<in> fst ` set sh. shard_index k = i)"
  by (auto simp: shard_ok_def)

lemma entry_of_ok: "limiter_ok s log olog l \<Longrightarrow> entry_of k l = Some e \<Longrightarrow> entry_ok s log k e"
  unfolding entry_of_def using limiter_ok_shard shard_ok_entry by blast

lemma drop_expired_ok:
  assumes ok: "limiter_ok s log olog l"
  shows "limiter_ok s log olog (drop_expired s now k l)"
proof (cases "\<exists>e. entry_of k l = Some e \<and> entryExpired s e now")
  case True
  then obtain e where e: "entry_of k l = Some e" "entryExpired s e now" by blast
  let ?sh = "lm_shards l ! shard_index k"
  have sh: "shard_ok s log (shard_index k) ?sh" using ok by (rule limiter_ok_shard)
  then have "length (remove_key k ?sh) + 1 = length ?sh" using e(1) length_remove_key by (auto simp: shard_ok_def entry_of_def)
  then show ?thesis
    by (intro set_shard_ok [OF ok shard_index_less shard_ok_remove [OF sh], of _ k])
      (use e ok in \<open>simp_all add: drop_expired_def set_shard_def limiter_ok_def\<close>)
next
  case False
  then show ?thesis using ok by (auto simp: drop_expired_def split: option.split)
qed

lemma record_entry_ok:
  assumes s: "settings_ok s" and ok: "limiter_ok s log olog l"
  shows "limiter_ok s (log @ [(k, now)]) olog (fst (record_entry s now k l))"
proof -
  define l1 where "l1 = drop_expired s now k l"
  let ?i = "shard_index k" and ?log = "log @ [(k, now)]"
  have l1: "limiter_ok s log olog l1" using drop_expired_ok [OF ok] by (simp add: l1_def)
  then have ok1: "limiter_ok s ?log olog l1" by (rule limiter_ok_append)
  have sh: "shard_ok s ?log ?i (lm_shards l1 ! ?i)" using ok1 by (rule limiter_ok_shard)
  show ?thesis
  proof (cases "entry_of k l1")
    case (Some e)
    then have e: "map_of (lm_shards l1 ! ?i) k = Some e" by (simp add: entry_of_def)
    obtain e' b where e': "record_failure s now e = (e', b)" by (cases "record_failure s now e")
    then have "entry_ok s ?log k e'" using record_failure_ok [OF s entry_of_ok [OF l1 Some], of now] by simp
    then have sh': "shard_ok s ?log ?i ((k, e') # remove_key k (lm_shards l1 ! ?i))" using sh by (simp add: shard_ok_insert shard_ok_remove)
    have "length (remove_key k (lm_shards l1 ! ?i)) + 1 = length (lm_shards l1 ! ?i)"
      using e sh length_remove_key by (auto simp: shard_ok_def)
    then show ?thesis
      by (intro set_shard_ok [OF ok1 shard_index_less sh']) (use Some e' ok1 in \<open>simp_all add: record_entry_def l1_def [symmetric] set_shard_def limiter_ok_def Let_def\<close>)
  next
    case None
    then have e: "map_of (lm_shards l1 ! ?i) k = None" by (simp add: entry_of_def)
    show ?thesis
    proof (cases "as_capacity s \<le> lm_tracked l1")
      case True
      then show ?thesis using None ok1 by (simp add: record_entry_def l1_def [symmetric] Let_def)
    next
      case False
      obtain e' b where e': "record_failure s now (zero_abuse_entry\<lparr>ae_windowStart := now\<rparr>) = (e', b)"
        by (cases "record_failure s now (zero_abuse_entry\<lparr>ae_windowStart := now\<rparr>)")
      then have "entry_ok s ?log k e'" using record_failure_ok [OF s entry_ok_zero [OF s], of log k now now] by simp
      then have sh': "shard_ok s ?log ?i ((k, e') # lm_shards l1 ! ?i)" using sh e by (simp add: shard_ok_insert)
      show ?thesis
        by (intro set_shard_ok [OF ok1 shard_index_less sh']) (use None False e' ok1 in \<open>simp_all add: record_entry_def l1_def [symmetric] set_shard_def Let_def\<close>)
    qed
  qed
qed

lemma recordOverflow_ok:
  assumes "settings_ok s" "limiter_ok s log olog l"
  shows "limiter_ok s log (olog @ [now]) (recordOverflow s now l)"
  using assms
  by (auto simp: recordOverflow_def add_failure_def limiter_ok_def overflow_ok_def settings_ok_def Let_def split: if_splits)

lemma overflow_ok_append: "limiter_ok s log olog l \<Longrightarrow> limiter_ok s log (olog @ x) l"
  by (auto simp: limiter_ok_def overflow_ok_def)

text \<open>The times calls carry are past the zero time.\<close>

fun pc_ok :: "auth_pc \<Rightarrow> bool" where
  "pc_ok (CheckStart k now) \<longleftrightarrow> zero_time < now"
| "pc_ok (CheckEntry k now) \<longleftrightarrow> zero_time < now"
| "pc_ok (CheckCapacity now) \<longleftrightarrow> zero_time < now"
| "pc_ok (CheckOverflow now) \<longleftrightarrow> zero_time < now"
| "pc_ok (RecordStart k now) \<longleftrightarrow> zero_time < now"
| "pc_ok (RecordEntry k now) \<longleftrightarrow> zero_time < now"
| "pc_ok (RecordOverflow now) \<longleftrightarrow> zero_time < now"
| "pc_ok (CheckDone r) \<longleftrightarrow> True"
| "pc_ok RecordDone \<longleftrightarrow> True"

lemma auth_step_pc_ok: "pc_ok pc \<Longrightarrow> pc_ok (fst (auth_step s pc l))"
  by (cases pc) (auto simp: auth_step_def check_entry_def Let_def split: option.split prod.split)

lemma limiter_ok_counters [simp]:
  "limiter_ok s log olog (l\<lparr>lm_rejected := r\<rparr>) \<longleftrightarrow> limiter_ok s log olog l"
  "limiter_ok s log olog (l\<lparr>lm_globalBlocked := r\<rparr>) \<longleftrightarrow> limiter_ok s log olog l"
  "limiter_ok s log olog (l\<lparr>lm_recorded := r\<rparr>) \<longleftrightarrow> limiter_ok s log olog l"
  by (simp_all add: limiter_ok_def)

lemma auth_step_ok:
  assumes s: "settings_ok s" and ok: "limiter_ok s log olog l"
  shows "limiter_ok s (log @ logged pc) (olog @ overflow_logged pc) (snd (auth_step s pc l))"
proof (cases pc)
  case (RecordEntry k now)
  then show ?thesis using record_entry_ok [OF s ok, of k now]
    by (cases "record_entry s now k l") (simp add: auth_step_def logged_def overflow_logged_def)
next
  case (RecordOverflow now)
  then show ?thesis using recordOverflow_ok [OF s ok] by (simp add: auth_step_def logged_def overflow_logged_def)
qed (auto simp: auth_step_def logged_def overflow_logged_def check_entry_def Let_def ok sweep_ok drop_expired_ok split: option.split)

lemma auth_reach_ok:
  assumes "auth_reach s y" and s: "settings_ok s"
  shows "limiter_ok s (au_log y) (au_overflow_log y) (au_limiter y) \<and> list_all pc_ok (au_calls y)"
  using assms(1)
proof (induction rule: auth_reach.induct)
  case start
  have "sum_list (map length (replicate n [])) = 0" for n by (induction n) simp_all
  then show ?case using s
    by (simp add: limiter_ok_def new_limiter_def shard_ok_def overflow_ok_def settings_ok_def zero_abuse_entry_def)
next
  case (step y i pc l)
  then show ?case
    using auth_step_ok [OF s, of "au_log y" "au_overflow_log y" "au_limiter y" "au_calls y ! i"]
      auth_step_pc_ok [of "au_calls y ! i" s "au_limiter y"]
    by (auto simp: list_all_length nth_list_update)
qed (auto simp: check_start_def record_start_def)

subsection \<open>Properties\<close>


text \<open>
  (C25) Nobody is turned away without cause. If a client is turned away for its own failures, then it failed at least as
  often as the threshold says within one window, and the time it is turned away for ends one block after a
  failure of that window. If it is turned away because there is no room to track it, then as many failures were
  recorded of clients for which there was no room.
\<close>

theorem blocked_with_cause:
  assumes reach: "auth_reach s y" and s: "settings_ok s" and i: "i < length (au_calls y)"
    and res: "auth_step s (au_calls y ! i) (au_limiter y) = (CheckDone (Some retry), l)"
  shows "case au_calls y ! i of
      CheckEntry k now \<Rightarrow> \<exists>w t. (k, t) \<in> set (au_log y) \<and> w \<le> t \<and> t < w + as_window s \<and> now < t + as_block s
        \<and> retry = time_Sub (t + as_block s) now \<and> as_threshold s \<le> failures_within (au_log y) k w (as_window s)
    | CheckOverflow now \<Rightarrow> as_threshold s \<le> int (length (au_overflow_log y))
    | CheckDone r \<Rightarrow> r = Some retry
    | _ \<Rightarrow> False"
proof -
  have ok: "limiter_ok s (au_log y) (au_overflow_log y) (au_limiter y)" and pc: "pc_ok (au_calls y ! i)"
    using auth_reach_ok [OF reach s] i by (simp_all add: list_all_length)
  show ?thesis
  proof (cases "au_calls y ! i")
    case (CheckEntry k now)
    obtain e where e: "entry_of k (drop_expired s now k (au_limiter y)) = Some e" "now < ae_blockedUntil e" "retry = time_Sub (ae_blockedUntil e) now"
      using res CheckEntry by (auto simp: auth_step_def check_entry_def Let_def split: option.splits if_splits)
    have "ae_blockedUntil e \<noteq> zero_time" using e(2) pc CheckEntry by auto
    then have "earned s (au_log y) k (ae_blockedUntil e)" using entry_of_ok [OF drop_expired_ok [OF ok] e(1)] by (simp add: entry_ok_def)
    then obtain w where "(k, ae_blockedUntil e - as_block s) \<in> set (au_log y)" "w \<le> ae_blockedUntil e - as_block s" "ae_blockedUntil e - as_block s < w + as_window s"
        "as_threshold s \<le> failures_within (au_log y) k w (as_window s)" by (auto simp: earned_def)
    then show ?thesis using CheckEntry e by (simp, intro exI [of _ w] exI [of _ "ae_blockedUntil e - as_block s"]) simp
  next
    case (CheckOverflow now)
    then have "now < ae_blockedUntil (lm_overflow (au_limiter y))"
      using res by (auto simp: auth_step_def checkOverflow_def split: if_splits)
    then show ?thesis using CheckOverflow ok pc by (auto simp: limiter_ok_def overflow_ok_def)
  qed (use res in \<open>auto simp: auth_step_def split: prod.splits if_splits\<close>)
qed

subsection \<open>A client that keeps failing\<close>

lemma map_of_filter_kept: "map_of sh k = Some e \<Longrightarrow> P (k, e) \<Longrightarrow> map_of (filter P sh) k = Some e"
  by (induction sh) (auto split: if_splits)

lemma nth_set_shard: "length (lm_shards l) = invalidAuthAbuseShardCount \<Longrightarrow> i < invalidAuthAbuseShardCount \<Longrightarrow>
    lm_shards (set_shard i sh l) ! j = (if i = j then sh else lm_shards l ! j)"
  by (simp add: set_shard_def nth_list_update)

lemma length_set_shard [simp]: "length (lm_shards (set_shard i sh l)) = length (lm_shards l)"
  by (simp add: set_shard_def)

lemma sweep_keeps:
  assumes len: "length (lm_shards l) = invalidAuthAbuseShardCount" and e: "entry_of k l = Some e" "\<not> entryExpired s e now"
  shows "entry_of k (maybeCleanupAtCapacity s now l) = Some e"
    "length (lm_shards (maybeCleanupAtCapacity s now l)) = invalidAuthAbuseShardCount"
proof -
  have i: "unat (lm_cleanupCursor l) mod invalidAuthAbuseShardCount < invalidAuthAbuseShardCount" by (simp add: invalidAuthAbuseShardCount_def)
  have "map_of (filter (\<lambda>(_, entry). \<not> entryExpired s entry now) (lm_shards l ! shard_index k)) k = Some e"
    using e by (intro map_of_filter_kept) (simp_all add: entry_of_def)
  then show "entry_of k (maybeCleanupAtCapacity s now l) = Some e"
    using e nth_set_shard [OF len i] by (simp add: maybeCleanupAtCapacity_def entry_of_def Let_def)
  show "length (lm_shards (maybeCleanupAtCapacity s now l)) = invalidAuthAbuseShardCount"
    using len by (simp add: maybeCleanupAtCapacity_def Let_def)
qed

lemma drop_expired_keeps: "entry_of k l = Some e \<Longrightarrow> \<not> entryExpired s e now \<Longrightarrow> drop_expired s now k l = l"
  by (simp add: drop_expired_def)

lemma limiter_record_eq: "k \<noteq> [] \<Longrightarrow> limiter_record s t k l =
    (case record_entry s t k (maybeCleanupAtCapacity s t (l\<lparr>lm_recorded := lm_recorded l + 1\<rparr>)) of
       (l', full) \<Rightarrow> if full then recordOverflow s t l' else l')"
  by (simp add: limiter_record_def record_start_def auth_step_def eval_nat_numeral split: prod.split)

lemma record_tracked:
  assumes len: "length (lm_shards l) = invalidAuthAbuseShardCount" and e: "entry_of k l = Some e" "\<not> entryExpired s e t" and k: "k \<noteq> []"
  shows "entry_of k (limiter_record s t k l) = Some (fst (record_failure s t e))"
    "length (lm_shards (limiter_record s t k l)) = invalidAuthAbuseShardCount"
proof -
  define l1 where "l1 = maybeCleanupAtCapacity s t (l\<lparr>lm_recorded := lm_recorded l + 1\<rparr>)"
  have l1: "entry_of k l1 = Some e" "length (lm_shards l1) = invalidAuthAbuseShardCount"
    using sweep_keeps [of "l\<lparr>lm_recorded := lm_recorded l + 1\<rparr>" k e s t] len e by (simp_all add: l1_def entry_of_def)
  obtain e' b where e': "record_failure s t e = (e', b)" by (cases "record_failure s t e")
  have "record_entry s t k l1 = ((set_shard (shard_index k) ((k, e') # remove_key k (lm_shards l1 ! shard_index k)) l1)
      \<lparr>lm_blocked := lm_blocked l1 + (if b then 1 else 0)\<rparr>, False)"
    using l1 e(2) e' by (simp add: record_entry_def drop_expired_keeps Let_def)
  then show "entry_of k (limiter_record s t k l) = Some (fst (record_failure s t e))"
      "length (lm_shards (limiter_record s t k l)) = invalidAuthAbuseShardCount"
    using l1(2) e' k by (simp_all add: limiter_record_eq l1_def [symmetric] entry_of_def nth_set_shard)
qed

lemma record_new:
  assumes len: "length (lm_shards l) = invalidAuthAbuseShardCount" and e: "entry_of k l = None" "lm_tracked l < as_capacity s" and k: "k \<noteq> []"
  shows "entry_of k (limiter_record s t k l) = Some (fst (record_failure s t (zero_abuse_entry\<lparr>ae_windowStart := t\<rparr>)))"
    "length (lm_shards (limiter_record s t k l)) = invalidAuthAbuseShardCount"
proof -
  define l1 where "l1 = l\<lparr>lm_recorded := lm_recorded l + 1\<rparr>"
  have l1: "entry_of k l1 = None" "length (lm_shards l1) = invalidAuthAbuseShardCount" "lm_tracked l1 < as_capacity s" "maybeCleanupAtCapacity s t l1 = l1"
    using len e by (simp_all add: l1_def entry_of_def maybeCleanupAtCapacity_def)
  obtain e' b where e': "record_failure s t (zero_abuse_entry\<lparr>ae_windowStart := t\<rparr>) = (e', b)"
    by (cases "record_failure s t (zero_abuse_entry\<lparr>ae_windowStart := t\<rparr>)")
  have "record_entry s t k l1 = ((set_shard (shard_index k) ((k, e') # lm_shards l1 ! shard_index k) l1)
      \<lparr>lm_tracked := lm_tracked l1 + 1, lm_blocked := lm_blocked l1 + (if b then 1 else 0)\<rparr>, False)"
    using l1 e' by (simp add: record_entry_def drop_expired_def Let_def)
  then show "entry_of k (limiter_record s t k l) = Some (fst (record_failure s t (zero_abuse_entry\<lparr>ae_windowStart := t\<rparr>)))"
      "length (lm_shards (limiter_record s t k l)) = invalidAuthAbuseShardCount"
    using l1(2,4) e' k by (simp_all add: limiter_record_eq l1_def [symmetric] entry_of_def nth_set_shard)
qed

definition counting :: "instant \<Rightarrow> int \<Rightarrow> invalidAuthAbuseEntry" where
  "counting t0 m = \<lparr>ae_failures = m, ae_windowStart = t0, ae_blockedUntil = zero_time\<rparr>"

definition blocked_at :: "abuse_settings \<Rightarrow> instant \<Rightarrow> invalidAuthAbuseEntry" where
  "blocked_at s t = \<lparr>ae_failures = 0, ae_windowStart = t + as_block s, ae_blockedUntil = t + as_block s\<rparr>"

lemma record_failure_counting:
  "zero_time < t0 \<Longrightarrow> t0 \<le> t \<Longrightarrow> t < t0 + as_window s \<Longrightarrow>
     fst (record_failure s t (counting t0 m)) = (if as_threshold s \<le> m + 1 then blocked_at s t else counting t0 (m + 1))"
  by (simp add: record_failure_def add_failure_def counting_def blocked_at_def)

lemma counting_live: "t < t0 + as_window s \<Longrightarrow> \<not> entryExpired s (counting t0 m) t"
  by (simp add: entryExpired_def counting_def)

lemma records_counted:
  assumes "length (lm_shards l) = invalidAuthAbuseShardCount" "entry_of k l = Some (counting t0 m)" "k \<noteq> []" "zero_time < t0"
    "\<forall>t \<in> set ts. t0 \<le> t \<and> t < t0 + as_window s" "m + int (length ts) < as_threshold s"
  shows "length (lm_shards (foldl (\<lambda>l t. limiter_record s t k l) l ts)) = invalidAuthAbuseShardCount
    \<and> entry_of k (foldl (\<lambda>l t. limiter_record s t k l) l ts) = Some (counting t0 (m + int (length ts)))"
  using assms
proof (induction ts arbitrary: l m)
  case (Cons t ts)
  then have t: "t0 \<le> t" "t < t0 + as_window s" by simp_all
  have "entry_of k (limiter_record s t k l) = Some (counting t0 (m + 1))" "length (lm_shards (limiter_record s t k l)) = invalidAuthAbuseShardCount"
    using record_tracked [OF Cons.prems(1,2) counting_live [OF t(2)] Cons.prems(3)] record_failure_counting [OF Cons.prems(4) t, of m] Cons.prems(6)
    by simp_all
  then show ?case using Cons.IH [of "limiter_record s t k l" "m + 1"] Cons.prems by (simp add: algebra_simps)
qed simp

lemma check_blocked:
  assumes "length (lm_shards l) = invalidAuthAbuseShardCount" "entry_of k l = Some (blocked_at s t)" "k \<noteq> []" "now < t + as_block s"
  shows "fst (limiter_check s now k l) = CheckDone (Some (time_Sub (t + as_block s) now))"
proof -
  have live: "\<not> entryExpired s (blocked_at s t) now" using assms(4) by (simp add: entryExpired_def blocked_at_def)
  then have "entry_of k (maybeCleanupAtCapacity s now l) = Some (blocked_at s t)" using sweep_keeps assms by blast
  then have "check_entry s k now (maybeCleanupAtCapacity s now l) = (CheckDone (Some (time_Sub (t + as_block s) now)),
      (maybeCleanupAtCapacity s now l)\<lparr>lm_rejected := lm_rejected (maybeCleanupAtCapacity s now l) + 1\<rparr>)"
    using live assms(4) by (simp add: check_entry_def drop_expired_keeps Let_def) (simp add: blocked_at_def)
  then show ?thesis using assms(3) by (simp add: limiter_check_def check_start_def auth_step_def eval_nat_numeral)
qed


subsection \<open>Examples\<close>

definition sample_abuse :: abuse_settings where
  "sample_abuse = \<lparr>as_threshold = 2, as_window = 10, as_block = 100, as_capacity = 1\<rparr>"

abbreviation sample_start :: auth_system where
  "sample_start \<equiv> \<lparr>au_limiter = new_limiter, au_calls = [], au_log = [], au_overflow_log = []\<rparr>"

lemma sample_abuse_ok: "settings_ok sample_abuse"
  by (simp add: settings_ok_def sample_abuse_def)

lemma zero_time_past: "zero_time < 5" "zero_time < 7" "zero_time < 20"
  by (simp_all add: zero_time_def second_ns_def)


text \<open>Three steps are enough for a record, and four for a check.\<close>

lemma record_done: "fst (auth_run s 3 (record_start k now, l)) = RecordDone"
  by (simp add: record_start_def auth_step_def eval_nat_numeral split: prod.split)

lemma check_done: "\<exists>r. fst (limiter_check s now k l) = CheckDone r"
proof (cases "k = []")
  case True
  then show ?thesis by (simp add: limiter_check_def check_start_def auth_step_def eval_nat_numeral)
next
  case False
  define l1 where "l1 = maybeCleanupAtCapacity s now l"
  obtain pc l2 where p: "check_entry s k now l1 = (pc, l2)" by (cases "check_entry s k now l1")
  then have "pc = CheckCapacity now \<or> (\<exists>r. pc = CheckDone r)" by (auto simp: check_entry_def Let_def split: option.splits if_splits)
  then show ?thesis
    using p False by (auto simp: limiter_check_def check_start_def auth_step_def eval_nat_numeral l1_def [symmetric] split: option.split)
qed

text \<open>A client that failed once, with a threshold of one, and is about to be checked.\<close>

definition strict_abuse :: abuse_settings where
  "strict_abuse = \<lparr>as_threshold = 1, as_window = 10, as_block = 100, as_capacity = 2\<rparr>"

definition sample_failed :: invalidAuthAbuseLimiter where
  "sample_failed = (set_shard (shard_index ''a'') [(''a'', blocked_at strict_abuse 5)] new_limiter)
     \<lparr>lm_recorded := 1, lm_tracked := 1, lm_blocked := 1\<rparr>"

definition sample_system :: auth_system where
  "sample_system = \<lparr>au_limiter = sample_failed, au_calls = [RecordDone, CheckEntry ''a'' 20], au_log = [(''a'', 5)], au_overflow_log = []\<rparr>"

lemma strict_abuse_ok: "settings_ok strict_abuse"
  by (simp add: settings_ok_def strict_abuse_def)

lemma new_limiter_shard: "i < invalidAuthAbuseShardCount \<Longrightarrow> lm_shards new_limiter ! i = []"
  by (simp add: new_limiter_def)

lemma sample_record:
  "auth_step strict_abuse (RecordStart ''a'' 5) new_limiter = (RecordEntry ''a'' 5, new_limiter\<lparr>lm_recorded := 1\<rparr>)"
  "auth_step strict_abuse (RecordEntry ''a'' 5) (new_limiter\<lparr>lm_recorded := 1\<rparr>) = (RecordDone, sample_failed)"
proof -
  show "auth_step strict_abuse (RecordStart ''a'' 5) new_limiter = (RecordEntry ''a'' 5, new_limiter\<lparr>lm_recorded := 1\<rparr>)"
    by (simp add: auth_step_def maybeCleanupAtCapacity_def strict_abuse_def new_limiter_def)
  have "record_failure strict_abuse 5 (zero_abuse_entry\<lparr>ae_windowStart := 5\<rparr>) = (blocked_at strict_abuse 5, True)"
    using zero_time_past by (simp add: record_failure_def add_failure_def zero_abuse_entry_def strict_abuse_def blocked_at_def)
  moreover have "entry_of ''a'' (new_limiter\<lparr>lm_recorded := 1\<rparr>) = None" by (simp add: entry_of_def new_limiter_shard)
  moreover have "lm_tracked new_limiter = 0" "lm_blocked new_limiter = 0" by (simp_all add: new_limiter_def)
  ultimately show "auth_step strict_abuse (RecordEntry ''a'' 5) (new_limiter\<lparr>lm_recorded := 1\<rparr>) = (RecordDone, sample_failed)"
    by (simp add: auth_step_def record_entry_def drop_expired_def new_limiter_shard sample_failed_def set_shard_def Let_def)
      (simp add: strict_abuse_def)
qed

lemma sample_check_start: "auth_step strict_abuse (CheckStart ''a'' 20) sample_failed = (CheckEntry ''a'' 20, sample_failed)"
  by (simp add: auth_step_def maybeCleanupAtCapacity_def sample_failed_def) (simp add: strict_abuse_def)

lemma sample_system_reachable: "auth_reach strict_abuse sample_system"
proof -
  have "auth_reach strict_abuse (sample_start\<lparr>au_calls := [RecordStart ''a'' 5]\<rparr>)"
    using auth_reach.arrive_record [OF auth_reach.start zero_time_past(1), of strict_abuse "''a''"] by (simp add: record_start_def)
  from auth_reach.step [OF this, of 0, simplified, OF sample_record(1)]
  have "auth_reach strict_abuse \<lparr>au_limiter = new_limiter\<lparr>lm_recorded := 1\<rparr>, au_calls = [RecordEntry ''a'' 5], au_log = [], au_overflow_log = []\<rparr>"
    by (simp add: logged_def overflow_logged_def)
  from auth_reach.step [OF this, of 0, simplified, OF sample_record(2)]
  have "auth_reach strict_abuse \<lparr>au_limiter = sample_failed, au_calls = [RecordDone], au_log = [(''a'', 5)], au_overflow_log = []\<rparr>"
    by (simp add: logged_def overflow_logged_def)
  from auth_reach.arrive_check [OF this zero_time_past(3), of "''a''"]
  have "auth_reach strict_abuse \<lparr>au_limiter = sample_failed, au_calls = [RecordDone, CheckStart ''a'' 20], au_log = [(''a'', 5)], au_overflow_log = []\<rparr>"
    by (simp add: check_start_def)
  from auth_reach.step [OF this, of 1, simplified, OF sample_check_start]
  show ?thesis by (simp add: logged_def overflow_logged_def sample_system_def)
qed


theorem blocked_with_cause_witness:
  "\<exists>w t. (''a'', t) \<in> set [(''a'', 5)] \<and> w \<le> t \<and> t < w + 10 \<and> (20 :: int) < t + 100 \<and> 85 = time_Sub (t + 100) 20
     \<and> 1 \<le> failures_within [(''a'', 5)] ''a'' w 10"
proof -
  have e: "entry_of ''a'' sample_failed = Some (blocked_at strict_abuse 5)"
    by (simp add: entry_of_def sample_failed_def nth_set_shard new_limiter_def)
  then have "drop_expired strict_abuse 20 ''a'' sample_failed = sample_failed"
    by (rule drop_expired_keeps) (simp add: entryExpired_def blocked_at_def strict_abuse_def)
  then have "auth_step strict_abuse (au_calls sample_system ! 1) (au_limiter sample_system) = (CheckDone (Some 85), sample_failed\<lparr>lm_rejected := lm_rejected sample_failed + 1\<rparr>)"
    using e by (simp add: sample_system_def auth_step_def check_entry_def) (simp add: blocked_at_def strict_abuse_def time_Sub_def)
  from blocked_with_cause [OF sample_system_reachable strict_abuse_ok _ this]
  show ?thesis by (simp add: sample_system_def) (simp add: strict_abuse_def)
qed

end
