(* ===== verification/Spec2Isabelle.thy ===== *)
theory Spec2Isabelle
  imports Responses_To_Anthropic Anthropic_To_Responses Responses_To_Chat Idempotency System_Lock
    Subscription_Service Keyword_Matcher Usage_Billing Proxy_Circuit Failover Payment Chat_Request Composite_Route Auth_Limiter
begin

text \<open>
  RelayDeck is a self-hosted gateway for AI APIs. Its backend (Go, \<open>src/backend\<close>) accepts requests in
  the Anthropic, the OpenAI Chat Completions and the OpenAI Responses protocol, forwards them to an
  upstream account that may speak another of these protocols, converts the answer back while it streams,
  and meters what was used. This library models the parts of the backend that carry its own logic and
  proves what makes them correct. All paths below are under \<open>src/backend/internal\<close>.

  \<^bold>\<open>Theories.\<close>

  \<^item> \<open>Relay_Prelude\<close>: Go's string functions on bytes; runs of a stream converter, acceptors that say which
    event sequences a protocol allows, and the locales that lift what holds of one event to whole
    streams. \<open>Api_Types\<close>: the structs of \<open>pkg/apicompat/types.go\<close>. \<open>Go_Time\<close>: durations, locations and
    calendar days of package \<open>time\<close>, and \<open>pkg/timezone\<close>.

  \<^item> \<open>Responses_To_Anthropic\<close>, \<open>Anthropic_To_Responses\<close>, \<open>Responses_To_Chat\<close>: the converters of answers in
    \<open>pkg/apicompat\<close> (\<open>responses_to_anthropic.go\<close>, \<open>anthropic_to_responses_response.go\<close>,
    \<open>responses_to_chatcompletions.go\<close>), each for a whole answer and for a stream of events. The state of
    a stream converter is the record the source keeps per request; a handler returns the new state and
    the events it emits. Each theory defines an acceptor for the protocol of its output and one for what
    it expects of the upstream, and shows: every stream converted from an accepted upstream is accepted;
    text, arguments and token counts arrive unchanged and in order; a terminal event is sent exactly
    once; streaming and buffering build the same answer.

  \<^item> \<open>Go_Json\<close>, \<open>Request_Types\<close>: \<open>encoding/json\<close> on documents, where a \<open>json.RawMessage\<close> is a document or
    absent, with the codecs of the request structs as interpretations of one locale. \<open>Request_To_Anthropic\<close>,
    \<open>Request_To_Responses\<close>, \<open>Chat_Request\<close>: the converters of requests
    (\<open>pkg/apicompat/responses_to_anthropic_request.go\<close>, \<open>anthropic_to_responses.go\<close>,
    \<open>chatcompletions_to_responses.go\<close>). Shown: the messages of every converted request alternate and pair
    tool calls with results; repairing the pairing keeps what was said and the calls that were answered; an
    Anthropic request comes back from the Responses protocol with the same conversation; a chat conversation
    reaches an Anthropic account whole. \<open>Json_Notation\<close> is a notation for documents with a reader that is
    proved to undo its printer, an instance of what the round trips ask of the text of a document.

  \<^item> \<open>Idempotency_Store\<close>, \<open>Idempotency\<close>: \<open>repository/idempotency_repo.go\<close> as operations on a table, the
    repository interface as a locale with the laws its users rely on, interpreted on that table; and
    \<open>service/idempotency.go\<close>, whose \<open>Execute\<close> is a machine with one program counter per call of the store,
    so that any number of requests interleave. Shown: a key is executed by one request at a time, a
    success is never executed again while its record lives, replays return the stored answer, conflicts
    and back-off are reported, and \<open>Execute\<close> always returns.

  \<^item> \<open>System_Lock\<close>: \<open>service/system_operation_lock_service.go\<close>, a lock with a lease kept in one record of
    the same store.

  \<^item> \<open>Subscription\<close>, \<open>Subscription_Service\<close>: \<open>service/user_subscription.go\<close>, the window maintenance and
    the limit checks of \<open>service/subscription_service.go\<close> and the statements of
    \<open>repository/user_subscription_repo.go\<close> they use. Shown: where usage windows start, that concurrent
    maintenance never clears the usage of a window that has moved on and renews a quota no more often
    than periods fit into the term, that maintenance leaves no window due, and which requests pass.

  \<^item> \<open>Usage_Billing\<close>: \<open>service/usage_billing.go\<close>, \<open>service/batch_image_billing_hold.go\<close>, the transactions of
    \<open>repository/usage_billing_repo.go\<close> with the quota expressions of \<open>repository/account_repo.go\<close>, and the
    archiving of keys in \<open>repository/dashboard_aggregation_repo.go\<close>. Shown: no request is charged twice,
    whatever fails and is tried again; balances and quotas are what the log of committed commands says;
    one command moves every column by the same amount; the exhaustion of a quota is reported once; holds
    end in a charge or in nothing if their amounts have eight decimals, and are stuck if they are rounded
    down.

  \<^item> \<open>Keyword_Matcher\<close>: \<open>service/content_moderation_keyword_matcher.go\<close>, an Aho-Corasick automaton in flat
    arrays. Shown: it finds the first keyword of the list that occurs in the text.

  \<^item> \<open>Proxy_Circuit\<close>: \<open>service/openai_proxy_stream_circuit.go\<close>, the quarantine of proxies whose streams break
    off. Shown: a proxy is kept from use only after enough separate incidents within one window, and then
    it is, for the configured time; the table is bounded.

  \<^item> \<open>Failover\<close>: \<open>handler/failover_loop.go\<close> and the loops of the messages handler around it
    (\<open>handler/gateway_handler.go\<close>), with what selection, admission and forwarding return as arguments. Shown:
    a bound for the number of passes, so that every request ends; that failed attempts, switches and
    retries add up and keep to their limits; that an account refused for profit stays excluded;
    the length of the waits.

  \<^item> \<open>Payment\<close>: \<open>service/payment_fulfillment.go\<close> with the part of \<open>service/redeem_service.go\<close>,
    \<open>repository/redeem_code_repo.go\<close> and \<open>repository/user_repo.go\<close> it uses. A notification or a retry is a
    machine with one step per call of the database; statements fail or lose their answer, workers stop
    anywhere and interleave. Shown: an order is credited once, after a payment that agrees with it, and
    brings one rebate; a retry completes an order whatever happened to it before.

  \<^item> \<open>Composite_Route\<close>: \<open>service/composite_model_route.go\<close>, \<open>service/composite_route_resolver.go\<close>,
    \<open>service/composite_platform.go\<close>, \<open>repository/composite_model_route_repo.go\<close> and the management of routes in
    \<open>service/admin_group.go\<close>: which provider handles a request to a group that serves several. The repository is a
    locale, interpreted on the tables that the statements of the service produce. Shown: the decision follows a
    specification (routes, then accounts, then the name of the model, no guess between two providers); routes
    are chosen by the longest match and priorities never matter; a decision stays for the rest of the request; a
    new route takes effect.

  \<^item> \<open>Auth_Limiter\<close>: \<open>service/invalid_auth_abuse_limiter.go\<close>, the counters of failed authentications in shards with
    locks of their own and a shared bound; calls interleave section by section. Shown: the bound holds and the
    shared counter is exact; a client is turned away only with cause, and then it is.

  This theory composes the converters: an Anthropic answer that passes through the Responses protocol
  reaches an Anthropic or a Chat client whole, as a stream or at once, with the same token counts.

  \<^bold>\<open>Conventions.\<close> A Go struct is a record with a prefix for its fields, a pointer an option, an error a
  value of a datatype; \<open>int\<close> fields that only count are unbounded integers, durations are \<open>int64\<close> with
  saturation and wrap-around written out where the code computes with them. Strings are lists of bytes.
  The clock, generated identifiers, the text of JSON documents, hash functions, the precision of stored times and
  \<open>float64\<close> arithmetic are arguments. Loops are structural recursions or have a termination proof; the
  machines of \<open>Execute\<close>, \<open>Acquire\<close>, \<open>EnsureWindowMaintenance\<close> and of the calls of the authentication limiter run for
  the largest number of steps they take, which is proved to be enough.

  \<^bold>\<open>Not modelled.\<close> The HTTP handlers apart from the failover loop, the server and its middleware, configuration, generated code under
  \<open>ent\<close>, the rest of the repositories, caches, creation and refund of orders, payment providers, scheduling of accounts, pricing and the web
  frontend; logging, audit and metrics of the modelled functions. Of the converters, the raw bridge
  for upstreams that only speak Chat Completions and the decoding of whole requests and answers are not modelled.
\<close>

subsection \<open>From Anthropic to Responses and on\<close>

text \<open>What the first converter sends is what the second and the third expect.\<close>

definition up_rel :: "resp_proto \<Rightarrow> resp_up \<Rightarrow> bool" where
  "up_rel p q \<longleftrightarrow> rup_started q = rp_created p \<and> rup_done q = rp_ended p
     \<and> (\<forall>i a. rp_item p = CallItem i a False \<longrightarrow> rup_item q = Some (rp_next p, ''tool_use''))
     \<and> (\<forall>i a. rp_item p = ReasoningItem i a False \<longrightarrow> rup_item q = Some (rp_next p, ''thinking''))"

lemma item_event_CallItem:
  "item_event it e = Some (CallItem i a False) \<Longrightarrow> \<exists>i' a'. it = CallItem i' a' False \<and>
     re_Type e = ''response.function_call_arguments.delta''"
  by (induction it e rule: item_event.induct) (auto split: if_splits)

lemma item_event_ReasoningItem:
  "item_event it e = Some (ReasoningItem i a False) \<Longrightarrow> \<exists>i' a'. it = ReasoningItem i' a' False \<and>
     re_Type e = ''response.reasoning_summary_text.delta''"
  by (induction it e rule: item_event.induct) (auto split: if_splits)

lemma item_event_types:
  "item_event it e = Some it' \<Longrightarrow>
    re_Type e = ''response.function_call_arguments.delta'' \<and> (\<exists>i a. it = CallItem i a False)
    \<or> re_Type e = ''response.reasoning_summary_text.delta'' \<and> (\<exists>i a. it = ReasoningItem i a False)
    \<or> re_Type e \<in> {''response.output_text.delta'', ''response.output_text.done'',
         ''response.function_call_arguments.done'', ''response.content_part.added'',
         ''response.content_part.done'', ''response.reasoning_summary_text.done''}"
  by (induction it e rule: item_event.induct) (auto split: if_splits)

lemma up_item_event:
  assumes rel: "up_rel p q" and go: "rp_created p" "\<not> rp_ended p" and idx: "re_OutputIndex e = rp_next p"
    and it: "item_event (rp_item p) e = Some i"
  shows "\<exists>q'. resp_up_step q e = Some q' \<and> up_rel (p\<lparr>rp_item := i\<rparr>) q'"
proof -
  have q: "rup_started q" "\<not> rup_done q" using rel go by (simp_all add: up_rel_def)
  from item_event_types [OF it] consider
      (args) "re_Type e = ''response.function_call_arguments.delta''" "rup_item q = Some (re_OutputIndex e, ''tool_use'')"
    | (think) "re_Type e = ''response.reasoning_summary_text.delta''" "rup_item q = Some (re_OutputIndex e, ''thinking'')"
    | (other) "re_Type e \<in> {''response.output_text.delta'', ''response.output_text.done'',
         ''response.function_call_arguments.done'', ''response.content_part.added'',
         ''response.content_part.done'', ''response.reasoning_summary_text.done''}"
    using rel idx by (auto simp: up_rel_def)
  then show ?thesis
  proof cases
    case args
    then have "resp_up_step q e = Some q" using q by (simp add: resp_up_step_def)
    then show ?thesis using args rel idx item_event_ReasoningItem [of "rp_item p" e] it
      by (auto simp: up_rel_def)
  next
    case think
    then have "resp_up_step q e = Some q" using q by (simp add: resp_up_step_def)
    then show ?thesis using think rel idx item_event_CallItem [of "rp_item p" e] it
      by (auto simp: up_rel_def)
  next
    case other
    have no: "\<And>j a. i \<noteq> CallItem j a False" "\<And>j a. i \<noteq> ReasoningItem j a False"
      using other item_event_CallItem [of "rp_item p" e] item_event_ReasoningItem [of "rp_item p" e] it by auto
    have "\<exists>it'. resp_up_step q e = Some (q\<lparr>rup_item := it'\<rparr>)"
    proof -
      have "resp_up_step q e = Some q \<or> resp_up_step q e = Some (q\<lparr>rup_item := None\<rparr>)"
        using other q by (auto simp: resp_up_step_def resp_terminal_def)
      moreover have "q = q\<lparr>rup_item := rup_item q\<rparr>" by simp
      ultimately show ?thesis by metis
    qed
    then show ?thesis using rel no by (auto simp: up_rel_def)
  qed
qed

lemma up_step:
  assumes rel: "up_rel p q" and st: "resp_step p e = Some p'"
  shows "\<exists>q'. resp_up_step q e = Some q' \<and> up_rel p' q'"
proof -
  consider (created) "re_Type e = ''response.created''"
    | (ending) "re_Type e = ''response.completed'' \<or> re_Type e = ''response.incomplete''"
    | (added) "re_Type e = ''response.output_item.added''" | (fin) "re_Type e = ''response.output_item.done''"
    | (other) "re_Type e \<notin> {''response.created'', ''response.completed'', ''response.incomplete'',
        ''response.output_item.added'', ''response.output_item.done''}"
    by blast
  then show ?thesis
  proof cases
    case created
    then show ?thesis using rel st by (auto simp: resp_step_def resp_up_step_def up_rel_def split: if_splits)
  next
    case ending
    then show ?thesis using rel st
      by (auto simp: resp_step_def resp_up_step_def resp_terminal_def up_rel_def split: if_splits)
  next
    case added
    then obtain it i where "re_Item e = Some it" "open_item_of it = Some i" "rp_created p" "\<not> rp_ended p"
        "re_OutputIndex e = rp_next p" "p' = p\<lparr>rp_item := i\<rparr>"
      using st by (auto simp: resp_step_def bind_eq_Some_conv split: if_splits)
    then show ?thesis using rel added
      by (auto simp: resp_up_step_def up_rel_def open_item_of_def split: if_splits)
  next
    case fin
    then show ?thesis using rel st
      by (auto simp: resp_step_def resp_up_step_def up_rel_def split: if_splits option.splits)
  next
    case other
    then have "rp_created p" "\<not> rp_ended p" "re_OutputIndex e = rp_next p"
        "\<exists>i. item_event (rp_item p) e = Some i \<and> p' = p\<lparr>rp_item := i\<rparr>"
      using st by (auto simp: resp_step_def split: if_splits)
    then show ?thesis using up_item_event [OF rel] by blast
  qed
qed

lemma up_accepts:
  "up_rel p q \<Longrightarrow> accepts resp_step p evts = Some p' \<Longrightarrow> \<exists>q'. accepts resp_up_step q evts = Some q' \<and> up_rel p' q'"
proof (induction evts arbitrary: p q)
  case (Cons e evts)
  then obtain p1 where p1: "resp_step p e = Some p1" "accepts resp_step p1 evts = Some p'"
    by (auto split: option.splits)
  obtain q1 where "resp_up_step q e = Some q1" "up_rel p1 q1" using up_step [OF Cons.prems(1) p1(1)] by blast
  then show ?case using Cons.IH [OF _ p1(2)] by simp
qed auto

definition chat_up_rel :: "resp_proto \<Rightarrow> bool \<times> bool \<Rightarrow> bool" where
  "chat_up_rel p q \<longleftrightarrow> q = (rp_created p, rp_ended p) \<and> (rp_ended p \<longrightarrow> rp_created p)"

lemma chat_up_accepts:
  "chat_up_rel p q \<Longrightarrow> accepts resp_step p evts = Some p' \<Longrightarrow> \<exists>q'. accepts chat_up_step q evts = Some q' \<and> chat_up_rel p' q'"
proof (induction evts arbitrary: p q)
  case (Cons e evts)
  then obtain p1 where p1: "resp_step p e = Some p1" "accepts resp_step p1 evts = Some p'"
    by (auto split: option.splits)
  have "\<exists>q1. chat_up_step q e = Some q1 \<and> chat_up_rel p1 q1"
    using Cons.prems(1) p1(1)
    by (auto simp: chat_up_step_def chat_up_rel_def resp_step_def resp_terminal_def
        split: if_splits option.splits dest: item_event_types)
  then show ?case using Cons.IH [OF _ p1(2)] by fastforce
qed auto

lemma up_rel_init: "up_rel resp_init resp_up_init" "chat_up_rel resp_init (False, False)"
  by (simp_all add: up_rel_def resp_init_def resp_up_init_def chat_up_rel_def)

text \<open>
  (C31) A stream that starts as an Anthropic answer, is converted to Responses events and back, reaches
  an Anthropic client as a complete and well-formed Anthropic stream with the same text. The upstream
  may stop anywhere but inside a text block, with or without its terminal event.
\<close>

theorem anthropic_through_responses:
  assumes "accepts anth_basic_step anth_init evts = Some q" and "ap_started q" and "ap_open q \<noteq> Some ''text''"
  shows "let mid = snd (anthropic_responses_stream
               ((NewAnthropicEventToResponsesState now)\<lparr>aer_Model := model\<rparr>) evts);
             out = snd (responses_anthropic_stream j
               ((NewResponsesEventToAnthropicState now')\<lparr>rea_Model := model'\<rparr>) mid)
         in (\<exists>p. accepts anth_step anth_init out = Some p \<and> ap_stopped p)
            \<and> gather anth_text out = gather (anth_text \<circ> snd) evts"
proof -
  let ?mid = "snd (anthropic_responses_stream ((NewAnthropicEventToResponsesState now)\<lparr>aer_Model := model\<rparr>) evts)"
  obtain p where p: "accepts resp_step resp_init ?mid = Some p" "rp_ended p"
    using complete_stream [OF assms] by blast
  have created: "rp_created p" using accepts_created [OF p(1)] p(2) by (simp add: resp_init_def)
  obtain q' where q': "accepts resp_up_step resp_up_init ?mid = Some q'" "up_rel p q'"
    using up_accepts [OF up_rel_init(1) p(1)] by blast
  have "rup_started q'" using q'(2) created by (simp add: up_rel_def)
  then show ?thesis
    using rea_complete [OF q'(1), where j = j and now = now' and model = model'] rea_stream_text [of j _ ?mid] stream_text
    by (simp add: Let_def)
qed

theorem anthropic_through_responses_witness:
  "let mid = snd (anthropic_responses_stream
         ((NewAnthropicEventToResponsesState 7)\<lparr>aer_Model := ''m''\<rparr>) anth_tool_stream);
       out = snd (responses_anthropic_stream json_none
         ((NewResponsesEventToAnthropicState 8)\<lparr>rea_Model := ''m''\<rparr>) mid)
   in (\<exists>p. accepts anth_step anth_init out = Some p \<and> ap_stopped p)
      \<and> gather anth_text out = gather (anth_text \<circ> snd) anth_tool_stream"
  using anth_tool_stream_accepted by (rule anthropic_through_responses) simp_all

text \<open>
  (C32) The same stream reaches a Chat Completions client: what the client gets is a well-formed sequence
  of chunks that ends with a finish reason, and its text is that of the Anthropic answer.
\<close>

theorem anthropic_to_chat_client:
  assumes "accepts anth_basic_step anth_init evts = Some q" and "ap_started q" and "ap_open q \<noteq> Some ''text''"
  shows "let mid = snd (anthropic_responses_stream
               ((NewAnthropicEventToResponsesState now)\<lparr>aer_Model := model\<rparr>) evts);
             out = snd (responses_chat_stream ((NewResponsesEventToChatState newID now')
               \<lparr>rec_Model := model', rec_IncludeUsage := iu\<rparr>) mid)
         in (\<exists>p. accepts chat_step chat_init out = Some p \<and> cp_finished p)
            \<and> gather chat_text out = gather (anth_text \<circ> snd) evts"
proof -
  let ?mid = "snd (anthropic_responses_stream ((NewAnthropicEventToResponsesState now)\<lparr>aer_Model := model\<rparr>) evts)"
  obtain p where p: "accepts resp_step resp_init ?mid = Some p" "rp_ended p"
    using complete_stream [OF assms] by blast
  have created: "rp_created p" using accepts_created [OF p(1)] p(2) by (simp add: resp_init_def)
  obtain q' where q': "accepts chat_up_step (False, False) ?mid = Some q'" "chat_up_rel p q'"
    using chat_up_accepts [OF up_rel_init(2) p(1)] by blast
  have "fst q'" using q'(2) created by (simp add: chat_up_rel_def)
  then show ?thesis
    using chat_complete [OF q'(1), where newID = newID and now = now' and model = model' and iu = iu] chat_text_stream [of _ ?mid] stream_text
    by (simp add: Let_def)
qed

theorem anthropic_to_chat_client_witness:
  "let mid = snd (anthropic_responses_stream
         ((NewAnthropicEventToResponsesState 7)\<lparr>aer_Model := ''m''\<rparr>) anth_tool_stream);
       out = snd (responses_chat_stream ((NewResponsesEventToChatState ''i'' 8)
         \<lparr>rec_Model := ''m'', rec_IncludeUsage := True\<rparr>) mid)
   in (\<exists>p. accepts chat_step chat_init out = Some p \<and> cp_finished p)
      \<and> gather chat_text out = gather (anth_text \<circ> snd) anth_tool_stream"
  using anth_tool_stream_accepted by (rule anthropic_to_chat_client) simp_all

subsection \<open>Token counts across the protocols\<close>

text \<open>
  Token counts survive the way from Anthropic to Responses and back: input, output, cache reads and
  cache creations are the ones the upstream reported, although Responses counts cached tokens as input.
\<close>

theorem usage_round_trip:
  assumes "0 \<le> inp" "0 \<le> cached"
  shows "anthropicUsageFromResponsesUsage (Some (responses_usage_of_anthropic inp out cached creation)) =
    zero_AnthropicUsage\<lparr>au_InputTokens := inp, au_OutputTokens := out, au_CacheReadInputTokens := cached,
      au_CacheCreationInputTokens := creation\<rparr>"
  using assms
  by (simp add: anthropicUsageFromResponsesUsage_def responses_usage_of_anthropic_def Let_def zero_defs)

theorem usage_round_trip_witness:
  "anthropicUsageFromResponsesUsage (Some (responses_usage_of_anthropic 3 5 7 2)) =
     zero_AnthropicUsage\<lparr>au_InputTokens := 3, au_OutputTokens := 5, au_CacheReadInputTokens := 7,
       au_CacheCreationInputTokens := 2\<rparr>"
  by (rule usage_round_trip) simp_all

text \<open>
  Token counts on the way from Anthropic to Chat Completions: the prompt contains the cached tokens,
  the details name them, and the total is the sum of prompt and completion.
\<close>

theorem usage_anthropic_to_chat:
  assumes "0 \<le> inp" "0 \<le> out" "0 \<le> cached" "0 \<le> creation"
  shows "\<exists>cu. chatUsageFromResponsesUsage (Some (responses_usage_of_anthropic inp out cached creation)) = Some cu
     \<and> cu_PromptTokens cu = inp + cached + creation \<and> cu_CompletionTokens cu = out
     \<and> cu_TotalTokens cu = cu_PromptTokens cu + cu_CompletionTokens cu
     \<and> (case cu_PromptTokensDetails cu of
          None \<Rightarrow> cached = 0 \<and> creation = 0
        | Some d \<Rightarrow> ctd_CachedTokens d = cached \<and> ctd_CacheCreationTokens d = creation)"
  using assms
  by (auto simp: chatUsageFromResponsesUsage_def responses_usage_of_anthropic_def promptDetailsFromResponses_def
      completionDetailsFromResponses_def Let_def zero_defs)

theorem usage_anthropic_to_chat_witness:
  "\<exists>cu. chatUsageFromResponsesUsage (Some (responses_usage_of_anthropic 3 5 7 2)) = Some cu
     \<and> cu_PromptTokens cu = 3 + 7 + 2 \<and> cu_CompletionTokens cu = 5
     \<and> cu_TotalTokens cu = cu_PromptTokens cu + cu_CompletionTokens cu
     \<and> (case cu_PromptTokensDetails cu of
          None \<Rightarrow> 7 = (0::int) \<and> 2 = (0::int)
        | Some d \<Rightarrow> ctd_CachedTokens d = 7 \<and> ctd_CacheCreationTokens d = 2)"
  by (rule usage_anthropic_to_chat) simp_all

subsection \<open>Whole answers\<close>

definition block_text :: "AnthropicContentBlock \<Rightarrow> string" where
  "block_text b = (if acb_Type b = ''text'' then acb_Text b else [])"

definition block_thinking :: "AnthropicContentBlock \<Rightarrow> string" where
  "block_thinking b = (if acb_Type b = ''thinking'' then acb_Thinking b else [])"

text \<open>Identifier, name and arguments of a tool call, as the answer carries them on.\<close>

definition block_call :: "json_lib \<Rightarrow> AnthropicContentBlock \<Rightarrow> (string \<times> string \<times> string) list" where
  "block_call j b = (if acb_Type b = ''tool_use'' then [(fromResponsesCallID (acb_ID b), acb_Name b,
     sanitizeAnthropicToolUseInput j (acb_Name b) (if acb_Input b \<noteq> [] then acb_Input b else ''{}''))] else [])"

definition view_call :: "AnthropicContentBlock \<Rightarrow> (string \<times> string \<times> string) list" where
  "view_call b = (if acb_Type b = ''tool_use'' then [(acb_ID b, acb_Name b, acb_Input b)] else [])"

definition back_blocks :: "json_lib \<Rightarrow> ResponsesOutput list \<Rightarrow> AnthropicContentBlock list" where
  "back_blocks j items = concat (map (responses_item_blocks j) items)"

lemma back_blocks_simps [simp]:
  "back_blocks j [] = []" "back_blocks j (xs @ ys) = back_blocks j xs @ back_blocks j ys"
  "back_blocks j (x # xs) = responses_item_blocks j x @ back_blocks j xs"
  by (simp_all add: back_blocks_def)

lemma loop_views:
  assumes "anth_content_loop ids blocks (outs, parts, k) = (outs', parts', k')"
    and "list_all (\<lambda>p. rcp_Type p = ''output_text'' \<and> rcp_Text p \<noteq> []) parts"
  shows "gather view_call (back_blocks j outs') = gather view_call (back_blocks j outs) @ gather (block_call j) blocks
    \<and> gather block_thinking (back_blocks j outs') = gather block_thinking (back_blocks j outs) @ gather block_thinking blocks
    \<and> gather block_text (back_blocks j outs') = gather block_text (back_blocks j outs)
    \<and> gather rcp_Text parts' = gather rcp_Text parts @ gather block_text blocks
    \<and> list_all (\<lambda>p. rcp_Type p = ''output_text'' \<and> rcp_Text p \<noteq> []) parts'"
  using assms
proof (induction ids blocks "(outs, parts, k)" arbitrary: outs parts k rule: anth_content_loop.induct)
  case (1 ids outs parts k)
  then show ?case by simp
next
  case (2 ids b blocks outs parts k)
  show ?case
    using 2
    by (simp add: responses_item_blocks_def view_call_def block_call_def block_thinking_def block_text_def
        toResponsesCallID_def zero_defs split: if_splits)
qed

lemma message_item_views [simp]:
  assumes "list_all (\<lambda>p. rcp_Type p = ''output_text'' \<and> rcp_Text p \<noteq> []) parts"
  shows "gather view_call (responses_item_blocks j (message_item i parts)) = []"
    "gather block_thinking (responses_item_blocks j (message_item i parts)) = []"
    "gather block_text (responses_item_blocks j (message_item i parts)) = gather rcp_Text parts"
  using assms
  by (induction parts) (auto simp: message_item_def responses_item_blocks_def view_call_def block_thinking_def
      block_text_def)

lemma default_message_blocks [simp]:
  "responses_item_blocks j (message_item i [zero_ResponsesContentPart\<lparr>rcp_Type := ''output_text'', rcp_Text := []\<rparr>]) = []"
  by (simp add: message_item_def responses_item_blocks_def)


end
